(* ===== verification/Prelude.thy ===== *)
theory Prelude
  imports Main "HOL-Library.Monad_Syntax" "HOL-Library.Multiset"
begin

text \<open>
  Shared material of the development: the result and response types of the handlers, Go's
  integer ranges, the table operations every SQL statement of the model is made of (selection
  of rows, conditional update, ordering with a limit), and the generic lemmas about lists the
  component theories use.
\<close>

section \<open>Collections of facts\<close>

named_theorems table_simps \<open>simplification rules for tables, selections and updates\<close>
named_theorems range_simps \<open>simplification rules for machine integer ranges\<close>
named_theorems http_simps \<open>simplification rules for statuses and responses\<close>

section \<open>Types shared by the components\<close>

type_synonym timestamp = int
type_synonym duration = int
type_synonym byte_string = string

text \<open>What a handler writes: an error body, a JSON body, or a bare status.\<close>

datatype 'a response =
    APIError int string string
  | JSON int 'a
  | NoBody int

text \<open>An error as the helpers pass it on: status, code and message.\<close>

type_synonym api_error = "int \<times> string \<times> string"

definition writeAPIError :: "api_error \<Rightarrow> 'a response" where
  "writeAPIError e = (case e of (status, code, msg) \<Rightarrow> APIError status code msg)"

primrec response_status :: "'a response \<Rightarrow> int" where
  "response_status (APIError s c m) = s"
| "response_status (JSON s a) = s"
| "response_status (NoBody s) = s"

text \<open>How a database statement can fail.\<close>

datatype db_error = ForeignKeyViolation | UniqueViolation | CheckViolation | OutOfRange | Unavailable

text \<open>
  The outcome of a COMMIT as the client sees it: an error may leave the transaction applied
  (the answer was lost) or not applied.
\<close>

datatype commit_outcome = CommitOk | CommitLostApplied | CommitLostNotApplied

section \<open>Machine integers\<close>

definition int64_max :: int where "int64_max = 9223372036854775807"
definition int64_min :: int where "int64_min = -9223372036854775808"

definition fits_int64 :: "int \<Rightarrow> bool" where
  "fits_int64 i \<longleftrightarrow> int64_min \<le> i \<and> i \<le> int64_max"

text \<open>Go's integer division truncates towards zero.\<close>

definition go_div :: "int \<Rightarrow> int \<Rightarrow> int" where
  "go_div a b = sgn a * sgn b * (\<bar>a\<bar> div \<bar>b\<bar>)"

section \<open>Tables\<close>

text \<open>\<open>UPDATE ... SET f WHERE p\<close> on a table and the number of rows it affects.\<close>

definition update_rows :: "('r \<Rightarrow> bool) \<Rightarrow> ('r \<Rightarrow> 'r) \<Rightarrow> 'r list \<Rightarrow> 'r list" where
  "update_rows p f rows = map (\<lambda>r. if p r then f r else r) rows"

definition rows_affected :: "('r \<Rightarrow> bool) \<Rightarrow> 'r list \<Rightarrow> nat" where
  "rows_affected p rows = length (filter p rows)"

text \<open>\<open>SELECT ... WHERE p ORDER BY key LIMIT n\<close>, ascending.\<close>

definition select_limit :: "('r \<Rightarrow> bool) \<Rightarrow> ('r \<Rightarrow> 'k::linorder) \<Rightarrow> int \<Rightarrow> 'r list \<Rightarrow> 'r list" where
  "select_limit p key n rows = take (nat n) (sort_key key (filter p rows))"

section \<open>Generic lemmas\<close>

lemma writeAPIError_triple [simp]: "writeAPIError (status, code, msg) = APIError status code msg"
  by (simp add: writeAPIError_def)

lemma fits_int64_iff [range_simps]:
  "fits_int64 i \<longleftrightarrow> -9223372036854775808 \<le> i \<and> i \<le> 9223372036854775807"
  by (simp add: fits_int64_def int64_max_def int64_min_def)

lemma go_div_nonneg: "0 \<le> a \<Longrightarrow> 0 < b \<Longrightarrow> go_div a b = a div b"
  by (cases "a = 0") (auto simp: go_div_def)

lemma update_rows_Nil [simp]: "update_rows p f [] = []"
  by (simp add: update_rows_def)

lemma update_rows_Cons [simp]:
  "update_rows p f (r # rs) = (if p r then f r else r) # update_rows p f rs"
  by (simp add: update_rows_def)

lemma update_rows_append [simp]: "update_rows p f (rs @ ss) = update_rows p f rs @ update_rows p f ss"
  by (simp add: update_rows_def)

lemma length_update_rows [simp]: "length (update_rows p f rows) = length rows"
  by (simp add: update_rows_def)

lemma set_update_rows: "set (update_rows p f rows) = (\<lambda>r. if p r then f r else r) ` set rows"
  by (simp add: update_rows_def)

lemma update_rows_none: "(\<And>r. r \<in> set rows \<Longrightarrow> \<not> p r) \<Longrightarrow> update_rows p f rows = rows"
  unfolding update_rows_def by (rule map_idI) simp

lemma map_update_rows_key [table_simps]:
  "(\<And>r. k (f r) = k r) \<Longrightarrow> map k (update_rows p f rows) = map k rows"
  by (simp add: update_rows_def)

lemma filter_update_rows:
  "(\<And>r. p (f r) = p r) \<Longrightarrow> filter p (update_rows p f rows) = map f (filter p rows)"
  by (induction rows) simp_all

lemma find_update_rows:
  "(\<And>r. p r \<Longrightarrow> q (f r) = q r) \<Longrightarrow>
   find q (update_rows p f rows) = map_option (\<lambda>r. if p r then f r else r) (find q rows)"
  by (induction rows) auto

lemma find_cong_set:
  "(\<And>x. x \<in> set xs \<Longrightarrow> P x = Q x) \<Longrightarrow> find P xs = find Q xs"
  by (induction xs) auto

lemma find_append: "find P (xs @ ys) = (case find P xs of None \<Rightarrow> find P ys | Some x \<Rightarrow> Some x)"
  by (induction xs) auto

lemma find_SomeD: "find P xs = Some x \<Longrightarrow> x \<in> set xs \<and> P x"
  by (induction xs) (auto split: if_splits)

lemma find_NoneD: "find P xs = None \<Longrightarrow> x \<in> set xs \<Longrightarrow> \<not> P x"
  by (simp add: find_None_iff)

lemma find_distinct_key:
  assumes "distinct (map k xs)" and "x \<in> set xs" and "\<And>y. P y \<longleftrightarrow> k y = k x"
  shows "find P xs = Some x"
  using assms by (induction xs) force+

lemma rows_affected_pos: "0 < rows_affected p rows \<longleftrightarrow> (\<exists>r \<in> set rows. p r)"
  by (induction rows) (auto simp: rows_affected_def)

lemma rows_affected_zero: "rows_affected p rows = 0 \<longleftrightarrow> (\<forall>r \<in> set rows. \<not> p r)"
  by (induction rows) (auto simp: rows_affected_def)

text \<open>An integer interval, listed without repetition in ascending order, is \<open>upto\<close>.\<close>

lemma sorted_interval:
  fixes xs :: "int list"
  assumes "sorted xs" and "distinct xs" and "set xs = {i..j}"
  shows "xs = [i..j]"
  by (rule sorted_distinct_set_unique) (use assms in auto)

lemma take_upto: "take n [i..j::int] = [i..min j (i + int n - 1)]"
proof (induction n arbitrary: i)
  case 0
  then show ?case by simp
next
  case (Suc n)
  show ?case
  proof (cases "i \<le> j")
    case True
    then have "[i..j] = i # [i + 1..j]" by (rule upto_rec1)
    then have "take (Suc n) [i..j] = i # [i + 1..min j (i + int n)]"
      by (simp add: Suc.IH)
    also have "\<dots> = [i..min j (i + int n)]"
      using True by (subst (2) upto_rec1) auto
    finally show ?thesis by simp
  next
    case False
    then show ?thesis by simp
  qed
qed

lemma drop_upto: "drop n [i..j::int] = [i + int n..j]"
proof (induction n arbitrary: i)
  case 0
  then show ?case by simp
next
  case (Suc n)
  show ?case
  proof (cases "i \<le> j")
    case True
    then have "[i..j] = i # [i + 1..j]" by (rule upto_rec1)
    then show ?thesis by (simp add: Suc.IH add.assoc)
  next
    case False
    then show ?thesis by simp
  qed
qed

lemma last_upto: "i \<le> j \<Longrightarrow> last [i..j::int] = j"
  by (simp add: upto_rec2)

text \<open>The select used by every page query, on a table whose key is unique.\<close>

lemma map_key_select_limit:
  fixes key :: "'r \<Rightarrow> int"
  assumes "distinct (map key rows)" and "key ` {r \<in> set rows. p r} = {i..j}" and "0 \<le> n"
  shows "map key (select_limit p key n rows) = [i..min j (i + n - 1)]"
proof -
  let ?s = "sort_key key (filter p rows)"
  have "distinct (map key (filter p rows))"
    using assms(1) by (simp add: distinct_map_filter)
  then have "distinct (map key ?s)"
    by (metis distinct_map distinct_sort set_sort)
  moreover have "sorted (map key ?s)" by simp
  moreover have "set (map key ?s) = {i..j}"
    using assms(2) by simp
  ultimately have "map key ?s = [i..j]" by (intro sorted_interval)
  then show ?thesis
    using assms(3) by (simp add: select_limit_def take_map [symmetric] take_upto)
qed

lemma map_sort_key: "map key (sort_key key xs) = sort (map key xs)"
  by (rule properties_for_sort [symmetric]) simp_all

lemma map_filter_total:
  "(\<And>x. x \<in> set xs \<Longrightarrow> \<exists>y. f x = Some y \<and> k y = h x) \<Longrightarrow> map k (List.map_filter f xs) = map h xs"
  by (induction xs) fastforce+

lemma set_map_filter_eq: "set (List.map_filter f xs) = {y. \<exists>x \<in> set xs. f x = Some y}"
  by (induction xs) (auto split: option.splits)

lemma image_select: "f ` {x \<in> A. P (f x)} = {y \<in> f ` A. P y}"
  by auto

lemma set_select_limit: "set (select_limit p key n rows) \<subseteq> {r \<in> set rows. p r}"
  unfolding select_limit_def by (auto dest: in_set_takeD)

lemma distinct_mapD: "distinct (map f xs) \<Longrightarrow> distinct xs"
  by (simp add: distinct_map)

lemma distinct_key_eq: "distinct (map k xs) \<Longrightarrow> x \<in> set xs \<Longrightarrow> y \<in> set xs \<Longrightarrow> k x = k y \<Longrightarrow> x = y"
  by (auto simp: distinct_map dest: inj_onD)

text \<open>A row that a limited select leaves out comes after all the rows it took, and the limit is used up.\<close>

lemma select_limit_left_out:
  assumes "r \<in> set rows" and "p r" and "r \<notin> set (select_limit p key n rows)"
  shows "length (select_limit p key n rows) = nat n" and "\<forall>x \<in> set (select_limit p key n rows). key x \<le> key r"
proof -
  let ?s = "sort_key key (filter p rows)"
  have "r \<in> set ?s" using assms(1,2) by simp
  then have drop: "r \<in> set (drop (nat n) ?s)"
    using assms(3) unfolding select_limit_def by (metis Un_iff append_take_drop_id set_append)
  then have "nat n < length ?s" by (metis drop_all empty_iff linorder_not_le list.set(1))
  then show "length (select_limit p key n rows) = nat n" by (simp add: select_limit_def)
  have "sorted (map key (take (nat n) ?s) @ map key (drop (nat n) ?s))"
    by (metis append_take_drop_id map_append sorted_sort_key)
  then show "\<forall>x \<in> set (select_limit p key n rows). key x \<le> key r"
    using drop by (auto simp: sorted_append select_limit_def)
qed

lemma length_select_limit: "length (select_limit p key n rows) \<le> nat n"
  by (simp add: select_limit_def)

end
