(* ===== verification/GoStrings.thy ===== *)
theory GoStrings
  imports Prelude
begin

text \<open>
  The string functions of Go's standard library that the program calls, over byte strings
  (a Go string is a byte sequence; a \<open>char\<close> of HOL is a byte): decimal formatting and parsing
  (\<open>strconv\<close>), rune counting (\<open>unicode/utf8\<close>), trimming, splitting, joining and case folding
  (\<open>strings\<close>), and unpadded base64 (\<open>encoding/base64\<close>).
\<close>

section \<open>Bytes\<close>

abbreviation byte :: "char \<Rightarrow> nat" where
  "byte c \<equiv> of_char c"

definition is_digit :: "char \<Rightarrow> bool" where
  "is_digit c \<longleftrightarrow> 48 \<le> byte c \<and> byte c \<le> 57"

definition is_lower :: "char \<Rightarrow> bool" where
  "is_lower c \<longleftrightarrow> 97 \<le> byte c \<and> byte c \<le> 122"

definition is_upper :: "char \<Rightarrow> bool" where
  "is_upper c \<longleftrightarrow> 65 \<le> byte c \<and> byte c \<le> 90"

definition ascii_lower :: "char \<Rightarrow> char" where
  "ascii_lower c = (if is_upper c then char_of (byte c + 32) else c)"

definition ascii_upper :: "char \<Rightarrow> char" where
  "ascii_upper c = (if is_lower c then char_of (byte c - 32) else c)"

definition is_ascii :: "string \<Rightarrow> bool" where
  "is_ascii s \<longleftrightarrow> list_all (\<lambda>c. byte c < 128) s"

section \<open>strconv: FormatInt, ParseInt, Atoi\<close>

definition digit_char :: "nat \<Rightarrow> char" where
  "digit_char d = char_of (48 + d)"

fun format_nat :: "nat \<Rightarrow> string" where
  "format_nat n = (if n < 10 then [digit_char n] else format_nat (n div 10) @ [digit_char (n mod 10)])"

declare format_nat.simps [simp del]

definition FormatInt :: "int \<Rightarrow> string" where
  "FormatInt i = (if i < 0 then CHR ''-'' # format_nat (nat (- i)) else format_nat (nat i))"

definition digits_value :: "string \<Rightarrow> nat" where
  "digits_value s = foldl (\<lambda>acc c. acc * 10 + (byte c - 48)) 0 s"

definition parse_digits :: "string \<Rightarrow> nat option" where
  "parse_digits s = (if s \<noteq> [] \<and> list_all is_digit s then Some (digits_value s) else None)"

text \<open>
  \<open>ParseInt (s, 10, bits)\<close>: an optional sign, at least one decimal digit, and a value in the
  signed range; a syntax or range error is \<open>None\<close>. \<open>Atoi\<close> is the 64-bit instance.
\<close>

definition ParseInt :: "nat \<Rightarrow> string \<Rightarrow> int option" where
  "ParseInt bits s =
     (let (neg, ds) = (case s of [] \<Rightarrow> (False, [])
                       | c # cs \<Rightarrow> if c = CHR ''+'' then (False, cs)
                                   else if c = CHR ''-'' then (True, cs) else (False, s))
      in case parse_digits ds of
           None \<Rightarrow> None
         | Some n \<Rightarrow> (let v = (if neg then - int n else int n)
                      in if - (2 ^ (bits - 1)) \<le> v \<and> v < 2 ^ (bits - 1) then Some v else None))"

abbreviation Atoi :: "string \<Rightarrow> int option" where
  "Atoi s \<equiv> ParseInt 64 s"

section \<open>unicode/utf8: RuneCountInString\<close>

abbreviation in_range :: "nat \<Rightarrow> nat \<Rightarrow> char \<Rightarrow> bool" where
  "in_range lo hi c \<equiv> lo \<le> byte c \<and> byte c \<le> hi"

text \<open>
  The width of the encoded rune at the head of a non-empty string: an invalid sequence counts as
  a rune of width one.
\<close>

fun rune_width :: "string \<Rightarrow> nat" where
  "rune_width (a # b # c # d # s) =
     (if in_range 0xC2 0xDF a \<and> in_range 0x80 0xBF b then 2
      else if (in_range 0xE0 0xE0 a \<and> in_range 0xA0 0xBF b \<or> in_range 0xE1 0xEC a \<and> in_range 0x80 0xBF b
               \<or> in_range 0xED 0xED a \<and> in_range 0x80 0x9F b \<or> in_range 0xEE 0xEF a \<and> in_range 0x80 0xBF b)
              \<and> in_range 0x80 0xBF c then 3
      else if (in_range 0xF0 0xF0 a \<and> in_range 0x90 0xBF b \<or> in_range 0xF1 0xF3 a \<and> in_range 0x80 0xBF b
               \<or> in_range 0xF4 0xF4 a \<and> in_range 0x80 0x8F b)
              \<and> in_range 0x80 0xBF c \<and> in_range 0x80 0xBF d then 4
      else 1)"
| "rune_width [a, b, c] =
     (if in_range 0xC2 0xDF a \<and> in_range 0x80 0xBF b then 2
      else if (in_range 0xE0 0xE0 a \<and> in_range 0xA0 0xBF b \<or> in_range 0xE1 0xEC a \<and> in_range 0x80 0xBF b
               \<or> in_range 0xED 0xED a \<and> in_range 0x80 0x9F b \<or> in_range 0xEE 0xEF a \<and> in_range 0x80 0xBF b)
              \<and> in_range 0x80 0xBF c then 3
      else 1)"
| "rune_width [a, b] = (if in_range 0xC2 0xDF a \<and> in_range 0x80 0xBF b then 2 else 1)"
| "rune_width s = 1"

lemma rune_width_pos: "0 < rune_width s"
  by (induction s rule: rune_width.induct) auto

function RuneCountInString :: "string \<Rightarrow> nat" where
  "RuneCountInString [] = 0"
| "RuneCountInString (c # s) = Suc (RuneCountInString (drop (rune_width (c # s)) (c # s)))"
  by pat_completeness auto
termination
  by (relation "measure length") (use rune_width_pos in \<open>auto simp: drop_Cons' less_Suc_eq_le\<close>)

section \<open>strings: TrimSpace, Split, Join, Fields, ToLower, EqualFold\<close>

definition ascii_space :: "char \<Rightarrow> bool" where
  "ascii_space c \<longleftrightarrow> byte c \<in> {9, 10, 11, 12, 13, 32}"

text \<open>The white-space runes beyond ASCII, by their encodings.\<close>

definition unicode_spaces :: "string list" where
  "unicode_spaces = map (map char_of)
     ([[0xC2, 0x85], [0xC2, 0xA0], [0xE1, 0x9A, 0x80], [0xE2, 0x80, 0xA8], [0xE2, 0x80, 0xA9],
       [0xE2, 0x80, 0xAF], [0xE2, 0x81, 0x9F], [0xE3, 0x80, 0x80]]
      @ map (\<lambda>k. [0xE2, 0x80, 0x80 + k]) [0..<11])"

text \<open>The width of the white-space rune a string starts with; zero when it starts with none.\<close>

definition space_width :: "string \<Rightarrow> nat" where
  "space_width s = (case s of [] \<Rightarrow> 0
     | c # _ \<Rightarrow> if ascii_space c then 1
                else (case find (\<lambda>u. take (length u) s = u) unicode_spaces of None \<Rightarrow> 0 | Some u \<Rightarrow> length u))"

definition last_space_width :: "string \<Rightarrow> nat" where
  "last_space_width s = (if s = [] then 0
     else if ascii_space (last s) then 1
     else (case find (\<lambda>u. length u \<le> length s \<and> drop (length s - length u) s = u) unicode_spaces of
             None \<Rightarrow> 0 | Some u \<Rightarrow> length u))"

function trim_left :: "string \<Rightarrow> string" where
  "trim_left s = (if space_width s = 0 \<or> s = [] then s else trim_left (drop (space_width s) s))"
  by pat_completeness auto
termination
  by (relation "measure length") auto

function trim_right :: "string \<Rightarrow> string" where
  "trim_right s = (if last_space_width s = 0 \<or> s = [] then s
                   else trim_right (take (length s - last_space_width s) s))"
  by pat_completeness auto
termination
  by (relation "measure length") auto

declare trim_left.simps [simp del] trim_right.simps [simp del]

definition TrimSpace :: "string \<Rightarrow> string" where
  "TrimSpace s = trim_right (trim_left s)"

text \<open>Splitting at every occurrence of one separator byte, and the inverse join.\<close>

fun split_at :: "char \<Rightarrow> string \<Rightarrow> string list" where
  "split_at d [] = [[]]"
| "split_at d (c # cs) =
     (if c = d then [] # split_at d cs
      else (case split_at d cs of [] \<Rightarrow> [[c]] | w # ws \<Rightarrow> (c # w) # ws))"

fun join_with :: "string \<Rightarrow> string list \<Rightarrow> string" where
  "join_with sep [] = []"
| "join_with sep [w] = w"
| "join_with sep (w # v # ws) = w @ sep @ join_with sep (v # ws)"

text \<open>\<open>SplitN (s, d, 2)\<close>: at most one split, at the first separator.\<close>

definition split_first :: "char \<Rightarrow> string \<Rightarrow> string list" where
  "split_first d s = (if d \<in> set s
     then [takeWhile (\<lambda>c. c \<noteq> d) s, tl (dropWhile (\<lambda>c. c \<noteq> d) s)] else [s])"

text \<open>
  Lower-casing is a table look-up outside ASCII (package \<open>unicode\<close>): the table enters as the
  parameter \<open>table\<close>, used exactly where the ASCII fast path does not apply.
\<close>

definition ToLower :: "(string \<Rightarrow> string) \<Rightarrow> string \<Rightarrow> string" where
  "ToLower table s = (if is_ascii s then map ascii_lower s else table s)"

definition HasPrefix :: "string \<Rightarrow> string \<Rightarrow> bool" where
  "HasPrefix s p \<longleftrightarrow> take (length p) s = p"

section \<open>encoding/base64: RawStdEncoding and RawURLEncoding\<close>

definition std_alphabet :: string where
  "std_alphabet = ''ABCDEFGHIJKLMNOPQRSTUVWXYZabcdefghijklmnopqrstuvwxyz0123456789+/''"

definition url_alphabet :: string where
  "url_alphabet = ''ABCDEFGHIJKLMNOPQRSTUVWXYZabcdefghijklmnopqrstuvwxyz0123456789-_''"

fun base64_groups :: "nat list \<Rightarrow> nat list" where
  "base64_groups [] = []"
| "base64_groups [x] = [x div 4, x mod 4 * 16]"
| "base64_groups [x, y] = [x div 4, x mod 4 * 16 + y div 16, y mod 16 * 4]"
| "base64_groups (x # y # z # s) =
     x div 4 # (x mod 4 * 16 + y div 16) # (y mod 16 * 4 + z div 64) # z mod 64 # base64_groups s"

fun base64_ungroup :: "nat list \<Rightarrow> nat list option" where
  "base64_ungroup [] = Some []"
| "base64_ungroup [a] = None"
| "base64_ungroup [a, b] = Some [a * 4 + b div 16]"
| "base64_ungroup [a, b, c] = Some [a * 4 + b div 16, b mod 16 * 16 + c div 4]"
| "base64_ungroup (a # b # c # d # s) =
     map_option (\<lambda>r. (a * 4 + b div 16) # (b mod 16 * 16 + c div 4) # (c mod 4 * 64 + d) # r)
       (base64_ungroup s)"

definition index_of :: "char \<Rightarrow> string \<Rightarrow> nat option" where
  "index_of c s = (let i = length (takeWhile (\<lambda>x. x \<noteq> c) s) in if i < length s then Some i else None)"

fun sequence_option :: "'a option list \<Rightarrow> 'a list option" where
  "sequence_option [] = Some []"
| "sequence_option (None # xs) = None"
| "sequence_option (Some x # xs) = map_option (\<lambda>r. x # r) (sequence_option xs)"

definition EncodeToString :: "string \<Rightarrow> byte_string \<Rightarrow> string" where
  "EncodeToString alphabet s = map (\<lambda>i. alphabet ! i) (base64_groups (map byte s))"

text \<open>The decoder skips line breaks and refuses any other byte outside the alphabet.\<close>

definition DecodeString :: "string \<Rightarrow> string \<Rightarrow> byte_string option" where
  "DecodeString alphabet s =
     (case sequence_option (map (\<lambda>c. index_of c alphabet) (filter (\<lambda>c. byte c \<noteq> 10 \<and> byte c \<noteq> 13) s)) of
        None \<Rightarrow> None
      | Some ds \<Rightarrow> map_option (map char_of) (base64_ungroup ds))"

text \<open>The ASCII bytes other than white space: no white-space rune starts or ends with one.\<close>

definition narrow :: "char \<Rightarrow> bool" where
  "narrow c \<longleftrightarrow> byte c < 128 \<and> \<not> ascii_space c"

section \<open>encoding/hex\<close>

definition hex_digit :: "nat \<Rightarrow> char" where
  "hex_digit n = (if n < 10 then char_of (48 + n) else char_of (87 + n))"

definition hex_EncodeToString :: "byte_string \<Rightarrow> string" where
  "hex_EncodeToString bs = concat (map (\<lambda>c. [hex_digit (byte c div 16), hex_digit (byte c mod 16)]) bs)"

section \<open>White space\<close>

lemma wide_spaces: "\<forall>u \<in> set unicode_spaces. u \<noteq> [] \<and> 128 \<le> byte (hd u) \<and> 128 \<le> byte (last u)"
  by (auto simp: unicode_spaces_def)

lemma space_width_narrow [simp]:
  assumes "narrow c"
  shows "space_width (c # s) = 0"
proof -
  have "take (length u) (c # s) \<noteq> u" if "u \<in> set unicode_spaces" for u
  proof
    assume "take (length u) (c # s) = u"
    then have "u = [] \<or> hd u = c" by (cases u) auto
    then show False using wide_spaces that assms by (auto simp: narrow_def)
  qed
  then show ?thesis using assms by (simp add: space_width_def narrow_def find_None_iff [THEN iffD2])
qed

lemma last_space_width_narrow:
  assumes "narrow (last s)"
  shows "last_space_width s = 0"
proof -
  have "\<not> (length u \<le> length s \<and> drop (length s - length u) s = u)" if "u \<in> set unicode_spaces" for u
  proof
    assume "length u \<le> length s \<and> drop (length s - length u) s = u"
    moreover from this have "last u = last s" using wide_spaces that by (metis last_drop drop_eq_Nil not_le)
    ultimately show False using wide_spaces that assms by (auto simp: narrow_def)
  qed
  then show ?thesis using assms by (simp add: last_space_width_def narrow_def find_None_iff [THEN iffD2])
qed

lemma TrimSpace_narrow:
  assumes "narrow (hd s)" and "narrow (last s)"
  shows "TrimSpace s = s"
proof -
  have "trim_left s = s" by (subst trim_left.simps) (use assms(1) in \<open>cases s; simp\<close>)
  moreover have "trim_right s = s" by (subst trim_right.simps) (simp add: last_space_width_narrow [OF assms(2)])
  ultimately show ?thesis by (simp add: TrimSpace_def)
qed

lemma TrimSpace_Nil [simp]: "TrimSpace [] = []"
  by (simp add: TrimSpace_def trim_left.simps [of "[]"] trim_right.simps [of "[]"])

lemma TrimSpace_space: "ascii_space c \<Longrightarrow> TrimSpace (c # s) = TrimSpace s"
  by (simp add: TrimSpace_def trim_left.simps [of "c # s"] space_width_def)

section \<open>Decimal round trip\<close>

lemma byte_digit_char: "d < 10 \<Longrightarrow> byte (digit_char d) = 48 + d"
  by (simp add: digit_char_def)

lemma is_digit_digit_char: "d < 10 \<Longrightarrow> is_digit (digit_char d)"
  by (simp add: is_digit_def byte_digit_char)

lemma format_nat_nonempty [simp]: "format_nat n \<noteq> []"
  by (subst format_nat.simps) simp

lemma format_nat_digits: "list_all is_digit (format_nat n)"
proof (induction n rule: format_nat.induct)
  case (1 n)
  then show ?case
    by (subst format_nat.simps) (auto simp: is_digit_digit_char)
qed

lemma digits_value_snoc: "digits_value (s @ [c]) = digits_value s * 10 + (byte c - 48)"
  by (simp add: digits_value_def)

lemma digits_value_format_nat: "digits_value (format_nat n) = n"
proof (induction n rule: format_nat.induct)
  case (1 n)
  show ?case
  proof (cases "n < 10")
    case True
    then show ?thesis
      by (subst format_nat.simps) (simp add: digits_value_def byte_digit_char)
  next
    case False
    with 1 have "digits_value (format_nat (n div 10)) = n div 10" by simp
    with False show ?thesis
      by (subst format_nat.simps) (simp add: digits_value_snoc byte_digit_char)
  qed
qed

lemma parse_digits_format_nat [simp]: "parse_digits (format_nat n) = Some n"
  by (simp add: parse_digits_def format_nat_digits digits_value_format_nat)

lemma format_nat_inj: "format_nat m = format_nat n \<longleftrightarrow> m = n"
  by (metis digits_value_format_nat)

lemma hd_format_nat_digit: "is_digit (hd (format_nat n))"
  using format_nat_digits [of n] by (cases "format_nat n") auto

lemma sign_not_digit: "\<not> is_digit (CHR ''-'')" "\<not> is_digit (CHR ''+'')"
  by (simp_all add: is_digit_def)

lemma FormatInt_nonempty [simp]: "FormatInt i \<noteq> []"
  by (simp add: FormatInt_def)

lemma FormatInt_inj: "FormatInt i = FormatInt j \<longleftrightarrow> i = j"
proof
  assume eq: "FormatInt i = FormatInt j"
  have ne: "CHR ''-'' # s \<noteq> format_nat n" for s n
    using hd_format_nat_digit [of n] sign_not_digit(1) by (metis list.sel(1))
  from eq show "i = j"
    using ne by (auto simp: FormatInt_def format_nat_inj split: if_splits) (metis ne)+
qed simp

lemma ParseInt_FormatInt:
  assumes "fits_int64 i"
  shows "ParseInt 64 (FormatInt i) = Some i"
proof (cases "i < 0")
  case True
  then show ?thesis
    using assms by (simp add: ParseInt_def FormatInt_def fits_int64_iff)
next
  case False
  obtain c cs where cs: "format_nat (nat i) = c # cs"
    by (cases "format_nat (nat i)") auto
  then have "is_digit c" using hd_format_nat_digit [of "nat i"] by simp
  then have "c \<noteq> CHR ''-''" "c \<noteq> CHR ''+''" using sign_not_digit by auto
  with cs have "ParseInt 64 (format_nat (nat i)) = Some i"
    using False assms parse_digits_format_nat [of "nat i"]
    by (simp add: ParseInt_def fits_int64_iff)
  with False show ?thesis by (simp add: FormatInt_def)
qed

lemma ParseInt_range: "ParseInt 64 s = Some v \<Longrightarrow> fits_int64 v"
  by (auto simp: ParseInt_def fits_int64_iff Let_def split: option.splits if_splits list.splits prod.splits)

section \<open>Rune counts\<close>

lemma RuneCountInString_le_length: "RuneCountInString s \<le> length s"
proof (induction s rule: RuneCountInString.induct)
  case (2 c s)
  have "length (drop (rune_width (c # s)) (c # s)) < length (c # s)"
    using rune_width_pos [of "c # s"] by simp
  with 2 show ?case by simp
qed simp

lemma rune_width_le4: "rune_width s \<le> 4"
  by (induction s rule: rune_width.induct) auto

lemma length_le_RuneCountInString: "length s \<le> 4 * RuneCountInString s"
proof (induction s rule: RuneCountInString.induct)
  case (2 c s)
  have "length (c # s) \<le> rune_width (c # s) + length (drop (rune_width (c # s)) (c # s))"
    by simp
  with 2 rune_width_le4 [of "c # s"] show ?case by simp
qed simp

lemma RuneCountInString_zero: "RuneCountInString s = 0 \<longleftrightarrow> s = []"
  by (cases s) auto

section \<open>Splitting and joining\<close>

lemma split_at_nonempty [simp]: "split_at d s \<noteq> []"
  by (induction s) (auto split: list.splits)

lemma join_split_at: "join_with [d] (split_at d s) = s"
proof (induction s)
  case (Cons c s)
  obtain w ws where "split_at d s = w # ws" by (cases "split_at d s") auto
  with Cons show ?case by (cases ws) auto
qed simp

lemma split_at_no_sep: "d \<notin> set s \<Longrightarrow> split_at d s = [s]"
  by (induction s) auto

lemma in_split_at_no_sep: "w \<in> set (split_at d s) \<Longrightarrow> d \<notin> set w"
proof (induction s arbitrary: w)
  case (Cons c s)
  then show ?case
    by (cases "split_at d s") (auto split: if_splits)
qed simp

section \<open>Base64 round trip\<close>

lemma base64_ungroup_groups:
  "list_all (\<lambda>x. x < 256) xs \<Longrightarrow> base64_ungroup (base64_groups xs) = Some xs"
  by (induction xs rule: base64_groups.induct) auto

lemma base64_groups_bound:
  "list_all (\<lambda>x. x < 256) xs \<Longrightarrow> list_all (\<lambda>x. x < 64) (base64_groups xs)"
  by (induction xs rule: base64_groups.induct) auto

lemma length_base64_groups: "length (base64_groups xs) = (4 * length xs + 2) div 3"
  by (induction xs rule: base64_groups.induct) auto

lemma index_of_nth:
  "distinct s \<Longrightarrow> i < length s \<Longrightarrow> index_of (s ! i) s = Some i"
  by (simp add: index_of_def takeWhile_eq_take_P_nth [where n = i] nth_eq_iff_index_eq)

lemma sequence_option_map_Some: "sequence_option (map Some xs) = Some xs"
  by (induction xs) auto

lemma length_std_alphabet: "length std_alphabet = 64"
  by (simp add: std_alphabet_def)

lemma length_url_alphabet: "length url_alphabet = 64"
  by (simp add: url_alphabet_def)

lemma distinct_std_alphabet: "distinct std_alphabet"
  by (simp add: std_alphabet_def)

lemma distinct_url_alphabet: "distinct url_alphabet"
  by (simp add: url_alphabet_def)

lemma no_newline_url: "c \<in> set url_alphabet \<Longrightarrow> byte c \<noteq> 10 \<and> byte c \<noteq> 13"
  by (auto simp: url_alphabet_def)

lemma no_newline_std: "c \<in> set std_alphabet \<Longrightarrow> byte c \<noteq> 10 \<and> byte c \<noteq> 13"
  by (auto simp: std_alphabet_def)

lemma DecodeString_EncodeToString:
  assumes "distinct alphabet" and "length alphabet = 64"
    and "\<And>c. c \<in> set alphabet \<Longrightarrow> byte c \<noteq> 10 \<and> byte c \<noteq> 13"
  shows "DecodeString alphabet (EncodeToString alphabet s) = Some s"
proof -
  let ?g = "base64_groups (map byte s)"
  have bytes: "list_all (\<lambda>x. x < 256) (map byte s)"
    by (simp add: list_all_iff)
  have bound: "\<forall>i \<in> set ?g. i < 64"
    using base64_groups_bound [OF bytes] by (simp add: list_all_iff)
  have chars: "set (EncodeToString alphabet s) \<subseteq> set alphabet"
    using bound assms(2) by (auto simp: EncodeToString_def)
  then have "filter (\<lambda>c. byte c \<noteq> 10 \<and> byte c \<noteq> 13) (EncodeToString alphabet s) = EncodeToString alphabet s"
    using assms(3) by (intro filter_True) blast
  moreover have "map (\<lambda>c. index_of c alphabet) (EncodeToString alphabet s) = map Some ?g"
    using bound assms(1,2) by (simp add: EncodeToString_def index_of_nth)
  ultimately show ?thesis
    by (simp add: DecodeString_def sequence_option_map_Some base64_ungroup_groups [OF bytes] map_idI)
qed

lemmas url_base64_roundtrip =
  DecodeString_EncodeToString [OF distinct_url_alphabet length_url_alphabet no_newline_url]

lemmas std_base64_roundtrip =
  DecodeString_EncodeToString [OF distinct_std_alphabet length_std_alphabet no_newline_std]

lemma length_EncodeToString: "length (EncodeToString alphabet s) = (4 * length s + 2) div 3"
  by (simp add: EncodeToString_def length_base64_groups)

end
