(* ===== verification/Database.thy ===== *)
theory Database
  imports GoStrings
begin

text \<open>
  The PostgreSQL state the program works on: one record per row, one list per table
  (\<^verbatim>\<open>schema.sql\<close>, which the migrations 001 to 016 produce), the identity sequences (a sequence
  never goes back, also when the transaction that drew from it is rolled back), and the
  invariant of the chat tables that every transaction of the program keeps. Timestamps are
  microseconds; the columns of type BIGINT are integers and the statements that can leave
  their range say so.
\<close>

section \<open>Rows\<close>

record user =
  u_ID :: int
  u_Username :: string
  u_DisplayName :: string

record user_row =
  ur_user :: user
  ur_password_hash :: string

record session_row =
  s_id :: int
  s_user_id :: int
  s_device_id :: string
  s_idle_expires_at :: timestamp
  s_revoked_at :: "timestamp option"
  s_created_at :: timestamp

record access_token_row =
  a_session_id :: int
  a_token_hash :: byte_string
  a_expires_at :: timestamp

record refresh_token_row =
  r_id :: int
  r_session_id :: int
  r_parent_token_id :: "int option"
  r_token_hash :: byte_string
  r_expires_at :: timestamp
  r_consumed_at :: "timestamp option"

record login_result_row =
  l_request_id_hash :: byte_string
  l_user_id :: int
  l_session_id :: int
  l_encrypted_response :: byte_string
  l_nonce :: byte_string
  l_key_version :: int
  l_expires_at :: timestamp

record refresh_result_row =
  f_refresh_token_id :: int
  f_idempotency_key_hash :: byte_string
  f_encrypted_response :: byte_string
  f_nonce :: byte_string
  f_key_version :: int
  f_expires_at :: timestamp

record conversation_row =
  c_id :: int
  c_kind :: string
  c_direct_user_low_id :: "int option"
  c_direct_user_high_id :: "int option"
  c_last_seq :: int
  c_created_at :: timestamp
  c_updated_at :: timestamp

record message =
  m_ID :: int
  m_ConversationID :: int
  m_ConversationSeq :: int
  m_ClientMessageID :: string
  m_SenderID :: int
  m_ReceiverID :: int
  m_Content :: string
  m_CreatedAt :: timestamp

record messageEventRecipient =
  rc_UserID :: int
  rc_Cursor :: int

record messageCreatedEventPayload =
  pl_Message :: message
  pl_Recipients :: "messageEventRecipient list"

text \<open>
  The JSONB column \<open>payload\<close> is what \<open>json.Unmarshal\<close> makes of it: a payload, or \<open>None\<close> when
  the document does not decode into the struct.
\<close>

record outbox_row =
  o_event_id :: int
  o_event_type :: string
  o_payload_version :: int
  o_message_id :: int
  o_payload :: "messageCreatedEventPayload option"
  o_attempt_count :: int
  o_next_attempt_at :: timestamp
  o_locked_until :: "timestamp option"
  o_lock_token :: "int option"
  o_ready_at :: "timestamp option"
  o_published_at :: "timestamp option"
  o_dead_at :: "timestamp option"
  o_last_error :: "string option"
  o_created_at :: timestamp

record sync_state_row =
  d_user_id :: int
  d_device_id :: string
  d_conversation_id :: int
  d_applied_seq :: int
  d_updated_at :: timestamp

section \<open>The database\<close>

record db =
  users :: "user_row list"
  sessions :: "session_row list"
  access_tokens :: "access_token_row list"
  refresh_tokens :: "refresh_token_row list"
  login_idempotency_results :: "login_result_row list"
  refresh_idempotency_results :: "refresh_result_row list"
  conversations :: "conversation_row list"
  conversation_members :: "(int \<times> int) list"
  messages :: "message list"
  device_conversation_sync_states :: "sync_state_row list"
  outbox_events :: "outbox_row list"
  users_seq :: int
  sessions_seq :: int
  refresh_tokens_seq :: int
  conversations_seq :: int
  messages_seq :: int

definition empty_db :: db where
  "empty_db = \<lparr>users = [], sessions = [], access_tokens = [], refresh_tokens = [],
     login_idempotency_results = [], refresh_idempotency_results = [], conversations = [],
     conversation_members = [], messages = [], device_conversation_sync_states = [],
     outbox_events = [], users_seq = 1, sessions_seq = 1, refresh_tokens_seq = 1,
     conversations_seq = 1, messages_seq = 1\<rparr>"

definition user_ids :: "db \<Rightarrow> int set" where
  "user_ids d = (\<lambda>u. u_ID (ur_user u)) ` set (users d)"

text \<open>PostgreSQL refuses a text value that holds a zero byte.\<close>

definition pg_text_ok :: "string \<Rightarrow> bool" where
  "pg_text_ok s \<longleftrightarrow> list_all (\<lambda>c. byte c \<noteq> 0) s"

section \<open>Streams of messages\<close>

definition conversation_messages :: "db \<Rightarrow> int \<Rightarrow> message list" where
  "conversation_messages d cid = filter (\<lambda>m. m_ConversationID m = cid) (messages d)"

definition seqs_of :: "db \<Rightarrow> int \<Rightarrow> int set" where
  "seqs_of d cid = m_ConversationSeq ` set (conversation_messages d cid)"

definition is_member :: "db \<Rightarrow> int \<Rightarrow> int \<Rightarrow> bool" where
  "is_member d cid uid \<longleftrightarrow> (cid, uid) \<in> set (conversation_members d)"

definition has_pair :: "int \<Rightarrow> int \<Rightarrow> conversation_row \<Rightarrow> bool" where
  "has_pair low high c \<longleftrightarrow> c_kind c = ''direct'' \<and> c_direct_user_low_id c = Some low
     \<and> c_direct_user_high_id c = Some high"

section \<open>The chat invariant\<close>

text \<open>
  Every conversation is a direct one between two existing users, stored once per unordered
  pair, with exactly these users as members; its messages carry the sequence numbers
  1 to \<open>last_seq\<close>, each once. Every message belongs to a conversation of its two participants
  and is unique under its sender's client id; identity columns are below their sequence; every
  outbox event is about a stored message.
\<close>

definition conversation_ok :: "db \<Rightarrow> conversation_row \<Rightarrow> bool" where
  "conversation_ok d c \<longleftrightarrow>
     (\<exists>low high. has_pair low high c \<and> low \<le> high \<and> low \<in> user_ids d \<and> high \<in> user_ids d
        \<and> {u. is_member d (c_id c) u} = {low, high})
     \<and> 0 \<le> c_last_seq c \<and> seqs_of d (c_id c) = {1..c_last_seq c} \<and> c_id c < conversations_seq d
     \<and> 0 < c_id c"

definition message_ok :: "db \<Rightarrow> message \<Rightarrow> bool" where
  "message_ok d m \<longleftrightarrow>
     (\<exists>c \<in> set (conversations d). c_id c = m_ConversationID m
        \<and> has_pair (min (m_SenderID m) (m_ReceiverID m)) (max (m_SenderID m) (m_ReceiverID m)) c)
     \<and> 0 < m_ID m \<and> m_ID m < messages_seq d"

definition outbox_ok :: "db \<Rightarrow> outbox_row \<Rightarrow> bool" where
  "outbox_ok d e \<longleftrightarrow> (\<exists>m \<in> set (messages d). m_ID m = o_message_id e)"

definition chat_inv :: "db \<Rightarrow> bool" where
  "chat_inv d \<longleftrightarrow>
     distinct (map c_id (conversations d))
     \<and> (\<forall>c \<in> set (conversations d). conversation_ok d c)
     \<and> (\<forall>c \<in> set (conversations d). \<forall>c' \<in> set (conversations d).
          \<forall>low high. has_pair low high c \<longrightarrow> has_pair low high c' \<longrightarrow> c_id c = c_id c')
     \<and> distinct (map m_ID (messages d))
     \<and> distinct (map (\<lambda>m. (m_SenderID m, m_ClientMessageID m)) (messages d))
     \<and> distinct (map (\<lambda>m. (m_ConversationID m, m_ConversationSeq m)) (messages d))
     \<and> (\<forall>m \<in> set (messages d). message_ok d m)
     \<and> (\<forall>e \<in> set (outbox_events d). outbox_ok d e)
     \<and> (\<forall>k \<in> set (conversation_members d). fst k \<in> c_id ` set (conversations d))
     \<and> 0 < conversations_seq d \<and> 0 < messages_seq d"

text \<open>
  What the other transactions of the system may do to these tables between two statements:
  nothing is removed, streams only grow, and sequences only advance. An identity drawn before may
  appear later: a transaction that drew it commits then.
\<close>

definition db_le :: "db \<Rightarrow> db \<Rightarrow> bool" where
  "db_le d e \<longleftrightarrow> user_ids d \<subseteq> user_ids e \<and> set (messages d) \<subseteq> set (messages e)
     \<and> (\<forall>c \<in> set (conversations d). \<exists>c' \<in> set (conversations e).
          c_id c' = c_id c \<and> c_last_seq c \<le> c_last_seq c' \<and> c_kind c' = c_kind c
          \<and> c_direct_user_low_id c' = c_direct_user_low_id c
          \<and> c_direct_user_high_id c' = c_direct_user_high_id c)
     \<and> conversations_seq d \<le> conversations_seq e \<and> messages_seq d \<le> messages_seq e
     \<and> set (conversation_members d) \<subseteq> set (conversation_members e)"

definition others_ok :: "(db \<Rightarrow> db) \<Rightarrow> bool" where
  "others_ok f \<longleftrightarrow> (\<forall>d. chat_inv d \<longrightarrow> chat_inv (f d) \<and> db_le d (f d))"

section \<open>Facts about the invariant\<close>

lemma chat_inv_empty: "chat_inv empty_db"
  by (simp add: chat_inv_def empty_db_def)

lemma db_le_refl [simp]: "db_le d d"
  by (auto simp: db_le_def)

lemma db_le_trans:
  assumes "db_le a b" and "db_le b c"
  shows "db_le a c"
proof -
  have "\<exists>t \<in> set (conversations c). c_id t = c_id r \<and> c_last_seq r \<le> c_last_seq t
      \<and> c_kind t = c_kind r \<and> c_direct_user_low_id t = c_direct_user_low_id r
      \<and> c_direct_user_high_id t = c_direct_user_high_id r"
    if "r \<in> set (conversations a)" for r
  proof -
    from that assms(1) obtain s where s: "s \<in> set (conversations b)" "c_id s = c_id r"
        "c_last_seq r \<le> c_last_seq s" "c_kind s = c_kind r"
        "c_direct_user_low_id s = c_direct_user_low_id r" "c_direct_user_high_id s = c_direct_user_high_id r"
      unfolding db_le_def by blast
    from s(1) assms(2) obtain t where "t \<in> set (conversations c)" "c_id t = c_id s"
        "c_last_seq s \<le> c_last_seq t" "c_kind t = c_kind s"
        "c_direct_user_low_id t = c_direct_user_low_id s" "c_direct_user_high_id t = c_direct_user_high_id s"
      unfolding db_le_def by blast
    with s show ?thesis by (metis order_trans)
  qed
  then show ?thesis
    using assms unfolding db_le_def by (auto intro: order_trans)
qed

lemma others_ok_id [simp]: "others_ok (\<lambda>d. d)"
  by (simp add: others_ok_def)

lemma others_okD: "others_ok f \<Longrightarrow> chat_inv d \<Longrightarrow> chat_inv (f d)"
  by (simp add: others_ok_def)

lemma others_ok_le: "others_ok f \<Longrightarrow> chat_inv d \<Longrightarrow> db_le d (f d)"
  by (simp add: others_ok_def)

lemma chat_inv_conversation: "chat_inv d \<Longrightarrow> c \<in> set (conversations d) \<Longrightarrow> conversation_ok d c"
  by (simp add: chat_inv_def)

lemma chat_inv_message: "chat_inv d \<Longrightarrow> m \<in> set (messages d) \<Longrightarrow> message_ok d m"
  by (simp add: chat_inv_def)

lemma chat_invI:
  assumes "distinct (map c_id (conversations d))"
    and "\<And>c. c \<in> set (conversations d) \<Longrightarrow> conversation_ok d c"
    and "\<And>c c' low high. c \<in> set (conversations d) \<Longrightarrow> c' \<in> set (conversations d) \<Longrightarrow>
           has_pair low high c \<Longrightarrow> has_pair low high c' \<Longrightarrow> c_id c = c_id c'"
    and "distinct (map m_ID (messages d))"
    and "distinct (map (\<lambda>m. (m_SenderID m, m_ClientMessageID m)) (messages d))"
    and "distinct (map (\<lambda>m. (m_ConversationID m, m_ConversationSeq m)) (messages d))"
    and "\<And>m. m \<in> set (messages d) \<Longrightarrow> message_ok d m"
    and "\<And>e. e \<in> set (outbox_events d) \<Longrightarrow> outbox_ok d e"
    and "fst ` set (conversation_members d) \<subseteq> c_id ` set (conversations d)"
    and "0 < conversations_seq d" and "0 < messages_seq d"
  shows "chat_inv d"
  unfolding chat_inv_def using assms by blast

lemma chat_inv_members: "chat_inv d \<Longrightarrow> fst ` set (conversation_members d) \<subseteq> c_id ` set (conversations d)"
  unfolding chat_inv_def by blast

lemma chat_inv_outbox: "chat_inv d \<Longrightarrow> e \<in> set (outbox_events d) \<Longrightarrow> outbox_ok d e"
  unfolding chat_inv_def by blast

lemma chat_inv_seq_pos:
  assumes "chat_inv d"
  shows "0 < conversations_seq d" and "0 < messages_seq d"
  using assms unfolding chat_inv_def by blast+

lemma chat_inv_message_conversation:
  assumes "chat_inv d" and "m \<in> set (messages d)"
  shows "m_ConversationID m \<in> c_id ` set (conversations d)"
  using chat_inv_message [OF assms] by (auto simp: message_ok_def intro: rev_image_eqI)

lemma chat_inv_message_id:
  assumes "chat_inv d" and "m \<in> set (messages d)"
  shows "0 < m_ID m" and "m_ID m < messages_seq d"
  using chat_inv_message [OF assms] by (simp_all add: message_ok_def)

lemma chat_inv_distinct:
  assumes "chat_inv d"
  shows "distinct (map c_id (conversations d))" and "distinct (map m_ID (messages d))"
    and "distinct (map (\<lambda>m. (m_SenderID m, m_ClientMessageID m)) (messages d))"
    and "distinct (map (\<lambda>m. (m_ConversationID m, m_ConversationSeq m)) (messages d))"
  using assms unfolding chat_inv_def by blast+

lemma chat_inv_pair:
  "chat_inv d \<Longrightarrow> c \<in> set (conversations d) \<Longrightarrow> c' \<in> set (conversations d) \<Longrightarrow>
   has_pair low high c \<Longrightarrow> has_pair low high c' \<Longrightarrow> c_id c = c_id c'"
  unfolding chat_inv_def by blast

lemma chat_inv_seqs:
  "chat_inv d \<Longrightarrow> c \<in> set (conversations d) \<Longrightarrow> seqs_of d (c_id c) = {1..c_last_seq c}"
  by (simp add: chat_inv_def conversation_ok_def)

lemma has_pair_unique: "has_pair a b c \<Longrightarrow> has_pair a' b' c \<Longrightarrow> a = a' \<and> b = b'"
  by (simp add: has_pair_def)

text \<open>The chat invariant does not look at the other tables.\<close>

lemma chat_inv_cong:
  assumes "conversations d = conversations e" and "conversation_members d = conversation_members e"
    and "messages d = messages e" and "outbox_events d = outbox_events e"
    and "conversations_seq d = conversations_seq e" and "messages_seq d = messages_seq e"
    and "user_ids d = user_ids e"
  shows "chat_inv d \<longleftrightarrow> chat_inv e"
  using assms
  by (simp add: chat_inv_def conversation_ok_def message_ok_def outbox_ok_def seqs_of_def
      conversation_messages_def is_member_def)

text \<open>It survives further users and a change of outbox rows that keeps their message.\<close>

lemma chat_inv_more:
  assumes "chat_inv d" and "conversations d = conversations e"
    and "conversation_members d = conversation_members e" and "messages d = messages e"
    and "conversations_seq d \<le> conversations_seq e" and "messages_seq d \<le> messages_seq e"
    and "user_ids d \<subseteq> user_ids e"
    and "o_message_id ` set (outbox_events e) \<subseteq> o_message_id ` set (outbox_events d)"
  shows "chat_inv e"
proof -
  have conv: "conversation_ok e c" if "c \<in> set (conversations e)" for c
    using chat_inv_conversation [OF assms(1), of c] that assms(2-7)
    by (fastforce simp: conversation_ok_def seqs_of_def conversation_messages_def is_member_def)
  have msg: "message_ok e m" if "m \<in> set (messages e)" for m
    using chat_inv_message [OF assms(1), of m] that assms(2-7) by (auto simp: message_ok_def)
  have out: "outbox_ok e r" if "r \<in> set (outbox_events e)" for r
  proof -
    from that assms(8) obtain r' where "r' \<in> set (outbox_events d)" "o_message_id r' = o_message_id r"
      by force
    moreover from this(1) assms(1) have "outbox_ok d r'" by (simp add: chat_inv_def)
    ultimately show ?thesis using assms(4) by (simp add: outbox_ok_def)
  qed
  show ?thesis
  proof (rule chat_invI)
    show "c_id c = c_id c'"
      if "c \<in> set (conversations e)" "c' \<in> set (conversations e)" "has_pair low high c" "has_pair low high c'"
      for c c' low high
      using chat_inv_pair [OF assms(1)] that assms(2) by metis
  qed (use conv msg out chat_inv_distinct [OF assms(1)] chat_inv_seq_pos [OF assms(1)]
      chat_inv_members [OF assms(1)] assms(2-6) in simp_all)
qed

lemma distinct_seqs:
  assumes "chat_inv d"
  shows "distinct (map m_ConversationSeq (conversation_messages d cid))"
proof -
  have inj: "inj_on (\<lambda>m. (m_ConversationID m, m_ConversationSeq m)) (set (messages d))"
    and dist: "distinct (messages d)"
    using chat_inv_distinct(4) [OF assms] by (simp_all add: distinct_map)
  have "inj_on m_ConversationSeq (set (conversation_messages d cid))"
  proof (rule inj_onI)
    fix m n
    assume "m \<in> set (conversation_messages d cid)" "n \<in> set (conversation_messages d cid)"
      "m_ConversationSeq m = m_ConversationSeq n"
    then show "m = n"
      using inj_onD [OF inj, of m n] by (simp add: conversation_messages_def)
  qed
  with dist show ?thesis by (simp add: distinct_map conversation_messages_def)
qed

end
