(* ===== verification/MessageService.thy ===== *)
theory MessageService
  imports Database
begin

text \<open>
  Sending a message: \<^verbatim>\<open>message_service.go\<close> and \<^verbatim>\<open>message_store.go\<close>, the handler of
  \<open>POST /messages\<close> (\<^verbatim>\<open>message_handler.go\<close>) and the error contract of \<^verbatim>\<open>api_errors.go\<close>.

  A transaction runs at READ COMMITTED: between two statements other transactions may commit.
  The model carries the committed state and, apart from it, the rows this transaction has
  inserted and not committed yet (\<open>pending\<close>). What the others commit before a statement, which
  statement fails, and how the COMMIT ends are the fields of the environment \<open>send_env\<close>.
\<close>

section \<open>Requests, results and errors\<close>

datatype messageServiceErrorCode =
    ErrInvalidJSON | ErrInvalidMessage | ErrReceiverNotFound | ErrIdempotencyConflict
  | ErrServiceUnavailable | ErrInternal

record messageServiceError =
  e_Code :: messageServiceErrorCode
  e_Message :: string

record sendMessageCommand =
  cmd_SenderID :: int
  cmd_ReceiverID :: int
  cmd_ClientMessageID :: string
  cmd_Content :: "string option"

record sendMessageResult =
  sr_Message :: message
  sr_Created :: bool

definition invalidMessageError :: "string \<Rightarrow> messageServiceError" where
  "invalidMessageError msg = \<lparr>e_Code = ErrInvalidMessage, e_Message = msg\<rparr>"

definition internalMessageError :: messageServiceError where
  "internalMessageError = \<lparr>e_Code = ErrInternal, e_Message = []\<rparr>"

definition serviceError :: "messageServiceErrorCode \<Rightarrow> messageServiceError" where
  "serviceError code = \<lparr>e_Code = code, e_Message = []\<rparr>"

text \<open>
  The store turns a foreign key violation into \<open>errMessageReceiverNotFound\<close>, which the service
  classifies; every other error is internal.
\<close>

definition classifyMessageStoreError :: "db_error \<Rightarrow> messageServiceError" where
  "classifyMessageStoreError e =
     (if e = ForeignKeyViolation then serviceError ErrReceiverNotFound else internalMessageError)"

definition validOpaqueID :: "string \<Rightarrow> bool" where
  "validOpaqueID v \<longleftrightarrow> 16 \<le> length v \<and> length v \<le> 128"

definition maxMessageContentRunes :: nat where "maxMessageContentRunes = 4000"

definition sameMessageRequest :: "message \<Rightarrow> sendMessageCommand \<Rightarrow> bool" where
  "sameMessageRequest existing cmd \<longleftrightarrow>
     m_ReceiverID existing = cmd_ReceiverID cmd \<and> Some (m_Content existing) = cmd_Content cmd"

section \<open>The environment of a transaction\<close>

datatype send_point =
    AtBegin | AtFind | AtSelectConversation | AtInsertConversation | AtReselectConversation
  | AtInsertMembers | AtInsertMessage | AtRollback | AtFindWinner

record send_env =
  env_fails :: "send_point \<Rightarrow> bool"
  env_others :: "send_point \<Rightarrow> db \<Rightarrow> db"
  env_commit :: commit_outcome
  env_now :: timestamp
  env_clock :: timestamp
  env_event_id :: int

record pending =
  p_conversations :: "conversation_row list"
  p_members :: "(int \<times> int) list"

definition no_pending :: pending where
  "no_pending = \<lparr>p_conversations = [], p_members = []\<rparr>"

text \<open>What the transaction itself sees.\<close>

definition tx_view :: "db \<Rightarrow> pending \<Rightarrow> db" where
  "tx_view d p = d\<lparr>conversations := conversations d @ p_conversations p,
                   conversation_members := conversation_members d @ p_members p\<rparr>"

section \<open>Statements of the message store\<close>

definition findIdempotentMessage :: "db \<Rightarrow> int \<Rightarrow> string \<Rightarrow> message option" where
  "findIdempotentMessage d sender cmid =
     find (\<lambda>m. m_SenderID m = sender \<and> m_ClientMessageID m = cmid) (messages d)"

definition selectConversation :: "db \<Rightarrow> int \<Rightarrow> int \<Rightarrow> conversation_row option" where
  "selectConversation d low high = find (has_pair low high) (conversations d)"

text \<open>
  \<open>INSERT ... ON CONFLICT DO NOTHING RETURNING id\<close>: the identity is drawn in any case; a
  conflict returns no row; both users must exist.
\<close>

definition insertConversation ::
  "timestamp \<Rightarrow> db \<Rightarrow> int \<Rightarrow> int \<Rightarrow> (db_error + conversation_row option) \<times> db" where
  "insertConversation now d low high =
     (let d' = d\<lparr>conversations_seq := conversations_seq d + 1\<rparr>
      in if \<exists>c \<in> set (conversations d). has_pair low high c then (Inr None, d')
         else if low \<notin> user_ids d \<or> high \<notin> user_ids d then (Inl ForeignKeyViolation, d')
         else (Inr (Some \<lparr>c_id = conversations_seq d, c_kind = ''direct'', c_direct_user_low_id = Some low,
                          c_direct_user_high_id = Some high, c_last_seq = 0, c_created_at = now,
                          c_updated_at = now\<rparr>), d'))"

definition resolveDirectConversation ::
  "send_env \<Rightarrow> db \<Rightarrow> int \<Rightarrow> int \<Rightarrow> (db_error + int \<times> bool) \<times> db \<times> pending" where
  "resolveDirectConversation env d0 low high =
     (let d = env_others env AtSelectConversation d0
      in if env_fails env AtSelectConversation then (Inl Unavailable, d, no_pending)
         else case selectConversation d low high of
           Some c \<Rightarrow> (Inr (c_id c, False), d, no_pending)
         | None \<Rightarrow>
           (let d1 = env_others env AtInsertConversation d
            in if env_fails env AtInsertConversation then (Inl Unavailable, d1, no_pending)
               else case insertConversation (env_now env) d1 low high of
                 (Inl e, d2) \<Rightarrow> (Inl e, d2, no_pending)
               | (Inr (Some c), d2) \<Rightarrow>
                   (Inr (c_id c, True), d2, \<lparr>p_conversations = [c], p_members = []\<rparr>)
               | (Inr None, d2) \<Rightarrow>
                   (let d3 = env_others env AtReselectConversation d2
                    in if env_fails env AtReselectConversation then (Inl Unavailable, d3, no_pending)
                       else case selectConversation d3 low high of
                         None \<Rightarrow> (Inl Unavailable, d3, no_pending)
                       | Some c \<Rightarrow> (Inr (c_id c, False), d3, no_pending))))"

definition insertConversationMembers ::
  "db \<Rightarrow> pending \<Rightarrow> int \<Rightarrow> int \<Rightarrow> int \<Rightarrow> db_error + pending" where
  "insertConversationMembers d p cid sender receiver =
     (if sender \<notin> user_ids d \<or> receiver \<notin> user_ids d then Inl ForeignKeyViolation
      else Inr (p\<lparr>p_members := p_members p @ map (\<lambda>u. (cid, u)) (remdups [sender, receiver])\<rparr>))"

definition messageRecipients :: "int \<Rightarrow> int \<Rightarrow> messageEventRecipient list" where
  "messageRecipients sender receiver =
     (if sender = receiver then [\<lparr>rc_UserID = sender, rc_Cursor = 0\<rparr>]
      else [\<lparr>rc_UserID = sender, rc_Cursor = 0\<rparr>, \<lparr>rc_UserID = receiver, rc_Cursor = 0\<rparr>])"

definition created_event :: "send_env \<Rightarrow> message \<Rightarrow> outbox_row" where
  "created_event env m =
     \<lparr>o_event_id = env_event_id env, o_event_type = ''message.created'', o_payload_version = 4,
      o_message_id = m_ID m,
      o_payload = Some \<lparr>pl_Message = m, pl_Recipients = messageRecipients (m_SenderID m) (m_ReceiverID m)\<rparr>,
      o_attempt_count = 0, o_next_attempt_at = env_now env, o_locked_until = None, o_lock_token = None,
      o_ready_at = Some (m_CreatedAt m), o_published_at = None, o_dead_at = None, o_last_error = None,
      o_created_at = env_now env\<rparr>"

text \<open>
  The one statement that allocates the sequence number, inserts the message and inserts the
  outbox event. It returns no row when the conversation is missing or when the sender already
  used the client id; the other constraints of the two tables are errors. The second component
  is the state the transaction sees afterwards.
\<close>

definition insertMessageAndOutbox ::
  "send_env \<Rightarrow> db \<Rightarrow> int \<Rightarrow> int \<Rightarrow> int \<Rightarrow> string \<Rightarrow> string \<Rightarrow> (db_error + message option) \<times> db" where
  "insertMessageAndOutbox env d cid sender receiver cmid content =
     (if \<not> pg_text_ok cmid \<or> \<not> pg_text_ok content then (Inl Unavailable, d)
      else case find (\<lambda>c. c_id c = cid) (conversations d) of
        None \<Rightarrow> (Inr None, d)
      | Some c \<Rightarrow>
         (let seq = c_last_seq c + 1;
              at = max (c_updated_at c) (env_clock env);
              m = \<lparr>m_ID = messages_seq d, m_ConversationID = cid, m_ConversationSeq = seq,
                   m_ClientMessageID = cmid, m_SenderID = sender, m_ReceiverID = receiver,
                   m_Content = content, m_CreatedAt = at\<rparr>;
              d1 = d\<lparr>conversations := update_rows (\<lambda>r. c_id r = cid)
                        (\<lambda>r. r\<lparr>c_last_seq := c_last_seq r + 1, c_updated_at := max (c_updated_at r) (env_clock env)\<rparr>)
                        (conversations d),
                     messages_seq := messages_seq d + 1\<rparr>
          in if seq > int64_max then (Inl OutOfRange, d)
             else if RuneCountInString cmid < 16 \<or> 128 < RuneCountInString cmid
                  \<or> RuneCountInString content < 1 \<or> 4000 < RuneCountInString content
             then (Inl CheckViolation, d1)
             else if \<exists>x \<in> set (messages d). m_SenderID x = sender \<and> m_ClientMessageID x = cmid
             then (Inr None, d1)
             else if \<exists>x \<in> set (messages d). m_ConversationID x = cid \<and> m_ConversationSeq x = seq
             then (Inl UniqueViolation, d1)
             else if sender \<notin> user_ids d \<or> receiver \<notin> user_ids d then (Inl ForeignKeyViolation, d1)
             else if at < env_now env then (Inl CheckViolation, d1)
             else (Inr (Some m), d1\<lparr>messages := messages d @ [m],
                                    outbox_events := outbox_events d @ [created_event env m]\<rparr>)))"

section \<open>messageService.send\<close>

text \<open>A rollback discards the pending rows; a drawn message identity stays drawn.\<close>

definition rolled_back :: "db \<Rightarrow> db \<Rightarrow> db" where
  "rolled_back d v = d\<lparr>messages_seq := messages_seq v\<rparr>"

definition commit_send :: "send_env \<Rightarrow> db \<Rightarrow> db \<Rightarrow> message \<Rightarrow> (messageServiceError + sendMessageResult) \<times> db" where
  "commit_send env d v m =
     (case env_commit env of
        CommitOk \<Rightarrow> (Inr \<lparr>sr_Message = m, sr_Created = True\<rparr>, v)
      | CommitLostApplied \<Rightarrow> (Inl internalMessageError, v)
      | CommitLostNotApplied \<Rightarrow> (Inl internalMessageError, rolled_back d v))"

text \<open>The idempotency race was lost: roll back and read the winner.\<close>

definition send_loser ::
  "send_env \<Rightarrow> sendMessageCommand \<Rightarrow> db \<Rightarrow> (messageServiceError + sendMessageResult) \<times> db" where
  "send_loser env cmd d =
     (if env_fails env AtRollback then (Inl internalMessageError, d)
      else (let d' = env_others env AtFindWinner d
            in if env_fails env AtFindWinner then (Inl internalMessageError, d')
               else case findIdempotentMessage d' (cmd_SenderID cmd) (cmd_ClientMessageID cmd) of
                 None \<Rightarrow> (Inl internalMessageError, d')
               | Some winner \<Rightarrow>
                   if \<not> sameMessageRequest winner cmd then (Inl (serviceError ErrIdempotencyConflict), d')
                   else (Inr \<lparr>sr_Message = winner, sr_Created = False\<rparr>, d')))"

text \<open>The last statement of the transaction, with the conversation resolved.\<close>

definition send_insert ::
  "send_env \<Rightarrow> sendMessageCommand \<Rightarrow> string \<Rightarrow> db \<Rightarrow> pending \<Rightarrow> int \<Rightarrow> (messageServiceError + sendMessageResult) \<times> db" where
  "send_insert env cmd content d0 p cid =
     (let d = env_others env AtInsertMessage d0
      in if env_fails env AtInsertMessage then (Inl internalMessageError, d)
         else case insertMessageAndOutbox env (tx_view d p) cid (cmd_SenderID cmd) (cmd_ReceiverID cmd)
                     (cmd_ClientMessageID cmd) content of
           (Inl e, v) \<Rightarrow> (Inl internalMessageError, rolled_back d v)
         | (Inr None, v) \<Rightarrow> send_loser env cmd (rolled_back d v)
         | (Inr (Some m), v) \<Rightarrow> commit_send env d v m)"

definition send ::
  "send_env \<Rightarrow> sendMessageCommand \<Rightarrow> db \<Rightarrow> (messageServiceError + sendMessageResult) \<times> db" where
  "send env cmd d0 =
     (case cmd_Content cmd of
        None \<Rightarrow> (Inl (invalidMessageError ''clientMessageId, receiverId and content are required''), d0)
      | Some content \<Rightarrow>
        if \<not> validOpaqueID (cmd_ClientMessageID cmd) \<or> cmd_ReceiverID cmd \<le> 0
        then (Inl (invalidMessageError ''clientMessageId, receiverId and content are required''), d0)
        else if RuneCountInString content = 0
        then (Inl (invalidMessageError ''content must contain at least one character''), d0)
        else if RuneCountInString content > maxMessageContentRunes
        then (Inl (invalidMessageError ''content is too long''), d0)
        else if env_fails env AtBegin then (Inl (serviceError ErrServiceUnavailable), d0)
        else
        (let d = env_others env AtFind d0
         in if env_fails env AtFind \<or> \<not> pg_text_ok (cmd_ClientMessageID cmd) then (Inl internalMessageError, d)
            else case findIdempotentMessage d (cmd_SenderID cmd) (cmd_ClientMessageID cmd) of
              Some existing \<Rightarrow>
                if \<not> sameMessageRequest existing cmd then (Inl (serviceError ErrIdempotencyConflict), d)
                else (Inr \<lparr>sr_Message = existing, sr_Created = False\<rparr>, d)
            | None \<Rightarrow>
              (case resolveDirectConversation env d (min (cmd_SenderID cmd) (cmd_ReceiverID cmd))
                      (max (cmd_SenderID cmd) (cmd_ReceiverID cmd)) of
                 (Inl e, d1, p) \<Rightarrow> (Inl (classifyMessageStoreError e), d1)
               | (Inr (cid, created), d1, p) \<Rightarrow>
                   if \<not> created then send_insert env cmd content d1 p cid
                   else (let d2 = env_others env AtInsertMembers d1
                         in if env_fails env AtInsertMembers then (Inl internalMessageError, d2)
                            else case insertConversationMembers (tx_view d2 p) p cid
                                        (cmd_SenderID cmd) (cmd_ReceiverID cmd) of
                              Inl e \<Rightarrow> (Inl (classifyMessageStoreError e), d2)
                            | Inr p' \<Rightarrow> send_insert env cmd content d2 p' cid))))"

section \<open>The HTTP boundary\<close>

definition messageAPIErrorContract :: "messageServiceError \<Rightarrow> int \<times> string \<times> string" where
  "messageAPIErrorContract e =
     (case e_Code e of
        ErrInvalidJSON \<Rightarrow> (400, ''INVALID_JSON'', ''invalid JSON body'')
      | ErrInvalidMessage \<Rightarrow> (400, ''INVALID_MESSAGE'', e_Message e)
      | ErrReceiverNotFound \<Rightarrow> (400, ''RECEIVER_NOT_FOUND'', ''receiverId does not exist'')
      | ErrIdempotencyConflict \<Rightarrow>
          (409, ''CLIENT_MESSAGE_ID_CONFLICT'', ''clientMessageId was already used with different message data'')
      | ErrServiceUnavailable \<Rightarrow> (503, ''SERVICE_UNAVAILABLE'', ''message service is temporarily unavailable'')
      | ErrInternal \<Rightarrow> (500, ''INTERNAL_ERROR'', ''could not create message''))"

definition writeMessageAPIError :: "messageServiceError \<Rightarrow> 'a response" where
  "writeMessageAPIError e = writeAPIError (messageAPIErrorContract e)"

record createMessageRequest =
  req_ClientMessageID :: string
  req_ReceiverID :: int
  req_Content :: "string option"

text \<open>
  The body is what \<open>decodeSingleJSON\<close> makes of it (\<open>None\<close>: not one JSON object of the request
  struct); \<open>userID\<close> is the authenticated user.
\<close>

definition createMessage ::
  "send_env \<Rightarrow> int \<Rightarrow> createMessageRequest option \<Rightarrow> db \<Rightarrow> message response \<times> db" where
  "createMessage env userID body d =
     (case body of
        None \<Rightarrow> (writeMessageAPIError (serviceError ErrInvalidJSON), d)
      | Some input \<Rightarrow>
         (case send env \<lparr>cmd_SenderID = userID, cmd_ReceiverID = req_ReceiverID input,
                         cmd_ClientMessageID = req_ClientMessageID input, cmd_Content = req_Content input\<rparr> d of
            (Inl e, d') \<Rightarrow> (writeMessageAPIError e, d')
          | (Inr r, d') \<Rightarrow> (JSON (if sr_Created r then 201 else 200) (sr_Message r), d')))"

section \<open>What a transaction contributes\<close>

text \<open>
  The states reachable without this transaction: commits of the others and drawn identities.
\<close>

inductive only_others :: "send_env \<Rightarrow> db \<Rightarrow> db \<Rightarrow> bool" for env :: send_env and d :: db where
  start: "only_others env d d"
| others: "only_others env d e \<Longrightarrow> only_others env d (env_others env p e)"
| draw_conversation: "only_others env d e \<Longrightarrow> only_others env d (e\<lparr>conversations_seq := conversations_seq e + 1\<rparr>)"
| draw_message: "only_others env d e \<Longrightarrow> only_others env d (e\<lparr>messages_seq := messages_seq e + 1\<rparr>)"

text \<open>A lock on a new pair: the others cannot commit a conversation for it meanwhile.\<close>

definition keeps_pair :: "(db \<Rightarrow> db) \<Rightarrow> int \<Rightarrow> int \<Rightarrow> bool" where
  "keeps_pair f low high \<longleftrightarrow> (\<forall>d. (\<forall>c \<in> set (conversations d). \<not> has_pair low high c) \<longrightarrow>
     (\<forall>c \<in> set (conversations (f d)). \<not> has_pair low high c))"

text \<open>The identity this transaction draws is its own.\<close>

definition keeps_identity :: "(db \<Rightarrow> db) \<Rightarrow> int \<Rightarrow> bool" where
  "keeps_identity f cid \<longleftrightarrow> (\<forall>d. cid \<notin> c_id ` set (conversations d) \<longrightarrow> cid \<notin> c_id ` set (conversations (f d)))"

definition drawn_conversation :: "send_env \<Rightarrow> db \<Rightarrow> int" where
  "drawn_conversation env d =
     conversations_seq (env_others env AtInsertConversation (env_others env AtSelectConversation (env_others env AtFind d)))"

definition isolation :: "send_env \<Rightarrow> sendMessageCommand \<Rightarrow> db \<Rightarrow> bool" where
  "isolation env cmd d \<longleftrightarrow> (\<forall>p. others_ok (env_others env p))
     \<and> (\<forall>p \<in> {AtInsertMembers, AtInsertMessage}.
          keeps_pair (env_others env p) (min (cmd_SenderID cmd) (cmd_ReceiverID cmd))
            (max (cmd_SenderID cmd) (cmd_ReceiverID cmd))
          \<and> keeps_identity (env_others env p) (drawn_conversation env d))"

text \<open>
  The rows the transaction has pending when it inserts the message into the view: none, and the
  pair has its conversation, or a new empty conversation of the pair with both members.
\<close>

definition new_ok :: "db \<Rightarrow> conversation_row \<Rightarrow> int \<Rightarrow> int \<Rightarrow> int \<Rightarrow> bool" where
  "new_ok d c cid low high \<longleftrightarrow> c_id c = cid \<and> has_pair low high c \<and> c_last_seq c = 0
     \<and> low \<in> user_ids d \<and> high \<in> user_ids d \<and> cid \<notin> c_id ` set (conversations d)
     \<and> 0 < cid \<and> cid < conversations_seq d \<and> (\<forall>c' \<in> set (conversations d). \<not> has_pair low high c')"

definition pair_stored :: "db \<Rightarrow> int \<Rightarrow> int \<Rightarrow> int \<Rightarrow> bool" where
  "pair_stored d cid low high \<longleftrightarrow> (\<exists>c \<in> set (conversations d). c_id c = cid \<and> has_pair low high c)"

definition pending_ok :: "db \<Rightarrow> pending \<Rightarrow> int \<Rightarrow> int \<Rightarrow> int \<Rightarrow> bool" where
  "pending_ok d p cid low high \<longleftrightarrow>
     (p = no_pending \<and> pair_stored d cid low high)
     \<or> (\<exists>c. p_conversations p = [c] \<and> set (p_members p) = {(cid, low), (cid, high)} \<and> new_ok d c cid low high)"

text \<open>
  The end of a send: either this transaction contributed nothing, or it inserted its message
  into the view it had, and that view is the new committed state.
\<close>

definition contributes ::
  "send_env \<Rightarrow> sendMessageCommand \<Rightarrow> string \<Rightarrow> db \<Rightarrow> pending \<Rightarrow> int \<Rightarrow> message \<Rightarrow> db \<Rightarrow> bool" where
  "contributes env cmd content v p cid m d' \<longleftrightarrow>
     insertMessageAndOutbox env (tx_view v p) cid (cmd_SenderID cmd) (cmd_ReceiverID cmd)
       (cmd_ClientMessageID cmd) content = (Inr (Some m), d')"

text \<open>Every way a send can end.\<close>

definition quiet_end :: "send_env \<Rightarrow> db \<Rightarrow> messageServiceError + sendMessageResult \<Rightarrow> db \<Rightarrow> bool" where
  "quiet_end env d0 r d' \<longleftrightarrow> only_others env d0 d' \<and> (\<forall>x. r = Inr x \<longrightarrow> \<not> sr_Created x)"

definition loud_end ::
  "send_env \<Rightarrow> sendMessageCommand \<Rightarrow> db \<Rightarrow> messageServiceError + sendMessageResult \<Rightarrow> db \<Rightarrow> bool" where
  "loud_end env cmd d0 r d' \<longleftrightarrow>
     (\<exists>v p cid m content. cmd_Content cmd = Some content \<and> only_others env d0 v
        \<and> pending_ok v p cid (min (cmd_SenderID cmd) (cmd_ReceiverID cmd)) (max (cmd_SenderID cmd) (cmd_ReceiverID cmd))
        \<and> contributes env cmd content v p cid m d'
        \<and> (r = Inr \<lparr>sr_Message = m, sr_Created = True\<rparr> \<and> env_commit env = CommitOk
            \<or> r = Inl internalMessageError \<and> env_commit env = CommitLostApplied))"

text \<open>
  A command within all limits, an environment without failures in which no conversation is full,
  and the answer a send is expected to give: the message stored under the client id, or the
  conflict with it.
\<close>

definition good_command :: "sendMessageCommand \<Rightarrow> bool" where
  "good_command cmd \<longleftrightarrow> validOpaqueID (cmd_ClientMessageID cmd) \<and> pg_text_ok (cmd_ClientMessageID cmd)
     \<and> 16 \<le> RuneCountInString (cmd_ClientMessageID cmd) \<and> 0 < cmd_ReceiverID cmd
     \<and> (case cmd_Content cmd of None \<Rightarrow> False
          | Some c \<Rightarrow> pg_text_ok c \<and> 1 \<le> RuneCountInString c \<and> RuneCountInString c \<le> 4000)"

definition good_env :: "send_env \<Rightarrow> db \<Rightarrow> bool" where
  "good_env env d \<longleftrightarrow> (\<forall>q. \<not> env_fails env q) \<and> env_commit env = CommitOk \<and> env_now env \<le> env_clock env
     \<and> (\<forall>e. only_others env d e \<longrightarrow> (\<forall>c \<in> set (conversations e). c_last_seq c < int64_max))"

definition answered :: "sendMessageCommand \<Rightarrow> (messageServiceError + sendMessageResult) \<times> db \<Rightarrow> bool" where
  "answered cmd res \<longleftrightarrow> (\<exists>m b. m \<in> set (messages (snd res)) \<and> m_SenderID m = cmd_SenderID cmd
     \<and> m_ClientMessageID m = cmd_ClientMessageID cmd
     \<and> fst res = (if sameMessageRequest m cmd then Inr \<lparr>sr_Message = m, sr_Created = b\<rparr>
                  else Inl (serviceError ErrIdempotencyConflict)))"

section \<open>A small system\<close>

text \<open>Two users, an environment in which nothing fails and nobody interferes, and a command.\<close>

definition calm_env :: send_env where
  "calm_env = \<lparr>env_fails = (\<lambda>_. False), env_others = (\<lambda>_ d. d), env_commit = CommitOk,
     env_now = 1000, env_clock = 1001, env_event_id = 7\<rparr>"

definition two_users :: db where
  "two_users = empty_db\<lparr>users :=
     [\<lparr>ur_user = \<lparr>u_ID = 1, u_Username = ''alice'', u_DisplayName = ''Alice''\<rparr>, ur_password_hash = ''h1''\<rparr>,
      \<lparr>ur_user = \<lparr>u_ID = 2, u_Username = ''bob'', u_DisplayName = ''Bob''\<rparr>, ur_password_hash = ''h2''\<rparr>],
     users_seq := 3\<rparr>"

definition hello :: sendMessageCommand where
  "hello = \<lparr>cmd_SenderID = 1, cmd_ReceiverID = 2, cmd_ClientMessageID = ''client-message-1'',
     cmd_Content = Some ''hello''\<rparr>"

definition hello_message :: message where
  "hello_message = \<lparr>m_ID = 1, m_ConversationID = 1, m_ConversationSeq = 1,
     m_ClientMessageID = ''client-message-1'', m_SenderID = 1, m_ReceiverID = 2, m_Content = ''hello'',
     m_CreatedAt = 1001\<rparr>"

definition hello_db :: db where
  "hello_db = two_users\<lparr>
     conversations := [\<lparr>c_id = 1, c_kind = ''direct'', c_direct_user_low_id = Some 1,
       c_direct_user_high_id = Some 2, c_last_seq = 1, c_created_at = 1000, c_updated_at = 1001\<rparr>],
     conversation_members := [(1, 1), (1, 2)], messages := [hello_message],
     outbox_events := [created_event calm_env hello_message], conversations_seq := 2, messages_seq := 2\<rparr>"

text \<open>The environment whose INSERT of the message fails, and eight CJK characters in 24 bytes.\<close>

definition failing_env :: send_env where
  "failing_env = calm_env\<lparr>env_fails := (\<lambda>q. q = AtInsertMessage)\<rparr>"

definition cjk_id :: string where
  "cjk_id = concat (replicate 8 [CHR 0xE4, CHR 0xBD, CHR 0xA0])"

definition cjk_request :: createMessageRequest where
  "cjk_request = \<lparr>req_ClientMessageID = cjk_id, req_ReceiverID = 2, req_Content = Some ''hello''\<rparr>"

definition other_request :: createMessageRequest where
  "other_request = \<lparr>req_ClientMessageID = ''client-message-1'', req_ReceiverID = 2, req_Content = Some ''bye''\<rparr>"

section \<open>Invariants of the statements\<close>

lemma only_others_inv:
  assumes "only_others env d e" and "\<And>p. others_ok (env_others env p)" and "chat_inv d"
  shows "chat_inv e \<and> db_le d e"
  using assms(1)
proof (induction rule: only_others.induct)
  case start
  then show ?case using assms(3) by simp
next
  case (others e p)
  then show ?case
    using assms(2) [of p] by (auto simp: others_ok_def intro: db_le_trans)
next
  case (draw_conversation e)
  then have "chat_inv (e\<lparr>conversations_seq := conversations_seq e + 1\<rparr>)"
    by (auto intro: chat_inv_more simp: user_ids_def)
  moreover have "db_le e (e\<lparr>conversations_seq := conversations_seq e + 1\<rparr>)"
    by (auto simp: db_le_def user_ids_def)
  ultimately show ?case using draw_conversation.IH by (blast intro: db_le_trans)
next
  case (draw_message e)
  then have "chat_inv (e\<lparr>messages_seq := messages_seq e + 1\<rparr>)"
    by (auto intro: chat_inv_more simp: user_ids_def)
  moreover have "db_le e (e\<lparr>messages_seq := messages_seq e + 1\<rparr>)"
    by (auto simp: db_le_def user_ids_def)
  ultimately show ?case using draw_message.IH by (blast intro: db_le_trans)
qed

lemma tx_view_no_pending [simp]: "tx_view d no_pending = d"
  by (simp add: tx_view_def no_pending_def)

lemma tx_view_simps [simp]:
  "messages (tx_view d p) = messages d" "outbox_events (tx_view d p) = outbox_events d"
  "messages_seq (tx_view d p) = messages_seq d" "conversations_seq (tx_view d p) = conversations_seq d"
  "users (tx_view d p) = users d" "user_ids (tx_view d p) = user_ids d"
  "conversations (tx_view d p) = conversations d @ p_conversations p"
  "conversation_members (tx_view d p) = conversation_members d @ p_members p"
  by (simp_all add: tx_view_def user_ids_def)

lemma chat_inv_new_conversation:
  assumes inv: "chat_inv d" and p: "p_conversations p = [c]" "set (p_members p) = {(cid, low), (cid, high)}"
    and c: "c_id c = cid" "has_pair low high c" "c_last_seq c = 0" "low \<le> high"
    and u: "low \<in> user_ids d" "high \<in> user_ids d"
    and fresh: "cid \<notin> c_id ` set (conversations d)" "0 < cid" "cid < conversations_seq d"
    and pair: "\<And>c'. c' \<in> set (conversations d) \<Longrightarrow> \<not> has_pair low high c'"
  shows "chat_inv (tx_view d p)"
proof (rule chat_invI)
  have no_member: "(cid, u) \<notin> set (conversation_members d)" for u
    using chat_inv_members [OF inv] fresh(1) by force
  have no_message: "conversation_messages d cid = []"
    using chat_inv_message_conversation [OF inv] fresh(1)
    by (auto simp: conversation_messages_def filter_empty_conv)
  have same_seqs: "seqs_of (tx_view d p) k = seqs_of d k" for k
    by (simp add: seqs_of_def conversation_messages_def)
  have "{u. is_member (tx_view d p) cid u} = {low, high}"
    using no_member p(2) by (auto simp: is_member_def)
  moreover have "seqs_of (tx_view d p) cid = {}"
    unfolding same_seqs by (simp add: seqs_of_def no_message)
  ultimately have new: "conversation_ok (tx_view d p) c"
    unfolding conversation_ok_def c(1) using c(2-4) u fresh(2,3) by auto
  have old: "conversation_ok (tx_view d p) r" if r: "r \<in> set (conversations d)" for r
  proof -
    have "is_member (tx_view d p) (c_id r) x \<longleftrightarrow> is_member d (c_id r) x" for x
      using r fresh(1) p(2) by (auto simp: is_member_def)
    then show ?thesis
      using chat_inv_conversation [OF inv r] by (simp add: conversation_ok_def same_seqs)
  qed
  show "conversation_ok (tx_view d p) r" if "r \<in> set (conversations (tx_view d p))" for r
    using that old new p(1) by auto
  show "distinct (map c_id (conversations (tx_view d p)))"
    using chat_inv_distinct(1) [OF inv] fresh(1) p(1) c(1) by simp
  show "c_id r = c_id r'"
    if "r \<in> set (conversations (tx_view d p))" "r' \<in> set (conversations (tx_view d p))"
      "has_pair a b r" "has_pair a b r'" for r r' a b
    using that p(1) pair c(2) chat_inv_pair [OF inv, of r r' a b]
    by (auto dest: has_pair_unique)
  show "message_ok (tx_view d p) m" if "m \<in> set (messages (tx_view d p))" for m
    using chat_inv_message [OF inv, of m] that by (auto simp: message_ok_def)
  show "outbox_ok (tx_view d p) e" if "e \<in> set (outbox_events (tx_view d p))" for e
    using chat_inv_outbox [OF inv, of e] that by (auto simp: outbox_ok_def)
  show "fst ` set (conversation_members (tx_view d p)) \<subseteq> c_id ` set (conversations (tx_view d p))"
    using chat_inv_members [OF inv] p c(1) by auto
qed (use chat_inv_distinct [OF inv] chat_inv_seq_pos [OF inv] in simp_all)

lemma pending_view_inv:
  assumes "chat_inv d" and "pending_ok d p cid low high" and "low \<le> high"
  shows "chat_inv (tx_view d p)"
    and "\<exists>c \<in> set (conversations (tx_view d p)). c_id c = cid \<and> has_pair low high c"
  using assms chat_inv_new_conversation [OF assms(1)]
  by (auto simp: pending_ok_def new_ok_def pair_stored_def)

lemma has_pair_update [simp]:
  "has_pair low high (c\<lparr>c_last_seq := n, c_updated_at := t\<rparr>) \<longleftrightarrow> has_pair low high c"
  by (simp add: has_pair_def)

text \<open>What a successful insert does to the view.\<close>

lemma insertMessageAndOutbox_SomeD:
  assumes "insertMessageAndOutbox env d cid sender receiver cmid content = (Inr (Some m), d')"
  obtains c where "find (\<lambda>c. c_id c = cid) (conversations d) = Some c"
    and "m = \<lparr>m_ID = messages_seq d, m_ConversationID = cid, m_ConversationSeq = c_last_seq c + 1,
              m_ClientMessageID = cmid, m_SenderID = sender, m_ReceiverID = receiver,
              m_Content = content, m_CreatedAt = max (c_updated_at c) (env_clock env)\<rparr>"
    and "d' = d\<lparr>conversations := update_rows (\<lambda>r. c_id r = cid)
                 (\<lambda>r. r\<lparr>c_last_seq := c_last_seq r + 1, c_updated_at := max (c_updated_at r) (env_clock env)\<rparr>)
                 (conversations d),
               messages_seq := messages_seq d + 1, messages := messages d @ [m],
               outbox_events := outbox_events d @ [created_event env m]\<rparr>"
    and "\<forall>x \<in> set (messages d). \<not> (m_SenderID x = sender \<and> m_ClientMessageID x = cmid)"
    and "c_last_seq c + 1 \<le> int64_max" and "pg_text_ok cmid"
    and "16 \<le> RuneCountInString cmid" and "RuneCountInString cmid \<le> 128"
  using assms
  by (auto simp: insertMessageAndOutbox_def Let_def split: if_splits option.splits)

text \<open>The effect of a successful insert on the rows, with the updated conversation row named.\<close>

definition bump :: "int \<Rightarrow> timestamp \<Rightarrow> conversation_row \<Rightarrow> conversation_row" where
  "bump cid at r = (if c_id r = cid then r\<lparr>c_last_seq := c_last_seq r + 1, c_updated_at := max (c_updated_at r) at\<rparr> else r)"

lemma bump_same [simp]:
  "c_id (bump cid at r) = c_id r" "has_pair low high (bump cid at r) = has_pair low high r"
  by (simp_all add: bump_def)

definition appended :: "send_env \<Rightarrow> conversation_row \<Rightarrow> message \<Rightarrow> db \<Rightarrow> db \<Rightarrow> bool" where
  "appended env c m d d' \<longleftrightarrow> c \<in> set (conversations d) \<and> c_id c = m_ConversationID m
     \<and> m_ID m = messages_seq d \<and> m_ConversationSeq m = c_last_seq c + 1
     \<and> d' = d\<lparr>conversations := map (bump (m_ConversationID m) (env_clock env)) (conversations d),
              messages_seq := messages_seq d + 1, messages := messages d @ [m],
              outbox_events := outbox_events d @ [created_event env m]\<rparr>"

lemma insertMessageAndOutbox_appended:
  assumes "insertMessageAndOutbox env d cid sender receiver cmid content = (Inr (Some m), d')"
  obtains c where "appended env c m d d'"
    and "m_ConversationID m = cid" "m_SenderID m = sender" "m_ReceiverID m = receiver" "m_ClientMessageID m = cmid"
    and "\<forall>x \<in> set (messages d). \<not> (m_SenderID x = sender \<and> m_ClientMessageID x = cmid)"
proof -
  have up: "update_rows (\<lambda>r. c_id r = cid) (\<lambda>r. r\<lparr>c_last_seq := c_last_seq r + 1,
      c_updated_at := max (c_updated_at r) (env_clock env)\<rparr>) rs = map (bump cid (env_clock env)) rs" for rs
    by (simp add: update_rows_def bump_def)
  from assms show ?thesis
  proof (rule insertMessageAndOutbox_SomeD)
    fix c assume c: "find (\<lambda>c. c_id c = cid) (conversations d) = Some c"
      and m: "m = \<lparr>m_ID = messages_seq d, m_ConversationID = cid, m_ConversationSeq = c_last_seq c + 1,
              m_ClientMessageID = cmid, m_SenderID = sender, m_ReceiverID = receiver,
              m_Content = content, m_CreatedAt = max (c_updated_at c) (env_clock env)\<rparr>"
      and d': "d' = d\<lparr>conversations := update_rows (\<lambda>r. c_id r = cid)
                 (\<lambda>r. r\<lparr>c_last_seq := c_last_seq r + 1, c_updated_at := max (c_updated_at r) (env_clock env)\<rparr>)
                 (conversations d),
               messages_seq := messages_seq d + 1, messages := messages d @ [m],
               outbox_events := outbox_events d @ [created_event env m]\<rparr>"
      and key: "\<forall>x \<in> set (messages d). \<not> (m_SenderID x = sender \<and> m_ClientMessageID x = cmid)"
    have f: "m_ID m = messages_seq d" "m_ConversationID m = cid" "m_ConversationSeq m = c_last_seq c + 1"
        "m_SenderID m = sender" "m_ReceiverID m = receiver" "m_ClientMessageID m = cmid" by (simp_all add: m)
    have "appended env c m d d'"
      unfolding appended_def f d' up using find_SomeD [OF c] by simp
    then show ?thesis by (rule that) (fact f key)+
  qed
qed

lemma appended_rows:
  assumes "appended env c m d d'"
  shows "user_ids d' = user_ids d" and "is_member d' k u = is_member d k u" and "conversations_seq d' = conversations_seq d"
    and "seqs_of d' k = (if k = m_ConversationID m then insert (c_last_seq c + 1) (seqs_of d k) else seqs_of d k)"
    and "map c_id (conversations d') = map c_id (conversations d)" and "messages d' = messages d @ [m]"
    and "set (conversations d') = bump (m_ConversationID m) (env_clock env) ` set (conversations d)"
    and "messages_seq d' = messages_seq d + 1" and "conversation_members d' = conversation_members d"
  using assms by (auto simp: appended_def user_ids_def is_member_def seqs_of_def conversation_messages_def)

lemma appended_seqs:
  assumes "chat_inv d" and "appended env c m d d'"
  shows "seqs_of d (m_ConversationID m) = {1..c_last_seq c}" and "0 \<le> c_last_seq c"
    and "\<lbrakk>r \<in> set (conversations d); c_id r = m_ConversationID m\<rbrakk> \<Longrightarrow> r = c"
proof -
  have c: "c \<in> set (conversations d)" "c_id c = m_ConversationID m" using assms(2) by (simp_all add: appended_def)
  show "seqs_of d (m_ConversationID m) = {1..c_last_seq c}" "0 \<le> c_last_seq c"
    using chat_inv_conversation [OF assms(1) c(1)] c(2) by (simp_all add: conversation_ok_def)
  show "r = c" if "r \<in> set (conversations d)" "c_id r = m_ConversationID m"
    using chat_inv_distinct(1) [OF assms(1)] that c by (metis distinct_map inj_onD)
qed

lemma appended_conversation_ok:
  assumes inv: "chat_inv d" and app: "appended env c m d d'" and r: "r \<in> set (conversations d)"
  shows "conversation_ok d' (bump (m_ConversationID m) (env_clock env) r)"
proof (cases "c_id r = m_ConversationID m")
  case True
  then have "r = c" using appended_seqs(3) [OF inv app r] by simp
  with chat_inv_conversation [OF inv r] True appended_seqs(1,2) [OF inv app] show ?thesis
    by (auto simp: bump_def conversation_ok_def appended_rows [OF app])
next
  case False
  with chat_inv_conversation [OF inv r] show ?thesis
    by (simp add: bump_def conversation_ok_def appended_rows [OF app])
qed

lemma appended_message_ok:
  assumes inv: "chat_inv d" and app: "appended env c m d d'" and x: "x \<in> set (messages d')"
    and pair: "has_pair (min (m_SenderID m) (m_ReceiverID m)) (max (m_SenderID m) (m_ReceiverID m)) c"
  shows "message_ok d' x"
proof -
  have pos: "0 < messages_seq d" by (rule chat_inv_seq_pos(2) [OF inv])
  obtain y where "y \<in> set (conversations d)" "c_id y = m_ConversationID x"
      "has_pair (min (m_SenderID x) (m_ReceiverID x)) (max (m_SenderID x) (m_ReceiverID x)) y"
      "0 < m_ID x" "m_ID x < messages_seq d + 1"
  proof (cases "x = m")
    case True
    then show ?thesis using that [of c] app pair pos by (simp add: appended_def)
  next
    case False
    with x have "x \<in> set (messages d)" by (simp add: appended_rows [OF app])
    from chat_inv_message [OF inv this] show ?thesis unfolding message_ok_def by (metis that less_add_one less_trans)
  qed
  then show ?thesis unfolding message_ok_def appended_rows(7,8) [OF app] by force
qed

lemma appended_inv:
  assumes inv: "chat_inv d" and app: "appended env c m d d'"
    and key: "\<forall>x \<in> set (messages d). \<not> (m_SenderID x = m_SenderID m \<and> m_ClientMessageID x = m_ClientMessageID m)"
    and pair: "has_pair (min (m_SenderID m) (m_ReceiverID m)) (max (m_SenderID m) (m_ReceiverID m)) c"
  shows "chat_inv d'"
proof (rule chat_invI)
  note R = appended_rows [OF app] and D = chat_inv_distinct [OF inv]
  have m: "m_ID m = messages_seq d" "m_ConversationSeq m = c_last_seq c + 1" using app by (simp_all add: appended_def)
  show "conversation_ok d' r" if "r \<in> set (conversations d')" for r
    using that appended_conversation_ok [OF inv app] unfolding R(7) by blast
  show "c_id r = c_id r'"
    if "r \<in> set (conversations d')" "r' \<in> set (conversations d')" "has_pair a b r" "has_pair a b r'" for r r' a b
  proof -
    from that(1,2) obtain x y where xy: "x \<in> set (conversations d)" "y \<in> set (conversations d)"
        "r = bump (m_ConversationID m) (env_clock env) x" "r' = bump (m_ConversationID m) (env_clock env) y"
      unfolding R(7) by blast
    then have "has_pair a b x" "has_pair a b y" using that(3,4) by simp_all
    then show ?thesis using chat_inv_pair [OF inv xy(1,2)] xy(3,4) by simp
  qed
  show "distinct (map c_id (conversations d'))" using D(1) by (simp only: R(5))
  show "distinct (map m_ID (messages d'))" using D(2) chat_inv_message_id(2) [OF inv] by (force simp: R(6) m)
  show "distinct (map (\<lambda>m. (m_SenderID m, m_ClientMessageID m)) (messages d'))" using D(3) key by (auto simp: R(6))
  have "c_last_seq c + 1 \<notin> seqs_of d (m_ConversationID m)" using appended_seqs [OF inv app] by simp
  then show "distinct (map (\<lambda>m. (m_ConversationID m, m_ConversationSeq m)) (messages d'))"
    using D(4) by (auto simp: R(6) m seqs_of_def conversation_messages_def)
  show "message_ok d' x" if "x \<in> set (messages d')" for x by (rule appended_message_ok [OF inv app that pair])
  show "outbox_ok d' e" if "e \<in> set (outbox_events d')" for e
    using chat_inv_outbox [OF inv, of e] app that by (auto simp: appended_def outbox_ok_def created_event_def)
  show "fst ` set (conversation_members d') \<subseteq> c_id ` set (conversations d')"
    using chat_inv_members [OF inv] R(9) arg_cong [OF R(5), of set] by simp
  show "0 < conversations_seq d'" "0 < messages_seq d'" using chat_inv_seq_pos [OF inv] by (simp_all add: R(3,8))
qed

lemma insertMessageAndOutbox_inv:
  assumes inv: "chat_inv d"
    and ins: "insertMessageAndOutbox env d cid sender receiver cmid content = (Inr (Some m), d')"
    and conv: "\<exists>c \<in> set (conversations d). c_id c = cid \<and> has_pair (min sender receiver) (max sender receiver) c"
  shows "chat_inv d'"
  using ins
proof (rule insertMessageAndOutbox_appended)
  fix c assume c: "appended env c m d d'" "m_ConversationID m = cid" "m_SenderID m = sender" "m_ReceiverID m = receiver"
      "m_ClientMessageID m = cmid" "\<forall>x \<in> set (messages d). \<not> (m_SenderID x = sender \<and> m_ClientMessageID x = cmid)"
  then have "has_pair (min sender receiver) (max sender receiver) c" using conv appended_seqs(3) [OF inv c(1)] by blast
  then show ?thesis using appended_inv [OF inv c(1)] c by simp
qed

section \<open>The whole transaction\<close>

lemmas only_others_steps = only_others.start only_others.others only_others.draw_conversation
  only_others.draw_message

lemma insertConversation_snd:
  "insertConversation now d low high = (r, d') \<Longrightarrow> d' = d\<lparr>conversations_seq := conversations_seq d + 1\<rparr>"
  by (auto simp: insertConversation_def Let_def split: if_splits)

lemma resolveDirectConversation_only_others:
  assumes "resolveDirectConversation env d low high = (r, d', p)" and "only_others env d0 d"
  shows "only_others env d0 d'"
  using assms
  by (auto simp: resolveDirectConversation_def Let_def dest!: insertConversation_snd
      intro!: only_others_steps split: if_splits option.splits prod.splits sum.splits)

lemma insertMessageAndOutbox_seq:
  "insertMessageAndOutbox env d cid s r cmid content = (x, v) \<Longrightarrow>
   messages_seq v = messages_seq d \<or> messages_seq v = messages_seq d + 1"
  by (auto simp: insertMessageAndOutbox_def Let_def split: if_splits option.splits)

lemma rolled_back_only_others:
  assumes "insertMessageAndOutbox env (tx_view d p) cid s r cmid content = (x, v)"
    and "only_others env d0 d"
  shows "only_others env d0 (rolled_back d v)"
proof -
  have "messages_seq v = messages_seq d \<or> messages_seq v = messages_seq d + 1"
    using insertMessageAndOutbox_seq [OF assms(1)] by simp
  then show ?thesis
    using assms(2) only_others.draw_message [OF assms(2)] by (auto simp: rolled_back_def)
qed

lemma send_loser_only_others:
  assumes "send_loser env cmd d = (r, d')" and "only_others env d0 d"
  shows "only_others env d0 d'" and "\<forall>x. r = Inr x \<longrightarrow> \<not> sr_Created x"
  using assms
  by (auto simp: send_loser_def Let_def intro!: only_others_steps split: if_splits option.splits)

lemma send_insert_cases:
  assumes "send_insert env cmd content d p cid = (r, d')" and "only_others env d0 d"
  shows "(only_others env d0 d' \<and> (\<forall>x. r = Inr x \<longrightarrow> \<not> sr_Created x))
    \<or> (\<exists>m. contributes env cmd content (env_others env AtInsertMessage d) p cid m d'
         \<and> (r = Inr \<lparr>sr_Message = m, sr_Created = True\<rparr> \<and> env_commit env = CommitOk
             \<or> r = Inl internalMessageError \<and> env_commit env = CommitLostApplied))"
proof -
  let ?d = "env_others env AtInsertMessage d"
  have o: "only_others env d0 ?d" using assms(2) by (rule only_others.others)
  obtain x v where ins: "insertMessageAndOutbox env (tx_view ?d p) cid (cmd_SenderID cmd)
      (cmd_ReceiverID cmd) (cmd_ClientMessageID cmd) content = (x, v)"
    by force
  have rb: "only_others env d0 (rolled_back ?d v)"
    using rolled_back_only_others [OF ins o] .
  show ?thesis
  proof (cases "env_fails env AtInsertMessage")
    case True
    then show ?thesis using assms(1) o by (auto simp: send_insert_def)
  next
    case False
    consider e where "x = Inl e" | "x = Inr None" | m where "x = Inr (Some m)"
      by (metis option.exhaust sum.exhaust)
    then show ?thesis
    proof cases
      case 1
      then show ?thesis using assms(1) False ins rb by (auto simp: send_insert_def)
    next
      case 2
      then have "send_loser env cmd (rolled_back ?d v) = (r, d')"
        using assms(1) False ins by (simp add: send_insert_def)
      then show ?thesis using send_loser_only_others [OF _ rb] by blast
    next
      case 3
      then have "commit_send env ?d v m = (r, d')"
        using assms(1) False ins by (simp add: send_insert_def)
      then show ?thesis
        using 3 ins rb
        by (auto simp: commit_send_def contributes_def split: commit_outcome.splits)
    qed
  qed
qed

text \<open>Interference keeps the pair and the pending conversation.\<close>

lemma pair_stored_le: "pair_stored d cid low high \<Longrightarrow> db_le d e \<Longrightarrow> pair_stored e cid low high"
  unfolding pair_stored_def has_pair_def db_le_def by metis

lemma new_ok_others:
  assumes new: "new_ok d c cid low high" and le: "db_le d (f d)" and keep: "keeps_pair f low high" "keeps_identity f cid"
  shows "new_ok (f d) c cid low high"
proof -
  have "cid \<notin> c_id ` set (conversations (f d))"
    using new keep(2) unfolding new_ok_def keeps_identity_def by blast
  moreover have "user_ids d \<subseteq> user_ids (f d)" "conversations_seq d \<le> conversations_seq (f d)"
    using le by (simp_all add: db_le_def)
  ultimately show ?thesis
    using new keep(1) unfolding new_ok_def keeps_pair_def by auto
qed

lemma pending_ok_others:
  assumes "pending_ok d p cid low high" and "db_le d (f d)" and "keeps_pair f low high"
    and "p = no_pending \<or> keeps_identity f cid"
  shows "pending_ok (f d) p cid low high"
  using assms pair_stored_le new_ok_others unfolding pending_ok_def no_pending_def by fastforce

lemma selectConversation_stored:
  "selectConversation d low high = Some c \<Longrightarrow> pair_stored d (c_id c) low high"
  by (auto simp: selectConversation_def pair_stored_def dest: find_SomeD)

lemma insertConversation_new:
  assumes "chat_inv d" and "insertConversation now d low high = (Inr (Some c), d')"
  shows "new_ok d' c (c_id c) low high"
proof -
  have "c_id x < conversations_seq d" if "x \<in> set (conversations d)" for x
    using chat_inv_conversation [OF assms(1) that] by (simp add: conversation_ok_def)
  then have "conversations_seq d \<notin> c_id ` set (conversations d)" by fastforce
  then show ?thesis
    using assms(2) chat_inv_seq_pos(1) [OF assms(1)]
    by (auto simp: insertConversation_def new_ok_def has_pair_def user_ids_def Let_def split: if_splits)
qed

lemma insertConversation_identity: "insertConversation now d low high = (Inr (Some c), d') \<Longrightarrow> c_id c = conversations_seq d"
  by (auto simp: insertConversation_def Let_def split: if_splits)

lemma resolveDirectConversation_Inr:
  assumes res: "resolveDirectConversation env d low high = (Inr (cid, created), d', p)"
    and others: "\<And>q. others_ok (env_others env q)" and inv: "chat_inv d"
  shows "if created then (\<exists>c. p = \<lparr>p_conversations = [c], p_members = []\<rparr> \<and> new_ok d' c cid low high)
           \<and> cid = conversations_seq (env_others env AtInsertConversation (env_others env AtSelectConversation d))
         else p = no_pending \<and> pair_stored d' cid low high"
proof -
  let ?d1 = "env_others env AtInsertConversation (env_others env AtSelectConversation d)"
  have "chat_inv ?d1" using others_okD [OF others] inv by blast
  then show ?thesis
    using res insertConversation_new [of ?d1 "env_now env" low high] insertConversation_identity [of "env_now env" ?d1 low high]
    by (auto simp: resolveDirectConversation_def Let_def dest: selectConversation_stored
        split: if_splits option.splits prod.splits sum.splits)
qed

lemma insertConversationMembers_Inr:
  assumes "insertConversationMembers d p cid s r = Inr p'" and "p = \<lparr>p_conversations = [c], p_members = []\<rparr>"
  shows "p_conversations p' = [c]" and "set (p_members p') = {(cid, min s r), (cid, max s r)}"
  using assms by (auto simp: insertConversationMembers_def min_def max_def split: if_splits)

lemma send_insert_end:
  assumes "send_insert env cmd content d p cid = (r, d')" and "only_others env d0 d"
    and "cmd_Content cmd = Some content" and "isolation env cmd d0" and "chat_inv d0"
    and "p = no_pending \<or> cid = drawn_conversation env d0"
    and "pending_ok d p cid (min (cmd_SenderID cmd) (cmd_ReceiverID cmd)) (max (cmd_SenderID cmd) (cmd_ReceiverID cmd))"
  shows "quiet_end env d0 r d' \<or> loud_end env cmd d0 r d'"
proof -
  let ?v = "env_others env AtInsertMessage d"
  have others: "\<And>q. others_ok (env_others env q)" using assms(4) by (simp add: isolation_def)
  have "chat_inv d" using only_others_inv [OF assms(2) others assms(5)] by simp
  then have "db_le d ?v" using others_ok_le [OF others] by blast
  then have "pending_ok ?v p cid (min (cmd_SenderID cmd) (cmd_ReceiverID cmd))
      (max (cmd_SenderID cmd) (cmd_ReceiverID cmd))"
    using pending_ok_others [OF assms(7), of "env_others env AtInsertMessage"] assms(4,6)
    by (auto simp: isolation_def)
  moreover have "only_others env d0 ?v" using assms(2) by (rule only_others.others)
  ultimately show ?thesis
    using send_insert_cases [OF assms(1,2)] assms(3) unfolding quiet_end_def loud_end_def by blast
qed

lemma send_after_resolve:
  assumes res: "resolveDirectConversation env d (min (cmd_SenderID cmd) (cmd_ReceiverID cmd))
        (max (cmd_SenderID cmd) (cmd_ReceiverID cmd)) = (Inr (cid, created), d1, p)"
    and o: "only_others env d0 d" and content: "cmd_Content cmd = Some content"
    and iso: "isolation env cmd d0" and inv: "chat_inv d0" and d: "d = env_others env AtFind d0"
    and run: "(if \<not> created then send_insert env cmd content d1 p cid
         else (let d2 = env_others env AtInsertMembers d1
               in if env_fails env AtInsertMembers then (Inl internalMessageError, d2)
                  else case insertConversationMembers (tx_view d2 p) p cid
                              (cmd_SenderID cmd) (cmd_ReceiverID cmd) of
                    Inl e \<Rightarrow> (Inl (classifyMessageStoreError e), d2)
                  | Inr p' \<Rightarrow> send_insert env cmd content d2 p' cid)) = (r, d')"
  shows "quiet_end env d0 r d' \<or> loud_end env cmd d0 r d'"
proof -
  let ?low = "min (cmd_SenderID cmd) (cmd_ReceiverID cmd)"
  let ?high = "max (cmd_SenderID cmd) (cmd_ReceiverID cmd)"
  have others: "\<And>q. others_ok (env_others env q)" using iso by (simp add: isolation_def)
  have "chat_inv d" using only_others_inv [OF o others inv] by simp
  note R = resolveDirectConversation_Inr [OF res others this]
  have o1: "only_others env d0 d1" by (rule resolveDirectConversation_only_others [OF res o])
  show ?thesis
  proof (cases created)
    case False
    then have "pending_ok d1 p cid ?low ?high" using R by (simp add: pending_ok_def)
    with False run R show ?thesis using send_insert_end [OF _ o1 content iso inv] by simp
  next
    case True
    let ?d2 = "env_others env AtInsertMembers d1"
    from True R obtain c where c: "p = \<lparr>p_conversations = [c], p_members = []\<rparr>" "new_ok d1 c cid ?low ?high"
      by auto
    have own: "cid = drawn_conversation env d0" using True R by (simp add: d drawn_conversation_def)
    have o2: "only_others env d0 ?d2" using o1 by (rule only_others.others)
    have "chat_inv d1" using only_others_inv [OF o1 others inv] by simp
    then have "new_ok ?d2 c cid ?low ?high"
      using c(2) new_ok_others others_ok_le [OF others] iso own by (simp add: isolation_def)
    then have "pending_ok ?d2 p' cid ?low ?high"
      if "insertConversationMembers (tx_view ?d2 p) p cid (cmd_SenderID cmd) (cmd_ReceiverID cmd) = Inr p'" for p'
      using insertConversationMembers_Inr [OF that c(1)] by (auto simp: pending_ok_def)
    then show ?thesis
      using run True o2 send_insert_end [OF _ o2 content iso inv disjI2 [OF own]]
      by (auto simp: Let_def quiet_end_def split: if_splits sum.splits)
  qed
qed

lemma send_end:
  assumes "send env cmd d0 = (r, d')" and "isolation env cmd d0" and "chat_inv d0"
  shows "quiet_end env d0 r d' \<or> loud_end env cmd d0 r d'"
proof -
  let ?d = "env_others env AtFind d0"
  have o: "only_others env d0 ?d" by (intro only_others_steps)
  have early: "quiet_end env d0 (Inl e) d0" "quiet_end env d0 (Inl e) ?d"
    "quiet_end env d0 (Inr \<lparr>sr_Message = m, sr_Created = False\<rparr>) ?d" for e m
    using o by (simp_all add: quiet_end_def only_others.start)
  have stop: "quiet_end env d0 (Inl e) d1"
    if "resolveDirectConversation env ?d low high = (x, d1, p)" for low high x d1 p e
    using resolveDirectConversation_only_others [OF that o] by (simp add: quiet_end_def)
  show ?thesis
    using assms(1) early stop send_after_resolve [OF _ o _ assms(2,3) refl]
    unfolding send_def
    by (auto simp: Let_def split: option.splits if_splits prod.splits sum.splits)
qed

section \<open>Properties of a send\<close>

lemma loud_end_inv:
  assumes "loud_end env cmd d0 r d'" and "isolation env cmd d0" and "chat_inv d0"
  shows "chat_inv d'"
proof -
  have others: "\<And>q. others_ok (env_others env q)" using assms(2) by (simp add: isolation_def)
  from assms(1) obtain v p cid m content where v: "only_others env d0 v"
    and p: "pending_ok v p cid (min (cmd_SenderID cmd) (cmd_ReceiverID cmd)) (max (cmd_SenderID cmd) (cmd_ReceiverID cmd))"
    and ins: "contributes env cmd content v p cid m d'"
    by (auto simp: loud_end_def)
  have "chat_inv v" using only_others_inv [OF v others assms(3)] by simp
  moreover have "min (cmd_SenderID cmd) (cmd_ReceiverID cmd) \<le> max (cmd_SenderID cmd) (cmd_ReceiverID cmd)"
    by simp
  ultimately have "chat_inv (tx_view v p)"
    and "\<exists>c \<in> set (conversations (tx_view v p)). c_id c = cid
      \<and> has_pair (min (cmd_SenderID cmd) (cmd_ReceiverID cmd)) (max (cmd_SenderID cmd) (cmd_ReceiverID cmd)) c"
    using pending_view_inv p by blast+
  then show ?thesis
    using insertMessageAndOutbox_inv [OF _ ins [unfolded contributes_def]] by blast
qed

lemma contributes_le:
  assumes "contributes env cmd content v p cid m d'"
  shows "db_le v d'"
proof -
  from assms obtain f where d': "d' = (tx_view v p)\<lparr>conversations := update_rows (\<lambda>r. c_id r = cid) f (conversations (tx_view v p)),
      messages_seq := messages_seq v + 1, messages := messages v @ [m], outbox_events := outbox_events v @ [created_event env m]\<rparr>"
    and f: "\<And>r. \<exists>t. f r = r\<lparr>c_last_seq := c_last_seq r + 1, c_updated_at := t\<rparr>"
    unfolding contributes_def by (elim insertMessageAndOutbox_SomeD) auto
  have "\<exists>c' \<in> set (conversations d'). c_id c' = c_id c \<and> c_last_seq c \<le> c_last_seq c' \<and> c_kind c' = c_kind c
      \<and> c_direct_user_low_id c' = c_direct_user_low_id c \<and> c_direct_user_high_id c' = c_direct_user_high_id c"
    if "c \<in> set (conversations v)" for c
  proof (rule bexI)
    let ?c = "if c_id c = cid then f c else c"
    show "?c \<in> set (conversations d')" using that by (auto simp: d' set_update_rows)
    show "c_id ?c = c_id c \<and> c_last_seq c \<le> c_last_seq ?c \<and> c_kind ?c = c_kind c
      \<and> c_direct_user_low_id ?c = c_direct_user_low_id c \<and> c_direct_user_high_id ?c = c_direct_user_high_id c"
      using f [of c] by auto
  qed
  then show ?thesis by (auto simp: db_le_def d' user_ids_def tx_view_def)
qed

lemma send_guarantee:
  assumes "isolation env cmd d" and "chat_inv d" and "send env cmd d = (r, d')"
  shows "chat_inv d' \<and> db_le d d'"
proof -
  have others: "\<And>q. others_ok (env_others env q)" using assms(1) by (simp add: isolation_def)
  from send_end [OF assms(3,1,2)] show ?thesis
  proof
    assume "quiet_end env d r d'"
    then show ?thesis using only_others_inv [OF _ others assms(2)] by (simp add: quiet_end_def)
  next
    assume loud: "loud_end env cmd d r d'"
    then obtain v p cid m content where "only_others env d v" "contributes env cmd content v p cid m d'"
      by (auto simp: loud_end_def)
    then have "db_le d d'" using only_others_inv [OF _ others assms(2)] contributes_le db_le_trans by blast
    then show ?thesis using loud_end_inv [OF loud assms(1,2)] by simp
  qed
qed

text \<open>
  C1: Whatever the others commit meanwhile, whichever statement fails and however the COMMIT
  ends, a send keeps the chat invariant: one conversation per pair of users with exactly its two
  members, sequence numbers 1 to last_seq without a gap or a repetition, one message per client
  id, every outbox event about a stored message.
\<close>

theorem send_preserves_chat_inv:
  assumes "isolation env cmd d" and "chat_inv d" and "send env cmd d = (r, d')"
  shows "chat_inv d'"
  using send_guarantee [OF assms] by simp

lemma contributes_shape:
  assumes "contributes env cmd content v p cid m d'" and "chat_inv (tx_view v p)"
  shows "messages d' = messages v @ [m]" and "outbox_events d' = outbox_events v @ [created_event env m]"
    and "m_SenderID m = cmd_SenderID cmd" and "m_ReceiverID m = cmd_ReceiverID cmd"
    and "m_ClientMessageID m = cmd_ClientMessageID cmd" and "m_Content m = content"
    and "m_ConversationID m = cid" and "seqs_of v cid = {1..m_ConversationSeq m - 1}"
    and "1 \<le> m_ConversationSeq m" and "pg_text_ok (cmd_ClientMessageID cmd)"
    and "16 \<le> RuneCountInString (cmd_ClientMessageID cmd)"
    and "\<forall>x \<in> set (messages v). \<not> (m_SenderID x = cmd_SenderID cmd \<and> m_ClientMessageID x = cmd_ClientMessageID cmd)"
proof -
  have "insertMessageAndOutbox env (tx_view v p) cid (cmd_SenderID cmd) (cmd_ReceiverID cmd)
      (cmd_ClientMessageID cmd) content = (Inr (Some m), d')"
    using assms(1) by (simp add: contributes_def)
  then obtain c where c: "find (\<lambda>c. c_id c = cid) (conversations (tx_view v p)) = Some c"
    and m: "m = \<lparr>m_ID = messages_seq (tx_view v p), m_ConversationID = cid, m_ConversationSeq = c_last_seq c + 1,
              m_ClientMessageID = cmd_ClientMessageID cmd, m_SenderID = cmd_SenderID cmd,
              m_ReceiverID = cmd_ReceiverID cmd, m_Content = content,
              m_CreatedAt = max (c_updated_at c) (env_clock env)\<rparr>"
    and d': "messages d' = messages v @ [m]" "outbox_events d' = outbox_events v @ [created_event env m]"
    and key: "\<forall>x \<in> set (messages v). \<not> (m_SenderID x = cmd_SenderID cmd \<and> m_ClientMessageID x = cmd_ClientMessageID cmd)"
    and ok: "pg_text_ok (cmd_ClientMessageID cmd)" "16 \<le> RuneCountInString (cmd_ClientMessageID cmd)"
    by (elim insertMessageAndOutbox_SomeD) simp
  have "c \<in> set (conversations (tx_view v p))" "c_id c = cid" using find_SomeD [OF c] by simp_all
  then have "conversation_ok (tx_view v p) c" using chat_inv_conversation [OF assms(2)] by simp
  moreover have "seqs_of (tx_view v p) cid = seqs_of v cid"
    by (simp add: seqs_of_def conversation_messages_def)
  ultimately have "seqs_of v cid = {1..c_last_seq c}" "0 \<le> c_last_seq c"
    using \<open>c_id c = cid\<close> by (auto simp: conversation_ok_def)
  then show "seqs_of v cid = {1..m_ConversationSeq m - 1}" "1 \<le> m_ConversationSeq m"
    by (simp_all add: m)
  show "messages d' = messages v @ [m]" and "outbox_events d' = outbox_events v @ [created_event env m]"
    by (rule d')+
  show "pg_text_ok (cmd_ClientMessageID cmd)" and "16 \<le> RuneCountInString (cmd_ClientMessageID cmd)"
    by (rule ok)+
  show "\<forall>x \<in> set (messages v). \<not> (m_SenderID x = cmd_SenderID cmd \<and> m_ClientMessageID x = cmd_ClientMessageID cmd)"
    by (rule key)
  show "m_SenderID m = cmd_SenderID cmd" "m_ReceiverID m = cmd_ReceiverID cmd"
    "m_ClientMessageID m = cmd_ClientMessageID cmd" "m_Content m = content" "m_ConversationID m = cid"
    by (simp_all add: m)
qed

lemma send_created_shape:
  assumes "isolation env cmd d" and "chat_inv d" and "send env cmd d = (Inr x, d')" and "sr_Created x"
  shows "\<exists>v. only_others env d v \<and> messages d' = messages v @ [sr_Message x]
     \<and> outbox_events d' = outbox_events v @ [created_event env (sr_Message x)]
     \<and> m_SenderID (sr_Message x) = cmd_SenderID cmd \<and> m_ReceiverID (sr_Message x) = cmd_ReceiverID cmd
     \<and> m_ClientMessageID (sr_Message x) = cmd_ClientMessageID cmd
     \<and> Some (m_Content (sr_Message x)) = cmd_Content cmd
     \<and> seqs_of v (m_ConversationID (sr_Message x)) = {1..m_ConversationSeq (sr_Message x) - 1}
     \<and> 1 \<le> m_ConversationSeq (sr_Message x) \<and> 16 \<le> RuneCountInString (cmd_ClientMessageID cmd)"
proof -
  have others: "\<And>q. others_ok (env_others env q)" using assms(1) by (simp add: isolation_def)
  from send_end [OF assms(3,1,2)] assms(4) have "loud_end env cmd d (Inr x) d'"
    by (auto simp: quiet_end_def)
  then obtain v p cid m content where c: "cmd_Content cmd = Some content" and v: "only_others env d v"
    and p: "pending_ok v p cid (min (cmd_SenderID cmd) (cmd_ReceiverID cmd)) (max (cmd_SenderID cmd) (cmd_ReceiverID cmd))"
    and ins: "contributes env cmd content v p cid m d'" and x: "x = \<lparr>sr_Message = m, sr_Created = True\<rparr>"
    by (auto simp: loud_end_def)
  have "chat_inv v" using only_others_inv [OF v others assms(2)] by simp
  then have "chat_inv (tx_view v p)" using pending_view_inv(1) [OF _ p] by simp
  note shape = contributes_shape [OF ins this]
  show ?thesis using shape v c by (intro exI [of _ v]) (simp add: x)
qed

text \<open>
  C2: A send that reports a created message has added exactly that message and exactly one ready
  version 4 outbox event about it to what the other transactions committed: the message has the
  sender, receiver, client id and content of the command and the next sequence number of its
  conversation.
\<close>

theorem send_created_exactly_one:
  assumes "isolation env cmd d" and "chat_inv d" and "send env cmd d = (Inr x, d')" and "sr_Created x"
  shows "\<exists>v. only_others env d v \<and> messages d' = messages v @ [sr_Message x]
     \<and> outbox_events d' = outbox_events v @ [created_event env (sr_Message x)]
     \<and> m_SenderID (sr_Message x) = cmd_SenderID cmd \<and> m_ReceiverID (sr_Message x) = cmd_ReceiverID cmd
     \<and> m_ClientMessageID (sr_Message x) = cmd_ClientMessageID cmd
     \<and> Some (m_Content (sr_Message x)) = cmd_Content cmd
     \<and> seqs_of v (m_ConversationID (sr_Message x)) = {1..m_ConversationSeq (sr_Message x) - 1}
     \<and> 1 \<le> m_ConversationSeq (sr_Message x)"
  using send_created_shape [OF assms] by blast

text \<open>
  A send that does not report a created message has changed nothing of its own, unless the
  answer to its COMMIT was lost: the state it leaves is reachable by the commits of the others
  and by drawing identities alone.
\<close>

theorem send_not_created_changes_nothing:
  assumes "isolation env cmd d" and "chat_inv d" and "send env cmd d = (r, d')"
    and "\<forall>x. r = Inr x \<longrightarrow> \<not> sr_Created x" and "env_commit env \<noteq> CommitLostApplied"
  shows "only_others env d d'"
  using send_end [OF assms(3,1,2)] assms(4,5) by (auto simp: quiet_end_def loud_end_def)

lemma findIdempotentMessage_stored:
  assumes "chat_inv d" and "m \<in> set (messages d)"
  shows "findIdempotentMessage d (m_SenderID m) (m_ClientMessageID m) = Some m"
  unfolding findIdempotentMessage_def
  by (rule find_distinct_key [OF chat_inv_distinct(3) [OF assms(1)] assms(2)]) simp

text \<open>A command that passes the checks of the service before the transaction begins.\<close>

lemma send_valid_start:
  assumes "validOpaqueID (cmd_ClientMessageID cmd)" and "0 < cmd_ReceiverID cmd"
    and "cmd_Content cmd = Some content" and "0 < RuneCountInString content"
    and "RuneCountInString content \<le> maxMessageContentRunes"
    and "\<not> env_fails env AtBegin" and "\<not> env_fails env AtFind" and "pg_text_ok (cmd_ClientMessageID cmd)"
    and "findIdempotentMessage (env_others env AtFind d) (cmd_SenderID cmd) (cmd_ClientMessageID cmd) = Some m"
  shows "send env cmd d =
     (if sameMessageRequest m cmd then Inr \<lparr>sr_Message = m, sr_Created = False\<rparr>
      else Inl (serviceError ErrIdempotencyConflict), env_others env AtFind d)"
  using assms by (auto simp: send_def Let_def)

lemma send_Inr_valid:
  assumes "send env cmd d = (Inr x, d')"
  obtains content where "validOpaqueID (cmd_ClientMessageID cmd)" and "0 < cmd_ReceiverID cmd"
    and "cmd_Content cmd = Some content" and "0 < RuneCountInString content"
    and "RuneCountInString content \<le> maxMessageContentRunes" and "pg_text_ok (cmd_ClientMessageID cmd)"
  using assms by (auto simp: send_def Let_def split: option.splits if_splits)

text \<open>
  C3: The client id makes a send idempotent. Once a send has created a message, the same command
  sent again at any later time, against any state the system has moved on to, returns that
  message, creates nothing and adds nothing to the state.
\<close>

theorem send_retry_returns_the_message:
  assumes "isolation env cmd d" and "chat_inv d" and "send env cmd d = (Inr x, d')" and "sr_Created x"
    and "chat_inv e" and "db_le d' e"
    and "others_ok (env_others env' AtFind)" and "\<not> env_fails env' AtBegin" and "\<not> env_fails env' AtFind"
  shows "send env' cmd e = (Inr \<lparr>sr_Message = sr_Message x, sr_Created = False\<rparr>, env_others env' AtFind e)"
proof -
  from send_created_shape [OF assms(1-4)]
  have m: "sr_Message x \<in> set (messages d')" "m_SenderID (sr_Message x) = cmd_SenderID cmd"
      "m_ClientMessageID (sr_Message x) = cmd_ClientMessageID cmd" "sameMessageRequest (sr_Message x) cmd"
    by (auto simp: sameMessageRequest_def)
  let ?e = "env_others env' AtFind e"
  have "chat_inv ?e" using assms(5,7) by (rule others_okD [rotated])
  moreover have "sr_Message x \<in> set (messages ?e)"
    using m(1) assms(6) others_ok_le [OF assms(7,5)] by (auto simp: db_le_def)
  ultimately have "findIdempotentMessage ?e (cmd_SenderID cmd) (cmd_ClientMessageID cmd) = Some (sr_Message x)"
    using findIdempotentMessage_stored m(2,3) by metis
  moreover obtain content where "validOpaqueID (cmd_ClientMessageID cmd)" "0 < cmd_ReceiverID cmd"
    "cmd_Content cmd = Some content" "0 < RuneCountInString content"
    "RuneCountInString content \<le> maxMessageContentRunes" "pg_text_ok (cmd_ClientMessageID cmd)"
    by (rule send_Inr_valid [OF assms(3)])
  ultimately show ?thesis using send_valid_start [of cmd content env' e] assms(8,9) m(4) by simp
qed

text \<open>
  A client id that its sender already used with another receiver or another content is
  refused: \<open>POST /messages\<close> answers 409 CLIENT_MESSAGE_ID_CONFLICT and changes nothing.
\<close>

theorem createMessage_conflict:
  assumes "chat_inv d" and "others_ok (env_others env AtFind)"
    and "\<not> env_fails env AtBegin" and "\<not> env_fails env AtFind"
    and "m \<in> set (messages d)" and "m_SenderID m = userID" and "m_ClientMessageID m = req_ClientMessageID input"
    and "m_ReceiverID m \<noteq> req_ReceiverID input \<or> Some (m_Content m) \<noteq> req_Content input"
    and "validOpaqueID (req_ClientMessageID input)" and "pg_text_ok (req_ClientMessageID input)"
    and "0 < req_ReceiverID input" and "req_Content input = Some content"
    and "0 < RuneCountInString content" and "RuneCountInString content \<le> 4000"
  shows "createMessage env userID (Some input) d =
     (APIError 409 ''CLIENT_MESSAGE_ID_CONFLICT''
        ''clientMessageId was already used with different message data'', env_others env AtFind d)"
proof -
  let ?d = "env_others env AtFind d"
  let ?cmd = "\<lparr>cmd_SenderID = userID, cmd_ReceiverID = req_ReceiverID input,
                 cmd_ClientMessageID = req_ClientMessageID input, cmd_Content = req_Content input\<rparr>"
  have "chat_inv ?d" using assms(1,2) by (rule others_okD [rotated])
  moreover have "m \<in> set (messages ?d)"
    using assms(5) others_ok_le [OF assms(2,1)] by (auto simp: db_le_def)
  ultimately have "findIdempotentMessage ?d userID (req_ClientMessageID input) = Some m"
    using findIdempotentMessage_stored assms(6,7) by metis
  then have "send env ?cmd d = (Inl (serviceError ErrIdempotencyConflict), ?d)"
    using send_valid_start [of ?cmd content env d m] assms
    by (auto simp: maxMessageContentRunes_def sameMessageRequest_def)
  then show ?thesis
    by (simp add: createMessage_def writeMessageAPIError_def messageAPIErrorContract_def serviceError_def)
qed

text \<open>
  The service counts the bytes of a client id, the table its characters. A client id of 16 to
  128 bytes with fewer than 16 characters passes the check of the service and is never stored:
  no answer is 201, whatever the state and the environment.
\<close>

theorem short_multibyte_client_id_is_never_stored:
  assumes "isolation env \<lparr>cmd_SenderID = userID, cmd_ReceiverID = req_ReceiverID input,
      cmd_ClientMessageID = req_ClientMessageID input, cmd_Content = req_Content input\<rparr> d"
    and "chat_inv d" and "validOpaqueID (req_ClientMessageID input)"
    and "RuneCountInString (req_ClientMessageID input) < 16"
  shows "fst (createMessage env userID (Some input) d) \<noteq> JSON 201 m"
proof
  let ?cmd = "\<lparr>cmd_SenderID = userID, cmd_ReceiverID = req_ReceiverID input,
                 cmd_ClientMessageID = req_ClientMessageID input, cmd_Content = req_Content input\<rparr>"
  assume "fst (createMessage env userID (Some input) d) = JSON 201 m"
  then obtain x d' where s: "send env ?cmd d = (Inr x, d')" "sr_Created x"
    by (auto simp: createMessage_def writeMessageAPIError_def writeAPIError_def split: prod.splits sum.splits if_splits)
  from send_created_shape [OF assms(1,2) s]
  show False using assms(4) by simp
qed

section \<open>A send comes to a result\<close>

lemma resolveDirectConversation_succeeds:
  assumes others: "\<And>q. others_ok (env_others env q)" and inv: "chat_inv d"
    and users: "low \<in> user_ids d" "high \<in> user_ids d" and ok: "\<And>q. \<not> env_fails env q"
  shows "\<exists>cid created d' p. resolveDirectConversation env d low high = (Inr (cid, created), d', p)"
proof -
  let ?d0 = "env_others env AtSelectConversation d"
  let ?d1 = "env_others env AtInsertConversation ?d0"
  have o1: "only_others env d ?d1" by (intro only_others_steps)
  note I1 = only_others_inv [OF o1 others inv]
  have u: "low \<in> user_ids ?d1" "high \<in> user_ids ?d1" using I1 users by (auto simp: db_le_def)
  show ?thesis
  proof (cases "\<exists>c \<in> set (conversations ?d1). has_pair low high c")
    case True
    let ?d2 = "?d1\<lparr>conversations_seq := conversations_seq ?d1 + 1\<rparr>"
    let ?d3 = "env_others env AtReselectConversation ?d2"
    have "only_others env ?d1 ?d3" by (intro only_others_steps)
    then have "db_le ?d1 ?d3" using only_others_inv [OF _ others] I1 by blast
    moreover from True obtain c where "c \<in> set (conversations ?d1)" "has_pair low high c" by blast
    then have "pair_stored ?d1 (c_id c) low high" by (auto simp: pair_stored_def)
    ultimately have "pair_stored ?d3 (c_id c) low high" using pair_stored_le by blast
    then have "\<exists>y. selectConversation ?d3 low high = Some y"
      unfolding selectConversation_def pair_stored_def by (metis find_NoneD not_Some_eq)
    with True ok show ?thesis
      by (auto simp: resolveDirectConversation_def insertConversation_def Let_def split: option.splits)
  next
    case False
    with u ok show ?thesis
      by (auto simp: resolveDirectConversation_def insertConversation_def Let_def split: option.splits)
  qed
qed

lemma insertMessageAndOutbox_succeeds:
  assumes inv: "chat_inv d" and c: "\<exists>c \<in> set (conversations d). c_id c = cid \<and> has_pair low high c"
    and texts: "pg_text_ok cmid" "pg_text_ok content"
    and runes: "16 \<le> RuneCountInString cmid" "RuneCountInString cmid \<le> 128"
      "1 \<le> RuneCountInString content" "RuneCountInString content \<le> 4000"
    and users: "s \<in> user_ids d" "r \<in> user_ids d" and clock: "env_now env \<le> env_clock env"
    and room: "\<forall>c \<in> set (conversations d). c_last_seq c < int64_max"
  shows "(\<exists>m v. insertMessageAndOutbox env d cid s r cmid content = (Inr (Some m), v))
    \<or> (\<exists>v. insertMessageAndOutbox env d cid s r cmid content = (Inr None, v)
        \<and> (\<exists>x \<in> set (messages d). m_SenderID x = s \<and> m_ClientMessageID x = cmid))"
proof -
  from c have "find (\<lambda>c. c_id c = cid) (conversations d) \<noteq> None"
    by (auto simp: find_None_iff)
  then obtain y where y: "find (\<lambda>c. c_id c = cid) (conversations d) = Some y" by blast
  then have yin: "y \<in> set (conversations d)" "c_id y = cid" using find_SomeD [OF y] by simp_all
  have "c_last_seq y + 1 \<notin> seqs_of d cid"
    using chat_inv_seqs [OF inv yin(1)] yin(2) by simp
  then have "\<not> (\<exists>x \<in> set (messages d). m_ConversationID x = cid \<and> m_ConversationSeq x = c_last_seq y + 1)"
    by (force simp: seqs_of_def conversation_messages_def)
  moreover have "\<not> int64_max < c_last_seq y + 1" using room yin(1) by force
  ultimately show ?thesis
    using y texts runes users clock by (auto simp: insertMessageAndOutbox_def Let_def)
qed

lemma send_loser_answered:
  assumes "chat_inv d" and "others_ok (env_others env AtFindWinner)" and "\<And>q. \<not> env_fails env q"
    and "x \<in> set (messages d)" and "m_SenderID x = cmd_SenderID cmd" and "m_ClientMessageID x = cmd_ClientMessageID cmd"
  shows "answered cmd (send_loser env cmd d)"
proof -
  let ?d = "env_others env AtFindWinner d"
  have "chat_inv ?d" using assms(1,2) by (rule others_okD [rotated])
  moreover have x: "x \<in> set (messages ?d)"
    using assms(4) others_ok_le [OF assms(2,1)] by (auto simp: db_le_def)
  ultimately have "findIdempotentMessage ?d (cmd_SenderID cmd) (cmd_ClientMessageID cmd) = Some x"
    using findIdempotentMessage_stored assms(5,6) by metis
  then show ?thesis
    unfolding answered_def using assms(3,5,6) x by (intro exI [of _ x]) (auto simp: send_loser_def Let_def)
qed

lemma send_insert_answered:
  assumes good: "good_command cmd" "good_env env d0" and iso: "isolation env cmd d0" and inv: "chat_inv d0"
    and o: "only_others env d0 d" and content: "cmd_Content cmd = Some content"
    and users: "cmd_SenderID cmd \<in> user_ids d" "cmd_ReceiverID cmd \<in> user_ids d"
    and own: "p = no_pending \<or> cid = drawn_conversation env d0"
    and p: "pending_ok d p cid (min (cmd_SenderID cmd) (cmd_ReceiverID cmd)) (max (cmd_SenderID cmd) (cmd_ReceiverID cmd))"
  shows "answered cmd (send_insert env cmd content d p cid)"
proof -
  let ?v = "env_others env AtInsertMessage d" and ?low = "min (cmd_SenderID cmd) (cmd_ReceiverID cmd)"
  let ?high = "max (cmd_SenderID cmd) (cmd_ReceiverID cmd)"
  let ?ins = "insertMessageAndOutbox env (tx_view ?v p) cid (cmd_SenderID cmd) (cmd_ReceiverID cmd)
      (cmd_ClientMessageID cmd) content"
  have others: "\<And>q. others_ok (env_others env q)" using iso by (simp add: isolation_def)
  have ok: "\<And>q. \<not> env_fails env q" using good(2) by (simp add: good_env_def)
  have d: "chat_inv d" using only_others_inv [OF o others inv] by simp
  have o': "only_others env d0 ?v" using o by (rule only_others.others)
  have v: "chat_inv ?v" "db_le d ?v" using others_okD [OF others d] others_ok_le [OF others d] by simp_all
  have pv: "pending_ok ?v p cid ?low ?high"
    using pending_ok_others [where f = "env_others env AtInsertMessage", OF p v(2)] iso own by (auto simp: isolation_def)
  have le: "?low \<le> ?high" by simp
  note view = pending_view_inv [OF v(1) pv le]
  have "c_last_seq c < int64_max" if "c \<in> set (conversations (tx_view ?v p))" for c
    using that good(2) o' pv
    by (auto simp: good_env_def pending_ok_def no_pending_def new_ok_def int64_max_def)
  moreover have "cmd_SenderID cmd \<in> user_ids ?v" "cmd_ReceiverID cmd \<in> user_ids ?v"
    using users v(2) by (auto simp: db_le_def)
  moreover have "RuneCountInString (cmd_ClientMessageID cmd) \<le> 128"
    using good(1) RuneCountInString_le_length [of "cmd_ClientMessageID cmd"]
    by (simp add: good_command_def validOpaqueID_def)
  ultimately consider m w where "?ins = (Inr (Some m), w)"
    | w x where "?ins = (Inr None, w)" "x \<in> set (messages ?v)" "m_SenderID x = cmd_SenderID cmd"
        "m_ClientMessageID x = cmd_ClientMessageID cmd"
    using insertMessageAndOutbox_succeeds [OF view, of "cmd_ClientMessageID cmd" content "cmd_SenderID cmd"
        "cmd_ReceiverID cmd" env] good content
    by (auto simp: good_command_def good_env_def)
  then show ?thesis
  proof cases
    case 1
    then have "contributes env cmd content ?v p cid m w" by (simp add: contributes_def)
    note shape = contributes_shape [OF this view(1)]
    have "send_insert env cmd content d p cid = (Inr \<lparr>sr_Message = m, sr_Created = True\<rparr>, w)"
      using 1 ok good(2) by (simp add: send_insert_def commit_send_def good_env_def)
    then show ?thesis
      unfolding answered_def using shape(1,3-6) content
      by (intro exI [of _ m] exI [of _ True]) (simp add: sameMessageRequest_def)
  next
    case 2
    have "only_others env d0 (rolled_back ?v w)" by (rule rolled_back_only_others [OF 2(1) o'])
    then have "chat_inv (rolled_back ?v w)" using only_others_inv [OF _ others inv] by simp
    then have "answered cmd (send_loser env cmd (rolled_back ?v w))"
      using send_loser_answered [OF _ others ok] 2 by (simp add: rolled_back_def)
    then show ?thesis using 2(1) ok by (simp add: send_insert_def)
  qed
qed

lemma good_commandD:
  assumes "good_command cmd"
  obtains content where "cmd_Content cmd = Some content" "validOpaqueID (cmd_ClientMessageID cmd)" "0 < cmd_ReceiverID cmd"
    "0 < RuneCountInString content" "RuneCountInString content \<le> maxMessageContentRunes" "pg_text_ok (cmd_ClientMessageID cmd)"
  using assms by (auto simp: good_command_def maxMessageContentRunes_def split: option.splits)

lemma users_stay:
  assumes "isolation env cmd d" "chat_inv d" "{u, v} \<subseteq> user_ids d" "only_others env d e"
  shows "u \<in> user_ids e" "v \<in> user_ids e" "chat_inv e"
  using only_others_inv [OF assms(4) _ assms(2)] assms(1,3) by (auto simp: db_le_def isolation_def)

text \<open>A created conversation gets its members and then its first message.\<close>

lemma send_created_answered:
  assumes good: "good_command cmd" "good_env env d" and iso: "isolation env cmd d" and inv: "chat_inv d"
    and users: "{cmd_SenderID cmd, cmd_ReceiverID cmd} \<subseteq> user_ids d" and content: "cmd_Content cmd = Some content"
    and o: "only_others env d d1" and own: "cid = drawn_conversation env d"
    and new: "new_ok d1 c cid (min (cmd_SenderID cmd) (cmd_ReceiverID cmd)) (max (cmd_SenderID cmd) (cmd_ReceiverID cmd))"
  shows "\<exists>p. insertConversationMembers (tx_view (env_others env AtInsertMembers d1) \<lparr>p_conversations = [c], p_members = []\<rparr>)
        \<lparr>p_conversations = [c], p_members = []\<rparr> cid (cmd_SenderID cmd) (cmd_ReceiverID cmd) = Inr p
      \<and> answered cmd (send_insert env cmd content (env_others env AtInsertMembers d1) p cid)"
proof -
  let ?d2 = "env_others env AtInsertMembers d1" and ?p = "\<lparr>p_conversations = [c], p_members = []\<rparr>"
  have o2: "only_others env d ?d2" using o by (rule only_others.others)
  note U = users_stay [OF iso inv users o2]
  have others: "\<And>q. others_ok (env_others env q)" using iso by (simp add: isolation_def)
  have new2: "new_ok ?d2 c cid (min (cmd_SenderID cmd) (cmd_ReceiverID cmd)) (max (cmd_SenderID cmd) (cmd_ReceiverID cmd))"
    using new new_ok_others others_ok_le [OF others] iso own users_stay(3) [OF iso inv users o] by (simp add: isolation_def)
  obtain p where p: "insertConversationMembers (tx_view ?d2 ?p) ?p cid (cmd_SenderID cmd) (cmd_ReceiverID cmd) = Inr p"
    using U(1,2) by (simp add: insertConversationMembers_def)
  have "pending_ok ?d2 p cid (min (cmd_SenderID cmd) (cmd_ReceiverID cmd)) (max (cmd_SenderID cmd) (cmd_ReceiverID cmd))"
    using insertConversationMembers_Inr [OF p refl] new2 by (auto simp: pending_ok_def)
  then show ?thesis using send_insert_answered [OF good iso inv o2 content U(1,2) disjI2 [OF own]] p by simp
qed

text \<open>A command that no stored message answers resolves its conversation and stores a message.\<close>

lemma send_new_answered:
  assumes good: "good_command cmd" "good_env env d" and iso: "isolation env cmd d" and inv: "chat_inv d"
    and users: "{cmd_SenderID cmd, cmd_ReceiverID cmd} \<subseteq> user_ids d"
    and none: "findIdempotentMessage (env_others env AtFind d) (cmd_SenderID cmd) (cmd_ClientMessageID cmd) = None"
  shows "answered cmd (send env cmd d)"
proof -
  let ?d = "env_others env AtFind d" and ?low = "min (cmd_SenderID cmd) (cmd_ReceiverID cmd)"
  let ?high = "max (cmd_SenderID cmd) (cmd_ReceiverID cmd)"
  obtain content where content: "cmd_Content cmd = Some content" and valid:
      "validOpaqueID (cmd_ClientMessageID cmd)" "0 < cmd_ReceiverID cmd" "0 < RuneCountInString content"
      "RuneCountInString content \<le> maxMessageContentRunes" "pg_text_ok (cmd_ClientMessageID cmd)"
    by (rule good_commandD [OF good(1)])
  have others: "\<And>q. others_ok (env_others env q)" using iso by (simp add: isolation_def)
  have ok: "\<And>q. \<not> env_fails env q" using good(2) by (simp add: good_env_def)
  have o: "only_others env d ?d" by (intro only_others_steps)
  note U = users_stay [OF iso inv users o]
  have "?low \<in> user_ids ?d" "?high \<in> user_ids ?d" using U(1,2) by (simp_all add: min_def max_def)
  then obtain cid created d1 p where res: "resolveDirectConversation env ?d ?low ?high = (Inr (cid, created), d1, p)"
    using resolveDirectConversation_succeeds [OF others U(3) _ _ ok] by blast
  note R = resolveDirectConversation_Inr [OF res others U(3)]
  have o1: "only_others env d d1" by (rule resolveDirectConversation_only_others [OF res o])
  let ?d2 = "env_others env AtInsertMembers d1"
  have run: "send env cmd d = (if \<not> created then send_insert env cmd content d1 p cid
      else case insertConversationMembers (tx_view ?d2 p) p cid (cmd_SenderID cmd) (cmd_ReceiverID cmd) of
             Inl e \<Rightarrow> (Inl (classifyMessageStoreError e), ?d2)
           | Inr p' \<Rightarrow> send_insert env cmd content ?d2 p' cid)"
    using content valid ok none res by (simp add: send_def Let_def)
  show ?thesis
  proof (cases created)
    case False
    then have "pending_ok d1 p cid ?low ?high" using R by (simp add: pending_ok_def)
    with False R show ?thesis
      using send_insert_answered [OF good iso inv o1 content users_stay(1,2) [OF iso inv users o1]] run by simp
  next
    case True
    from True R obtain c where c: "p = \<lparr>p_conversations = [c], p_members = []\<rparr>" "new_ok d1 c cid ?low ?high" by auto
    have "cid = drawn_conversation env d" using True R by (simp add: drawn_conversation_def)
    then show ?thesis using send_created_answered [OF good iso inv users content o1 _ c(2)] run True c(1) by auto
  qed
qed

text \<open>
  C4: A send always comes to its answer: for a command within the limits of the service and of
  the table, sent by and to existing users, with no statement failing and the COMMIT answered,
  the result is the message stored under the client id, with the data of the command, or the
  conflict with the message stored under it. No race with other senders ends in another error.
\<close>

theorem send_is_answered:
  assumes good: "good_command cmd" "good_env env d" and iso: "isolation env cmd d" and inv: "chat_inv d"
    and users: "cmd_SenderID cmd \<in> user_ids d" "cmd_ReceiverID cmd \<in> user_ids d"
  shows "answered cmd (send env cmd d)"
proof (cases "findIdempotentMessage (env_others env AtFind d) (cmd_SenderID cmd) (cmd_ClientMessageID cmd)")
  case (Some m)
  obtain content where content: "cmd_Content cmd = Some content" and valid:
      "validOpaqueID (cmd_ClientMessageID cmd)" "0 < cmd_ReceiverID cmd" "0 < RuneCountInString content"
      "RuneCountInString content \<le> maxMessageContentRunes" "pg_text_ok (cmd_ClientMessageID cmd)"
    by (rule good_commandD [OF good(1)])
  have ok: "\<And>q. \<not> env_fails env q" using good(2) by (simp add: good_env_def)
  note send_valid_start [OF valid(1,2) content valid(3,4) ok ok valid(5) Some]
  then show ?thesis
    using find_SomeD [OF Some [unfolded findIdempotentMessage_def]]
    unfolding answered_def by (intro exI [of _ m]) auto
next
  case None
  then show ?thesis using send_new_answered [OF good iso inv] users by simp
qed

section \<open>The properties on the small system\<close>

lemma isolation_calm: "isolation calm_env cmd d"
  by (simp add: isolation_def calm_env_def keeps_pair_def keeps_identity_def)

lemma chat_inv_two_users: "chat_inv two_users"
  by (rule chat_inv_more [OF chat_inv_empty]) (simp_all add: two_users_def empty_db_def user_ids_def)

lemma send_hello: "send calm_env hello two_users = (Inr \<lparr>sr_Message = hello_message, sr_Created = True\<rparr>, hello_db)"
  by code_simp

theorem send_preserves_chat_inv_witness:
  "chat_inv two_users \<and> isolation calm_env hello two_users
   \<and> send calm_env hello two_users = (Inr \<lparr>sr_Message = hello_message, sr_Created = True\<rparr>, hello_db)
   \<and> chat_inv hello_db"
  using send_preserves_chat_inv [OF isolation_calm chat_inv_two_users send_hello] send_hello
    isolation_calm [of hello two_users] chat_inv_two_users by simp

theorem send_created_exactly_one_witness:
  "\<exists>v. only_others calm_env two_users v \<and> messages hello_db = messages v @ [hello_message]
     \<and> outbox_events hello_db = outbox_events v @ [created_event calm_env hello_message]
     \<and> seqs_of v 1 = {1..0}"
  using send_created_exactly_one [OF isolation_calm chat_inv_two_users send_hello]
  by (auto simp: hello_message_def)

lemma isolation_failing: "isolation failing_env cmd d"
  using isolation_calm [of cmd d] by (simp add: isolation_def failing_env_def drawn_conversation_def)

theorem send_not_created_witness:
  "send failing_env hello two_users = (Inl internalMessageError, two_users\<lparr>conversations_seq := 2\<rparr>)
   \<and> only_others failing_env two_users (two_users\<lparr>conversations_seq := 2\<rparr>)"
proof -
  have "send failing_env hello two_users = (Inl internalMessageError, two_users\<lparr>conversations_seq := 2\<rparr>)"
    by code_simp
  moreover have "env_commit failing_env \<noteq> CommitLostApplied" by (simp add: failing_env_def calm_env_def)
  ultimately show ?thesis
    using send_not_created_changes_nothing [OF isolation_failing chat_inv_two_users] by simp
qed

lemma calm_simps [simp]:
  "env_others calm_env q d = d" "\<not> env_fails calm_env q" "env_commit calm_env = CommitOk"
  "env_now calm_env = 1000" "env_clock calm_env = 1001"
  by (simp_all add: calm_env_def)

lemma chat_inv_hello_db: "chat_inv hello_db"
proof -
  from send_end [OF send_hello isolation_calm chat_inv_two_users]
  have "loud_end calm_env hello two_users (Inr \<lparr>sr_Message = hello_message, sr_Created = True\<rparr>) hello_db"
    by (auto simp: quiet_end_def)
  then show ?thesis by (rule loud_end_inv [OF _ isolation_calm chat_inv_two_users])
qed

theorem send_retry_witness:
  "send calm_env hello two_users = (Inr \<lparr>sr_Message = hello_message, sr_Created = True\<rparr>, hello_db)
   \<and> send calm_env hello hello_db = (Inr \<lparr>sr_Message = hello_message, sr_Created = False\<rparr>, hello_db)"
  using send_retry_returns_the_message [OF isolation_calm chat_inv_two_users send_hello, of hello_db calm_env]
    chat_inv_hello_db send_hello by (simp add: calm_env_def)

theorem createMessage_conflict_witness:
  "createMessage calm_env 1 (Some other_request) hello_db =
     (APIError 409 ''CLIENT_MESSAGE_ID_CONFLICT''
        ''clientMessageId was already used with different message data'', hello_db)"
proof -
  have "validOpaqueID (req_ClientMessageID other_request)" "pg_text_ok (req_ClientMessageID other_request)"
      "RuneCountInString ''bye'' = 3"
    by code_simp+
  then show ?thesis
    using createMessage_conflict [of hello_db calm_env hello_message 1 other_request "''bye''"] chat_inv_hello_db
    by (simp add: calm_env_def hello_db_def hello_message_def other_request_def)
qed

theorem short_multibyte_client_id_witness:
  "createMessage calm_env 1 (Some cjk_request) two_users =
     (APIError 500 ''INTERNAL_ERROR'' ''could not create message'', two_users\<lparr>conversations_seq := 2, messages_seq := 2\<rparr>)
   \<and> fst (createMessage calm_env 1 (Some cjk_request) two_users) \<noteq> JSON 201 hello_message"
proof -
  have "validOpaqueID (req_ClientMessageID cjk_request)" "RuneCountInString (req_ClientMessageID cjk_request) < 16"
    by code_simp+
  then have "fst (createMessage calm_env 1 (Some cjk_request) two_users) \<noteq> JSON 201 hello_message"
    by (intro short_multibyte_client_id_is_never_stored isolation_calm chat_inv_two_users)
  moreover have "createMessage calm_env 1 (Some cjk_request) two_users =
     (APIError 500 ''INTERNAL_ERROR'' ''could not create message'', two_users\<lparr>conversations_seq := 2, messages_seq := 2\<rparr>)"
    by code_simp
  ultimately show ?thesis by simp
qed

lemma only_others_calm: "only_others calm_env d e \<Longrightarrow> conversations e = conversations d"
  by (induction rule: only_others.induct) simp_all

theorem send_is_answered_witness:
  "answered hello (send calm_env hello two_users)"
proof (rule send_is_answered)
  show "good_command hello" by code_simp
  show "good_env calm_env two_users"
    by (auto simp: good_env_def two_users_def empty_db_def dest!: only_others_calm)
  show "cmd_SenderID hello \<in> user_ids two_users" "cmd_ReceiverID hello \<in> user_ids two_users"
    by (simp_all add: hello_def user_ids_def two_users_def)
qed (rule isolation_calm chat_inv_two_users)+

end
