(* ===== verification/ConversationSync.thy ===== *)
theory ConversationSync
  imports MessageService
begin

text \<open>
  Reading a conversation forwards and acknowledging it: \<^verbatim>\<open>conversation_sync.go\<close> and
  \<^verbatim>\<open>sync_ack.go\<close>. A page belongs to a snapshot of the stream: the first page fixes the end, the
  following ones carry it. The handlers run two statements; what other transactions commit
  between them, and which one fails, is the environment \<open>read_env\<close>.

  The locale \<open>snapshot_stream\<close> states what the page endpoint promises to its clients, with the
  catch-up loop proved once from it; it is interpreted on the handler's model.
\<close>

section \<open>Requests and pages\<close>

type_synonym url_values = "(string \<times> string list) list"

record read_env =
  rd_fails_first :: bool
  rd_fails_second :: bool
  rd_others :: "db \<Rightarrow> db"
  rd_now :: timestamp
  rd_clock :: timestamp

record conversationSummary =
  cs_ID :: int
  cs_Kind :: string
  cs_Peer :: user
  cs_LastSeq :: int
  cs_UpdatedAt :: timestamp

record conversationListResponse =
  cl_Conversations :: "conversationSummary list"
  cl_NextCursor :: int
  cl_SnapshotCursor :: int
  cl_HasMore :: bool

record conversationMessagePage =
  pg_ConversationID :: int
  pg_Messages :: "message list"
  pg_NextCursor :: int
  pg_SnapshotCursor :: int
  pg_HasMore :: bool

record deviceConversationSyncState =
  st_ConversationID :: int
  st_AppliedCursor :: int
  st_UpdatedAt :: timestamp

definition defaultConversationPageLimit :: int where "defaultConversationPageLimit = 100"
definition maxConversationPageLimit :: int where "maxConversationPageLimit = 200"

section \<open>Parsing\<close>

text \<open>The loop over the query keys, in the order in which the map is visited.\<close>

fun checkQueryKeys :: "string \<Rightarrow> string list \<Rightarrow> string \<Rightarrow> url_values \<Rightarrow> api_error option" where
  "checkQueryKeys code allowed msg [] = None"
| "checkQueryKeys code allowed msg ((key, values) # query) =
     (if key \<notin> set allowed then Some (400, code, msg)
      else if length values \<noteq> 1 then Some (400, code, (key @ '' must be provided exactly once''))
      else checkQueryKeys code allowed msg query)"

text \<open>An optional integer parameter: its default when absent, an error when out of range.\<close>

definition parseParameter ::
  "url_values \<Rightarrow> string \<Rightarrow> 'v \<Rightarrow> (int \<Rightarrow> 'v) \<Rightarrow> (int \<Rightarrow> bool) \<Rightarrow> api_error \<Rightarrow> api_error + 'v" where
  "parseParameter query key dflt wrap valid err =
     (case map_of query key of
        None \<Rightarrow> Inr dflt
      | Some values \<Rightarrow>
          (case ParseInt 64 (hd values) of
             None \<Rightarrow> Inl err
           | Some parsed \<Rightarrow> if valid parsed then Inr (wrap parsed) else Inl err))"

definition parseSnapshotPagination :: "url_values \<Rightarrow> api_error + int \<times> int \<times> int option" where
  "parseSnapshotPagination query =
     (case checkQueryKeys ''INVALID_PAGINATION'' [''after'', ''limit'', ''snapshotCursor'']
             ''only after, limit and snapshotCursor are allowed'' query of
        Some err \<Rightarrow> Inl err
      | None \<Rightarrow>
        (case parseParameter query ''after'' 0 (\<lambda>v. v) (\<lambda>v. 0 \<le> v)
                (400, ''INVALID_PAGINATION'', ''after must be a non-negative integer'') of
           Inl err \<Rightarrow> Inl err
         | Inr after \<Rightarrow>
           (case parseParameter query ''limit'' defaultConversationPageLimit (\<lambda>v. v)
                   (\<lambda>v. 0 < v \<and> v \<le> maxConversationPageLimit)
                   (400, ''INVALID_PAGINATION'', ''limit must be between 1 and 200'') of
              Inl err \<Rightarrow> Inl err
            | Inr limit \<Rightarrow>
              (case parseParameter query ''snapshotCursor'' None Some (\<lambda>v. 0 \<le> v)
                      (400, ''INVALID_PAGINATION'', ''snapshotCursor must be a non-negative integer'') of
                 Inl err \<Rightarrow> Inl err
               | Inr snapshot \<Rightarrow> Inr (after, limit, snapshot)))))"

definition validateSnapshotCursor :: "int option \<Rightarrow> int \<Rightarrow> int \<Rightarrow> string \<Rightarrow> api_error + int" where
  "validateSnapshotCursor rawSnapshot after current streamName =
     (case rawSnapshot of
        None \<Rightarrow> Inr current
      | Some raw \<Rightarrow>
          if raw < after
          then Inl (400, ''INVALID_PAGINATION'', ''snapshotCursor must be greater than or equal to after'')
          else if raw > current
          then Inl (409, ''CURSOR_AHEAD'', (''snapshotCursor is ahead of the user's current '' @ streamName))
          else Inr raw)"

definition parseConversationID :: "string \<Rightarrow> api_error + int" where
  "parseConversationID path =
     (case ParseInt 64 path of
        None \<Rightarrow> Inl (400, ''INVALID_CONVERSATION_ID'', ''conversationID must be a positive integer'')
      | Some cid \<Rightarrow>
          if cid \<le> 0
          then Inl (400, ''INVALID_CONVERSATION_ID'', ''conversationID must be a positive integer'')
          else Inr cid)"

section \<open>Statements\<close>

definition memberLastSeq :: "db \<Rightarrow> int \<Rightarrow> int \<Rightarrow> int option" where
  "memberLastSeq d uid cid =
     (if is_member d cid uid then map_option c_last_seq (find (\<lambda>c. c_id c = cid) (conversations d)) else None)"

definition directConversationsOf :: "db \<Rightarrow> int \<Rightarrow> conversation_row list" where
  "directConversationsOf d uid =
     filter (\<lambda>c. is_member d (c_id c) uid \<and> c_kind c = ''direct'') (conversations d)"

definition lastConversationID :: "db \<Rightarrow> int \<Rightarrow> int" where
  "lastConversationID d uid =
     (case map c_id (directConversationsOf d uid) of [] \<Rightarrow> 0 | x # xs \<Rightarrow> foldl max x xs)"

definition peerID :: "int \<Rightarrow> conversation_row \<Rightarrow> int option" where
  "peerID uid c =
     (if c_direct_user_low_id c = Some uid \<and> c_direct_user_high_id c \<noteq> None
         \<and> c_direct_user_high_id c \<noteq> Some uid
      then c_direct_user_high_id c else c_direct_user_low_id c)"

definition summaryOf :: "db \<Rightarrow> int \<Rightarrow> conversation_row \<Rightarrow> conversationSummary option" where
  "summaryOf d uid c =
     (case find (\<lambda>u. Some (u_ID (ur_user u)) = peerID uid c) (users d) of
        None \<Rightarrow> None
      | Some u \<Rightarrow> Some \<lparr>cs_ID = c_id c, cs_Kind = c_kind c, cs_Peer = ur_user u,
                       cs_LastSeq = c_last_seq c, cs_UpdatedAt = c_updated_at c\<rparr>)"

definition selectConversations :: "db \<Rightarrow> int \<Rightarrow> int \<Rightarrow> int \<Rightarrow> int \<Rightarrow> conversationSummary list" where
  "selectConversations d uid after snapshot n =
     select_limit (\<lambda>s. after < cs_ID s \<and> cs_ID s \<le> snapshot) cs_ID n
       (List.map_filter (summaryOf d uid) (directConversationsOf d uid))"

definition selectMessages :: "db \<Rightarrow> int \<Rightarrow> int \<Rightarrow> int \<Rightarrow> int \<Rightarrow> message list" where
  "selectMessages d cid after snapshot n =
     select_limit (\<lambda>m. after < m_ConversationSeq m \<and> m_ConversationSeq m \<le> snapshot) m_ConversationSeq n
       (conversation_messages d cid)"

text \<open>The loop over the rows: one row more than the limit says that there is more.\<close>

fun collectPage :: "nat \<Rightarrow> 'r list \<Rightarrow> 'r list \<Rightarrow> 'r list \<times> bool" where
  "collectPage limit acc [] = (acc, False)"
| "collectPage limit acc (row # rows) =
     (if length acc = limit then (acc, True) else collectPage limit (acc @ [row]) rows)"

section \<open>Handlers\<close>

definition listConversations ::
  "read_env \<Rightarrow> int \<Rightarrow> url_values \<Rightarrow> db \<Rightarrow> conversationListResponse response" where
  "listConversations env userID query d =
     (case parseSnapshotPagination query of
        Inl err \<Rightarrow> writeAPIError err
      | Inr (after, limit, rawSnapshot) \<Rightarrow>
        if rd_fails_first env then APIError 500 ''INTERNAL_ERROR'' ''could not list conversations''
        else
        (let currentCursor = lastConversationID d userID
         in if after > currentCursor
            then APIError 409 ''CURSOR_AHEAD'' ''after is ahead of the user's current conversation list''
            else case validateSnapshotCursor rawSnapshot after currentCursor ''conversation list'' of
              Inl err \<Rightarrow> writeAPIError err
            | Inr snapshotCursor \<Rightarrow>
              if rd_fails_second env then APIError 500 ''INTERNAL_ERROR'' ''could not list conversations''
              else (let rows = selectConversations (rd_others env d) userID after snapshotCursor (limit + 1);
                        (page, hasMore) = collectPage (nat limit) [] rows
                    in JSON 200 \<lparr>cl_Conversations = page,
                         cl_NextCursor = (if page \<noteq> [] then cs_ID (last page) else after),
                         cl_SnapshotCursor = snapshotCursor, cl_HasMore = hasMore\<rparr>)))"

definition syncConversationMessages ::
  "read_env \<Rightarrow> int \<Rightarrow> string \<Rightarrow> url_values \<Rightarrow> db \<Rightarrow> conversationMessagePage response" where
  "syncConversationMessages env userID path query d =
     (case parseConversationID path of
        Inl err \<Rightarrow> writeAPIError err
      | Inr conversationID \<Rightarrow>
        (case parseSnapshotPagination query of
           Inl err \<Rightarrow> writeAPIError err
         | Inr (after, limit, rawSnapshot) \<Rightarrow>
           if rd_fails_first env then APIError 500 ''INTERNAL_ERROR'' ''could not sync conversation''
           else
           (case memberLastSeq d userID conversationID of
              None \<Rightarrow> APIError 404 ''CONVERSATION_NOT_FOUND'' ''conversation not found''
            | Some currentCursor \<Rightarrow>
              if after > currentCursor
              then APIError 409 ''CURSOR_AHEAD'' ''after is ahead of the conversation's current stream''
              else case validateSnapshotCursor rawSnapshot after currentCursor ''conversation stream'' of
                Inl err \<Rightarrow> writeAPIError err
              | Inr snapshotCursor \<Rightarrow>
                if rd_fails_second env then APIError 500 ''INTERNAL_ERROR'' ''could not sync conversation''
                else (let rows = selectMessages (rd_others env d) conversationID after snapshotCursor (limit + 1);
                          (page, hasMore) = collectPage (nat limit) [] rows
                      in JSON 200 \<lparr>pg_ConversationID = conversationID, pg_Messages = page,
                           pg_NextCursor = (if page \<noteq> [] then m_ConversationSeq (last page) else after),
                           pg_SnapshotCursor = snapshotCursor, pg_HasMore = hasMore\<rparr>))))"

definition acknowledgeMessages :: "string \<times> 'a response" where
  "acknowledgeMessages =
     (''gone'', APIError 410 ''ENDPOINT_GONE'' ''user-level ACK was replaced by POST /conversations/{conversationID}/ack'')"

text \<open>
  \<open>INSERT ... ON CONFLICT DO UPDATE SET applied_seq = GREATEST(...) RETURNING\<close>: the row of the
  device, inserted or raised; the membership is a foreign key.
\<close>

definition ackKey :: "int \<Rightarrow> string \<Rightarrow> int \<Rightarrow> sync_state_row \<Rightarrow> bool" where
  "ackKey uid device cid r \<longleftrightarrow> d_user_id r = uid \<and> d_device_id r = device \<and> d_conversation_id r = cid"

definition upsertSyncState ::
  "read_env \<Rightarrow> db \<Rightarrow> int \<Rightarrow> string \<Rightarrow> int \<Rightarrow> int \<Rightarrow> db_error + (int \<times> timestamp) \<times> db" where
  "upsertSyncState env d uid device cid cursor =
     (let rows = device_conversation_sync_states d;
          raise = (\<lambda>r. r\<lparr>d_applied_seq := max (d_applied_seq r) cursor,
                         d_updated_at := max (d_updated_at r) (rd_clock env)\<rparr>)
      in if \<not> is_member d cid uid then Inl ForeignKeyViolation
         else if RuneCountInString device < 1 \<or> 128 < RuneCountInString device then Inl CheckViolation
         else case find (ackKey uid device cid) rows of
           Some r \<Rightarrow> Inr ((d_applied_seq (raise r), d_updated_at (raise r)),
                       d\<lparr>device_conversation_sync_states := update_rows (ackKey uid device cid) raise rows\<rparr>)
         | None \<Rightarrow> Inr ((cursor, rd_now env),
                     d\<lparr>device_conversation_sync_states := rows @
                         [\<lparr>d_user_id = uid, d_device_id = device, d_conversation_id = cid,
                           d_applied_seq = cursor, d_updated_at = rd_now env\<rparr>]\<rparr>))"

text \<open>
  The body is the decoded request (\<open>None\<close>: invalid JSON; \<open>Some None\<close>: no cursor). The first
  component is the label of the ACK counter.
\<close>

definition acknowledgeConversation ::
  "read_env \<Rightarrow> int \<Rightarrow> string \<Rightarrow> string \<Rightarrow> int option option \<Rightarrow> db \<Rightarrow>
   string \<times> deviceConversationSyncState response \<times> db" where
  "acknowledgeConversation env userID device path body d =
     (case parseConversationID path of
        Inl err \<Rightarrow> (''invalid'', writeAPIError err, d)
      | Inr cid \<Rightarrow>
        (case body of
           None \<Rightarrow> (''invalid'', APIError 400 ''INVALID_JSON'' ''invalid JSON body'', d)
         | Some None \<Rightarrow> (''invalid'', APIError 400 ''INVALID_ACK'' ''cursor must be a non-negative integer'', d)
         | Some (Some cursor) \<Rightarrow>
           if cursor < 0
           then (''invalid'', APIError 400 ''INVALID_ACK'' ''cursor must be a non-negative integer'', d)
           else if rd_fails_first env
           then (''error'', APIError 500 ''INTERNAL_ERROR'' ''could not acknowledge conversation'', d)
           else
           (case memberLastSeq d userID cid of
              None \<Rightarrow> (''not_found'', APIError 404 ''CONVERSATION_NOT_FOUND'' ''conversation not found'', d)
            | Some currentCursor \<Rightarrow>
              if cursor > currentCursor
              then (''ahead'', APIError 409 ''CURSOR_AHEAD'' ''cursor is ahead of the conversation's current stream'', d)
              else
              (let d1 = rd_others env d
               in if rd_fails_second env
                  then (''error'', APIError 500 ''INTERNAL_ERROR'' ''could not acknowledge conversation'', d1)
                  else case upsertSyncState env d1 userID device cid cursor of
                    Inl e \<Rightarrow> (''error'', APIError 500 ''INTERNAL_ERROR'' ''could not acknowledge conversation'', d1)
                  | Inr ((applied, at), d2) \<Rightarrow>
                      (''accepted'', JSON 200 \<lparr>st_ConversationID = cid, st_AppliedCursor = applied,
                                            st_UpdatedAt = at\<rparr>, d2)))))"

section \<open>What a client sees\<close>

text \<open>The query a client sends for a page, and the answer it reads.\<close>

definition page_query :: "int \<Rightarrow> int \<Rightarrow> int option \<Rightarrow> url_values" where
  "page_query after limit snapshot =
     [(''after'', [FormatInt after]), (''limit'', [FormatInt limit])]
     @ (case snapshot of None \<Rightarrow> [] | Some s \<Rightarrow> [(''snapshotCursor'', [FormatInt s])])"

definition server_page :: "int \<Rightarrow> int \<Rightarrow> db \<Rightarrow> int \<Rightarrow> int \<Rightarrow> int option \<Rightarrow> conversationMessagePage response" where
  "server_page uid cid d after limit snapshot =
     syncConversationMessages
       \<lparr>rd_fails_first = False, rd_fails_second = False, rd_others = (\<lambda>d. d), rd_now = 0, rd_clock = 0\<rparr>
       uid (FormatInt cid) (page_query after limit snapshot) d"

definition message_at :: "int \<Rightarrow> db \<Rightarrow> int \<Rightarrow> message" where
  "message_at cid d k = the (find (\<lambda>m. m_ConversationSeq m = k) (conversation_messages d cid))"

definition stream_end :: "int \<Rightarrow> db \<Rightarrow> int" where
  "stream_end cid d = (case find (\<lambda>c. c_id c = cid) (conversations d) of None \<Rightarrow> 0 | Some c \<Rightarrow> c_last_seq c)"

text \<open>A state in which the user is a member of the conversation and cursors are 64-bit values.\<close>

definition readable :: "int \<Rightarrow> int \<Rightarrow> db \<Rightarrow> bool" where
  "readable uid cid d \<longleftrightarrow> chat_inv d \<and> is_member d cid uid \<and> fits_int64 cid \<and> stream_end cid d \<le> int64_max"

text \<open>The sync states of devices never run ahead of the stream.\<close>

definition sync_ok :: "db \<Rightarrow> bool" where
  "sync_ok d \<longleftrightarrow>
     distinct (map (\<lambda>r. (d_user_id r, d_device_id r, d_conversation_id r)) (device_conversation_sync_states d))
     \<and> (\<forall>r \<in> set (device_conversation_sync_states d).
          is_member d (d_conversation_id r) (d_user_id r) \<and> 0 \<le> d_applied_seq r
          \<and> d_applied_seq r \<le> stream_end (d_conversation_id r) d)"

text \<open>
  The catch-up loop as a reference: pages are fetched from a sequence of states until one says
  that there is no more; every page after the first carries the snapshot of the first.
\<close>

fun drain ::
  "('s \<Rightarrow> int \<Rightarrow> int \<Rightarrow> int option \<Rightarrow> ('m list \<times> int \<times> int \<times> bool) option) \<Rightarrow> int \<Rightarrow> (nat \<Rightarrow> 's) \<Rightarrow> nat \<Rightarrow>
   nat \<Rightarrow> int \<Rightarrow> int option \<Rightarrow> 'm list option" where
  "drain fetch limit states 0 i after snapshot = None"
| "drain fetch limit states (Suc fuel) i after snapshot =
     (case fetch (states i) after limit snapshot of
        None \<Rightarrow> None
      | Some (items, next, snap, hasMore) \<Rightarrow>
          if hasMore
          then map_option ((@) items) (drain fetch limit states fuel (Suc i) next (Some snap))
          else Some items)"

definition server_fetch ::
  "int \<Rightarrow> int \<Rightarrow> db \<Rightarrow> int \<Rightarrow> int \<Rightarrow> int option \<Rightarrow> (message list \<times> int \<times> int \<times> bool) option" where
  "server_fetch uid cid d after limit snapshot =
     (case server_page uid cid d after limit snapshot of
        JSON _ p \<Rightarrow> Some (pg_Messages p, pg_NextCursor p, pg_SnapshotCursor p, pg_HasMore p)
      | _ \<Rightarrow> None)"

text \<open>An environment without failures or interference.\<close>

definition calm_read :: read_env where
  "calm_read = \<lparr>rd_fails_first = False, rd_fails_second = False, rd_others = (\<lambda>d. d), rd_now = 2000, rd_clock = 2001\<rparr>"

section \<open>The interface of the page endpoint\<close>

locale snapshot_stream =
  fixes fetch :: "'s \<Rightarrow> int \<Rightarrow> int \<Rightarrow> int option \<Rightarrow> ('m list \<times> int \<times> int \<times> bool) option"
    and item :: "'s \<Rightarrow> int \<Rightarrow> 'm" and stream_last :: "'s \<Rightarrow> int"
    and ready :: "'s \<Rightarrow> bool" and later :: "'s \<Rightarrow> 's \<Rightarrow> bool"
  assumes fetch_page: "ready s \<Longrightarrow> 0 \<le> after \<Longrightarrow> after \<le> snap \<Longrightarrow> snap \<le> stream_last s \<Longrightarrow>
      1 \<le> limit \<Longrightarrow> limit \<le> 200 \<Longrightarrow>
      fetch s after limit (Some snap) =
        Some (map (item s) [after + 1..min snap (after + limit)], min snap (after + limit), snap, after + limit < snap)"
    and fetch_first: "ready s \<Longrightarrow> 0 \<le> after \<Longrightarrow> after \<le> stream_last s \<Longrightarrow> 1 \<le> limit \<Longrightarrow> limit \<le> 200 \<Longrightarrow>
      fetch s after limit None = fetch s after limit (Some (stream_last s))"
    and later_last: "ready s \<Longrightarrow> ready t \<Longrightarrow> later s t \<Longrightarrow> stream_last s \<le> stream_last t"
    and later_item: "ready s \<Longrightarrow> ready t \<Longrightarrow> later s t \<Longrightarrow> 1 \<le> k \<Longrightarrow> k \<le> stream_last s \<Longrightarrow>
      item t k = item s k"
begin

text \<open>Catching up to a snapshot, one page per state of a growing stream.\<close>

lemma drain_snapshot:
  assumes "\<And>i. ready (states i)" and "\<And>i. later s (states i)" and "ready s"
    and "snap \<le> stream_last s" and "1 \<le> limit" and "limit \<le> 200"
    and "0 \<le> after" and "after \<le> snap" and "snap - after < int fuel"
  shows "drain fetch limit states fuel i after (Some snap) = Some (map (item s) [after + 1..snap])"
  using assms(7-9)
proof (induction fuel arbitrary: i after)
  case 0
  then show ?case by simp
next
  case (Suc fuel)
  have le: "snap \<le> stream_last (states i)"
    using later_last [OF assms(3,1,2), of i] assms(4) by simp
  have same: "map (item (states i)) [after + 1..j] = map (item s) [after + 1..j]" if "j \<le> snap" for j
    using that Suc.prems(1) assms(4) by (auto intro!: later_item assms(1-3))
  note page = fetch_page [OF assms(1) Suc.prems(1,2) le assms(5,6)]
  show ?case
  proof (cases "after + limit < snap")
    case True
    have "[after + 1..snap] = [after + 1..after + limit] @ [after + limit + 1..snap]"
      using True assms(5) by (intro upto_split2) auto
    then show ?thesis
      using Suc.IH [of "after + limit" "Suc i"] Suc.prems assms(5) True page same by simp
  next
    case False
    then show ?thesis using page same by (simp add: min_absorb1)
  qed
qed

lemma drain_complete:
  assumes "\<And>i. ready (states i)" and "\<And>i. later (states 0) (states i)"
    and "1 \<le> limit" and "limit \<le> 200"
    and "0 \<le> after" and "after \<le> stream_last (states 0)" and "stream_last (states 0) - after < int fuel"
  shows "drain fetch limit states fuel 0 after None =
           Some (map (item (states 0)) [after + 1..stream_last (states 0)])"
proof -
  have "drain fetch limit states fuel 0 after None = drain fetch limit states fuel 0 after (Some (stream_last (states 0)))"
    using assms(7) fetch_first [OF assms(1,5,6,3,4)] assms(6) by (cases fuel) simp_all
  then show ?thesis using drain_snapshot [OF assms(1,2,1) order.refl assms(3-7)] by simp
qed

end

section \<open>Pages\<close>

lemma collectPage_eq:
  "length acc \<le> limit \<Longrightarrow>
   collectPage limit acc rows = (acc @ take (limit - length acc) rows, limit < length acc + length rows)"
  by (induction limit acc rows rule: collectPage.induct) (auto simp: Suc_diff_le take_Cons')

lemma collectPage_start: "collectPage limit [] rows = (take limit rows, limit < length rows)"
  by (simp add: collectPage_eq)

lemma parseSnapshotPagination_page_query:
  assumes "0 \<le> after" and "fits_int64 after" and "1 \<le> limit" and "limit \<le> 200"
    and "\<And>s. snapshot = Some s \<Longrightarrow> 0 \<le> s \<and> fits_int64 s"
  shows "parseSnapshotPagination (page_query after limit snapshot) = Inr (after, limit, snapshot)"
proof -
  have "ParseInt 64 (FormatInt limit) = Some limit"
    using assms(3,4) by (intro ParseInt_FormatInt) (simp add: fits_int64_iff)
  then show ?thesis
    using assms ParseInt_FormatInt [OF assms(2)]
    by (cases snapshot)
      (auto simp: parseSnapshotPagination_def page_query_def parseParameter_def ParseInt_FormatInt
        maxConversationPageLimit_def)
qed

lemma parseConversationID_FormatInt:
  "0 < cid \<Longrightarrow> fits_int64 cid \<Longrightarrow> parseConversationID (FormatInt cid) = Inr cid"
  by (simp add: parseConversationID_def ParseInt_FormatInt)

lemma parseParameter_Inr:
  "parseParameter query key dflt wrap valid err = Inr v \<Longrightarrow> v = dflt \<or> (\<exists>i. valid i \<and> v = wrap i)"
  by (auto simp: parseParameter_def split: option.splits if_splits)

lemma parseSnapshotPagination_range:
  assumes "parseSnapshotPagination query = Inr (after, limit, snapshot)"
  shows "0 \<le> after" and "1 \<le> limit" and "limit \<le> 200"
  using assms
  by (auto simp: parseSnapshotPagination_def defaultConversationPageLimit_def maxConversationPageLimit_def
      split: option.splits sum.splits dest!: parseParameter_Inr)

lemma stream_end_find:
  assumes "chat_inv d" and "c \<in> set (conversations d)"
  shows "find (\<lambda>r. c_id r = c_id c) (conversations d) = Some c" and "stream_end (c_id c) d = c_last_seq c"
proof -
  show f: "find (\<lambda>r. c_id r = c_id c) (conversations d) = Some c"
    by (rule find_distinct_key [OF chat_inv_distinct(1) [OF assms(1)] assms(2)]) simp
  then show "stream_end (c_id c) d = c_last_seq c" by (simp add: stream_end_def)
qed

lemma member_conversation:
  assumes "chat_inv d" and "is_member d cid uid"
  obtains c where "c \<in> set (conversations d)" "c_id c = cid" "0 < cid"
proof -
  have "cid \<in> c_id ` set (conversations d)"
    using chat_inv_members [OF assms(1)] assms(2) by (force simp: is_member_def)
  then obtain c where "c \<in> set (conversations d)" "c_id c = cid" by blast
  moreover have "0 < c_id c" using chat_inv_conversation [OF assms(1)] calculation(1)
    by (simp add: conversation_ok_def)
  ultimately show ?thesis using that by blast
qed

lemma memberLastSeq_member:
  assumes "chat_inv d" and "is_member d cid uid"
  shows "memberLastSeq d uid cid = Some (stream_end cid d)"
proof -
  obtain c where "c \<in> set (conversations d)" "c_id c = cid" by (rule member_conversation [OF assms])
  then show ?thesis
    using stream_end_find [OF assms(1)] assms(2) by (auto simp: memberLastSeq_def)
qed

lemma stream_seqs:
  assumes "chat_inv d" and "is_member d cid uid"
  shows "seqs_of d cid = {1..stream_end cid d}" and "0 \<le> stream_end cid d"
proof -
  obtain c where c: "c \<in> set (conversations d)" "c_id c = cid" by (rule member_conversation [OF assms])
  then show "seqs_of d cid = {1..stream_end cid d}"
    using chat_inv_seqs [OF assms(1)] stream_end_find(2) [OF assms(1)] by auto
  show "0 \<le> stream_end cid d"
    using chat_inv_conversation [OF assms(1) c(1)] stream_end_find(2) [OF assms(1) c(1)] c(2)
    by (simp add: conversation_ok_def)
qed

lemma message_at_stored:
  assumes "chat_inv d" and "m \<in> set (conversation_messages d cid)"
  shows "message_at cid d (m_ConversationSeq m) = m"
  using find_distinct_key [OF distinct_seqs [OF assms(1)] assms(2), of "\<lambda>x. m_ConversationSeq x = m_ConversationSeq m"]
  by (simp add: message_at_def)

lemma selectMessages_items:
  assumes "chat_inv d" and "is_member d cid uid" and "0 \<le> after" and "snap \<le> stream_end cid d" and "0 \<le> n"
  shows "selectMessages d cid after snap n = map (message_at cid d) [after + 1..min snap (after + n)]"
proof -
  let ?ms = "selectMessages d cid after snap n"
  have "m_ConversationSeq ` set (conversation_messages d cid) = {1..stream_end cid d}"
    using stream_seqs(1) [OF assms(1,2)] by (simp add: seqs_of_def)
  then have "m_ConversationSeq ` {m \<in> set (conversation_messages d cid). after < m_ConversationSeq m \<and> m_ConversationSeq m \<le> snap}
      = {k \<in> {1..stream_end cid d}. after < k \<and> k \<le> snap}"
    using image_select [of m_ConversationSeq "set (conversation_messages d cid)" "\<lambda>k. after < k \<and> k \<le> snap"]
    by simp
  also have "\<dots> = {after + 1..snap}" using assms(3,4) by auto
  finally have img: "m_ConversationSeq ` {m \<in> set (conversation_messages d cid). after < m_ConversationSeq m
      \<and> m_ConversationSeq m \<le> snap} = {after + 1..snap}" .
  have "map m_ConversationSeq ?ms = [after + 1..min snap (after + n)]"
    using map_key_select_limit [OF distinct_seqs [OF assms(1)] img assms(5)] by (simp add: selectMessages_def)
  moreover have "map (message_at cid d) (map m_ConversationSeq ?ms) = ?ms"
    unfolding map_map
  proof (rule map_idI)
    fix m assume "m \<in> set ?ms"
    then have "m \<in> set (conversation_messages d cid)"
      unfolding selectMessages_def using set_select_limit by fastforce
    then show "(message_at cid d \<circ> m_ConversationSeq) m = m" using message_at_stored [OF assms(1)] by simp
  qed
  ultimately show ?thesis by metis
qed

lemma message_at_seq:
  assumes "chat_inv d" and "is_member d cid uid" and "1 \<le> k" and "k \<le> stream_end cid d"
  shows "message_at cid d k \<in> set (conversation_messages d cid)" and "m_ConversationSeq (message_at cid d k) = k"
proof -
  have "k \<in> seqs_of d cid" using stream_seqs(1) [OF assms(1,2)] assms(3,4) by simp
  then obtain m where "m \<in> set (conversation_messages d cid)" "m_ConversationSeq m = k"
    by (auto simp: seqs_of_def)
  then show "message_at cid d k \<in> set (conversation_messages d cid)" "m_ConversationSeq (message_at cid d k) = k"
    using message_at_stored [OF assms(1)] by auto
qed

text \<open>Streams only grow.\<close>

lemma stream_end_le:
  assumes "chat_inv d" and "chat_inv e" and "db_le d e" and "is_member d cid uid"
  shows "stream_end cid d \<le> stream_end cid e"
proof -
  obtain c where c: "c \<in> set (conversations d)" "c_id c = cid" by (rule member_conversation [OF assms(1,4)])
  then obtain c' where "c' \<in> set (conversations e)" "c_id c' = cid" "c_last_seq c \<le> c_last_seq c'"
    using assms(3) unfolding db_le_def by blast
  then show ?thesis using c stream_end_find(2) [OF assms(1)] stream_end_find(2) [OF assms(2)] by metis
qed

lemma message_at_le:
  assumes "chat_inv d" and "chat_inv e" and "db_le d e" and "is_member d cid uid"
    and "1 \<le> k" and "k \<le> stream_end cid d"
  shows "message_at cid e k = message_at cid d k"
proof -
  note m = message_at_seq [OF assms(1,4-6)]
  then have "message_at cid d k \<in> set (conversation_messages e cid)"
    using assms(3) by (auto simp: conversation_messages_def db_le_def)
  then show ?thesis using message_at_stored [OF assms(2)] m(2) by metis
qed

lemma sync_page_core:
  assumes "chat_inv d" and "others_ok (rd_others env)" and "is_member d cid uid"
    and "\<not> rd_fails_first env" and "\<not> rd_fails_second env"
    and "parseConversationID path = Inr cid" and "parseSnapshotPagination query = Inr (after, limit, raw)"
    and "after \<le> snap" and "snap \<le> stream_end cid d" and "raw = Some snap \<or> (raw = None \<and> snap = stream_end cid d)"
  shows "syncConversationMessages env uid path query d = JSON 200
     \<lparr>pg_ConversationID = cid,
      pg_Messages = map (message_at cid (rd_others env d)) [after + 1..min snap (after + limit)],
      pg_NextCursor = min snap (after + limit), pg_SnapshotCursor = snap, pg_HasMore = (after + limit < snap)\<rparr>"
proof -
  let ?e = "rd_others env d"
  have e: "chat_inv ?e" "db_le d ?e" using others_okD [OF assms(2,1)] others_ok_le [OF assms(2,1)] by simp_all
  have m: "is_member ?e cid uid" using assms(3) e(2) by (auto simp: is_member_def db_le_def)
  have snap: "snap \<le> stream_end cid ?e" using assms(9) stream_end_le [OF assms(1) e assms(3)] by simp
  note range = parseSnapshotPagination_range [OF assms(7)]
  have rows: "selectMessages ?e cid after snap (limit + 1) =
      map (message_at cid ?e) [after + 1..min snap (after + (limit + 1))]"
    using range by (intro selectMessages_items [OF e(1) m _ snap]) simp_all
  have page: "collectPage (nat limit) [] (selectMessages ?e cid after snap (limit + 1)) =
      (map (message_at cid ?e) [after + 1..min snap (after + limit)], after + limit < snap)"
    using range assms(8) unfolding rows by (auto simp: collectPage_start take_map take_upto min_def)
  have next_cursor: "(if map (message_at cid ?e) [after + 1..min snap (after + limit)] \<noteq> []
       then m_ConversationSeq (last (map (message_at cid ?e) [after + 1..min snap (after + limit)]))
       else after) = min snap (after + limit)"
  proof (cases "after + 1 \<le> min snap (after + limit)")
    case True
    then show ?thesis
      using message_at_seq [OF e(1) m, of "min snap (after + limit)"] snap range
      by (simp add: last_map last_upto)
  next
    case False
    then show ?thesis using range assms(8) by simp
  qed
  have cursor: "memberLastSeq d uid cid = Some (stream_end cid d)" by (rule memberLastSeq_member [OF assms(1,3)])
  have valid: "validateSnapshotCursor raw after (stream_end cid d) name = Inr snap" for name
    using assms(8-10) by (auto simp: validateSnapshotCursor_def)
  show ?thesis
    using assms(4-9) cursor valid page next_cursor
    by (simp add: syncConversationMessages_def Let_def)
qed

text \<open>
  C18: A page of a conversation holds exactly the messages that follow the cursor, in order and
  without a gap, up to the limit or the end of the snapshot; the next cursor is the last of them
  and there is more exactly when the snapshot goes further. It does not matter what is committed
  while the handler runs.
\<close>

theorem sync_page_is_exact:
  assumes "chat_inv d" and "others_ok (rd_others env)" and "is_member d cid uid"
    and "\<not> rd_fails_first env" and "\<not> rd_fails_second env"
    and "parseConversationID path = Inr cid" and "parseSnapshotPagination query = Inr (after, limit, raw)"
    and "after \<le> snap" and "snap \<le> stream_end cid d" and "raw = Some snap \<or> (raw = None \<and> snap = stream_end cid d)"
  shows "syncConversationMessages env uid path query d = JSON 200
     \<lparr>pg_ConversationID = cid,
      pg_Messages = map (message_at cid (rd_others env d)) [after + 1..min snap (after + limit)],
      pg_NextCursor = min snap (after + limit), pg_SnapshotCursor = snap, pg_HasMore = (after + limit < snap)\<rparr>"
  by (rule sync_page_core [OF assms])

lemma server_page_eq:
  assumes "readable uid cid d" and "0 \<le> after" and "after \<le> snap" and "snap \<le> stream_end cid d"
    and "1 \<le> limit" and "limit \<le> 200" and "raw = Some snap \<or> (raw = None \<and> snap = stream_end cid d)"
  shows "server_page uid cid d after limit raw = JSON 200
     \<lparr>pg_ConversationID = cid, pg_Messages = map (message_at cid d) [after + 1..min snap (after + limit)],
      pg_NextCursor = min snap (after + limit), pg_SnapshotCursor = snap, pg_HasMore = (after + limit < snap)\<rparr>"
proof -
  from assms(1,4) have r: "chat_inv d" "is_member d cid uid" "fits_int64 cid" "snap \<le> int64_max"
    by (auto simp: readable_def)
  have "0 < cid" by (rule member_conversation [OF r(1,2)])
  then have path: "parseConversationID (FormatInt cid) = Inr cid" using r(3) by (rule parseConversationID_FormatInt)
  have fits: "fits_int64 after" "fits_int64 snap"
    using assms(2,3) r(4) by (simp_all add: fits_int64_iff int64_max_def)
  then have query: "parseSnapshotPagination (page_query after limit raw) = Inr (after, limit, raw)"
    using assms by (intro parseSnapshotPagination_page_query) auto
  show ?thesis
    unfolding server_page_def
    using sync_page_core [OF r(1) _ r(2) _ _ path query assms(3,4,7)] by simp
qed

interpretation server: snapshot_stream "server_fetch uid cid" "message_at cid" "stream_end cid" "readable uid cid" db_le
  for uid cid
proof (unfold_locales, goal_cases)
  case (1 s after snap limit)
  then show ?case by (simp add: server_fetch_def server_page_eq)
next
  case (2 s after limit)
  then show ?case by (simp add: server_fetch_def server_page_eq)
next
  case (3 s t)
  then show ?case using stream_end_le [of s t cid uid] by (simp add: readable_def)
next
  case (4 s t k)
  then show ?case using message_at_le [of s t cid uid k] by (simp add: readable_def)
qed

text \<open>
  C9: Catching up is complete. A client that follows the pages of a conversation from a cursor,
  while messages keep arriving between its requests, gets exactly the messages after its cursor
  up to the end of the stream at its first request, in order, each once, and the loop ends.
\<close>

theorem catch_up_is_complete:
  assumes "\<And>i. readable uid cid (states i)" and "\<And>i. db_le (states 0) (states i)"
    and "1 \<le> limit" and "limit \<le> 200"
    and "0 \<le> after" and "after \<le> stream_end cid (states 0)" and "stream_end cid (states 0) - after < int fuel"
  shows "drain (server_fetch uid cid) limit states fuel 0 after None =
           Some (map (message_at cid (states 0)) [after + 1..stream_end cid (states 0)])"
  using assms by (intro server.drain_complete)

text \<open>
  A conversation is closed to everybody but its members: reading it and acknowledging it
  answer 404, whether or not it exists, and acknowledging changes nothing.
\<close>

theorem non_member_gets_not_found:
  assumes "\<not> is_member d cid uid" and "\<not> rd_fails_first env"
    and "parseConversationID path = Inr cid" and "parseSnapshotPagination query = Inr (after, limit, raw)"
    and "0 \<le> cursor"
  shows "syncConversationMessages env uid path query d = APIError 404 ''CONVERSATION_NOT_FOUND'' ''conversation not found''
    \<and> acknowledgeConversation env uid device path (Some (Some cursor)) d =
      (''not_found'', APIError 404 ''CONVERSATION_NOT_FOUND'' ''conversation not found'', d)"
  using assms by (simp add: syncConversationMessages_def acknowledgeConversation_def memberLastSeq_def)

section \<open>Acknowledgements\<close>

lemma sync_ok_find:
  assumes "sync_ok d" and "r \<in> set (device_conversation_sync_states d)"
  shows "find (ackKey (d_user_id r) (d_device_id r) (d_conversation_id r)) (device_conversation_sync_states d) = Some r"
  by (rule find_distinct_key [of "\<lambda>r. (d_user_id r, d_device_id r, d_conversation_id r)"])
    (use assms in \<open>auto simp: sync_ok_def ackKey_def\<close>)

lemma acknowledgeConversation_cases:
  assumes "acknowledgeConversation env uid device path body d = (label, resp, d')"
  obtains (refused) "label \<noteq> ''accepted''" and "d' = d \<or> d' = rd_others env d"
  | (accepted) cid cursor applied at where "label = ''accepted''" and "body = Some (Some cursor)"
      and "parseConversationID path = Inr cid" and "0 \<le> cursor"
      and "memberLastSeq d uid cid \<noteq> None" and "cursor \<le> the (memberLastSeq d uid cid)"
      and "upsertSyncState env (rd_others env d) uid device cid cursor = Inr ((applied, at), d')"
      and "resp = JSON 200 \<lparr>st_ConversationID = cid, st_AppliedCursor = applied, st_UpdatedAt = at\<rparr>"
  using assms
  by (auto simp: acknowledgeConversation_def Let_def split: sum.splits option.splits if_splits prod.splits)

text \<open>
  An upsert inserts the first acknowledgement of a key or raises the stored one; in both cases the
  rows stay consistent, the answered cursor is stored, and no row moves back.
\<close>

definition acknowledged :: "db \<Rightarrow> int \<Rightarrow> string \<Rightarrow> int \<Rightarrow> int \<Rightarrow> int \<Rightarrow> db \<Rightarrow> bool" where
  "acknowledged d uid device cid cursor applied d' \<longleftrightarrow>
     sync_ok d' \<and> cursor \<le> applied \<and> applied \<le> stream_end cid d'
     \<and> d' = d\<lparr>device_conversation_sync_states := device_conversation_sync_states d'\<rparr>
     \<and> (\<exists>r \<in> set (device_conversation_sync_states d'). ackKey uid device cid r \<and> d_applied_seq r = applied)
     \<and> (\<forall>r \<in> set (device_conversation_sync_states d). \<exists>r' \<in> set (device_conversation_sync_states d').
           ackKey (d_user_id r) (d_device_id r) (d_conversation_id r) r' \<and> d_applied_seq r \<le> d_applied_seq r')"

lemma ack_rows_same [simp]:
  "is_member (d\<lparr>device_conversation_sync_states := x\<rparr>) k u = is_member d k u"
  "stream_end k (d\<lparr>device_conversation_sync_states := x\<rparr>) = stream_end k d"
  by (simp_all add: is_member_def stream_end_def)

lemma ack_inserted:
  assumes "sync_ok d" and "is_member d cid uid" and "0 \<le> cursor" and "cursor \<le> stream_end cid d"
    and "\<forall>r \<in> set (device_conversation_sync_states d). \<not> ackKey uid device cid r"
  shows "acknowledged d uid device cid cursor cursor (d\<lparr>device_conversation_sync_states := device_conversation_sync_states d
     @ [\<lparr>d_user_id = uid, d_device_id = device, d_conversation_id = cid, d_applied_seq = cursor, d_updated_at = at\<rparr>]\<rparr>)"
  using assms by (auto simp: acknowledged_def sync_ok_def ackKey_def)

lemma ack_raised:
  assumes ok: "sync_ok d" and "cursor \<le> stream_end cid d"
    and r0: "r0 \<in> set (device_conversation_sync_states d)" "ackKey uid device cid r0"
    and d': "d' = d\<lparr>device_conversation_sync_states := update_rows (ackKey uid device cid)
      (\<lambda>r. r\<lparr>d_applied_seq := max (d_applied_seq r) cursor, d_updated_at := max (d_updated_at r) at\<rparr>)
      (device_conversation_sync_states d)\<rparr>"
  shows "acknowledged d uid device cid cursor (max (d_applied_seq r0) cursor) d'"
proof -
  let ?rows = "device_conversation_sync_states d"
  let ?up = "\<lambda>r. if ackKey uid device cid r
    then r\<lparr>d_applied_seq := max (d_applied_seq r) cursor, d_updated_at := max (d_updated_at r) at\<rparr> else r"
  have row_ok: "is_member d (d_conversation_id r) (d_user_id r) \<and> 0 \<le> d_applied_seq r
      \<and> d_applied_seq r \<le> stream_end (d_conversation_id r) d" if "r \<in> set ?rows" for r
    using ok that by (simp add: sync_ok_def)
  have rows': "set (device_conversation_sync_states d') = ?up ` set ?rows" by (simp add: d' set_update_rows)
  have "distinct (map (\<lambda>r. (d_user_id r, d_device_id r, d_conversation_id r)) (device_conversation_sync_states d'))"
    using ok by (simp add: d' map_update_rows_key sync_ok_def)
  moreover have "is_member d' (d_conversation_id r) (d_user_id r) \<and> 0 \<le> d_applied_seq r
      \<and> d_applied_seq r \<le> stream_end (d_conversation_id r) d'" if "r \<in> ?up ` set ?rows" for r
    using that row_ok assms(2) by (auto simp: d' ackKey_def le_max_iff_disj)
  ultimately have "sync_ok d'" unfolding sync_ok_def rows' by blast
  moreover have "\<exists>r \<in> ?up ` set ?rows. ackKey uid device cid r \<and> d_applied_seq r = max (d_applied_seq r0) cursor"
    using r0 by (intro bexI [of _ "?up r0"]) (auto simp: ackKey_def)
  moreover have "\<exists>r' \<in> ?up ` set ?rows. ackKey (d_user_id r) (d_device_id r) (d_conversation_id r) r'
      \<and> d_applied_seq r \<le> d_applied_seq r'" if "r \<in> set ?rows" for r
    using that by (intro bexI [of _ "?up r"]) (auto simp: ackKey_def)
  moreover have "d_applied_seq r0 \<le> stream_end cid d" using row_ok [OF r0(1)] r0(2) by (simp add: ackKey_def)
  ultimately show ?thesis using assms(2) unfolding acknowledged_def rows' by (simp add: d')
qed

lemma upsert_rows:
  assumes "sync_ok d" and "upsertSyncState env d uid device cid cursor = Inr ((applied, at), d')"
    and "0 \<le> cursor" and "cursor \<le> stream_end cid d"
  shows "sync_ok d'" and "cursor \<le> applied" and "applied \<le> stream_end cid d'"
    and "d' = d\<lparr>device_conversation_sync_states := device_conversation_sync_states d'\<rparr>"
    and "\<exists>r \<in> set (device_conversation_sync_states d'). ackKey uid device cid r \<and> d_applied_seq r = applied"
    and "\<forall>r \<in> set (device_conversation_sync_states d). \<exists>r' \<in> set (device_conversation_sync_states d').
           ackKey (d_user_id r) (d_device_id r) (d_conversation_id r) r' \<and> d_applied_seq r \<le> d_applied_seq r'"
proof -
  have member: "is_member d cid uid" using assms(2) by (auto simp: upsertSyncState_def Let_def split: if_splits)
  have "acknowledged d uid device cid cursor applied d'"
  proof (cases "find (ackKey uid device cid) (device_conversation_sync_states d)")
    case None
    then have "\<forall>r \<in> set (device_conversation_sync_states d). \<not> ackKey uid device cid r" by (simp add: find_None_iff)
    then show ?thesis using ack_inserted [OF assms(1) member assms(3,4)] None assms(2) member
      by (auto simp: upsertSyncState_def Let_def split: if_splits)
  next
    case (Some r0)
    show ?thesis using Some ack_raised [OF assms(1,4) conjunct1 [OF find_SomeD [OF Some]] conjunct2 [OF find_SomeD [OF Some]] refl] assms(2) member
      by (auto simp: upsertSyncState_def Let_def split: if_splits)
  qed
  then show "sync_ok d'" and "cursor \<le> applied" and "applied \<le> stream_end cid d'"
    and "d' = d\<lparr>device_conversation_sync_states := device_conversation_sync_states d'\<rparr>"
    and "\<exists>r \<in> set (device_conversation_sync_states d'). ackKey uid device cid r \<and> d_applied_seq r = applied"
    and "\<forall>r \<in> set (device_conversation_sync_states d). \<exists>r' \<in> set (device_conversation_sync_states d').
           ackKey (d_user_id r) (d_device_id r) (d_conversation_id r) r' \<and> d_applied_seq r \<le> d_applied_seq r'"
    unfolding acknowledged_def by blast+
qed


section \<open>The list of conversations\<close>

lemma summaryOf_Some:
  assumes "chat_inv d" and "c \<in> set (conversations d)"
  obtains u where "summaryOf d uid c = Some \<lparr>cs_ID = c_id c, cs_Kind = c_kind c, cs_Peer = u,
      cs_LastSeq = c_last_seq c, cs_UpdatedAt = c_updated_at c\<rparr>" and "peerID uid c = Some (u_ID u)"
proof -
  from chat_inv_conversation [OF assms] obtain low high where p: "has_pair low high c"
      "low \<in> user_ids d" "high \<in> user_ids d"
    by (auto simp: conversation_ok_def)
  then obtain k where k: "peerID uid c = Some k" "k \<in> user_ids d"
    by (cases "low = uid \<and> high \<noteq> uid") (auto simp: peerID_def has_pair_def)
  then have "find (\<lambda>u. Some (u_ID (ur_user u)) = peerID uid c) (users d) \<noteq> None"
    by (auto simp: find_None_iff user_ids_def)
  then obtain r where r: "find (\<lambda>u. Some (u_ID (ur_user u)) = peerID uid c) (users d) = Some r" by blast
  have "peerID uid c = Some (u_ID (ur_user r))" using find_SomeD [OF r] by simp
  then show ?thesis using that [of "ur_user r"] r by (simp add: summaryOf_def)
qed

lemma directConversationsOf_in: "c \<in> set (directConversationsOf d uid) \<Longrightarrow> c \<in> set (conversations d)"
  by (simp add: directConversationsOf_def)

lemma selectConversations_ids:
  assumes "chat_inv d"
  shows "map cs_ID (selectConversations d uid after snap n) =
    take (nat n) (sort (filter (\<lambda>k. after < k \<and> k \<le> snap) (map c_id (directConversationsOf d uid))))"
proof -
  let ?P = "\<lambda>k. after < k \<and> k \<le> snap"
  have "map cs_ID (List.map_filter (summaryOf d uid) (directConversationsOf d uid)) = map c_id (directConversationsOf d uid)"
    by (rule map_filter_total) (metis summaryOf_Some [OF assms] directConversationsOf_in conversationSummary.select_convs(1))
  then have "map cs_ID (filter (?P \<circ> cs_ID) (List.map_filter (summaryOf d uid) (directConversationsOf d uid))) =
      filter ?P (map c_id (directConversationsOf d uid))"
    by (metis filter_map)
  then show ?thesis
    by (simp add: selectConversations_def select_limit_def map_sort_key take_map [symmetric] o_def)
qed

lemma selectConversations_summary:
  assumes "chat_inv d" and "s \<in> set (selectConversations d uid after snap n)"
  shows "\<exists>c \<in> set (directConversationsOf d uid). cs_ID s = c_id c \<and> cs_LastSeq s = c_last_seq c
     \<and> (\<exists>low high. has_pair low high c \<and> {uid, u_ID (cs_Peer s)} = {low, high})"
proof -
  from assms(2) have "s \<in> set (List.map_filter (summaryOf d uid) (directConversationsOf d uid))"
    unfolding selectConversations_def using set_select_limit by fastforce
  then obtain c where c: "c \<in> set (directConversationsOf d uid)" "summaryOf d uid c = Some s"
    by (auto simp: set_map_filter_eq)
  then have cin: "c \<in> set (conversations d)" "is_member d (c_id c) uid" by (simp_all add: directConversationsOf_def)
  obtain u where u: "summaryOf d uid c = Some \<lparr>cs_ID = c_id c, cs_Kind = c_kind c, cs_Peer = u,
      cs_LastSeq = c_last_seq c, cs_UpdatedAt = c_updated_at c\<rparr>" "peerID uid c = Some (u_ID u)"
    by (rule summaryOf_Some [OF assms(1) cin(1)])
  from chat_inv_conversation [OF assms(1) cin(1)] obtain low high where p: "has_pair low high c"
      "{x. is_member d (c_id c) x} = {low, high}"
    by (auto simp: conversation_ok_def)
  then have "uid = low \<or> uid = high" using cin(2) by blast
  then have "{uid, u_ID u} = {low, high}"
    using u(2) p(1) by (auto simp: peerID_def has_pair_def split: if_splits)
  moreover have "cs_ID s = c_id c" "cs_LastSeq s = c_last_seq c" "cs_Peer s = u" using c(2) u(1) by auto
  ultimately show ?thesis using c(1) p(1) by metis
qed

text \<open>
  The list of conversations is exact: a page holds, in ascending order of their identities,
  the conversations of the user after the cursor and within the snapshot, cut at the limit, each
  with the other participant as its peer; there is more exactly when the cut left some out.
\<close>

theorem conversation_list_is_exact:
  assumes "chat_inv (rd_others env d)" and "\<not> rd_fails_first env" and "\<not> rd_fails_second env"
    and "parseSnapshotPagination query = Inr (after, limit, raw)" and "after \<le> snap"
    and "snap \<le> lastConversationID d uid"
    and "raw = Some snap \<or> (raw = None \<and> snap = lastConversationID d uid)"
  shows "\<exists>p. listConversations env uid query d = JSON 200 p \<and> cl_SnapshotCursor p = snap
     \<and> map cs_ID (cl_Conversations p) = take (nat limit) (sort (filter (\<lambda>k. after < k \<and> k \<le> snap)
          (map c_id (directConversationsOf (rd_others env d) uid))))
     \<and> cl_HasMore p = (nat limit < length (filter (\<lambda>k. after < k \<and> k \<le> snap)
          (map c_id (directConversationsOf (rd_others env d) uid))))
     \<and> (\<forall>s \<in> set (cl_Conversations p). \<exists>low high c. c \<in> set (conversations (rd_others env d))
          \<and> c_id c = cs_ID s \<and> c_last_seq c = cs_LastSeq s \<and> has_pair low high c
          \<and> {uid, u_ID (cs_Peer s)} = {low, high})"
proof -
  let ?e = "rd_others env d"
  let ?ids = "sort (filter (\<lambda>k. after < k \<and> k \<le> snap) (map c_id (directConversationsOf ?e uid)))"
  let ?rows = "selectConversations ?e uid after snap (limit + 1)"
  have limit: "1 \<le> limit" using parseSnapshotPagination_range(2) [OF assms(4)] .
  have ids: "map cs_ID ?rows = take (Suc (nat limit)) ?ids"
    using selectConversations_ids [OF assms(1)] limit by (simp add: nat_add_distrib)
  have "map cs_ID (take (nat limit) ?rows) = take (nat limit) ?ids"
    by (simp add: take_map [symmetric] ids)
  moreover have "(nat limit < length ?rows) = (nat limit < length ?ids)"
    using arg_cong [OF ids, of length] by auto
  moreover have "validateSnapshotCursor raw after (lastConversationID d uid) name = Inr snap" for name
    using assms(5-7) by (auto simp: validateSnapshotCursor_def)
  moreover have "\<exists>low high c. c \<in> set (conversations ?e) \<and> c_id c = cs_ID s \<and> c_last_seq c = cs_LastSeq s
      \<and> has_pair low high c \<and> {uid, u_ID (cs_Peer s)} = {low, high}" if "s \<in> set (take (nat limit) ?rows)" for s
  proof -
    have "s \<in> set ?rows" using that by (rule in_set_takeD)
    from selectConversations_summary [OF assms(1) this]
    obtain c where "c \<in> set (directConversationsOf ?e uid)" "cs_ID s = c_id c" "cs_LastSeq s = c_last_seq c"
        "\<exists>low high. has_pair low high c \<and> {uid, u_ID (cs_Peer s)} = {low, high}"
      by blast
    then show ?thesis using directConversationsOf_in by metis
  qed
  ultimately show ?thesis
    using assms(2-6) by (simp add: listConversations_def Let_def collectPage_start)
qed

section \<open>The properties on the small system\<close>

theorem sync_page_is_exact_witness:
  "syncConversationMessages calm_read 2 ''1'' [] hello_db = JSON 200
     \<lparr>pg_ConversationID = 1, pg_Messages = [hello_message], pg_NextCursor = 1, pg_SnapshotCursor = 1, pg_HasMore = False\<rparr>"
proof -
  have "parseConversationID ''1'' = Inr 1" "parseSnapshotPagination [] = Inr (0, 100, None)"
      "is_member hello_db 1 2" "stream_end 1 hello_db = 1" "message_at 1 hello_db 1 = hello_message" "[1..1::int] = [1]"
    by code_simp+
  then show ?thesis
    using sync_page_is_exact [of hello_db calm_read 1 2 "''1''" "[]" 0 100 None 1] chat_inv_hello_db
    by (simp add: calm_read_def)
qed

theorem catch_up_is_complete_witness:
  "drain (server_fetch 2 1) 10 (\<lambda>_. hello_db) 2 0 0 None = Some [hello_message]"
proof -
  have "is_member hello_db 1 2" "stream_end 1 hello_db = 1" "message_at 1 hello_db 1 = hello_message" "[1..1::int] = [1]"
      "fits_int64 1"
    by code_simp+
  then show ?thesis
    using catch_up_is_complete [of 2 1 "\<lambda>_. hello_db" 10 0 2] chat_inv_hello_db
    by (simp add: readable_def int64_max_def)
qed

theorem non_member_gets_not_found_witness:
  "syncConversationMessages calm_read 3 ''1'' [] hello_db = APIError 404 ''CONVERSATION_NOT_FOUND'' ''conversation not found''"
proof -
  have "parseConversationID ''1'' = Inr 1" "parseSnapshotPagination [] = Inr (0, 100, None)" "\<not> is_member hello_db 1 3"
    by code_simp+
  then show ?thesis
    using non_member_gets_not_found [of hello_db 1 3 calm_read "''1''" "[]" 0 100 None 0 "''d''"]
    by (simp add: calm_read_def)
qed


theorem conversation_list_is_exact_witness:
  "\<exists>p. listConversations calm_read 2 [] hello_db = JSON 200 p \<and> map cs_ID (cl_Conversations p) = [1] \<and> \<not> cl_HasMore p"
proof -
  have "parseSnapshotPagination [] = Inr (0, 100, None)" "lastConversationID hello_db 2 = 1"
      "map c_id (directConversationsOf hello_db 2) = [1]"
    by code_simp+
  then show ?thesis
    using conversation_list_is_exact [of calm_read hello_db "[]" 0 100 None 1 2] chat_inv_hello_db
    by (auto simp: calm_read_def)
qed

end
