(* ===== verification/MessageHistory.thy ===== *)
theory MessageHistory
  imports ConversationSync
begin

text \<open>
  Scrolling through the history of a direct conversation: \<^verbatim>\<open>message_history.go\<close>. The cursor of a
  page is the base64 form of a small JSON document; \<open>unmarshal\<close>, what \<open>encoding/json\<close> makes of a
  payload (exactly one object without unknown fields, or \<open>None\<close>), is a parameter of the decoder.
\<close>

section \<open>Cursors\<close>

record messageHistoryCursor =
  hc_Version :: int
  hc_ConversationID :: int
  hc_Sequence :: int

datatype messageHistoryDirection = HistoryLatest | HistoryBefore | HistoryAfter

record messageHistoryPage =
  hp_ConversationID :: int
  hp_Messages :: "message list"
  hp_BeforeCursor :: string
  hp_AfterCursor :: string
  hp_HasMoreBefore :: bool
  hp_HasMoreAfter :: bool

definition messageHistoryCursorVersion :: int where "messageHistoryCursorVersion = 2"
definition defaultMessageHistoryLimit :: int where "defaultMessageHistoryLimit = 50"
definition maxMessageHistoryLimit :: int where "maxMessageHistoryLimit = 200"
definition maxMessageHistoryCursorSize :: nat where "maxMessageHistoryCursorSize = 512"

text \<open>\<open>json.Marshal\<close> of a cursor.\<close>

definition marshalCursor :: "messageHistoryCursor \<Rightarrow> byte_string" where
  "marshalCursor c = CHR ''{'' # [CHR 0x22] @ ''v'' @ [CHR 0x22] @ '':'' @ FormatInt (hc_Version c)
     @ '','' @ [CHR 0x22] @ ''conversationId'' @ [CHR 0x22] @ '':'' @ FormatInt (hc_ConversationID c)
     @ '','' @ [CHR 0x22] @ ''seq'' @ [CHR 0x22] @ '':'' @ FormatInt (hc_Sequence c) @ ''}''"

definition encodeMessageHistoryCursor :: "message \<Rightarrow> string" where
  "encodeMessageHistoryCursor current =
     EncodeToString url_alphabet (marshalCursor
       \<lparr>hc_Version = messageHistoryCursorVersion, hc_ConversationID = m_ConversationID current,
        hc_Sequence = m_ConversationSeq current\<rparr>)"

definition decodeMessageHistoryCursor ::
  "(byte_string \<Rightarrow> messageHistoryCursor option) \<Rightarrow> string \<Rightarrow> messageHistoryCursor option" where
  "decodeMessageHistoryCursor unmarshal raw =
     (if raw = [] \<or> maxMessageHistoryCursorSize < length raw then None
      else case DecodeString url_alphabet raw of
        None \<Rightarrow> None
      | Some payload \<Rightarrow>
          (case unmarshal payload of
             None \<Rightarrow> None
           | Some cursor \<Rightarrow>
               if hc_Version cursor \<noteq> messageHistoryCursorVersion \<or> hc_ConversationID cursor \<le> 0
                  \<or> hc_Sequence cursor \<le> 0
               then None else Some cursor))"

section \<open>Statements\<close>

definition app_resolveDirectConversation :: "db \<Rightarrow> int \<Rightarrow> int \<Rightarrow> int option" where
  "app_resolveDirectConversation d userID peer =
     map_option c_id (find (\<lambda>c. has_pair (min userID peer) (max userID peer) c \<and> is_member d (c_id c) userID)
       (conversations d))"

definition selectDescending :: "(message \<Rightarrow> bool) \<Rightarrow> int \<Rightarrow> message list \<Rightarrow> message list" where
  "selectDescending p n rows = take (nat n) (rev (sort_key m_ConversationSeq (filter p rows)))"

definition latestMessageHistoryQuery :: "db \<Rightarrow> int \<Rightarrow> int \<Rightarrow> message list" where
  "latestMessageHistoryQuery d cid n = selectDescending (\<lambda>_. True) n (conversation_messages d cid)"

definition beforeMessageHistoryQuery :: "db \<Rightarrow> int \<Rightarrow> int \<Rightarrow> int \<Rightarrow> message list" where
  "beforeMessageHistoryQuery d cid seq n =
     selectDescending (\<lambda>m. m_ConversationSeq m < seq) n (conversation_messages d cid)"

definition afterMessageHistoryQuery :: "db \<Rightarrow> int \<Rightarrow> int \<Rightarrow> int \<Rightarrow> message list" where
  "afterMessageHistoryQuery d cid seq n =
     select_limit (\<lambda>m. seq < m_ConversationSeq m) m_ConversationSeq n (conversation_messages d cid)"

text \<open>Reversing in place by swapping from both ends.\<close>

definition swap_at :: "'a list \<Rightarrow> nat \<Rightarrow> nat \<Rightarrow> 'a list" where
  "swap_at xs i j = xs[i := xs ! j, j := xs ! i]"

function reverseLoop :: "int \<Rightarrow> int \<Rightarrow> 'a list \<Rightarrow> 'a list" where
  "reverseLoop left right xs =
     (if left < right then reverseLoop (left + 1) (right - 1) (swap_at xs (nat left) (nat right)) else xs)"
  by pat_completeness auto

termination reverseLoop
  by (relation "measure (\<lambda>(left, right, xs). nat (right - left))") auto

declare reverseLoop.simps [simp del]

definition reverseMessages :: "'a list \<Rightarrow> 'a list" where
  "reverseMessages ms = reverseLoop 0 (int (length ms) - 1) ms"

section \<open>The handler\<close>

definition historyDirection ::
  "(byte_string \<Rightarrow> messageHistoryCursor option) \<Rightarrow> url_values \<Rightarrow> api_error + messageHistoryDirection \<times> messageHistoryCursor" where
  "historyDirection unmarshal query =
     (case map_of query ''before'' of
        Some values \<Rightarrow>
          (case decodeMessageHistoryCursor unmarshal (hd values) of
             None \<Rightarrow> Inl (400, ''INVALID_CURSOR'', ''before cursor is invalid'')
           | Some c \<Rightarrow> Inr (HistoryBefore, c))
      | None \<Rightarrow>
        (case map_of query ''after'' of
           Some values \<Rightarrow>
             (case decodeMessageHistoryCursor unmarshal (hd values) of
                None \<Rightarrow> Inl (400, ''INVALID_CURSOR'', ''after cursor is invalid'')
              | Some c \<Rightarrow> Inr (HistoryAfter, c))
         | None \<Rightarrow> Inr (HistoryLatest, \<lparr>hc_Version = 0, hc_ConversationID = 0, hc_Sequence = 0\<rparr>)))"

definition parseHistoryQuery ::
  "(byte_string \<Rightarrow> messageHistoryCursor option) \<Rightarrow> url_values \<Rightarrow>
   api_error + int \<times> int \<times> messageHistoryDirection \<times> messageHistoryCursor" where
  "parseHistoryQuery unmarshal query =
     (case checkQueryKeys ''INVALID_QUERY'' [''peerId'', ''before'', ''after'', ''limit'']
             ''only peerId, before, after and limit are allowed'' query of
        Some err \<Rightarrow> Inl err
      | None \<Rightarrow>
        (case map_of query ''peerId'' of
           None \<Rightarrow> Inl (400, ''INVALID_QUERY'', ''peerId is required exactly once'')
         | Some peerValues \<Rightarrow>
           if length peerValues \<noteq> 1 then Inl (400, ''INVALID_QUERY'', ''peerId is required exactly once'')
           else
           (case ParseInt 64 (hd peerValues) of
              None \<Rightarrow> Inl (400, ''INVALID_PEER_ID'', ''peerId must be a positive integer'')
            | Some peer \<Rightarrow>
              if peer \<le> 0 then Inl (400, ''INVALID_PEER_ID'', ''peerId must be a positive integer'')
              else if map_of query ''before'' \<noteq> None \<and> map_of query ''after'' \<noteq> None
              then Inl (400, ''INVALID_QUERY'', ''before and after are mutually exclusive'')
              else
              (case parseParameter query ''limit'' defaultMessageHistoryLimit (\<lambda>v. v)
                      (\<lambda>v. 0 < v \<and> v \<le> maxMessageHistoryLimit)
                      (400, ''INVALID_LIMIT'', ''limit must be between 1 and 200'') of
                 Inl err \<Rightarrow> Inl err
               | Inr limit \<Rightarrow>
                 (case historyDirection unmarshal query of
                    Inl err \<Rightarrow> Inl err
                  | Inr (direction, cursor) \<Rightarrow> Inr (peer, limit, direction, cursor))))))"

definition historyPage :: "int \<Rightarrow> int \<Rightarrow> messageHistoryDirection \<Rightarrow> message list \<Rightarrow> messageHistoryPage" where
  "historyPage cid limit direction rows =
     (let hasMore = limit < int (length rows);
          cut = (if hasMore then take (nat limit) rows else rows);
          ms = (if direction \<noteq> HistoryAfter then reverseMessages cut else cut)
      in \<lparr>hp_ConversationID = cid, hp_Messages = ms,
          hp_BeforeCursor = (if ms \<noteq> [] then encodeMessageHistoryCursor (hd ms) else []),
          hp_AfterCursor = (if ms \<noteq> [] then encodeMessageHistoryCursor (last ms) else []),
          hp_HasMoreBefore = (case direction of HistoryLatest \<Rightarrow> hasMore | HistoryBefore \<Rightarrow> hasMore | HistoryAfter \<Rightarrow> True),
          hp_HasMoreAfter = (case direction of HistoryLatest \<Rightarrow> False | HistoryBefore \<Rightarrow> True | HistoryAfter \<Rightarrow> hasMore)\<rparr>)"

definition historyRows :: "db \<Rightarrow> int \<Rightarrow> int \<Rightarrow> messageHistoryDirection \<Rightarrow> messageHistoryCursor \<Rightarrow> message list" where
  "historyRows d cid queryLimit direction cursor =
     (case direction of
        HistoryLatest \<Rightarrow> latestMessageHistoryQuery d cid queryLimit
      | HistoryBefore \<Rightarrow> beforeMessageHistoryQuery d cid (hc_Sequence cursor) queryLimit
      | HistoryAfter \<Rightarrow> afterMessageHistoryQuery d cid (hc_Sequence cursor) queryLimit)"

definition listMessages ::
  "(byte_string \<Rightarrow> messageHistoryCursor option) \<Rightarrow> read_env \<Rightarrow> int \<Rightarrow> url_values \<Rightarrow> db \<Rightarrow> messageHistoryPage response" where
  "listMessages unmarshal env userID query d =
     (case parseHistoryQuery unmarshal query of
        Inl err \<Rightarrow> writeAPIError err
      | Inr (peer, limit, direction, cursor) \<Rightarrow>
        if rd_fails_first env then APIError 500 ''INTERNAL_ERROR'' ''could not list messages''
        else
        (case app_resolveDirectConversation d userID peer of
           None \<Rightarrow>
             if direction \<noteq> HistoryLatest
             then APIError 400 ''INVALID_CURSOR'' ''message cursor does not belong to this conversation''
             else JSON 200 \<lparr>hp_ConversationID = 0, hp_Messages = [], hp_BeforeCursor = [], hp_AfterCursor = [],
                           hp_HasMoreBefore = False, hp_HasMoreAfter = False\<rparr>
         | Some cid \<Rightarrow>
           if direction \<noteq> HistoryLatest \<and> hc_ConversationID cursor \<noteq> cid
           then APIError 400 ''INVALID_CURSOR'' ''message cursor does not belong to this conversation''
           else if rd_fails_second env then APIError 500 ''INTERNAL_ERROR'' ''could not list messages''
           else JSON 200 (historyPage cid limit direction
                  (historyRows (rd_others env d) cid (limit + 1) direction cursor))))"

text \<open>A reader of the documents \<open>marshalCursor\<close> writes.\<close>

definition read_cursor :: "byte_string \<Rightarrow> messageHistoryCursor option" where
  "read_cursor payload =
     (case map (\<lambda>field. ParseInt 64 (last (split_at CHR '':'' field))) (split_at CHR '','' (butlast (tl payload))) of
        [Some v, Some c, Some n] \<Rightarrow> Some \<lparr>hc_Version = v, hc_ConversationID = c, hc_Sequence = n\<rparr>
      | _ \<Rightarrow> None)"

text \<open>What a page of each direction is expected to hold: an interval of the stream.\<close>

definition history_interval :: "messageHistoryDirection \<Rightarrow> int \<Rightarrow> int \<Rightarrow> int \<Rightarrow> int \<times> int" where
  "history_interval direction seq limit stop =
     (case direction of
        HistoryLatest \<Rightarrow> (max 1 (stop - limit + 1), stop)
      | HistoryBefore \<Rightarrow> (max 1 (min (seq - 1) stop - limit + 1), min (seq - 1) stop)
      | HistoryAfter \<Rightarrow> (seq + 1, min stop (seq + limit)))"

section \<open>Reversal\<close>

lemma swap_at_nth:
  "i < length xs \<Longrightarrow> j < length xs \<Longrightarrow> k < length xs \<Longrightarrow>
   swap_at xs i j ! k = (if k = j then xs ! i else if k = i then xs ! j else xs ! k)"
  by (simp add: swap_at_def nth_list_update)

lemma reverseLoop_nth:
  "0 \<le> left \<Longrightarrow> right < int (length xs) \<Longrightarrow>
   length (reverseLoop left right xs) = length xs \<and>
   (\<forall>i < length xs. reverseLoop left right xs ! i =
      (if left \<le> int i \<and> int i \<le> right then xs ! nat (left + right - int i) else xs ! i))"
proof (induction left right xs rule: reverseLoop.induct)
  case (1 left right xs)
  show ?case
  proof (cases "left < right")
    case False
    then have "nat (left + right - int i) = i" if "left \<le> int i" "int i \<le> right" for i
      using that 1 by simp
    then show ?thesis using False by (simp add: reverseLoop.simps)
  next
    case True
    let ?s = "swap_at xs (nat left) (nat right)"
    have len: "length ?s = length xs" by (simp add: swap_at_def)
    have r: "reverseLoop left right xs = reverseLoop (left + 1) (right - 1) ?s"
      using True by (simp add: reverseLoop.simps)
    note IH = "1.IH" [OF True]
    have "reverseLoop left right xs ! i =
        (if left \<le> int i \<and> int i \<le> right then xs ! nat (left + right - int i) else xs ! i)" if i: "i < length xs" for i
    proof -
      have *: "reverseLoop left right xs ! i =
          (if left + 1 \<le> int i \<and> int i \<le> right - 1 then ?s ! nat (left + right - int i) else ?s ! i)"
        using IH i 1(2,3) by (simp add: r len)
      show ?thesis
      proof (cases "left + 1 \<le> int i \<and> int i \<le> right - 1")
        case inner: True
        then have "nat (left + right - int i) \<noteq> nat left" "nat (left + right - int i) \<noteq> nat right"
            "nat (left + right - int i) < length xs"
          using 1(2,3) by auto
        then show ?thesis using * inner 1(2,3) True by (simp add: swap_at_nth)
      next
        case False
        then show ?thesis using * 1(2,3) True i by (auto simp: swap_at_nth)
      qed
    qed
    then show ?thesis using IH 1(2,3) by (simp add: r len)
  qed
qed

lemma reverse_swap_loop: "reverseMessages ms = rev ms"
proof (rule nth_equalityI)
  have "length (reverseMessages ms) = length ms"
    and nth: "\<forall>i < length ms. reverseMessages ms ! i = ms ! nat (int (length ms) - 1 - int i)"
    using reverseLoop_nth [of 0 "int (length ms) - 1" ms] by (simp_all add: reverseMessages_def)
  then show "length (reverseMessages ms) = length (rev ms)" by simp
  fix i assume "i < length (reverseMessages ms)"
  then have "i < length ms" using \<open>length (reverseMessages ms) = length ms\<close> by simp
  moreover have "nat (int (length ms) - 1 - int i) = length ms - Suc i" using calculation by linarith
  ultimately show "reverseMessages ms ! i = rev ms ! i" using nth by (simp add: rev_nth)
qed

text \<open>The in-place swap loop of \<open>reverseMessages\<close> ends and reverses its slice.\<close>

theorem reverseMessages_is_rev: "reverseMessages ms = rev ms"
  by (rule reverse_swap_loop)

section \<open>Pages\<close>

lemma stream_sorted:
  assumes "chat_inv d" and "is_member d cid uid" and "0 \<le> j" and "j \<le> stream_end cid d"
  shows "sort_key m_ConversationSeq (filter (\<lambda>m. m_ConversationSeq m \<le> j) (conversation_messages d cid)) =
    map (message_at cid d) [1..j]"
proof -
  have "selectMessages d cid 0 j j = map (message_at cid d) [1..j]"
    using selectMessages_items [OF assms(1,2) _ assms(4,3), of 0] by simp
  moreover have "filter (\<lambda>m. 0 < m_ConversationSeq m \<and> m_ConversationSeq m \<le> j) (conversation_messages d cid) =
      filter (\<lambda>m. m_ConversationSeq m \<le> j) (conversation_messages d cid)"
  proof (rule filter_cong [OF refl])
    fix m assume "m \<in> set (conversation_messages d cid)"
    then have "m_ConversationSeq m \<in> seqs_of d cid" by (auto simp: seqs_of_def)
    then show "(0 < m_ConversationSeq m \<and> m_ConversationSeq m \<le> j) = (m_ConversationSeq m \<le> j)"
      using stream_seqs(1) [OF assms(1,2)] by auto
  qed
  ultimately have t: "take (nat j) (sort_key m_ConversationSeq (filter (\<lambda>m. m_ConversationSeq m \<le> j) (conversation_messages d cid)))
      = map (message_at cid d) [1..j]"
    by (simp add: selectMessages_def select_limit_def)
  have "length (filter (\<lambda>m. m_ConversationSeq m \<le> j) (conversation_messages d cid)) \<le> nat j"
  proof -
    let ?f = "filter (\<lambda>m. m_ConversationSeq m \<le> j) (conversation_messages d cid)"
    have "distinct (map m_ConversationSeq ?f)"
      using distinct_seqs [OF assms(1)] by (rule distinct_map_filter)
    then have "length ?f = card (set (map m_ConversationSeq ?f))"
      by (metis distinct_card length_map)
    also have "\<dots> \<le> card {1..j}"
    proof (rule card_mono)
      show "set (map m_ConversationSeq ?f) \<subseteq> {1..j}"
        using stream_seqs(1) [OF assms(1,2)] by (auto simp: seqs_of_def)
    qed simp
    finally show ?thesis by simp
  qed
  then show ?thesis using t by simp
qed

lemma selectDescending_rev:
  assumes "sort_key m_ConversationSeq (filter p rows) = xs"
  shows "selectDescending p n rows = take (nat n) (rev xs)"
  using assms by (simp add: selectDescending_def)

lemma historyPage_descending:
  assumes "rows = take (nat (limit + 1)) (rev (map f [1..j]))" and "1 \<le> limit" and "0 \<le> j" and "dir \<noteq> HistoryAfter"
  shows "hp_Messages (historyPage cid limit dir rows) = map f [max 1 (j - limit + 1)..j]"
    and "hp_HasMoreBefore (historyPage cid limit dir rows) = (limit < j)"
proof -
  have len: "length rows = min (nat (limit + 1)) (nat j)" using assms(1) by simp
  then have more: "(limit < int (length rows)) = (limit < j)" using assms(2,3) by auto
  have "(if limit < int (length rows) then take (nat limit) rows else rows) = take (nat limit) (rev (map f [1..j]))"
    using assms(1-3) len by (auto simp: min_def)
  moreover have "rev (take (nat limit) (rev (map f [1..j]))) = map f [max 1 (j - limit + 1)..j]"
    using assms(2,3) by (auto simp: rev_take drop_map drop_upto max_def of_nat_diff add.commute)
  ultimately show "hp_Messages (historyPage cid limit dir rows) = map f [max 1 (j - limit + 1)..j]"
    using assms(4) by (simp add: historyPage_def Let_def reverse_swap_loop)
  show "hp_HasMoreBefore (historyPage cid limit dir rows) = (limit < j)"
    using more assms(4) by (cases dir) (simp_all add: historyPage_def Let_def)
qed

lemma before_filter:
  assumes "chat_inv d" and "is_member d cid uid"
  shows "filter (\<lambda>m. m_ConversationSeq m < seq) (conversation_messages d cid) =
    filter (\<lambda>m. m_ConversationSeq m \<le> min (seq - 1) (stream_end cid d)) (conversation_messages d cid)"
proof (rule filter_cong [OF refl])
  fix m assume "m \<in> set (conversation_messages d cid)"
  then have "m_ConversationSeq m \<in> seqs_of d cid" by (auto simp: seqs_of_def)
  then show "(m_ConversationSeq m < seq) = (m_ConversationSeq m \<le> min (seq - 1) (stream_end cid d))"
    using stream_seqs(1) [OF assms] by auto
qed

lemma latest_filter:
  assumes "chat_inv d" and "is_member d cid uid"
  shows "filter (\<lambda>m. True) (conversation_messages d cid) =
    filter (\<lambda>m. m_ConversationSeq m \<le> stream_end cid d) (conversation_messages d cid)"
proof (rule filter_cong [OF refl])
  fix m assume "m \<in> set (conversation_messages d cid)"
  then have "m_ConversationSeq m \<in> seqs_of d cid" by (auto simp: seqs_of_def)
  then show "True = (m_ConversationSeq m \<le> stream_end cid d)" using stream_seqs(1) [OF assms] by auto
qed

lemma after_filter:
  assumes "chat_inv d" and "is_member d cid uid"
  shows "afterMessageHistoryQuery d cid seq n = selectMessages d cid seq (stream_end cid d) n"
proof -
  have "filter (\<lambda>m. seq < m_ConversationSeq m) (conversation_messages d cid) =
    filter (\<lambda>m. seq < m_ConversationSeq m \<and> m_ConversationSeq m \<le> stream_end cid d) (conversation_messages d cid)"
  proof (rule filter_cong [OF refl])
    fix m assume "m \<in> set (conversation_messages d cid)"
    then have "m_ConversationSeq m \<in> seqs_of d cid" by (auto simp: seqs_of_def)
    then show "(seq < m_ConversationSeq m) = (seq < m_ConversationSeq m \<and> m_ConversationSeq m \<le> stream_end cid d)"
      using stream_seqs(1) [OF assms] by auto
  qed
  then show ?thesis by (simp add: afterMessageHistoryQuery_def selectMessages_def select_limit_def)
qed

lemma historyPage_exact:
  assumes inv: "chat_inv d" and mem: "is_member d cid uid" and limit: "1 \<le> limit"
    and seq: "dir \<noteq> HistoryLatest \<Longrightarrow> 1 \<le> hc_Sequence cursor"
    and lohi: "history_interval dir (hc_Sequence cursor) limit (stream_end cid d) = (lo, hi)"
  shows "hp_Messages (historyPage cid limit dir (historyRows d cid (limit + 1) dir cursor)) = map (message_at cid d) [lo..hi]"
    and "hp_HasMoreBefore (historyPage cid limit dir (historyRows d cid (limit + 1) dir cursor)) = (dir = HistoryAfter \<or> 1 < lo)"
    and "hp_HasMoreAfter (historyPage cid limit dir (historyRows d cid (limit + 1) dir cursor)) =
      (dir = HistoryBefore \<or> dir = HistoryAfter \<and> hi < stream_end cid d)"
proof -
  let ?s = "hc_Sequence cursor" and ?stop = "stream_end cid d" and ?rows = "historyRows d cid (limit + 1) dir cursor"
  note stop = stream_seqs(2) [OF inv mem]
  have "hp_Messages (historyPage cid limit dir ?rows) = map (message_at cid d) [lo..hi]
    \<and> hp_HasMoreBefore (historyPage cid limit dir ?rows) = (dir = HistoryAfter \<or> 1 < lo)
    \<and> hp_HasMoreAfter (historyPage cid limit dir ?rows) = (dir = HistoryBefore \<or> dir = HistoryAfter \<and> hi < ?stop)"
  proof (cases dir)
    case HistoryLatest
    have rows: "?rows = take (nat (limit + 1)) (rev (map (message_at cid d) [1..?stop]))"
      using HistoryLatest stream_sorted [OF inv mem stop order.refl] latest_filter [OF inv mem]
      by (simp add: historyRows_def latestMessageHistoryQuery_def selectDescending_def)
    show ?thesis
      using historyPage_descending [OF rows limit stop, of dir cid] HistoryLatest lohi
      by (auto simp: history_interval_def historyPage_def Let_def)
  next
    case HistoryBefore
    have j: "0 \<le> min (?s - 1) ?stop" "min (?s - 1) ?stop \<le> ?stop" using seq HistoryBefore stop by simp_all
    have rows: "?rows = take (nat (limit + 1)) (rev (map (message_at cid d) [1..min (?s - 1) ?stop]))"
      using HistoryBefore stream_sorted [OF inv mem j] before_filter [OF inv mem]
      by (simp add: historyRows_def beforeMessageHistoryQuery_def selectDescending_def)
    show ?thesis
      using historyPage_descending [OF rows limit j(1), of dir cid] HistoryBefore lohi
      by (auto simp: history_interval_def historyPage_def Let_def)
  next
    case HistoryAfter
    then have s: "0 \<le> ?s" using seq by simp
    have rows: "?rows = map (message_at cid d) [?s + 1..min ?stop (?s + (limit + 1))]"
      using HistoryAfter selectMessages_items [OF inv mem s order.refl, of "limit + 1"] after_filter [OF inv mem] limit
      by (simp add: historyRows_def)
    have more: "(limit < int (length ?rows)) = (?s + limit < ?stop)" using limit unfolding rows by auto
    have "(if limit < int (length ?rows) then take (nat limit) ?rows else ?rows) =
        map (message_at cid d) [?s + 1..min ?stop (?s + limit)]"
      using limit unfolding more unfolding rows by (auto simp: take_map take_upto min_def)
    then show ?thesis
      using more HistoryAfter lohi by (auto simp: history_interval_def historyPage_def Let_def)
  qed
  then show "hp_Messages (historyPage cid limit dir ?rows) = map (message_at cid d) [lo..hi]"
    and "hp_HasMoreBefore (historyPage cid limit dir ?rows) = (dir = HistoryAfter \<or> 1 < lo)"
    and "hp_HasMoreAfter (historyPage cid limit dir ?rows) = (dir = HistoryBefore \<or> dir = HistoryAfter \<and> hi < ?stop)"
    by blast+
qed

lemma decodeMessageHistoryCursor_positive:
  "decodeMessageHistoryCursor unmarshal raw = Some c \<Longrightarrow> 1 \<le> hc_Sequence c"
  by (auto simp: decodeMessageHistoryCursor_def split: if_splits option.splits)

lemma parseHistoryQuery_range:
  assumes "parseHistoryQuery unmarshal query = Inr (peer, limit, direction, cursor)"
  shows "1 \<le> limit" and "direction \<noteq> HistoryLatest \<Longrightarrow> 1 \<le> hc_Sequence cursor"
proof -
  from assms have l: "parseParameter query ''limit'' defaultMessageHistoryLimit (\<lambda>v. v)
      (\<lambda>v. 0 < v \<and> v \<le> maxMessageHistoryLimit) (400, ''INVALID_LIMIT'', ''limit must be between 1 and 200'') = Inr limit"
    and h: "historyDirection unmarshal query = Inr (direction, cursor)"
    by (auto simp: parseHistoryQuery_def split: option.splits sum.splits if_splits)
  show "1 \<le> limit" using l
    by (auto simp: parseParameter_def defaultMessageHistoryLimit_def split: option.splits if_splits)
  show "direction \<noteq> HistoryLatest \<Longrightarrow> 1 \<le> hc_Sequence cursor" using h
    by (auto simp: historyDirection_def decodeMessageHistoryCursor_positive split: option.splits)
qed

text \<open>
  C23: A page of the history is exact in each of the three directions: it holds, in ascending
  order, the last messages of the stream, the last ones before the cursor, or the first ones after
  it, at most the limit and without a gap; the flags say whether messages were left out.
\<close>

theorem history_page_is_exact:
  assumes "chat_inv d" and "others_ok (rd_others env)" and "\<not> rd_fails_first env" and "\<not> rd_fails_second env"
    and "parseHistoryQuery unmarshal query = Inr (peer, limit, direction, cursor)"
    and "app_resolveDirectConversation d uid peer = Some cid"
    and "direction = HistoryLatest \<or> hc_ConversationID cursor = cid"
    and "history_interval direction (hc_Sequence cursor) limit (stream_end cid (rd_others env d)) = (lo, hi)"
  shows "\<exists>p. listMessages unmarshal env uid query d = JSON 200 p \<and> hp_ConversationID p = cid
     \<and> hp_Messages p = map (message_at cid (rd_others env d)) [lo..hi]
     \<and> hp_HasMoreBefore p = (direction = HistoryAfter \<or> 1 < lo)
     \<and> hp_HasMoreAfter p = (direction = HistoryBefore
          \<or> direction = HistoryAfter \<and> hi < stream_end cid (rd_others env d))"
proof -
  let ?e = "rd_others env d"
  have e: "chat_inv ?e" "db_le d ?e" using others_okD [OF assms(2,1)] others_ok_le [OF assms(2,1)] by simp_all
  have "is_member d cid uid"
    using assms(6) by (auto simp: app_resolveDirectConversation_def dest: find_SomeD)
  then have m: "is_member ?e cid uid" using e(2) by (auto simp: is_member_def db_le_def)
  note range = parseHistoryQuery_range [OF assms(5)]
  note page = historyPage_exact [OF e(1) m range(1) range(2) assms(8)]
  have "listMessages unmarshal env uid query d =
      JSON 200 (historyPage cid limit direction (historyRows ?e cid (limit + 1) direction cursor))"
    using assms(3-7) by (auto simp: listMessages_def)
  then show ?thesis using page by (simp add: historyPage_def Let_def)
qed

section \<open>Cursors round trip\<close>

lemma length_format_nat: "n < 10 ^ k \<Longrightarrow> 0 < k \<Longrightarrow> length (format_nat n) \<le> k"
proof (induction n arbitrary: k rule: format_nat.induct)
  case (1 n)
  show ?case
  proof (cases "n < 10")
    case True
    then show ?thesis using 1(3) by (subst format_nat.simps) simp
  next
    case False
    then obtain j where j: "k = Suc j" "0 < j" using 1(2,3) by (cases k; cases "k - 1") auto
    then have "n div 10 < 10 ^ j" using 1(2) by (simp add: less_mult_imp_div_less mult.commute)
    then show ?thesis using "1.IH" [OF False, of j] j False by (subst format_nat.simps) simp
  qed
qed

lemma length_FormatInt: "0 \<le> i \<Longrightarrow> fits_int64 i \<Longrightarrow> length (FormatInt i) \<le> 19"
  using length_format_nat [of "nat i" 19] by (simp add: FormatInt_def fits_int64_iff)

text \<open>
  The cursors of a page round trip. For every stored message, decoding the cursor that was
  encoded from it gives its conversation and its sequence number, provided only that the JSON
  decoder reads what the JSON encoder writes for these three fields; the size limit of the decoder
  never refuses a cursor of the encoder.
\<close>

theorem history_cursor_round_trip:
  assumes "0 < m_ConversationID m" and "fits_int64 (m_ConversationID m)"
    and "0 < m_ConversationSeq m" and "fits_int64 (m_ConversationSeq m)"
    and "unmarshal (marshalCursor \<lparr>hc_Version = 2, hc_ConversationID = m_ConversationID m,
           hc_Sequence = m_ConversationSeq m\<rparr>) =
         Some \<lparr>hc_Version = 2, hc_ConversationID = m_ConversationID m, hc_Sequence = m_ConversationSeq m\<rparr>"
  shows "decodeMessageHistoryCursor unmarshal (encodeMessageHistoryCursor m) =
    Some \<lparr>hc_Version = 2, hc_ConversationID = m_ConversationID m, hc_Sequence = m_ConversationSeq m\<rparr>"
proof -
  let ?c = "\<lparr>hc_Version = 2, hc_ConversationID = m_ConversationID m, hc_Sequence = m_ConversationSeq m\<rparr>"
  have "length (FormatInt 2) \<le> 19" by (rule length_FormatInt) (simp_all add: fits_int64_iff)
  then have len: "length (marshalCursor ?c) \<le> 100"
    using length_FormatInt [of "m_ConversationID m"] length_FormatInt [of "m_ConversationSeq m"] assms(1-4)
    by (simp add: marshalCursor_def)
  have enc: "encodeMessageHistoryCursor m = EncodeToString url_alphabet (marshalCursor ?c)"
    by (simp add: encodeMessageHistoryCursor_def messageHistoryCursorVersion_def)
  have "encodeMessageHistoryCursor m \<noteq> []" "length (encodeMessageHistoryCursor m) \<le> 512"
    using len length_EncodeToString [of url_alphabet "marshalCursor ?c"]
    by (auto simp: enc marshalCursor_def)
  moreover have "DecodeString url_alphabet (encodeMessageHistoryCursor m) = Some (marshalCursor ?c)"
    unfolding enc by (rule url_base64_roundtrip)
  ultimately show ?thesis
    using assms(1,3,5)
    by (simp add: decodeMessageHistoryCursor_def messageHistoryCursorVersion_def maxMessageHistoryCursorSize_def)
qed

section \<open>The properties on the small system\<close>

theorem history_page_is_exact_witness:
  "\<exists>p. listMessages read_cursor calm_read 1 [(''peerId'', [''2''])] hello_db = JSON 200 p
     \<and> hp_Messages p = [hello_message] \<and> \<not> hp_HasMoreBefore p \<and> \<not> hp_HasMoreAfter p"
proof -
  have "parseHistoryQuery read_cursor [(''peerId'', [''2''])] =
      Inr (2, 50, HistoryLatest, \<lparr>hc_Version = 0, hc_ConversationID = 0, hc_Sequence = 0\<rparr>)"
    "app_resolveDirectConversation hello_db 1 2 = Some 1" "message_at 1 hello_db 1 = hello_message"
    "history_interval HistoryLatest 0 50 (stream_end 1 hello_db) = (1, 1)" "[1..1::int] = [1]"
    by code_simp+
  then show ?thesis
    using history_page_is_exact [of hello_db calm_read read_cursor "[(''peerId'', [''2''])]" 2 50 HistoryLatest
        "\<lparr>hc_Version = 0, hc_ConversationID = 0, hc_Sequence = 0\<rparr>" 1 1 1 1] chat_inv_hello_db
    by (auto simp: calm_read_def)
qed

theorem history_cursor_round_trip_witness:
  "decodeMessageHistoryCursor read_cursor (encodeMessageHistoryCursor hello_message) =
     Some \<lparr>hc_Version = 2, hc_ConversationID = 1, hc_Sequence = 1\<rparr>"
proof -
  have "read_cursor (marshalCursor \<lparr>hc_Version = 2, hc_ConversationID = 1, hc_Sequence = 1\<rparr>) =
      Some \<lparr>hc_Version = 2, hc_ConversationID = 1, hc_Sequence = 1\<rparr>"
    by code_simp
  then show ?thesis
    using history_cursor_round_trip [of hello_message read_cursor] by (simp add: hello_message_def fits_int64_iff)
qed

end
