(* ===== verification/RateLimit.thy ===== *)
theory RateLimit
  imports GoStrings
begin

text \<open>
  The limiter of the authentication endpoints: \<^verbatim>\<open>rate_limit.go\<close>. The Redis script runs atomically
  at one clock reading, so it is a function on the counters; a counter is a value with the time
  at which it expires. The hash of a dimension value, the parsing of addresses and the networks
  of the trusted proxies are parameters.

  The locale \<open>admission\<close> is the contract the handlers rely on, \<open>Allow\<close> of the interface
  \<open>authRateLimiter\<close>; it is interpreted on the script.
\<close>

section \<open>Counters\<close>

text \<open>Times and windows of the script are milliseconds.\<close>

type_synonym counters = "string \<rightharpoonup> int \<times> int option"

record rateLimitRule =
  rl_key :: string
  rl_limit :: int
  rl_window :: duration

definition live :: "int \<Rightarrow> int \<times> int option \<Rightarrow> bool" where
  "live now v = (case snd v of None \<Rightarrow> True | Some e \<Rightarrow> now < e)"

definition redis_GET :: "counters \<Rightarrow> int \<Rightarrow> string \<Rightarrow> int option" where
  "redis_GET db now key = (case db key of None \<Rightarrow> None | Some v \<Rightarrow> if live now v then Some (fst v) else None)"

definition redis_PTTL :: "counters \<Rightarrow> int \<Rightarrow> string \<Rightarrow> int" where
  "redis_PTTL db now key =
     (case db key of
        None \<Rightarrow> -2
      | Some v \<Rightarrow> if \<not> live now v then -2 else (case snd v of None \<Rightarrow> -1 | Some e \<Rightarrow> e - now))"

definition redis_INCR :: "counters \<Rightarrow> int \<Rightarrow> string \<Rightarrow> int \<times> counters" where
  "redis_INCR db now key =
     (case db key of
        Some v \<Rightarrow> if live now v then (fst v + 1, db(key \<mapsto> (fst v + 1, snd v))) else (1, db(key \<mapsto> (1, None)))
      | None \<Rightarrow> (1, db(key \<mapsto> (1, None))))"

definition redis_PEXPIRE :: "counters \<Rightarrow> int \<Rightarrow> string \<Rightarrow> int \<Rightarrow> counters" where
  "redis_PEXPIRE db now key ms =
     (case db key of None \<Rightarrow> db | Some v \<Rightarrow> if live now v then db(key \<mapsto> (fst v, Some (now + ms))) else db)"

section \<open>The script\<close>

fun checkWindows :: "counters \<Rightarrow> int \<Rightarrow> (string \<times> int \<times> int) list \<Rightarrow> bool \<Rightarrow> int \<Rightarrow> bool \<times> int" where
  "checkWindows db now [] allowed retry = (allowed, retry)"
| "checkWindows db now ((key, window, limit) # args) allowed retry =
     (let count = (case redis_GET db now key of None \<Rightarrow> 0 | Some c \<Rightarrow> c)
      in if limit \<le> count
         then checkWindows db now args False (max retry (redis_PTTL db now key))
         else checkWindows db now args allowed retry)"

fun chargeWindows :: "counters \<Rightarrow> int \<Rightarrow> (string \<times> int \<times> int) list \<Rightarrow> counters" where
  "chargeWindows db now [] = db"
| "chargeWindows db now ((key, window, limit) # args) =
     (let (count, db1) = redis_INCR db now key;
          db2 = (if count = 1 then redis_PEXPIRE db1 now key window else db1)
      in chargeWindows db2 now args)"

definition incrementWindows :: "counters \<Rightarrow> int \<Rightarrow> (string \<times> int \<times> int) list \<Rightarrow> (int \<times> int) \<times> counters" where
  "incrementWindows db now args =
     (case checkWindows db now args True 0 of
        (False, retry) \<Rightarrow> ((0, retry), db)
      | (True, retry) \<Rightarrow> ((1, 0), chargeWindows db now args))"

definition ruleArgs :: "rateLimitRule list \<Rightarrow> (string \<times> int \<times> int) list" where
  "ruleArgs rules = map (\<lambda>r. (rl_key r, go_div (rl_window r) 1000000, rl_limit r)) rules"

text \<open>\<open>None\<close>: the call to Redis failed. The duration is in nanoseconds.\<close>

definition Allow :: "bool \<Rightarrow> counters \<Rightarrow> int \<Rightarrow> rateLimitRule list \<Rightarrow> (bool \<times> duration) option \<times> counters" where
  "Allow fails db now rules =
     (if rules = [] then (Some (True, 0), db)
      else if fails then (None, db)
      else case incrementWindows db now (ruleArgs rules) of
        ((allowed, retry), db') \<Rightarrow> (Some (allowed = 1, retry * 1000000), db'))"

section \<open>The rules of a request\<close>

definition Minute :: duration where "Minute = 60000000000"
definition Hour :: duration where "Hour = 3600000000000"

definition dimensionKey :: "(string \<Rightarrow> byte_string) \<Rightarrow> string \<Rightarrow> string \<Rightarrow> string \<Rightarrow> string" where
  "dimensionKey sha256 endpoint dimension val =
     ''auth:rl:'' @ endpoint @ '':'' @ dimension @ '':'' @ hex_EncodeToString (sha256 val)"

definition rulesForAuthRequest ::
  "(string \<Rightarrow> byte_string) \<Rightarrow> string \<Rightarrow> string \<Rightarrow> string \<Rightarrow> string \<Rightarrow> rateLimitRule list" where
  "rulesForAuthRequest sha256 endpoint clientIP account device =
     (let global = (\<lambda>limit. \<lparr>rl_key = ''auth:rl:global:'' @ endpoint, rl_limit = limit, rl_window = Minute\<rparr>);
          dim = (\<lambda>d v limit window. \<lparr>rl_key = dimensionKey sha256 endpoint d v, rl_limit = limit, rl_window = window\<rparr>);
          rules = (if endpoint = ''register'' then [global 200, dim ''ip'' clientIP 10 Hour]
                   else if endpoint = ''login''
                   then [global 1000, dim ''ip'' clientIP 30 Minute]
                        @ (if account \<noteq> [] then [dim ''account'' account 10 (5 * Minute)] else [])
                   else if endpoint = ''refresh'' then [global 2000, dim ''ip'' clientIP 120 Minute]
                   else [global 1000])
      in rules @ (if device \<noteq> [] then [dim ''device'' device 30 Minute] else []))"

section \<open>The address of the client\<close>

text \<open>
  \<open>splitHostPort\<close>, \<open>parseIP\<close> and \<open>showIP\<close> are \<open>net.SplitHostPort\<close> (\<open>None\<close> on error), \<open>net.ParseIP\<close>
  and \<open>IP.String\<close>; \<open>contains\<close> is \<open>IPNet.Contains\<close>.
\<close>

definition ipInNetworks :: "('net \<Rightarrow> 'ip \<Rightarrow> bool) \<Rightarrow> 'ip \<Rightarrow> 'net list \<Rightarrow> bool" where
  "ipInNetworks contains ip networks = list_ex (\<lambda>n. contains n ip) networks"

fun walkForwarded :: "(string \<Rightarrow> 'ip option) \<Rightarrow> ('ip \<Rightarrow> bool) \<Rightarrow> string list \<Rightarrow> 'ip \<Rightarrow> 'ip option" where
  "walkForwarded parseIP trusted [] clientIP = Some clientIP"
| "walkForwarded parseIP trusted (entry # entries) clientIP =
     (case parseIP (TrimSpace entry) of
        None \<Rightarrow> None
      | Some address \<Rightarrow> if \<not> trusted address then Some address
                         else walkForwarded parseIP trusted entries address)"

definition clientIP ::
  "(string \<Rightarrow> string option) \<Rightarrow> (string \<Rightarrow> 'ip option) \<Rightarrow> ('ip \<Rightarrow> string) \<Rightarrow> ('net \<Rightarrow> 'ip \<Rightarrow> bool) \<Rightarrow> 'net list \<Rightarrow>
   string \<Rightarrow> string list \<Rightarrow> string" where
  "clientIP splitHostPort parseIP showIP contains networks remoteAddr forwardedValues =
     (let host = (case splitHostPort remoteAddr of None \<Rightarrow> remoteAddr | Some h \<Rightarrow> h);
          trusted = (\<lambda>ip. ipInNetworks contains ip networks)
      in case parseIP host of
           None \<Rightarrow> host
         | Some peerIP \<Rightarrow>
             if \<not> trusted peerIP then host
             else case walkForwarded parseIP trusted (rev (split_at CHR '','' (join_with '','' forwardedValues))) peerIP of
                    None \<Rightarrow> host
                  | Some ip \<Rightarrow> showIP ip)"

definition parseTrustedProxyNetworks :: "(string \<Rightarrow> 'net option) \<Rightarrow> string \<Rightarrow> 'net list option" where
  "parseTrustedProxyNetworks parseCIDR val =
     (if TrimSpace val = [] then Some []
      else sequence_option (map (\<lambda>part. parseCIDR (TrimSpace part)) (split_at CHR '','' val)))"

section \<open>Enforcement\<close>

text \<open>The request goes on, or it is answered, with the value of the Retry-After header.\<close>

datatype admission_result = Proceed | Rejected api_error "int option"

definition retryAfterSeconds :: "duration \<Rightarrow> int" where
  "retryAfterSeconds retryAfter =
     (let seconds = go_div (retryAfter + 1000000000 - 1) 1000000000 in if seconds < 1 then 1 else seconds)"

definition enforceAuthRateLimit :: "bool \<Rightarrow> bool \<Rightarrow> (bool \<times> duration) option \<Rightarrow> admission_result" where
  "enforceAuthRateLimit has_limiter failOpen answer =
     (if \<not> has_limiter then Proceed
      else case answer of
        None \<Rightarrow> if failOpen then Proceed
               else Rejected (503, ''AUTH_RATE_LIMIT_UNAVAILABLE'', ''authentication rate limiter is temporarily unavailable'') None
      | Some (allowed, retryAfter) \<Rightarrow>
          if allowed then Proceed
          else Rejected (429, ''AUTH_RATE_LIMITED'', ''too many authentication attempts'') (Some (retryAfterSeconds retryAfter)))"

text \<open>A sequence of calls, each at its time with its arguments; the log of what was admitted.\<close>

fun runCalls :: "(int \<times> (string \<times> int \<times> int) list) list \<Rightarrow> counters \<Rightarrow> (int \<times> string list) list \<Rightarrow>
  counters \<times> (int \<times> string list) list" where
  "runCalls [] db admitted = (db, admitted)"
| "runCalls ((now, args) # calls) db admitted =
     (case incrementWindows db now args of
        ((allowed, retry), db') \<Rightarrow>
          runCalls calls db' (if allowed = 1 then admitted @ [(now, map fst args)] else admitted))"

text \<open>The admissions of a key within its current window.\<close>

definition admissions :: "(int \<times> string list) list \<Rightarrow> string \<Rightarrow> int \<Rightarrow> (int \<times> string list) list" where
  "admissions log key start = filter (\<lambda>(t, keys). key \<in> set keys \<and> start \<le> t) log"

text \<open>Every counter counts the admissions of its window, within the limit of its key.\<close>

definition key_window :: "(string \<Rightarrow> int) \<Rightarrow> (string \<Rightarrow> int) \<Rightarrow> string \<Rightarrow> (int \<times> int option) option \<Rightarrow> (int \<times> string list) list \<Rightarrow> bool" where
  "key_window lim win key entry log \<longleftrightarrow>
     (case entry of
        None \<Rightarrow> \<forall>(t, keys) \<in> set log. key \<notin> set keys
      | Some (c, None) \<Rightarrow> False
      | Some (c, Some e) \<Rightarrow> c = int (length (admissions log key (e - win key))) \<and> 1 \<le> c \<and> c \<le> lim key
          \<and> (\<forall>(t, keys) \<in> set log. key \<in> set keys \<longrightarrow> t < e))"

definition window_inv :: "(string \<Rightarrow> int) \<Rightarrow> (string \<Rightarrow> int) \<Rightarrow> int \<Rightarrow> counters \<Rightarrow> (int \<times> string list) list \<Rightarrow> bool" where
  "window_inv lim win now db log \<longleftrightarrow>
     (\<forall>key. key_window lim win key (db key) log) \<and> (\<forall>(t, keys) \<in> set log. t \<le> now)"

text \<open>The arguments of a call name each key once, with the limit and window of the key.\<close>

definition args_ok :: "(string \<Rightarrow> int) \<Rightarrow> (string \<Rightarrow> int) \<Rightarrow> (string \<times> int \<times> int) list \<Rightarrow> bool" where
  "args_ok lim win args \<longleftrightarrow> distinct (map fst args)
     \<and> list_all (\<lambda>(key, window, limit). window = win key \<and> limit = lim key \<and> 0 < window) args"

text \<open>The script as a client of the limiter sees it.\<close>

definition key_count :: "counters \<Rightarrow> int \<Rightarrow> string \<Rightarrow> int" where
  "key_count db now key = (case redis_GET db now key of None \<Rightarrow> 0 | Some c \<Rightarrow> c)"

definition script_allow :: "counters \<Rightarrow> int \<Rightarrow> (string \<times> int \<times> int) list \<Rightarrow> bool \<times> counters" where
  "script_allow db now args = (fst (fst (incrementWindows db now args)) = 1, snd (incrementWindows db now args))"

definition charged :: "int \<Rightarrow> int \<Rightarrow> (int \<times> int option) option \<Rightarrow> int \<times> int option" where
  "charged now window v =
     (case v of
        None \<Rightarrow> (1, Some (now + window))
      | Some x \<Rightarrow> if live now x \<and> fst x \<noteq> 0 then (fst x + 1, snd x) else (1, Some (now + window)))"

text \<open>A call with one key: window 1000 ms, limit 2.\<close>

definition one_key :: "(string \<times> int \<times> int) list" where "one_key = [(''k'', 1000, 2)]"

section \<open>The contract of a limiter\<close>

locale admission =
  fixes allow :: "'s \<Rightarrow> int \<Rightarrow> (string \<times> int \<times> int) list \<Rightarrow> bool \<times> 's"
    and used :: "'s \<Rightarrow> int \<Rightarrow> string \<Rightarrow> int"
  assumes admitted_iff: "fst (allow s now args) \<longleftrightarrow> (\<forall>(key, window, limit) \<in> set args. used s now key < limit)"
    and denied_same: "\<not> fst (allow s now args) \<Longrightarrow> snd (allow s now args) = s"
    and charged_once: "fst (allow s now args) \<Longrightarrow> distinct (map fst args) \<Longrightarrow>
      \<forall>(key, window, limit) \<in> set args. 0 < window \<Longrightarrow>
      used (snd (allow s now args)) now key = used s now key + (if key \<in> fst ` set args then 1 else 0)"
begin

lemma exhausted_blocks:
  assumes "(key, window, limit) \<in> set args" and "limit \<le> used s now key"
  shows "\<not> fst (allow s now args)" and "snd (allow s now args) = s"
proof -
  show "\<not> fst (allow s now args)" using assms admitted_iff by fastforce
  then show "snd (allow s now args) = s" by (rule denied_same)
qed

lemma within_limit:
  assumes "fst (allow s now args)" and "distinct (map fst args)" and "\<forall>(key, window, limit) \<in> set args. 0 < window"
    and "(key, window, limit) \<in> set args"
  shows "used (snd (allow s now args)) now key \<le> limit"
proof -
  have "used s now key < limit" using assms(1,4) admitted_iff by fastforce
  moreover have "key \<in> fst ` set args" using assms(4) by force
  ultimately show ?thesis using charged_once [OF assms(1-3), of key] by simp
qed

end

section \<open>The script implements it\<close>

lemma checkWindows_eq:
  "fst (checkWindows db now args allowed retry) = (allowed \<and> (\<forall>(key, window, limit) \<in> set args. key_count db now key < limit))"
  by (induction db now args allowed retry rule: checkWindows.induct) (auto simp: Let_def key_count_def)

lemma incrementWindows_fst:
  "fst (fst (incrementWindows db now args)) = 1 \<longleftrightarrow> (\<forall>(key, window, limit) \<in> set args. key_count db now key < limit)"
  using checkWindows_eq [of db now args True 0]
  by (auto simp: incrementWindows_def split: prod.splits bool.splits)

lemma incrementWindows_snd:
  "snd (incrementWindows db now args) =
     (if \<forall>(key, window, limit) \<in> set args. key_count db now key < limit then chargeWindows db now args else db)"
  using checkWindows_eq [of db now args True 0]
  by (auto simp: incrementWindows_def split: prod.splits bool.splits)

lemma charge_one:
  "(let (c, db1) = redis_INCR db now key in if c = 1 then redis_PEXPIRE db1 now key window else db1) =
     db(key \<mapsto> charged now window (db key))"
  by (auto simp: redis_INCR_def redis_PEXPIRE_def charged_def live_def fun_eq_iff split: option.splits)

lemma chargeWindows_Cons:
  "chargeWindows db now ((key, window, limit) # args) = chargeWindows (db(key \<mapsto> charged now window (db key))) now args"
  using charge_one [of db now key window] by (cases "redis_INCR db now key") auto

lemma chargeWindows_other: "key \<notin> fst ` set args \<Longrightarrow> chargeWindows db now args key = db key"
proof (induction args arbitrary: db)
  case (Cons a args)
  obtain k w l where "a = (k, w, l)" by (cases a)
  with Cons show ?case by (simp add: chargeWindows_Cons del: chargeWindows.simps)
qed simp

lemma chargeWindows_key:
  "distinct (map fst args) \<Longrightarrow> (key, window, limit) \<in> set args \<Longrightarrow>
   chargeWindows db now args key = Some (charged now window (db key))"
proof (induction args arbitrary: db)
  case (Cons a args)
  obtain k w l where a: "a = (k, w, l)" by (cases a)
  show ?case
  proof (cases "k = key")
    case True
    then have "(key, window, limit) \<notin> set args" "key \<notin> fst ` set args" using Cons.prems a by force+
    then show ?thesis
      using Cons.prems(2) a True by (auto simp: chargeWindows_Cons chargeWindows_other simp del: chargeWindows.simps)
  next
    case False
    then show ?thesis using Cons a by (auto simp: chargeWindows_Cons simp del: chargeWindows.simps)
  qed
qed simp

lemma key_count_charged:
  assumes "0 < window"
  shows "key_count (db(key \<mapsto> charged now window (db key))) now key = key_count db now key + 1"
  using assms by (auto simp: key_count_def redis_GET_def charged_def live_def split: option.splits)

interpretation redis: admission script_allow key_count
proof (unfold_locales, goal_cases)
  case (1 s now args)
  then show ?case by (simp add: script_allow_def incrementWindows_fst)
next
  case (2 s now args)
  then show ?case by (auto simp: script_allow_def incrementWindows_fst incrementWindows_snd)
next
  case (3 s now args key)
  then have charge: "snd (script_allow s now args) = chargeWindows s now args"
    by (simp add: script_allow_def incrementWindows_fst incrementWindows_snd)
  show ?case
  proof (cases "key \<in> fst ` set args")
    case True
    then obtain w l where m: "(key, w, l) \<in> set args" by auto
    then have w: "0 < w" using 3(3) by fastforce
    have "key_count (chargeWindows s now args) now key = key_count (s(key \<mapsto> charged now w (s key))) now key"
      using chargeWindows_key [OF 3(2) m] by (simp add: key_count_def redis_GET_def)
    then show ?thesis using True charge key_count_charged [OF w] by simp
  next
    case False
    then have "key_count (chargeWindows s now args) now key = key_count s now key"
      by (simp add: key_count_def redis_GET_def chargeWindows_other)
    then show ?thesis using False charge by simp
  qed
qed

text \<open>
  Admission is all or nothing. A request is admitted exactly when every one of its dimensions
  is below its limit; then each is charged once and none exceeds its limit. If any dimension is
  exhausted the request is refused and no counter at all changes, so a refused request cannot use
  up the quota of others.
\<close>

theorem admission_is_all_or_nothing:
  assumes "distinct (map fst args)" and "\<forall>(key, window, limit) \<in> set args. 0 < window"
    and "incrementWindows db now args = ((allowed, retry), db')"
  shows "(allowed = 1 \<longleftrightarrow> (\<forall>(key, window, limit) \<in> set args. key_count db now key < limit))
     \<and> (allowed \<noteq> 1 \<longrightarrow> db' = db)
     \<and> (allowed = 1 \<longrightarrow> (\<forall>key. key_count db' now key = key_count db now key + (if key \<in> fst ` set args then 1 else 0))
          \<and> (\<forall>(key, window, limit) \<in> set args. key_count db' now key \<le> limit))"
proof -
  have run: "script_allow db now args = (allowed = 1, db')" using assms(3) by (simp add: script_allow_def)
  have "key_count db' now key \<le> limit" if "allowed = 1" "(key, window, limit) \<in> set args" for key window limit
    using redis.within_limit [of db now args key window limit] run that assms(1,2) by simp
  moreover have "key_count db' now key = key_count db now key + (if key \<in> fst ` set args then 1 else 0)" if "allowed = 1" for key
    using redis.charged_once [of db now args key] run that assms(1,2) by simp
  moreover have "allowed = 1 \<longleftrightarrow> (\<forall>(key, window, limit) \<in> set args. key_count db now key < limit)"
    using redis.admitted_iff [of db now args] run by simp
  moreover have "db' = db" if "allowed \<noteq> 1" using redis.denied_same [of db now args] run that by simp
  ultimately show ?thesis by auto
qed

section \<open>Windows\<close>

lemma window_inv_Some:
  assumes "window_inv lim win now db log" and "db key = Some (c, x)"
  shows "\<exists>e. x = Some e \<and> c = int (length (admissions log key (e - win key))) \<and> 1 \<le> c \<and> c \<le> lim key
    \<and> (\<forall>t keys. (t, keys) \<in> set log \<longrightarrow> key \<in> set keys \<longrightarrow> t < e) \<and> e - win key \<le> now"
proof -
  have w: "key_window lim win key (Some (c, x)) log" and past: "\<forall>(t, keys) \<in> set log. t \<le> now"
    using assms unfolding window_inv_def by (metis, blast)
  from w obtain e where e: "x = Some e" "c = int (length (admissions log key (e - win key)))" "1 \<le> c" "c \<le> lim key"
      "\<forall>(t, keys) \<in> set log. key \<in> set keys \<longrightarrow> t < e"
    by (cases x) (auto simp: key_window_def)
  then have "admissions log key (e - win key) \<noteq> []" by auto
  then obtain t keys where "(t, keys) \<in> set (admissions log key (e - win key))"
    by (metis list.set_intros(1) neq_Nil_conv surj_pair)
  then have "e - win key \<le> now" using past by (fastforce simp: admissions_def)
  then show ?thesis using e by blast
qed

lemma window_inv_None: "window_inv lim win now db log \<Longrightarrow> db key = None \<Longrightarrow> (t, keys) \<in> set log \<Longrightarrow> key \<notin> set keys"
  unfolding window_inv_def key_window_def by (auto dest!: spec [of _ key])

lemma admissions_snoc:
  "admissions (log @ [(now, keys)]) key start = admissions log key start @ (if key \<in> set keys \<and> start \<le> now then [(now, keys)] else [])"
  by (simp add: admissions_def)

text \<open>One key: a call that does not name it leaves its window, one that names it opens a window or adds to it.\<close>

lemma window_unnamed:
  assumes "key_window lim win key entry log" and "key \<notin> set keys"
  shows "key_window lim win key entry (log @ [(now, keys)])"
  using assms by (auto simp: key_window_def admissions_snoc split: option.splits)

lemma window_opened:
  assumes "key \<in> set keys" and "0 < win key" and "1 \<le> lim key"
    and old: "\<And>t keys. (t, keys) \<in> set log \<Longrightarrow> key \<in> set keys \<Longrightarrow> t < now"
  shows "key_window lim win key (Some (1, Some (now + win key))) (log @ [(now, keys)])"
proof -
  have "admissions log key now = []" using old by (fastforce simp: admissions_def filter_empty_conv)
  then show ?thesis using assms by (fastforce simp: key_window_def admissions_snoc)
qed

lemma window_named:
  assumes inv: "window_inv lim win t0 db log" and "t0 \<le> now" and key: "key \<in> set keys" and pos: "0 < win key"
    and below: "key_count db now key < lim key"
  shows "key_window lim win key (Some (charged now (win key) (db key))) (log @ [(now, keys)])"
proof (cases "db key")
  case None
  then have "1 \<le> lim key" using below by (simp add: key_count_def redis_GET_def)
  then show ?thesis
    using window_opened [where key = key and now = now and win = win and lim = lim and log = log, OF key pos] window_inv_None [OF inv None] None by (simp add: charged_def)
next
  case (Some v)
  obtain c x where v: "v = (c, x)" by (cases v)
  obtain e where e: "x = Some e" "c = int (length (admissions log key (e - win key)))" "1 \<le> c" "c \<le> lim key"
      "\<forall>t keys. (t, keys) \<in> set log \<longrightarrow> key \<in> set keys \<longrightarrow> t < e" "e - win key \<le> t0"
    using window_inv_Some [OF inv Some [unfolded v]] by blast
  show ?thesis
  proof (cases "now < e")
    case True
    then have "c < lim key" using below Some v e(1) by (simp add: key_count_def redis_GET_def live_def)
    moreover have "charged now (win key) (db key) = (c + 1, Some e)"
      using Some v e(1,3) True by (simp add: charged_def live_def)
    ultimately show ?thesis using e True key assms(2) by (auto simp: key_window_def admissions_snoc)
  next
    case False
    then have "charged now (win key) (db key) = (1, Some (now + win key))" using Some v e(1) by (simp add: charged_def live_def)
    moreover have "t < now" if "(t, ks) \<in> set log" "key \<in> set ks" for t ks using e(5) that False by fastforce
    ultimately show ?thesis using window_opened [where key = key and now = now and win = win and lim = lim and log = log, OF key pos] e(3,4) by simp
  qed
qed

lemma window_step:
  assumes inv: "window_inv lim win t0 db log" and "t0 \<le> now" and ok: "args_ok lim win args"
    and adm: "\<forall>(key, window, limit) \<in> set args. key_count db now key < limit"
  shows "window_inv lim win now (chargeWindows db now args) (log @ [(now, map fst args)])"
proof -
  have "key_window lim win key (chargeWindows db now args key) (log @ [(now, map fst args)])" for key
  proof (cases "key \<in> set (map fst args)")
    case False
    moreover have "key_window lim win key (db key) log" using inv by (simp add: window_inv_def)
    moreover have "chargeWindows db now args key = db key" using False by (intro chargeWindows_other) simp
    ultimately show ?thesis using window_unnamed by metis
  next
    case True
    then obtain w l where m: "(key, w, l) \<in> set args" by auto
    then have wl: "w = win key" "l = lim key" "0 < w" using ok by (auto simp: args_ok_def list_all_iff)
    then have "key_count db now key < lim key" using adm m by fastforce
    then show ?thesis
      using window_named [OF inv assms(2) True] chargeWindows_key [OF _ m] ok wl by (simp add: args_ok_def)
  qed
  then show ?thesis using inv assms(2) by (auto simp: window_inv_def)
qed

lemma window_inv_later:
  "window_inv lim win t0 db log \<Longrightarrow> t0 \<le> now \<Longrightarrow> window_inv lim win now db log"
  unfolding window_inv_def by fastforce

lemma runCalls_inv:
  assumes "window_inv lim win t0 db log" and "sorted (t0 # map fst calls)" and "\<forall>(now, args) \<in> set calls. args_ok lim win args"
    and "runCalls calls db log = (db', log')"
  shows "\<exists>t. window_inv lim win t db' log'"
  using assms
proof (induction calls arbitrary: t0 db log)
  case Nil
  then show ?case by auto
next
  case (Cons call calls)
  obtain now args where call: "call = (now, args)" by (cases call)
  obtain a r db1 where inc: "incrementWindows db now args = ((a, r), db1)" by (metis surj_pair)
  have now: "t0 \<le> now" "sorted (now # map fst calls)" using Cons.prems(2) call by auto
  have ok: "args_ok lim win args" using Cons.prems(3) call by auto
  have "window_inv lim win now db1 (if a = 1 then log @ [(now, map fst args)] else log)"
    using window_step [OF Cons.prems(1) now(1) ok] window_inv_later [OF Cons.prems(1) now(1)]
      incrementWindows_fst [of db now args] incrementWindows_snd [of db now args] inc
    by auto
  then show ?case
    using Cons.IH [OF _ now(2)] Cons.prems(3,4) call inc by auto
qed

text \<open>
  C31: No window admits more than its limit. After any sequence of calls at non-decreasing times,
  from empty counters, every counter is at least one, at most the limit of its key, and is exactly
  the number of requests that were admitted for its key since its window began.
\<close>

theorem windows_never_over_admit:
  assumes "sorted (map fst calls)" and "\<forall>(now, args) \<in> set calls. args_ok lim win args"
    and "runCalls calls Map.empty [] = (db, log)" and "db key = Some (c, x)"
  shows "\<exists>e. x = Some e \<and> c = int (length (admissions log key (e - win key))) \<and> 1 \<le> c \<and> c \<le> lim key"
proof -
  define t0 where "t0 = (case calls of [] \<Rightarrow> 0 | call # _ \<Rightarrow> fst call)"
  have "sorted (t0 # map fst calls)" using assms(1) by (cases calls) (auto simp: t0_def)
  moreover have "window_inv lim win t0 Map.empty []" by (simp add: window_inv_def key_window_def)
  ultimately obtain t where "window_inv lim win t db log" using runCalls_inv assms(2,3) by blast
  from window_inv_Some [OF this assms(4)] show ?thesis by blast
qed

section \<open>Rules and addresses\<close>

text \<open>
  The rules of an authentication request fit the script: for each of the three endpoints every
  key occurs once, whatever the hash function, the client, the account and the device are, all
  limits and windows are positive, and the request is charged to the endpoint as a whole and to
  the address of its client.
\<close>

theorem auth_rules_are_well_formed:
  assumes "endpoint \<in> {''register'', ''login'', ''refresh''}" and "rules = rulesForAuthRequest sha256 endpoint ip account device"
  shows "distinct (map fst (ruleArgs rules)) \<and> (\<forall>(key, window, limit) \<in> set (ruleArgs rules). 0 < window \<and> 0 < limit)
     \<and> ''auth:rl:global:'' @ endpoint \<in> rl_key ` set rules \<and> dimensionKey sha256 endpoint ''ip'' ip \<in> rl_key ` set rules"
proof -
  have w: "go_div Minute 1000000 = 60000" "go_div Hour 1000000 = 3600000" "go_div (5 * Minute) 1000000 = 300000"
    by (simp_all add: go_div_nonneg Minute_def Hour_def)
  show ?thesis
    using assms(1) unfolding assms(2)
    by (auto simp: rulesForAuthRequest_def ruleArgs_def dimensionKey_def Let_def w)
qed

lemma walkForwarded_prefix:
  assumes "\<forall>p \<in> set post. \<exists>a. parseIP (TrimSpace p) = Some a \<and> trusted a"
    and "parseIP (TrimSpace x) = Some ip" and "\<not> trusted ip"
  shows "walkForwarded parseIP trusted (post @ x # pre) peer = Some ip"
  using assms by (induction post arbitrary: peer) auto

text \<open>
  A client cannot choose the address it is limited by. When a request arrives from a trusted
  proxy, the address is the rightmost forwarded entry that is not a trusted proxy; whatever the
  client itself wrote to the left of it has no influence.
\<close>

theorem forwarded_prefix_is_ignored:
  assumes "splitHostPort remoteAddr = Some host" and "parseIP host = Some peer" and "ipInNetworks contains peer networks"
    and "split_at CHR '','' (join_with '','' values) = pre @ [x] @ post"
    and "\<forall>p \<in> set post. \<exists>a. parseIP (TrimSpace p) = Some a \<and> ipInNetworks contains a networks"
    and "parseIP (TrimSpace x) = Some ip" and "\<not> ipInNetworks contains ip networks"
  shows "clientIP splitHostPort parseIP showIP contains networks remoteAddr values = showIP ip"
proof -
  have "rev (split_at CHR '','' (join_with '','' values)) = rev post @ x # rev pre" using assms(4) by simp
  moreover have "walkForwarded parseIP (\<lambda>ip. ipInNetworks contains ip networks) (rev post @ x # rev pre) peer = Some ip"
    by (rule walkForwarded_prefix) (use assms(5-7) in auto)
  ultimately show ?thesis using assms(1-3) by (simp add: clientIP_def)
qed

section \<open>The properties on small inputs\<close>

theorem admission_is_all_or_nothing_witness:
  "\<exists>db'. incrementWindows Map.empty 5 one_key = ((1, 0), db') \<and> key_count db' 5 ''k'' = 1"
proof -
  have run: "incrementWindows Map.empty 5 one_key = ((1, 0), [''k'' \<mapsto> (1, Some 1005)])"
    by (simp add: incrementWindows_def one_key_def redis_GET_def redis_INCR_def redis_PEXPIRE_def live_def)
  have "key_count Map.empty 5 ''k'' = 0" by (simp add: key_count_def redis_GET_def)
  then show ?thesis
    using admission_is_all_or_nothing [OF _ _ run] run by (simp add: one_key_def)
qed

theorem windows_never_over_admit_witness:
  "runCalls [(5, one_key), (6, one_key), (7, one_key)] Map.empty [] = ([''k'' \<mapsto> (2, Some 1005)], [(5, [''k'']), (6, [''k''])])
   \<and> length (admissions [(5, [''k'']), (6, [''k''])] ''k'' (1005 - 1000)) \<le> 2"
proof -
  have run: "runCalls [(5, one_key), (6, one_key), (7, one_key)] Map.empty [] = ([''k'' \<mapsto> (2, Some 1005)], [(5, [''k'']), (6, [''k''])])"
    by (simp add: incrementWindows_def one_key_def redis_GET_def redis_INCR_def redis_PEXPIRE_def redis_PTTL_def live_def)
  have "args_ok (\<lambda>_. 2) (\<lambda>_. 1000) one_key" by (simp add: args_ok_def one_key_def)
  then show ?thesis
    using windows_never_over_admit [OF _ _ run, of "\<lambda>_. 2" "\<lambda>_. 1000" "''k''" 2 "Some 1005"] run by simp
qed

theorem auth_rules_witness:
  "distinct (map fst (ruleArgs (rulesForAuthRequest (\<lambda>v. v) ''login'' ''1.2.3.4'' ''bob'' ''phone'')))"
  using auth_rules_are_well_formed [of "''login''" _ "\<lambda>v. v" "''1.2.3.4''" "''bob''" "''phone''"] by simp

theorem forwarded_prefix_witness:
  "clientIP (\<lambda>a. Some a) (\<lambda>h. if h = [] then None else Some h) (\<lambda>ip. ip) (=) [''10.0.0.1''] ''10.0.0.1'' [''6.6.6.6, 7.7.7.7''] = ''7.7.7.7''"
proof -
  have a: "split_at CHR '','' (join_with '','' [''6.6.6.6, 7.7.7.7'']) = [''6.6.6.6''] @ ['' 7.7.7.7''] @ []"
    by code_simp
  have "TrimSpace '' 7.7.7.7'' = TrimSpace ''7.7.7.7''" by (rule TrimSpace_space) (simp add: ascii_space_def)
  also have "\<dots> = ''7.7.7.7''" by (rule TrimSpace_narrow) (simp_all add: narrow_def ascii_space_def)
  finally have b: "TrimSpace '' 7.7.7.7'' = ''7.7.7.7''" .
  show ?thesis
    by (rule forwarded_prefix_is_ignored [where host = "''10.0.0.1''" and peer = "''10.0.0.1''" and ip = "''7.7.7.7''", OF _ _ _ a]) (simp_all add: b ipInNetworks_def)
qed

end
