(* ===== verification/AuthCrypto.thy ===== *)
theory AuthCrypto
  imports GoStrings
begin

text \<open>
  Keys, tokens and passwords: \<^verbatim>\<open>auth_crypto.go\<close> and the helpers at the end of \<^verbatim>\<open>auth.go\<close>. Argon2, SHA-256
  and AES-GCM are third-party or library primitives and enter as parameters, random bytes as
  arguments (\<open>None\<close> when the source of randomness fails). The hypotheses about the primitives are
  \<open>argon_length\<close> (the key has the requested length) and \<open>gcm_opens\<close> (opening undoes sealing under
  the same key, nonce and associated data).
\<close>

section \<open>The cipher for stored responses\<close>

record responseCipher =
  ci_keys :: "int \<rightharpoonup> byte_string"
  ci_keyVersion :: int

definition decodeResponseCipherKey :: "string \<Rightarrow> string + byte_string" where
  "decodeResponseCipherKey encodedKey =
     (case DecodeString std_alphabet encodedKey of
        None \<Rightarrow> Inl ''IDEMPOTENCY_KEY must be unpadded base64''
      | Some key \<Rightarrow> if length key \<noteq> 32 then Inl ''IDEMPOTENCY_KEY must decode to exactly 32 bytes'' else Inr key)"

fun previousKeys :: "int \<Rightarrow> string list \<Rightarrow> (int \<rightharpoonup> byte_string) \<Rightarrow> string + (int \<rightharpoonup> byte_string)" where
  "previousKeys keyVersion [] keys = Inr keys"
| "previousKeys keyVersion (entry # rest) keys =
     (case split_first (CHR '':'') (TrimSpace entry) of
        [v, encoded] \<Rightarrow>
          (case Atoi v of
             None \<Rightarrow> Inl ''IDEMPOTENCY_PREVIOUS_KEYS versions must be positive integers''
           | Some version \<Rightarrow>
               if version \<le> 0 then Inl ''IDEMPOTENCY_PREVIOUS_KEYS versions must be positive integers''
               else if version = keyVersion then Inl ''active idempotency key must not be repeated in IDEMPOTENCY_PREVIOUS_KEYS''
               else if keys version \<noteq> None then Inl (''duplicate idempotency key version '' @ FormatInt version)
               else (case decodeResponseCipherKey encoded of
                       Inl err \<Rightarrow> Inl (''decode previous idempotency key version '' @ FormatInt version @ '': '' @ err)
                     | Inr previous \<Rightarrow> previousKeys keyVersion rest (keys(version \<mapsto> previous))))
      | _ \<Rightarrow> Inl ''IDEMPOTENCY_PREVIOUS_KEYS entries must use version:key'')"

definition newResponseCipherKeyring :: "string \<Rightarrow> int \<Rightarrow> string \<Rightarrow> string + responseCipher" where
  "newResponseCipherKeyring encodedKey keyVersion encodedPreviousKeys =
     (if keyVersion \<le> 0 then Inl ''IDEMPOTENCY_KEY_VERSION must be positive''
      else case decodeResponseCipherKey encodedKey of
        Inl err \<Rightarrow> Inl err
      | Inr active \<Rightarrow>
          if TrimSpace encodedPreviousKeys \<noteq> []
          then (case previousKeys keyVersion (split_at (CHR '','') encodedPreviousKeys) [keyVersion \<mapsto> active] of
                  Inl err \<Rightarrow> Inl err
                | Inr keys \<Rightarrow> Inr \<lparr>ci_keys = keys, ci_keyVersion = keyVersion\<rparr>)
          else Inr \<lparr>ci_keys = [keyVersion \<mapsto> active], ci_keyVersion = keyVersion\<rparr>)"

definition newResponseCipher :: "string \<Rightarrow> int \<Rightarrow> string + responseCipher" where
  "newResponseCipher encodedKey keyVersion = newResponseCipherKeyring encodedKey keyVersion []"

definition associatedData :: "string \<Rightarrow> byte_string \<Rightarrow> byte_string" where
  "associatedData purpose recordID = purpose @ [CHR 0x00] @ recordID"

text \<open>
  \<open>marshal\<close> and \<open>unmarshal\<close> are the JSON encoding of the value, \<open>seal\<close> and \<open>open\<close> those of the
  AEAD, by key, nonce, text and associated data.
\<close>

type_synonym aead_seal = "byte_string \<Rightarrow> byte_string \<Rightarrow> byte_string \<Rightarrow> byte_string \<Rightarrow> byte_string"
type_synonym aead_open = "byte_string \<Rightarrow> byte_string \<Rightarrow> byte_string \<Rightarrow> byte_string \<Rightarrow> byte_string option"

definition encrypt ::
  "aead_seal \<Rightarrow> ('v \<Rightarrow> string) \<Rightarrow> responseCipher \<Rightarrow> byte_string option \<Rightarrow> string \<Rightarrow> byte_string \<Rightarrow> 'v \<Rightarrow>
   (byte_string \<times> byte_string) option" where
  "encrypt seal marshal c randomness purpose recordID v =
     (case ci_keys c (ci_keyVersion c) of
        None \<Rightarrow> None
      | Some key \<Rightarrow>
          (case randomness of
             None \<Rightarrow> None
           | Some nonce \<Rightarrow> Some (seal key nonce (marshal v) (associatedData purpose recordID), nonce)))"

definition decrypt ::
  "aead_open \<Rightarrow> (string \<Rightarrow> 'v option) \<Rightarrow> responseCipher \<Rightarrow> int \<Rightarrow> string \<Rightarrow> byte_string \<Rightarrow> byte_string \<Rightarrow> byte_string \<Rightarrow> 'v option" where
  "decrypt aead unmarshal c keyVersion purpose recordID nonce ciphertext =
     (case ci_keys c keyVersion of
        None \<Rightarrow> None
      | Some key \<Rightarrow>
          (case aead key nonce ciphertext (associatedData purpose recordID) of
             None \<Rightarrow> None
           | Some plaintext \<Rightarrow> unmarshal plaintext))"

definition int64Bytes :: "int \<Rightarrow> byte_string" where
  "int64Bytes v = FormatInt v"

section \<open>Tokens\<close>

definition tokenLength :: nat where "tokenLength = 32"

record generatedToken =
  gt_raw :: string
  gt_hash :: byte_string

definition newToken :: "(byte_string \<Rightarrow> byte_string) \<Rightarrow> byte_string option \<Rightarrow> generatedToken option" where
  "newToken sha256 randomness =
     (case randomness of
        None \<Rightarrow> None
      | Some rawToken \<Rightarrow> Some \<lparr>gt_raw = EncodeToString url_alphabet rawToken, gt_hash = sha256 rawToken\<rparr>)"

definition decodeAndHashToken :: "(byte_string \<Rightarrow> byte_string) \<Rightarrow> string \<Rightarrow> (byte_string \<times> byte_string) option" where
  "decodeAndHashToken sha256 encoded =
     (case DecodeString url_alphabet encoded of
        None \<Rightarrow> None
      | Some rawToken \<Rightarrow> if length rawToken \<noteq> tokenLength then None else Some (rawToken, sha256 rawToken))"

section \<open>Passwords\<close>

definition argonVersion :: int where "argonVersion = 19"
definition argonMemory :: int where "argonMemory = 19 * 1024"
definition argonIterations :: int where "argonIterations = 2"
definition argonParallelism :: int where "argonParallelism = 1"
definition argonSaltLength :: nat where "argonSaltLength = 16"
definition argonKeyLength :: nat where "argonKeyLength = 32"
definition minPasswordRunes :: nat where "minPasswordRunes = 8"
definition maxPasswordRunes :: nat where "maxPasswordRunes = 128"

definition validPassword :: "string \<Rightarrow> bool" where
  "validPassword password \<longleftrightarrow>
     minPasswordRunes \<le> RuneCountInString password \<and> RuneCountInString password \<le> maxPasswordRunes"

text \<open>Argon2id by password, salt, iterations, memory, parallelism and key length.\<close>

type_synonym argon2id = "string \<Rightarrow> byte_string \<Rightarrow> int \<Rightarrow> int \<Rightarrow> int \<Rightarrow> nat \<Rightarrow> byte_string"

definition hashPassword :: "argon2id \<Rightarrow> byte_string option \<Rightarrow> string \<Rightarrow> string option" where
  "hashPassword argon randomness password =
     (case randomness of
        None \<Rightarrow> None
      | Some salt \<Rightarrow>
          Some (''$argon2id$v='' @ FormatInt argonVersion @ ''$m='' @ FormatInt argonMemory @ '',t='' @ FormatInt argonIterations
                @ '',p='' @ FormatInt argonParallelism @ ''$'' @ EncodeToString std_alphabet salt @ ''$''
                @ EncodeToString std_alphabet
                    (argon password salt argonIterations argonMemory argonParallelism argonKeyLength)))"

text \<open>
  \<open>Sscanf\<close> with literals and \<open>%d\<close>: a literal has to match, a number may be preceded by blanks, a
  signed one by a sign, and has to fit its type; what follows the last item is ignored.
\<close>

definition scan_literal :: "string \<Rightarrow> string \<Rightarrow> string option" where
  "scan_literal l s = (if HasPrefix s l then Some (drop (length l) s) else None)"

definition scan_digits :: "string \<Rightarrow> (nat \<times> string) option" where
  "scan_digits s = (let ds = takeWhile is_digit s in if ds = [] then None else Some (digits_value ds, dropWhile is_digit s))"

definition skip_blanks :: "string \<Rightarrow> string" where
  "skip_blanks s = dropWhile (\<lambda>c. byte c \<in> {9, 11, 12, 13, 32}) s"

definition scan_uint :: "nat \<Rightarrow> string \<Rightarrow> (int \<times> string) option" where
  "scan_uint bits s =
     (case scan_digits (skip_blanks s) of
        None \<Rightarrow> None
      | Some (n, rest) \<Rightarrow> if n < 2 ^ bits then Some (int n, rest) else None)"

definition scan_int :: "string \<Rightarrow> (int \<times> string) option" where
  "scan_int s =
     (let t = skip_blanks s;
          neg = (t \<noteq> [] \<and> hd t = CHR ''-'');
          u = (if t \<noteq> [] \<and> (hd t = CHR ''-'' \<or> hd t = CHR ''+'') then tl t else t)
      in case scan_digits u of
           None \<Rightarrow> None
         | Some (n, rest) \<Rightarrow> (let v = (if neg then - int n else int n) in if fits_int64 v then Some (v, rest) else None))"

definition scanParameters :: "string \<Rightarrow> (int \<times> int \<times> int) option" where
  "scanParameters s =
     do { s1 \<leftarrow> scan_literal ''m='' s; (memory, s2) \<leftarrow> scan_uint 32 s1;
          s3 \<leftarrow> scan_literal '',t='' s2; (iterations, s4) \<leftarrow> scan_uint 32 s3;
          s5 \<leftarrow> scan_literal '',p='' s4; (parallelism, _) \<leftarrow> scan_uint 8 s5;
          Some (memory, iterations, parallelism) }"

definition verifyPassword :: "argon2id \<Rightarrow> string \<Rightarrow> string \<Rightarrow> string + bool" where
  "verifyPassword argon password encodedHash =
     (case split_at (CHR ''$'') encodedHash of
        [p0, p1, p2, p3, p4, p5] \<Rightarrow>
          if p1 \<noteq> ''argon2id'' then Inl ''invalid password hash''
          else (case Option.bind (scan_literal ''v='' p2) scan_int of
            None \<Rightarrow> Inl ''invalid argon2 version''
          | Some (version, _) \<Rightarrow>
              if version \<noteq> argonVersion then Inl ''invalid argon2 version''
              else (case scanParameters p3 of
                None \<Rightarrow> Inl ''invalid argon2 parameters''
              | Some (memory, iterations, parallelism) \<Rightarrow>
                  (case DecodeString std_alphabet p4 of
                     None \<Rightarrow> Inl ''illegal base64 data''
                   | Some salt \<Rightarrow>
                       (case DecodeString std_alphabet p5 of
                          None \<Rightarrow> Inl ''illegal base64 data''
                        | Some expectedHash \<Rightarrow>
                            Inr (argon password salt iterations memory parallelism (length expectedHash) = expectedHash)))))
      | _ \<Rightarrow> Inl ''invalid password hash'')"

section \<open>Hypotheses about the primitives\<close>

definition argon_length :: "argon2id \<Rightarrow> bool" where
  "argon_length argon \<longleftrightarrow> (\<forall>password salt t m p n. length (argon password salt t m p n) = n)"

definition gcm_opens :: "aead_seal \<Rightarrow> aead_open \<Rightarrow> bool" where
  "gcm_opens seal aead \<longleftrightarrow> (\<forall>key nonce text ad. aead key nonce (seal key nonce text ad) ad = Some text)"

text \<open>Stand-ins for the examples: a key stretched from the password, and sealing that appends the data it binds.\<close>

definition toy_argon :: argon2id where
  "toy_argon password salt t m p n = take n (password @ salt @ replicate n (CHR ''#''))"

definition toy_seal :: aead_seal where
  "toy_seal key nonce text ad = FormatInt (int (length text)) @ CHR ''}'' # text @ key @ nonce @ ad"

definition toy_open :: aead_open where
  "toy_open key nonce ciphertext ad =
     (let rest = drop 1 (dropWhile (\<lambda>c. c \<noteq> CHR ''}'') ciphertext);
          n = length rest - length (key @ nonce @ ad)
      in if drop n rest = key @ nonce @ ad then Some (take n rest) else None)"

text \<open>The keyring with one key, and the one after it has been rotated to a second.\<close>

definition old_ring :: responseCipher where
  "old_ring = \<lparr>ci_keys = [1 \<mapsto> replicate 32 (CHR 0x00)], ci_keyVersion = 1\<rparr>"

definition new_ring :: responseCipher where
  "new_ring = \<lparr>ci_keys = [2 \<mapsto> replicate 32 (CHR 0x01), 1 \<mapsto> replicate 32 (CHR 0x00)], ci_keyVersion = 2\<rparr>"

section \<open>Token round trip\<close>

lemma decode_new_token:
  "length rawToken = tokenLength \<Longrightarrow> newToken sha256 (Some rawToken) = Some t \<Longrightarrow>
   decodeAndHashToken sha256 (gt_raw t) = Some (rawToken, gt_hash t)"
  by (auto simp: newToken_def decodeAndHashToken_def url_base64_roundtrip)

section \<open>Password round trip\<close>

lemma split_at_step: "d \<notin> set a \<Longrightarrow> split_at d (a @ d # b) = a # split_at d b"
  by (induction a) (auto split: list.split)

lemma std_base64_chars: "set (EncodeToString std_alphabet s) \<subseteq> set std_alphabet"
proof -
  have "\<forall>i \<in> set (base64_groups (map byte s)). i < 64"
    using base64_groups_bound [of "map byte s"] by (auto simp: list_all_iff)
  then show ?thesis by (auto simp: EncodeToString_def length_std_alphabet intro!: nth_mem)
qed

lemma dollar_not_in_base64: "CHR ''$'' \<notin> set (EncodeToString std_alphabet s)"
proof -
  have "CHR ''$'' \<notin> set std_alphabet" by code_simp
  then show ?thesis using std_base64_chars by blast
qed

lemma hash_fields:
  "''$argon2id$v='' @ FormatInt argonVersion @ ''$m='' @ FormatInt argonMemory @ '',t='' @ FormatInt argonIterations
     @ '',p='' @ FormatInt argonParallelism @ ''$'' @ x @ ''$'' @ y =
   [] @ CHR ''$'' # ''argon2id'' @ CHR ''$'' # ''v=19'' @ CHR ''$'' # ''m=19456,t=2,p=1'' @ CHR ''$'' # x @ CHR ''$'' # y"
proof -
  have "FormatInt argonVersion = ''19''" "FormatInt argonMemory = ''19456''" "FormatInt argonIterations = ''2''"
    "FormatInt argonParallelism = ''1''"
    by (simp_all add: argonVersion_def argonMemory_def argonIterations_def argonParallelism_def FormatInt_def
        format_nat.simps digit_char_def char_of_def bit_0)
  then show ?thesis by simp
qed

lemma scanned_fields:
  "Option.bind (scan_literal ''v='' ''v=19'') scan_int = Some (19, [])"
  "scanParameters ''m=19456,t=2,p=1'' = Some (19456, 2, 1)"
  by (simp_all add: scanParameters_def scan_literal_def HasPrefix_def scan_int_def scan_uint_def scan_digits_def
      skip_blanks_def is_digit_def digits_value_def fits_int64_iff Let_def)

lemma split_hash:
  "split_at (CHR ''$'') ([] @ CHR ''$'' # ''argon2id'' @ CHR ''$'' # ''v=19'' @ CHR ''$'' # ''m=19456,t=2,p=1'' @ CHR ''$'' #
     EncodeToString std_alphabet salt @ CHR ''$'' # EncodeToString std_alphabet key) =
   [[], ''argon2id'', ''v=19'', ''m=19456,t=2,p=1'', EncodeToString std_alphabet salt, EncodeToString std_alphabet key]"
  by (subst split_at_step, simp)+
     (simp add: split_at_step [OF dollar_not_in_base64] split_at_no_sep [OF dollar_not_in_base64])

lemma verify_hashed:
  assumes "argon_length argon" and "hashPassword argon (Some salt) p = Some h"
  shows "verifyPassword argon q h =
    Inr (argon q salt argonIterations argonMemory argonParallelism argonKeyLength =
         argon p salt argonIterations argonMemory argonParallelism argonKeyLength)"
proof -
  let ?key = "argon p salt argonIterations argonMemory argonParallelism argonKeyLength"
  have "h = [] @ CHR ''$'' # ''argon2id'' @ CHR ''$'' # ''v=19'' @ CHR ''$'' # ''m=19456,t=2,p=1'' @ CHR ''$'' #
      EncodeToString std_alphabet salt @ CHR ''$'' # EncodeToString std_alphabet ?key"
    using assms(2) unfolding hashPassword_def by (simp only: option.case option.inject hash_fields)
  then have parts: "split_at (CHR ''$'') h = [[], ''argon2id'', ''v=19'', ''m=19456,t=2,p=1'',
      EncodeToString std_alphabet salt, EncodeToString std_alphabet ?key]"
    by (simp only: split_hash)
  have "length ?key = 32" using assms(1) by (simp add: argon_length_def argonKeyLength_def)
  then show ?thesis
    unfolding verifyPassword_def parts
    by (simp add: scanned_fields std_base64_roundtrip argonVersion_def argonMemory_def argonIterations_def
        argonParallelism_def argonKeyLength_def)
qed

section \<open>Key rotation\<close>

lemma previousKeys_keep: "previousKeys v entries keys = Inr keys' \<Longrightarrow> keys k = Some x \<Longrightarrow> keys' k = Some x"
proof (induction entries arbitrary: keys)
  case (Cons entry rest)
  from Cons.prems(1) obtain version previous where new: "keys version = None"
    and rest: "previousKeys v rest (keys(version \<mapsto> previous)) = Inr keys'"
    by (auto split: list.splits option.splits if_splits sum.splits)
  show ?case by (rule Cons.IH [OF rest]) (use new Cons.prems(2) in auto)
qed simp

lemma keyring_active:
  assumes "newResponseCipherKeyring encodedKey keyVersion previous = Inr c"
  shows "ci_keyVersion c = keyVersion" and "\<exists>key. decodeResponseCipherKey encodedKey = Inr key \<and> ci_keys c keyVersion = Some key \<and> length key = 32"
proof -
  obtain key where key: "decodeResponseCipherKey encodedKey = Inr key" and v: "ci_keyVersion c = keyVersion"
    and keys: "ci_keys c = [keyVersion \<mapsto> key] \<or>
      previousKeys keyVersion (split_at (CHR '','') previous) [keyVersion \<mapsto> key] = Inr (ci_keys c)"
    using assms by (auto simp: newResponseCipherKeyring_def split: if_splits sum.splits)
  show "ci_keyVersion c = keyVersion" by (rule v)
  have "ci_keys c keyVersion = Some key" using keys previousKeys_keep by fastforce
  moreover have "length key = 32" using key by (auto simp: decodeResponseCipherKey_def split: option.splits if_splits)
  ultimately show "\<exists>key. decodeResponseCipherKey encodedKey = Inr key \<and> ci_keys c keyVersion = Some key \<and> length key = 32"
    using key by blast
qed

lemma decrypt_encrypted:
  assumes "gcm_opens seal aead" and "unmarshal (marshal v) = Some v"
    and "encrypt seal marshal c randomness purpose recordID v = Some (ciphertext, nonce)"
    and "ci_keys c' (ci_keyVersion c) = ci_keys c (ci_keyVersion c)"
  shows "decrypt aead unmarshal c' (ci_keyVersion c) purpose recordID nonce ciphertext = Some v"
  using assms by (auto simp: encrypt_def decrypt_def gcm_opens_def split: option.splits)

text \<open>The associated data binds the purpose and the record: they can be read off it.\<close>

lemma associatedData_inj:
  assumes "CHR 0x00 \<notin> set p" and "CHR 0x00 \<notin> set q" and "associatedData p r = associatedData q s"
  shows "p = q \<and> r = s"
proof -
  have "takeWhile (\<lambda>c. c \<noteq> CHR 0x00) (associatedData x y) = x" if "CHR 0x00 \<notin> set x" for x y
    unfolding associatedData_def using that by (subst takeWhile_append2) auto
  then have "p = q" using assms by metis
  then show ?thesis using assms(3) by (simp add: associatedData_def)
qed

section \<open>Properties\<close>

text \<open>
  A stored password hash verifies a password exactly when Argon2 gives both the same key for
  the stored salt; in particular the password it was made from always verifies.
\<close>

theorem password_hash_round_trip:
  assumes "argon_length argon" and "hashPassword argon (Some salt) password = Some h"
  shows "verifyPassword argon password h = Inr True
    \<and> (verifyPassword argon other h = Inr True \<longleftrightarrow>
         argon other salt argonIterations argonMemory argonParallelism argonKeyLength =
         argon password salt argonIterations argonMemory argonParallelism argonKeyLength)"
  by (simp add: verify_hashed [OF assms])


section \<open>Witnesses\<close>

lemma toy_argon_length: "argon_length toy_argon"
  by (auto simp: argon_length_def toy_argon_def min_def)

lemma password_hash_witness:
  "verifyPassword toy_argon ''correct horse'' (the (hashPassword toy_argon (Some ''0123456789abcdef'') ''correct horse'')) = Inr True"
  using password_hash_round_trip [OF toy_argon_length, of "''0123456789abcdef''" "''correct horse''"] by (simp add: hashPassword_def)

lemma toy_opens: "gcm_opens toy_seal toy_open"
proof -
  have "\<forall>c \<in> set (FormatInt (int n)). c \<noteq> CHR ''}''" for n
    using format_nat_digits [of n] by (auto simp: FormatInt_def list_all_iff is_digit_def)
  then have "dropWhile (\<lambda>c. c \<noteq> CHR ''}'') (FormatInt (int n) @ CHR ''}'' # x) = CHR ''}'' # x" for n x
    by (subst dropWhile_append2) auto
  then show ?thesis by (simp add: gcm_opens_def toy_seal_def toy_open_def Let_def)
qed

lemma old_ring_made: "newResponseCipherKeyring (replicate 43 (CHR ''A'')) 1 [] = Inr old_ring"
proof -
  have "decodeResponseCipherKey (replicate 43 (CHR ''A'')) = Inr (replicate 32 (CHR 0x00))" by code_simp
  moreover have "TrimSpace [] = []" by simp
  ultimately show ?thesis by (simp add: newResponseCipherKeyring_def old_ring_def)
qed


end
