(* ===== verification/Auth.thy ===== *)
theory Auth
  imports AuthCrypto MessageService RateLimit
begin

text \<open>
  Accounts, sessions and tokens: the handlers of \<^verbatim>\<open>auth.go\<close> on the tables of \<^verbatim>\<open>schema.sql\<close>. A handler
  takes the decoded body (\<open>None\<close> when it is not valid JSON) and the decision of the rate limiter.

  Each transaction is one step on the database: the row locks the statements take (the token row
  in a rotation, the user row shared by a login and a password change) order the transactions
  that touch the same rows, and no later statement reads what a concurrent transaction could have
  changed. Between the transactions of one handler others may commit (\<open>ae_others\<close>). Every
  statement can fail, COMMIT can lose its answer, and a transaction that is rolled back leaves its
  identity numbers drawn. Clock readings of the database and of the application are separate.

  The disconnections a handler orders are part of its result.
\<close>

section \<open>Requests, responses, environment\<close>

record registerRequest =
  rq_Username :: string
  rq_DisplayName :: string
  rq_Password :: string
  rq_DeviceID :: string

record loginRequest =
  lq_Username :: string
  lq_Password :: string
  lq_LoginRequestID :: string
  lq_DeviceID :: string

record refreshRequest =
  fq_RefreshToken :: string
  fq_IdempotencyKey :: string

record changePasswordRequest =
  cq_CurrentPassword :: string
  cq_NewPassword :: string

record authResponse =
  ar_User :: user
  ar_SessionID :: int
  ar_DeviceID :: string
  ar_SessionExpiresAt :: timestamp
  ar_AccessToken :: string
  ar_AccessTokenExpiresAt :: timestamp
  ar_RefreshToken :: string
  ar_RefreshTokenExpiresAt :: timestamp

record sessionResponse =
  se_ID :: int
  se_DeviceID :: string
  se_CreatedAt :: timestamp
  se_IdleExpiresAt :: timestamp
  se_AbsoluteExpiresAt :: timestamp
  se_RevokedAt :: "timestamp option"
  se_Current :: bool

definition accessTokenLifetime :: int where "accessTokenLifetime = 15 * 60 * 1000000"
definition sessionIdleLifetime :: int where "sessionIdleLifetime = 90 * 24 * 3600 * 1000000"
definition sessionAbsoluteLifetime :: int where "sessionAbsoluteLifetime = 365 * 24 * 3600 * 1000000"
definition idempotencyLifetime :: int where "idempotencyLifetime = 10 * 60 * 1000000"
definition maxDisplayNameRunes :: nat where "maxDisplayNameRunes = 100"

text \<open>The zero value of \<open>time.Time\<close>, the first instant of year 1.\<close>

definition zero_time :: timestamp where "zero_time = -62135596800000000"

record crypto =
  cr_sha256 :: "byte_string \<Rightarrow> byte_string"
  cr_argon :: argon2id
  cr_seal :: aead_seal
  cr_open :: aead_open
  cr_marshal :: "authResponse \<Rightarrow> string"
  cr_unmarshal :: "string \<Rightarrow> authResponse option"
  cr_lower :: "string \<Rightarrow> string"

datatype auth_point = AtCredentials | AtLoad | AtAuthBegin | AtUser | AtSession | AtAccess | AtRefresh | AtResult
  | AtReload | AtConsume | AtAccount | AtIdle | AtUsed | AtStored | AtRevoke | AtCheck | AtHash

datatype auth_random = ForDevice | ForAccess | ForRefresh | ForNonce | ForSalt

record auth_env =
  ae_fails :: "auth_point \<Rightarrow> bool"
  ae_now :: "auth_point \<Rightarrow> timestamp"
  ae_clock :: "auth_point \<Rightarrow> timestamp"
  ae_random :: "auth_random \<Rightarrow> byte_string option"
  ae_others :: "auth_point \<Rightarrow> db \<Rightarrow> db"
  ae_commit :: commit_outcome
  ae_cipher :: "responseCipher option"

section \<open>Statements\<close>

text \<open>A statement yields an error or a value, and the state the transaction sees after it.\<close>

type_synonym 'a stmt = "db \<Rightarrow> (db_error + 'a) \<times> db"

definition andThen :: "'a stmt \<Rightarrow> ('a \<Rightarrow> 'b stmt) \<Rightarrow> 'b stmt" where
  "andThen m f d = (case m d of (Inl e, d') \<Rightarrow> (Inl e, d') | (Inr a, d') \<Rightarrow> f a d')"

definition auth_rollback :: "db \<Rightarrow> db \<Rightarrow> db" where
  "auth_rollback d v = d\<lparr>users_seq := users_seq v, sessions_seq := sessions_seq v, refresh_tokens_seq := refresh_tokens_seq v\<rparr>"

definition auth_commit :: "auth_env \<Rightarrow> db \<Rightarrow> db \<Rightarrow> bool \<times> db" where
  "auth_commit env d v =
     (case ae_commit env of
        CommitOk \<Rightarrow> (True, v) | CommitLostApplied \<Rightarrow> (False, v) | CommitLostNotApplied \<Rightarrow> (False, auth_rollback d v))"

definition username_chars :: "string \<Rightarrow> bool" where
  "username_chars s \<longleftrightarrow> list_all (\<lambda>c. is_lower c \<or> is_digit c \<or> c = CHR ''_'') s"

text \<open>The pattern \<open>^[a-z0-9_]{3,32}$\<close>.\<close>

definition usernamePattern :: "string \<Rightarrow> bool" where
  "usernamePattern s \<longleftrightarrow> username_chars s \<and> 3 \<le> length s \<and> length s \<le> 32"

definition insertUser :: "auth_env \<Rightarrow> string \<Rightarrow> string \<Rightarrow> string \<Rightarrow> user stmt" where
  "insertUser env username displayName passwordHash d =
     (if ae_fails env AtUser \<or> \<not> pg_text_ok displayName then (Inl Unavailable, d)
      else (let i = users_seq d; d1 = d\<lparr>users_seq := i + 1\<rparr>;
                u = \<lparr>u_ID = i, u_Username = username, u_DisplayName = displayName\<rparr>
            in if list_ex (\<lambda>r. u_Username (ur_user r) = username) (users d) then (Inl UniqueViolation, d1)
               else (Inr u, d1\<lparr>users := users d @ [\<lparr>ur_user = u, ur_password_hash = passwordHash\<rparr>]\<rparr>)))"

definition insertSession :: "auth_env \<Rightarrow> int \<Rightarrow> string \<Rightarrow> timestamp \<Rightarrow> int stmt" where
  "insertSession env userID deviceID idle d =
     (if ae_fails env AtSession \<or> \<not> pg_text_ok deviceID then (Inl Unavailable, d)
      else (let i = sessions_seq d; d1 = d\<lparr>sessions_seq := i + 1\<rparr>; now = ae_now env AtAuthBegin
            in if RuneCountInString deviceID < 1 \<or> 128 < RuneCountInString deviceID \<or> idle \<le> now then (Inl CheckViolation, d1)
               else if userID \<notin> user_ids d then (Inl ForeignKeyViolation, d1)
               else (Inr i, d1\<lparr>sessions := sessions d @ [\<lparr>s_id = i, s_user_id = userID, s_device_id = deviceID,
                       s_idle_expires_at = idle, s_revoked_at = None, s_created_at = now\<rparr>]\<rparr>)))"

definition insertAccessToken :: "auth_env \<Rightarrow> int \<Rightarrow> byte_string \<Rightarrow> timestamp \<Rightarrow> unit stmt" where
  "insertAccessToken env sessionID tokenHash expires d =
     (if ae_fails env AtAccess then (Inl Unavailable, d)
      else if length tokenHash \<noteq> 32 \<or> expires \<le> ae_now env AtAuthBegin then (Inl CheckViolation, d)
      else if list_ex (\<lambda>a. a_token_hash a = tokenHash) (access_tokens d) then (Inl UniqueViolation, d)
      else (Inr (), d\<lparr>access_tokens := access_tokens d @ [\<lparr>a_session_id = sessionID, a_token_hash = tokenHash, a_expires_at = expires\<rparr>]\<rparr>))"

definition insertRefreshToken :: "auth_env \<Rightarrow> int \<Rightarrow> int option \<Rightarrow> byte_string \<Rightarrow> timestamp \<Rightarrow> unit stmt" where
  "insertRefreshToken env sessionID parent tokenHash expires d =
     (if ae_fails env AtRefresh then (Inl Unavailable, d)
      else (let i = refresh_tokens_seq d; d1 = d\<lparr>refresh_tokens_seq := i + 1\<rparr>
            in if length tokenHash \<noteq> 32 \<or> expires \<le> ae_now env AtAuthBegin then (Inl CheckViolation, d1)
               else if list_ex (\<lambda>r. r_token_hash r = tokenHash) (refresh_tokens d) then (Inl UniqueViolation, d1)
               else (Inr (), d1\<lparr>refresh_tokens := refresh_tokens d @ [\<lparr>r_id = i, r_session_id = sessionID,
                       r_parent_token_id = parent, r_token_hash = tokenHash, r_expires_at = expires, r_consumed_at = None\<rparr>]\<rparr>)))"

section \<open>Sessions\<close>

definition createSessionResponse :: "crypto \<Rightarrow> auth_env \<Rightarrow> user \<Rightarrow> string \<Rightarrow> authResponse stmt" where
  "createSessionResponse cr env account device d =
     (let now = ae_clock env AtSession;
          chosen = (if device = [] then map_option gt_raw (newToken (cr_sha256 cr) (ae_random env ForDevice)) else Some device)
      in case (chosen, newToken (cr_sha256 cr) (ae_random env ForAccess), newToken (cr_sha256 cr) (ae_random env ForRefresh)) of
           (Some deviceID, Some accessToken, Some refreshToken) \<Rightarrow>
             (let accessExpiresAt = now + accessTokenLifetime; refreshExpiresAt = now + sessionIdleLifetime
              in andThen (insertSession env (u_ID account) deviceID refreshExpiresAt) (\<lambda>sessionID.
                 andThen (insertAccessToken env sessionID (gt_hash accessToken) accessExpiresAt) (\<lambda>_.
                 andThen (insertRefreshToken env sessionID None (gt_hash refreshToken) refreshExpiresAt) (\<lambda>_ d'.
                   (Inr \<lparr>ar_User = account, ar_SessionID = sessionID, ar_DeviceID = deviceID,
                         ar_SessionExpiresAt = now + sessionAbsoluteLifetime, ar_AccessToken = gt_raw accessToken,
                         ar_AccessTokenExpiresAt = accessExpiresAt, ar_RefreshToken = gt_raw refreshToken,
                         ar_RefreshTokenExpiresAt = refreshExpiresAt\<rparr>, d')))) d)
         | _ \<Rightarrow> (Inl Unavailable, d))"

definition internalAuthError :: "string \<Rightarrow> 'a response" where
  "internalAuthError msg = APIError 500 ''INTERNAL_ERROR'' msg"

definition validOptionalDeviceID :: "string \<Rightarrow> bool" where
  "validOptionalDeviceID v \<longleftrightarrow> length v \<le> 128"

definition normalizedUsername :: "crypto \<Rightarrow> string \<Rightarrow> string" where
  "normalizedUsername cr s = ToLower (cr_lower cr) (TrimSpace s)"

definition register :: "crypto \<Rightarrow> auth_env \<Rightarrow> admission_result \<Rightarrow> registerRequest option \<Rightarrow> db \<Rightarrow> authResponse response \<times> db" where
  "register cr env limiter body d =
     (case body of
        None \<Rightarrow> (APIError 400 ''INVALID_JSON'' ''invalid JSON body'', d)
      | Some input \<Rightarrow>
        (let username = normalizedUsername cr (rq_Username input); displayName = TrimSpace (rq_DisplayName input)
         in if \<not> usernamePattern username
            then (APIError 400 ''INVALID_USERNAME'' ''username must contain 3-32 lowercase letters, numbers or underscores'', d)
            else if displayName = [] \<or> maxDisplayNameRunes < RuneCountInString displayName
            then (APIError 400 ''INVALID_DISPLAY_NAME'' ''displayName must contain 1-100 characters'', d)
            else if \<not> validPassword (rq_Password input)
            then (APIError 400 ''INVALID_PASSWORD'' ''password must contain 8-128 characters'', d)
            else if \<not> validOptionalDeviceID (rq_DeviceID input)
            then (APIError 400 ''INVALID_DEVICE_ID'' ''deviceId is too long'', d)
            else case limiter of
              Rejected err _ \<Rightarrow> (writeAPIError err, d)
            | Proceed \<Rightarrow>
              (case hashPassword (cr_argon cr) (ae_random env ForSalt) (rq_Password input) of
                 None \<Rightarrow> (internalAuthError ''could not create user'', d)
               | Some passwordHash \<Rightarrow>
                 if ae_fails env AtAuthBegin then (internalAuthError ''could not create user'', d)
                 else (case insertUser env username displayName passwordHash d of
                         (Inl UniqueViolation, v) \<Rightarrow> (APIError 409 ''USERNAME_CONFLICT'' ''username is already registered'', auth_rollback d v)
                       | (Inl _, v) \<Rightarrow> (internalAuthError ''could not create user'', auth_rollback d v)
                       | (Inr created, v) \<Rightarrow>
                         (case createSessionResponse cr env created (rq_DeviceID input) v of
                            (Inl _, w) \<Rightarrow> (internalAuthError ''could not create user'', auth_rollback d w)
                          | (Inr response, w) \<Rightarrow>
                            (let (ok, d') = auth_commit env d w
                             in (if ok then JSON 201 response else internalAuthError ''could not create user'', d')))))))"

section \<open>Login\<close>

definition live_session :: "timestamp \<Rightarrow> timestamp \<Rightarrow> session_row \<Rightarrow> bool" where
  "live_session now clock s \<longleftrightarrow>
     s_revoked_at s = None \<and> now < s_idle_expires_at s \<and> clock - sessionAbsoluteLifetime < s_created_at s"

definition find_session :: "db \<Rightarrow> int \<Rightarrow> session_row option" where
  "find_session d i = find (\<lambda>s. s_id s = i) (sessions d)"

definition loadUserCredentials :: "db \<Rightarrow> string \<Rightarrow> (user \<times> string) option" where
  "loadUserCredentials d username =
     map_option (\<lambda>r. (ur_user r, ur_password_hash r)) (find (\<lambda>r. u_Username (ur_user r) = username) (users d))"

definition withSessionExpiry :: "session_row \<Rightarrow> authResponse \<Rightarrow> authResponse" where
  "withSessionExpiry s response =
     (if ar_SessionExpiresAt response = zero_time
      then response\<lparr>ar_SessionExpiresAt := s_created_at s + sessionAbsoluteLifetime\<rparr> else response)"

text \<open>An error, nothing, or the stored response.\<close>

definition loadLoginResult ::
  "crypto \<Rightarrow> auth_env \<Rightarrow> auth_point \<Rightarrow> responseCipher \<Rightarrow> byte_string \<Rightarrow> int \<Rightarrow> db \<Rightarrow> unit + authResponse option" where
  "loadLoginResult cr env point cipher requestHash userID d =
     (if ae_fails env point then Inl ()
      else case find (\<lambda>l. l_request_id_hash l = requestHash \<and> l_user_id l = userID \<and> ae_now env point < l_expires_at l)
                  (login_idempotency_results d) of
        None \<Rightarrow> Inr None
      | Some l \<Rightarrow>
        (case find_session d (l_session_id l) of
           None \<Rightarrow> Inr None
         | Some s \<Rightarrow>
           if \<not> live_session (ae_now env point) (ae_clock env point) s then Inr None
           else (case decrypt (cr_open cr) (cr_unmarshal cr) cipher (l_key_version l) ''login'' requestHash
                        (l_nonce l) (l_encrypted_response l) of
                   None \<Rightarrow> Inl ()
                 | Some response \<Rightarrow> Inr (Some (withSessionExpiry s response)))))"

datatype login_error = LoginCredentialsChanged | IdempotencyConflict | LoginFailed

definition insertLoginResult :: "auth_env \<Rightarrow> login_result_row \<Rightarrow> unit stmt" where
  "insertLoginResult env row d =
     (if ae_fails env AtResult then (Inl Unavailable, d)
      else if length (l_request_id_hash row) \<noteq> 32 \<or> l_expires_at row \<le> ae_now env AtAuthBegin then (Inl CheckViolation, d)
      else if list_ex (\<lambda>l. l_request_id_hash l = l_request_id_hash row) (login_idempotency_results d) then (Inl UniqueViolation, d)
      else (Inr (), d\<lparr>login_idempotency_results := login_idempotency_results d @ [row]\<rparr>))"

definition createIdempotentLogin ::
  "crypto \<Rightarrow> auth_env \<Rightarrow> responseCipher \<Rightarrow> user \<Rightarrow> string \<Rightarrow> string \<Rightarrow> byte_string \<Rightarrow> db \<Rightarrow>
   (login_error + authResponse) \<times> db" where
  "createIdempotentLogin cr env cipher account verifiedHash deviceID requestHash d =
     (if ae_fails env AtAuthBegin \<or> ae_fails env AtHash then (Inl LoginFailed, d)
      else case find (\<lambda>r. u_ID (ur_user r) = u_ID account) (users d) of
        None \<Rightarrow> (Inl LoginFailed, d)
      | Some r \<Rightarrow>
        if ur_password_hash r \<noteq> verifiedHash then (Inl LoginCredentialsChanged, d)
        else (case createSessionResponse cr env account deviceID d of
          (Inl _, v) \<Rightarrow> (Inl LoginFailed, auth_rollback d v)
        | (Inr response, v) \<Rightarrow>
          (case encrypt (cr_seal cr) (cr_marshal cr) cipher (ae_random env ForNonce) ''login'' requestHash response of
             None \<Rightarrow> (Inl LoginFailed, auth_rollback d v)
           | Some (encrypted, nonce) \<Rightarrow>
             (case insertLoginResult env \<lparr>l_request_id_hash = requestHash, l_user_id = u_ID account,
                     l_session_id = ar_SessionID response, l_encrypted_response = encrypted, l_nonce = nonce,
                     l_key_version = ci_keyVersion cipher, l_expires_at = ae_clock env AtResult + idempotencyLifetime\<rparr> v of
                (Inl UniqueViolation, w) \<Rightarrow>
                  (let d' = ae_others env AtReload (auth_rollback d w)
                   in case loadLoginResult cr env AtReload cipher requestHash (u_ID account) d' of
                        Inl _ \<Rightarrow> (Inl LoginFailed, d')
                      | Inr None \<Rightarrow> (Inl IdempotencyConflict, d')
                      | Inr (Some existing) \<Rightarrow> (Inr existing, d'))
              | (Inl _, w) \<Rightarrow> (Inl LoginFailed, auth_rollback d w)
              | (Inr _, w) \<Rightarrow>
                  (let (ok, d') = auth_commit env d w in (if ok then Inr response else Inl LoginFailed, d'))))))"

definition invalidCredentials :: "'a response" where
  "invalidCredentials = APIError 401 ''INVALID_CREDENTIALS'' ''invalid username or password''"

definition login :: "crypto \<Rightarrow> auth_env \<Rightarrow> admission_result \<Rightarrow> loginRequest option \<Rightarrow> db \<Rightarrow> authResponse response \<times> db" where
  "login cr env limiter body d0 =
     (case body of
        None \<Rightarrow> (APIError 400 ''INVALID_JSON'' ''invalid JSON body'', d0)
      | Some input \<Rightarrow>
        (let username = normalizedUsername cr (lq_Username input)
         in if \<not> validOpaqueID (lq_LoginRequestID input)
            then (APIError 400 ''INVALID_LOGIN_REQUEST_ID'' ''loginRequestId must contain 16-128 characters'', d0)
            else if \<not> validOptionalDeviceID (lq_DeviceID input)
            then (APIError 400 ''INVALID_DEVICE_ID'' ''deviceId is too long'', d0)
            else case limiter of
              Rejected err _ \<Rightarrow> (writeAPIError err, d0)
            | Proceed \<Rightarrow>
              if \<not> usernamePattern username \<or> \<not> validPassword (lq_Password input) then (invalidCredentials, d0)
              else if ae_fails env AtCredentials then (internalAuthError ''could not log in'', d0)
              else (case loadUserCredentials d0 username of
                None \<Rightarrow> (invalidCredentials, d0)
              | Some (authenticated, passwordHash) \<Rightarrow>
                if verifyPassword (cr_argon cr) (lq_Password input) passwordHash \<noteq> Inr True then (invalidCredentials, d0)
                else (case ae_cipher env of
                  None \<Rightarrow> (APIError 503 ''LOGIN_RECOVERY_UNAVAILABLE'' ''login recovery is temporarily unavailable'', d0)
                | Some cipher \<Rightarrow>
                  (let requestHash = cr_sha256 cr (lq_LoginRequestID input); d1 = ae_others env AtLoad d0
                   in case loadLoginResult cr env AtLoad cipher requestHash (u_ID authenticated) d1 of
                        Inl _ \<Rightarrow> (APIError 503 ''LOGIN_RECOVERY_UNAVAILABLE'' ''login recovery is temporarily unavailable'', d1)
                      | Inr (Some existing) \<Rightarrow> (JSON 200 existing, d1)
                      | Inr None \<Rightarrow>
                        (case createIdempotentLogin cr env cipher authenticated passwordHash (lq_DeviceID input) requestHash
                                (ae_others env AtAuthBegin d1) of
                           (Inl LoginCredentialsChanged, d') \<Rightarrow> (invalidCredentials, d')
                         | (Inl IdempotencyConflict, d') \<Rightarrow> (APIError 409 ''LOGIN_REQUEST_ID_CONFLICT'' ''loginRequestId was already used'', d')
                         | (Inl LoginFailed, d') \<Rightarrow> (internalAuthError ''could not log in'', d')
                         | (Inr response, d') \<Rightarrow> (JSON 200 response, d')))))))"

section \<open>Refresh\<close>

definition minTime :: "timestamp \<Rightarrow> timestamp \<Rightarrow> timestamp" where
  "minTime first second = (if first < second then first else second)"

text \<open>The row a rotation consumes, with its session: the join of the UPDATE.\<close>

definition redeemable :: "auth_env \<Rightarrow> byte_string \<Rightarrow> db \<Rightarrow> refresh_token_row \<Rightarrow> bool" where
  "redeemable env tokenHash d rt \<longleftrightarrow>
     r_token_hash rt = tokenHash \<and> r_consumed_at rt = None \<and> ae_now env AtAuthBegin < r_expires_at rt
     \<and> (case find_session d (r_session_id rt) of
          None \<Rightarrow> False | Some s \<Rightarrow> live_session (ae_now env AtAuthBegin) (ae_clock env AtConsume) s)"

definition consumeToken :: "auth_env \<Rightarrow> refresh_token_row \<Rightarrow> db \<Rightarrow> db" where
  "consumeToken env rt d =
     d\<lparr>refresh_tokens := update_rows (\<lambda>r. r_id r = r_id rt) (\<lambda>r. r\<lparr>r_consumed_at := Some (ae_now env AtAuthBegin)\<rparr>) (refresh_tokens d)\<rparr>"

definition extendSession :: "auth_env \<Rightarrow> timestamp \<Rightarrow> int \<Rightarrow> unit stmt" where
  "extendSession env idle sessionID d =
     (if ae_fails env AtIdle then (Inl Unavailable, d)
      else if list_ex (\<lambda>s. s_id s = sessionID \<and> idle \<le> s_created_at s) (sessions d) then (Inl CheckViolation, d)
      else (Inr (), d\<lparr>sessions := update_rows (\<lambda>s. s_id s = sessionID) (\<lambda>s. s\<lparr>s_idle_expires_at := idle\<rparr>) (sessions d)\<rparr>))"

definition insertRefreshResult :: "auth_env \<Rightarrow> refresh_result_row \<Rightarrow> unit stmt" where
  "insertRefreshResult env row d =
     (if ae_fails env AtResult then (Inl Unavailable, d)
      else if length (f_idempotency_key_hash row) \<noteq> 32 \<or> f_expires_at row \<le> ae_now env AtAuthBegin then (Inl CheckViolation, d)
      else if list_ex (\<lambda>f. f_refresh_token_id f = f_refresh_token_id row) (refresh_idempotency_results d) then (Inl UniqueViolation, d)
      else (Inr (), d\<lparr>refresh_idempotency_results := refresh_idempotency_results d @ [row]\<rparr>))"

text \<open>An error, a status without a response, or the response; and the session to disconnect.\<close>

datatype rotation = RotationFailed | RotationRefused int | Rotated authResponse

definition revokeReplayed :: "auth_env \<Rightarrow> int \<Rightarrow> int \<Rightarrow> db \<Rightarrow> rotation \<times> (int \<times> int) option \<times> db" where
  "revokeReplayed env userID sessionID d =
     (if ae_fails env AtRevoke then (RotationFailed, None, d)
      else (let v = d\<lparr>sessions := update_rows (\<lambda>s. s_id s = sessionID)
                      (\<lambda>s. s\<lparr>s_revoked_at := (case s_revoked_at s of None \<Rightarrow> Some (ae_now env AtAuthBegin) | Some t \<Rightarrow> Some t)\<rparr>)
                      (sessions d)\<rparr>;
                (ok, d') = auth_commit env d v
            in if ok then (RotationRefused 401, Some (userID, sessionID), d') else (RotationFailed, None, d')))"

definition handleUsedOrInvalidRefresh ::
  "crypto \<Rightarrow> auth_env \<Rightarrow> responseCipher \<Rightarrow> byte_string \<Rightarrow> byte_string \<Rightarrow> db \<Rightarrow> rotation \<times> (int \<times> int) option \<times> db" where
  "handleUsedOrInvalidRefresh cr env cipher tokenHash keyHash d =
     (if ae_fails env AtUsed then (RotationFailed, None, d)
      else case find (\<lambda>rt. r_token_hash rt = tokenHash) (refresh_tokens d) of
        None \<Rightarrow> (RotationRefused 401, None, d)
      | Some rt \<Rightarrow>
        (case find_session d (r_session_id rt) of
           None \<Rightarrow> (RotationRefused 401, None, d)
         | Some s \<Rightarrow>
           if r_consumed_at rt = None \<or> s_revoked_at s \<noteq> None \<or> s_idle_expires_at s \<le> ae_clock env AtUsed
              \<or> s_created_at s + sessionAbsoluteLifetime \<le> ae_clock env AtUsed
           then (RotationRefused 401, None, d)
           else if ae_fails env AtStored then (RotationFailed, None, d)
           else (case find (\<lambda>f. f_refresh_token_id f = r_id rt) (refresh_idempotency_results d) of
                   Some f \<Rightarrow>
                     if f_idempotency_key_hash f = keyHash \<and> ae_clock env AtStored < f_expires_at f
                     then (case decrypt (cr_open cr) (cr_unmarshal cr) cipher (f_key_version f) ''refresh'' (int64Bytes (r_id rt))
                                  (f_nonce f) (f_encrypted_response f) of
                             None \<Rightarrow> (RotationFailed, None, d)
                           | Some response \<Rightarrow> (Rotated (withSessionExpiry s response), None, d))
                     else revokeReplayed env (s_user_id s) (s_id s) d
                 | None \<Rightarrow> revokeReplayed env (s_user_id s) (s_id s) d)))"

definition rotateRefreshToken ::
  "crypto \<Rightarrow> auth_env \<Rightarrow> responseCipher \<Rightarrow> byte_string \<Rightarrow> byte_string \<Rightarrow> db \<Rightarrow> rotation \<times> (int \<times> int) option \<times> db" where
  "rotateRefreshToken cr env cipher oldTokenHash keyHash d =
     (if ae_fails env AtAuthBegin \<or> ae_fails env AtConsume then (RotationFailed, None, d)
      else case find (redeemable env oldTokenHash d) (refresh_tokens d) of
        None \<Rightarrow> handleUsedOrInvalidRefresh cr env cipher oldTokenHash keyHash d
      | Some rt \<Rightarrow>
        (case (find_session d (r_session_id rt),
               if ae_fails env AtAccount then None
               else find (\<lambda>u. Some (u_ID (ur_user u)) = map_option s_user_id (find_session d (r_session_id rt))) (users d),
               newToken (cr_sha256 cr) (ae_random env ForAccess), newToken (cr_sha256 cr) (ae_random env ForRefresh)) of
           (Some s, Some account, Some accessToken, Some refreshToken) \<Rightarrow>
             (let now = ae_clock env AtAccount;
                  absoluteExpiresAt = s_created_at s + sessionAbsoluteLifetime;
                  accessExpiresAt = minTime (now + accessTokenLifetime) absoluteExpiresAt;
                  refreshExpiresAt = minTime (now + sessionIdleLifetime) absoluteExpiresAt;
                  response = \<lparr>ar_User = ur_user account, ar_SessionID = s_id s, ar_DeviceID = s_device_id s,
                              ar_SessionExpiresAt = absoluteExpiresAt, ar_AccessToken = gt_raw accessToken,
                              ar_AccessTokenExpiresAt = accessExpiresAt, ar_RefreshToken = gt_raw refreshToken,
                              ar_RefreshTokenExpiresAt = refreshExpiresAt\<rparr>;
                  store = (case encrypt (cr_seal cr) (cr_marshal cr) cipher (ae_random env ForNonce) ''refresh''
                                  (int64Bytes (r_id rt)) response of
                             None \<Rightarrow> (\<lambda>w. (Inl Unavailable, w))
                           | Some (encrypted, nonce) \<Rightarrow>
                               insertRefreshResult env \<lparr>f_refresh_token_id = r_id rt, f_idempotency_key_hash = keyHash,
                                 f_encrypted_response = encrypted, f_nonce = nonce, f_key_version = ci_keyVersion cipher,
                                 f_expires_at = now + idempotencyLifetime\<rparr>)
              in case andThen (insertAccessToken env (s_id s) (gt_hash accessToken) accessExpiresAt) (\<lambda>_.
                      andThen (insertRefreshToken env (s_id s) (Some (r_id rt)) (gt_hash refreshToken) refreshExpiresAt) (\<lambda>_.
                      andThen (extendSession env refreshExpiresAt (s_id s)) (\<lambda>_. store))) (consumeToken env rt d) of
                   (Inl _, v) \<Rightarrow> (RotationFailed, None, auth_rollback d v)
                 | (Inr _, v) \<Rightarrow>
                     (let (ok, d') = auth_commit env d v
                      in if ok then (Rotated response, None, d') else (RotationFailed, None, d')))
         | _ \<Rightarrow> (RotationFailed, None, d)))"

definition refresh ::
  "crypto \<Rightarrow> auth_env \<Rightarrow> admission_result \<Rightarrow> refreshRequest option \<Rightarrow> db \<Rightarrow>
   authResponse response \<times> (int \<times> int) option \<times> db" where
  "refresh cr env limiter body d =
     (case body of
        None \<Rightarrow> (APIError 400 ''INVALID_JSON'' ''invalid JSON body'', None, d)
      | Some input \<Rightarrow>
        if \<not> validOpaqueID (fq_IdempotencyKey input)
        then (APIError 400 ''INVALID_IDEMPOTENCY_KEY'' ''idempotencyKey must contain 16-128 characters'', None, d)
        else case decodeAndHashToken (cr_sha256 cr) (fq_RefreshToken input) of
          None \<Rightarrow> (APIError 401 ''REFRESH_TOKEN_INVALID'' ''valid refresh token is required'', None, d)
        | Some (_, refreshHash) \<Rightarrow>
          (case limiter of
             Rejected err _ \<Rightarrow> (writeAPIError err, None, d)
           | Proceed \<Rightarrow>
             (case ae_cipher env of
                None \<Rightarrow> (APIError 503 ''REFRESH_RECOVERY_UNAVAILABLE'' ''refresh recovery is temporarily unavailable'', None, d)
              | Some cipher \<Rightarrow>
                (case rotateRefreshToken cr env cipher refreshHash (cr_sha256 cr (fq_IdempotencyKey input)) d of
                   (RotationFailed, x, d') \<Rightarrow>
                     (APIError 503 ''REFRESH_RECOVERY_UNAVAILABLE'' ''refresh recovery is temporarily unavailable'', x, d')
                 | (RotationRefused status, x, d') \<Rightarrow>
                     (APIError status ''REFRESH_TOKEN_INVALID'' ''refresh token is invalid or has been replayed'', x, d')
                 | (Rotated response, x, d') \<Rightarrow> (JSON 200 response, x, d')))))"

section \<open>Revocation\<close>

text \<open>\<open>UPDATE sessions SET revoked_at ... WHERE p AND revoked_at IS NULL\<close>.\<close>

definition revoke_where :: "timestamp \<Rightarrow> (session_row \<Rightarrow> bool) \<Rightarrow> db \<Rightarrow> db" where
  "revoke_where now p d =
     d\<lparr>sessions := update_rows (\<lambda>s. p s \<and> s_revoked_at s = None) (\<lambda>s. s\<lparr>s_revoked_at := Some now\<rparr>) (sessions d)\<rparr>"

text \<open>A statement outside a transaction: it fails, or it is done and its answer arrives or not.\<close>

definition exec_auto :: "auth_env \<Rightarrow> auth_point \<Rightarrow> db \<Rightarrow> db \<Rightarrow> bool \<times> db" where
  "exec_auto env point d v =
     (if ae_fails env point then (False, case ae_commit env of CommitLostApplied \<Rightarrow> v | _ \<Rightarrow> d) else (True, v))"

datatype disconnection = DisconnectSessionOf int int | DisconnectUserOf int

definition logout :: "auth_env \<Rightarrow> int \<Rightarrow> int \<Rightarrow> db \<Rightarrow> unit response \<times> disconnection list \<times> db" where
  "logout env userID sessionID d =
     (let (ok, d') = exec_auto env AtRevoke d (revoke_where (ae_now env AtRevoke) (\<lambda>s. s_id s = sessionID) d)
      in if ok then (NoBody 204, [DisconnectSessionOf userID sessionID], d')
         else (internalAuthError ''could not log out'', [], d'))"

definition logoutAll :: "auth_env \<Rightarrow> int \<Rightarrow> db \<Rightarrow> unit response \<times> disconnection list \<times> db" where
  "logoutAll env userID d =
     (let (ok, d') = exec_auto env AtRevoke d (revoke_where (ae_now env AtRevoke) (\<lambda>s. s_user_id s = userID) d)
      in if ok then (NoBody 204, [DisconnectUserOf userID], d')
         else (internalAuthError ''could not log out all devices'', [], d'))"

definition revokeSession :: "auth_env \<Rightarrow> int \<Rightarrow> string \<Rightarrow> db \<Rightarrow> unit response \<times> disconnection list \<times> db" where
  "revokeSession env userID path d =
     (case ParseInt 64 path of
        None \<Rightarrow> (APIError 400 ''INVALID_SESSION_ID'' ''sessionID must be a positive integer'', [], d)
      | Some sessionID \<Rightarrow>
        if sessionID \<le> 0 then (APIError 400 ''INVALID_SESSION_ID'' ''sessionID must be a positive integer'', [], d)
        else (let p = (\<lambda>s. s_id s = sessionID \<and> s_user_id s = userID);
                  (ok, d') = exec_auto env AtRevoke d (revoke_where (ae_now env AtRevoke) p d)
              in if \<not> ok then (internalAuthError ''could not revoke session'', [], d')
                 else if rows_affected (\<lambda>s. p s \<and> s_revoked_at s = None) (sessions d) = 0
                 then (APIError 404 ''SESSION_NOT_FOUND'' ''active session was not found'', [], d')
                 else (NoBody 204, [DisconnectSessionOf userID sessionID], d')))"

definition listSessions :: "auth_env \<Rightarrow> int \<Rightarrow> int \<Rightarrow> db \<Rightarrow> (sessionResponse list) response" where
  "listSessions env userID currentID d =
     (if ae_fails env AtCheck then internalAuthError ''could not list sessions''
      else JSON 200 (map (\<lambda>s. \<lparr>se_ID = s_id s, se_DeviceID = s_device_id s, se_CreatedAt = s_created_at s,
             se_IdleExpiresAt = s_idle_expires_at s, se_AbsoluteExpiresAt = s_created_at s + sessionAbsoluteLifetime,
             se_RevokedAt = s_revoked_at s, se_Current = (s_id s = currentID)\<rparr>)
           (rev (sort_key s_created_at (sort_key s_id (filter (\<lambda>s. s_user_id s = userID) (sessions d)))))))"

text \<open>The transaction of a password change, for a password verified before it began.\<close>

definition commitPasswordChange :: "auth_env \<Rightarrow> int \<Rightarrow> string \<Rightarrow> string \<Rightarrow> db \<Rightarrow> unit response \<times> disconnection list \<times> db" where
  "commitPasswordChange env userID currentHash newHash d =
     (let p = (\<lambda>r. u_ID (ur_user r) = userID \<and> ur_password_hash r = currentHash)
      in if ae_fails env AtAuthBegin \<or> ae_fails env AtUser then (internalAuthError ''could not change password'', [], d)
         else if rows_affected p (users d) \<noteq> 1
         then (APIError 409 ''PASSWORD_CHANGE_CONFLICT'' ''password changed concurrently; retry'', [], d)
         else if ae_fails env AtRevoke then (internalAuthError ''could not change password'', [], d)
         else (let v = revoke_where (ae_now env AtAuthBegin) (\<lambda>s. s_user_id s = userID)
                         (d\<lparr>users := update_rows p (\<lambda>r. r\<lparr>ur_password_hash := newHash\<rparr>) (users d)\<rparr>);
                   (ok, d') = auth_commit env d v
               in if ok then (NoBody 204, [DisconnectUserOf userID], d')
                  else (internalAuthError ''could not change password'', [], d')))"

definition changePassword ::
  "crypto \<Rightarrow> auth_env \<Rightarrow> int \<Rightarrow> changePasswordRequest option \<Rightarrow> db \<Rightarrow> unit response \<times> disconnection list \<times> db" where
  "changePassword cr env userID body d0 =
     (case body of
        None \<Rightarrow> (APIError 400 ''INVALID_JSON'' ''invalid JSON body'', [], d0)
      | Some input \<Rightarrow>
        if \<not> validPassword (cq_NewPassword input)
        then (APIError 400 ''INVALID_NEW_PASSWORD'' ''newPassword must contain 8-128 characters'', [], d0)
        else if cq_CurrentPassword input = cq_NewPassword input
        then (APIError 400 ''PASSWORD_UNCHANGED'' ''newPassword must be different'', [], d0)
        else case (if ae_fails env AtHash then None else find (\<lambda>r. u_ID (ur_user r) = userID) (users d0)) of
          None \<Rightarrow> (internalAuthError ''could not change password'', [], d0)
        | Some row \<Rightarrow>
          (let currentHash = ur_password_hash row
           in if verifyPassword (cr_argon cr) (cq_CurrentPassword input) currentHash \<noteq> Inr True
              then (APIError 401 ''CURRENT_PASSWORD_INVALID'' ''current password is invalid'', [], d0)
              else case hashPassword (cr_argon cr) (ae_random env ForSalt) (cq_NewPassword input) of
                None \<Rightarrow> (internalAuthError ''could not change password'', [], d0)
              | Some newHash \<Rightarrow>
                commitPasswordChange env userID currentHash newHash (ae_others env AtAuthBegin d0)))"

section \<open>Authentication of requests\<close>

text \<open>\<open>strings.Fields\<close>: the words between runs of white space.\<close>

function fields_from :: "string \<Rightarrow> string \<Rightarrow> string list" where
  "fields_from [] w = (if w = [] then [] else [w])"
| "fields_from (c # s) w =
     (if space_width (c # s) > 0 then (if w = [] then [] else [w]) @ fields_from (drop (space_width (c # s)) (c # s)) []
      else fields_from s (w @ [c]))"
  by pat_completeness auto
termination
  by (relation "measure (\<lambda>(s, w). length s)") auto

definition Fields :: "string \<Rightarrow> string list" where
  "Fields s = fields_from s []"

record authenticated =
  au_UserID :: int
  au_SessionID :: int
  au_DeviceID :: string
  au_TokenExpiry :: timestamp

definition authenticationRequired :: api_error where
  "authenticationRequired = (401, ''AUTHENTICATION_REQUIRED'', ''valid bearer token is required'')"

text \<open>\<open>EqualFold\<close> with a word whose letters fold within ASCII only.\<close>

definition is_bearer :: "string \<Rightarrow> bool" where
  "is_bearer w \<longleftrightarrow> map ascii_lower w = ''bearer''"

definition token_session :: "db \<Rightarrow> timestamp \<Rightarrow> timestamp \<Rightarrow> byte_string \<Rightarrow> authenticated option" where
  "token_session d now clock tokenHash =
     (case find (\<lambda>a. a_token_hash a = tokenHash \<and> now < a_expires_at a) (access_tokens d) of
        None \<Rightarrow> None
      | Some a \<Rightarrow>
        (case find_session d (a_session_id a) of
           None \<Rightarrow> None
         | Some s \<Rightarrow> if \<not> live_session now clock s then None
                     else Some \<lparr>au_UserID = s_user_id s, au_SessionID = s_id s, au_DeviceID = s_device_id s, au_TokenExpiry = a_expires_at a\<rparr>))"

definition requireAuthentication :: "crypto \<Rightarrow> auth_env \<Rightarrow> string \<Rightarrow> db \<Rightarrow> api_error + authenticated" where
  "requireAuthentication cr env header d =
     (case Fields header of
        [scheme, encoded] \<Rightarrow>
          if \<not> is_bearer scheme then Inl authenticationRequired
          else (case decodeAndHashToken (cr_sha256 cr) encoded of
                  None \<Rightarrow> Inl authenticationRequired
                | Some (_, tokenHash) \<Rightarrow>
                  if ae_fails env AtCheck
                  then Inl (503, ''AUTHENTICATION_UNAVAILABLE'', ''authentication service is temporarily unavailable'')
                  else (case token_session d (ae_now env AtCheck) (ae_clock env AtCheck) tokenHash of
                          None \<Rightarrow> Inl authenticationRequired | Some who \<Rightarrow> Inr who))
      | _ \<Rightarrow> Inl authenticationRequired)"

section \<open>Invariant and steps\<close>

text \<open>
  Sessions and refresh tokens have unique identities below their sequences, token hashes are
  unique, tokens belong to sessions that exist, at most one refresh token of a session is not
  consumed, and a stored result belongs to a consumed token, one per token.
\<close>

definition sessions_ok :: "db \<Rightarrow> bool" where
  "sessions_ok d \<longleftrightarrow> distinct (map s_id (sessions d)) \<and> (\<forall>s \<in> set (sessions d). s_id s < sessions_seq d)"

definition access_ok :: "db \<Rightarrow> bool" where
  "access_ok d \<longleftrightarrow> distinct (map a_token_hash (access_tokens d))
     \<and> (\<forall>a \<in> set (access_tokens d). a_session_id a \<in> s_id ` set (sessions d))"

definition one_open :: "refresh_token_row list \<Rightarrow> bool" where
  "one_open rows \<longleftrightarrow> (\<forall>r \<in> set rows. \<forall>r' \<in> set rows. r_session_id r = r_session_id r' \<longrightarrow>
     r_consumed_at r = None \<longrightarrow> r_consumed_at r' = None \<longrightarrow> r_id r = r_id r')"

definition refresh_ok :: "db \<Rightarrow> bool" where
  "refresh_ok d \<longleftrightarrow> distinct (map r_id (refresh_tokens d)) \<and> distinct (map r_token_hash (refresh_tokens d))
     \<and> (\<forall>r \<in> set (refresh_tokens d). r_id r < refresh_tokens_seq d \<and> r_session_id r \<in> s_id ` set (sessions d))
     \<and> one_open (refresh_tokens d)"

definition results_ok :: "db \<Rightarrow> bool" where
  "results_ok d \<longleftrightarrow> distinct (map f_refresh_token_id (refresh_idempotency_results d))
     \<and> (\<forall>f \<in> set (refresh_idempotency_results d). \<exists>r \<in> set (refresh_tokens d). r_id r = f_refresh_token_id f \<and> r_consumed_at r \<noteq> None)"

definition auth_inv :: "db \<Rightarrow> bool" where
  "auth_inv d \<longleftrightarrow> sessions_ok d \<and> access_ok d \<and> refresh_ok d \<and> results_ok d"

text \<open>Transactions that leave the tables of this component alone may draw from its sequences.\<close>

definition auth_same :: "db \<Rightarrow> db \<Rightarrow> bool" where
  "auth_same d v \<longleftrightarrow> sessions v = sessions d \<and> access_tokens v = access_tokens d \<and> refresh_tokens v = refresh_tokens d
     \<and> refresh_idempotency_results v = refresh_idempotency_results d
     \<and> sessions_seq d \<le> sessions_seq v \<and> refresh_tokens_seq d \<le> refresh_tokens_seq v"

definition seqs_le :: "db \<Rightarrow> db \<Rightarrow> bool" where
  "seqs_le d v \<longleftrightarrow> sessions_seq d \<le> sessions_seq v \<and> refresh_tokens_seq d \<le> refresh_tokens_seq v"

definition alone :: "auth_env \<Rightarrow> bool" where
  "alone env \<longleftrightarrow> (\<forall>p d. ae_others env p d = d)"

text \<open>One transaction of any handler, by any client, with any faults.\<close>

inductive auth_step :: "db \<Rightarrow> db \<Rightarrow> bool" where
  st_other: "auth_same d v \<Longrightarrow> auth_step d v"
| st_register: "auth_step d (snd (register cr env limiter body d))"
| st_login: "alone env \<Longrightarrow> auth_step d (snd (createIdempotentLogin cr env cipher account hash device request d))"
| st_rotate: "auth_step d (snd (snd (rotateRefreshToken cr env cipher token key d)))"
| st_logout: "auth_step d (snd (snd (logout env u i d)))"
| st_logoutAll: "auth_step d (snd (snd (logoutAll env u d)))"
| st_revoke: "auth_step d (snd (snd (revokeSession env u path d)))"
| st_password: "auth_step d (snd (snd (commitPasswordChange env u old new d)))"

text \<open>Nothing is ever taken back: sessions stay, revoked ones stay revoked, consumed tokens and stored results stay.\<close>

definition keeps :: "db \<Rightarrow> db \<Rightarrow> bool" where
  "keeps d v \<longleftrightarrow>
     (\<forall>s \<in> set (sessions d). \<exists>s' \<in> set (sessions v). s_id s' = s_id s \<and> s_user_id s' = s_user_id s
        \<and> s_created_at s' = s_created_at s \<and> s_device_id s' = s_device_id s \<and> (s_revoked_at s \<noteq> None \<longrightarrow> s_revoked_at s' \<noteq> None))
     \<and> (\<forall>r \<in> set (refresh_tokens d). \<exists>r' \<in> set (refresh_tokens v). r_id r' = r_id r \<and> r_token_hash r' = r_token_hash r
        \<and> r_session_id r' = r_session_id r \<and> (r_consumed_at r \<noteq> None \<longrightarrow> r_consumed_at r' \<noteq> None))
     \<and> set (refresh_idempotency_results d) \<subseteq> set (refresh_idempotency_results v)
     \<and> set (access_tokens d) \<subseteq> set (access_tokens v)"

section \<open>Statements\<close>

lemma andThen_Inr: "andThen m f d = (Inr b, v) \<longleftrightarrow> (\<exists>a w. m d = (Inr a, w) \<and> f a w = (Inr b, v))"
  by (auto simp: andThen_def split: prod.splits sum.splits)

lemma andThen_seqs:
  assumes "andThen m f d = (x, v)" and "\<And>y w. m d = (y, w) \<Longrightarrow> seqs_le d w"
    and "\<And>a w y u. f a w = (y, u) \<Longrightarrow> seqs_le w u"
  shows "seqs_le d v"
  using assms by (force simp: andThen_def seqs_le_def split: prod.splits sum.splits)

lemma insertSession_Inr:
  "insertSession env userID deviceID idle d = (Inr i, v) \<Longrightarrow>
   i = sessions_seq d \<and> v = d\<lparr>sessions_seq := sessions_seq d + 1, sessions := sessions d @ [\<lparr>s_id = sessions_seq d, s_user_id = userID,
     s_device_id = deviceID, s_idle_expires_at = idle, s_revoked_at = None, s_created_at = ae_now env AtAuthBegin\<rparr>]\<rparr>"
  by (auto simp: insertSession_def Let_def split: if_splits)

lemma insertAccessToken_Inr:
  "insertAccessToken env i h e d = (Inr x, v) \<Longrightarrow> h \<notin> a_token_hash ` set (access_tokens d) \<and>
   v = d\<lparr>access_tokens := access_tokens d @ [\<lparr>a_session_id = i, a_token_hash = h, a_expires_at = e\<rparr>]\<rparr>"
  by (auto simp: insertAccessToken_def list_ex_iff split: if_splits)

lemma insertRefreshToken_Inr:
  "insertRefreshToken env i parent h e d = (Inr x, v) \<Longrightarrow> h \<notin> r_token_hash ` set (refresh_tokens d) \<and>
   v = d\<lparr>refresh_tokens_seq := refresh_tokens_seq d + 1, refresh_tokens := refresh_tokens d @ [\<lparr>r_id = refresh_tokens_seq d,
     r_session_id = i, r_parent_token_id = parent, r_token_hash = h, r_expires_at = e, r_consumed_at = None\<rparr>]\<rparr>"
  by (auto simp: insertRefreshToken_def Let_def list_ex_iff split: if_splits)

lemma statement_seqs:
  "insertSession env userID deviceID idle d = (x, v) \<Longrightarrow> seqs_le d v"
  "insertAccessToken env i h e d = (y, v) \<Longrightarrow> seqs_le d v"
  "insertRefreshToken env i parent h e d = (z, v) \<Longrightarrow> seqs_le d v"
  "extendSession env idle i d = (y, v) \<Longrightarrow> seqs_le d v"
  "insertRefreshResult env row d = (y, v) \<Longrightarrow> seqs_le d v"
  "insertLoginResult env lrow d = (y, v) \<Longrightarrow> seqs_le d v"
  "insertUser env name disp hash d = (u, v) \<Longrightarrow> seqs_le d v"
  by (auto simp: insertSession_def insertAccessToken_def insertRefreshToken_def extendSession_def insertRefreshResult_def
      insertLoginResult_def insertUser_def seqs_le_def Let_def split: if_splits)

lemma auth_same_refl [simp]: "auth_same d d"
  by (simp add: auth_same_def)

lemma auth_same_rollback: "seqs_le d v \<Longrightarrow> auth_same d (auth_rollback d v)"
  by (simp add: auth_same_def auth_rollback_def seqs_le_def)

lemma auth_inv_same:
  assumes "auth_inv d" and "auth_same d v"
  shows "auth_inv v"
proof -
  have eq: "sessions v = sessions d" "access_tokens v = access_tokens d" "refresh_tokens v = refresh_tokens d"
    "refresh_idempotency_results v = refresh_idempotency_results d"
    and le: "sessions_seq d \<le> sessions_seq v" "refresh_tokens_seq d \<le> refresh_tokens_seq v"
    using assms(2) unfolding auth_same_def by blast+
  have parts: "sessions_ok d" "access_ok d" "refresh_ok d" "results_ok d" using assms(1) unfolding auth_inv_def by blast+
  have "sessions_ok v" using parts(1) le(1) unfolding sessions_ok_def eq by (meson order_less_le_trans)
  moreover have "access_ok v" using parts(2) unfolding access_ok_def eq .
  moreover have "refresh_ok v" using parts(3) le(2) unfolding refresh_ok_def eq by (meson order_less_le_trans)
  moreover have "results_ok v" using parts(4) unfolding results_ok_def eq .
  ultimately show ?thesis unfolding auth_inv_def by blast
qed

lemma keeps_refl [simp]: "keeps d d"
  unfolding keeps_def by blast

lemma keeps_same: "auth_same d v \<Longrightarrow> keeps d v"
  unfolding keeps_def auth_same_def by auto

lemma keeps_trans:
  assumes "keeps a b" and "keeps b c"
  shows "keeps a c"
  unfolding keeps_def
proof (intro conjI ballI)
  fix s
  assume "s \<in> set (sessions a)"
  then obtain s1 where s1: "s1 \<in> set (sessions b)" "s_id s1 = s_id s" "s_user_id s1 = s_user_id s" "s_created_at s1 = s_created_at s"
    "s_device_id s1 = s_device_id s" "s_revoked_at s \<noteq> None \<longrightarrow> s_revoked_at s1 \<noteq> None"
    using assms(1) unfolding keeps_def by blast
  then obtain s2 where "s2 \<in> set (sessions c)" "s_id s2 = s_id s1" "s_user_id s2 = s_user_id s1" "s_created_at s2 = s_created_at s1"
    "s_device_id s2 = s_device_id s1" "s_revoked_at s1 \<noteq> None \<longrightarrow> s_revoked_at s2 \<noteq> None"
    using assms(2) unfolding keeps_def by blast
  then show "\<exists>s' \<in> set (sessions c). s_id s' = s_id s \<and> s_user_id s' = s_user_id s \<and> s_created_at s' = s_created_at s
      \<and> s_device_id s' = s_device_id s \<and> (s_revoked_at s \<noteq> None \<longrightarrow> s_revoked_at s' \<noteq> None)"
    using s1 by (intro bexI [of _ s2]) simp_all
next
  fix r
  assume "r \<in> set (refresh_tokens a)"
  then obtain r1 where r1: "r1 \<in> set (refresh_tokens b)" "r_id r1 = r_id r" "r_token_hash r1 = r_token_hash r"
    "r_session_id r1 = r_session_id r" "r_consumed_at r \<noteq> None \<longrightarrow> r_consumed_at r1 \<noteq> None"
    using assms(1) unfolding keeps_def by blast
  then obtain r2 where "r2 \<in> set (refresh_tokens c)" "r_id r2 = r_id r1" "r_token_hash r2 = r_token_hash r1"
    "r_session_id r2 = r_session_id r1" "r_consumed_at r1 \<noteq> None \<longrightarrow> r_consumed_at r2 \<noteq> None"
    using assms(2) unfolding keeps_def by blast
  then show "\<exists>r' \<in> set (refresh_tokens c). r_id r' = r_id r \<and> r_token_hash r' = r_token_hash r
      \<and> r_session_id r' = r_session_id r \<and> (r_consumed_at r \<noteq> None \<longrightarrow> r_consumed_at r' \<noteq> None)"
    using r1 by (intro bexI [of _ r2]) simp_all
next
  show "set (refresh_idempotency_results a) \<subseteq> set (refresh_idempotency_results c)" "set (access_tokens a) \<subseteq> set (access_tokens c)"
    using assms unfolding keeps_def by blast+
qed

section \<open>What each change of a table keeps\<close>

lemma auth_invD:
  assumes "auth_inv d"
  shows "sessions_ok d" "access_ok d" "refresh_ok d" "results_ok d"
  using assms unfolding auth_inv_def by blast+

text \<open>The invariant reads only the four tables and two sequences; other fields may change freely.\<close>

lemma add_session:
  assumes "auth_inv d" and "s_id s = sessions_seq d"
    and "sessions v = sessions d @ [s]" "access_tokens v = access_tokens d" "refresh_tokens v = refresh_tokens d"
    and "refresh_idempotency_results v = refresh_idempotency_results d"
    and "sessions_seq v = sessions_seq d + 1" "refresh_tokens_seq v = refresh_tokens_seq d"
  shows "auth_inv v" and "keeps d v" and "\<forall>r \<in> set (refresh_tokens v). r_session_id r \<noteq> s_id s"
proof -
  note ok = auth_invD [OF assms(1)]
  have fresh: "s_id s \<notin> s_id ` set (sessions d)" using ok(1) assms(2) unfolding sessions_ok_def by (metis imageE less_irrefl)
  have "sessions_ok v" using ok(1) fresh unfolding sessions_ok_def assms(3,7) by (auto simp: assms(2))
  moreover have "access_ok v" using ok(2) unfolding access_ok_def assms(3,4) by auto
  moreover have "refresh_ok v" using ok(3) unfolding refresh_ok_def assms(3,5,8) by simp
  moreover have "results_ok v" using ok(4) unfolding results_ok_def assms(5,6) .
  ultimately show "auth_inv v" unfolding auth_inv_def by blast
  show "keeps d v" unfolding keeps_def assms(3,4,5,6) by auto
  show "\<forall>r \<in> set (refresh_tokens v). r_session_id r \<noteq> s_id s"
    using ok(3) fresh unfolding refresh_ok_def assms(5) by metis
qed

lemma add_access:
  assumes "auth_inv d" and "a_token_hash a \<notin> a_token_hash ` set (access_tokens d)" and "a_session_id a \<in> s_id ` set (sessions d)"
    and "sessions v = sessions d" "access_tokens v = access_tokens d @ [a]" "refresh_tokens v = refresh_tokens d"
    and "refresh_idempotency_results v = refresh_idempotency_results d"
    and "sessions_seq v = sessions_seq d" "refresh_tokens_seq v = refresh_tokens_seq d"
  shows "auth_inv v" and "keeps d v"
proof -
  note ok = auth_invD [OF assms(1)]
  have "sessions_ok v" using ok(1) unfolding sessions_ok_def assms(4,8) .
  moreover have "access_ok v" using ok(2) assms(2,3) unfolding access_ok_def assms(4,5) by auto
  moreover have "refresh_ok v" using ok(3) unfolding refresh_ok_def assms(4,6,9) .
  moreover have "results_ok v" using ok(4) unfolding results_ok_def assms(6,7) .
  ultimately show "auth_inv v" unfolding auth_inv_def by blast
  show "keeps d v" unfolding keeps_def assms(4,5,6,7) by auto
qed

lemma add_refresh:
  assumes "auth_inv d" and "r_token_hash r \<notin> r_token_hash ` set (refresh_tokens d)" and "r_session_id r \<in> s_id ` set (sessions d)"
    and "r_id r = refresh_tokens_seq d" and "\<forall>x \<in> set (refresh_tokens d). r_session_id x = r_session_id r \<longrightarrow> r_consumed_at x \<noteq> None"
    and "sessions v = sessions d" "access_tokens v = access_tokens d" "refresh_tokens v = refresh_tokens d @ [r]"
    and "refresh_idempotency_results v = refresh_idempotency_results d"
    and "sessions_seq v = sessions_seq d" "refresh_tokens_seq v = refresh_tokens_seq d + 1"
  shows "auth_inv v" and "keeps d v"
proof -
  note ok = auth_invD [OF assms(1)]
  have low: "\<forall>x \<in> set (refresh_tokens d). r_id x < r_id r" using ok(3) unfolding refresh_ok_def assms(4) by blast
  have "sessions_ok v" using ok(1) unfolding sessions_ok_def assms(6,10) .
  moreover have "access_ok v" using ok(2) unfolding access_ok_def assms(6,7) .
  moreover have "refresh_ok v" unfolding refresh_ok_def assms(6,8,11)
  proof (intro conjI ballI impI)
    show "distinct (map r_id (refresh_tokens d @ [r]))" using ok(3) low unfolding refresh_ok_def by auto
    show "distinct (map r_token_hash (refresh_tokens d @ [r]))" using ok(3) assms(2) unfolding refresh_ok_def by simp
  next
    fix x
    assume "x \<in> set (refresh_tokens d @ [r])"
    then have x: "x \<in> set (refresh_tokens d) \<or> x = r" by auto
    then show "r_id x < refresh_tokens_seq d + 1" using low assms(4) by fastforce
    show "r_session_id x \<in> s_id ` set (sessions d)" using x ok(3) assms(3) unfolding refresh_ok_def by blast
  next
    show "one_open (refresh_tokens d @ [r])" unfolding one_open_def
    proof (intro ballI impI)
      fix x y
      assume x: "x \<in> set (refresh_tokens d @ [r])" and y: "y \<in> set (refresh_tokens d @ [r])"
        and eq: "r_session_id x = r_session_id y" "r_consumed_at x = None" "r_consumed_at y = None"
      show "r_id x = r_id y"
      proof (cases "x = r \<or> y = r")
        case True
        then show ?thesis using x y eq assms(5) by auto
      next
        case False
        then have "x \<in> set (refresh_tokens d)" "y \<in> set (refresh_tokens d)" using x y by simp_all
        then show ?thesis using eq ok(3) unfolding refresh_ok_def one_open_def by blast
      qed
    qed
  qed
  moreover have "results_ok v" using ok(4) unfolding results_ok_def assms(8,9) by auto
  ultimately show "auth_inv v" unfolding auth_inv_def by blast
  show "keeps d v" unfolding keeps_def assms(6,7,8,9) by auto
qed

lemma change_sessions:
  assumes "auth_inv d"
    and "\<And>s. s_id (f s) = s_id s \<and> s_user_id (f s) = s_user_id s \<and> s_created_at (f s) = s_created_at s \<and> s_device_id (f s) = s_device_id s
         \<and> (s_revoked_at s \<noteq> None \<longrightarrow> s_revoked_at (f s) \<noteq> None)"
    and "sessions v = update_rows p f (sessions d)" "access_tokens v = access_tokens d" "refresh_tokens v = refresh_tokens d"
    and "refresh_idempotency_results v = refresh_idempotency_results d"
    and "sessions_seq v = sessions_seq d" "refresh_tokens_seq v = refresh_tokens_seq d"
  shows "auth_inv v" and "keeps d v"
proof -
  note ok = auth_invD [OF assms(1)]
  have ids: "map s_id (sessions v) = map s_id (sessions d)" unfolding assms(3) by (rule map_update_rows_key) (simp add: assms(2))
  then have id_set: "s_id ` set (sessions v) = s_id ` set (sessions d)" by (metis set_map)
  have "sessions_ok v"
  proof -
    have "s_id s < sessions_seq d" if "s \<in> set (sessions v)" for s
    proof -
      have "s_id s \<in> s_id ` set (sessions d)" using that id_set by blast
      then show ?thesis using ok(1) unfolding sessions_ok_def by auto
    qed
    then show ?thesis using ok(1) ids unfolding sessions_ok_def assms(7) by simp
  qed
  moreover have "access_ok v" using ok(2) unfolding access_ok_def id_set assms(4) .
  moreover have "refresh_ok v" using ok(3) unfolding refresh_ok_def id_set assms(5,8) .
  moreover have "results_ok v" using ok(4) unfolding results_ok_def assms(5,6) .
  ultimately show "auth_inv v" unfolding auth_inv_def by blast
  have "\<exists>s' \<in> set (sessions v). s_id s' = s_id s \<and> s_user_id s' = s_user_id s \<and> s_created_at s' = s_created_at s
      \<and> s_device_id s' = s_device_id s \<and> (s_revoked_at s \<noteq> None \<longrightarrow> s_revoked_at s' \<noteq> None)" if "s \<in> set (sessions d)" for s
  proof (rule bexI [of _ "if p s then f s else s"])
    show "(if p s then f s else s) \<in> set (sessions v)" using that unfolding assms(3) set_update_rows by blast
  qed (use assms(2) [of s] in \<open>cases "p s"; simp del: not_None_eq\<close>)
  then show "keeps d v" unfolding keeps_def assms(4,5,6) by blast
qed

lemma consume_token:
  assumes "auth_inv d" and "rt \<in> set (refresh_tokens d)" and "r_consumed_at rt = None"
  shows "auth_inv (consumeToken env rt d)" and "keeps d (consumeToken env rt d)"
    and "\<forall>x \<in> set (refresh_tokens (consumeToken env rt d)). r_session_id x = r_session_id rt \<longrightarrow> r_consumed_at x \<noteq> None"
proof -
  note ok = auth_invD [OF assms(1)]
  let ?v = "consumeToken env rt d"
  let ?f = "\<lambda>r. if r_id r = r_id rt then r\<lparr>r_consumed_at := Some (ae_now env AtAuthBegin)\<rparr> else r"
  have same: "sessions ?v = sessions d" "access_tokens ?v = access_tokens d"
    "refresh_idempotency_results ?v = refresh_idempotency_results d" "sessions_seq ?v = sessions_seq d"
    "refresh_tokens_seq ?v = refresh_tokens_seq d" by (simp_all add: consumeToken_def)
  have tokens: "refresh_tokens ?v = map ?f (refresh_tokens d)" by (simp add: consumeToken_def update_rows_def)
  have keys: "map r_id (refresh_tokens ?v) = map r_id (refresh_tokens d)" "map r_token_hash (refresh_tokens ?v) = map r_token_hash (refresh_tokens d)"
    unfolding tokens by simp_all
  have elem: "\<exists>x \<in> set (refresh_tokens d). r_id y = r_id x \<and> r_session_id y = r_session_id x \<and> (r_consumed_at y = None \<longrightarrow> r_consumed_at x = None \<and> r_id x \<noteq> r_id rt)"
    if "y \<in> set (refresh_tokens ?v)" for y
  proof -
    have "y \<in> ?f ` set (refresh_tokens d)" using that unfolding tokens set_map .
    then obtain x where "y = ?f x" "x \<in> set (refresh_tokens d)" by (rule imageE)
    then show ?thesis by (intro bexI [of _ x]) (cases "r_id x = r_id rt"; simp)+
  qed
  have one: "r_id x = r_id y" if "x \<in> set (refresh_tokens d)" "y \<in> set (refresh_tokens d)" "r_session_id x = r_session_id y"
      "r_consumed_at x = None" "r_consumed_at y = None" for x y
    using ok(3) that unfolding refresh_ok_def one_open_def by blast
  show gone: "\<forall>x \<in> set (refresh_tokens ?v). r_session_id x = r_session_id rt \<longrightarrow> r_consumed_at x \<noteq> None"
    using elem one assms(2,3) by metis
  have "refresh_ok ?v" unfolding refresh_ok_def keys same
  proof (intro conjI ballI impI)
    show "distinct (map r_id (refresh_tokens d))" "distinct (map r_token_hash (refresh_tokens d))"
      using ok(3) unfolding refresh_ok_def by blast+
  next
    fix y
    assume "y \<in> set (refresh_tokens ?v)"
    then show "r_id y < refresh_tokens_seq d" "r_session_id y \<in> s_id ` set (sessions d)"
      using elem ok(3) unfolding refresh_ok_def by metis+
  next
    show "one_open (refresh_tokens ?v)" unfolding one_open_def using elem one by metis
  qed
  moreover have "results_ok ?v" unfolding results_ok_def same
  proof (intro conjI ballI)
    show "distinct (map f_refresh_token_id (refresh_idempotency_results d))" using ok(4) unfolding results_ok_def by blast
  next
    fix f
    assume "f \<in> set (refresh_idempotency_results d)"
    then obtain r where "r \<in> set (refresh_tokens d)" "r_id r = f_refresh_token_id f" "r_consumed_at r \<noteq> None"
      using ok(4) unfolding results_ok_def by blast
    then show "\<exists>r \<in> set (refresh_tokens ?v). r_id r = f_refresh_token_id f \<and> r_consumed_at r \<noteq> None"
      unfolding tokens by (intro bexI [of _ "?f r"]) auto
  qed
  moreover have "sessions_ok ?v" using ok(1) unfolding sessions_ok_def same .
  moreover have "access_ok ?v" using ok(2) unfolding access_ok_def same .
  ultimately show "auth_inv ?v" unfolding auth_inv_def by blast
  have "\<exists>r' \<in> set (refresh_tokens ?v). r_id r' = r_id r \<and> r_token_hash r' = r_token_hash r
      \<and> r_session_id r' = r_session_id r \<and> (r_consumed_at r \<noteq> None \<longrightarrow> r_consumed_at r' \<noteq> None)" if "r \<in> set (refresh_tokens d)" for r
    using that unfolding tokens by (intro bexI [of _ "?f r"]) auto
  then show "keeps d ?v" unfolding keeps_def same by blast
qed

lemma add_result:
  assumes "auth_inv d" and "r \<in> set (refresh_tokens d)" "r_id r = f_refresh_token_id f" "r_consumed_at r \<noteq> None"
    and "f_refresh_token_id f \<notin> f_refresh_token_id ` set (refresh_idempotency_results d)"
    and "sessions v = sessions d" "access_tokens v = access_tokens d" "refresh_tokens v = refresh_tokens d"
    and "refresh_idempotency_results v = refresh_idempotency_results d @ [f]"
    and "sessions_seq v = sessions_seq d" "refresh_tokens_seq v = refresh_tokens_seq d"
  shows "auth_inv v" and "keeps d v"
proof -
  note ok = auth_invD [OF assms(1)]
  have "sessions_ok v" using ok(1) unfolding sessions_ok_def assms(6,10) .
  moreover have "access_ok v" using ok(2) unfolding access_ok_def assms(6,7) .
  moreover have "refresh_ok v" using ok(3) unfolding refresh_ok_def assms(6,8,11) .
  moreover have "results_ok v" using ok(4) assms(2-5) unfolding results_ok_def assms(8,9) by auto
  ultimately show "auth_inv v" unfolding auth_inv_def by blast
  show "keeps d v" unfolding keeps_def assms(6,7,8,9) by auto
qed

section \<open>Every transaction keeps the invariant\<close>

lemma seqs_le_refl [simp]: "seqs_le d d"
  by (simp add: seqs_le_def)

lemma seqs_le_trans: "seqs_le a b \<Longrightarrow> seqs_le b c \<Longrightarrow> seqs_le a c"
  by (simp add: seqs_le_def)

lemma createSessionResponse_seqs:
  "createSessionResponse cr env account device d = (x, v) \<Longrightarrow> seqs_le d v"
  unfolding createSessionResponse_def Let_def
  by (auto split: option.splits if_splits elim!: andThen_seqs intro: statement_seqs)

lemma createSessionResponse_Inr:
  assumes "createSessionResponse cr env account device d = (Inr r, v)"
  obtains access k w1 w2 where
    "insertSession env (u_ID account) (ar_DeviceID r) (ar_RefreshTokenExpiresAt r) d = (Inr (ar_SessionID r), w1)"
    "insertAccessToken env (ar_SessionID r) (gt_hash access) (ar_AccessTokenExpiresAt r) w1 = (Inr (), w2)"
    "insertRefreshToken env (ar_SessionID r) None k (ar_RefreshTokenExpiresAt r) w2 = (Inr (), v)"
    "newToken (cr_sha256 cr) (ae_random env ForAccess) = Some access" "ar_AccessToken r = gt_raw access"
proof -
  obtain device' access fresh where given:
    "(if device = [] then map_option gt_raw (newToken (cr_sha256 cr) (ae_random env ForDevice)) else Some device) = Some device'"
    "newToken (cr_sha256 cr) (ae_random env ForAccess) = Some access"
    "newToken (cr_sha256 cr) (ae_random env ForRefresh) = Some fresh"
    using assms unfolding createSessionResponse_def Let_def
    by (cases "newToken (cr_sha256 cr) (ae_random env ForAccess)"; cases "newToken (cr_sha256 cr) (ae_random env ForRefresh)")
       (simp_all split: option.splits)
  show ?thesis using assms unfolding createSessionResponse_def Let_def given
    by (auto simp: andThen_Inr intro!: that [OF _ _ _ given(2)])
qed

lemma create_session:
  assumes "auth_inv d" and "createSessionResponse cr env account device d = (Inr r, v)"
  shows "auth_inv v" and "keeps d v" and "seqs_le d v"
proof -
  from assms(2) obtain access k w1 w2 where
    "insertSession env (u_ID account) (ar_DeviceID r) (ar_RefreshTokenExpiresAt r) d = (Inr (ar_SessionID r), w1)"
    "insertAccessToken env (ar_SessionID r) (gt_hash access) (ar_AccessTokenExpiresAt r) w1 = (Inr (), w2)"
    "insertRefreshToken env (ar_SessionID r) None k (ar_RefreshTokenExpiresAt r) w2 = (Inr (), v)"
    "newToken (cr_sha256 cr) (ae_random env ForAccess) = Some access" "ar_AccessToken r = gt_raw access"
    by (rule createSessionResponse_Inr)
  note steps = insertSession_Inr [OF this(1)] insertAccessToken_Inr [OF this(2)] insertRefreshToken_Inr [OF this(3)]
  have 1: "auth_inv w1" "keeps d w1" "\<forall>x \<in> set (refresh_tokens w1). r_session_id x \<noteq> ar_SessionID r"
    using add_session [OF assms(1), where v = w1 and s = "last (sessions w1)"] steps(1) by simp_all
  have s_in: "ar_SessionID r \<in> s_id ` set (sessions w1)" using steps(1) by simp
  have 2: "auth_inv w2" "keeps w1 w2"
    using add_access [OF 1(1), where v = w2 and a = "last (access_tokens w2)"] steps(2) s_in by simp_all
  have 3: "auth_inv v" "keeps w2 v"
    using add_refresh [OF 2(1), where v = v and r = "last (refresh_tokens v)"] steps(2,3) s_in 1(3) by simp_all
  show "auth_inv v" by (fact 3(1))
  show "keeps d v" using 1(2) 2(2) 3(2) by (blast intro: keeps_trans)
  show "seqs_le d v" using assms(2) by (rule createSessionResponse_seqs)
qed

text \<open>A transaction that keeps the invariant and takes nothing back.\<close>

definition evolves :: "db \<Rightarrow> db \<Rightarrow> bool" where
  "evolves d v \<longleftrightarrow> (auth_inv d \<longrightarrow> auth_inv v \<and> keeps d v)"

lemma evolves_trans: "evolves a b \<Longrightarrow> evolves b c \<Longrightarrow> evolves a c"
  unfolding evolves_def by (blast intro: keeps_trans)

lemma evolves_same: "auth_same d v \<Longrightarrow> evolves d v"
  unfolding evolves_def by (blast intro: auth_inv_same keeps_same)

lemma evolves_refl [simp]: "evolves d d"
  by (simp add: evolves_same)

lemma evolves_rollback: "seqs_le d v \<Longrightarrow> evolves d (auth_rollback d v)"
  by (blast intro: evolves_same auth_same_rollback)

lemma evolves_commit: "evolves d v \<Longrightarrow> seqs_le d v \<Longrightarrow> evolves d (snd (auth_commit env d v))"
  by (simp add: auth_commit_def evolves_rollback split: commit_outcome.splits)

lemma insertUser_same: "insertUser env name disp hash d = (x, v) \<Longrightarrow> auth_same d v"
  by (auto simp: insertUser_def auth_same_def Let_def split: if_splits)

lemma insertLoginResult_same: "insertLoginResult env row d = (x, v) \<Longrightarrow> auth_same d v"
  by (auto simp: insertLoginResult_def auth_same_def split: if_splits)

lemma create_session_evolves:
  "createSessionResponse cr env account device d = (Inr r, v) \<Longrightarrow> evolves d v"
  unfolding evolves_def by (blast intro: create_session)

lemma register_evolves: "evolves d (snd (register cr env limiter body d))"
proof -
  have body: "evolves d (snd (case insertUser env n dn h d of
                         (Inl UniqueViolation, v) \<Rightarrow> (APIError 409 a b, auth_rollback d v)
                       | (Inl _, v) \<Rightarrow> (internalAuthError c, auth_rollback d v)
                       | (Inr created, v) \<Rightarrow>
                         (case createSessionResponse cr env created device v of
                            (Inl _, w) \<Rightarrow> (internalAuthError c, auth_rollback d w)
                          | (Inr response, w) \<Rightarrow>
                            (case auth_commit env d w of (ok, d') \<Rightarrow>
                               (if ok then JSON 201 response else internalAuthError c, d')))))" for n dn h device a b c
  proof (cases "insertUser env n dn h d")
    case (Pair x v)
    have same: "auth_same d v" and le: "seqs_le d v" using insertUser_same [OF Pair] statement_seqs(7) [OF Pair] .
    show ?thesis
    proof (cases x)
      case (Inl e)
      then show ?thesis using Pair le by (cases e) (simp_all add: evolves_rollback)
    next
      case (Inr created)
      obtain y w where w: "createSessionResponse cr env created device v = (y, w)" by fastforce
      have le': "seqs_le d w" using le createSessionResponse_seqs [OF w] by (rule seqs_le_trans)
      show ?thesis
      proof (cases y)
        case (Inl e)
        then show ?thesis using Pair Inr w le' by (simp add: evolves_rollback)
      next
        case (Inr response)
        have "evolves d w" using evolves_same [OF same] create_session_evolves w Inr by (blast intro: evolves_trans)
        then show ?thesis using Pair \<open>x = Inr created\<close> w Inr evolves_commit [OF _ le', of env]
          by (simp add: case_prod_unfold Let_def)
      qed
    qed
  qed
  show ?thesis unfolding register_def Let_def
    by (auto simp: body simp del: not_None_eq split: option.split admission_result.split)
qed

lemma login_evolves:
  assumes "alone env"
  shows "evolves d (snd (createIdempotentLogin cr env cipher account hash device request d))"
proof -
  let ?row = "\<lambda>r encrypted nonce. \<lparr>l_request_id_hash = request, l_user_id = u_ID account,
                     l_session_id = ar_SessionID r, l_encrypted_response = encrypted, l_nonce = nonce,
                     l_key_version = ci_keyVersion cipher, l_expires_at = ae_clock env AtResult + idempotencyLifetime\<rparr>"
  have others: "ae_others env p v = v" for p v using assms by (simp add: alone_def)
  obtain y v where v: "createSessionResponse cr env account device d = (y, v)" by fastforce
  have le: "seqs_le d v" using v by (rule createSessionResponse_seqs)
  have inserted: "evolves d (snd (case insertLoginResult env (?row r e n) v of
                (Inl UniqueViolation, w) \<Rightarrow>
                  (case loadLoginResult cr env AtReload cipher request (u_ID account) (ae_others env AtReload (auth_rollback d w)) of
                        Inl _ \<Rightarrow> (Inl LoginFailed, ae_others env AtReload (auth_rollback d w))
                      | Inr None \<Rightarrow> (Inl IdempotencyConflict, ae_others env AtReload (auth_rollback d w))
                      | Inr (Some existing) \<Rightarrow> (Inr existing, ae_others env AtReload (auth_rollback d w)))
              | (Inl _, w) \<Rightarrow> (Inl LoginFailed, auth_rollback d w)
              | (Inr _, w) \<Rightarrow> (case auth_commit env d w of (ok, d') \<Rightarrow> (if ok then Inr r else Inl LoginFailed, d'))))"
    if "y = Inr r" for r e n
  proof (cases "insertLoginResult env (?row r e n) v")
    case (Pair x w)
    have le': "seqs_le d w" using le statement_seqs(6) [OF Pair] by (rule seqs_le_trans)
    have "evolves d v" using v that by (blast intro: create_session_evolves)
    then have good: "evolves d w" using evolves_same [OF insertLoginResult_same [OF Pair]] by (rule evolves_trans)
    show ?thesis
    proof (cases x)
      case (Inl err)
      then show ?thesis using Pair le' by (cases err) (simp_all add: others evolves_rollback split: sum.split option.split)
    next
      case (Inr u)
      then show ?thesis using Pair evolves_commit [OF good le', of env] by (simp add: case_prod_unfold)
    qed
  qed
  show ?thesis
  proof (cases y)
    case (Inl err)
    then show ?thesis using v le unfolding createIdempotentLogin_def Let_def
      by (simp add: evolves_rollback split: option.split)
  next
    case (Inr r)
    then show ?thesis using v le inserted [OF Inr] unfolding createIdempotentLogin_def Let_def
      by (simp add: evolves_rollback split: option.split)
  qed
qed

lemma extendSession_Inr:
  "extendSession env idle i d = (Inr x, v) \<Longrightarrow>
   v = d\<lparr>sessions := update_rows (\<lambda>s. s_id s = i) (\<lambda>s. s\<lparr>s_idle_expires_at := idle\<rparr>) (sessions d)\<rparr>"
  by (auto simp: extendSession_def split: if_splits)

lemma insertRefreshResult_Inr:
  "insertRefreshResult env row d = (Inr x, v) \<Longrightarrow>
   f_refresh_token_id row \<notin> f_refresh_token_id ` set (refresh_idempotency_results d) \<and>
   v = d\<lparr>refresh_idempotency_results := refresh_idempotency_results d @ [row]\<rparr>"
  by (auto simp: insertRefreshResult_def list_ex_iff split: if_splits)

lemma find_session_Some: "find_session d i = Some s \<Longrightarrow> s \<in> set (sessions d) \<and> s_id s = i"
  unfolding find_session_def find_Some_iff by auto

lemma find_member: "find p xs = Some x \<Longrightarrow> x \<in> set xs \<and> p x"
  unfolding find_Some_iff by auto

text \<open>The writes of a rotation, from the token that is consumed to the stored result.\<close>

lemma rotation_evolves:
  assumes "auth_inv d" and rt: "rt \<in> set (refresh_tokens d)" "r_consumed_at rt = None" and s: "s \<in> set (sessions d)" "s_id s = r_session_id rt"
    and 1: "insertAccessToken env (s_id s) h e1 (consumeToken env rt d) = (Inr (), w1)"
    and 2: "insertRefreshToken env (s_id s) parent k e2 w1 = (Inr (), w2)"
    and 3: "extendSession env e3 (s_id s) w2 = (Inr (), w3)"
    and 4: "insertRefreshResult env row w3 = (Inr (), v)" and row: "f_refresh_token_id row = r_id rt"
  shows "auth_inv v" and "keeps d v"
proof -
  let ?c = "consumeToken env rt d"
  note c = consume_token [OF assms(1) rt, of env]
  note steps = insertAccessToken_Inr [OF 1] insertRefreshToken_Inr [OF 2] extendSession_Inr [OF 3] insertRefreshResult_Inr [OF 4]
  have s_in: "s_id s \<in> s_id ` set (sessions ?c)" using s(1) by (simp add: consumeToken_def)
  have a: "auth_inv w1" "keeps ?c w1"
    using add_access [OF c(1), where v = w1 and a = "last (access_tokens w1)"] steps(1) s_in by simp_all
  have b: "auth_inv w2" "keeps w1 w2"
    using add_refresh [OF a(1), where v = w2 and r = "last (refresh_tokens w2)"] steps(1,2) s_in c(3) s(2) by simp_all
  have e: "auth_inv w3" "keeps w2 w3"
    using change_sessions [OF b(1), where v = w3 and p = "\<lambda>x. s_id x = s_id s" and f = "\<lambda>x. x\<lparr>s_idle_expires_at := e3\<rparr>"] steps(3)
    by simp_all
  have tokens: "refresh_tokens w3 = refresh_tokens ?c @ [last (refresh_tokens w2)]" using steps(1-3) by simp
  let ?spent = "rt\<lparr>r_consumed_at := Some (ae_now env AtAuthBegin)\<rparr>"
  have "?spent \<in> set (refresh_tokens ?c)" using rt(1) by (auto simp: consumeToken_def update_rows_def)
  then have f: "auth_inv v" "keeps w3 v"
    using add_result [OF e(1), where v = v and f = row and r = ?spent] steps(4) tokens row by simp_all
  show "auth_inv v" by (fact f(1))
  show "keeps d v" using c(2) a(2) b(2) e(2) f(2) by (blast intro: keeps_trans)
qed

lemma rotation_seqs:
  assumes "andThen (insertAccessToken env i h e1) (\<lambda>_. andThen (insertRefreshToken env i parent k e2) (\<lambda>_.
             andThen (extendSession env e3 i) (\<lambda>_. store))) (consumeToken env rt d) = (x, v)"
    and "\<And>w y u. store w = (y, u) \<Longrightarrow> seqs_le w u"
  shows "seqs_le d v"
proof -
  have "seqs_le d (consumeToken env rt d)" by (simp add: seqs_le_def consumeToken_def)
  moreover have "seqs_le (consumeToken env rt d) v"
    using assms(1) by (elim andThen_seqs) (blast intro: statement_seqs assms(2))+
  ultimately show ?thesis by (rule seqs_le_trans)
qed

lemma revoke_rows_evolves:
  assumes "\<And>s. \<exists>t. f s = s\<lparr>s_revoked_at := Some t\<rparr>"
    and "sessions v = update_rows p f (sessions d)" "access_tokens v = access_tokens d" "refresh_tokens v = refresh_tokens d"
    and "refresh_idempotency_results v = refresh_idempotency_results d"
    and "sessions_seq v = sessions_seq d" "refresh_tokens_seq v = refresh_tokens_seq d"
  shows "evolves d v"
proof -
  have "s_id (f s) = s_id s \<and> s_user_id (f s) = s_user_id s \<and> s_created_at (f s) = s_created_at s \<and> s_device_id (f s) = s_device_id s
         \<and> (s_revoked_at s \<noteq> None \<longrightarrow> s_revoked_at (f s) \<noteq> None)" for s
    using assms(1) [of s] by (elim exE) simp
  then show ?thesis unfolding evolves_def using change_sessions [OF _ _ assms(2-7)] by blast
qed

lemma revokeReplayed_evolves: "evolves d (snd (snd (revokeReplayed env u i d)))"
proof -
  let ?v = "d\<lparr>sessions := update_rows (\<lambda>s. s_id s = i)
    (\<lambda>s. s\<lparr>s_revoked_at := (case s_revoked_at s of None \<Rightarrow> Some (ae_now env AtAuthBegin) | Some t \<Rightarrow> Some t)\<rparr>) (sessions d)\<rparr>"
  have "evolves d ?v"
    by (rule revoke_rows_evolves [where p = "\<lambda>s. s_id s = i" and
          f = "\<lambda>s. s\<lparr>s_revoked_at := (case s_revoked_at s of None \<Rightarrow> Some (ae_now env AtAuthBegin) | Some t \<Rightarrow> Some t)\<rparr>"])
       (auto split: option.split)
  then have "evolves d (snd (auth_commit env d ?v))" by (rule evolves_commit) (simp add: seqs_le_def)
  then show ?thesis unfolding revokeReplayed_def Let_def by (simp add: case_prod_unfold)
qed

lemma handleUsed_evolves: "evolves d (snd (snd (handleUsedOrInvalidRefresh cr env cipher token key d)))"
  unfolding handleUsedOrInvalidRefresh_def
  by (simp add: revokeReplayed_evolves split: option.split)

lemma rotateRefreshToken_evolves: "evolves d (snd (snd (rotateRefreshToken cr env cipher token key d)))"
proof (cases "find (redeemable env token d) (refresh_tokens d)")
  case None
  then show ?thesis unfolding rotateRefreshToken_def by (simp add: handleUsed_evolves)
next
  case (Some rt)
  then have rt: "rt \<in> set (refresh_tokens d)" "r_consumed_at rt = None" by (auto dest: find_member simp: redeemable_def)
  show ?thesis
  proof (cases "find_session d (r_session_id rt)")
    case None
    then show ?thesis unfolding rotateRefreshToken_def Some by simp
  next
    case (Some s)
    note s = find_session_Some [OF Some]
    have commit: "evolves d (snd (snd (case andThen (insertAccessToken env (s_id s) h e1) (\<lambda>_.
                      andThen (insertRefreshToken env (s_id s) parent k e2) (\<lambda>_.
                      andThen (extendSession env e3 (s_id s)) (\<lambda>_. store))) (consumeToken env rt d) of
                   (Inl _, v) \<Rightarrow> (RotationFailed, None, auth_rollback d v)
                 | (Inr _, v) \<Rightarrow> (case auth_commit env d v of (ok, d') \<Rightarrow>
                     if ok then (Rotated r, None, d') else (RotationFailed, None, d')))))"
      if store: "store = (\<lambda>w. (Inl Unavailable, w)) \<or> (\<exists>row. store = insertRefreshResult env row \<and> f_refresh_token_id row = r_id rt)"
      for h e1 parent k e2 e3 store r
    proof (cases "andThen (insertAccessToken env (s_id s) h e1) (\<lambda>_.
                      andThen (insertRefreshToken env (s_id s) parent k e2) (\<lambda>_.
                      andThen (extendSession env e3 (s_id s)) (\<lambda>_. store))) (consumeToken env rt d)")
      case (Pair x v)
      have le: "seqs_le d v" using Pair by (rule rotation_seqs) (use store in \<open>auto intro: statement_seqs(5)\<close>)
      show ?thesis
      proof (cases x)
        case (Inl err)
        then show ?thesis using Pair le by (simp add: evolves_rollback)
      next
        case (Inr u)
        then obtain w1 w2 w3 row where chain: "insertAccessToken env (s_id s) h e1 (consumeToken env rt d) = (Inr (), w1)"
          "insertRefreshToken env (s_id s) parent k e2 w1 = (Inr (), w2)" "extendSession env e3 (s_id s) w2 = (Inr (), w3)"
          "insertRefreshResult env row w3 = (Inr (), v)" "f_refresh_token_id row = r_id rt"
          using Pair store unfolding andThen_Inr by (auto simp: andThen_Inr)
        have "evolves d v" unfolding evolves_def using rotation_evolves [OF _ rt conjunct1 [OF s] conjunct2 [OF s] chain] by blast
        then show ?thesis using Pair Inr evolves_commit [OF _ le, of env] by (simp add: case_prod_unfold)
      qed
    qed
    let ?account = "if ae_fails env AtAccount then None
               else find (\<lambda>u. Some (u_ID (ur_user u)) = map_option s_user_id (Some s)) (users d)"
    note found = \<open>find (redeemable env token d) (refresh_tokens d) = Some rt\<close> Some
    consider (bad) "ae_fails env AtAuthBegin \<or> ae_fails env AtConsume \<or> ?account = None
        \<or> newToken (cr_sha256 cr) (ae_random env ForAccess) = None \<or> newToken (cr_sha256 cr) (ae_random env ForRefresh) = None"
      | (good) account access fresh where "\<not> (ae_fails env AtAuthBegin \<or> ae_fails env AtConsume)" "?account = Some account"
        "newToken (cr_sha256 cr) (ae_random env ForAccess) = Some access" "newToken (cr_sha256 cr) (ae_random env ForRefresh) = Some fresh"
      by (metis not_None_eq)
    then show ?thesis
    proof cases
      case bad
      then have "snd (snd (rotateRefreshToken cr env cipher token key d)) = d" unfolding rotateRefreshToken_def
        by (elim disjE) (simp_all add: found split: option.split if_split_asm)
      then show ?thesis by simp
    next
      case good
      show ?thesis unfolding rotateRefreshToken_def found(1) option.case good(2-4) found(2) prod.case Let_def if_not_P [OF good(1)]
        by (rule commit) (auto split: option.split)
    qed
  qed
qed

lemma revoke_where_evolves: "evolves d (revoke_where now p d)"
  unfolding revoke_where_def
  by (rule revoke_rows_evolves [where p = "\<lambda>s. p s \<and> s_revoked_at s = None" and f = "\<lambda>s. s\<lparr>s_revoked_at := Some now\<rparr>"]) auto

lemma revoke_where_seqs: "seqs_le d (revoke_where now p d)"
  by (simp add: revoke_where_def seqs_le_def)

lemma exec_auto_evolves: "evolves d (snd (exec_auto env point d (revoke_where now p d)))"
  by (simp add: exec_auto_def revoke_where_evolves split: commit_outcome.split)

lemma commitPasswordChange_evolves: "evolves d (snd (snd (commitPasswordChange env u old new d)))"
proof -
  have "evolves d (snd (auth_commit env d (revoke_where now q (d\<lparr>users := x\<rparr>))))" for now q x
  proof (rule evolves_commit)
    have "auth_same d (d\<lparr>users := x\<rparr>)" by (simp add: auth_same_def)
    then show "evolves d (revoke_where now q (d\<lparr>users := x\<rparr>))"
      by (blast intro: evolves_same evolves_trans revoke_where_evolves)
    show "seqs_le d (revoke_where now q (d\<lparr>users := x\<rparr>))" by (simp add: revoke_where_def seqs_le_def)
  qed
  then show ?thesis unfolding commitPasswordChange_def Let_def by (simp add: case_prod_unfold)
qed

lemma auth_step_evolves: "auth_step d v \<Longrightarrow> evolves d v"
proof (induction rule: auth_step.induct)
  case (st_other d v)
  then show ?case by (rule evolves_same)
next
  case (st_logout d env u i)
  then show ?case using exec_auto_evolves unfolding logout_def Let_def by (simp add: case_prod_unfold)
next
  case (st_logoutAll d env u)
  then show ?case using exec_auto_evolves unfolding logoutAll_def Let_def by (simp add: case_prod_unfold)
next
  case (st_revoke d env u path)
  then show ?case using exec_auto_evolves unfolding revokeSession_def Let_def by (simp add: case_prod_unfold split: option.split)
qed (simp_all add: register_evolves login_evolves rotateRefreshToken_evolves commitPasswordChange_evolves)

lemma auth_steps_evolve: "auth_step\<^sup>*\<^sup>* d v \<Longrightarrow> evolves d v"
  by (induction rule: rtranclp_induct) (auto intro: evolves_trans auth_step_evolves)

section \<open>Handlers are runs of transactions\<close>

lemma statements_others:
  "insertSession (env\<lparr>ae_others := f\<rparr>) = insertSession env"
  "insertAccessToken (env\<lparr>ae_others := f\<rparr>) = insertAccessToken env"
  "insertRefreshToken (env\<lparr>ae_others := f\<rparr>) = insertRefreshToken env"
  "insertLoginResult (env\<lparr>ae_others := f\<rparr>) = insertLoginResult env"
  "auth_commit (env\<lparr>ae_others := f\<rparr>) = auth_commit env"
  "loadLoginResult cr (env\<lparr>ae_others := f\<rparr>) = loadLoginResult cr env"
  by (intro ext; simp add: insertSession_def insertAccessToken_def insertRefreshToken_def insertLoginResult_def
      auth_commit_def loadLoginResult_def cong: option.case_cong if_cong)+

lemma createSessionResponse_others:
  "createSessionResponse cr (env\<lparr>ae_others := f\<rparr>) account device d = createSessionResponse cr env account device d"
  unfolding createSessionResponse_def statements_others by simp

lemma createIdempotentLogin_others:
  fixes env :: auth_env
  defines "quiet \<equiv> env\<lparr>ae_others := \<lambda>_ x. x\<rparr>"
  shows "snd (createIdempotentLogin cr env cipher account hash device request d)
      \<in> {snd (createIdempotentLogin cr quiet cipher account hash device request d),
         ae_others env AtReload (snd (createIdempotentLogin cr quiet cipher account hash device request d))}"
proof (cases "find (\<lambda>r. u_ID (ur_user r) = u_ID account) (users d)")
  case None
  then show ?thesis by (simp add: createIdempotentLogin_def quiet_def)
next
  case (Some row)
  note defs = createIdempotentLogin_def quiet_def createSessionResponse_others statements_others Let_def
  obtain y v where v: "createSessionResponse cr env account device d = (y, v)" by fastforce
  show ?thesis
  proof (cases y)
    case (Inl e)
    then show ?thesis using v Some by (simp add: defs)
  next
    case created: (Inr r)
    show ?thesis
    proof (cases "encrypt (cr_seal cr) (cr_marshal cr) cipher (ae_random env ForNonce) ''login'' request r")
      case None
      then show ?thesis using v Some created by (simp add: defs)
    next
      case sealed: (Some pair)
      obtain encrypted nonce where pair: "pair = (encrypted, nonce)" by fastforce
      obtain x w where w: "insertLoginResult env \<lparr>l_request_id_hash = request, l_user_id = u_ID account, l_session_id = ar_SessionID r,
          l_encrypted_response = encrypted, l_nonce = nonce, l_key_version = ci_keyVersion cipher,
          l_expires_at = ae_clock env AtResult + idempotencyLifetime\<rparr> v = (x, w)" by fastforce
      show ?thesis
      proof (cases x)
        case (Inl e)
        then show ?thesis using v Some created sealed pair w
          by (cases e) (simp_all add: defs split: sum.split option.split)
      next
        case (Inr u)
        then show ?thesis using v Some created sealed pair w Inr by (simp add: defs case_prod_unfold)
      qed
    qed
  qed
qed

lemma login_answers_snd:
  "snd (case z of (Inl LoginCredentialsChanged, d') \<Rightarrow> (a, d') | (Inl IdempotencyConflict, d') \<Rightarrow> (b, d')
     | (Inl LoginFailed, d') \<Rightarrow> (c, d') | (Inr r, d') \<Rightarrow> (JSON 200 r, d')) = snd z"
  by (simp split: prod.split sum.split login_error.split)

lemma login_steps:
  assumes others: "\<And>p x. auth_step\<^sup>*\<^sup>* x (ae_others env p x)"
  shows "auth_step\<^sup>*\<^sup>* d (snd (login cr env limiter body d))"
proof -
  have created: "auth_step\<^sup>*\<^sup>* x (snd (createIdempotentLogin cr env cipher account hash device request x))"
    for cipher account hash device request x
  proof -
    have "auth_step x (snd (createIdempotentLogin cr (env\<lparr>ae_others := \<lambda>_ x. x\<rparr>) cipher account hash device request x))"
      by (rule st_login) (simp add: alone_def)
    then show ?thesis using createIdempotentLogin_others [of cr env cipher account hash device request x] others
      by (auto intro: converse_rtranclp_into_rtranclp)
  qed
  have "auth_step\<^sup>*\<^sup>* d (snd (createIdempotentLogin cr env cipher account hash device request (ae_others env AtAuthBegin (ae_others env AtLoad d))))"
    for cipher account hash device request
    by (rule rtranclp_trans [OF rtranclp_trans [OF others [of d AtLoad] others [of "ae_others env AtLoad d" AtAuthBegin]] created])
  then show ?thesis using others [of d AtLoad] unfolding login_def Let_def
    by (simp add: login_answers_snd split: option.split sum.split admission_result.split)
qed

lemma changePassword_steps:
  assumes others: "\<And>p x. auth_step\<^sup>*\<^sup>* x (ae_others env p x)"
  shows "auth_step\<^sup>*\<^sup>* d (snd (snd (changePassword cr env u body d)))"
  using others [of d AtAuthBegin] st_password unfolding changePassword_def Let_def
  by (auto intro: rtranclp.rtrancl_into_rtrancl split: option.split)

lemma refresh_steps: "auth_step\<^sup>*\<^sup>* d (snd (snd (refresh cr env limiter body d)))"
proof -
  have "auth_step d v" if "rotateRefreshToken cr env cipher token key d = (x, y, v)" for cipher token key x y v
    using st_rotate [of d cr env cipher token key] that by simp
  then show ?thesis unfolding refresh_def
    by (auto split: option.split prod.split admission_result.split rotation.split)
qed

end
