(* ===== verification/AuthSessions.thy ===== *)
theory AuthSessions
  imports Auth
begin

text \<open>
  What accounts, sessions and tokens promise: the invariant of the tables in every run, revocation
  that is final, replay of a refresh token that ends its session, the idempotent retry of a
  rotation, the race of a login with a password change, and tokens that authenticate their session.
\<close>

section \<open>Concrete accounts\<close>

definition alice :: user where
  "alice = \<lparr>u_ID = 1, u_Username = ''alice'', u_DisplayName = ''Alice''\<rparr>"

definition fixed_hash :: "byte_string \<Rightarrow> byte_string" where
  "fixed_hash s = take 32 (s @ replicate 32 (CHR ''.''))"

definition sample_response :: authResponse where
  "sample_response = \<lparr>ar_User = alice, ar_SessionID = 7, ar_DeviceID = ''phone'', ar_SessionExpiresAt = sessionAbsoluteLifetime,
     ar_AccessToken = EncodeToString url_alphabet (replicate 32 (CHR ''a'')), ar_AccessTokenExpiresAt = 1000 + accessTokenLifetime,
     ar_RefreshToken = EncodeToString url_alphabet (replicate 32 (CHR ''r'')), ar_RefreshTokenExpiresAt = 1000 + sessionIdleLifetime\<rparr>"

definition sample_crypto :: crypto where
  "sample_crypto = \<lparr>cr_sha256 = fixed_hash, cr_argon = toy_argon, cr_seal = toy_seal, cr_open = toy_open,
     cr_marshal = (\<lambda>r. EncodeToString url_alphabet (ar_AccessToken r)), cr_unmarshal = (\<lambda>_. Some sample_response), cr_lower = id\<rparr>"

definition sample_env :: "timestamp \<Rightarrow> auth_env" where
  "sample_env t = \<lparr>ae_fails = (\<lambda>_. False), ae_now = (\<lambda>_. t), ae_clock = (\<lambda>_. t),
     ae_random = (\<lambda>x. Some (replicate 32 (case x of ForAccess \<Rightarrow> CHR ''a'' | ForRefresh \<Rightarrow> CHR ''r'' | _ \<Rightarrow> CHR ''x''))),
     ae_others = (\<lambda>_ x. x), ae_commit = CommitOk, ae_cipher = Some old_ring\<rparr>"

definition sample_session :: session_row where
  "sample_session = \<lparr>s_id = 7, s_user_id = 1, s_device_id = ''phone'', s_idle_expires_at = 5000000, s_revoked_at = None, s_created_at = 0\<rparr>"

definition sample_token :: "timestamp option \<Rightarrow> refresh_token_row" where
  "sample_token consumed = \<lparr>r_id = 3, r_session_id = 7, r_parent_token_id = None, r_token_hash = replicate 32 (CHR ''o''),
     r_expires_at = 5000000, r_consumed_at = consumed\<rparr>"

definition sample_db :: "timestamp option \<Rightarrow> timestamp option \<Rightarrow> db" where
  "sample_db revoked consumed = empty_db\<lparr>users := [\<lparr>ur_user = alice, ur_password_hash = ''old''\<rparr>], users_seq := 2,
     sessions := [sample_session\<lparr>s_revoked_at := revoked\<rparr>], sessions_seq := 8,
     refresh_tokens := [sample_token consumed], refresh_tokens_seq := 4\<rparr>"

section \<open>Rows by their identity\<close>

lemma find_exists: "y \<in> set xs \<Longrightarrow> p y \<Longrightarrow> \<exists>x. find p xs = Some x"
  by (cases "find p xs") (auto simp: find_None_iff)

lemma session_by_id:
  assumes "auth_inv d" and "s \<in> set (sessions d)"
  shows "find_session d (s_id s) = Some s"
proof -
  have d: "distinct (map s_id (sessions d))" using auth_invD(1) [OF assms(1)] unfolding sessions_ok_def by blast
  obtain x where x: "find_session d (s_id s) = Some x" using assms(2) unfolding find_session_def by (fastforce simp: find_None_iff)
  then have "x = s" using find_session_Some [OF x] d assms(2) by (meson distinct_map inj_onD)
  then show ?thesis using x by simp
qed

lemma token_by_hash:
  assumes "auth_inv d" and "r \<in> set (refresh_tokens d)" and "x \<in> set (refresh_tokens d)" and "r_token_hash x = r_token_hash r"
  shows "x = r"
proof -
  have "distinct (map r_token_hash (refresh_tokens d))" using auth_invD(3) [OF assms(1)] unfolding refresh_ok_def by blast
  then show ?thesis using assms(2-4) by (meson distinct_map inj_onD)
qed

lemma find_token:
  assumes "auth_inv d" and "r \<in> set (refresh_tokens d)"
  shows "find (\<lambda>rt. r_token_hash rt = r_token_hash r) (refresh_tokens d) = Some r"
proof -
  obtain x where x: "find (\<lambda>rt. r_token_hash rt = r_token_hash r) (refresh_tokens d) = Some x"
    using assms(2) by (fastforce simp: find_None_iff)
  then show ?thesis using token_by_hash [OF assms] find_member [OF x] by blast
qed

lemma result_by_token:
  assumes "auth_inv d" and "f \<in> set (refresh_idempotency_results d)"
  shows "find (\<lambda>x. f_refresh_token_id x = f_refresh_token_id f) (refresh_idempotency_results d) = Some f"
proof -
  have d: "distinct (map f_refresh_token_id (refresh_idempotency_results d))"
    using auth_invD(4) [OF assms(1)] unfolding results_ok_def by blast
  obtain x where x: "find (\<lambda>x. f_refresh_token_id x = f_refresh_token_id f) (refresh_idempotency_results d) = Some x"
    using assms(2) by (fastforce simp: find_None_iff)
  then have "x = f" using find_member [OF x] d assms(2) by (meson distinct_map inj_onD)
  then show ?thesis using x by simp
qed

lemma not_redeemable:
  assumes "auth_inv d" and "r \<in> set (refresh_tokens d)" and "\<not> redeemable env (r_token_hash r) d r"
  shows "find (redeemable env (r_token_hash r) d) (refresh_tokens d) = None"
  unfolding find_None_iff using assms token_by_hash [OF assms(1,2)] unfolding redeemable_def by metis

lemma only_redeemable:
  assumes "auth_inv d" and "r \<in> set (refresh_tokens d)" and "redeemable env (r_token_hash r) d r"
  shows "find (redeemable env (r_token_hash r) d) (refresh_tokens d) = Some r"
proof -
  obtain x where x: "find (redeemable env (r_token_hash r) d) (refresh_tokens d) = Some x"
    using assms(2,3) by (fastforce simp: find_None_iff)
  then show ?thesis using token_by_hash [OF assms(1,2)] find_member [OF x] unfolding redeemable_def by blast
qed

section \<open>Revoked sessions\<close>

lemma revoked_in_runs:
  assumes "auth_inv d" and "s \<in> set (sessions d)" and "s_revoked_at s \<noteq> None" and "auth_step\<^sup>*\<^sup>* d v"
  obtains s' where "auth_inv v" "find_session v (s_id s) = Some s'" "s_revoked_at s' \<noteq> None"
proof -
  have inv: "auth_inv v" and "keeps d v" using auth_steps_evolve [OF assms(4)] assms(1) unfolding evolves_def by blast+
  then obtain s' where "s' \<in> set (sessions v)" "s_id s' = s_id s" "s_revoked_at s' \<noteq> None"
    using assms(2,3) unfolding keeps_def by blast
  then show ?thesis using that session_by_id [OF inv] inv by metis
qed

lemma found_session: "find_session d i = Some s \<Longrightarrow> find_session d (s_id s) = Some s"
  using find_session_Some by metis

lemma token_session_live:
  "token_session d now clock h = Some who \<Longrightarrow>
   \<exists>s. find_session d (au_SessionID who) = Some s \<and> live_session now clock s \<and> au_UserID who = s_user_id s"
  unfolding token_session_def by (force split: option.splits if_splits dest: found_session)

lemma authenticated_live:
  "requireAuthentication cr env header d = Inr who \<Longrightarrow>
   \<exists>s. find_session d (au_SessionID who) = Some s \<and> live_session (ae_now env AtCheck) (ae_clock env AtCheck) s \<and> au_UserID who = s_user_id s"
  unfolding requireAuthentication_def by (auto split: list.splits option.splits if_splits intro: token_session_live)

lemma sample_db_inv: "auth_inv (sample_db revoked consumed)"
  by (simp add: sample_db_def empty_db_def auth_inv_def sessions_ok_def access_ok_def refresh_ok_def results_ok_def one_open_def
      sample_session_def sample_token_def)

lemma revoked_rows:
  assumes "s \<in> set (sessions (revoke_where now p d))"
  shows "s_revoked_at s \<noteq> None \<or> (s \<in> set (sessions d) \<and> \<not> p s)"
proof -
  have "s \<in> (\<lambda>x. if p x \<and> s_revoked_at x = None then x\<lparr>s_revoked_at := Some now\<rparr> else x) ` set (sessions d)"
    using assms by (simp add: revoke_where_def set_update_rows)
  then obtain x where "s = (if p x \<and> s_revoked_at x = None then x\<lparr>s_revoked_at := Some now\<rparr> else x)" "x \<in> set (sessions d)"
    by (rule imageE)
  then show ?thesis by (cases "p x"; cases "s_revoked_at x") simp_all
qed

lemma password_change_done:
  assumes "commitPasswordChange env u old new d = (NoBody 204, orders, d')"
  shows "rows_affected (\<lambda>r. u_ID (ur_user r) = u \<and> ur_password_hash r = old) (users d) = 1 \<and> orders = [DisconnectUserOf u]
    \<and> d' = revoke_where (ae_now env AtAuthBegin) (\<lambda>s. s_user_id s = u)
             (d\<lparr>users := update_rows (\<lambda>r. u_ID (ur_user r) = u \<and> ur_password_hash r = old) (\<lambda>r. r\<lparr>ur_password_hash := new\<rparr>) (users d)\<rparr>)"
proof -
  let ?v = "revoke_where (ae_now env AtAuthBegin) (\<lambda>s. s_user_id s = u)
             (d\<lparr>users := update_rows (\<lambda>r. u_ID (ur_user r) = u \<and> ur_password_hash r = old) (\<lambda>r. r\<lparr>ur_password_hash := new\<rparr>) (users d)\<rparr>)"
  let ?p = "\<lambda>r. u_ID (ur_user r) = u \<and> ur_password_hash r = old"
  have fine: "\<not> (ae_fails env AtAuthBegin \<or> ae_fails env AtUser)" "rows_affected ?p (users d) = 1" "\<not> ae_fails env AtRevoke"
    by (rule ccontr; use assms in \<open>simp add: commitPasswordChange_def internalAuthError_def Let_def split: if_split_asm\<close>)+
  then have "(case auth_commit env d ?v of (ok, x) \<Rightarrow> if ok then (NoBody 204, [DisconnectUserOf u], x)
        else (internalAuthError ''could not change password'', [], x)) = (NoBody 204 :: unit response, orders, d')"
    using assms by (simp add: commitPasswordChange_def Let_def)
  then have "orders = [DisconnectUserOf u] \<and> d' = ?v"
    by (cases "ae_commit env") (simp_all add: auth_commit_def internalAuthError_def)
  then show ?thesis using fine(2) by blast
qed

section \<open>Properties\<close>

text \<open>
  C10: In every run of transactions by any clients under any faults the tables of accounts stay
  consistent (unique identities and hashes, tokens of existing sessions, at most one refresh token
  of a session open, results only of consumed tokens), nothing is taken back (a revoked session
  stays revoked, a consumed token stays consumed, stored results stay), and the handlers of login,
  refresh and password change, with transactions of others in between, are such runs.
\<close>

theorem sessions_stay_consistent:
  assumes "auth_inv d" and "auth_step\<^sup>*\<^sup>* d v"
  shows "auth_inv v \<and> keeps d v
    \<and> (\<forall>cr env limiter body. (\<forall>p x. auth_step\<^sup>*\<^sup>* x (ae_others env p x)) \<longrightarrow>
         auth_step\<^sup>*\<^sup>* v (snd (login cr env limiter body v)))
    \<and> (\<forall>cr env u body. (\<forall>p x. auth_step\<^sup>*\<^sup>* x (ae_others env p x)) \<longrightarrow>
         auth_step\<^sup>*\<^sup>* v (snd (snd (changePassword cr env u body v))))
    \<and> (\<forall>cr env limiter body. auth_step\<^sup>*\<^sup>* v (snd (snd (refresh cr env limiter body v))))"
proof -
  have "auth_inv v" "keeps d v" using auth_steps_evolve [OF assms(2)] assms(1) unfolding evolves_def by blast+
  then show ?thesis using login_steps changePassword_steps refresh_steps by blast
qed

lemma consistent_witness: "auth_inv (snd (snd (logoutAll (sample_env 9) 1 (sample_db None None))))"
  by (rule conjunct1 [OF sessions_stay_consistent [OF sample_db_inv]]) (rule r_into_rtranclp, rule st_logoutAll)

text \<open>
  C24: Revocation is final: after a session is revoked, in no later state does an access token
  authenticate as that session, and redeeming any refresh token of it fails or is refused with 401
  and changes nothing.
\<close>

theorem revoked_session_stays_out:
  assumes "auth_inv d" and "s \<in> set (sessions d)" and "s_revoked_at s \<noteq> None" and "auth_step\<^sup>*\<^sup>* d v"
  shows "(\<forall>cr env header who. requireAuthentication cr env header v = Inr who \<longrightarrow> au_SessionID who \<noteq> s_id s)
    \<and> (\<forall>r \<in> set (refresh_tokens v). r_session_id r = s_id s \<longrightarrow>
         (\<forall>cr env cipher key. rotateRefreshToken cr env cipher (r_token_hash r) key v
            \<in> {(RotationFailed, None, v), (RotationRefused 401, None, v)}))"
proof -
  obtain s' where inv: "auth_inv v" and s': "find_session v (s_id s) = Some s'" "s_revoked_at s' \<noteq> None"
    by (rule revoked_in_runs [OF assms])
  have dead: "\<not> live_session now clock s'" for now clock using s'(2) by (simp add: live_session_def)
  have "au_SessionID who \<noteq> s_id s" if "requireAuthentication cr env header v = Inr who" for cr env header who
    using authenticated_live [OF that] s'(1) dead by auto
  moreover have "rotateRefreshToken cr env cipher (r_token_hash r) key v \<in> {(RotationFailed, None, v), (RotationRefused 401, None, v)}"
    if r: "r \<in> set (refresh_tokens v)" "r_session_id r = s_id s" for r cr env cipher key
  proof -
    have "find (redeemable env (r_token_hash r) v) (refresh_tokens v) = None"
      using inv r(1) by (rule not_redeemable) (simp add: redeemable_def r(2) s'(1) dead)
    then show ?thesis using find_token [OF inv r(1)] s' r(2)
      by (simp add: rotateRefreshToken_def handleUsedOrInvalidRefresh_def)
  qed
  ultimately show ?thesis by blast
qed

lemma revoked_session_stays_out_witness:
  "rotateRefreshToken sample_crypto (sample_env 9) old_ring (replicate 32 (CHR ''o'')) ''k'' (sample_db (Some 5) None)
    \<in> {(RotationFailed, None, sample_db (Some 5) None), (RotationRefused 401, None, sample_db (Some 5) None)}"
  using revoked_session_stays_out [OF sample_db_inv [of "Some 5" None], of "sample_session\<lparr>s_revoked_at := Some 5\<rparr>" "sample_db (Some 5) None"]
  by (simp add: sample_db_def sample_session_def sample_token_def)

text \<open>
  C12: A refresh token presented again ends its session. If the token was consumed, the session is
  alive, and no unexpired result is stored under the presented idempotency key, then, unless the
  database fails, the answer is 401, the WebSocket connections of exactly this session are ordered
  to be closed, and the only change is that this session is revoked.
\<close>

theorem replay_revokes_the_session:
  assumes "auth_inv d" and "rt \<in> set (refresh_tokens d)" and "r_consumed_at rt \<noteq> None"
    and "s \<in> set (sessions d)" and "s_id s = r_session_id rt" and "s_revoked_at s = None"
    and "ae_clock env AtUsed < s_idle_expires_at s" and "ae_clock env AtUsed < s_created_at s + sessionAbsoluteLifetime"
    and "\<forall>f \<in> set (refresh_idempotency_results d). f_refresh_token_id f = r_id rt \<longrightarrow>
           f_idempotency_key_hash f \<noteq> key \<or> f_expires_at f \<le> ae_clock env AtStored"
    and "\<forall>p. \<not> ae_fails env p" and "ae_commit env = CommitOk"
  shows "\<exists>d'. rotateRefreshToken cr env cipher (r_token_hash rt) key d = (RotationRefused 401, Some (s_user_id s, s_id s), d')
    \<and> d' = d\<lparr>sessions := sessions d'\<rparr>
    \<and> (\<forall>i. find_session d' i = (if i = s_id s then Some (s\<lparr>s_revoked_at := Some (ae_now env AtAuthBegin)\<rparr>) else find_session d i))"
proof -
  let ?f = "\<lambda>s. s\<lparr>s_revoked_at := (case s_revoked_at s of None \<Rightarrow> Some (ae_now env AtAuthBegin) | Some t \<Rightarrow> Some t)\<rparr>"
  let ?d = "d\<lparr>sessions := update_rows (\<lambda>x. s_id x = s_id s) ?f (sessions d)\<rparr>"
  have none: "find (redeemable env (r_token_hash rt) d) (refresh_tokens d) = None"
    using assms(1,2) by (rule not_redeemable) (simp add: redeemable_def assms(3))
  have here: "find_session d (r_session_id rt) = Some s" using session_by_id [OF assms(1,4)] assms(5) by simp
  have "rotateRefreshToken cr env cipher (r_token_hash rt) key d = revokeReplayed env (s_user_id s) (s_id s) d"
    using none find_token [OF assms(1,2)] here assms(3,6-10)
    by (auto simp: rotateRefreshToken_def handleUsedOrInvalidRefresh_def split: option.split dest!: find_member)
  also have "\<dots> = (RotationRefused 401, Some (s_user_id s, s_id s), ?d)"
    using assms(10,11) by (simp add: revokeReplayed_def auth_commit_def)
  finally have run: "rotateRefreshToken cr env cipher (r_token_hash rt) key d = (RotationRefused 401, Some (s_user_id s, s_id s), ?d)" .
  have "find_session ?d i = (if i = s_id s then Some (?f s) else find_session d i)" for i
  proof -
    have "find_session ?d i = map_option (\<lambda>x. if s_id x = s_id s then ?f x else x) (find_session d i)"
      unfolding find_session_def by (simp add: find_update_rows)
    then show ?thesis using here assms(5) by (cases "find_session d i") (auto dest: find_session_Some)
  qed
  then show ?thesis using run assms(6) by (intro exI [of _ ?d]) simp
qed

lemma replay_witness:
  "\<exists>d'. rotateRefreshToken sample_crypto (sample_env 9) old_ring (replicate 32 (CHR ''o'')) ''k'' (sample_db None (Some 8))
     = (RotationRefused 401, Some (1, 7), d') \<and> find_session d' 7 = Some (sample_session\<lparr>s_revoked_at := Some 9\<rparr>)"
proof -
  have "\<exists>d'. rotateRefreshToken sample_crypto (sample_env 9) old_ring (r_token_hash (sample_token (Some 8))) ''k'' (sample_db None (Some 8))
      = (RotationRefused 401, Some (s_user_id sample_session, s_id sample_session), d') \<and> d' = (sample_db None (Some 8))\<lparr>sessions := sessions d'\<rparr>
      \<and> (\<forall>i. find_session d' i = (if i = s_id sample_session then Some (sample_session\<lparr>s_revoked_at := Some (ae_now (sample_env 9) AtAuthBegin)\<rparr>)
            else find_session (sample_db None (Some 8)) i))"
    by (rule replay_revokes_the_session [OF sample_db_inv])
       (simp_all add: sample_db_def sample_token_def sample_session_def sample_env_def empty_db_def sessionAbsoluteLifetime_def)
  then show ?thesis by (auto simp: sample_token_def sample_session_def sample_env_def)
qed

text \<open>
  C25: A password change and a login with the old password exclude each other: after the change
  commits every session of the account is revoked and its connections are ordered to be closed,
  and a login that had verified the old password before is refused and leaves the database as it is.
\<close>

theorem password_change_locks_out_old_logins:
  assumes "distinct (map (u_ID \<circ> ur_user) (users d))" and "old \<noteq> new"
    and "commitPasswordChange env u old new d = (NoBody 204, orders, d')"
    and "u_ID account = u" and "\<not> ae_fails env' AtAuthBegin" and "\<not> ae_fails env' AtHash"
  shows "orders = [DisconnectUserOf u]
    \<and> (\<forall>s \<in> set (sessions d'). s_user_id s = u \<longrightarrow> s_revoked_at s \<noteq> None)
    \<and> createIdempotentLogin cr env' cipher account old device request d' = (Inl LoginCredentialsChanged, d')"
proof -
  let ?p = "\<lambda>r. u_ID (ur_user r) = u \<and> ur_password_hash r = old"
  let ?g = "\<lambda>r. r\<lparr>ur_password_hash := new\<rparr>"
  note all = password_change_done [OF assms(3)]
  note one = conjunct1 [OF all] and orders = conjunct1 [OF conjunct2 [OF all]] and d' = conjunct2 [OF conjunct2 [OF all]]
  have "s_revoked_at s \<noteq> None" if "s \<in> set (sessions d')" "s_user_id s = u" for s
    using that unfolding d' by (blast dest: revoked_rows)
  moreover have "createIdempotentLogin cr env' cipher account old device request d' = (Inl LoginCredentialsChanged, d')"
  proof -
    obtain r where r: "r \<in> set (users d)" "?p r"
      using one unfolding rows_affected_def by (metis (mono_tags, lifting) filter_False length_0_conv zero_neq_one)
    obtain x where x: "find (\<lambda>r. u_ID (ur_user r) = u) (users d) = Some x" using r by (fastforce simp: find_None_iff)
    have "x = r" using find_member [OF x] r assms(1) by (simp add: distinct_map inj_on_def)
    then have "find (\<lambda>r. u_ID (ur_user r) = u) (users d') = Some (?g r)"
      using x r unfolding d' revoke_where_def by (simp add: find_update_rows)
    then show ?thesis using assms(2,4-6) by (simp add: createIdempotentLogin_def)
  qed
  ultimately show ?thesis using orders by blast
qed

lemma password_change_witness:
  "createIdempotentLogin sample_crypto (sample_env 10) old_ring alice ''old'' ''phone'' ''r''
     (snd (snd (commitPasswordChange (sample_env 9) 1 ''old'' ''new'' (sample_db None None))))
   = (Inl LoginCredentialsChanged, snd (snd (commitPasswordChange (sample_env 9) 1 ''old'' ''new'' (sample_db None None))))"
proof -
  let ?r = "commitPasswordChange (sample_env 9) 1 ''old'' ''new'' (sample_db None None)"
  have "fst ?r = NoBody 204"
    by (simp add: commitPasswordChange_def sample_env_def sample_db_def empty_db_def alice_def rows_affected_def auth_commit_def Let_def)
  then have "?r = (NoBody 204, fst (snd ?r), snd (snd ?r))" by (metis prod.collapse)
  from password_change_locks_out_old_logins [OF _ _ this, where account = alice and env' = "sample_env 10"]
  have "createIdempotentLogin sample_crypto (sample_env 10) old_ring alice ''old'' ''phone'' ''r'' (snd (snd ?r))
      = (Inl LoginCredentialsChanged, snd (snd ?r))"
    by (simp add: sample_db_def alice_def sample_env_def)
  then show ?thesis .
qed

section \<open>A rotation that succeeded\<close>

definition rotated_response :: "auth_env \<Rightarrow> session_row \<Rightarrow> user_row \<Rightarrow> generatedToken \<Rightarrow> generatedToken \<Rightarrow> authResponse" where
  "rotated_response env s account access fresh =
     \<lparr>ar_User = ur_user account, ar_SessionID = s_id s, ar_DeviceID = s_device_id s,
      ar_SessionExpiresAt = s_created_at s + sessionAbsoluteLifetime, ar_AccessToken = gt_raw access,
      ar_AccessTokenExpiresAt = minTime (ae_clock env AtAccount + accessTokenLifetime) (s_created_at s + sessionAbsoluteLifetime),
      ar_RefreshToken = gt_raw fresh,
      ar_RefreshTokenExpiresAt = minTime (ae_clock env AtAccount + sessionIdleLifetime) (s_created_at s + sessionAbsoluteLifetime)\<rparr>"

definition rotation_writes ::
  "crypto \<Rightarrow> auth_env \<Rightarrow> responseCipher \<Rightarrow> byte_string \<Rightarrow> refresh_token_row \<Rightarrow> generatedToken \<Rightarrow> generatedToken \<Rightarrow> authResponse \<Rightarrow> unit stmt" where
  "rotation_writes cr env cipher key rt access fresh r =
     andThen (insertAccessToken env (ar_SessionID r) (gt_hash access) (ar_AccessTokenExpiresAt r)) (\<lambda>_.
     andThen (insertRefreshToken env (ar_SessionID r) (Some (r_id rt)) (gt_hash fresh) (ar_RefreshTokenExpiresAt r)) (\<lambda>_.
     andThen (extendSession env (ar_RefreshTokenExpiresAt r) (ar_SessionID r)) (\<lambda>_.
       case encrypt (cr_seal cr) (cr_marshal cr) cipher (ae_random env ForNonce) ''refresh'' (int64Bytes (r_id rt)) r of
         None \<Rightarrow> (\<lambda>w. (Inl Unavailable, w))
       | Some (encrypted, nonce) \<Rightarrow>
           insertRefreshResult env \<lparr>f_refresh_token_id = r_id rt, f_idempotency_key_hash = key,
             f_encrypted_response = encrypted, f_nonce = nonce, f_key_version = ci_keyVersion cipher,
             f_expires_at = ae_clock env AtAccount + idempotencyLifetime\<rparr>)))"

lemma rotate_redeemed:
  assumes "find (redeemable env token d) (refresh_tokens d) = Some rt" and "find_session d (r_session_id rt) = Some s"
    and "\<not> (ae_fails env AtAuthBegin \<or> ae_fails env AtConsume)"
    and "(if ae_fails env AtAccount then None else find (\<lambda>u. Some (u_ID (ur_user u)) = map_option s_user_id (Some s)) (users d)) = Some account"
    and "newToken (cr_sha256 cr) (ae_random env ForAccess) = Some access" "newToken (cr_sha256 cr) (ae_random env ForRefresh) = Some fresh"
  shows "rotateRefreshToken cr env cipher token key d =
     (case rotation_writes cr env cipher key rt access fresh (rotated_response env s account access fresh) (consumeToken env rt d) of
        (Inl _, v) \<Rightarrow> (RotationFailed, None, auth_rollback d v)
      | (Inr _, v) \<Rightarrow> (case auth_commit env d v of (ok, d') \<Rightarrow>
          if ok then (Rotated (rotated_response env s account access fresh), None, d') else (RotationFailed, None, d')))"
  unfolding rotateRefreshToken_def assms(1) option.case if_not_P [OF assms(3)] assms(2) assms(4-6) prod.case Let_def
  unfolding rotation_writes_def rotated_response_def authResponse.simps
  by (rule refl)

lemma rotate_failed:
  assumes "find (redeemable env token d) (refresh_tokens d) = Some rt" and "find_session d (r_session_id rt) = Some s"
    and "ae_fails env AtAuthBegin \<or> ae_fails env AtConsume
      \<or> (if ae_fails env AtAccount then None else find (\<lambda>u. Some (u_ID (ur_user u)) = map_option s_user_id (Some s)) (users d)) = None
      \<or> newToken (cr_sha256 cr) (ae_random env ForAccess) = None \<or> newToken (cr_sha256 cr) (ae_random env ForRefresh) = None"
  shows "rotateRefreshToken cr env cipher token key d = (RotationFailed, None, d)"
  using assms(3) unfolding rotateRefreshToken_def
  by (elim disjE) (simp_all add: assms(1,2) split: option.split if_split_asm)

lemma statements_commit:
  "insertAccessToken (env\<lparr>ae_commit := c\<rparr>) = insertAccessToken env"
  "insertRefreshToken (env\<lparr>ae_commit := c\<rparr>) = insertRefreshToken env"
  "extendSession (env\<lparr>ae_commit := c\<rparr>) = extendSession env"
  "insertRefreshResult (env\<lparr>ae_commit := c\<rparr>) = insertRefreshResult env"
  by (intro ext; simp add: insertAccessToken_def insertRefreshToken_def extendSession_def insertRefreshResult_def)+

lemma rotation_done:
  assumes "find (redeemable env token d) (refresh_tokens d) = Some rt"
    and "rotateRefreshToken cr env cipher token key d = (Rotated r, x, d1)"
  obtains s account access fresh where "find_session d (r_session_id rt) = Some s" "r = rotated_response env s account access fresh"
    "rotation_writes cr env cipher key rt access fresh r (consumeToken env rt d) = (Inr (), d1)"
    "rotateRefreshToken cr (env\<lparr>ae_commit := CommitLostApplied\<rparr>) cipher token key d = (RotationFailed, None, d1)"
proof -
  obtain s where s: "find_session d (r_session_id rt) = Some s"
    using find_member [OF assms(1)] unfolding redeemable_def by (auto split: option.splits)
  let ?account = "if ae_fails env AtAccount then None else find (\<lambda>u. Some (u_ID (ur_user u)) = map_option s_user_id (Some s)) (users d)"
  have "\<not> (ae_fails env AtAuthBegin \<or> ae_fails env AtConsume \<or> ?account = None
      \<or> newToken (cr_sha256 cr) (ae_random env ForAccess) = None \<or> newToken (cr_sha256 cr) (ae_random env ForRefresh) = None)"
    by (rule notI, drule rotate_failed [OF assms(1) s, of cr cipher key]) (simp add: assms(2))
  then obtain account access fresh where good: "\<not> (ae_fails env AtAuthBegin \<or> ae_fails env AtConsume)" "?account = Some account"
      "newToken (cr_sha256 cr) (ae_random env ForAccess) = Some access" "newToken (cr_sha256 cr) (ae_random env ForRefresh) = Some fresh"
    unfolding de_Morgan_disj not_None_eq by (elim conjE exE) (rule that; simp)
  let ?env = "env\<lparr>ae_commit := CommitLostApplied\<rparr>"
  let ?r = "rotated_response env s account access fresh"
  have same: "redeemable ?env token d = redeemable env token d" "rotated_response ?env = rotated_response env" "consumeToken ?env = consumeToken env"
    "rotation_writes cr ?env = rotation_writes cr env"
    by (intro ext; simp add: redeemable_def rotated_response_def consumeToken_def rotation_writes_def statements_commit cong: option.case_cong)+
  have parts: "ae_fails ?env = ae_fails env" "ae_random ?env = ae_random env" by simp_all
  note run = rotate_redeemed [OF assms(1) s good, of cipher key]
  have lost: "rotateRefreshToken cr ?env cipher token key d =
     (case rotation_writes cr env cipher key rt access fresh ?r (consumeToken env rt d) of
        (Inl _, v) \<Rightarrow> (RotationFailed, None, auth_rollback d v)
      | (Inr _, v) \<Rightarrow> (case auth_commit ?env d v of (ok, d') \<Rightarrow> if ok then (Rotated ?r, None, d') else (RotationFailed, None, d')))"
    by (rule rotate_redeemed [of ?env token d rt s account cr access fresh cipher key, unfolded same parts, OF assms(1) s good])
  obtain y v where yv: "rotation_writes cr env cipher key rt access fresh ?r (consumeToken env rt d) = (y, v)" by fastforce
  show ?thesis
  proof (cases y)
    case (Inl err)
    then show ?thesis using run yv assms(2) by simp
  next
    case (Inr u)
    then have "ae_commit env = CommitOk" "r = ?r" "d1 = v"
      using run yv assms(2) by (auto simp: auth_commit_def split: commit_outcome.splits)
    then show ?thesis using that [OF s, of account access fresh] yv Inr lost by (simp add: auth_commit_def)
  qed
qed

lemma rotation_stored:
  assumes "auth_inv d" and "rt \<in> set (refresh_tokens d)" "r_consumed_at rt = None" and "find_session d (r_session_id rt) = Some s"
    and "ar_SessionID r = s_id s" and "rotation_writes cr env cipher key rt access fresh r (consumeToken env rt d) = (Inr (), d1)"
  obtains e n where "auth_inv d1"
    "encrypt (cr_seal cr) (cr_marshal cr) cipher (ae_random env ForNonce) ''refresh'' (int64Bytes (r_id rt)) r = Some (e, n)"
    "\<lparr>f_refresh_token_id = r_id rt, f_idempotency_key_hash = key, f_encrypted_response = e, f_nonce = n,
       f_key_version = ci_keyVersion cipher, f_expires_at = ae_clock env AtAccount + idempotencyLifetime\<rparr> \<in> set (refresh_idempotency_results d1)"
    "\<exists>x \<in> set (refresh_tokens d1). r_id x = r_id rt \<and> r_token_hash x = r_token_hash rt \<and> r_session_id x = r_session_id rt \<and> r_consumed_at x \<noteq> None"
    "\<exists>x \<in> set (sessions d1). s_id x = s_id s \<and> s_created_at x = s_created_at s"
proof -
  note s = find_session_Some [OF assms(4)]
  obtain e n w1 w2 w3 where enc:
    "encrypt (cr_seal cr) (cr_marshal cr) cipher (ae_random env ForNonce) ''refresh'' (int64Bytes (r_id rt)) r = Some (e, n)"
    and chain: "insertAccessToken env (s_id s) (gt_hash access) (ar_AccessTokenExpiresAt r) (consumeToken env rt d) = (Inr (), w1)"
    "insertRefreshToken env (s_id s) (Some (r_id rt)) (gt_hash fresh) (ar_RefreshTokenExpiresAt r) w1 = (Inr (), w2)"
    "extendSession env (ar_RefreshTokenExpiresAt r) (s_id s) w2 = (Inr (), w3)"
    "insertRefreshResult env \<lparr>f_refresh_token_id = r_id rt, f_idempotency_key_hash = key, f_encrypted_response = e, f_nonce = n,
       f_key_version = ci_keyVersion cipher, f_expires_at = ae_clock env AtAccount + idempotencyLifetime\<rparr> w3 = (Inr (), d1)"
    using assms(6) unfolding rotation_writes_def andThen_Inr assms(5) by (auto split: option.splits)
  note evo = rotation_evolves [OF assms(1-3) conjunct1 [OF s] conjunct2 [OF s] chain, simplified]
  let ?spent = "rt\<lparr>r_consumed_at := Some (ae_now env AtAuthBegin)\<rparr>"
  have "?spent \<in> set (refresh_tokens (consumeToken env rt d))" using assms(2) by (auto simp: consumeToken_def update_rows_def)
  then have "?spent \<in> set (refresh_tokens d1)"
    using insertAccessToken_Inr [OF chain(1)] insertRefreshToken_Inr [OF chain(2)] extendSession_Inr [OF chain(3)]
      insertRefreshResult_Inr [OF chain(4)] by simp
  then have spent: "\<exists>x \<in> set (refresh_tokens d1). r_id x = r_id rt \<and> r_token_hash x = r_token_hash rt \<and> r_session_id x = r_session_id rt \<and> r_consumed_at x \<noteq> None"
    by (rule bexI [rotated]) simp
  have "\<exists>x \<in> set (sessions d1). s_id x = s_id s \<and> s_created_at x = s_created_at s" using evo(2) s unfolding keeps_def by blast
  then show ?thesis using that [OF evo(1) enc _ spent] insertRefreshResult_Inr [OF chain(4)] by simp
qed

lemma rotation_retry:
  assumes "auth_inv d" and "rt \<in> set (refresh_tokens d)" and "redeemable env (r_token_hash rt) d rt"
    and "rotateRefreshToken cr env cipher (r_token_hash rt) key d = (Rotated r, x, d1)"
    and "auth_step\<^sup>*\<^sup>* d1 v" and "find_session v (r_session_id rt) = Some s'" and "s_revoked_at s' = None"
    and "ae_clock env' AtUsed < s_idle_expires_at s'" and "ae_clock env' AtUsed < s_created_at s' + sessionAbsoluteLifetime"
    and "ae_clock env' AtStored < ae_clock env AtAccount + idempotencyLifetime"
    and "\<forall>p. \<not> ae_fails env' p" and "gcm_opens (cr_seal cr) (cr_open cr)" and "cr_unmarshal cr (cr_marshal cr r) = Some r"
    and "ci_keys cipher' (ci_keyVersion cipher) = ci_keys cipher (ci_keyVersion cipher)"
  shows "rotateRefreshToken cr env' cipher' (r_token_hash rt) key v = (Rotated r, None, v)
    \<and> rotateRefreshToken cr (env\<lparr>ae_commit := CommitLostApplied\<rparr>) cipher (r_token_hash rt) key d = (RotationFailed, None, d1)"
proof -
  obtain s account access fresh where s: "find_session d (r_session_id rt) = Some s" and r: "r = rotated_response env s account access fresh"
    and writes: "rotation_writes cr env cipher key rt access fresh r (consumeToken env rt d) = (Inr (), d1)"
    and lost: "rotateRefreshToken cr (env\<lparr>ae_commit := CommitLostApplied\<rparr>) cipher (r_token_hash rt) key d = (RotationFailed, None, d1)"
    using only_redeemable [OF assms(1-3)] assms(4) by (rule rotation_done)
  have open_rt: "r_consumed_at rt = None" using assms(3) by (simp add: redeemable_def)
  have "ar_SessionID r = s_id s" using r by (simp add: rotated_response_def)
  then obtain e n where d1: "auth_inv d1"
    and enc: "encrypt (cr_seal cr) (cr_marshal cr) cipher (ae_random env ForNonce) ''refresh'' (int64Bytes (r_id rt)) r = Some (e, n)"
    and f1: "\<lparr>f_refresh_token_id = r_id rt, f_idempotency_key_hash = key, f_encrypted_response = e, f_nonce = n,
       f_key_version = ci_keyVersion cipher, f_expires_at = ae_clock env AtAccount + idempotencyLifetime\<rparr> \<in> set (refresh_idempotency_results d1)"
      (is "?f \<in> _")
    and t1: "\<exists>x \<in> set (refresh_tokens d1). r_id x = r_id rt \<and> r_token_hash x = r_token_hash rt \<and> r_session_id x = r_session_id rt \<and> r_consumed_at x \<noteq> None"
    and s1: "\<exists>x \<in> set (sessions d1). s_id x = s_id s \<and> s_created_at x = s_created_at s"
    using rotation_stored [OF assms(1,2) open_rt s _ writes] by metis
  have v: "auth_inv v" "keeps d1 v" using auth_steps_evolve [OF assms(5)] d1 unfolding evolves_def by blast+
  obtain rt' where rt': "rt' \<in> set (refresh_tokens v)" "r_id rt' = r_id rt" "r_token_hash rt' = r_token_hash rt"
    "r_session_id rt' = r_session_id rt" "r_consumed_at rt' \<noteq> None" using t1 v(2) unfolding keeps_def by metis
  obtain y where "y \<in> set (sessions v)" "s_id y = s_id s" "s_created_at y = s_created_at s" using s1 v(2) unfolding keeps_def by metis
  then have created: "s_created_at s' = s_created_at s" using session_by_id [OF v(1)] find_session_Some [OF s] assms(6) by fastforce
  have f: "find (\<lambda>x. f_refresh_token_id x = r_id rt) (refresh_idempotency_results v) = Some ?f"
    using result_by_token [OF v(1), of ?f] f1 v(2) unfolding keeps_def by auto
  have none: "find (redeemable env' (r_token_hash rt) v) (refresh_tokens v) = None"
    using not_redeemable [OF v(1) rt'(1), of env'] rt'(3,5) by (simp add: redeemable_def)
  have dec: "decrypt (cr_open cr) (cr_unmarshal cr) cipher' (ci_keyVersion cipher) ''refresh'' (int64Bytes (r_id rt)) n e = Some r"
    by (rule decrypt_encrypted [where marshal = "cr_marshal cr" and unmarshal = "cr_unmarshal cr" and v = r, OF assms(12,13) enc assms(14)])
  have expiry: "withSessionExpiry s' r = r" unfolding withSessionExpiry_def r rotated_response_def by (simp add: created)
  have "rotateRefreshToken cr env' cipher' (r_token_hash rt) key v = (Rotated r, None, v)"
    using none find_token [OF v(1) rt'(1)] rt'(2-5) f dec expiry assms(6-11)
    by (simp add: rotateRefreshToken_def handleUsedOrInvalidRefresh_def del: not_None_eq)
  then show ?thesis using lost by blast
qed

text \<open>
  C16: A rotation can be retried. If a refresh token was redeemed, then within ten minutes, whatever
  transactions ran in between, as long as the session is alive and the key is in the ring, the
  same token with the same idempotency key yields the same response again and changes nothing;
  and so it does when the answer to the COMMIT of the first attempt was lost and that attempt
  reported failure.
\<close>

theorem rotation_can_be_retried:
  assumes "auth_inv d" and "rt \<in> set (refresh_tokens d)" and "redeemable env (r_token_hash rt) d rt"
    and "rotateRefreshToken cr env cipher (r_token_hash rt) key d = (Rotated r, x, d1)"
    and "auth_step\<^sup>*\<^sup>* d1 v" and "find_session v (r_session_id rt) = Some s'" and "s_revoked_at s' = None"
    and "ae_clock env' AtUsed < s_idle_expires_at s'" and "ae_clock env' AtUsed < s_created_at s' + sessionAbsoluteLifetime"
    and "ae_clock env' AtStored < ae_clock env AtAccount + idempotencyLifetime"
    and "\<forall>p. \<not> ae_fails env' p" and "gcm_opens (cr_seal cr) (cr_open cr)" and "cr_unmarshal cr (cr_marshal cr r) = Some r"
    and "ci_keys cipher' (ci_keyVersion cipher) = ci_keys cipher (ci_keyVersion cipher)"
  shows "rotateRefreshToken cr env' cipher' (r_token_hash rt) key v = (Rotated r, None, v)
    \<and> rotateRefreshToken cr (env\<lparr>ae_commit := CommitLostApplied\<rparr>) cipher (r_token_hash rt) key d = (RotationFailed, None, d1)"
  using rotation_retry [OF assms] .

lemma sample_rotation:
  "fst (rotateRefreshToken sample_crypto (sample_env 1000) old_ring (r_token_hash (sample_token None)) (replicate 32 (CHR ''k'')) (sample_db None None))
     = Rotated sample_response"
  "\<exists>s'. find_session (snd (snd (rotateRefreshToken sample_crypto (sample_env 1000) old_ring (r_token_hash (sample_token None))
      (replicate 32 (CHR ''k'')) (sample_db None None)))) (r_session_id (sample_token None)) = Some s' \<and> s_revoked_at s' = None \<and> 2000 < s_idle_expires_at s' \<and> s_created_at s' = 0"
  by (simp_all add: rotateRefreshToken_def redeemable_def find_session_def live_session_def sample_env_def sample_db_def empty_db_def
      sample_session_def sample_token_def sample_crypto_def sample_response_def alice_def newToken_def andThen_def insertAccessToken_def
      insertRefreshToken_def extendSession_def insertRefreshResult_def consumeToken_def encrypt_def old_ring_def fixed_hash_def
      auth_commit_def minTime_def accessTokenLifetime_def sessionIdleLifetime_def sessionAbsoluteLifetime_def idempotencyLifetime_def Let_def)

lemma rotation_witness:
  "let run = rotateRefreshToken sample_crypto (sample_env 1000) old_ring (r_token_hash (sample_token None)) (replicate 32 (CHR ''k'')) (sample_db None None)
   in rotateRefreshToken sample_crypto (sample_env 2000) old_ring (r_token_hash (sample_token None)) (replicate 32 (CHR ''k'')) (snd (snd run))
      = (Rotated sample_response, None, snd (snd run))"
proof -
  let ?run = "rotateRefreshToken sample_crypto (sample_env 1000) old_ring (r_token_hash (sample_token None)) (replicate 32 (CHR ''k'')) (sample_db None None)"
  have run: "?run = (Rotated sample_response, fst (snd ?run), snd (snd ?run))" using sample_rotation(1) by (metis prod.collapse)
  obtain s' where s': "find_session (snd (snd ?run)) (r_session_id (sample_token None)) = Some s'" "s_revoked_at s' = None" "2000 < s_idle_expires_at s'" "s_created_at s' = 0"
    using sample_rotation(2) by blast
  have open_token: "redeemable (sample_env 1000) (r_token_hash (sample_token None)) (sample_db None None) (sample_token None)"
    by (simp add: redeemable_def find_session_def live_session_def sample_env_def sample_db_def sample_session_def sample_token_def sessionAbsoluteLifetime_def)
  have member: "sample_token None \<in> set (refresh_tokens (sample_db None None))" by (simp add: sample_db_def)
  have "rotateRefreshToken sample_crypto (sample_env 2000) old_ring (r_token_hash (sample_token None)) (replicate 32 (CHR ''k'')) (snd (snd ?run))
      = (Rotated sample_response, None, snd (snd ?run))"
    by (rule conjunct1 [OF rotation_can_be_retried [OF sample_db_inv member open_token run rtranclp.rtrancl_refl s'(1) s'(2)]])
       (use s' in \<open>simp_all add: sample_env_def sample_crypto_def toy_opens sessionAbsoluteLifetime_def idempotencyLifetime_def\<close>)
  then show ?thesis unfolding Let_def .
qed

section \<open>Issued tokens\<close>

lemma url_narrow: "\<forall>c \<in> set url_alphabet. narrow c"
  by (simp add: url_alphabet_def narrow_def ascii_space_def)

lemma fields_of_word: "\<forall>c \<in> set w. narrow c \<Longrightarrow> acc @ w \<noteq> [] \<Longrightarrow> fields_from w acc = [acc @ w]"
  by (induction w arbitrary: acc) auto

lemma url_base64_narrow: "\<forall>c \<in> set (EncodeToString url_alphabet raw). narrow c"
proof -
  have "\<forall>i \<in> set (base64_groups (map byte raw)). i < 64"
    using base64_groups_bound [of "map byte raw"] by (auto simp: list_all_iff)
  then have "set (EncodeToString url_alphabet raw) \<subseteq> set url_alphabet"
    by (auto simp: EncodeToString_def length_url_alphabet intro!: nth_mem)
  then show ?thesis using url_narrow by blast
qed

lemma bearer_fields:
  assumes "\<forall>c \<in> set t. narrow c" and "t \<noteq> []"
  shows "Fields (''Bearer '' @ t) = [''Bearer'', t]"
proof -
  have "space_width (CHR '' '' # t) = 1" by (simp add: space_width_def ascii_space_def)
  moreover have "narrow c" if "c \<in> set ''Bearer''" for c
    using that by (auto simp: narrow_def ascii_space_def)
  ultimately show ?thesis using fields_of_word [OF assms(1), of "[]"] assms(2) by (simp add: Fields_def)
qed

lemma encoded_nonempty: "length raw = tokenLength \<Longrightarrow> EncodeToString url_alphabet raw \<noteq> []"
  using url_base64_roundtrip [of raw] by (auto simp: tokenLength_def DecodeString_def)

text \<open>
  An issued access token authenticates. After a login or registration, whatever transactions
  run later, a request that carries the access token of the response as a bearer token is accepted
  as exactly that account, session and device, as long as the token has not expired and the session
  is alive.
\<close>

theorem issued_token_authenticates:
  assumes "auth_inv d" and "createSessionResponse cr env account device d = (Inr r, d1)"
    and "ae_random env ForAccess = Some raw" and "length raw = tokenLength" and "auth_step\<^sup>*\<^sup>* d1 v"
    and "find_session v (ar_SessionID r) = Some s" and "live_session (ae_now env' AtCheck) (ae_clock env' AtCheck) s"
    and "ae_now env' AtCheck < ar_AccessTokenExpiresAt r" and "\<not> ae_fails env' AtCheck"
  shows "requireAuthentication cr env' (''Bearer '' @ ar_AccessToken r) v = Inr \<lparr>au_UserID = u_ID account, au_SessionID = ar_SessionID r,
    au_DeviceID = ar_DeviceID r, au_TokenExpiry = ar_AccessTokenExpiresAt r\<rparr>"
proof -
  obtain access k w1 w2 where chain:
    "insertSession env (u_ID account) (ar_DeviceID r) (ar_RefreshTokenExpiresAt r) d = (Inr (ar_SessionID r), w1)"
    "insertAccessToken env (ar_SessionID r) (gt_hash access) (ar_AccessTokenExpiresAt r) w1 = (Inr (), w2)"
    "insertRefreshToken env (ar_SessionID r) None k (ar_RefreshTokenExpiresAt r) w2 = (Inr (), d1)"
    and token: "newToken (cr_sha256 cr) (ae_random env ForAccess) = Some access" "ar_AccessToken r = gt_raw access"
    by (rule createSessionResponse_Inr [OF assms(2)])
  note steps = insertSession_Inr [OF chain(1)] insertAccessToken_Inr [OF chain(2)] insertRefreshToken_Inr [OF chain(3)]
  let ?a = "\<lparr>a_session_id = ar_SessionID r, a_token_hash = gt_hash access, a_expires_at = ar_AccessTokenExpiresAt r\<rparr>"
  let ?s = "\<lparr>s_id = ar_SessionID r, s_user_id = u_ID account, s_device_id = ar_DeviceID r, s_idle_expires_at = ar_RefreshTokenExpiresAt r,
     s_revoked_at = None, s_created_at = ae_now env AtAuthBegin\<rparr>"
  have in1: "?a \<in> set (access_tokens d1)" "?s \<in> set (sessions d1)" using steps by simp_all
  have v: "auth_inv v" "keeps d1 v"
    using auth_steps_evolve [OF assms(5)] create_session(1) [OF assms(1,2)] unfolding evolves_def by blast+
  have a: "?a \<in> set (access_tokens v)" using in1(1) v(2) unfolding keeps_def by blast
  obtain y where "y \<in> set (sessions v)" "s_id y = ar_SessionID r" "s_user_id y = u_ID account" "s_device_id y = ar_DeviceID r"
    using bspec [OF conjunct1 [OF v(2) [unfolded keeps_def]] in1(2)] by auto
  then have s: "s_id s = ar_SessionID r" "s_user_id s = u_ID account" "s_device_id s = ar_DeviceID r"
    using session_by_id [OF v(1), of y] assms(6) by simp_all
  have "distinct (map a_token_hash (access_tokens v))" using auth_invD(2) [OF v(1)] unfolding access_ok_def by blast
  then have unique: "x = ?a" if "x \<in> set (access_tokens v)" "a_token_hash x = gt_hash access" for x
    using that a inj_onD [of a_token_hash "set (access_tokens v)" x ?a] by (simp add: distinct_map)
  obtain x where x: "find (\<lambda>a. a_token_hash a = gt_hash access \<and> ae_now env' AtCheck < a_expires_at a) (access_tokens v) = Some x"
    using find_exists [OF a, of "\<lambda>a. a_token_hash a = gt_hash access \<and> ae_now env' AtCheck < a_expires_at a"] assms(8) by auto
  then have "x = ?a" using find_member [OF x] unique by blast
  then have "token_session v (ae_now env' AtCheck) (ae_clock env' AtCheck) (gt_hash access) = Some \<lparr>au_UserID = u_ID account,
      au_SessionID = ar_SessionID r, au_DeviceID = ar_DeviceID r, au_TokenExpiry = ar_AccessTokenExpiresAt r\<rparr>"
    using x assms(6,7) s by (simp add: token_session_def)
  moreover have "decodeAndHashToken (cr_sha256 cr) (ar_AccessToken r) = Some (raw, gt_hash access)"
    using decode_new_token [OF assms(4), of "cr_sha256 cr" access] token assms(3) by simp
  moreover have "Fields (''Bearer '' @ ar_AccessToken r) = [''Bearer'', ar_AccessToken r]"
    using token assms(3,4) by (intro bearer_fields) (auto simp: newToken_def url_base64_narrow encoded_nonempty)
  moreover have "is_bearer ''Bearer''" by code_simp
  ultimately show ?thesis using assms(9) by (simp add: requireAuthentication_def)
qed

lemma issued_token_witness:
  "\<exists>r d1. createSessionResponse sample_crypto (sample_env 1000) alice ''phone'' (sample_db None None) = (Inr r, d1)
    \<and> requireAuthentication sample_crypto (sample_env 2000) (''Bearer '' @ ar_AccessToken r) d1
      = Inr \<lparr>au_UserID = 1, au_SessionID = 8, au_DeviceID = ''phone'', au_TokenExpiry = 1000 + accessTokenLifetime\<rparr>"
proof -
  have device_ok: "pg_text_ok ''phone''" "RuneCountInString ''phone'' = 5" by code_simp+
  let ?c = "createSessionResponse sample_crypto (sample_env 1000) alice ''phone'' (sample_db None None)"
  have "\<exists>r d1 s. ?c = (Inr r, d1) \<and> ar_SessionID r = 8 \<and> ar_DeviceID r = ''phone'' \<and> ar_AccessTokenExpiresAt r = 1000 + accessTokenLifetime
      \<and> find_session d1 (ar_SessionID r) = Some s \<and> live_session 2000 2000 s"
    by (simp add: createSessionResponse_def find_session_def live_session_def sample_env_def sample_db_def empty_db_def user_ids_def
      sample_session_def sample_token_def sample_crypto_def alice_def newToken_def andThen_def insertAccessToken_def insertSession_def
      insertRefreshToken_def fixed_hash_def accessTokenLifetime_def sessionIdleLifetime_def sessionAbsoluteLifetime_def Let_def
      device_ok)
  then obtain r d1 s where c: "?c = (Inr r, d1)" and r: "ar_SessionID r = 8" "ar_DeviceID r = ''phone''" "ar_AccessTokenExpiresAt r = 1000 + accessTokenLifetime"
    and s: "find_session d1 (ar_SessionID r) = Some s" "live_session 2000 2000 s" by blast
  have "requireAuthentication sample_crypto (sample_env 2000) (''Bearer '' @ ar_AccessToken r) d1 = Inr \<lparr>au_UserID = u_ID alice,
      au_SessionID = ar_SessionID r, au_DeviceID = ar_DeviceID r, au_TokenExpiry = ar_AccessTokenExpiresAt r\<rparr>"
    by (rule issued_token_authenticates [OF sample_db_inv c, of "replicate 32 (CHR ''a'')", OF _ _ rtranclp.rtrancl_refl s(1)])
       (use r s in \<open>simp_all add: sample_env_def tokenLength_def accessTokenLifetime_def\<close>)
  then show ?thesis using c r by (simp add: alice_def)
qed

end
