(* ===== verification/HeadlessClient.thy ===== *)
theory HeadlessClient
  imports AuthSessions ConversationSync
begin

text \<open>
  The headless client (\<^verbatim>\<open>internal/headlessclient\<close>): an encrypted state file that is replaced atomically,
  and on top of it authentication with a resumable refresh, application of realtime messages,
  synchronisation page by page and acknowledgement.

  A state file is absent or holds bytes. Every access to it draws the next entry of a supply of
  outcomes (\<open>store_io\<close>): the read fails or not, the randomness for the nonce, and where the write
  stops: before the rename, which leaves the old file, or after it. AES-GCM and the JSON codec are
  parameters of the store. A nil map reads like an empty one and \<open>normalize\<close> replaces it before
  anything is written to it; both are the empty map here. An HTTP exchange is a function from the
  request to what comes back. Building a request from constant paths, numbers and string maps
  cannot fail.
\<close>

section \<open>State\<close>

record AuthState =
  as_SessionID :: int
  as_DeviceID :: string
  as_SessionExpiresAt :: string
  as_AccessToken :: string
  as_AccessTokenExpiresAt :: string
  as_RefreshToken :: string
  as_RefreshTokenExpiresAt :: string

record PendingRefresh =
  pf_RefreshToken :: string
  pf_IdempotencyKey :: string

record Message =
  hm_ID :: int
  hm_ConversationID :: int
  hm_ConversationSeq :: int
  hm_ClientMessageID :: string
  hm_SenderID :: int
  hm_ReceiverID :: int
  hm_Content :: string
  hm_CreatedAt :: string

record ConversationState =
  co_AppliedCursor :: int
  co_AckedCursor :: int
  co_PendingACK :: int
  co_Messages :: "string \<rightharpoonup> Message"

record State =
  ss_Version :: int
  ss_Auth :: "AuthState option"
  ss_PendingRefresh :: "PendingRefresh option"
  ss_Conversations :: "string \<rightharpoonup> ConversationState"

datatype client_error = ClientError string | ErrMessageGap | HTTPError int string

definition stateVersion :: int where "stateVersion = 1"
definition stateMagic :: string where "stateMagic = ''IMHC1''"
definition nonceSize :: nat where "nonceSize = 12"

definition normalize :: "State \<Rightarrow> State" where
  "normalize s = s\<lparr>ss_Version := stateVersion\<rparr>"

definition empty_state :: State where
  "empty_state = \<lparr>ss_Version = 0, ss_Auth = None, ss_PendingRefresh = None, ss_Conversations = Map.empty\<rparr>"

section \<open>The state file\<close>

datatype persist_fault = BeforeRename | AfterRename

record store_io =
  io_readFails :: bool
  io_nonce :: "byte_string option"
  io_fault :: "persist_fault option"

record FileStore =
  fs_key :: byte_string
  fs_seal :: aead_seal
  fs_open :: aead_open
  fs_marshal :: "State \<Rightarrow> string"
  fs_unmarshal :: "string \<Rightarrow> State option"

definition NewFileStore ::
  "aead_seal \<Rightarrow> aead_open \<Rightarrow> (State \<Rightarrow> string) \<Rightarrow> (string \<Rightarrow> State option) \<Rightarrow> string \<Rightarrow> byte_string \<Rightarrow> client_error + FileStore" where
  "NewFileStore seal aead marshal unmarshal path key =
     (if path = [] then Inl (ClientError ''state path is required'')
      else if length key \<noteq> 32 then Inl (ClientError ''state encryption key must contain 32 bytes'')
      else Inr \<lparr>fs_key = key, fs_seal = seal, fs_open = aead, fs_marshal = marshal, fs_unmarshal = unmarshal\<rparr>)"

definition load_state :: "FileStore \<Rightarrow> store_io \<Rightarrow> byte_string option \<Rightarrow> client_error + State" where
  "load_state store io file =
     (case file of
        None \<Rightarrow> Inr (normalize empty_state)
      | Some encoded \<Rightarrow>
        if io_readFails io then Inl (ClientError ''read client state'')
        else if length encoded < length stateMagic + nonceSize \<or> take (length stateMagic) encoded \<noteq> stateMagic
        then Inl (ClientError ''client state has an invalid envelope'')
        else (let nonce = take nonceSize (drop (length stateMagic) encoded);
                  ciphertext = drop (length stateMagic + nonceSize) encoded
              in case fs_open store (fs_key store) nonce ciphertext stateMagic of
                   None \<Rightarrow> Inl (ClientError ''decrypt client state'')
                 | Some plaintext \<Rightarrow>
                   (case fs_unmarshal store plaintext of
                      None \<Rightarrow> Inl (ClientError ''decode client state'')
                    | Some s \<Rightarrow>
                      if ss_Version s \<noteq> stateVersion then Inl (ClientError ''unsupported client state version'')
                      else Inr (normalize s))))"

definition envelope :: "FileStore \<Rightarrow> byte_string \<Rightarrow> State \<Rightarrow> byte_string" where
  "envelope store nonce s = stateMagic @ nonce @ fs_seal store (fs_key store) nonce (fs_marshal store s) stateMagic"

definition persist :: "FileStore \<Rightarrow> store_io \<Rightarrow> State \<Rightarrow> byte_string option \<Rightarrow> (client_error + unit) \<times> byte_string option" where
  "persist store io s file =
     (case io_nonce io of
        None \<Rightarrow> (Inl (ClientError ''create client state nonce''), file)
      | Some nonce \<Rightarrow>
        (case io_fault io of
           Some BeforeRename \<Rightarrow> (Inl (ClientError ''replace client state''), file)
         | Some AfterRename \<Rightarrow> (Inl (ClientError ''sync client state directory''), Some (envelope store nonce s))
         | None \<Rightarrow> (Inr (), Some (envelope store nonce s))))"

text \<open>The device: the file, and how many accesses to it were made.\<close>

record device =
  dv_file :: "byte_string option"
  dv_ops :: nat

definition Snapshot :: "FileStore \<Rightarrow> (nat \<Rightarrow> store_io) \<Rightarrow> device \<Rightarrow> (client_error + State) \<times> device" where
  "Snapshot store io dv = (load_state store (io (dv_ops dv)) (dv_file dv), dv\<lparr>dv_ops := dv_ops dv + 1\<rparr>)"

definition Update ::
  "FileStore \<Rightarrow> (nat \<Rightarrow> store_io) \<Rightarrow> (State \<Rightarrow> client_error + 'a \<times> State) \<Rightarrow> device \<Rightarrow> (client_error + 'a) \<times> device" where
  "Update store io change dv =
     (let x = io (dv_ops dv); dv1 = dv\<lparr>dv_ops := dv_ops dv + 1\<rparr>
      in case load_state store x (dv_file dv) of
           Inl e \<Rightarrow> (Inl e, dv1)
         | Inr s \<Rightarrow>
           (case change s of
              Inl e \<Rightarrow> (Inl e, dv1)
            | Inr (a, s') \<Rightarrow>
              (case persist store x (normalize s') (dv_file dv) of
                 (Inl e, file) \<Rightarrow> (Inl e, dv1\<lparr>dv_file := file\<rparr>)
               | (Inr _, file) \<Rightarrow> (Inr a, dv1\<lparr>dv_file := file\<rparr>))))"

section \<open>Requests\<close>

record http_request =
  hr_Method :: string
  hr_Path :: string
  hr_Query :: url_values
  hr_Token :: string
  hr_Body :: "(string \<times> string) list"

text \<open>Nothing came back, or a status with a body that could be read or not.\<close>

datatype transport = NotSent | Responded int "string option"

definition maxResponseBodyBytes :: nat where "maxResponseBodyBytes = 8 * 2 ^ 20"

definition doJSON :: "(string \<Rightarrow> string) \<Rightarrow> (string \<Rightarrow> 'o option) \<Rightarrow> 'o \<Rightarrow> transport \<Rightarrow> client_error + 'o" where
  "doJSON errorCode decode zero answer =
     (case answer of
        NotSent \<Rightarrow> Inl (ClientError ''send IM request'')
      | Responded status body \<Rightarrow>
        if status < 200 \<or> 300 \<le> status then Inl (HTTPError status (case body of None \<Rightarrow> [] | Some b \<Rightarrow> errorCode b))
        else if status = 204 then Inr zero
        else (case body of
                None \<Rightarrow> Inl (ClientError ''read IM response'')
              | Some b \<Rightarrow>
                if maxResponseBodyBytes < length b then Inl (ClientError ''IM response exceeds the size limit'')
                else (case decode b of None \<Rightarrow> Inl (ClientError ''decode IM response'') | Some v \<Rightarrow> Inr v)))"

section \<open>Authentication\<close>

definition persistAuth_change :: "AuthState \<Rightarrow> State \<Rightarrow> client_error + unit \<times> State" where
  "persistAuth_change auth s = Inr ((), s\<lparr>ss_Auth := Some auth, ss_PendingRefresh := None\<rparr>)"

definition PersistAuth :: "FileStore \<Rightarrow> (nat \<Rightarrow> store_io) \<Rightarrow> AuthState \<Rightarrow> device \<Rightarrow> (client_error + unit) \<times> device" where
  "PersistAuth store io auth dv =
     (if as_AccessToken auth = [] \<or> as_RefreshToken auth = [] \<or> as_SessionID auth \<le> 0 \<or> as_DeviceID auth = []
      then (Inl (ClientError ''complete authentication state is required''), dv)
      else Update store io (persistAuth_change auth) dv)"

definition beginRefresh :: "string \<Rightarrow> State \<Rightarrow> client_error + PendingRefresh \<times> State" where
  "beginRefresh key s =
     (case ss_Auth s of
        None \<Rightarrow> Inl (ClientError ''client is not authenticated'')
      | Some auth \<Rightarrow>
        if as_RefreshToken auth = [] then Inl (ClientError ''client is not authenticated'')
        else (let p = (case ss_PendingRefresh s of
                         None \<Rightarrow> \<lparr>pf_RefreshToken = as_RefreshToken auth, pf_IdempotencyKey = key\<rparr> | Some p \<Rightarrow> p)
              in if pf_IdempotencyKey p \<noteq> key then Inl (ClientError ''a different refresh operation is already pending'')
                 else Inr (p, s\<lparr>ss_PendingRefresh := Some p\<rparr>)))"

definition commitRefresh :: "PendingRefresh \<Rightarrow> AuthState \<Rightarrow> State \<Rightarrow> client_error + unit \<times> State" where
  "commitRefresh pending response s =
     (if ss_PendingRefresh s \<noteq> Some pending then Inl (ClientError ''pending refresh changed before commit'')
      else Inr ((), s\<lparr>ss_Auth := Some response, ss_PendingRefresh := None\<rparr>))"

definition refreshHTTP :: "PendingRefresh \<Rightarrow> http_request" where
  "refreshHTTP p = \<lparr>hr_Method = ''POST'', hr_Path = ''/auth/refresh'', hr_Query = [], hr_Token = [],
     hr_Body = [(''refreshToken'', pf_RefreshToken p), (''idempotencyKey'', pf_IdempotencyKey p)]\<rparr>"

definition zero_auth :: AuthState where
  "zero_auth = \<lparr>as_SessionID = 0, as_DeviceID = [], as_SessionExpiresAt = [], as_AccessToken = [],
     as_AccessTokenExpiresAt = [], as_RefreshToken = [], as_RefreshTokenExpiresAt = []\<rparr>"

definition Refresh ::
  "FileStore \<Rightarrow> (nat \<Rightarrow> store_io) \<Rightarrow> (string \<Rightarrow> string) \<Rightarrow> (string \<Rightarrow> AuthState option) \<Rightarrow> (http_request \<Rightarrow> transport) \<Rightarrow>
   string \<Rightarrow> device \<Rightarrow> (client_error + unit) \<times> device" where
  "Refresh store io errorCode decode http key dv =
     (if key = [] then (Inl (ClientError ''refresh idempotency key is required''), dv)
      else case Update store io (beginRefresh key) dv of
        (Inl e, dv1) \<Rightarrow> (Inl e, dv1)
      | (Inr pending, dv1) \<Rightarrow>
        (case doJSON errorCode decode zero_auth (http (refreshHTTP pending)) of
           Inl e \<Rightarrow> (Inl e, dv1)
         | Inr response \<Rightarrow> Update store io (commitRefresh pending response) dv1))"

section \<open>Messages\<close>

datatype ApplyResult = Applied | Duplicate

definition new_conversation :: ConversationState where
  "new_conversation = \<lparr>co_AppliedCursor = 0, co_AckedCursor = 0, co_PendingACK = 0, co_Messages = Map.empty\<rparr>"

definition apply_change :: "Message \<Rightarrow> State \<Rightarrow> client_error + ApplyResult \<times> State" where
  "apply_change m s =
     (let key = FormatInt (hm_ConversationID m);
          c = (case ss_Conversations s key of None \<Rightarrow> new_conversation | Some c \<Rightarrow> c);
          s1 = s\<lparr>ss_Conversations := (ss_Conversations s)(key \<mapsto> c)\<rparr>;
          messageKey = FormatInt (hm_ConversationSeq m)
      in if hm_ConversationSeq m \<le> co_AppliedCursor c
         then (case co_Messages c messageKey of
                 None \<Rightarrow> Inl (ClientError ''message cursor conflicts with durable local state'')
               | Some existing \<Rightarrow>
                   if hm_ID existing \<noteq> hm_ID m then Inl (ClientError ''message cursor conflicts with durable local state'')
                   else Inr (Duplicate, s1))
         else if hm_ConversationSeq m \<noteq> co_AppliedCursor c + 1 then Inl ErrMessageGap
         else (let c' = c\<lparr>co_Messages := (co_Messages c)(messageKey \<mapsto> m), co_AppliedCursor := hm_ConversationSeq m,
                          co_PendingACK := max (co_PendingACK c) (hm_ConversationSeq m)\<rparr>
               in Inr (Applied, s1\<lparr>ss_Conversations := (ss_Conversations s1)(key \<mapsto> c')\<rparr>)))"

definition applyMessage :: "FileStore \<Rightarrow> (nat \<Rightarrow> store_io) \<Rightarrow> Message \<Rightarrow> device \<Rightarrow> (client_error + ApplyResult) \<times> device" where
  "applyMessage store io m dv =
     (if hm_ID m \<le> 0 \<or> hm_ConversationID m \<le> 0 \<or> hm_ConversationSeq m \<le> 0
      then (Inl (ClientError ''message identity and cursor must be positive''), dv)
      else Update store io (apply_change m) dv)"

record RealtimeEnvelope =
  re_Type :: string
  re_ConversationID :: int
  re_ConversationSeq :: int
  re_Message :: Message

definition ApplyRealtime :: "FileStore \<Rightarrow> (nat \<Rightarrow> store_io) \<Rightarrow> RealtimeEnvelope \<Rightarrow> device \<Rightarrow> (client_error + ApplyResult) \<times> device" where
  "ApplyRealtime store io e dv =
     (if re_Type e \<noteq> ''message.created'' \<or> re_ConversationID e \<le> 0
      then (Inl (ClientError ''invalid realtime message envelope''), dv)
      else if hm_ConversationID (re_Message e) \<noteq> re_ConversationID e \<or> hm_ConversationSeq (re_Message e) \<noteq> re_ConversationSeq e
      then (Inl (ClientError ''realtime envelope and message cursor disagree''), dv)
      else applyMessage store io (re_Message e) dv)"

section \<open>Synchronisation\<close>

record messagePage =
  mp_ConversationID :: int
  mp_Messages :: "Message list"
  mp_NextCursor :: int
  mp_SnapshotCursor :: int
  mp_HasMore :: bool

definition zero_page :: messagePage where
  "zero_page = \<lparr>mp_ConversationID = 0, mp_Messages = [], mp_NextCursor = 0, mp_SnapshotCursor = 0, mp_HasMore = False\<rparr>"

fun applyMessages :: "FileStore \<Rightarrow> (nat \<Rightarrow> store_io) \<Rightarrow> Message list \<Rightarrow> device \<Rightarrow> (client_error + unit) \<times> device" where
  "applyMessages store io [] dv = (Inr (), dv)"
| "applyMessages store io (m # ms) dv =
     (case applyMessage store io m dv of
        (Inl e, dv') \<Rightarrow> (Inl e, dv')
      | (Inr _, dv') \<Rightarrow> applyMessages store io ms dv')"

definition syncHTTP :: "int \<Rightarrow> int \<Rightarrow> int \<Rightarrow> int \<Rightarrow> string \<Rightarrow> http_request" where
  "syncHTTP cid after limit snapshot token =
     \<lparr>hr_Method = ''GET'', hr_Path = ''/conversations/'' @ FormatInt cid @ ''/messages'',
      hr_Query = page_query after limit (if 0 < snapshot then Some snapshot else None), hr_Token = token, hr_Body = []\<rparr>"

text \<open>
  The loop over pages; \<open>http i\<close> answers the i-th request. The result is \<open>None\<close> when the fuel is
  used up. The cursor the next page starts at is read back from the file.
\<close>

fun syncLoop ::
  "FileStore \<Rightarrow> (nat \<Rightarrow> store_io) \<Rightarrow> (string \<Rightarrow> string) \<Rightarrow> (string \<Rightarrow> messagePage option) \<Rightarrow> (nat \<Rightarrow> http_request \<Rightarrow> transport) \<Rightarrow>
   int \<Rightarrow> int \<Rightarrow> nat \<Rightarrow> nat \<Rightarrow> int \<Rightarrow> device \<Rightarrow> (client_error + unit) option \<times> device" where
  "syncLoop store io errorCode decode http cid limit 0 i snapshot dv = (None, dv)"
| "syncLoop store io errorCode decode http cid limit (Suc fuel) i snapshot dv =
     (case Snapshot store io dv of
        (Inl e, dv1) \<Rightarrow> (Some (Inl e), dv1)
      | (Inr s, dv1) \<Rightarrow>
        (case ss_Auth s of
           None \<Rightarrow> (Some (Inl (ClientError ''client is not authenticated'')), dv1)
         | Some auth \<Rightarrow>
           (let after = (case ss_Conversations s (FormatInt cid) of None \<Rightarrow> 0 | Some c \<Rightarrow> co_AppliedCursor c)
            in case doJSON errorCode decode zero_page (http i (syncHTTP cid after limit snapshot (as_AccessToken auth))) of
                 Inl e \<Rightarrow> (Some (Inl e), dv1)
               | Inr page \<Rightarrow>
                 if mp_ConversationID page \<noteq> cid \<or> mp_NextCursor page < after
                 then (Some (Inl (ClientError ''sync page cursor is invalid'')), dv1)
                 else if snapshot \<noteq> 0 \<and> mp_SnapshotCursor page \<noteq> snapshot
                 then (Some (Inl (ClientError ''sync snapshot changed between pages'')), dv1)
                 else (case applyMessages store io (mp_Messages page) dv1 of
                         (Inl e, dv2) \<Rightarrow> (Some (Inl e), dv2)
                       | (Inr _, dv2) \<Rightarrow>
                         (case Snapshot store io dv2 of
                            (Inl e, dv3) \<Rightarrow> (Some (Inl e), dv3)
                          | (Inr s', dv3) \<Rightarrow>
                            if (case ss_Conversations s' (FormatInt cid) of
                                  None \<Rightarrow> True | Some c \<Rightarrow> co_AppliedCursor c \<noteq> mp_NextCursor page)
                            then (Some (Inl (ClientError ''sync page did not advance to the advertised cursor'')), dv3)
                            else if \<not> mp_HasMore page then (Some (Inr ()), dv3)
                            else syncLoop store io errorCode decode http cid limit fuel (Suc i)
                                   (if snapshot = 0 then mp_SnapshotCursor page else snapshot) dv3)))))"

definition SyncConversation ::
  "FileStore \<Rightarrow> (nat \<Rightarrow> store_io) \<Rightarrow> (string \<Rightarrow> string) \<Rightarrow> (string \<Rightarrow> messagePage option) \<Rightarrow> (nat \<Rightarrow> http_request \<Rightarrow> transport) \<Rightarrow>
   nat \<Rightarrow> int \<Rightarrow> int \<Rightarrow> device \<Rightarrow> (client_error + unit) option \<times> device" where
  "SyncConversation store io errorCode decode http fuel cid limit dv =
     (if cid \<le> 0 \<or> limit \<le> 0 \<or> 200 < limit
      then (Some (Inl (ClientError ''valid conversation and page limit are required'')), dv)
      else syncLoop store io errorCode decode http cid limit fuel 0 0 dv)"

section \<open>Acknowledgement\<close>

definition ackHTTP :: "int \<Rightarrow> int \<Rightarrow> string \<Rightarrow> http_request" where
  "ackHTTP cid cursor token =
     \<lparr>hr_Method = ''POST'', hr_Path = ''/conversations/'' @ FormatInt cid @ ''/ack'', hr_Query = [], hr_Token = token,
      hr_Body = [(''cursor'', FormatInt cursor)]\<rparr>"

definition ack_change :: "int \<Rightarrow> int \<Rightarrow> State \<Rightarrow> client_error + unit \<times> State" where
  "ack_change cid applied s =
     (case ss_Conversations s (FormatInt cid) of
        None \<Rightarrow> Inl (ClientError ''conversation disappeared before ACK commit'')
      | Some c \<Rightarrow>
        (let c1 = (if co_AckedCursor c < applied then c\<lparr>co_AckedCursor := applied\<rparr> else c);
             c2 = (if co_PendingACK c1 \<le> applied then c1\<lparr>co_PendingACK := 0\<rparr> else c1)
         in Inr ((), s\<lparr>ss_Conversations := (ss_Conversations s)(FormatInt cid \<mapsto> c2)\<rparr>)))"

definition FlushACK ::
  "FileStore \<Rightarrow> (nat \<Rightarrow> store_io) \<Rightarrow> (string \<Rightarrow> string) \<Rightarrow> (string \<Rightarrow> int option) \<Rightarrow> (http_request \<Rightarrow> transport) \<Rightarrow> int \<Rightarrow> device \<Rightarrow>
   (client_error + unit) \<times> device" where
  "FlushACK store io errorCode decode http cid dv =
     (case Snapshot store io dv of
        (Inl e, dv1) \<Rightarrow> (Inl e, dv1)
      | (Inr s, dv1) \<Rightarrow>
        (case ss_Auth s of
           None \<Rightarrow> (Inl (ClientError ''client is not authenticated''), dv1)
         | Some auth \<Rightarrow>
           (case ss_Conversations s (FormatInt cid) of
              None \<Rightarrow> (Inr (), dv1)
            | Some c \<Rightarrow>
              if co_PendingACK c \<le> co_AckedCursor c then (Inr (), dv1)
              else (case doJSON errorCode decode 0 (http (ackHTTP cid (co_PendingACK c) (as_AccessToken auth))) of
                      Inl e \<Rightarrow> (Inl e, dv1)
                    | Inr applied \<Rightarrow>
                      if applied < co_PendingACK c then (Inl (ClientError ''server acknowledged an older cursor''), dv1)
                      else Update store io (ack_change cid applied) dv1))))"

section \<open>The contract of the store\<close>

text \<open>
  What the client relies on: a completed write is what is read back, and a failed write leaves the
  file as it was or writes all of it. \<open>kept\<close> says that a state survives the codec of a store.
\<close>

locale atomic_store =
  fixes retrieve :: "'st \<Rightarrow> 'io \<Rightarrow> 'f \<Rightarrow> 'e + 's" and save :: "'st \<Rightarrow> 'io \<Rightarrow> 's \<Rightarrow> 'f \<Rightarrow> ('e + unit) \<times> 'f"
    and kept :: "'st \<Rightarrow> 's \<Rightarrow> bool" and reads :: "'io \<Rightarrow> bool" and draws :: "'io \<Rightarrow> bool"
  assumes save_done: "kept st s \<Longrightarrow> draws io \<Longrightarrow> reads x \<Longrightarrow> save st io s f = (Inr (), f') \<Longrightarrow> retrieve st x f' = Inr s"
    and save_failed: "kept st s \<Longrightarrow> draws io \<Longrightarrow> reads x \<Longrightarrow> save st io s f = (Inl e, f') \<Longrightarrow> f' = f \<or> retrieve st x f' = Inr s"
begin

lemma save_atomic:
  assumes "kept st s" and "draws io" and "reads x" and "save st io s f = (r, f')"
  shows "f' = f \<or> retrieve st x f' = Inr s"
proof (cases r)
  case (Inl e)
  then show ?thesis using save_failed [OF assms(1-3)] assms(4) by blast
next
  case (Inr u)
  then show ?thesis using save_done [OF assms(1-3)] assms(4) by simp
qed

end

definition survives :: "FileStore \<Rightarrow> State \<Rightarrow> bool" where
  "survives store s \<longleftrightarrow> gcm_opens (fs_seal store) (fs_open store) \<and> ss_Version s = stateVersion
     \<and> fs_unmarshal store (fs_marshal store s) = Some s"

definition readable_io :: "store_io \<Rightarrow> bool" where
  "readable_io io \<longleftrightarrow> \<not> io_readFails io"

definition nonce_io :: "store_io \<Rightarrow> bool" where
  "nonce_io io \<longleftrightarrow> (\<forall>n. io_nonce io = Some n \<longrightarrow> length n = nonceSize)"

text \<open>An access without a fault.\<close>

definition good_io :: "store_io \<Rightarrow> bool" where
  "good_io io \<longleftrightarrow> \<not> io_readFails io \<and> io_fault io = None \<and> (\<exists>n. io_nonce io = Some n \<and> length n = nonceSize)"

definition holds_state :: "FileStore \<Rightarrow> device \<Rightarrow> State \<Rightarrow> bool" where
  "holds_state store dv s \<longleftrightarrow> (\<forall>x. readable_io x \<longrightarrow> load_state store x (dv_file dv) = Inr s)"

lemma load_envelope:
  assumes "survives store s" and "length nonce = nonceSize" and "readable_io x"
  shows "load_state store x (Some (envelope store nonce s)) = Inr s"
  using assms by (simp add: load_state_def envelope_def survives_def gcm_opens_def readable_io_def normalize_def)

interpretation file_store: atomic_store load_state persist survives readable_io nonce_io
proof unfold_locales
  fix store s io x f f'
  assume a: "survives store s" "nonce_io io" "readable_io x"
  show "load_state store x f' = Inr s" if "persist store io s f = (Inr (), f')"
    using that a load_envelope by (auto simp: persist_def nonce_io_def split: option.splits persist_fault.splits)
  show "f' = f \<or> load_state store x f' = Inr s" if "persist store io s f = (Inl e, f')" for e
    using that a load_envelope by (auto simp: persist_def nonce_io_def split: option.splits persist_fault.splits)
qed

lemma loaded_version: "load_state store x file = Inr s \<Longrightarrow> ss_Version s = stateVersion"
  by (auto simp: load_state_def normalize_def Let_def split: option.splits if_splits)

lemma normalize_loaded: "ss_Version s = stateVersion \<Longrightarrow> normalize s = s"
  by (simp add: normalize_def)

lemma Update_good:
  assumes "holds_state store dv s" and "change s = Inr (a, s')" and "good_io (io (dv_ops dv))" and "survives store (normalize s')"
  shows "fst (Update store io change dv) = Inr a" and "holds_state store (snd (Update store io change dv)) (normalize s')"
proof -
  have r: "readable_io (io (dv_ops dv))" using assms(3) by (simp add: good_io_def readable_io_def)
  have n: "nonce_io (io (dv_ops dv))" using assms(3) by (auto simp: good_io_def nonce_io_def)
  have l: "load_state store (io (dv_ops dv)) (dv_file dv) = Inr s" using assms(1) r by (simp add: holds_state_def)
  obtain f where p: "persist store (io (dv_ops dv)) (normalize s') (dv_file dv) = (Inr (), f)"
    using assms(3) by (auto simp: persist_def good_io_def)
  have "load_state store x f = Inr (normalize s')" if "readable_io x" for x
    using file_store.save_done [OF assms(4) n that p] .
  then show "fst (Update store io change dv) = Inr a" "holds_state store (snd (Update store io change dv)) (normalize s')"
    using l p assms(2) by (simp_all add: Update_def holds_state_def Let_def)
qed

lemma Update_ops: "dv_ops (snd (Update store io change dv)) = Suc (dv_ops dv)"
  by (simp add: Update_def Let_def split: sum.split prod.split)

lemma Update_refused:
  assumes "holds_state store dv s" and "change s = Inl e" and "readable_io (io (dv_ops dv))"
  shows "Update store io change dv = (Inl e, dv\<lparr>dv_ops := dv_ops dv + 1\<rparr>)"
  using assms by (simp add: Update_def holds_state_def)

text \<open>Whatever fault an update meets, the file then holds the state before or the state after it.\<close>

lemma Update_atomic:
  assumes "holds_state store dv s" and "nonce_io (io (dv_ops dv))"
    and "\<And>a s'. change s = Inr (a, s') \<Longrightarrow> survives store (normalize s')"
  shows "holds_state store (snd (Update store io change dv)) s
    \<or> (\<exists>a s'. change s = Inr (a, s') \<and> holds_state store (snd (Update store io change dv)) (normalize s'))"
proof (cases "load_state store (io (dv_ops dv)) (dv_file dv)")
  case (Inl e)
  then show ?thesis using assms(1) by (simp add: Update_def holds_state_def)
next
  case (Inr s1)
  have s1: "s1 = s"
  proof (cases "dv_file dv")
    case None
    then show ?thesis using Inr assms(1) by (auto simp: holds_state_def load_state_def readable_io_def intro: exI [of _ "undefined\<lparr>io_readFails := False\<rparr>"])
  next
    case (Some f)
    then have "readable_io (io (dv_ops dv))" using Inr by (auto simp: load_state_def readable_io_def)
    then show ?thesis using assms(1) Inr by (simp add: holds_state_def)
  qed
  show ?thesis
  proof (cases "change s")
    case (Inl e)
    then show ?thesis using Inr s1 assms(1) by (simp add: Update_def holds_state_def)
  next
    case changed: (Inr p)
    obtain a s' where p: "p = (a, s')" by fastforce
    obtain r f where f: "persist store (io (dv_ops dv)) (normalize s') (dv_file dv) = (r, f)" by fastforce
    have "f = dv_file dv \<or> (\<forall>x. readable_io x \<longrightarrow> load_state store x f = Inr (normalize s'))"
      using file_store.save_atomic [OF assms(3) assms(2) _ f] changed p by blast
    moreover have "dv_file (snd (Update store io change dv)) = f"
      using Inr s1 changed p f by (cases r) (simp_all add: Update_def)
    ultimately show ?thesis using assms(1) changed p unfolding holds_state_def by auto
  qed
qed

end
