(* ===== verification/ClientSync.thy ===== *)
theory ClientSync
  imports HeadlessClient
begin

text \<open>
  The headless client against the server: synchronisation reproduces the stream of the server in
  the state file, and a refresh that was interrupted anywhere is completed by its retry.
\<close>

section \<open>The server as the client sees it\<close>

text \<open>A message and a page as they arrive; \<open>render\<close> is the JSON form of a time.\<close>

definition received :: "(timestamp \<Rightarrow> string) \<Rightarrow> message \<Rightarrow> Message" where
  "received render m = \<lparr>hm_ID = m_ID m, hm_ConversationID = m_ConversationID m, hm_ConversationSeq = m_ConversationSeq m,
     hm_ClientMessageID = m_ClientMessageID m, hm_SenderID = m_SenderID m, hm_ReceiverID = m_ReceiverID m,
     hm_Content = m_Content m, hm_CreatedAt = render (m_CreatedAt m)\<rparr>"

definition received_page :: "(timestamp \<Rightarrow> string) \<Rightarrow> conversationMessagePage \<Rightarrow> messagePage" where
  "received_page render p = \<lparr>mp_ConversationID = pg_ConversationID p, mp_Messages = map (received render) (pg_Messages p),
     mp_NextCursor = pg_NextCursor p, mp_SnapshotCursor = pg_SnapshotCursor p, mp_HasMore = pg_HasMore p\<rparr>"

text \<open>The wildcard of the route \<open>/conversations/{conversationID}/messages\<close>.\<close>

definition path_segment :: "string \<Rightarrow> string" where
  "path_segment path = takeWhile (\<lambda>c. c \<noteq> CHR ''/'') (drop (length ''/conversations/'') path)"

text \<open>A request for a page, authenticated and answered in one state of the database.\<close>

definition serve_page ::
  "crypto \<Rightarrow> auth_env \<Rightarrow> (timestamp \<Rightarrow> string) \<Rightarrow> (messagePage \<Rightarrow> string) \<Rightarrow> db \<Rightarrow> http_request \<Rightarrow> transport" where
  "serve_page cr env render encode d r =
     (case requireAuthentication cr env (''Bearer '' @ hr_Token r) d of
        Inl (status, code, _) \<Rightarrow> Responded status (Some code)
      | Inr who \<Rightarrow>
        (case syncConversationMessages
                \<lparr>rd_fails_first = False, rd_fails_second = False, rd_others = (\<lambda>d. d), rd_now = 0, rd_clock = 0\<rparr>
                (au_UserID who) (path_segment (hr_Path r)) (hr_Query r) d of
           JSON status p \<Rightarrow> Responded status (Some (encode (received_page render p)))
         | APIError status code _ \<Rightarrow> Responded status (Some code)
         | NoBody status \<Rightarrow> Responded status None))"

text \<open>The page from a cursor on, by a snapshot.\<close>

definition expected_page :: "(timestamp \<Rightarrow> string) \<Rightarrow> int \<Rightarrow> db \<Rightarrow> int \<Rightarrow> int \<Rightarrow> int \<Rightarrow> messagePage" where
  "expected_page render cid d limit snap after =
     \<lparr>mp_ConversationID = cid, mp_Messages = map (\<lambda>k. received render (message_at cid d k)) [after + 1..min snap (after + limit)],
      mp_NextCursor = min snap (after + limit), mp_SnapshotCursor = snap, mp_HasMore = (after + limit < snap)\<rparr>"

section \<open>Local states\<close>

definition local_conversation :: "int \<Rightarrow> State \<Rightarrow> ConversationState" where
  "local_conversation cid s = (case ss_Conversations s (FormatInt cid) of None \<Rightarrow> new_conversation | Some c \<Rightarrow> c)"

definition append_message :: "int \<Rightarrow> Message \<Rightarrow> State \<Rightarrow> State" where
  "append_message cid m s =
     (let c = local_conversation cid s
      in s\<lparr>ss_Conversations := (ss_Conversations s)(FormatInt cid \<mapsto>
           c\<lparr>co_Messages := (co_Messages c)(FormatInt (hm_ConversationSeq m) \<mapsto> m), co_AppliedCursor := hm_ConversationSeq m,
             co_PendingACK := max (co_PendingACK c) (hm_ConversationSeq m)\<rparr>)\<rparr>)"

text \<open>The state after the first \<open>n\<close> messages of a stream that follow its cursor.\<close>

fun advanced :: "int \<Rightarrow> (int \<Rightarrow> Message) \<Rightarrow> State \<Rightarrow> nat \<Rightarrow> State" where
  "advanced cid item s 0 = s"
| "advanced cid item s (Suc n) =
     append_message cid (item (co_AppliedCursor (local_conversation cid s) + int n + 1)) (advanced cid item s n)"

lemma apply_next:
  assumes "hm_ConversationID m = cid" and "hm_ConversationSeq m = co_AppliedCursor (local_conversation cid s) + 1"
  shows "apply_change m s = Inr (Applied, append_message cid m s)"
  using assms by (simp add: apply_change_def append_message_def local_conversation_def Let_def split: option.split)

lemma append_fields:
  "ss_Version (append_message cid m s) = ss_Version s" "ss_Auth (append_message cid m s) = ss_Auth s"
  "ss_PendingRefresh (append_message cid m s) = ss_PendingRefresh s"
  "co_AppliedCursor (local_conversation cid (append_message cid m s)) = hm_ConversationSeq m"
  "co_AckedCursor (local_conversation cid (append_message cid m s)) = co_AckedCursor (local_conversation cid s)"
  "co_Messages (local_conversation cid (append_message cid m s)) = (co_Messages (local_conversation cid s))(FormatInt (hm_ConversationSeq m) \<mapsto> m)"
  "ss_Conversations (append_message cid m s) (FormatInt cid) \<noteq> None"
  "key \<noteq> FormatInt cid \<Longrightarrow> ss_Conversations (append_message cid m s) key = ss_Conversations s key"
  by (simp_all add: append_message_def local_conversation_def Let_def)

lemma advanced_fields:
  assumes "\<And>j. a < j \<Longrightarrow> j \<le> a + int n \<Longrightarrow> hm_ConversationSeq (item j) = j" and "a = co_AppliedCursor (local_conversation cid s)"
  shows "ss_Version (advanced cid item s n) = ss_Version s \<and> ss_Auth (advanced cid item s n) = ss_Auth s
    \<and> ss_PendingRefresh (advanced cid item s n) = ss_PendingRefresh s
    \<and> co_AppliedCursor (local_conversation cid (advanced cid item s n)) = a + int n
    \<and> (0 < n \<or> ss_Conversations s (FormatInt cid) \<noteq> None \<longrightarrow> ss_Conversations (advanced cid item s n) (FormatInt cid) \<noteq> None)
    \<and> (\<forall>key. key \<noteq> FormatInt cid \<longrightarrow> ss_Conversations (advanced cid item s n) key = ss_Conversations s key)
    \<and> (\<forall>j. a < j \<and> j \<le> a + int n \<longrightarrow> co_Messages (local_conversation cid (advanced cid item s n)) (FormatInt j) = Some (item j))
    \<and> (\<forall>j. j \<le> a \<longrightarrow> co_Messages (local_conversation cid (advanced cid item s n)) (FormatInt j)
         = co_Messages (local_conversation cid s) (FormatInt j))"
  using assms(1)
proof (induction n)
  case 0
  then show ?case using assms(2) by auto
next
  case (Suc n)
  let ?k = "a + int n + 1"
  have item: "hm_ConversationSeq (item ?k) = ?k" using Suc.prems [of ?k] by simp
  have IH: "ss_Version (advanced cid item s n) = ss_Version s" "ss_Auth (advanced cid item s n) = ss_Auth s"
    "ss_PendingRefresh (advanced cid item s n) = ss_PendingRefresh s"
    "\<forall>key. key \<noteq> FormatInt cid \<longrightarrow> ss_Conversations (advanced cid item s n) key = ss_Conversations s key"
    "\<forall>j. a < j \<and> j \<le> a + int n \<longrightarrow> co_Messages (local_conversation cid (advanced cid item s n)) (FormatInt j) = Some (item j)"
    "\<forall>j. j \<le> a \<longrightarrow> co_Messages (local_conversation cid (advanced cid item s n)) (FormatInt j)
         = co_Messages (local_conversation cid s) (FormatInt j)"
    using Suc by auto
  have "co_Messages (local_conversation cid (advanced cid item s (Suc n))) (FormatInt j) = Some (item j)"
    if "a < j" "j \<le> a + int (Suc n)" for j
    using that IH(5) by (cases "j = ?k") (simp_all add: append_fields item assms(2) [symmetric] FormatInt_inj)
  then show ?case using IH(1-4,6) by (simp add: append_fields item assms(2) [symmetric] FormatInt_inj)
qed

section \<open>The steps of a synchronisation\<close>

lemma Snapshot_good:
  assumes "holds_state store dv s" and "good_io (io (dv_ops dv))"
  shows "Snapshot store io dv = (Inr s, dv\<lparr>dv_ops := dv_ops dv + 1\<rparr>)"
  using assms by (simp add: Snapshot_def holds_state_def good_io_def readable_io_def)

lemma holds_ops [simp]: "holds_state store (dv\<lparr>dv_ops := k\<rparr>) s = holds_state store dv s"
  by (simp add: holds_state_def)

lemma holds_version: "holds_state store dv s \<Longrightarrow> ss_Version s = stateVersion"
  using loaded_version [of store "\<lparr>io_readFails = False, io_nonce = None, io_fault = None\<rparr>" "dv_file dv" s]
  by (simp add: holds_state_def readable_io_def)

lemma applyMessages_good:
  assumes "\<And>k. good_io (io k)" and "holds_state store dv s" and "a = co_AppliedCursor (local_conversation cid s)" and "0 < cid" and "0 \<le> a"
    and "\<And>j. a < j \<Longrightarrow> j \<le> a + int n \<Longrightarrow>
       hm_ConversationSeq (item j) = j \<and> hm_ConversationID (item j) = cid \<and> 0 < hm_ID (item j)"
    and "\<And>k. k \<le> n \<Longrightarrow> survives store (advanced cid item s k)"
  shows "fst (applyMessages store io (map item [a + 1..a + int n]) dv) = Inr ()
    \<and> holds_state store (snd (applyMessages store io (map item [a + 1..a + int n]) dv)) (advanced cid item s n)"
proof -
  have "fst (applyMessages store io (map item [a + int k + 1..a + int n]) dv') = Inr ()
    \<and> holds_state store (snd (applyMessages store io (map item [a + int k + 1..a + int n]) dv')) (advanced cid item s n)"
    if "k \<le> n" "holds_state store dv' (advanced cid item s k)" for k dv'
    using that
  proof (induction "n - k" arbitrary: k dv')
    case 0
    then show ?case by simp
  next
    case (Suc x)
    then have k: "k < n" by simp
    let ?m = "item (a + int k + 1)" and ?s = "advanced cid item s k"
    have m: "hm_ConversationSeq ?m = a + int k + 1" "hm_ConversationID ?m = cid" "0 < hm_ID ?m"
      using assms(6) [of "a + int k + 1"] k by simp_all
    have at: "co_AppliedCursor (local_conversation cid ?s) = a + int k" "ss_Version ?s = ss_Version s"
      using advanced_fields [of a k item cid s] assms(3,6) k by auto
    have next_state: "advanced cid item s (Suc k) = append_message cid ?m ?s" using assms(3) by simp
    have v: "normalize (append_message cid ?m ?s) = append_message cid ?m ?s"
      using holds_version [OF assms(2)] at(2) by (simp add: normalize_loaded append_fields)
    have ch: "apply_change ?m ?s = Inr (Applied, append_message cid ?m ?s)" by (rule apply_next) (simp_all add: m at)
    have sv: "survives store (normalize (append_message cid ?m ?s))" using assms(7) [of "Suc k"] k next_state v by simp
    note up = Update_good [where io = io and change = "apply_change ?m", OF Suc.prems(2) ch assms(1) sv]
    let ?u = "Update store io (apply_change ?m) dv'"
    have am: "applyMessage store io ?m dv' = ?u" using m assms(4,5) by (simp add: applyMessage_def)
    have "[a + int k + 1..a + int n] = (a + int k + 1) # [a + int (Suc k) + 1..a + int n]"
      using k by (subst upto_rec1) (simp_all add: algebra_simps)
    moreover have "fst (applyMessages store io (map item [a + int (Suc k) + 1..a + int n]) (snd ?u)) = Inr ()
      \<and> holds_state store (snd (applyMessages store io (map item [a + int (Suc k) + 1..a + int n]) (snd ?u))) (advanced cid item s n)"
      by (rule Suc.hyps(1)) (use Suc.hyps(2) k up(2) v next_state in simp_all)
    ultimately show ?case using am up(1) by (cases ?u) simp
  qed
  from this [of 0 dv] show ?thesis using assms(2) by simp
qed

lemma advanced_add:
  assumes "co_AppliedCursor (local_conversation cid (advanced cid item s n)) = co_AppliedCursor (local_conversation cid s) + int n"
  shows "advanced cid item (advanced cid item s n) m = advanced cid item s (n + m)"
  using assms by (induction m) (simp_all add: algebra_simps)

text \<open>One stream up to a snapshot, as items and as pages, with all answers available.\<close>

definition stream_items :: "int \<Rightarrow> (int \<Rightarrow> Message) \<Rightarrow> int \<Rightarrow> bool" where
  "stream_items cid item snap \<longleftrightarrow>
     (\<forall>j. 1 \<le> j \<and> j \<le> snap \<longrightarrow> hm_ConversationSeq (item j) = j \<and> hm_ConversationID (item j) = cid \<and> 0 < hm_ID (item j))"

definition page_of :: "int \<Rightarrow> (int \<Rightarrow> Message) \<Rightarrow> int \<Rightarrow> int \<Rightarrow> int \<Rightarrow> messagePage" where
  "page_of cid item limit snap after =
     \<lparr>mp_ConversationID = cid, mp_Messages = map item [after + 1..min snap (after + limit)],
      mp_NextCursor = min snap (after + limit), mp_SnapshotCursor = snap, mp_HasMore = (after + limit < snap)\<rparr>"

lemma stream_itemsD:
  assumes "stream_items cid item snap" "0 \<le> a" "a < j" "j \<le> snap"
  shows "hm_ConversationSeq (item j) = j" "hm_ConversationID (item j) = cid" "0 < hm_ID (item j)"
  using assms unfolding stream_items_def by auto

lemma stream_advanced:
  assumes "stream_items cid item snap" "a = co_AppliedCursor (local_conversation cid s)" "0 \<le> a" "a + int k \<le> snap"
  shows "ss_Auth (advanced cid item s k) = ss_Auth s"
    and "co_AppliedCursor (local_conversation cid (advanced cid item s k)) = a + int k"
    and "0 < k \<or> ss_Conversations s (FormatInt cid) \<noteq> None \<longrightarrow> ss_Conversations (advanced cid item s k) (FormatInt cid) \<noteq> None"
  using advanced_fields [of a k item cid s] assms(2,4) stream_itemsD(1) [OF assms(1,3)] by auto

text \<open>The messages of a page, applied from a state that has the first \<open>n\<close> items after its cursor.\<close>

lemma page_applied:
  assumes io: "\<And>k. good_io (io k)" and "0 < cid" and items: "stream_items cid item snap"
    and a: "a = co_AppliedCursor (local_conversation cid s)" "0 \<le> a"
    and kept: "\<forall>k. a + int k \<le> snap \<longrightarrow> survives store (advanced cid item s k)"
    and "holds_state store dv (advanced cid item s n)" and le: "a + int n + int width \<le> snap"
  obtains dv' where "applyMessages store io (map item [a + int n + 1..a + int n + int width]) dv = (Inr (), dv')"
    and "holds_state store dv' (advanced cid item s (n + width))"
proof -
  have cursor: "co_AppliedCursor (local_conversation cid (advanced cid item s n)) = a + int n"
    by (rule stream_advanced(2) [OF items a]) (use le in simp)
  have sum: "advanced cid item (advanced cid item s n) k = advanced cid item s (n + k)" for k
    using cursor a(1) by (intro advanced_add) simp
  have "fst (applyMessages store io (map item [a + int n + 1..a + int n + int width]) dv) = Inr ()
    \<and> holds_state store (snd (applyMessages store io (map item [a + int n + 1..a + int n + int width]) dv))
        (advanced cid item (advanced cid item s n) width)"
  proof (rule applyMessages_good [OF io assms(7) _ assms(2)])
    show "hm_ConversationSeq (item j) = j \<and> hm_ConversationID (item j) = cid \<and> 0 < hm_ID (item j)"
      if "a + int n < j" "j \<le> a + int n + int width" for j using stream_itemsD [OF items a(2), of j] that le by auto
    show "survives store (advanced cid item (advanced cid item s n) k)" if "k \<le> width" for k
      unfolding sum by (rule kept [rule_format]) (use that le in simp)
  qed (use cursor a(2) in simp_all)
  then show ?thesis unfolding sum by (metis that prod.collapse)
qed

text \<open>One turn of the loop on the page that belongs to the cursor.\<close>

lemma syncLoop_page:
  assumes io: "\<And>k. good_io (io k)" and "0 < cid" "1 \<le> limit"
    and a: "a = co_AppliedCursor (local_conversation cid s)" "0 \<le> a" and items: "stream_items cid item snap"
    and kept: "\<forall>k. a + int k \<le> snap \<longrightarrow> survives store (advanced cid item s k)" and auth: "ss_Auth s = Some auth"
    and dv: "holds_state store dv (advanced cid item s n)" and le: "a + int n \<le> snap"
    and present: "ss_Conversations s (FormatInt cid) \<noteq> None \<or> 0 < n \<or> a + int n < snap"
    and snapshot: "snapshot = 0 \<or> snapshot = snap" and width: "int width = min snap (a + int n + limit) - (a + int n)"
    and get: "doJSON errorCode decode zero_page (http i (syncHTTP cid (a + int n) limit snapshot (as_AccessToken auth)))
       = Inr (page_of cid item limit snap (a + int n))"
  obtains dv' where "holds_state store dv' (advanced cid item s (n + width))"
    and "syncLoop store io errorCode decode http cid limit (Suc fuel) i snapshot dv =
       (if a + int n + limit < snap
        then syncLoop store io errorCode decode http cid limit fuel (Suc i) (if snapshot = 0 then snap else snapshot) dv'
        else (Some (Inr ()), dv'))"
proof -
  let ?p = "page_of cid item limit snap (a + int n)"
  have upto: "a + int (n + width) \<le> snap" using width by auto
  note now = stream_advanced [OF items a le] and then' = stream_advanced [OF items a upto]
  have cursor: "(case ss_Conversations (advanced cid item s n) (FormatInt cid) of None \<Rightarrow> 0 | Some c \<Rightarrow> co_AppliedCursor c) = a + int n"
    using now(2) by (simp add: local_conversation_def new_conversation_def split: option.splits)
  have begun: "holds_state store (dv\<lparr>dv_ops := dv_ops dv + 1\<rparr>) (advanced cid item s n)" "a + int n + int width \<le> snap"
    using dv upto by simp_all
  obtain dv2 where dv2: "applyMessages store io (map item [a + int n + 1..a + int n + int width]) (dv\<lparr>dv_ops := dv_ops dv + 1\<rparr>) = (Inr (), dv2)"
      "holds_state store dv2 (advanced cid item s (n + width))"
    by (rule page_applied [where io = io, OF io assms(2) items a kept begun])
  have p: "mp_Messages ?p = map item [a + int n + 1..a + int n + int width]" "mp_NextCursor ?p = a + int (n + width)"
    "mp_SnapshotCursor ?p = snap" "mp_HasMore ?p = (a + int n + limit < snap)" using width by (simp_all add: page_of_def)
  have checks: "(mp_ConversationID ?p \<noteq> cid \<or> mp_NextCursor ?p < a + int n) = False" "(snapshot \<noteq> 0 \<and> snap \<noteq> snapshot) = False"
    using snapshot unfolding p(2) by (auto simp: page_of_def)
  have "ss_Conversations (advanced cid item s (n + width)) (FormatInt cid) \<noteq> None"
    using then'(3) present assms(3) width by auto
  then have arrived: "(case ss_Conversations (advanced cid item s (n + width)) (FormatInt cid) of
        None \<Rightarrow> True | Some c \<Rightarrow> co_AppliedCursor c \<noteq> mp_NextCursor ?p) = False"
    using then'(2) unfolding p(2) by (auto simp: local_conversation_def)
  have "syncLoop store io errorCode decode http cid limit (Suc fuel) i snapshot dv =
      (if \<not> a + int n + limit < snap then (Some (Inr ()), dv2\<lparr>dv_ops := dv_ops dv2 + 1\<rparr>)
       else syncLoop store io errorCode decode http cid limit fuel (Suc i) (if snapshot = 0 then snap else snapshot)
         (dv2\<lparr>dv_ops := dv_ops dv2 + 1\<rparr>))"
    by (simp only: syncLoop.simps(2) Snapshot_good [OF dv io] prod.case sum.case now(1) auth option.case Let_def
        cursor get checks if_False p(1) dv2(1) Snapshot_good [OF dv2(2) io] arrived p(3,4))
  then show ?thesis using that [of "dv2\<lparr>dv_ops := dv_ops dv2 + 1\<rparr>"] dv2(2) by simp
qed

lemma syncLoop_good:
  assumes io: "\<And>k. good_io (io k)" and "0 < cid" "1 \<le> limit"
    and a: "a = co_AppliedCursor (local_conversation cid s)" "0 \<le> a" and items: "stream_items cid item snap"
    and kept: "\<And>k. a + int k \<le> snap \<Longrightarrow> survives store (advanced cid item s k)" and auth: "ss_Auth s = Some auth"
    and page: "\<And>i after sn. a \<le> after \<Longrightarrow> after \<le> snap \<Longrightarrow> (sn = 0 \<and> i = 0 \<or> sn = snap \<and> 0 < snap) \<Longrightarrow>
       doJSON errorCode decode zero_page (http i (syncHTTP cid after limit sn (as_AccessToken auth))) = Inr (page_of cid item limit snap after)"
    and "holds_state store dv (advanced cid item s n)" "a + int n \<le> snap"
    and "ss_Conversations s (FormatInt cid) \<noteq> None \<or> 0 < n \<or> a + int n < snap"
    and "snapshot = 0 \<and> i = 0 \<or> snapshot = snap \<and> 0 < snap" and "snap - (a + int n) < int fuel"
  shows "\<exists>dv'. syncLoop store io errorCode decode http cid limit fuel i snapshot dv = (Some (Inr ()), dv')
    \<and> holds_state store dv' (advanced cid item s (nat (snap - a)))"
  using assms(10-14)
proof (induction fuel arbitrary: i snapshot dv n)
  case 0
  then show ?case by simp
next
  case (Suc fuel)
  let ?width = "nat (min snap (a + int n + limit) - (a + int n))"
  have width: "int ?width = min snap (a + int n + limit) - (a + int n)" using Suc.prems(2) assms(3) by auto
  have get: "doJSON errorCode decode zero_page (http i (syncHTTP cid (a + int n) limit snapshot (as_AccessToken auth)))
      = Inr (page_of cid item limit snap (a + int n))" by (rule page) (use Suc.prems in auto)
  have sn: "snapshot = 0 \<or> snapshot = snap" and all: "\<forall>k. a + int k \<le> snap \<longrightarrow> survives store (advanced cid item s k)"
    using Suc.prems(4) kept by blast+
  obtain dv' where dv': "holds_state store dv' (advanced cid item s (n + ?width))"
      "syncLoop store io errorCode decode http cid limit (Suc fuel) i snapshot dv =
       (if a + int n + limit < snap
        then syncLoop store io errorCode decode http cid limit fuel (Suc i) (if snapshot = 0 then snap else snapshot) dv'
        else (Some (Inr ()), dv'))"
    by (rule syncLoop_page [where io = io and fuel = fuel and http = http, OF io assms(2,3) a items all auth Suc.prems(1-3) sn width get])
  show ?case
  proof (cases "a + int n + limit < snap")
    case True
    then have "0 < snap" using a(2) assms(3) by simp
    then have "\<exists>dv''. syncLoop store io errorCode decode http cid limit fuel (Suc i) (if snapshot = 0 then snap else snapshot) dv' = (Some (Inr ()), dv'')
        \<and> holds_state store dv'' (advanced cid item s (nat (snap - a)))"
      using Suc.prems(4,5) True assms(3) by (intro Suc.IH [of _ "n + ?width"]) (use dv'(1) width in auto)
    then show ?thesis using dv'(2) True by simp
  next
    case False
    then have "n + ?width = nat (snap - a)" using width by linarith
    then show ?thesis using dv' False by simp
  qed
qed

section \<open>Pages of the server\<close>

lemma path_segment_FormatInt: "0 \<le> cid \<Longrightarrow> path_segment (''/conversations/'' @ FormatInt cid @ ''/messages'') = FormatInt cid"
proof -
  assume "0 \<le> cid"
  then have "\<forall>c \<in> set (FormatInt cid). c \<noteq> CHR ''/''"
    using format_nat_digits [of "nat cid"] by (auto simp: FormatInt_def list_all_iff is_digit_def)
  then show ?thesis unfolding path_segment_def by (simp add: takeWhile_append2)
qed

lemma serve_expected:
  assumes "readable uid cid d" "readable uid cid e" "db_le d e" and "requireAuthentication cr env (''Bearer '' @ token) e = Inr who" "au_UserID who = uid"
    and "snap = stream_end cid d" "0 \<le> after" "after \<le> snap" "1 \<le> limit" "limit \<le> 200"
    and "sn = 0 \<and> e = d \<or> sn = snap \<and> 0 < snap"
  shows "serve_page cr env render encode e (syncHTTP cid after limit sn token) =
    Responded 200 (Some (encode (page_of cid (\<lambda>k. received render (message_at cid d k)) limit snap after)))"
proof -
  have r: "chat_inv d" "chat_inv e" "is_member d cid uid" using assms(1,2) by (simp_all add: readable_def)
  have cid: "0 < cid" by (rule member_conversation [OF r(1,3)])
  have le: "snap \<le> stream_end cid e" using stream_end_le [OF r(1,2) assms(3) r(3)] assms(6) by simp
  have page: "server_page uid cid e after limit (if 0 < sn then Some sn else None) = JSON 200
     \<lparr>pg_ConversationID = cid, pg_Messages = map (message_at cid e) [after + 1..min snap (after + limit)],
      pg_NextCursor = min snap (after + limit), pg_SnapshotCursor = snap, pg_HasMore = (after + limit < snap)\<rparr>"
    using assms(6,11) by (intro server_page_eq [OF assms(2,7,8) le assms(9,10)]) auto
  have same: "map (message_at cid e) [after + 1..min snap (after + limit)] = map (message_at cid d) [after + 1..min snap (after + limit)]"
    using message_at_le [OF r(1,2) assms(3) r(3)] assms(6,7) by auto
  show ?thesis using page same assms(4,5) path_segment_FormatInt [of cid] cid
    by (simp add: serve_page_def syncHTTP_def server_page_def received_page_def page_of_def comp_def)
qed

lemma items_of_server:
  assumes "chat_inv d" and "is_member d cid uid"
  shows "stream_items cid (\<lambda>k. received render (message_at cid d k)) (stream_end cid d)"
proof -
  have "hm_ConversationSeq (received render (message_at cid d j)) = j \<and> hm_ConversationID (received render (message_at cid d j)) = cid
      \<and> 0 < hm_ID (received render (message_at cid d j))" if "1 \<le> j" "j \<le> stream_end cid d" for j
  proof -
    note m = message_at_seq [OF assms that]
    then have "message_at cid d j \<in> set (messages d)" "m_ConversationID (message_at cid d j) = cid"
      by (auto simp: conversation_messages_def)
    then show ?thesis using m(2) chat_inv_message_id(1) [OF assms(1)] by (simp add: received_def)
  qed
  then show ?thesis unfolding stream_items_def by blast
qed

text \<open>
  C5: Synchronisation reproduces the stream. A client with a working store that pages through a
  conversation of the server, while messages keep arriving between its requests, ends without an
  error, and its file then holds, under the cursor that was the end of the stream at its first
  request, exactly the server's messages after its old cursor, with the messages it had, its
  other conversations and its credentials unchanged.
\<close>

theorem sync_reproduces_the_stream:
  assumes "\<And>i. readable uid cid (states i)" and "\<And>i. db_le (states 0) (states i)"
    and "\<And>i. requireAuthentication cr (env i) (''Bearer '' @ as_AccessToken auth) (states i) = Inr who" and "au_UserID who = uid"
    and "snap = stream_end cid (states 0)" and "item = (\<lambda>k. received render (message_at cid (states 0) k))"
    and "1 \<le> limit" and "limit \<le> 200"
    and "holds_state store dv s" and "ss_Auth s = Some auth" and "\<And>k. good_io (io k)"
    and "a = co_AppliedCursor (local_conversation cid s)" and "0 \<le> a" and "a \<le> snap"
    and "ss_Conversations s (FormatInt cid) \<noteq> None \<or> a < snap"
    and "\<And>k. a + int k \<le> snap \<Longrightarrow> survives store (advanced cid item s k)"
    and "\<And>after. a \<le> after \<Longrightarrow> after \<le> snap \<Longrightarrow> decode (encode (page_of cid item limit snap after)) = Some (page_of cid item limit snap after)
         \<and> length (encode (page_of cid item limit snap after)) \<le> maxResponseBodyBytes"
    and "snap - a < int fuel"
  shows "\<exists>dv' s'. SyncConversation store io errorCode decode (\<lambda>i. serve_page cr (env i) render encode (states i)) fuel cid limit dv
      = (Some (Inr ()), dv') \<and> holds_state store dv' s'
    \<and> co_AppliedCursor (local_conversation cid s') = snap
    \<and> (\<forall>k. a < k \<and> k \<le> snap \<longrightarrow> co_Messages (local_conversation cid s') (FormatInt k) = Some (received render (message_at cid (states 0) k)))
    \<and> (\<forall>k. k \<le> a \<longrightarrow> co_Messages (local_conversation cid s') (FormatInt k) = co_Messages (local_conversation cid s) (FormatInt k))
    \<and> (\<forall>key. key \<noteq> FormatInt cid \<longrightarrow> ss_Conversations s' key = ss_Conversations s key)
    \<and> ss_Auth s' = ss_Auth s \<and> ss_PendingRefresh s' = ss_PendingRefresh s"
proof -
  let ?http = "\<lambda>i. serve_page cr (env i) render encode (states i)"
  have r: "chat_inv (states 0)" "is_member (states 0) cid uid" using assms(1) [of 0] by (simp_all add: readable_def)
  have cid: "0 < cid" by (rule member_conversation [OF r])
  have items: "stream_items cid item snap" using items_of_server [OF r] assms(5,6) by simp
  have get: "doJSON errorCode decode zero_page (?http i (syncHTTP cid after limit sn (as_AccessToken auth))) = Inr (page_of cid item limit snap after)"
    if "a \<le> after" "after \<le> snap" "sn = 0 \<and> i = 0 \<or> sn = snap \<and> 0 < snap" for i after sn
    using serve_expected [OF assms(1) assms(1) assms(2) assms(3,4,5), where after = after and limit = limit and sn = sn and render = render and encode = encode]
      that assms(5-8,13) assms(17) [OF that(1,2)]
    by (auto simp: doJSON_def)
  obtain dv' where dv': "syncLoop store io errorCode decode ?http cid limit fuel 0 0 dv = (Some (Inr ()), dv')"
      "holds_state store dv' (advanced cid item s (nat (snap - a)))"
    using syncLoop_good [where http = ?http and io = io and n = 0 and store = store and i = 0 and snapshot = 0, OF assms(11) cid assms(7,12,13) items assms(16,10) get]
      assms(9,14,15,18) by auto
  have "hm_ConversationSeq (item j) = j" if "a < j" "j \<le> a + int (nat (snap - a))" for j
    using items that assms(13,14) unfolding stream_items_def by auto
  note f = advanced_fields [OF this assms(12)]
  show ?thesis
    using dv' f assms(6,7,8,14) cid by (intro exI [of _ dv'] exI [of _ "advanced cid item s (nat (snap - a))"]) (simp add: SyncConversation_def)
qed

section \<open>Refresh\<close>

definition auth_state :: "(timestamp \<Rightarrow> string) \<Rightarrow> authResponse \<Rightarrow> AuthState" where
  "auth_state render r = \<lparr>as_SessionID = ar_SessionID r, as_DeviceID = ar_DeviceID r, as_SessionExpiresAt = render (ar_SessionExpiresAt r),
     as_AccessToken = ar_AccessToken r, as_AccessTokenExpiresAt = render (ar_AccessTokenExpiresAt r),
     as_RefreshToken = ar_RefreshToken r, as_RefreshTokenExpiresAt = render (ar_RefreshTokenExpiresAt r)\<rparr>"

text \<open>A refresh request that passed the rate limiter, and the database after it.\<close>

definition serve_refresh ::
  "crypto \<Rightarrow> auth_env \<Rightarrow> (timestamp \<Rightarrow> string) \<Rightarrow> (AuthState \<Rightarrow> string) \<Rightarrow> db \<Rightarrow> http_request \<Rightarrow> transport \<times> db" where
  "serve_refresh cr env render encode d q =
     (let field = (\<lambda>k. case map_of (hr_Body q) k of None \<Rightarrow> [] | Some v \<Rightarrow> v)
      in case refresh cr env Proceed (Some \<lparr>fq_RefreshToken = field ''refreshToken'', fq_IdempotencyKey = field ''idempotencyKey''\<rparr>) d of
           (JSON status r, _, d') \<Rightarrow> (Responded status (Some (encode (auth_state render r))), d')
         | (APIError status code _, _, d') \<Rightarrow> (Responded status (Some code), d')
         | (NoBody status, _, d') \<Rightarrow> (Responded status None, d'))"

lemma serve_refresh_eq:
  "serve_refresh cr env render encode d (refreshHTTP p) =
     (case refresh cr env Proceed (Some \<lparr>fq_RefreshToken = pf_RefreshToken p, fq_IdempotencyKey = pf_IdempotencyKey p\<rparr>) d of
        (JSON status r, _, d') \<Rightarrow> (Responded status (Some (encode (auth_state render r))), d')
      | (APIError status code _, _, d') \<Rightarrow> (Responded status (Some code), d')
      | (NoBody status, _, d') \<Rightarrow> (Responded status None, d'))"
  by (simp add: serve_refresh_def refreshHTTP_def)

lemma refresh_rotates:
  assumes "validOpaqueID key" and "decodeAndHashToken (cr_sha256 cr) token = Some (raw, h)" and "ae_cipher env = Some cipher"
  shows "refresh cr env Proceed (Some \<lparr>fq_RefreshToken = token, fq_IdempotencyKey = key\<rparr>) d =
    (case rotateRefreshToken cr env cipher h (cr_sha256 cr key) d of
       (RotationFailed, x, d') \<Rightarrow> (APIError 503 ''REFRESH_RECOVERY_UNAVAILABLE'' ''refresh recovery is temporarily unavailable'', x, d')
     | (RotationRefused status, x, d') \<Rightarrow> (APIError status ''REFRESH_TOKEN_INVALID'' ''refresh token is invalid or has been replayed'', x, d')
     | (Rotated r, x, d') \<Rightarrow> (JSON 200 r, x, d'))"
  using assms by (simp add: refresh_def)

lemma Refresh_pending:
  assumes "\<And>k. good_io (io k)" and "holds_state store dv s" and "beginRefresh key s = Inr (p, s1)" and "survives store s1" and "key \<noteq> []"
  obtains dv1 where "holds_state store dv1 s1"
    "\<forall>http. Refresh store io errorCode decode http key dv =
       (case doJSON errorCode decode zero_auth (http (refreshHTTP p)) of
          Inl e \<Rightarrow> (Inl e, dv1) | Inr response \<Rightarrow> Update store io (commitRefresh p response) dv1)"
proof -
  have "normalize s1 = s1" using assms(4) by (simp add: survives_def normalize_loaded)
  note up = Update_good [where io = io and change = "beginRefresh key", OF assms(2,3,1)] this
  obtain dv1 where u: "Update store io (beginRefresh key) dv = (Inr p, dv1)" using up assms(4) by (metis prod.collapse)
  show ?thesis
  proof (rule that [of dv1])
    show "holds_state store dv1 s1" using up assms(4) u by simp
    show "\<forall>http. Refresh store io errorCode decode http key dv = (case doJSON errorCode decode zero_auth (http (refreshHTTP p)) of
          Inl e \<Rightarrow> (Inl e, dv1) | Inr response \<Rightarrow> Update store io (commitRefresh p response) dv1)"
      using u assms(5) by (simp add: Refresh_def)
  qed
qed

text \<open>
  C17: An interrupted refresh recovers. If the answer to a refresh is lost after the server rotated
  the token, the client keeps the pending operation in its file: a refresh under another key is
  then refused before anything is sent, and the retry under the same key, within the idempotency
  lifetime and whatever other transactions the server ran, installs exactly the credentials the
  server had issued, without another rotation.
\<close>

theorem interrupted_refresh_recovers:
  assumes "\<And>k. good_io (io k)" and "holds_state store dv s" and "ss_Auth s = Some auth" and "ss_PendingRefresh s = None"
    and "p = \<lparr>pf_RefreshToken = as_RefreshToken auth, pf_IdempotencyKey = key\<rparr>" and "as_RefreshToken auth \<noteq> []" and "validOpaqueID key"
    and "survives store (s\<lparr>ss_PendingRefresh := Some p\<rparr>)"
    and "survives store (s\<lparr>ss_Auth := Some (auth_state render r), ss_PendingRefresh := None\<rparr>)"
    and "decode (encode (auth_state render r)) = Some (auth_state render r)" and "length (encode (auth_state render r)) \<le> maxResponseBodyBytes"
    and "auth_inv d" and "rt \<in> set (refresh_tokens d)" and "redeemable env (r_token_hash rt) d rt"
    and "decodeAndHashToken (cr_sha256 cr) (as_RefreshToken auth) = Some (raw, r_token_hash rt)"
    and "ae_cipher env = Some cipher" and "ae_cipher env' = Some cipher'"
    and "rotateRefreshToken cr env cipher (r_token_hash rt) (cr_sha256 cr key) d = (Rotated r, x, d1)"
    and "auth_step\<^sup>*\<^sup>* d1 v" and "find_session v (r_session_id rt) = Some s'" and "s_revoked_at s' = None"
    and "ae_clock env' AtUsed < s_idle_expires_at s'" and "ae_clock env' AtUsed < s_created_at s' + sessionAbsoluteLifetime"
    and "ae_clock env' AtStored < ae_clock env AtAccount + idempotencyLifetime"
    and "\<forall>pt. \<not> ae_fails env' pt" and "gcm_opens (cr_seal cr) (cr_open cr)" and "cr_unmarshal cr (cr_marshal cr r) = Some r"
    and "ci_keys cipher' (ci_keyVersion cipher) = ci_keys cipher (ci_keyVersion cipher)"
  shows "snd (serve_refresh cr env render encode d (refreshHTTP p)) = d1
    \<and> (\<exists>dv1. Refresh store io errorCode decode (\<lambda>_. NotSent) key dv = (Inl (ClientError ''send IM request''), dv1)
      \<and> (\<forall>http key'. key' \<noteq> key \<and> key' \<noteq> [] \<longrightarrow>
           fst (Refresh store io errorCode decode http key' dv1) = Inl (ClientError ''a different refresh operation is already pending''))
      \<and> (\<exists>dv2. Refresh store io errorCode decode (\<lambda>q. fst (serve_refresh cr env' render encode v q)) key dv1 = (Inr (), dv2)
           \<and> holds_state store dv2 (s\<lparr>ss_Auth := Some (auth_state render r), ss_PendingRefresh := None\<rparr>))
      \<and> snd (serve_refresh cr env' render encode v (refreshHTTP p)) = v)"
proof -
  let ?s1 = "s\<lparr>ss_PendingRefresh := Some p\<rparr>" and ?s2 = "s\<lparr>ss_Auth := Some (auth_state render r), ss_PendingRefresh := None\<rparr>"
  have key: "key \<noteq> []" using assms(7) by (auto simp: validOpaqueID_def)
  note retry = conjunct1 [OF rotation_retry [OF assms(12-14,18-28)]]
  have first: "serve_refresh cr env render encode d (refreshHTTP p) = (Responded 200 (Some (encode (auth_state render r))), d1)"
    unfolding serve_refresh_eq using refresh_rotates [where cr = cr and env = env, OF assms(7,15,16)] assms(5,18) by simp
  have second: "serve_refresh cr env' render encode v (refreshHTTP p) = (Responded 200 (Some (encode (auth_state render r))), v)"
    unfolding serve_refresh_eq using refresh_rotates [where cr = cr and env = env', OF assms(7,15,17)] assms(5) retry by simp
  have "beginRefresh key s = Inr (p, ?s1)" using assms(3-6) by (simp add: beginRefresh_def Let_def)
  then obtain dv1 where dv1: "holds_state store dv1 ?s1" "\<forall>http. Refresh store io errorCode decode http key dv =
       (case doJSON errorCode decode zero_auth (http (refreshHTTP p)) of
          Inl e \<Rightarrow> (Inl e, dv1) | Inr response \<Rightarrow> Update store io (commitRefresh p response) dv1)"
    using Refresh_pending [where io = io, OF assms(1,2) _ assms(8) key] by metis
  have again: "beginRefresh key ?s1 = Inr (p, ?s1)" using assms(3,5,6) by (simp add: beginRefresh_def Let_def)
  obtain dv3 where dv3: "holds_state store dv3 ?s1" "\<forall>http. Refresh store io errorCode decode http key dv1 =
       (case doJSON errorCode decode zero_auth (http (refreshHTTP p)) of
          Inl e \<Rightarrow> (Inl e, dv3) | Inr response \<Rightarrow> Update store io (commitRefresh p response) dv3)"
    by (rule Refresh_pending [where io = io and errorCode = errorCode and decode = decode, OF assms(1) dv1(1) again assms(8) key])
  have other: "fst (Refresh store io errorCode decode http key' dv1) = Inl (ClientError ''a different refresh operation is already pending'')"
    if "key' \<noteq> key" "key' \<noteq> []" for http key'
  proof -
    have "beginRefresh key' ?s1 = Inl (ClientError ''a different refresh operation is already pending'')"
      using that assms(3,5,6) by (simp add: beginRefresh_def Let_def)
    from Update_refused [where io = io and change = "beginRefresh key'", OF dv1(1) this] show ?thesis
      using assms(1) that(2) by (simp add: Refresh_def good_io_def readable_io_def)
  qed
  have commit: "commitRefresh p (auth_state render r) ?s1 = Inr ((), ?s2)" by (simp add: commitRefresh_def)
  have "normalize ?s2 = ?s2" using assms(9) unfolding survives_def by (intro normalize_loaded) blast
  then have "fst (Update store io (commitRefresh p (auth_state render r)) dv3) = Inr ()"
    "holds_state store (snd (Update store io (commitRefresh p (auth_state render r)) dv3)) ?s2"
    using Update_good [where io = io and change = "commitRefresh p (auth_state render r)", OF dv3(1) commit assms(1)] assms(9) by simp_all
  moreover have "doJSON errorCode decode zero_auth (Responded 200 (Some (encode (auth_state render r)))) = Inr (auth_state render r)"
    using assms(10,11) by (simp add: doJSON_def)
  ultimately have "\<exists>dv2. Refresh store io errorCode decode (\<lambda>q. fst (serve_refresh cr env' render encode v q)) key dv1 = (Inr (), dv2)
      \<and> holds_state store dv2 ?s2"
    using spec [OF dv3(2), of "\<lambda>q. fst (serve_refresh cr env' render encode v q)"] second by (metis fst_conv prod.collapse sum.simps(6))
  moreover have "Refresh store io errorCode decode (\<lambda>_. NotSent) key dv = (Inl (ClientError ''send IM request''), dv1)"
    using spec [OF dv1(2), of "\<lambda>_. NotSent"] by (simp add: doJSON_def)
  ultimately show ?thesis using first second other by (metis snd_conv)
qed

section \<open>Faults of the store\<close>

text \<open>The changes the client makes to its state, each through one update of the file.\<close>

datatype client_op = OpAuth AuthState | OpBegin string | OpCommit PendingRefresh AuthState | OpApply Message | OpAck int int

definition forget :: "client_error + 'a \<times> State \<Rightarrow> client_error + unit \<times> State" where
  "forget r = (case r of Inl e \<Rightarrow> Inl e | Inr (_, s) \<Rightarrow> Inr ((), s))"

fun op_change :: "client_op \<Rightarrow> State \<Rightarrow> client_error + unit \<times> State" where
  "op_change (OpAuth auth) s = forget (persistAuth_change auth s)"
| "op_change (OpBegin key) s = forget (beginRefresh key s)"
| "op_change (OpCommit p auth) s = forget (commitRefresh p auth s)"
| "op_change (OpApply m) s = forget (apply_change m s)"
| "op_change (OpAck cid applied) s = forget (ack_change cid applied s)"

text \<open>Every conversation holds the messages one to its cursor, and nothing beyond it waits for an acknowledgement.\<close>

definition gapless_conversation :: "ConversationState \<Rightarrow> bool" where
  "gapless_conversation c \<longleftrightarrow> 0 \<le> co_AppliedCursor c \<and> co_PendingACK c \<le> co_AppliedCursor c
     \<and> (\<forall>k. 1 \<le> k \<and> k \<le> co_AppliedCursor c \<longrightarrow> (\<exists>m. co_Messages c (FormatInt k) = Some m \<and> hm_ConversationSeq m = k))"

definition gapless :: "State \<Rightarrow> bool" where
  "gapless s \<longleftrightarrow> (\<forall>c \<in> ran (ss_Conversations s). gapless_conversation c)"

definition cursors_le :: "State \<Rightarrow> State \<Rightarrow> bool" where
  "cursors_le s s' \<longleftrightarrow> (\<forall>cid. co_AppliedCursor (local_conversation cid s) \<le> co_AppliedCursor (local_conversation cid s'))"

lemma gapless_upd: "gapless s \<Longrightarrow> gapless_conversation c \<Longrightarrow> gapless (s\<lparr>ss_Conversations := (ss_Conversations s)(key \<mapsto> c)\<rparr>)"
  unfolding gapless_def by (auto simp: ran_def split: if_splits)

lemma gapless_local: "gapless s \<Longrightarrow> gapless_conversation (local_conversation cid s)"
  unfolding gapless_def local_conversation_def
  by (auto simp: new_conversation_def gapless_conversation_def intro: ranI split: option.split)

lemma cursors_upd:
  "co_AppliedCursor (local_conversation cid s) \<le> co_AppliedCursor c \<Longrightarrow>
   cursors_le s (s\<lparr>ss_Conversations := (ss_Conversations s)(FormatInt cid \<mapsto> c)\<rparr>)"
  unfolding cursors_le_def local_conversation_def by (auto simp: FormatInt_inj)

lemma gapless_append:
  assumes "gapless_conversation c" and "hm_ConversationSeq m = co_AppliedCursor c + 1"
  shows "gapless_conversation (c\<lparr>co_Messages := (co_Messages c)(FormatInt (hm_ConversationSeq m) \<mapsto> m),
    co_AppliedCursor := hm_ConversationSeq m, co_PendingACK := max (co_PendingACK c) (hm_ConversationSeq m)\<rparr>)"
  using assms unfolding gapless_conversation_def by (auto simp: FormatInt_inj)

lemma apply_change_gapless:
  assumes "gapless s" and "apply_change m s = Inr (r, s')"
  shows "gapless s' \<and> cursors_le s s'"
proof -
  let ?cid = "hm_ConversationID m" and ?c = "local_conversation (hm_ConversationID m) s"
  have c: "gapless_conversation ?c" by (rule gapless_local [OF assms(1)])
  have "s' = s\<lparr>ss_Conversations := (ss_Conversations s)(FormatInt ?cid \<mapsto> ?c)\<rparr> \<or>
      (hm_ConversationSeq m = co_AppliedCursor ?c + 1 \<and> s' = append_message ?cid m s)"
    using assms(2) unfolding apply_change_def local_conversation_def [symmetric] Let_def
    by (auto simp: append_message_def Let_def split: if_splits option.splits)
  then show ?thesis
  proof (elim disjE conjE)
    assume "s' = s\<lparr>ss_Conversations := (ss_Conversations s)(FormatInt ?cid \<mapsto> ?c)\<rparr>"
    then show ?thesis using gapless_upd [OF assms(1) c] cursors_upd [of ?cid s ?c] by simp
  next
    assume "hm_ConversationSeq m = co_AppliedCursor ?c + 1" "s' = append_message ?cid m s"
    then show ?thesis using gapless_upd [OF assms(1) gapless_append [OF c]] unfolding append_message_def Let_def
      by (auto intro!: cursors_upd)
  qed
qed

lemma ack_change_gapless:
  assumes "gapless s" and "ack_change cid applied s = Inr (r, s')"
  shows "gapless s' \<and> cursors_le s s'"
proof -
  obtain c c2 where c: "ss_Conversations s (FormatInt cid) = Some c" and s': "s' = s\<lparr>ss_Conversations := (ss_Conversations s)(FormatInt cid \<mapsto> c2)\<rparr>"
    and c2: "co_AppliedCursor c2 = co_AppliedCursor c" "co_Messages c2 = co_Messages c" "co_PendingACK c2 = co_PendingACK c \<or> co_PendingACK c2 = 0"
    using assms(2) by (auto simp: ack_change_def Let_def split: option.splits)
  have "gapless_conversation c" using assms(1) c by (auto simp: gapless_def intro: ranI)
  then have "gapless_conversation c2" using c2 by (auto simp: gapless_conversation_def)
  then show ?thesis using gapless_upd [OF assms(1)] cursors_upd [of cid s c2] c c2(1) unfolding s' by (simp add: local_conversation_def)
qed

lemma op_change_gapless:
  assumes "gapless s" and "op_change op s = Inr ((), s')"
  shows "gapless s' \<and> cursors_le s s'"
proof -
  have same: "gapless s' \<and> cursors_le s s'" if "ss_Conversations s' = ss_Conversations s"
    using assms(1) that by (simp add: gapless_def cursors_le_def local_conversation_def)
  show ?thesis
  proof (cases op)
    case (OpApply m)
    then show ?thesis using assms apply_change_gapless by (auto simp: forget_def split: sum.splits)
  next
    case (OpAck cid applied)
    then show ?thesis using assms ack_change_gapless by (auto simp: forget_def split: sum.splits)
  qed (rule same; use assms(2) in \<open>auto simp: forget_def persistAuth_change_def beginRefresh_def commitRefresh_def Let_def
       split: sum.splits option.splits if_splits\<close>)+
qed

text \<open>
  A fault of the store never damages the client. Whatever happens during an update of the state
  file (the read fails, there is no randomness, the write stops before or after the rename), the
  file then holds the state before it or the complete state after it; in both every conversation
  still has all messages up to its cursor, and no cursor went back.
\<close>

theorem client_file_stays_gapless:
  assumes "holds_state store dv s" and "gapless s" and "nonce_io (io (dv_ops dv))"
    and "\<And>s'. op_change op s = Inr ((), s') \<Longrightarrow> survives store (normalize s')"
  shows "\<exists>s'. holds_state store (snd (Update store io (op_change op) dv)) s' \<and> gapless s' \<and> cursors_le s s'
    \<and> (s' = s \<or> (\<exists>s1. op_change op s = Inr ((), s1) \<and> s' = normalize s1))"
proof -
  consider "holds_state store (snd (Update store io (op_change op) dv)) s"
    | s1 where "op_change op s = Inr ((), s1)" "holds_state store (snd (Update store io (op_change op) dv)) (normalize s1)"
    using Update_atomic [where io = io and change = "op_change op", OF assms(1,3)] assms(4) by auto
  then show ?thesis
  proof cases
    case 1
    then show ?thesis using assms(2) by (auto simp: cursors_le_def)
  next
    case (2 s1)
    have "gapless (normalize s1) \<and> cursors_le s (normalize s1)"
      using op_change_gapless [OF assms(2) 2(1)] by (simp add: gapless_def cursors_le_def local_conversation_def normalize_def)
    then show ?thesis using 2 by blast
  qed
qed

section \<open>Witnesses\<close>

definition toy_store :: "(State \<Rightarrow> string) \<Rightarrow> (string \<Rightarrow> State) \<Rightarrow> FileStore" where
  "toy_store write_out read_in = \<lparr>fs_key = replicate 32 (CHR ''k''), fs_seal = toy_seal, fs_open = toy_open,
     fs_marshal = write_out, fs_unmarshal = (\<lambda>x. Some (read_in x))\<rparr>"

definition calm_io :: "nat \<Rightarrow> store_io" where
  "calm_io k = \<lparr>io_readFails = False, io_nonce = Some (replicate nonceSize (CHR ''n'')), io_fault = None\<rparr>"

definition saved :: "FileStore \<Rightarrow> State \<Rightarrow> device" where
  "saved store s = \<lparr>dv_file = Some (envelope store (replicate nonceSize (CHR ''n'')) s), dv_ops = 0\<rparr>"

definition client_auth :: AuthState where
  "client_auth = \<lparr>as_SessionID = 7, as_DeviceID = ''phone'', as_SessionExpiresAt = [],
     as_AccessToken = EncodeToString url_alphabet (replicate 32 (CHR ''a'')), as_AccessTokenExpiresAt = [],
     as_RefreshToken = EncodeToString url_alphabet (replicate 32 (CHR ''o'')), as_RefreshTokenExpiresAt = []\<rparr>"

definition client_state :: State where
  "client_state = \<lparr>ss_Version = stateVersion, ss_Auth = Some client_auth, ss_PendingRefresh = None, ss_Conversations = Map.empty\<rparr>"

definition client_key :: string where
  "client_key = replicate 32 (CHR ''k'')"

definition client_pending :: PendingRefresh where
  "client_pending = \<lparr>pf_RefreshToken = as_RefreshToken client_auth, pf_IdempotencyKey = client_key\<rparr>"

definition new_auth :: AuthState where
  "new_auth = auth_state (\<lambda>_. ''t'') sample_response"

definition refresh_store :: FileStore where
  "refresh_store = toy_store
     (\<lambda>s. if ss_PendingRefresh s \<noteq> None then ''1'' else if ss_Auth s = Some client_auth then ''0'' else ''2'')
     (\<lambda>x. if x = ''1'' then client_state\<lparr>ss_PendingRefresh := Some client_pending\<rparr> else if x = ''0'' then client_state
          else client_state\<lparr>ss_Auth := Some new_auth, ss_PendingRefresh := None\<rparr>)"

lemma calm_io_good: "good_io (calm_io k)"
  by (simp add: calm_io_def good_io_def)

lemma toy_store_survives:
  assumes "ss_Version s = stateVersion" and "read_in (write_out s) = s"
  shows "survives (toy_store write_out read_in) s"
  using assms toy_opens by (simp add: survives_def toy_store_def)

lemma saved_holds: "survives store s \<Longrightarrow> holds_state store (saved store s) s"
  using load_envelope by (simp add: holds_state_def saved_def)

lemma refresh_store_survives:
  "survives refresh_store client_state" "survives refresh_store (client_state\<lparr>ss_PendingRefresh := Some client_pending\<rparr>)"
  "survives refresh_store (client_state\<lparr>ss_Auth := Some new_auth, ss_PendingRefresh := None\<rparr>)"
  unfolding refresh_store_def
  by (rule toy_store_survives; simp add: client_state_def new_auth_def auth_state_def client_auth_def)+

lemma interrupted_refresh_witness:
  "\<exists>d1 dv1 dv2. Refresh refresh_store calm_io id (\<lambda>_. Some new_auth) (\<lambda>_. NotSent) client_key (saved refresh_store client_state)
       = (Inl (ClientError ''send IM request''), dv1)
     \<and> snd (serve_refresh sample_crypto (sample_env 1000) (\<lambda>_. ''t'') (\<lambda>_. []) (sample_db None None) (refreshHTTP client_pending)) = d1
     \<and> Refresh refresh_store calm_io id (\<lambda>_. Some new_auth)
         (\<lambda>q. fst (serve_refresh sample_crypto (sample_env 2000) (\<lambda>_. ''t'') (\<lambda>_. []) d1 q)) client_key dv1 = (Inr (), dv2)
     \<and> holds_state refresh_store dv2 (client_state\<lparr>ss_Auth := Some new_auth, ss_PendingRefresh := None\<rparr>)"
proof -
  let ?run = "rotateRefreshToken sample_crypto (sample_env 1000) old_ring (r_token_hash (sample_token None)) (replicate 32 (CHR ''k'')) (sample_db None None)"
  obtain x d1 where run: "?run = (Rotated sample_response, x, d1)" using sample_rotation(1) by (metis prod.collapse)
  have key: "cr_sha256 sample_crypto client_key = replicate 32 (CHR ''k'')" by (simp add: sample_crypto_def fixed_hash_def client_key_def)
  obtain s' where s': "find_session d1 (r_session_id (sample_token None)) = Some s'" "s_revoked_at s' = None"
      "2000 < s_idle_expires_at s'" "s_created_at s' = 0" using sample_rotation(2) run by auto
  have hash: "r_token_hash (sample_token None) = replicate 32 (CHR ''o'')" by (simp add: sample_token_def)
  have token: "decodeAndHashToken (cr_sha256 sample_crypto) (as_RefreshToken client_auth) = Some (replicate 32 (CHR ''o''), r_token_hash (sample_token None))"
    unfolding hash by (simp add: client_auth_def decodeAndHashToken_def url_base64_roundtrip tokenLength_def sample_crypto_def fixed_hash_def)
  have open_token: "redeemable (sample_env 1000) (r_token_hash (sample_token None)) (sample_db None None) (sample_token None)"
    by (simp add: redeemable_def find_session_def live_session_def sample_env_def sample_db_def sample_session_def sample_token_def sessionAbsoluteLifetime_def)
  have member: "sample_token None \<in> set (refresh_tokens (sample_db None None))" by (simp add: sample_db_def)
  have nonempty: "as_RefreshToken client_auth \<noteq> []" by (simp add: client_auth_def encoded_nonempty tokenLength_def)
  note rule = interrupted_refresh_recovers [where io = calm_io and store = refresh_store and dv = "saved refresh_store client_state" and s = client_state
      and auth = client_auth and key = client_key and p = client_pending and render = "\<lambda>_. ''t''" and r = sample_response and encode = "\<lambda>_. []"
      and decode = "\<lambda>_. Some new_auth" and errorCode = id and cr = sample_crypto and env = "sample_env 1000" and env' = "sample_env 2000"
      and cipher = old_ring and cipher' = old_ring and rt = "sample_token None" and d = "sample_db None None" and v = d1 and s' = s',
      OF calm_io_good saved_holds [OF refresh_store_survives(1)] _ _ client_pending_def nonempty _ refresh_store_survives(2)
        refresh_store_survives(3) [unfolded new_auth_def] _ _ sample_db_inv member open_token token _ _ run [folded key] rtranclp.rtrancl_refl s'(1,2)]
  have "ss_Auth client_state = Some client_auth" "ss_PendingRefresh client_state = None" "validOpaqueID client_key"
    by (simp_all add: client_state_def client_key_def validOpaqueID_def)
  then show ?thesis using rule s'(3,4) toy_opens
    by (auto simp: new_auth_def sample_env_def sample_crypto_def maxResponseBodyBytes_def sessionAbsoluteLifetime_def idempotencyLifetime_def)
qed

text \<open>The database of one message, with a session of its receiver.\<close>

definition reader_db :: db where
  "reader_db = hello_db\<lparr>sessions := [\<lparr>s_id = 7, s_user_id = 2, s_device_id = ''phone'', s_idle_expires_at = 5000000,
     s_revoked_at = None, s_created_at = 0\<rparr>],
     access_tokens := [\<lparr>a_session_id = 7, a_token_hash = replicate 32 (CHR ''a''), a_expires_at = 5000000\<rparr>]\<rparr>"

definition reader :: authenticated where
  "reader = \<lparr>au_UserID = 2, au_SessionID = 7, au_DeviceID = ''phone'', au_TokenExpiry = 5000000\<rparr>"

definition hello_item :: "int \<Rightarrow> Message" where
  "hello_item = (\<lambda>k. received (\<lambda>_. ''t'') (message_at 1 reader_db k))"

definition sync_store :: FileStore where
  "sync_store = toy_store (\<lambda>s. if ss_Conversations s (FormatInt 1) = None then ''0'' else ''1'')
     (\<lambda>x. if x = ''0'' then client_state else advanced 1 hello_item client_state 1)"

definition encode_hello :: "messagePage \<Rightarrow> string" where
  "encode_hello p = (if mp_Messages p = [] then ''e'' else ''m'')"

definition decode_hello :: "string \<Rightarrow> messagePage option" where
  "decode_hello x = Some (page_of 1 hello_item 10 1 (if x = ''m'' then 0 else 1))"

lemma reader_authenticated:
  "requireAuthentication sample_crypto (sample_env 1000) (''Bearer '' @ as_AccessToken client_auth) reader_db = Inr reader"
proof -
  have "Fields (''Bearer '' @ as_AccessToken client_auth) = [''Bearer'', as_AccessToken client_auth]"
    by (rule bearer_fields) (simp_all add: client_auth_def url_base64_narrow encoded_nonempty tokenLength_def)
  moreover have "decodeAndHashToken (cr_sha256 sample_crypto) (as_AccessToken client_auth) = Some (replicate 32 (CHR ''a''), replicate 32 (CHR ''a''))"
    by (simp add: client_auth_def decodeAndHashToken_def url_base64_roundtrip tokenLength_def sample_crypto_def fixed_hash_def)
  moreover have "is_bearer ''Bearer''" by code_simp
  ultimately show ?thesis
    by (simp add: requireAuthentication_def token_session_def find_session_def live_session_def sample_env_def reader_db_def reader_def
        sessionAbsoluteLifetime_def)
qed

lemma reader_readable: "readable 2 1 reader_db" and reader_end: "stream_end 1 reader_db = 1"
proof -
  have "is_member hello_db 1 2" "stream_end 1 hello_db = 1" "fits_int64 1" by code_simp+
  moreover have "chat_inv reader_db"
    using chat_inv_hello_db by (rule chat_inv_cong [THEN iffD1, rotated -1]) (simp_all add: reader_db_def user_ids_def)
  ultimately show "readable 2 1 reader_db" "stream_end 1 reader_db = 1"
    by (simp_all add: readable_def reader_db_def is_member_def stream_end_def int64_max_def)
qed

lemma sync_reproduces_witness:
  "\<exists>dv' s'. SyncConversation sync_store calm_io id decode_hello (\<lambda>_. serve_page sample_crypto (sample_env 1000) (\<lambda>_. ''t'') encode_hello reader_db)
      2 1 10 (saved sync_store client_state) = (Some (Inr ()), dv')
    \<and> holds_state sync_store dv' s' \<and> co_AppliedCursor (local_conversation 1 s') = 1
    \<and> co_Messages (local_conversation 1 s') (FormatInt 1) = Some (received (\<lambda>_. ''t'') (message_at 1 reader_db 1))"
proof -
  have here: "ss_Conversations (advanced 1 hello_item client_state 1) (FormatInt 1) \<noteq> None"
    unfolding One_nat_def advanced.simps by (rule append_fields(7))
  have kept: "survives sync_store (advanced 1 hello_item client_state k)" if "0 + int k \<le> 1" for k
  proof -
    have "k = 0 \<or> k = 1" using that by auto
    moreover have "survives sync_store client_state"
      unfolding sync_store_def by (rule toy_store_survives) (simp_all add: client_state_def)
    moreover have "survives sync_store (advanced 1 hello_item client_state 1)"
      unfolding sync_store_def using here by (intro toy_store_survives) (simp_all add: append_fields client_state_def)
    ultimately show ?thesis by auto
  qed
  have codec: "decode_hello (encode_hello (page_of 1 hello_item 10 1 after)) = Some (page_of 1 hello_item 10 1 after)
      \<and> length (encode_hello (page_of 1 hello_item 10 1 after)) \<le> maxResponseBodyBytes" if "0 \<le> after" "after \<le> 1" for after
  proof -
    have "after = 0 \<or> after = 1" using that by auto
    then show ?thesis by (auto simp: decode_hello_def encode_hello_def page_of_def maxResponseBodyBytes_def)
  qed
  have "\<exists>dv' s'. SyncConversation sync_store calm_io id decode_hello (\<lambda>_. serve_page sample_crypto (sample_env 1000) (\<lambda>_. ''t'') encode_hello reader_db)
      2 1 10 (saved sync_store client_state) = (Some (Inr ()), dv') \<and> holds_state sync_store dv' s'
    \<and> co_AppliedCursor (local_conversation 1 s') = 1
    \<and> (\<forall>k. 0 < k \<and> k \<le> 1 \<longrightarrow> co_Messages (local_conversation 1 s') (FormatInt k) = Some (received (\<lambda>_. ''t'') (message_at 1 reader_db k)))
    \<and> (\<forall>k. k \<le> 0 \<longrightarrow> co_Messages (local_conversation 1 s') (FormatInt k) = co_Messages (local_conversation 1 client_state) (FormatInt k))
    \<and> (\<forall>key. key \<noteq> FormatInt 1 \<longrightarrow> ss_Conversations s' key = ss_Conversations client_state key)
    \<and> ss_Auth s' = ss_Auth client_state \<and> ss_PendingRefresh s' = ss_PendingRefresh client_state"
    by (rule sync_reproduces_the_stream [where states = "\<lambda>_. reader_db" and env = "\<lambda>_. sample_env 1000" and uid = 2 and a = 0 and snap = 1,
          OF reader_readable _ reader_authenticated _ _ hello_item_def _ _ saved_holds [OF kept [of 0, simplified]] _ calm_io_good])
       (use kept codec in \<open>simp_all add: reader_def reader_end db_le_refl local_conversation_def new_conversation_def client_state_def\<close>)
  then show ?thesis
  proof (elim exE conjE, goal_cases)
    case (1 dv' s')
    show ?case using 1(1-3) 1(4) [rule_format, of 1] by (intro exI [of _ dv'] exI [of _ s'] conjI) simp_all
  qed
qed

definition torn_io :: "nat \<Rightarrow> store_io" where
  "torn_io k = (calm_io k)\<lparr>io_fault := Some BeforeRename\<rparr>"

lemma client_file_witness:
  "\<exists>s'. holds_state refresh_store (snd (Update refresh_store torn_io (op_change (OpBegin client_key)) (saved refresh_store client_state))) s' \<and> gapless s'"
proof -
  have "op_change (OpBegin client_key) client_state = Inr ((), client_state\<lparr>ss_PendingRefresh := Some client_pending\<rparr>)"
    by (simp add: forget_def beginRefresh_def client_state_def client_pending_def client_auth_def encoded_nonempty tokenLength_def Let_def)
  moreover have "normalize (client_state\<lparr>ss_PendingRefresh := Some client_pending\<rparr>) = client_state\<lparr>ss_PendingRefresh := Some client_pending\<rparr>"
    by (rule normalize_loaded) (simp add: client_state_def)
  ultimately have "survives refresh_store (normalize s')" if "op_change (OpBegin client_key) client_state = Inr ((), s')" for s'
    using that refresh_store_survives(2) by simp
  then show ?thesis
    using client_file_stays_gapless [where io = torn_io and op = "OpBegin client_key", OF saved_holds [OF refresh_store_survives(1)]]
    by (simp add: gapless_def client_state_def torn_io_def calm_io_def nonce_io_def) blast
qed

end
