(* ===== verification/Outbox.thy ===== *)
theory Outbox
  imports Database "HOL-Library.Product_Lexorder"
begin

text \<open>
  The outbox worker: \<^verbatim>\<open>outbox.go\<close>. Statements are functions on the table of events at a database
  time; rows that a concurrent statement holds are skipped by a claim, and the lock tokens it
  draws are given by a function of the event. Durations are nanoseconds, timestamps
  microseconds.

  The step relation \<open>outbox_step\<close> is the system of all workers over one table: claims, publisher
  calls, marks, crashes, cleanup and the passing of time, in any order.
\<close>

section \<open>Events, configuration, failures\<close>

record outboxEvent =
  ev_EventID :: int
  ev_EventType :: string
  ev_PayloadVersion :: int
  ev_MessageID :: int
  ev_Payload :: "messageCreatedEventPayload option"
  ev_AttemptCount :: int
  ev_LockToken :: int
  ev_ReadyAt :: "timestamp option"

record outboxWorkerConfig =
  wc_EventTypes :: "string list"
  wc_BatchSize :: int
  wc_Concurrency :: int
  wc_LeaseDuration :: duration
  wc_AttemptTimeout :: duration
  wc_PollInterval :: duration
  wc_MaxAttempts :: int
  wc_BaseBackoff :: duration
  wc_MaxBackoff :: duration

text \<open>The error a publisher returns: a \<open>publishFailure\<close>, or any other error.\<close>

datatype publish_error =
    PublishFailure (failure_text: string) (failure_permanent: bool) (failure_retryAfter: duration)
  | OtherError (failure_text: string)

record outboxPublishOutcome =
  oc_event :: outboxEvent
  oc_err :: "publish_error option"

datatype state_error = StateOK | LeaseLost | DatabaseFailed

definition permanentPublishError :: "string \<Rightarrow> publish_error" where
  "permanentPublishError e = PublishFailure e True 0"

definition retryablePublishError :: "string \<Rightarrow> duration \<Rightarrow> publish_error" where
  "retryablePublishError e retryAfter = PublishFailure e False retryAfter"

definition is_permanent :: "publish_error \<Rightarrow> bool" where
  "is_permanent e = (case e of PublishFailure _ permanent _ \<Rightarrow> permanent | OtherError _ \<Rightarrow> False)"

definition Second :: duration where "Second = 1000000000"
definition Millisecond :: duration where "Millisecond = 1000000"

definition Milliseconds :: "duration \<Rightarrow> int" where "Milliseconds d = go_div d Millisecond"

definition defaultOutboxWorkerConfig :: outboxWorkerConfig where
  "defaultOutboxWorkerConfig =
     \<lparr>wc_EventTypes = [''message.created''], wc_BatchSize = 64, wc_Concurrency = 16,
      wc_LeaseDuration = 30 * Second, wc_AttemptTimeout = 10 * Second, wc_PollInterval = 500 * Millisecond,
      wc_MaxAttempts = 10, wc_BaseBackoff = Second, wc_MaxBackoff = 5 * 60 * Second\<rparr>"

definition newOutboxWorker :: "bool \<Rightarrow> bool \<Rightarrow> outboxWorkerConfig \<Rightarrow> string + outboxWorkerConfig" where
  "newOutboxWorker has_db has_publisher config =
     (if \<not> has_db \<or> \<not> has_publisher then Inl ''outbox worker requires a database and publisher''
      else if wc_EventTypes config = [] then Inl ''outbox worker requires at least one event type''
      else if wc_BatchSize config \<le> 0 \<or> wc_Concurrency config \<le> 0 \<or> wc_MaxAttempts config \<le> 0
      then Inl ''outbox batch size, concurrency and max attempts must be positive''
      else if wc_LeaseDuration config \<le> 0 \<or> wc_AttemptTimeout config \<le> 0 \<or> wc_PollInterval config \<le> 0
              \<or> wc_BaseBackoff config \<le> 0 \<or> wc_MaxBackoff config \<le> 0
      then Inl ''outbox durations must be positive''
      else if wc_AttemptTimeout config \<ge> wc_LeaseDuration config
      then Inl ''outbox attempt timeout must be shorter than its lease''
      else if wc_BaseBackoff config > wc_MaxBackoff config
      then Inl ''outbox base backoff cannot exceed max backoff''
      else Inr config)"

section \<open>Backoff\<close>

text \<open>\<open>half\<close> plus a random value of 0 to \<open>half\<close>.\<close>

definition equalJitter :: "(int \<Rightarrow> int) \<Rightarrow> duration \<Rightarrow> duration" where
  "equalJitter rand_Int64N delay =
     (let half = go_div delay 2 in if half \<le> 0 then delay else half + rand_Int64N (half + 1))"

function backoffLoop :: "outboxWorkerConfig \<Rightarrow> int \<Rightarrow> int \<Rightarrow> duration \<Rightarrow> duration" where
  "backoffLoop config attempt current delay =
     (if current < attempt \<and> delay < wc_MaxBackoff config
      then if delay > go_div (wc_MaxBackoff config) 2 then wc_MaxBackoff config
           else backoffLoop config attempt (current + 1) (delay * 2)
      else delay)"
  by pat_completeness auto

termination backoffLoop
  by (relation "measure (\<lambda>(config, attempt, current, delay). nat (attempt - current))") auto

declare backoffLoop.simps [simp del]

definition retryDelay :: "(duration \<Rightarrow> duration) \<Rightarrow> outboxWorkerConfig \<Rightarrow> int \<Rightarrow> duration" where
  "retryDelay jitter config attempt =
     (let delay = backoffLoop config attempt 1 (wc_BaseBackoff config)
      in jitter (if delay > wc_MaxBackoff config then wc_MaxBackoff config else delay))"

text \<open>\<open>string (runes[:limit])\<close>: an invalid byte becomes U+FFFD.\<close>

function runesOf :: "string \<Rightarrow> string list" where
  "runesOf [] = []"
| "runesOf (c # s) =
     (let w = rune_width (c # s);
          r = (if w = 1 \<and> 128 \<le> byte c then [CHR 0xEF, CHR 0xBF, CHR 0xBD] else take w (c # s))
      in r # runesOf (drop w (c # s)))"
  by pat_completeness auto
termination
  by (relation "measure length") (use rune_width_pos in \<open>auto simp: drop_Cons' less_Suc_eq_le\<close>)

definition truncateRunes :: "string \<Rightarrow> nat \<Rightarrow> string" where
  "truncateRunes value limit =
     (if RuneCountInString value \<le> limit then value else concat (take limit (runesOf value)))"

section \<open>Statements\<close>

definition claimLimit :: "outboxWorkerConfig \<Rightarrow> int" where
  "claimLimit config = min (wc_BatchSize config) (wc_Concurrency config)"

definition open_row :: "outbox_row \<Rightarrow> bool" where
  "open_row r \<longleftrightarrow> o_published_at r = None \<and> o_dead_at r = None"

definition claimable :: "outboxWorkerConfig \<Rightarrow> timestamp \<Rightarrow> outbox_row \<Rightarrow> bool" where
  "claimable config now r \<longleftrightarrow> open_row r \<and> o_event_type r \<in> set (wc_EventTypes config)
     \<and> o_next_attempt_at r \<le> now \<and> (case o_locked_until r of None \<Rightarrow> True | Some t \<Rightarrow> t \<le> now)"

definition claim_key :: "outbox_row \<Rightarrow> timestamp \<times> timestamp \<times> int" where
  "claim_key r = (o_next_attempt_at r, o_created_at r, o_event_id r)"

definition candidates :: "outboxWorkerConfig \<Rightarrow> timestamp \<Rightarrow> int set \<Rightarrow> outbox_row list \<Rightarrow> int list" where
  "candidates config now skip rows =
     map o_event_id (select_limit (\<lambda>r. claimable config now r \<and> o_event_id r \<notin> skip) claim_key
       (claimLimit config) rows)"

definition lease :: "outboxWorkerConfig \<Rightarrow> timestamp \<Rightarrow> (int \<Rightarrow> int) \<Rightarrow> outbox_row \<Rightarrow> outbox_row" where
  "lease config now fresh r =
     r\<lparr>o_attempt_count := o_attempt_count r + 1,
       o_locked_until := Some (now + Milliseconds (wc_LeaseDuration config) * 1000),
       o_lock_token := Some (fresh (o_event_id r))\<rparr>"

definition event_of :: "outbox_row \<Rightarrow> outboxEvent" where
  "event_of r =
     \<lparr>ev_EventID = o_event_id r, ev_EventType = o_event_type r, ev_PayloadVersion = o_payload_version r,
      ev_MessageID = o_message_id r, ev_Payload = o_payload r, ev_AttemptCount = o_attempt_count r,
      ev_LockToken = the (o_lock_token r), ev_ReadyAt = o_ready_at r\<rparr>"

definition claim ::
  "outboxWorkerConfig \<Rightarrow> timestamp \<Rightarrow> int set \<Rightarrow> (int \<Rightarrow> int) \<Rightarrow> outbox_row list \<Rightarrow> outboxEvent list \<times> outbox_row list" where
  "claim config now skip fresh rows =
     (let ids = candidates config now skip rows;
          rows' = update_rows (\<lambda>r. o_event_id r \<in> set ids) (lease config now fresh) rows
      in (map event_of (filter (\<lambda>r. o_event_id r \<in> set ids) rows'), rows'))"

definition owned :: "outboxEvent \<Rightarrow> outbox_row \<Rightarrow> bool" where
  "owned e r \<longleftrightarrow> o_event_id r = ev_EventID e \<and> o_lock_token r = Some (ev_LockToken e) \<and> open_row r"

definition publish_row :: "timestamp \<Rightarrow> outbox_row \<Rightarrow> outbox_row" where
  "publish_row now r = r\<lparr>o_published_at := Some now, o_locked_until := None, o_lock_token := None, o_last_error := None\<rparr>"

definition markPublished :: "timestamp \<Rightarrow> outboxEvent \<Rightarrow> outbox_row list \<Rightarrow> state_error \<times> outbox_row list" where
  "markPublished now e rows =
     (if rows_affected (owned e) rows \<noteq> 1 then LeaseLost else StateOK, update_rows (owned e) (publish_row now) rows)"

definition markPublishedBatch ::
  "timestamp \<Rightarrow> outboxEvent list \<Rightarrow> outbox_row list \<Rightarrow> state_error \<times> outbox_row list" where
  "markPublishedBatch now events rows =
     (if events = [] then (StateOK, rows)
      else let p = (\<lambda>r. \<exists>e \<in> set events. owned e r)
           in (if rows_affected p rows \<noteq> length events then LeaseLost else StateOK,
               update_rows p (publish_row now) rows))"

definition gives_up :: "outboxWorkerConfig \<Rightarrow> outboxEvent \<Rightarrow> publish_error \<Rightarrow> bool" where
  "gives_up config e err \<longleftrightarrow> is_permanent err \<or> wc_MaxAttempts config \<le> ev_AttemptCount e"

definition kill_row :: "timestamp \<Rightarrow> string \<Rightarrow> outbox_row \<Rightarrow> outbox_row" where
  "kill_row now lastError r =
     r\<lparr>o_dead_at := Some now, o_locked_until := None, o_lock_token := None, o_last_error := Some lastError\<rparr>"

definition reschedule_row :: "timestamp \<Rightarrow> duration \<Rightarrow> string \<Rightarrow> outbox_row \<Rightarrow> outbox_row" where
  "reschedule_row now delay lastError r =
     r\<lparr>o_next_attempt_at := now + Milliseconds delay * 1000, o_locked_until := None, o_lock_token := None,
       o_last_error := Some lastError\<rparr>"

definition failure_delay :: "(duration \<Rightarrow> duration) \<Rightarrow> outboxWorkerConfig \<Rightarrow> outboxEvent \<Rightarrow> publish_error \<Rightarrow> duration" where
  "failure_delay jitter config e err =
     (let delay = retryDelay jitter config (ev_AttemptCount e)
      in case err of PublishFailure _ _ retryAfter \<Rightarrow> if retryAfter > delay then retryAfter else delay
         | OtherError _ \<Rightarrow> delay)"

definition markFailed ::
  "(duration \<Rightarrow> duration) \<Rightarrow> outboxWorkerConfig \<Rightarrow> timestamp \<Rightarrow> outboxEvent \<Rightarrow> publish_error \<Rightarrow> outbox_row list \<Rightarrow>
   state_error \<times> outbox_row list" where
  "markFailed jitter config now e err rows =
     (let lastError = truncateRunes (failure_text err) 2000;
          status = (if rows_affected (owned e) rows \<noteq> 1 then LeaseLost else StateOK)
      in if \<not> pg_text_ok lastError then (DatabaseFailed, rows)
         else if gives_up config e err
         then (status, update_rows (owned e) (kill_row now lastError) rows)
         else (status, update_rows (owned e) (reschedule_row now (failure_delay jitter config e err) lastError) rows))"

text \<open>Rows published before a time, oldest first, at most a batch of them, are deleted.\<close>

definition cleanupPublished :: "timestamp \<Rightarrow> int \<Rightarrow> outbox_row list \<Rightarrow> (string + int) \<times> outbox_row list" where
  "cleanupPublished olderThan batchSize rows =
     (if batchSize \<le> 0 then (Inl ''cleanup batch size must be positive'', rows)
      else let doomed = map o_event_id (select_limit
                 (\<lambda>r. case o_published_at r of None \<Rightarrow> False | Some t \<Rightarrow> t < olderThan)
                 (\<lambda>r. (the (o_published_at r), o_event_id r)) batchSize rows);
               rows' = filter (\<lambda>r. o_event_id r \<notin> set doomed) rows
           in (Inr (int (length rows) - int (length rows')), rows'))"

section \<open>A cycle of a worker\<close>

text \<open>
  What surrounds a cycle: the clock and the outcome of each statement, what other workers commit
  before it, the order in which the goroutines report, and which of them find the deadline
  passed. Statements are named by the event they are about; the batch mark by \<open>None\<close>.
\<close>

record cycle_env =
  cy_now :: "int option \<Rightarrow> timestamp"
  cy_outcome :: "int option \<Rightarrow> commit_outcome"
  cy_others :: "int option \<Rightarrow> outbox_row list \<Rightarrow> outbox_row list"
  cy_arrival :: "outboxPublishOutcome list \<Rightarrow> outboxPublishOutcome list"
  cy_expired :: "outboxEvent \<Rightarrow> bool"
  cy_jitter :: "duration \<Rightarrow> duration"

datatype publisher =
    Direct "outboxEvent \<Rightarrow> publish_error option"
  | Preparing "outboxEvent list \<Rightarrow> string + (outboxEvent \<Rightarrow> publish_error option) option"

definition with_outcome ::
  "commit_outcome \<Rightarrow> (outbox_row list \<Rightarrow> state_error \<times> outbox_row list) \<Rightarrow> outbox_row list \<Rightarrow> state_error \<times> outbox_row list" where
  "with_outcome outcome statement rows =
     (case outcome of
        CommitOk \<Rightarrow> statement rows
      | CommitLostApplied \<Rightarrow> (DatabaseFailed, snd (statement rows))
      | CommitLostNotApplied \<Rightarrow> (DatabaseFailed, rows))"

text \<open>The failed outcomes one after the other: label, error and table after each.\<close>

fun completeFailed ::
  "cycle_env \<Rightarrow> outboxWorkerConfig \<Rightarrow> state_error \<Rightarrow> outboxPublishOutcome list \<Rightarrow> outbox_row list \<Rightarrow>
   (string \<times> string) list \<times> (int \<times> state_error) list \<times> outbox_row list" where
  "completeFailed env config publishedStateErr [] rows = ([], [], rows)"
| "completeFailed env config publishedStateErr (oc # ocs) rows =
     (let e = oc_event oc;
          (result, stateErr, rows1) =
            (case oc_err oc of
               None \<Rightarrow> (''published'', publishedStateErr, rows)
             | Some err \<Rightarrow>
                 (let key = Some (ev_EventID e);
                      (st, d') = with_outcome (cy_outcome env key)
                        (markFailed (cy_jitter env) config (cy_now env key) e err) (cy_others env key rows)
                  in (if gives_up config e err then ''dead'' else ''retry_scheduled'', st, d')));
          errs = (if oc_err oc \<noteq> None \<and> stateErr \<noteq> StateOK then [(ev_EventID e, stateErr)] else []);
          label = (case stateErr of StateOK \<Rightarrow> result | LeaseLost \<Rightarrow> ''lease_lost'' | DatabaseFailed \<Rightarrow> ''state_error'');
          (labels, errs', rows2) = completeFailed env config publishedStateErr ocs rows1
      in ((ev_EventType e, label) # labels, errs @ errs', rows2))"

definition completeDeliveryBatch ::
  "cycle_env \<Rightarrow> outboxWorkerConfig \<Rightarrow> outboxPublishOutcome list \<Rightarrow> outbox_row list \<Rightarrow>
   (string \<times> string) list \<times> (int option \<times> state_error) list \<times> outbox_row list" where
  "completeDeliveryBatch env config outcomes rows =
     (let successful = map oc_event (filter (\<lambda>oc. oc_err oc = None) outcomes);
          (publishedStateErr, rows1) =
            (if successful = [] then (StateOK, rows)
             else with_outcome (cy_outcome env None) (markPublishedBatch (cy_now env None) successful)
                    (cy_others env None rows));
          batchErrs = (if successful \<noteq> [] \<and> publishedStateErr \<noteq> StateOK then [(None, publishedStateErr)] else []);
          (labels, errs, rows2) = completeFailed env config publishedStateErr outcomes rows1
      in (labels, batchErrs @ map (\<lambda>(i, s). (Some i, s)) errs, rows2))"

definition publishOutcomes :: "cycle_env \<Rightarrow> publisher \<Rightarrow> outboxEvent list \<Rightarrow> outboxPublishOutcome list" where
  "publishOutcomes env publisher events =
     (let all = (\<lambda>err. map (\<lambda>e. \<lparr>oc_event = e, oc_err = Some err\<rparr>) events);
          run = (\<lambda>publish. cy_arrival env (map (\<lambda>e. \<lparr>oc_event = e,
                   oc_err = (if cy_expired env e then Some (OtherError ''context deadline exceeded'') else publish e)\<rparr>) events))
      in case publisher of
           Direct publish \<Rightarrow> run publish
         | Preparing prepare \<Rightarrow>
             (case prepare events of
                Inl err \<Rightarrow> all (retryablePublishError (''prepare outbox publisher batch: '' @ err) 0)
              | Inr None \<Rightarrow> all (retryablePublishError ''prepared outbox publisher is nil'' 0)
              | Inr (Some publish) \<Rightarrow> run publish))"

definition deliverBatch ::
  "cycle_env \<Rightarrow> outboxWorkerConfig \<Rightarrow> publisher \<Rightarrow> outboxEvent list \<Rightarrow> outbox_row list \<Rightarrow>
   (string \<times> string) list \<times> (int option \<times> state_error) list \<times> outbox_row list" where
  "deliverBatch env config publisher events rows =
     completeDeliveryBatch env config (publishOutcomes env publisher events) rows"

text \<open>
  One cycle: claim, publish, mark; the answer of the claim may be lost. The first component is the number of claimed
  events, by which \<open>Run\<close> decides whether to poll again at once.
\<close>

definition RunOnce ::
  "cycle_env \<Rightarrow> outboxWorkerConfig \<Rightarrow> publisher \<Rightarrow> commit_outcome \<Rightarrow> timestamp \<Rightarrow> int set \<Rightarrow> (int \<Rightarrow> int) \<Rightarrow> outbox_row list \<Rightarrow>
   nat \<times> (int option \<times> state_error) list \<times> outbox_row list" where
  "RunOnce env config publisher outcome now skip fresh rows =
     (let (events, rows1) = claim config now skip fresh rows
      in case outcome of
           CommitLostNotApplied \<Rightarrow> (0, [(None, DatabaseFailed)], rows)
         | CommitLostApplied \<Rightarrow> (0, [(None, DatabaseFailed)], rows1)
         | CommitOk \<Rightarrow>
             if events = [] then (0, [], rows1)
             else let (labels, errs, rows2) = deliverBatch env config publisher events rows1
                  in (length events, errs, rows2))"

text \<open>\<open>continueAfterBatch\<close>: at once when the batch was full, else after the poll interval.\<close>

definition continueAfterBatch :: "outboxWorkerConfig \<Rightarrow> bool \<Rightarrow> int \<Rightarrow> bool \<Rightarrow> bool" where
  "continueAfterBatch config cancelled processed cancelled_while_waiting =
     (if cancelled then False else if processed = claimLimit config then True else \<not> cancelled_while_waiting)"

section \<open>The system of workers\<close>

text \<open>
  The table, the events some worker holds, the events whose publisher reported success, the lock
  tokens drawn so far, the events ever inserted and the ones deleted by a cleanup. Statements run
  at any clock reading, so nothing below depends on the clocks of the workers.
\<close>

record outbox_state =
  ob_rows :: "outbox_row list"
  ob_held :: "outboxEvent set"
  ob_delivered :: "int set"
  ob_used :: "int set"
  ob_inserted :: "int set"
  ob_cleaned :: "int set"

definition outbox_start :: outbox_state where
  "outbox_start = \<lparr>ob_rows = [], ob_held = {}, ob_delivered = {}, ob_used = {}, ob_inserted = {}, ob_cleaned = {}\<rparr>"

definition new_row :: "outbox_row \<Rightarrow> bool" where
  "new_row r \<longleftrightarrow> open_row r \<and> o_lock_token r = None \<and> o_locked_until r = None"

inductive outbox_step :: "outbox_state \<Rightarrow> outbox_state \<Rightarrow> bool" where
  insert_event: "new_row r \<Longrightarrow> o_event_id r \<notin> ob_inserted s \<Longrightarrow>
     outbox_step s (s\<lparr>ob_rows := ob_rows s @ [r], ob_inserted := insert (o_event_id r) (ob_inserted s)\<rparr>)"
| claim_events: "claim config now skip fresh (ob_rows s) = (events, rows) \<Longrightarrow> inj fresh \<Longrightarrow>
     range fresh \<inter> ob_used s = {} \<Longrightarrow>
     outbox_step s (s\<lparr>ob_rows := rows, ob_held := ob_held s \<union> set events,
                      ob_used := ob_used s \<union> ev_LockToken ` set events\<rparr>)"
| deliver: "e \<in> ob_held s \<Longrightarrow> outbox_step s (s\<lparr>ob_delivered := insert (ev_EventID e) (ob_delivered s)\<rparr>)"
| mark_published: "set events \<subseteq> ob_held s \<Longrightarrow> ev_EventID ` set events \<subseteq> ob_delivered s \<Longrightarrow>
     outbox_step s (s\<lparr>ob_rows := snd (markPublishedBatch now events (ob_rows s))\<rparr>)"
| mark_failed: "e \<in> ob_held s \<Longrightarrow>
     outbox_step s (s\<lparr>ob_rows := snd (markFailed jitter config now e err (ob_rows s))\<rparr>)"
| crash: "held \<subseteq> ob_held s \<Longrightarrow> outbox_step s (s\<lparr>ob_held := held\<rparr>)"
| cleanup: "outbox_step s (s\<lparr>ob_rows := snd (cleanupPublished olderThan batchSize (ob_rows s)),
     ob_cleaned := ob_cleaned s \<union>
       (o_event_id ` set (ob_rows s) - o_event_id ` set (snd (cleanupPublished olderThan batchSize (ob_rows s))))\<rparr>)"

definition outbox_row_ok :: "outbox_row \<Rightarrow> bool" where
  "outbox_row_ok r \<longleftrightarrow> (o_locked_until r = None \<longleftrightarrow> o_lock_token r = None)
     \<and> (o_published_at r = None \<or> o_dead_at r = None) \<and> (open_row r \<or> o_lock_token r = None)"

definition outbox_inv :: "outbox_state \<Rightarrow> bool" where
  "outbox_inv s \<longleftrightarrow>
     distinct (map o_event_id (ob_rows s))
     \<and> (\<forall>r \<in> set (ob_rows s). outbox_row_ok r)
     \<and> (\<forall>r \<in> set (ob_rows s). o_published_at r \<noteq> None \<longrightarrow> o_event_id r \<in> ob_delivered s)
     \<and> ob_cleaned s \<subseteq> ob_delivered s
     \<and> o_event_id ` set (ob_rows s) \<union> ob_cleaned s = ob_inserted s
     \<and> o_event_id ` set (ob_rows s) \<inter> ob_cleaned s = {}
     \<and> (\<forall>r \<in> set (ob_rows s). \<forall>t. o_lock_token r = Some t \<longrightarrow> t \<in> ob_used s)
     \<and> ev_LockToken ` ob_held s \<subseteq> ob_used s
     \<and> (\<forall>e \<in> ob_held s. \<forall>e' \<in> ob_held s. ev_LockToken e = ev_LockToken e' \<longrightarrow> e = e')
     \<and> (\<forall>e \<in> ob_held s. \<forall>r \<in> set (ob_rows s). o_lock_token r = Some (ev_LockToken e) \<longrightarrow> event_of r = e)"

text \<open>Other workers act by steps and leave what this worker holds and has delivered.\<close>

definition steps_of_others :: "cycle_env \<Rightarrow> bool" where
  "steps_of_others env \<longleftrightarrow> (\<forall>key s. \<exists>s'. outbox_step\<^sup>*\<^sup>* s s' \<and> ob_rows s' = cy_others env key (ob_rows s)
     \<and> ob_held s \<subseteq> ob_held s' \<and> ob_delivered s \<subseteq> ob_delivered s')"

text \<open>A state reached from another one in which a worker still holds and has delivered what it had.\<close>

definition onward :: "outbox_state \<Rightarrow> outbox_state \<Rightarrow> bool" where
  "onward s s' \<longleftrightarrow> outbox_step\<^sup>*\<^sup>* s s' \<and> ob_held s \<subseteq> ob_held s' \<and> ob_delivered s \<subseteq> ob_delivered s'"

text \<open>A small system: one pending event, a worker alone, a publisher that succeeds.\<close>

definition sample_row :: outbox_row where
  "sample_row = \<lparr>o_event_id = 7, o_event_type = ''message.created'', o_payload_version = 4, o_message_id = 1,
     o_payload = None, o_attempt_count = 0, o_next_attempt_at = 1000, o_locked_until = None, o_lock_token = None,
     o_ready_at = Some 1001, o_published_at = None, o_dead_at = None, o_last_error = None, o_created_at = 1000\<rparr>"

definition sample_state :: outbox_state where
  "sample_state = outbox_start\<lparr>ob_rows := [sample_row], ob_inserted := {7}\<rparr>"

definition quiet_cycle :: cycle_env where
  "quiet_cycle = \<lparr>cy_now = (\<lambda>_. 3000), cy_outcome = (\<lambda>_. CommitOk), cy_others = (\<lambda>_ rows. rows),
     cy_arrival = (\<lambda>xs. xs), cy_expired = (\<lambda>_. False), cy_jitter = equalJitter (\<lambda>n. 0)\<rparr>"

definition sample_fresh :: "int \<Rightarrow> int" where "sample_fresh i = i + 100"

definition leased_row :: outbox_row where
  "leased_row = lease defaultOutboxWorkerConfig 2000 sample_fresh sample_row"

definition published_row :: outbox_row where "published_row = publish_row 3000 leased_row"

text \<open>The exponential backoff, capped.\<close>

definition backoff_bound :: "outboxWorkerConfig \<Rightarrow> int \<Rightarrow> duration" where
  "backoff_bound config attempt = min (wc_MaxBackoff config) (wc_BaseBackoff config * 2 ^ nat (attempt - 1))"

inductive_cases outbox_stepE: "outbox_step s s'"

section \<open>Claims\<close>

lemma lease_simps [simp]:
  "o_event_id (lease config now fresh r) = o_event_id r"
  "o_published_at (lease config now fresh r) = o_published_at r"
  "o_dead_at (lease config now fresh r) = o_dead_at r"
  "o_lock_token (lease config now fresh r) = Some (fresh (o_event_id r))"
  "open_row (lease config now fresh r) = open_row r"
  by (simp_all add: lease_def open_row_def)

lemma lease_ok: "open_row r \<Longrightarrow> outbox_row_ok (lease config now fresh r)"
  by (simp add: outbox_row_ok_def lease_def open_row_def)

lemma candidates_sub:
  "set (candidates config now skip rows) \<subseteq> o_event_id ` {r \<in> set rows. claimable config now r \<and> o_event_id r \<notin> skip}"
  unfolding candidates_def set_map by (rule image_mono [OF set_select_limit])

lemma claim_rows:
  assumes "claim config now skip fresh rows = (events, rows')"
  shows "rows' = update_rows (\<lambda>r. o_event_id r \<in> set (candidates config now skip rows)) (lease config now fresh) rows"
    and "events = map event_of (filter (\<lambda>r. o_event_id r \<in> set (candidates config now skip rows)) rows')"
  using assms by (auto simp: claim_def Let_def)

section \<open>The invariant of the system\<close>

lemma outbox_invI:
  assumes "distinct (map o_event_id (ob_rows s))"
    and "\<And>r. r \<in> set (ob_rows s) \<Longrightarrow> outbox_row_ok r"
    and "\<And>r. r \<in> set (ob_rows s) \<Longrightarrow> o_published_at r \<noteq> None \<Longrightarrow> o_event_id r \<in> ob_delivered s"
    and "ob_cleaned s \<subseteq> ob_delivered s"
    and "o_event_id ` set (ob_rows s) \<union> ob_cleaned s = ob_inserted s"
    and "o_event_id ` set (ob_rows s) \<inter> ob_cleaned s = {}"
    and "\<And>r t. r \<in> set (ob_rows s) \<Longrightarrow> o_lock_token r = Some t \<Longrightarrow> t \<in> ob_used s"
    and "ev_LockToken ` ob_held s \<subseteq> ob_used s"
    and "\<And>e e'. e \<in> ob_held s \<Longrightarrow> e' \<in> ob_held s \<Longrightarrow> ev_LockToken e = ev_LockToken e' \<Longrightarrow> e = e'"
    and "\<And>e r. e \<in> ob_held s \<Longrightarrow> r \<in> set (ob_rows s) \<Longrightarrow> o_lock_token r = Some (ev_LockToken e) \<Longrightarrow> event_of r = e"
  shows "outbox_inv s"
  unfolding outbox_inv_def
  by (intro conjI ballI allI impI) (fact assms(1,4-6,8) | erule assms; assumption?)+

lemma outbox_invD:
  assumes "outbox_inv s"
  shows "distinct (map o_event_id (ob_rows s))"
    and "r \<in> set (ob_rows s) \<Longrightarrow> outbox_row_ok r"
    and "r \<in> set (ob_rows s) \<Longrightarrow> o_published_at r \<noteq> None \<Longrightarrow> o_event_id r \<in> ob_delivered s"
    and "ob_cleaned s \<subseteq> ob_delivered s"
    and "o_event_id ` set (ob_rows s) \<union> ob_cleaned s = ob_inserted s"
    and "o_event_id ` set (ob_rows s) \<inter> ob_cleaned s = {}"
    and "r \<in> set (ob_rows s) \<Longrightarrow> o_lock_token r = Some t \<Longrightarrow> t \<in> ob_used s"
    and "ev_LockToken ` ob_held s \<subseteq> ob_used s"
    and "e \<in> ob_held s \<Longrightarrow> e' \<in> ob_held s \<Longrightarrow> ev_LockToken e = ev_LockToken e' \<Longrightarrow> e = e'"
    and "e \<in> ob_held s \<Longrightarrow> r \<in> set (ob_rows s) \<Longrightarrow> o_lock_token r = Some (ev_LockToken e) \<Longrightarrow> event_of r = e"
  using assms by (simp_all add: outbox_inv_def)

lemma outbox_inv_start: "outbox_inv outbox_start"
  by (simp add: outbox_inv_def outbox_start_def)

lemma outbox_inv_update:
  assumes inv: "outbox_inv s"
    and f: "\<And>r. r \<in> set (ob_rows s) \<Longrightarrow> p r \<Longrightarrow> o_event_id (f r) = o_event_id r \<and> o_lock_token (f r) = None
        \<and> outbox_row_ok (f r) \<and> (o_published_at (f r) \<noteq> None \<longrightarrow> o_event_id r \<in> ob_delivered s)"
  shows "outbox_inv (s\<lparr>ob_rows := update_rows p f (ob_rows s)\<rparr>)"
proof -
  let ?g = "\<lambda>r. if p r then f r else r"
  have set: "set (update_rows p f (ob_rows s)) = ?g ` set (ob_rows s)" by (rule set_update_rows)
  have id: "o_event_id (?g r) = o_event_id r" if "r \<in> set (ob_rows s)" for r using f [OF that] by simp
  then have ids: "map o_event_id (update_rows p f (ob_rows s)) = map o_event_id (ob_rows s)"
    by (simp add: update_rows_def)
  have idset: "o_event_id ` set (update_rows p f (ob_rows s)) = o_event_id ` set (ob_rows s)"
    using arg_cong [OF ids, of set] by simp
  note D = outbox_invD [OF inv]
  show ?thesis
  proof (rule outbox_invI)
    fix r assume "r \<in> set (ob_rows (s\<lparr>ob_rows := update_rows p f (ob_rows s)\<rparr>))"
    then obtain x where x: "x \<in> set (ob_rows s)" "r = ?g x" using set by auto
    show "outbox_row_ok r" using x f [OF x(1)] D(2) [OF x(1)] by simp
    show "o_event_id r \<in> ob_delivered (s\<lparr>ob_rows := update_rows p f (ob_rows s)\<rparr>)" if "o_published_at r \<noteq> None"
      using that x f [OF x(1)] D(3) [OF x(1)] by (auto split: if_splits)
    show "t \<in> ob_used (s\<lparr>ob_rows := update_rows p f (ob_rows s)\<rparr>)" if "o_lock_token r = Some t" for t
      using that x f [OF x(1)] D(7) [OF x(1)] by (auto split: if_splits)
    show "event_of r = e" if "e \<in> ob_held (s\<lparr>ob_rows := update_rows p f (ob_rows s)\<rparr>)"
        "o_lock_token r = Some (ev_LockToken e)" for e
      using that x f [OF x(1)] D(10) [OF _ x(1)] by (auto split: if_splits)
  qed (use D ids idset in auto)
qed

text \<open>A claimed table: each row is an old one or a leased one, and each event is that of a leased row.\<close>

lemma claimed_ids:
  assumes "claim config now skip fresh rs = (events, rows)"
  shows "map o_event_id rows = map o_event_id rs"
  unfolding claim_rows(1) [OF assms] by (rule map_update_rows_key) simp

lemma claimed_open:
  assumes "distinct (map o_event_id rs)" "x \<in> set rs" "o_event_id x \<in> set (candidates config now skip rs)"
  shows "open_row x"
proof -
  from assms(3) candidates_sub obtain y where "y \<in> set rs" "claimable config now y" "o_event_id y = o_event_id x"
    by fastforce
  moreover from this assms(1,2) have "y = x" by (auto simp: distinct_map dest: inj_onD)
  ultimately show ?thesis by (simp add: claimable_def)
qed

lemma claimed_row_cases:
  assumes "claim config now skip fresh rs = (events, rows)" "distinct (map o_event_id rs)" "r \<in> set rows"
  obtains (old) "r \<in> set rs"
    | (new) x where "x \<in> set rs" "open_row x" "r = lease config now fresh x" "event_of r \<in> set events"
proof -
  let ?p = "\<lambda>r. o_event_id r \<in> set (candidates config now skip rs)"
  obtain x where x: "x \<in> set rs" "r = (if ?p x then lease config now fresh x else x)"
    using assms(3) unfolding claim_rows(1) [OF assms(1)] set_update_rows by blast
  show ?thesis
  proof (cases "?p x")
    case True
    then have "r = lease config now fresh x" "event_of r \<in> set events"
      using x assms(3) claim_rows(2) [OF assms(1)] by auto
    then show ?thesis using new x(1) claimed_open [OF assms(2) x(1) True] by blast
  qed (use old x in simp)
qed

lemma claimed_event:
  assumes "claim config now skip fresh rs = (events, rows)" "e \<in> set events"
  obtains r where "r \<in> set rows" "e = event_of r" "ev_LockToken e = fresh (o_event_id r)"
proof -
  let ?p = "\<lambda>r. o_event_id r \<in> set (candidates config now skip rs)"
  obtain r where r: "r \<in> set rows" "?p r" "e = event_of r" using claim_rows(2) [OF assms(1)] assms(2) by auto
  then have "o_lock_token r = Some (fresh (o_event_id r))"
    unfolding claim_rows(1) [OF assms(1)] set_update_rows by (auto split: if_splits)
  then show ?thesis using that [of r] r by (simp add: event_of_def)
qed

lemma claimed_token_unique:
  assumes claim: "claim config now skip fresh rs = (events, rows)" and "distinct (map o_event_id rs)" "inj fresh"
    and "e \<in> set events" "r \<in> set rows" "fresh (o_event_id r) = ev_LockToken e"
  shows "event_of r = e"
proof -
  obtain x where x: "x \<in> set rows" "e = event_of x" "ev_LockToken e = fresh (o_event_id x)"
    by (rule claimed_event [OF claim assms(4)])
  then have "o_event_id x = o_event_id r" using assms(3,6) by (simp add: inj_eq)
  then have "x = r" using x(1) assms(2,5) claimed_ids [OF claim] by (metis distinct_map inj_onD)
  then show ?thesis using x(2) by simp
qed

lemma outbox_inv_claim:
  assumes inv: "outbox_inv s" and claim: "claim config now skip fresh (ob_rows s) = (events, rows)"
    and fresh: "inj fresh" "range fresh \<inter> ob_used s = {}"
  shows "outbox_inv (s\<lparr>ob_rows := rows, ob_held := ob_held s \<union> set events,
     ob_used := ob_used s \<union> ev_LockToken ` set events\<rparr>)" (is "outbox_inv ?t")
proof -
  note D = outbox_invD [OF inv] and ids = claimed_ids [OF claim]
  note row = claimed_row_cases [OF claim D(1)] and unique = claimed_token_unique [OF claim D(1) fresh(1)]
  have f: "ob_rows ?t = rows" "ob_held ?t = ob_held s \<union> set events" "ob_delivered ?t = ob_delivered s"
      "ob_used ?t = ob_used s \<union> ev_LockToken ` set events" "ob_inserted ?t = ob_inserted s" "ob_cleaned ?t = ob_cleaned s"
    by simp_all
  have idset: "o_event_id ` set rows = o_event_id ` set (ob_rows s)" using arg_cong [OF ids, of set] by simp
  have unused: "ev_LockToken e \<notin> ob_used s" if "e \<in> set events" for e
    using claimed_event [OF claim that] fresh(2) by (metis IntI empty_iff rangeI)
  have used: "ev_LockToken e \<in> ob_used s" if "e \<in> ob_held s" for e using D(8) that by blast
  show ?thesis
  proof (rule outbox_invI; (unfold f)?)
    fix r assume r: "r \<in> set rows"
    show "outbox_row_ok r" using r by (rule row) (use D(2) lease_ok in auto)
    show "o_event_id r \<in> ob_delivered s" if "o_published_at r \<noteq> None" using r by (rule row) (use D(3) that in auto)
    show "t \<in> ob_used s \<union> ev_LockToken ` set events" if "o_lock_token r = Some t" for t
      using r by (rule row) (use D(7) that in \<open>force simp: event_of_def\<close>)+
    show "event_of r = e" if e: "e \<in> ob_held s \<union> set events" and t: "o_lock_token r = Some (ev_LockToken e)" for e
      using r
    proof (rule row)
      assume old: "r \<in> set (ob_rows s)"
      then have "e \<in> ob_held s" using e D(7) t unused by blast
      then show ?thesis using D(10) old t by blast
    next
      fix x assume x: "r = lease config now fresh x"
      then have tok: "fresh (o_event_id r) = ev_LockToken e" using t by simp
      then have "e \<in> set events" using e used fresh(2) by (metis IntI UnE empty_iff rangeI)
      then show ?thesis using unique r tok by blast
    qed
  next
    fix e e' assume e: "e \<in> ob_held s \<union> set events" "e' \<in> ob_held s \<union> set events" "ev_LockToken e = ev_LockToken e'"
    have "e = e'" if both: "e \<in> set events" "e' \<in> set events"
      using claimed_event [OF claim both(2)] unique [OF both(1)] e(3) by metis
    then show "e = e'" using e D(9) used unused by (metis UnE)
  qed (use D ids idset in auto)
qed

lemma outbox_inv_crash:
  assumes inv: "outbox_inv s" and sub: "held \<subseteq> ob_held s"
  shows "outbox_inv (s\<lparr>ob_held := held\<rparr>)"
proof (rule outbox_invI)
  note D = outbox_invD [OF inv]
  show "e = e'" if "e \<in> ob_held (s\<lparr>ob_held := held\<rparr>)" "e' \<in> ob_held (s\<lparr>ob_held := held\<rparr>)"
    "ev_LockToken e = ev_LockToken e'" for e e'
    by (rule D(9)) (use that sub in auto)
  show "event_of r = e" if "e \<in> ob_held (s\<lparr>ob_held := held\<rparr>)" "r \<in> set (ob_rows (s\<lparr>ob_held := held\<rparr>))"
    "o_lock_token r = Some (ev_LockToken e)" for e r
    by (rule D(10)) (use that sub in auto)
  show "ev_LockToken ` ob_held (s\<lparr>ob_held := held\<rparr>) \<subseteq> ob_used (s\<lparr>ob_held := held\<rparr>)" using D(8) sub by auto
qed (use outbox_invD [OF inv] in \<open>simp_all\<close>)

lemma owned_open: "owned e r \<Longrightarrow> open_row r"
  by (simp add: owned_def)

lemma publish_row_ok: "open_row r \<Longrightarrow> outbox_row_ok (publish_row now r)"
  by (simp add: outbox_row_ok_def publish_row_def open_row_def)

lemma kill_row_ok: "open_row r \<Longrightarrow> outbox_row_ok (kill_row now err r)"
  by (simp add: outbox_row_ok_def kill_row_def open_row_def)

lemma reschedule_row_ok: "open_row r \<Longrightarrow> outbox_row_ok (reschedule_row now delay err r)"
  by (simp add: outbox_row_ok_def reschedule_row_def open_row_def)

lemma new_row_ok: "new_row r \<Longrightarrow> outbox_row_ok r \<and> o_published_at r = None \<and> o_lock_token r = None"
  by (simp add: outbox_row_ok_def new_row_def open_row_def)

lemma mark_row_simps [simp]:
  "o_event_id (publish_row now r) = o_event_id r" "o_lock_token (publish_row now r) = None"
  "o_event_id (kill_row now err r) = o_event_id r" "o_lock_token (kill_row now err r) = None"
  "o_published_at (kill_row now err r) = o_published_at r"
  "o_event_id (reschedule_row now delay err r) = o_event_id r" "o_lock_token (reschedule_row now delay err r) = None"
  "o_published_at (reschedule_row now delay err r) = o_published_at r"
  "o_dead_at (reschedule_row now delay err r) = o_dead_at r"
  by (simp_all add: publish_row_def kill_row_def reschedule_row_def)

lemma markPublishedBatch_rows:
  "snd (markPublishedBatch now events rows) = update_rows (\<lambda>r. \<exists>e \<in> set events. owned e r) (publish_row now) rows"
  by (auto simp: markPublishedBatch_def Let_def intro: update_rows_none [symmetric])

lemma markFailed_rows:
  obtains f where "snd (markFailed jitter config now e err rows) = update_rows (owned e) f rows"
    and "f = (\<lambda>r. r) \<or> f = kill_row now (truncateRunes (failure_text err) 2000)
      \<or> f = reschedule_row now (failure_delay jitter config e err) (truncateRunes (failure_text err) 2000)"
proof (cases "pg_text_ok (truncateRunes (failure_text err) 2000)")
  case False
  have "update_rows (owned e) (\<lambda>r. r) rows = rows" by (simp add: update_rows_def)
  then show ?thesis using False that [of "\<lambda>r. r"] by (simp add: markFailed_def Let_def)
next
  case True
  then show ?thesis
    using that [of "kill_row now (truncateRunes (failure_text err) 2000)"]
      that [of "reschedule_row now (failure_delay jitter config e err) (truncateRunes (failure_text err) 2000)"]
    by (cases "gives_up config e err") (simp_all add: markFailed_def Let_def)
qed

lemma outbox_inv_published:
  assumes inv: "outbox_inv s" and "ev_EventID ` set events \<subseteq> ob_delivered s"
  shows "outbox_inv (s\<lparr>ob_rows := snd (markPublishedBatch now events (ob_rows s))\<rparr>)"
  unfolding markPublishedBatch_rows
proof (rule outbox_inv_update [OF inv])
  fix r assume "r \<in> set (ob_rows s)" "\<exists>e \<in> set events. owned e r"
  then obtain e where "e \<in> set events" "owned e r" by blast
  then have "o_event_id r \<in> ob_delivered s" "open_row r" using assms(2) by (auto simp: owned_def)
  then show "o_event_id (publish_row now r) = o_event_id r \<and> o_lock_token (publish_row now r) = None
      \<and> outbox_row_ok (publish_row now r) \<and> (o_published_at (publish_row now r) \<noteq> None \<longrightarrow> o_event_id r \<in> ob_delivered s)"
    using publish_row_ok by simp
qed

lemma outbox_inv_failed:
  assumes inv: "outbox_inv s"
  shows "outbox_inv (s\<lparr>ob_rows := snd (markFailed jitter config now e err (ob_rows s))\<rparr>)"
proof -
  obtain f where f: "snd (markFailed jitter config now e err (ob_rows s)) = update_rows (owned e) f (ob_rows s)"
    "f = (\<lambda>r. r) \<or> f = kill_row now (truncateRunes (failure_text err) 2000)
      \<or> f = reschedule_row now (failure_delay jitter config e err) (truncateRunes (failure_text err) 2000)"
    by (rule markFailed_rows)
  show ?thesis
  proof (cases "f = (\<lambda>r. r)")
    case True
    then have "update_rows (owned e) f (ob_rows s) = ob_rows s" by (simp add: update_rows_def)
    then show ?thesis using inv f(1) by simp
  next
    case False
    show ?thesis
      unfolding f(1)
    proof (rule outbox_inv_update [OF inv])
      fix r assume "r \<in> set (ob_rows s)" "owned e r"
      then have "open_row r" "o_published_at r = None" by (auto simp: owned_def open_row_def)
      then show "o_event_id (f r) = o_event_id r \<and> o_lock_token (f r) = None \<and> outbox_row_ok (f r)
          \<and> (o_published_at (f r) \<noteq> None \<longrightarrow> o_event_id r \<in> ob_delivered s)"
        using f(2) False kill_row_ok reschedule_row_ok by auto
    qed
  qed
qed

lemma cleanup_rows:
  assumes "distinct (map o_event_id rows)"
  shows "\<exists>q. snd (cleanupPublished olderThan n rows) = filter q rows
     \<and> (\<forall>r \<in> set rows. \<not> q r \<longrightarrow> o_published_at r \<noteq> None)"
proof (cases "n \<le> 0")
  case True
  have "filter (\<lambda>_. True) rows = rows" by simp
  then show ?thesis using True by (intro exI [of _ "\<lambda>_. True"]) (simp add: cleanupPublished_def)
next
  case False
  let ?p = "\<lambda>r. case o_published_at r of None \<Rightarrow> False | Some t \<Rightarrow> t < olderThan"
  let ?d = "o_event_id ` set (select_limit ?p (\<lambda>r. (the (o_published_at r), o_event_id r)) n rows)"
  have "o_published_at r \<noteq> None" if r: "r \<in> set rows" "o_event_id r \<in> ?d" for r
  proof -
    from r(2) obtain x where "x \<in> set rows" "?p x" "o_event_id x = o_event_id r"
      using set_select_limit by fastforce
    moreover from this r(1) assms have "x = r" by (auto simp: distinct_map dest: inj_onD)
    ultimately show ?thesis by (auto split: option.splits)
  qed
  then show ?thesis
    using False by (intro exI [of _ "\<lambda>r. o_event_id r \<notin> ?d"]) (simp add: cleanupPublished_def Let_def)
qed

lemma outbox_inv_step:
  assumes "outbox_step s s'" and inv: "outbox_inv s"
  shows "outbox_inv s'"
  using assms(1)
proof cases
  case (insert_event r)
  note D = outbox_invD [OF inv]
  have "o_event_id r \<notin> o_event_id ` set (ob_rows s)" "o_event_id r \<notin> ob_cleaned s"
    using insert_event(3) D(5) by blast+
  then show ?thesis
    unfolding insert_event(1) using new_row_ok [OF insert_event(2)] D
    by (intro outbox_invI) auto
next
  case (claim_events config now skip fresh events rows)
  then show ?thesis using outbox_inv_claim [OF inv] by simp
next
  case (deliver e)
  note D = outbox_invD [OF inv]
  show ?thesis unfolding deliver(1) using D by (intro outbox_invI) auto
next
  case (mark_published events now)
  then show ?thesis using outbox_inv_published [OF inv] by simp
next
  case (mark_failed e jitter config now err)
  then show ?thesis using outbox_inv_failed [OF inv] by simp
next
  case (crash held)
  then show ?thesis using outbox_inv_crash [OF inv] by simp
next
  case (cleanup olderThan batchSize)
  note D = outbox_invD [OF inv]
  obtain q where q: "snd (cleanupPublished olderThan batchSize (ob_rows s)) = filter q (ob_rows s)"
    "\<forall>r \<in> set (ob_rows s). \<not> q r \<longrightarrow> o_published_at r \<noteq> None"
    using cleanup_rows [OF D(1)] by blast
  let ?gone = "o_event_id ` set (ob_rows s) - o_event_id ` set (filter q (ob_rows s))"
  have "?gone \<subseteq> ob_delivered s" using q(2) D(3) by auto
  then show ?thesis
    unfolding cleanup q(1) using D distinct_map_filter [OF D(1)]
    by (intro outbox_invI) (auto 0 3)
qed

lemma outbox_inv_steps: "outbox_step\<^sup>*\<^sup>* s s' \<Longrightarrow> outbox_inv s \<Longrightarrow> outbox_inv s'"
  by (induction rule: rtranclp_induct) (auto intro: outbox_inv_step)

section \<open>Properties of the system\<close>

text \<open>
  C11: No event is lost. In every state the workers can reach, by any interleaving of claims,
  publisher calls, marks, crashes, lost answers and cleanups, every event that was ever inserted
  is in the table exactly once, or was delivered and cleaned up; an event is marked as published
  only if its publisher reported success, and never both published and dead.
\<close>

theorem outbox_loses_nothing:
  assumes "outbox_step\<^sup>*\<^sup>* outbox_start s"
  shows "(\<forall>i \<in> ob_inserted s. (\<exists>!r. r \<in> set (ob_rows s) \<and> o_event_id r = i) \<or> i \<in> ob_cleaned s \<and> i \<in> ob_delivered s)
     \<and> (\<forall>r \<in> set (ob_rows s). (o_published_at r \<noteq> None \<longrightarrow> o_event_id r \<in> ob_delivered s)
          \<and> (o_published_at r = None \<or> o_dead_at r = None))"
proof -
  note D = outbox_invD [OF outbox_inv_steps [OF assms outbox_inv_start]]
  show ?thesis
  proof (intro conjI)
    show "\<forall>i \<in> ob_inserted s. (\<exists>!r. r \<in> set (ob_rows s) \<and> o_event_id r = i) \<or> i \<in> ob_cleaned s \<and> i \<in> ob_delivered s"
    proof
      fix i assume i: "i \<in> ob_inserted s"
      show "(\<exists>!r. r \<in> set (ob_rows s) \<and> o_event_id r = i) \<or> i \<in> ob_cleaned s \<and> i \<in> ob_delivered s"
      proof (cases "i \<in> ob_cleaned s")
        case True
        then show ?thesis using D(4) by blast
      next
        case False
        then have "i \<in> o_event_id ` set (ob_rows s)" using i D(5) by blast
        then show ?thesis using D(1) by (auto simp: distinct_map dest: inj_onD)
      qed
    qed
    show "\<forall>r \<in> set (ob_rows s). (o_published_at r \<noteq> None \<longrightarrow> o_event_id r \<in> ob_delivered s)
        \<and> (o_published_at r = None \<or> o_dead_at r = None)"
      using D(2,3) by (simp add: outbox_row_ok_def)
  qed
qed

lemma update_rows_keeps: "r \<in> set rows \<Longrightarrow> \<not> p r \<Longrightarrow> r \<in> set (update_rows p f rows)"
  by (auto simp: set_update_rows intro: rev_image_eqI)

lemma claim_keeps_closed:
  assumes "claim config now skip fresh rows = (events, rows')" and "distinct (map o_event_id rows)"
    and "r \<in> set rows" and "\<not> open_row r"
  shows "r \<in> set rows'"
proof -
  have "o_event_id r \<notin> set (candidates config now skip rows)"
  proof
    assume "o_event_id r \<in> set (candidates config now skip rows)"
    then obtain x where "x \<in> set rows" "claimable config now x" "o_event_id x = o_event_id r"
      using candidates_sub by fastforce
    moreover from this assms(2,3) have "x = r" by (auto simp: distinct_map dest: inj_onD)
    ultimately show False using assms(4) by (simp add: claimable_def)
  qed
  then show ?thesis using update_rows_keeps [OF assms(3)] claim_rows(1) [OF assms(1)] by simp
qed

text \<open>
  Published and dead are final. No step of any worker changes a row that is published or dead;
  only a cleanup removes one, and only a published one.
\<close>

theorem terminal_rows_are_final:
  assumes "outbox_inv s" and "outbox_step s s'" and "r \<in> set (ob_rows s)" and "\<not> open_row r"
  shows "r \<in> set (ob_rows s') \<or> (o_published_at r \<noteq> None \<and> o_event_id r \<in> ob_cleaned s')"
  using assms(2)
proof cases
  case (claim_events config now skip fresh events rows)
  then show ?thesis using claim_keeps_closed [OF _ outbox_invD(1) [OF assms(1)] assms(3,4)] by simp
next
  case (mark_published events now)
  have "\<not> (\<exists>e \<in> set events. owned e r)" using assms(4) owned_open by blast
  then show ?thesis
    using mark_published(1) update_rows_keeps [OF assms(3)] by (simp add: markPublishedBatch_rows)
next
  case (mark_failed e jitter config now err)
  obtain f where "snd (markFailed jitter config now e err (ob_rows s)) = update_rows (owned e) f (ob_rows s)"
    by (rule markFailed_rows)
  then show ?thesis
    using mark_failed update_rows_keeps [OF assms(3), of "owned e" f] assms(4) owned_open by auto
next
  case (cleanup olderThan batchSize)
  let ?rows = "ob_rows s" and ?rows' = "snd (cleanupPublished olderThan batchSize (ob_rows s))"
  obtain q where q: "?rows' = filter q ?rows" "\<forall>r \<in> set ?rows. \<not> q r \<longrightarrow> o_published_at r \<noteq> None"
    using cleanup_rows [OF outbox_invD(1) [OF assms(1)]] by blast
  show ?thesis
  proof (cases "q r")
    case True
    then show ?thesis using cleanup q(1) assms(3) by simp
  next
    case False
    then have "o_event_id r \<notin> o_event_id ` set ?rows'"
      using q(1) assms(3) outbox_invD(1) [OF assms(1)] by (auto simp: distinct_map dest: inj_onD)
    then show ?thesis using cleanup assms(3) q(2) False by simp
  qed
qed (use assms(3) in auto)

lemma rows_affected_none: "(\<And>r. r \<in> set rows \<Longrightarrow> \<not> p r) \<Longrightarrow> rows_affected p rows = 0"
  by (simp add: rows_affected_zero)

text \<open>
  A lease fences. Once another worker has claimed an event again, its former holder can no
  longer change it: marking it published and marking it failed both report the lost lease and
  leave the whole table as it is, at any clock reading.
\<close>

theorem stale_holder_changes_nothing:
  assumes "claim config now skip fresh rows = (events, rows')" and "distinct (map o_event_id rows)"
    and "e' \<in> set events" and "ev_EventID e = ev_EventID e'" and "ev_LockToken e \<noteq> ev_LockToken e'"
    and "pg_text_ok (truncateRunes (failure_text err) 2000)"
  shows "markPublishedBatch t [e] rows' = (LeaseLost, rows') \<and> markPublished t e rows' = (LeaseLost, rows')
     \<and> markFailed jitter config' t e err rows' = (LeaseLost, rows')"
proof -
  let ?p = "\<lambda>r. o_event_id r \<in> set (candidates config now skip rows)"
  from assms(3) claim_rows(2) [OF assms(1)] obtain r where r: "r \<in> set rows'" "?p r" "e' = event_of r" by auto
  have ids: "map o_event_id rows' = map o_event_id rows"
    unfolding claim_rows(1) [OF assms(1)] by (rule map_update_rows_key) simp
  have "o_lock_token r = Some (fresh (o_event_id r))"
    using r(1,2) by (auto simp: claim_rows(1) [OF assms(1)] set_update_rows split: if_splits)
  then have "o_lock_token r \<noteq> Some (ev_LockToken e)" using assms(5) r(3) by (simp add: event_of_def)
  moreover have "x = r" if "x \<in> set rows'" "o_event_id x = ev_EventID e" for x
    using that r(1,3) assms(2,4) ids by (metis (no_types, lifting) distinct_map event_of_def inj_onD outboxEvent.select_convs(1))
  ultimately have no: "\<not> owned e x" if "x \<in> set rows'" for x
    using that by (auto simp: owned_def)
  then have "update_rows (owned e) f rows' = rows'" for f by (rule update_rows_none)
  moreover have "rows_affected (owned e) rows' = 0" using no by (rule rows_affected_none)
  ultimately show ?thesis
    using assms(6) by (simp add: markPublishedBatch_def markPublished_def markFailed_def Let_def)
qed

section \<open>Backoff and claims\<close>

lemma backoffLoop_eq:
  assumes "0 < delay" and "delay \<le> wc_MaxBackoff config"
  shows "backoffLoop config attempt current delay = min (wc_MaxBackoff config) (delay * 2 ^ nat (attempt - current))"
  using assms
proof (induction config attempt current delay rule: backoffLoop.induct)
  case (1 config attempt current delay)
  let ?M = "wc_MaxBackoff config"
  have half: "go_div ?M 2 = ?M div 2" using 1(2,3) by (simp add: go_div_nonneg)
  show ?case
  proof (cases "current < attempt \<and> delay < ?M")
    case False
    moreover have "min ?M (?M * 2 ^ n) = ?M" for n :: nat using 1(2,3) by (simp add: min_def)
    ultimately show ?thesis using 1(2,3) by (auto simp: backoffLoop.simps [of config])
  next
    case True
    then have suc: "nat (attempt - current) = Suc (nat (attempt - (current + 1)))" by linarith
    show ?thesis
    proof (cases "delay > go_div ?M 2")
      case big: True
      then have "?M < delay * 2" using half by linarith
      also have "delay * 2 \<le> delay * 2 * 2 ^ nat (attempt - (current + 1))" using 1(2) by simp
      finally show ?thesis using True big by (simp add: backoffLoop.simps [of config] suc mult.assoc)
    next
      case False
      then have "delay * 2 \<le> ?M" using half by linarith
      then show ?thesis
        using "1.IH" [OF True False] 1(2) True False by (simp add: backoffLoop.simps [of config attempt current] suc mult.assoc)
    qed
  qed
qed

lemma retryDelay_jitter:
  assumes "0 < wc_BaseBackoff config" and "wc_BaseBackoff config \<le> wc_MaxBackoff config"
  shows "retryDelay jitter config attempt = jitter (backoff_bound config attempt)"
  using assms by (simp add: retryDelay_def Let_def backoffLoop_eq backoff_bound_def)

lemma equalJitter_bounds:
  assumes "0 < delay" and "\<And>n. 0 < n \<Longrightarrow> 0 \<le> rand n \<and> rand n < n"
  shows "delay div 2 \<le> equalJitter rand delay" and "equalJitter rand delay \<le> delay"
proof -
  have half: "go_div delay 2 = delay div 2" using assms(1) by (simp add: go_div_nonneg)
  have "0 \<le> rand (delay div 2 + 1) \<and> rand (delay div 2 + 1) < delay div 2 + 1" using assms by (intro assms(2)) simp
  then show "delay div 2 \<le> equalJitter rand delay" "equalJitter rand delay \<le> delay"
    using assms(1) by (auto simp: equalJitter_def half Let_def)
qed

lemma newOutboxWorker_valid:
  assumes "newOutboxWorker a b config = Inr config'"
  shows "config' = config" and "0 < wc_BaseBackoff config" and "wc_BaseBackoff config \<le> wc_MaxBackoff config"
    and "0 < wc_MaxAttempts config" and "0 < claimLimit config"
  using assms by (auto simp: newOutboxWorker_def claimLimit_def split: if_splits)

text \<open>
  C36: The delay before the next attempt grows exponentially and is capped. For every configuration
  the constructor accepts, the delay after an attempt is the base backoff doubled once per earlier
  attempt, at most the maximum, and the jitter keeps it between half of that and all of it; the
  doubling never leaves the range of the maximum.
\<close>

theorem retry_delay_is_capped_exponential:
  assumes "newOutboxWorker True True config = Inr config'"
    and "\<And>n. 0 < n \<Longrightarrow> 0 \<le> rand n \<and> rand n < n"
  shows "retryDelay (\<lambda>d. d) config attempt = min (wc_MaxBackoff config) (wc_BaseBackoff config * 2 ^ nat (attempt - 1))
     \<and> retryDelay (\<lambda>d. d) config attempt div 2 \<le> retryDelay (equalJitter rand) config attempt
     \<and> retryDelay (equalJitter rand) config attempt \<le> retryDelay (\<lambda>d. d) config attempt
     \<and> retryDelay (\<lambda>d. d) config attempt \<le> wc_MaxBackoff config"
proof -
  note v = newOutboxWorker_valid [OF assms(1)]
  have pos: "0 < backoff_bound config attempt" using v(2,3) by (simp add: backoff_bound_def)
  show ?thesis
    using retryDelay_jitter [OF v(2,3)] equalJitter_bounds [OF pos assms(2)]
    by (simp add: backoff_bound_def)
qed

text \<open>
  A claim takes what is due, in order. It takes at most the limit, only open and due events of
  the configured types whose lease has run out and that no concurrent claim holds, counts the
  attempt and draws a lock token for each; a due event it leaves behind comes after everything it
  took, and then the limit is used up. All other rows stay as they are.
\<close>

theorem claim_takes_the_due_events:
  assumes "claim config now skip fresh rows = (events, rows')" and "distinct (map o_event_id rows)"
  shows "length events \<le> nat (claimLimit config)
     \<and> (\<forall>e \<in> set events. \<exists>r \<in> set rows. claimable config now r \<and> o_event_id r \<notin> skip
          \<and> e = event_of (lease config now fresh r) \<and> lease config now fresh r \<in> set rows')
     \<and> (\<forall>r \<in> set rows. o_event_id r \<notin> ev_EventID ` set events \<longrightarrow> r \<in> set rows')
     \<and> (\<forall>r \<in> set rows. claimable config now r \<longrightarrow> o_event_id r \<notin> skip \<longrightarrow> o_event_id r \<notin> ev_EventID ` set events \<longrightarrow>
          length events = nat (claimLimit config)
          \<and> (\<forall>x \<in> set rows. o_event_id x \<in> ev_EventID ` set events \<longrightarrow> claim_key x \<le> claim_key r))"
proof -
  let ?q = "\<lambda>r. claimable config now r \<and> o_event_id r \<notin> skip"
  let ?sel = "select_limit ?q claim_key (claimLimit config) rows"
  let ?ids = "set (candidates config now skip rows)"
  let ?p = "\<lambda>r. o_event_id r \<in> ?ids"
  have ids: "?ids = o_event_id ` set ?sel" by (simp add: candidates_def)
  have sel: "set ?sel \<subseteq> {r \<in> set rows. ?q r}" by (rule set_select_limit)
  have uniq: "x = y" if "x \<in> set rows" "y \<in> set rows" "o_event_id x = o_event_id y" for x y
    using that assms(2) by (auto simp: distinct_map dest: inj_onD)
  have in_sel: "?p r \<longleftrightarrow> r \<in> set ?sel" if "r \<in> set rows" for r
    using that sel uniq unfolding ids by blast
  have rows': "rows' = update_rows ?p (lease config now fresh) rows"
    and events: "events = map event_of (filter ?p rows')" using claim_rows [OF assms(1)] by simp_all
  have "filter ?p rows' = map (lease config now fresh) (filter ?p rows)"
    unfolding rows' by (rule filter_update_rows) simp
  then have events': "events = map (\<lambda>r. event_of (lease config now fresh r)) (filter ?p rows)"
    using events by simp
  have evids: "ev_EventID ` set events = ?ids"
  proof -
    have "ev_EventID ` set events = o_event_id ` {r \<in> set rows. ?p r}"
      unfolding events' by (force simp: event_of_def image_iff)
    also have "\<dots> = ?ids" using sel unfolding ids by blast
    finally show ?thesis .
  qed
  have "distinct ?sel"
    using distinct_mapD [OF assms(2)] by (simp add: select_limit_def)
  moreover have "distinct (filter ?p rows)" using distinct_mapD [OF assms(2)] by simp
  moreover have "set (filter ?p rows) = set ?sel" using in_sel sel by auto
  ultimately have len: "length events = length ?sel"
    unfolding events' length_map using distinct_card [of ?sel] distinct_card [of "filter ?p rows"] by simp
  have left: "length events = nat (claimLimit config)
      \<and> (\<forall>x \<in> set rows. o_event_id x \<in> ev_EventID ` set events \<longrightarrow> claim_key x \<le> claim_key r)"
    if r: "r \<in> set rows" "?q r" "o_event_id r \<notin> ev_EventID ` set events" for r
  proof -
    have "r \<notin> set ?sel" using r in_sel evids by blast
    note L = select_limit_left_out [of r rows ?q claim_key "claimLimit config", OF r(1,2) this]
    then show ?thesis using len in_sel evids by auto
  qed
  show ?thesis
  proof (intro conjI)
    show "length events \<le> nat (claimLimit config)" using len length_select_limit by simp
    show "\<forall>e \<in> set events. \<exists>r \<in> set rows. claimable config now r \<and> o_event_id r \<notin> skip
        \<and> e = event_of (lease config now fresh r) \<and> lease config now fresh r \<in> set rows'"
    proof
      fix e assume "e \<in> set events"
      then obtain r where r: "r \<in> set rows" "?p r" "e = event_of (lease config now fresh r)"
        using events' by auto
      moreover have "lease config now fresh r \<in> set rows'"
        using r(1,2) by (auto simp: rows' set_update_rows intro: rev_image_eqI)
      moreover have "?q r" using in_sel [OF r(1)] r(2) sel by blast
      ultimately show "\<exists>r \<in> set rows. claimable config now r \<and> o_event_id r \<notin> skip
        \<and> e = event_of (lease config now fresh r) \<and> lease config now fresh r \<in> set rows'" by blast
    qed
    show "\<forall>r \<in> set rows. o_event_id r \<notin> ev_EventID ` set events \<longrightarrow> r \<in> set rows'"
      using evids update_rows_keeps by (auto simp: rows')
    show "\<forall>r \<in> set rows. claimable config now r \<longrightarrow> o_event_id r \<notin> skip \<longrightarrow> o_event_id r \<notin> ev_EventID ` set events \<longrightarrow>
          length events = nat (claimLimit config)
          \<and> (\<forall>x \<in> set rows. o_event_id x \<in> ev_EventID ` set events \<longrightarrow> claim_key x \<le> claim_key r)"
      using left by blast
  qed
qed

section \<open>A cycle is a run of steps\<close>

lemma onward_refl: "onward s s"
  by (simp add: onward_def)

lemma onward_trans: "onward s t \<Longrightarrow> onward t u \<Longrightarrow> onward s u"
  by (auto simp: onward_def intro: rtranclp_trans)

lemma onward_step:
  "outbox_step s t \<Longrightarrow> ob_held s \<subseteq> ob_held t \<Longrightarrow> ob_delivered s \<subseteq> ob_delivered t \<Longrightarrow> onward s t"
  by (auto simp: onward_def)

lemma onward_others:
  assumes "steps_of_others env"
  shows "\<exists>s'. onward s s' \<and> ob_rows s' = cy_others env key (ob_rows s)"
  using assms unfolding steps_of_others_def onward_def by blast

lemma onward_published:
  assumes "set events \<subseteq> ob_held s" and "ev_EventID ` set events \<subseteq> ob_delivered s"
    and "with_outcome outcome (markPublishedBatch now events) (ob_rows s) = (st, rows)"
  shows "\<exists>s'. onward s s' \<and> ob_rows s' = rows"
proof -
  let ?t = "s\<lparr>ob_rows := snd (markPublishedBatch now events (ob_rows s))\<rparr>"
  have "onward s ?t" using outbox_step.mark_published [OF assms(1,2)] by (intro onward_step) simp_all
  moreover have "ob_rows ?t = rows \<or> ob_rows s = rows"
    using assms(3) by (cases outcome) (auto simp: with_outcome_def)
  ultimately show ?thesis using onward_refl by blast
qed

lemma onward_failed:
  assumes "e \<in> ob_held s" and "with_outcome outcome (markFailed jitter config now e err) (ob_rows s) = (st, rows)"
  shows "\<exists>s'. onward s s' \<and> ob_rows s' = rows"
proof -
  let ?t = "s\<lparr>ob_rows := snd (markFailed jitter config now e err (ob_rows s))\<rparr>"
  have "onward s ?t" using outbox_step.mark_failed [OF assms(1)] by (intro onward_step) simp_all
  moreover have "ob_rows ?t = rows \<or> ob_rows s = rows"
    using assms(2) by (cases outcome) (auto simp: with_outcome_def)
  ultimately show ?thesis using onward_refl by blast
qed

lemma completeFailed_onward:
  assumes "steps_of_others env"
  shows "oc_event ` set ocs \<subseteq> ob_held s \<Longrightarrow> completeFailed env config pse ocs (ob_rows s) = (labels, errs, rows) \<Longrightarrow>
    \<exists>s'. onward s s' \<and> ob_rows s' = rows"
proof (induction ocs arbitrary: s labels errs rows)
  case Nil
  then show ?case using onward_refl by auto
next
  case (Cons oc ocs)
  let ?e = "oc_event oc" and ?key = "Some (ev_EventID (oc_event oc))"
  have "\<exists>t rows1 labels' errs'. onward s t \<and> ob_rows t = rows1
      \<and> completeFailed env config pse ocs rows1 = (labels', errs', rows)"
  proof (cases "oc_err oc")
    case None
    then show ?thesis using Cons.prems(2) onward_refl by (auto simp: Let_def split: prod.splits)
  next
    case (Some err)
    obtain u where u: "onward s u" "ob_rows u = cy_others env ?key (ob_rows s)"
      using onward_others [OF assms] by blast
    obtain st rows1 where w: "with_outcome (cy_outcome env ?key)
        (markFailed (cy_jitter env) config (cy_now env ?key) ?e err) (ob_rows u) = (st, rows1)"
      by force
    have "?e \<in> ob_held u" using Cons.prems(1) u(1) by (auto simp: onward_def)
    then obtain t where "onward u t" "ob_rows t = rows1" using onward_failed [OF _ w] by blast
    moreover have "\<exists>labels' errs'. completeFailed env config pse ocs rows1 = (labels', errs', rows)"
      using Cons.prems(2) Some w u(2) by (auto simp: Let_def split: prod.splits)
    ultimately show ?thesis using onward_trans [OF u(1)] by blast
  qed
  then obtain t labels' errs' where t: "onward s t" "completeFailed env config pse ocs (ob_rows t) = (labels', errs', rows)"
    by blast
  have "oc_event ` set ocs \<subseteq> ob_held t" using Cons.prems(1) t(1) by (auto simp: onward_def)
  then show ?case using Cons.IH [OF _ t(2)] onward_trans [OF t(1)] by blast
qed

lemma onward_deliver:
  "finite A \<Longrightarrow> A \<subseteq> ob_held s \<Longrightarrow> \<exists>s'. onward s s' \<and> ob_rows s' = ob_rows s \<and> ev_EventID ` A \<subseteq> ob_delivered s'"
proof (induction rule: finite_induct)
  case empty
  then show ?case using onward_refl by blast
next
  case (insert e A)
  then obtain t where t: "onward s t" "ob_rows t = ob_rows s" "ev_EventID ` A \<subseteq> ob_delivered t" by auto
  let ?u = "t\<lparr>ob_delivered := insert (ev_EventID e) (ob_delivered t)\<rparr>"
  have "e \<in> ob_held t" using insert.prems t(1) by (auto simp: onward_def)
  then have "onward t ?u" by (intro onward_step outbox_step.deliver) auto
  then show ?case using t onward_trans [OF t(1)] by (intro exI [of _ ?u]) auto
qed

lemma completeDeliveryBatch_onward:
  assumes others: "steps_of_others env" and held: "oc_event ` set outcomes \<subseteq> ob_held s"
    and run: "completeDeliveryBatch env config outcomes (ob_rows s) = (labels, errs, rows)"
  shows "\<exists>s'. onward s s' \<and> ob_rows s' = rows"
proof -
  let ?ok = "map oc_event (filter (\<lambda>oc. oc_err oc = None) outcomes)"
  have "set ?ok \<subseteq> ob_held s" using held by auto
  then obtain t where t: "onward s t" "ob_rows t = ob_rows s" "ev_EventID ` set ?ok \<subseteq> ob_delivered t"
    using onward_deliver [of "set ?ok" s] by blast
  have held_t: "oc_event ` set outcomes \<subseteq> ob_held t" using held t(1) by (auto simp: onward_def)
  have "\<exists>u pse labels' errs'. onward t u \<and> completeFailed env config pse outcomes (ob_rows u) = (labels', errs', rows)"
  proof (cases "?ok = []")
    case True
    then have "\<exists>labels' errs'. completeFailed env config StateOK outcomes (ob_rows t) = (labels', errs', rows)"
      using run t(2) by (auto simp: completeDeliveryBatch_def Let_def split: prod.splits)
    then show ?thesis using onward_refl by blast
  next
    case False
    obtain v where v: "onward t v" "ob_rows v = cy_others env None (ob_rows t)"
      using onward_others [OF others] by blast
    obtain st rows1 where w: "with_outcome (cy_outcome env None) (markPublishedBatch (cy_now env None) ?ok) (ob_rows v) = (st, rows1)"
      by force
    have "set ?ok \<subseteq> ob_held v" "ev_EventID ` set ?ok \<subseteq> ob_delivered v"
      using held_t t(3) v(1) by (auto simp: onward_def)
    then obtain u where "onward v u" "ob_rows u = rows1" using onward_published [OF _ _ w] by blast
    moreover have "\<exists>labels' errs'. completeFailed env config st outcomes rows1 = (labels', errs', rows)"
      using run False w v(2) t(2) by (auto simp: completeDeliveryBatch_def Let_def split: prod.splits)
    ultimately show ?thesis using onward_trans [OF v(1)] by blast
  qed
  then obtain u pse labels' errs' where u: "onward t u"
      "completeFailed env config pse outcomes (ob_rows u) = (labels', errs', rows)"
    by blast
  have "oc_event ` set outcomes \<subseteq> ob_held u" using held_t u(1) by (auto simp: onward_def)
  then show ?thesis
    using completeFailed_onward [OF others _ u(2)] onward_trans [OF onward_trans [OF t(1) u(1)]] by blast
qed

lemma publishOutcomes_events:
  assumes "\<And>xs. set (cy_arrival env xs) \<subseteq> set xs"
  shows "oc_event ` set (publishOutcomes env publisher events) \<subseteq> set events"
proof -
  have "oc_event ` set (cy_arrival env (map (\<lambda>e. \<lparr>oc_event = e, oc_err = f e\<rparr>) events)) \<subseteq> set events" for f
    using assms [of "map (\<lambda>e. \<lparr>oc_event = e, oc_err = f e\<rparr>) events"] by force
  then show ?thesis by (auto simp: publishOutcomes_def Let_def split: publisher.splits sum.splits option.splits)
qed


section \<open>Failed attempts\<close>

lemma Milliseconds_mono: "0 \<le> a \<Longrightarrow> a \<le> b \<Longrightarrow> Milliseconds a \<le> Milliseconds b"
  by (simp add: Milliseconds_def Millisecond_def go_div_nonneg zdiv_mono1)

lemma owned_unique:
  assumes "distinct (map o_event_id rows)" and "r \<in> set rows" and "owned e r"
  shows "rows_affected (owned e) rows = 1" and "\<And>x. x \<in> set rows \<Longrightarrow> owned e x \<longleftrightarrow> x = r"
proof -
  have same: "owned e x \<longleftrightarrow> x = r" if "x \<in> set rows" for x
    using distinct_key_eq [OF assms(1) that assms(2)] assms(3) by (auto simp: owned_def)
  then show "\<And>x. x \<in> set rows \<Longrightarrow> owned e x \<longleftrightarrow> x = r" .
  have "set (filter (owned e) rows) = {r}" using same assms(2) by auto
  moreover have "distinct (filter (owned e) rows)" using distinct_mapD [OF assms(1)] by simp
  ultimately show "rows_affected (owned e) rows = 1"
    using distinct_card [of "filter (owned e) rows"] by (simp add: rows_affected_def)
qed

text \<open>
  A failed attempt ends in exactly one of two ways. For the holder of the lease, a permanent
  failure and a failure at or beyond the last attempt make the event dead; any other failure keeps
  it open, releases the lease and puts the next attempt off by at least half of the capped
  exponential backoff, and by no more than all of it when the publisher asked for no delay of its
  own. No other event is touched.
\<close>

theorem failed_attempt_outcome:
  assumes cfg: "newOutboxWorker True True config = Inr config'" and rand: "\<And>n. 0 < n \<Longrightarrow> 0 \<le> rand n \<and> rand n < n"
    and dist: "distinct (map o_event_id rows)" and r: "r \<in> set rows" "owned e r"
    and ok: "pg_text_ok (truncateRunes (failure_text err) 2000)"
  shows "\<exists>rows' r'. markFailed (equalJitter rand) config now e err rows = (StateOK, rows')
     \<and> (\<forall>x \<in> set rows. x \<noteq> r \<longrightarrow> x \<in> set rows') \<and> r' \<in> set rows' \<and> o_event_id r' = o_event_id r
     \<and> o_lock_token r' = None
     \<and> (if is_permanent err \<or> wc_MaxAttempts config \<le> ev_AttemptCount e
        then o_dead_at r' = Some now \<and> o_published_at r' = None
        else open_row r'
          \<and> now + 1000 * Milliseconds (backoff_bound config (ev_AttemptCount e) div 2) \<le> o_next_attempt_at r'
          \<and> ((\<forall>t p d. err = PublishFailure t p d \<longrightarrow> d \<le> 0) \<longrightarrow>
              o_next_attempt_at r' \<le> now + 1000 * Milliseconds (backoff_bound config (ev_AttemptCount e))))"
proof -
  let ?text = "truncateRunes (failure_text err) 2000"
  let ?f = "if gives_up config e err then kill_row now ?text
            else reschedule_row now (failure_delay (equalJitter rand) config e err) ?text"
  let ?b = "backoff_bound config (ev_AttemptCount e)"
  note v = newOutboxWorker_valid [OF cfg]
  note one = owned_unique [OF dist r]
  have pos: "0 < ?b" using v(2,3) by (simp add: backoff_bound_def)
  note j = equalJitter_bounds [OF pos rand]
  have run: "markFailed (equalJitter rand) config now e err rows = (StateOK, update_rows (owned e) ?f rows)"
    using ok one(1) by (simp add: markFailed_def Let_def)
  have keep: "x \<in> set (update_rows (owned e) ?f rows)" if "x \<in> set rows" "x \<noteq> r" for x
    by (rule update_rows_keeps [OF that(1)]) (use that one(2) in simp)
  have new: "?f r \<in> set (update_rows (owned e) ?f rows)"
    unfolding set_update_rows by (rule rev_image_eqI [OF r(1)]) (use r(2) in simp)
  have fd: "failure_delay (equalJitter rand) config e err =
      (case err of PublishFailure _ _ d \<Rightarrow> max d (equalJitter rand ?b) | OtherError _ \<Rightarrow> equalJitter rand ?b)"
    using retryDelay_jitter [OF v(2,3)] by (simp add: failure_delay_def Let_def max_def split: publish_error.split)
  have delay1: "?b div 2 \<le> failure_delay (equalJitter rand) config e err"
    unfolding fd using j(1) by (cases err) (simp_all add: le_max_iff_disj)
  have delay2: "failure_delay (equalJitter rand) config e err \<le> ?b"
    if "\<forall>t p d. err = PublishFailure t p d \<longrightarrow> d \<le> 0"
    unfolding fd using j(2) pos that by (cases err) simp_all
  have half: "0 \<le> ?b div 2" using pos by simp
  have lower: "Milliseconds (?b div 2) \<le> Milliseconds (failure_delay (equalJitter rand) config e err)"
    using Milliseconds_mono [OF half delay1] .
  have upper: "(\<forall>t p d. err = PublishFailure t p d \<longrightarrow> d \<le> 0) \<Longrightarrow>
      Milliseconds (failure_delay (equalJitter rand) config e err) \<le> Milliseconds ?b"
    using Milliseconds_mono [OF order.trans [OF half delay1] delay2] .
  have op: "open_row r" using r(2) by (rule owned_open)
  have final: "if is_permanent err \<or> wc_MaxAttempts config \<le> ev_AttemptCount e
        then o_dead_at (?f r) = Some now \<and> o_published_at (?f r) = None
        else open_row (?f r) \<and> now + 1000 * Milliseconds (?b div 2) \<le> o_next_attempt_at (?f r)
          \<and> ((\<forall>t p d. err = PublishFailure t p d \<longrightarrow> d \<le> 0) \<longrightarrow>
              o_next_attempt_at (?f r) \<le> now + 1000 * Milliseconds ?b)"
  proof (cases "gives_up config e err")
    case True
    then show ?thesis using op by (simp add: gives_up_def kill_row_def open_row_def)
  next
    case False
    then have f: "?f r = reschedule_row now (failure_delay (equalJitter rand) config e err) ?text r" by simp
    have "o_next_attempt_at (?f r) = now + 1000 * Milliseconds (failure_delay (equalJitter rand) config e err)"
      unfolding f by (simp add: reschedule_row_def)
    moreover have "open_row (?f r)" unfolding f using op by (simp add: reschedule_row_def open_row_def)
    ultimately show ?thesis using False lower upper by (simp add: gives_up_def)
  qed
  have ids: "o_event_id (?f r) = o_event_id r" "o_lock_token (?f r) = None" by simp_all
  show ?thesis
    by (intro exI [of _ "update_rows (owned e) ?f rows"] exI [of _ "?f r"] conjI)
      (rule run new ids final | (intro ballI impI, rule keep; assumption))+
qed

section \<open>The properties on the small system\<close>

lemma reach_sample: "outbox_step\<^sup>*\<^sup>* outbox_start sample_state"
proof -
  have "outbox_step outbox_start (outbox_start\<lparr>ob_rows := ob_rows outbox_start @ [sample_row],
      ob_inserted := insert (o_event_id sample_row) (ob_inserted outbox_start)\<rparr>)"
    by (rule outbox_step.insert_event) (simp_all add: new_row_def open_row_def sample_row_def outbox_start_def)
  moreover have "outbox_start\<lparr>ob_rows := ob_rows outbox_start @ [sample_row],
      ob_inserted := insert (o_event_id sample_row) (ob_inserted outbox_start)\<rparr> = sample_state"
    by (simp add: sample_state_def outbox_start_def sample_row_def)
  ultimately show ?thesis by auto
qed

lemma claim_sample:
  "claim defaultOutboxWorkerConfig 2000 {} sample_fresh [sample_row] = ([event_of leased_row], [leased_row])"
  by code_simp

theorem outbox_loses_nothing_witness:
  "\<exists>!r. r \<in> set (ob_rows sample_state) \<and> o_event_id r = 7"
  using outbox_loses_nothing [OF reach_sample] by (auto simp: sample_state_def outbox_start_def)

lemma inj_sample_fresh: "inj sample_fresh"
  by (rule injI) (simp add: sample_fresh_def)


theorem terminal_rows_are_final_witness:
  "published_row \<in> set (ob_rows (outbox_start\<lparr>ob_rows := [published_row], ob_delivered := {7}, ob_inserted := {7}, ob_held := {}\<rparr>))"
proof -
  let ?s = "outbox_start\<lparr>ob_rows := [published_row], ob_delivered := {7}, ob_inserted := {7}\<rparr>"
  have row: "\<not> open_row published_row" "o_event_id published_row = 7" "outbox_row_ok published_row" "o_lock_token published_row = None"
    by code_simp+
  have "outbox_inv ?s" by (rule outbox_invI) (simp_all add: outbox_start_def row)
  moreover have "outbox_step ?s (?s\<lparr>ob_held := {}\<rparr>)" by (rule outbox_step.crash) simp
  ultimately show ?thesis
    using terminal_rows_are_final [of ?s "?s\<lparr>ob_held := {}\<rparr>" published_row] row(1) by (simp add: outbox_start_def)
qed

theorem stale_holder_witness:
  "markPublishedBatch 9000 [(event_of leased_row)\<lparr>ev_LockToken := 1\<rparr>] [leased_row] = (LeaseLost, [leased_row])"
proof -
  have "ev_LockToken (event_of leased_row) = 107" "pg_text_ok (truncateRunes (failure_text (OtherError ''x'')) 2000)"
    by code_simp+
  then show ?thesis
    using stale_holder_changes_nothing [OF claim_sample, of "event_of leased_row" "(event_of leased_row)\<lparr>ev_LockToken := 1\<rparr>"
        "OtherError ''x''" 9000]
    by simp
qed

lemma default_worker: "newOutboxWorker True True defaultOutboxWorkerConfig = Inr defaultOutboxWorkerConfig"
  by code_simp

theorem retry_delay_witness:
  "retryDelay (\<lambda>d. d) defaultOutboxWorkerConfig 4 = 8 * Second
   \<and> retryDelay (equalJitter (\<lambda>n. 0)) defaultOutboxWorkerConfig 4 \<le> 8 * Second"
proof -
  have "min (wc_MaxBackoff defaultOutboxWorkerConfig) (wc_BaseBackoff defaultOutboxWorkerConfig * 2 ^ nat (4 - 1)) = 8 * Second"
    by (simp add: defaultOutboxWorkerConfig_def Second_def)
  then show ?thesis
    using retry_delay_is_capped_exponential [OF default_worker, of "\<lambda>n. 0" 4] by simp
qed

theorem claim_takes_the_due_events_witness:
  "length [event_of leased_row] \<le> nat (claimLimit defaultOutboxWorkerConfig)
   \<and> (\<exists>r \<in> set [sample_row]. claimable defaultOutboxWorkerConfig 2000 r)"
proof
  have d: "distinct (map o_event_id [sample_row])" by simp
  note c = claim_takes_the_due_events [OF claim_sample d]
  show "length [event_of leased_row] \<le> nat (claimLimit defaultOutboxWorkerConfig)"
    by (rule c [THEN conjunct1])
  show "\<exists>r \<in> set [sample_row]. claimable defaultOutboxWorkerConfig 2000 r"
    using c [THEN conjunct2, THEN conjunct1] by (meson list.set_intros(1))
qed

theorem failed_attempt_outcome_witness:
  "\<exists>rows' r'. markFailed (equalJitter (\<lambda>n. 0)) defaultOutboxWorkerConfig 3000 (event_of leased_row) (OtherError ''down'') [leased_row]
     = (StateOK, rows') \<and> r' \<in> set rows' \<and> open_row r' \<and> 3000 + 1000 * 500 \<le> o_next_attempt_at r'"
proof -
  have o: "owned (event_of leased_row) leased_row" by code_simp
  have t: "pg_text_ok (truncateRunes (failure_text (OtherError ''down'')) 2000)" by code_simp
  have b: "Milliseconds (backoff_bound defaultOutboxWorkerConfig (ev_AttemptCount (event_of leased_row)) div 2) = 500"
    by code_simp
  have g: "\<not> (is_permanent (OtherError ''down'') \<or> wc_MaxAttempts defaultOutboxWorkerConfig \<le> ev_AttemptCount (event_of leased_row))"
    by code_simp
  from failed_attempt_outcome [OF default_worker _ _ _ o t, of "\<lambda>n. 0" "[leased_row]" 3000] g b
  show ?thesis by auto
qed

end
