(* ===== verification/Hub.thy ===== *)
theory Hub
  imports Outbox MessageService
begin

text \<open>
  The hub of the websocket connections of one process and the publisher of outbox events:
  \<^verbatim>\<open>websocket.go\<close>. The hub is one goroutine that serves requests from channels, so its behaviour
  is a function on its state, one request at a time. A client is shared by pointer: the state
  holds the clients by address, and the two-level map from user and connection to address. A
  map is the list of its entries in the order in which a loop visits them.
\<close>

section \<open>Clients and the hub\<close>

record webSocketClient =
  wk_userID :: int
  wk_sessionID :: int
  wk_connectionID :: string
  wk_send :: "byte_string list"
  wk_SendBuffer :: nat
  wk_closed :: "(int \<times> string) option"

record webSocketHub =
  hub_heap :: "nat \<Rightarrow> webSocketClient"
  hub_clients :: "int \<rightharpoonup> (string \<times> nat) list"
  hub_connections :: int
  hub_disconnects :: "string list"
  hub_deliveries :: "string list"

definition StatusNormalClosure :: int where "StatusNormalClosure = 1000"
definition StatusGoingAway :: int where "StatusGoingAway = 1001"
definition StatusPolicyViolation :: int where "StatusPolicyViolation = 1008"
definition StatusTryAgainLater :: int where "StatusTryAgainLater = 1013"

record webSocketClientConfig =
  kc_SendBuffer :: int
  kc_ReadLimit :: int
  kc_WriteWait :: duration
  kc_PingPeriod :: duration

definition defaultWebSocketClientConfig :: webSocketClientConfig where
  "defaultWebSocketClientConfig =
     \<lparr>kc_SendBuffer = 256, kc_ReadLimit = 1024, kc_WriteWait = 10 * Second, kc_PingPeriod = 25 * Second\<rparr>"

definition newWebSocketClient ::
  "int \<Rightarrow> int \<Rightarrow> string \<Rightarrow> bool \<Rightarrow> webSocketClientConfig \<Rightarrow> string + webSocketClient" where
  "newWebSocketClient userID sessionID connectionID has_connection config =
     (if userID \<le> 0 \<or> sessionID \<le> 0 \<or> connectionID = [] \<or> \<not> has_connection
      then Inl ''websocket client identity and connection are required''
      else if kc_SendBuffer config \<le> 0 \<or> kc_ReadLimit config \<le> 0 \<or> kc_WriteWait config \<le> 0 \<or> kc_PingPeriod config \<le> 0
      then Inl ''websocket client limits must be positive''
      else Inr \<lparr>wk_userID = userID, wk_sessionID = sessionID, wk_connectionID = connectionID, wk_send = [],
                wk_SendBuffer = nat (kc_SendBuffer config), wk_closed = None\<rparr>)"

definition newWebSocketHub :: webSocketHub where
  "newWebSocketHub =
     \<lparr>hub_heap = (\<lambda>_. \<lparr>wk_userID = 0, wk_sessionID = 0, wk_connectionID = [], wk_send = [], wk_SendBuffer = 0, wk_closed = None\<rparr>),
      hub_clients = Map.empty, hub_connections = 0, hub_disconnects = [], hub_deliveries = []\<rparr>"

definition webSocketDisconnectReason :: "string \<Rightarrow> string" where
  "webSocketDisconnectReason reason =
     (if reason = ''slow client'' then ''slow_client''
      else if reason = ''session revoked'' then ''session_revoked''
      else if reason = ''connection replaced'' then ''connection_replaced''
      else if reason = ''connection ownership lost'' then ''ownership_lost''
      else if reason = ''access token expired'' then ''token_expired''
      else if reason = ''connection closed'' then ''connection_closed''
      else if reason = ''server shutting down'' then ''server_shutdown''
      else ''other'')"

section \<open>Requests\<close>

definition entries :: "webSocketHub \<Rightarrow> int \<Rightarrow> (string \<times> nat) list" where
  "entries hub userID = (case hub_clients hub userID of None \<Rightarrow> [] | Some m \<Rightarrow> m)"

text \<open>\<open>shutdown\<close> acts once; the close frame carries the code and reason of the first call.\<close>

definition shutdown :: "webSocketHub \<Rightarrow> nat \<Rightarrow> int \<Rightarrow> string \<Rightarrow> webSocketHub" where
  "shutdown hub p code reason =
     hub\<lparr>hub_heap := (hub_heap hub)(p := (hub_heap hub p)\<lparr>wk_closed :=
        (case wk_closed (hub_heap hub p) of None \<Rightarrow> Some (code, reason) | Some x \<Rightarrow> Some x)\<rparr>)\<rparr>"

definition observeDisconnect :: "webSocketHub \<Rightarrow> string \<Rightarrow> webSocketHub" where
  "observeDisconnect hub reason = hub\<lparr>hub_disconnects := hub_disconnects hub @ [reason]\<rparr>"

definition put_entry :: "string \<Rightarrow> nat \<Rightarrow> (string \<times> nat) list \<Rightarrow> (string \<times> nat) list" where
  "put_entry k p m = (if k \<in> fst ` set m then map (\<lambda>(k', p'). if k' = k then (k, p) else (k', p')) m else m @ [(k, p)])"

definition hubRegister :: "webSocketHub \<Rightarrow> nat \<Rightarrow> webSocketHub" where
  "hubRegister hub p =
     (let c = hub_heap hub p; m = put_entry (wk_connectionID c) p (entries hub (wk_userID c))
      in hub\<lparr>hub_clients := (hub_clients hub)(wk_userID c \<mapsto> m), hub_connections := hub_connections hub + 1\<rparr>)"

definition removeClient :: "webSocketHub \<Rightarrow> nat \<Rightarrow> int \<Rightarrow> string \<Rightarrow> webSocketHub" where
  "removeClient hub p code reason =
     (let c = hub_heap hub p; m = entries hub (wk_userID c)
      in if map_of m (wk_connectionID c) \<noteq> Some p then hub
         else (let m' = filter (\<lambda>(k, _). k \<noteq> wk_connectionID c) m;
                   clients' = (if m' = [] then (hub_clients hub)(wk_userID c := None)
                               else (hub_clients hub)(wk_userID c \<mapsto> m'));
                   hub1 = hub\<lparr>hub_clients := clients', hub_connections := hub_connections hub - 1\<rparr>
               in observeDisconnect (shutdown hub1 p code reason) (webSocketDisconnectReason reason)))"

definition has_room :: "webSocketHub \<Rightarrow> nat \<Rightarrow> bool" where
  "has_room hub p \<longleftrightarrow> length (wk_send (hub_heap hub p)) < wk_SendBuffer (hub_heap hub p)"

definition enqueue :: "webSocketHub \<Rightarrow> nat \<Rightarrow> byte_string \<Rightarrow> webSocketHub" where
  "enqueue hub p payload =
     hub\<lparr>hub_heap := (hub_heap hub)(p := (hub_heap hub p)\<lparr>wk_send := wk_send (hub_heap hub p) @ [payload]\<rparr>),
         hub_deliveries := hub_deliveries hub @ [''queued'']\<rparr>"

fun deliverLoop :: "byte_string \<Rightarrow> nat list \<Rightarrow> webSocketHub \<Rightarrow> nat \<Rightarrow> nat \<times> webSocketHub" where
  "deliverLoop payload [] hub delivered = (delivered, hub)"
| "deliverLoop payload (p # ps) hub delivered =
     (if has_room hub p then deliverLoop payload ps (enqueue hub p payload) (delivered + 1)
      else deliverLoop payload ps
             (removeClient (hub\<lparr>hub_deliveries := hub_deliveries hub @ [''slow_client'']\<rparr>) p StatusPolicyViolation ''slow client'')
             delivered)"

definition deliver :: "webSocketHub \<Rightarrow> int \<Rightarrow> byte_string \<Rightarrow> nat \<times> webSocketHub" where
  "deliver hub receiverID payload =
     (let hub1 = (if entries hub receiverID = [] then hub\<lparr>hub_deliveries := hub_deliveries hub @ [''no_connection'']\<rparr> else hub)
      in deliverLoop payload (map snd (entries hub receiverID)) hub1 0)"

definition disconnectMatching :: "webSocketHub \<Rightarrow> int \<Rightarrow> int \<Rightarrow> webSocketHub" where
  "disconnectMatching hub userID sessionID =
     fold (\<lambda>p h. if sessionID = 0 \<or> wk_sessionID (hub_heap h p) = sessionID
                 then removeClient h p StatusPolicyViolation ''session revoked'' else h)
       (map snd (entries hub userID)) hub"

definition disconnectOne :: "webSocketHub \<Rightarrow> int \<Rightarrow> string \<Rightarrow> webSocketHub" where
  "disconnectOne hub userID connectionID =
     (case map_of (entries hub userID) connectionID of
        None \<Rightarrow> hub
      | Some p \<Rightarrow> removeClient hub p StatusPolicyViolation ''connection replaced'')"

text \<open>The shutdown of the process, over the users in the order the map is visited.\<close>

definition hubShutdown :: "webSocketHub \<Rightarrow> int list \<Rightarrow> webSocketHub" where
  "hubShutdown hub userIDs =
     (fold (\<lambda>p h. shutdown (observeDisconnect h ''server_shutdown'') p StatusGoingAway ''server shutting down'')
        (concat (map (\<lambda>u. map snd (entries hub u)) userIDs)) hub)
     \<lparr>hub_clients := Map.empty, hub_connections := 0\<rparr>"

datatype hub_request =
    RegisterRequest nat
  | UnregisterRequest nat int string
  | PublishRequest int byte_string
  | DisconnectSessionRequest int int
  | DisconnectUserRequest int
  | DisconnectConnectionRequest int string

definition hubServe :: "webSocketHub \<Rightarrow> hub_request \<Rightarrow> webSocketHub" where
  "hubServe hub request =
     (case request of
        RegisterRequest p \<Rightarrow> hubRegister hub p
      | UnregisterRequest p code reason \<Rightarrow> removeClient hub p code reason
      | PublishRequest u payload \<Rightarrow> snd (deliver hub u payload)
      | DisconnectSessionRequest u s \<Rightarrow> disconnectMatching hub u s
      | DisconnectUserRequest u \<Rightarrow> disconnectMatching hub u 0
      | DisconnectConnectionRequest u c \<Rightarrow> disconnectOne hub u c)"

text \<open>
  What a caller of the hub sees. The request may not be queued (its context is over, or the hub
  has stopped), it may be abandoned while it waits, served or not, or it is answered.
\<close>

datatype hub_outcome = NotQueued string | Abandoned string bool | Answered

definition hubCall :: "hub_outcome \<Rightarrow> webSocketHub \<Rightarrow> hub_request \<Rightarrow> string option \<times> webSocketHub" where
  "hubCall outcome hub request =
     (case outcome of
        NotQueued err \<Rightarrow> (Some err, hub)
      | Abandoned err served \<Rightarrow> (Some err, if served then hubServe hub request else hub)
      | Answered \<Rightarrow> (None, hubServe hub request))"

definition Register :: "hub_outcome \<Rightarrow> webSocketHub \<Rightarrow> nat \<Rightarrow> string option \<times> webSocketHub" where
  "Register outcome hub p = hubCall outcome hub (RegisterRequest p)"

text \<open>An unregistration is not waited for: once it is queued the caller goes on.\<close>

definition Unregister :: "hub_outcome \<Rightarrow> webSocketHub \<Rightarrow> nat \<Rightarrow> int \<Rightarrow> string \<Rightarrow> string option \<times> webSocketHub" where
  "Unregister outcome hub p code reason =
     (case outcome of
        NotQueued err \<Rightarrow> (Some err, hub)
      | Abandoned _ served \<Rightarrow> (None, if served then removeClient hub p code reason else hub)
      | Answered \<Rightarrow> (None, removeClient hub p code reason))"

definition hubPublish :: "hub_outcome \<Rightarrow> webSocketHub \<Rightarrow> int \<Rightarrow> byte_string \<Rightarrow> (string + nat) \<times> webSocketHub" where
  "hubPublish outcome hub receiverID payload =
     (case hubCall outcome hub (PublishRequest receiverID payload) of
        (Some err, hub') \<Rightarrow> (Inl err, hub')
      | (None, hub') \<Rightarrow> (Inr (fst (deliver hub receiverID payload)), hub'))"

definition hubDisconnectSession :: "hub_outcome \<Rightarrow> webSocketHub \<Rightarrow> int \<Rightarrow> int \<Rightarrow> string option \<times> webSocketHub" where
  "hubDisconnectSession outcome hub userID sessionID = hubCall outcome hub (DisconnectSessionRequest userID sessionID)"

definition hubDisconnectUser :: "hub_outcome \<Rightarrow> webSocketHub \<Rightarrow> int \<Rightarrow> string option \<times> webSocketHub" where
  "hubDisconnectUser outcome hub userID = hubCall outcome hub (DisconnectUserRequest userID)"

definition hubDisconnectConnection :: "hub_outcome \<Rightarrow> webSocketHub \<Rightarrow> int \<Rightarrow> string \<Rightarrow> string option \<times> webSocketHub" where
  "hubDisconnectConnection outcome hub userID connectionID =
     (if userID \<le> 0 \<or> connectionID = [] then (Some ''websocket connection identity is required'', hub)
      else hubCall outcome hub (DisconnectConnectionRequest userID connectionID))"

text \<open>
  The write loop of a connection over the channels that become ready: it ends with the error of
  its context, of a write or of a ping. The result is the error if it has ended, the rest of
  the queue and what was written.
\<close>

datatype pump_event = PumpDone string | PumpSend "string option" | PumpPing "string option"

fun writePump :: "pump_event list \<Rightarrow> byte_string list \<Rightarrow> byte_string list \<Rightarrow> string option \<times> byte_string list \<times> byte_string list" where
  "writePump [] queue written = (None, queue, written)"
| "writePump (PumpDone err # events) queue written = (Some err, queue, written)"
| "writePump (PumpSend result # events) queue written =
     (case queue of
        [] \<Rightarrow> writePump events queue written
      | payload # queue' \<Rightarrow>
          (case result of Some err \<Rightarrow> (Some err, queue', written) | None \<Rightarrow> writePump events queue' (written @ [payload])))"
| "writePump (PumpPing result # events) queue written =
     (case result of Some err \<Rightarrow> (Some err, queue, written) | None \<Rightarrow> writePump events queue written)"

text \<open>How \<open>run\<close> leaves the hub when a pump has ended: the deadline of the context is the token's expiry.\<close>

definition runClose :: "bool \<Rightarrow> int \<times> string" where
  "runClose deadline_exceeded =
     (if deadline_exceeded then (StatusPolicyViolation, ''access token expired'')
      else (StatusNormalClosure, ''connection closed''))"

definition clientRun :: "hub_outcome \<Rightarrow> bool \<Rightarrow> webSocketHub \<Rightarrow> nat \<Rightarrow> webSocketHub" where
  "clientRun outcome deadline_exceeded hub p =
     snd (Unregister outcome hub p (fst (runClose deadline_exceeded)) (snd (runClose deadline_exceeded)))"

section \<open>The publisher of outbox events\<close>

record webSocketEnvelope =
  we_Type :: string
  we_EventID :: int
  we_Cursor :: int
  we_ConversationID :: int
  we_ConversationSeq :: int
  we_Message :: message

fun checkRecipients :: "int set \<Rightarrow> messageEventRecipient list \<Rightarrow> int set \<Rightarrow> string + int set" where
  "checkRecipients expected [] seen = Inr seen"
| "checkRecipients expected (r # rs) seen =
     (if rc_UserID r \<le> 0 then Inl ''message.created recipient is invalid''
      else if rc_UserID r \<notin> expected then Inl ''message.created recipient is not a message participant''
      else if rc_UserID r \<in> seen then Inl ''message.created recipient is duplicated''
      else checkRecipients expected rs (insert (rc_UserID r) seen))"

definition decodeMessageCreatedEvent :: "outboxEvent \<Rightarrow> string + messageCreatedEventPayload" where
  "decodeMessageCreatedEvent event =
     (if ev_PayloadVersion event \<noteq> 4
      then Inl (''unsupported message.created payload version '' @ FormatInt (ev_PayloadVersion event))
      else case ev_Payload event of
        None \<Rightarrow> Inl ''decode message.created payload''
      | Some payload \<Rightarrow>
        (let m = pl_Message payload; expected = {m_SenderID m, m_ReceiverID m}
         in if m_ID m \<le> 0 \<or> m_SenderID m \<le> 0 \<or> m_ReceiverID m \<le> 0
               \<or> (ev_MessageID event > 0 \<and> m_ID m \<noteq> ev_MessageID event) \<or> pl_Recipients payload = []
            then Inl ''message.created payload is incomplete''
            else case checkRecipients expected (pl_Recipients payload) {} of
              Inl err \<Rightarrow> Inl err
            | Inr seen \<Rightarrow>
              if card seen \<noteq> card expected then Inl ''message.created recipients are incomplete''
              else if m_ConversationID m \<le> 0 \<or> m_ConversationSeq m \<le> 0
              then Inl ''conversation-scoped message.created payload is incomplete''
              else if list_ex (\<lambda>r. rc_Cursor r \<noteq> 0) (pl_Recipients payload)
              then Inl ''conversation-scoped recipient must not contain a user cursor''
              else Inr payload))"

definition envelope_for :: "outboxEvent \<Rightarrow> messageCreatedEventPayload \<Rightarrow> messageEventRecipient \<Rightarrow> webSocketEnvelope" where
  "envelope_for event payload recipient =
     \<lparr>we_Type = ev_EventType event, we_EventID = ev_EventID event, we_Cursor = rc_Cursor recipient,
      we_ConversationID = m_ConversationID (pl_Message payload),
      we_ConversationSeq = m_ConversationSeq (pl_Message payload), we_Message = pl_Message payload\<rparr>"

text \<open>
  \<open>route\<close> is \<open>Publish\<close> of the delivery router (an error, or the number of deliveries), with the
  state it works on; \<open>marshal\<close> is \<open>json.Marshal\<close> of an envelope.
\<close>

fun publishRecipients ::
  "('s \<Rightarrow> int \<Rightarrow> byte_string \<Rightarrow> (string + nat) \<times> 's) \<Rightarrow> (webSocketEnvelope \<Rightarrow> string + byte_string) \<Rightarrow> outboxEvent \<Rightarrow>
   messageCreatedEventPayload \<Rightarrow> messageEventRecipient list \<Rightarrow> 's \<Rightarrow> publish_error option \<times> 's" where
  "publishRecipients route marshal event payload [] s = (None, s)"
| "publishRecipients route marshal event payload (r # rs) s =
     (case marshal (envelope_for event payload r) of
        Inl err \<Rightarrow> (Some (permanentPublishError (''encode websocket event: '' @ err)), s)
      | Inr envelope \<Rightarrow>
          (case route s (rc_UserID r) envelope of
             (Inl err, s') \<Rightarrow> (Some (retryablePublishError (''publish websocket event: '' @ err) 0), s')
           | (Inr _, s') \<Rightarrow> publishRecipients route marshal event payload rs s'))"

definition publisherPublish ::
  "('s \<Rightarrow> int \<Rightarrow> byte_string \<Rightarrow> (string + nat) \<times> 's) \<Rightarrow> (webSocketEnvelope \<Rightarrow> string + byte_string) \<Rightarrow> outboxEvent \<Rightarrow>
   's \<Rightarrow> publish_error option \<times> 's" where
  "publisherPublish route marshal event s =
     (if ev_EventType event \<noteq> ''message.created''
      then (Some (permanentPublishError ''unsupported websocket event type''), s)
      else case decodeMessageCreatedEvent event of
        Inl err \<Rightarrow> (Some (permanentPublishError err), s)
      | Inr payload \<Rightarrow> publishRecipients route marshal event payload (pl_Recipients payload) s)"

text \<open>The users of a batch, each once, in the order of their first event.\<close>

fun addUsers :: "messageEventRecipient list \<Rightarrow> int list \<Rightarrow> int list" where
  "addUsers [] userIDs = userIDs"
| "addUsers (r # rs) userIDs =
     (if rc_UserID r \<in> set userIDs then addUsers rs userIDs else addUsers rs (userIDs @ [rc_UserID r]))"

fun batchUsers :: "outboxEvent list \<Rightarrow> int list \<Rightarrow> int list" where
  "batchUsers [] userIDs = userIDs"
| "batchUsers (event # events) userIDs =
     (if ev_EventType event \<noteq> ''message.created'' then batchUsers events userIDs
      else case decodeMessageCreatedEvent event of
        Inl _ \<Rightarrow> batchUsers events userIDs
      | Inr payload \<Rightarrow> batchUsers events (addUsers (pl_Recipients payload) userIDs))"

text \<open>\<open>prepare\<close> is \<open>PrepareDeliveryBatch\<close> of the router, where it has one.\<close>

definition PreparePublishBatch ::
  "'router \<Rightarrow> (int list \<Rightarrow> string + 'router option) option \<Rightarrow> outboxEvent list \<Rightarrow> string + 'router" where
  "PreparePublishBatch router prepare events =
     (case prepare of
        None \<Rightarrow> Inr router
      | Some f \<Rightarrow> (case f (batchUsers events []) of
                    Inl err \<Rightarrow> Inl err
                  | Inr None \<Rightarrow> Inl ''prepared websocket delivery router is nil''
                  | Inr (Some r) \<Rightarrow> Inr r))"

section \<open>Invariant and runs\<close>

text \<open>
  The inner map of a user is never empty, has no key twice, and every entry leads to a client of
  that user under its own connection id; the gauge counts the entries.
\<close>

definition hub_entries :: "webSocketHub \<Rightarrow> (int \<times> string) set" where
  "hub_entries hub = {(u, k). k \<in> fst ` set (entries hub u)}"

definition well_keyed :: "webSocketHub \<Rightarrow> bool" where
  "well_keyed hub \<longleftrightarrow>
     (\<forall>u. hub_clients hub u \<noteq> Some [] \<and> distinct (map fst (entries hub u))
        \<and> (\<forall>k p. (k, p) \<in> set (entries hub u) \<longrightarrow> wk_userID (hub_heap hub p) = u \<and> wk_connectionID (hub_heap hub p) = k))"

definition hub_inv :: "webSocketHub \<Rightarrow> bool" where
  "hub_inv hub \<longleftrightarrow> well_keyed hub \<and> finite (hub_entries hub) \<and> hub_connections hub = int (card (hub_entries hub))
     \<and> (\<forall>p. length (wk_send (hub_heap hub p)) \<le> wk_SendBuffer (hub_heap hub p))"

definition registered :: "webSocketHub \<Rightarrow> nat \<Rightarrow> bool" where
  "registered hub p \<longleftrightarrow> p \<in> snd ` set (entries hub (wk_userID (hub_heap hub p)))"

text \<open>What a shutdown does to a client: it keeps the first code and reason.\<close>

definition closing :: "int \<Rightarrow> string \<Rightarrow> webSocketClient \<Rightarrow> webSocketClient" where
  "closing code reason c = c\<lparr>wk_closed := (case wk_closed c of None \<Rightarrow> Some (code, reason) | Some x \<Rightarrow> Some x)\<rparr>"

text \<open>
  One step of the loop, for a client that is registered: it takes the payload or it is removed
  and closed. Nothing else moves.
\<close>

definition deliver_one :: "byte_string \<Rightarrow> nat \<Rightarrow> webSocketHub \<Rightarrow> webSocketHub" where
  "deliver_one payload p hub =
     (if has_room hub p then enqueue hub p payload
      else removeClient (hub\<lparr>hub_deliveries := hub_deliveries hub @ [''slow_client'']\<rparr>) p StatusPolicyViolation ''slow client'')"

definition delivered_client :: "byte_string \<Rightarrow> webSocketHub \<Rightarrow> nat \<Rightarrow> webSocketClient" where
  "delivered_client payload hub p =
     (if has_room hub p then (hub_heap hub p)\<lparr>wk_send := wk_send (hub_heap hub p) @ [payload]\<rparr>
      else closing StatusPolicyViolation ''slow client'' (hub_heap hub p))"

text \<open>A registration brings a connection id that is not in use, as random identifiers do.\<close>

definition fresh_request :: "webSocketHub \<Rightarrow> hub_request \<Rightarrow> bool" where
  "fresh_request hub request =
     (case request of
        RegisterRequest p \<Rightarrow> wk_connectionID (hub_heap hub p) \<notin> fst ` set (entries hub (wk_userID (hub_heap hub p)))
      | _ \<Rightarrow> True)"

text \<open>
  The hub at work: new clients are made, requests are served, write loops take from the queues,
  and clients are shut down from outside the hub.
\<close>

inductive hub_run :: "webSocketHub \<Rightarrow> bool" where
  hub_new: "hub_run newWebSocketHub"
| hub_alloc: "hub_run hub \<Longrightarrow> newWebSocketClient u s k True config = Inr c
     \<Longrightarrow> \<forall>v. p \<notin> snd ` set (entries hub v) \<Longrightarrow> hub_run (hub\<lparr>hub_heap := (hub_heap hub)(p := c)\<rparr>)"
| hub_serve: "hub_run hub \<Longrightarrow> fresh_request hub request \<Longrightarrow> hub_run (hubServe hub request)"
| hub_take: "hub_run hub \<Longrightarrow> wk_send (hub_heap hub p) = payload # queue
     \<Longrightarrow> hub_run (hub\<lparr>hub_heap := (hub_heap hub)(p := (hub_heap hub p)\<lparr>wk_send := queue\<rparr>)\<rparr>)"
| hub_close: "hub_run hub \<Longrightarrow> hub_run (shutdown hub p code reason)"
| hub_stop: "hub_run hub \<Longrightarrow> hub_run (hubShutdown hub userIDs)"

text \<open>Through one hub: every recipient's connections that have room take the envelope.\<close>

definition via_hub :: "webSocketHub \<Rightarrow> int \<Rightarrow> byte_string \<Rightarrow> (string + nat) \<times> webSocketHub" where
  "via_hub hub userID payload = hubPublish Answered hub userID payload"

text \<open>The users a well-formed event is for.\<close>

definition event_users :: "outboxEvent \<Rightarrow> int set" where
  "event_users event =
     (if ev_EventType event \<noteq> ''message.created'' then {}
      else case decodeMessageCreatedEvent event of
        Inl _ \<Rightarrow> {}
      | Inr payload \<Rightarrow> {m_SenderID (pl_Message payload), m_ReceiverID (pl_Message payload)})"

text \<open>A hub with three connections: two of user 7, the first with its queue full, and one of user 9.\<close>

definition small_client :: "int \<Rightarrow> int \<Rightarrow> string \<Rightarrow> webSocketClient" where
  "small_client u s k = \<lparr>wk_userID = u, wk_sessionID = s, wk_connectionID = k, wk_send = [], wk_SendBuffer = 1, wk_closed = None\<rparr>"

definition connect :: "nat \<Rightarrow> webSocketClient \<Rightarrow> webSocketHub \<Rightarrow> webSocketHub" where
  "connect p c hub = hubServe (hub\<lparr>hub_heap := (hub_heap hub)(p := c)\<rparr>) (RegisterRequest p)"

definition small_hub :: webSocketHub where
  "small_hub = connect 2 (small_client 9 31 ''c2'') (connect 1 (small_client 7 22 ''c1'')
     (hubServe (connect 0 (small_client 7 21 ''c0'') newWebSocketHub) (PublishRequest 7 ''old'')))"

definition small_event :: outboxEvent where
  "small_event = \<lparr>ev_EventID = 5, ev_EventType = ''message.created'', ev_PayloadVersion = 4, ev_MessageID = 1,
     ev_Payload = Some \<lparr>pl_Message = hello_message\<lparr>m_SenderID := 9, m_ReceiverID := 7\<rparr>,
       pl_Recipients = [\<lparr>rc_UserID = 9, rc_Cursor = 0\<rparr>, \<lparr>rc_UserID = 7, rc_Cursor = 0\<rparr>]\<rparr>,
     ev_AttemptCount = 1, ev_LockToken = 1, ev_ReadyAt = None\<rparr>"

section \<open>Entries and the removal of a client\<close>

lemma entries_update_heap [simp]: "entries (hub\<lparr>hub_heap := h\<rparr>) u = entries hub u"
  by (simp add: entries_def)

lemma entries_update_deliveries [simp]: "entries (hub\<lparr>hub_deliveries := d\<rparr>) u = entries hub u"
  by (simp add: entries_def)

lemma entries_shutdown [simp]: "entries (shutdown hub p code reason) u = entries hub u"
  by (simp add: shutdown_def)

lemma entries_observeDisconnect [simp]: "entries (observeDisconnect hub reason) u = entries hub u"
  by (simp add: observeDisconnect_def entries_def)

lemma well_keyedD:
  assumes "well_keyed hub" and "(k, p) \<in> set (entries hub u)"
  shows "wk_userID (hub_heap hub p) = u" and "wk_connectionID (hub_heap hub p) = k"
  using assms unfolding well_keyed_def by blast+

lemma distinct_entries: "well_keyed hub \<Longrightarrow> distinct (map fst (entries hub u))"
  unfolding well_keyed_def by blast

lemma registered_iff:
  assumes "well_keyed hub"
  shows "map_of (entries hub (wk_userID (hub_heap hub p))) (wk_connectionID (hub_heap hub p)) = Some p \<longleftrightarrow> registered hub p"
proof
  assume "map_of (entries hub (wk_userID (hub_heap hub p))) (wk_connectionID (hub_heap hub p)) = Some p"
  then show "registered hub p" unfolding registered_def by (force dest: map_of_SomeD)
next
  assume "registered hub p"
  then obtain k where k: "(k, p) \<in> set (entries hub (wk_userID (hub_heap hub p)))"
    unfolding registered_def by auto
  then have "k = wk_connectionID (hub_heap hub p)" using well_keyedD(2) [OF assms k] by simp
  then show "map_of (entries hub (wk_userID (hub_heap hub p))) (wk_connectionID (hub_heap hub p)) = Some p"
    using k distinct_entries [OF assms] by (simp add: map_of_is_SomeI)
qed

lemma registered_in_entries:
  assumes "well_keyed hub" and "(k, p) \<in> set (entries hub u)"
  shows "registered hub p"
  using assms well_keyedD(1) [OF assms] unfolding registered_def by force

text \<open>A removal takes the client out of the map, whoever asks, and leaves every other entry.\<close>

lemma entries_removeClient:
  assumes "well_keyed hub"
  shows "entries (removeClient hub p code reason) u = filter (\<lambda>(k, q). q \<noteq> p) (entries hub u)"
proof (cases "registered hub p")
  case False
  then have "removeClient hub p code reason = hub"
    by (simp add: removeClient_def Let_def registered_iff [OF assms])
  moreover have "\<forall>e \<in> set (entries hub u). snd e \<noteq> p"
    using False registered_in_entries [OF assms] by auto
  ultimately show ?thesis by (simp add: case_prod_beta filter_id_conv)
next
  case True
  let ?c = "hub_heap hub p"
  let ?m = "entries hub (wk_userID ?c)"
  have removed: "entries (removeClient hub p code reason) u =
    (if u = wk_userID ?c then filter (\<lambda>(k, _). k \<noteq> wk_connectionID ?c) ?m else entries hub u)"
    using True by (simp add: removeClient_def Let_def registered_iff [OF assms]) (simp add: entries_def)
  have key: "k \<noteq> wk_connectionID ?c \<longleftrightarrow> q \<noteq> p" if "(k, q) \<in> set ?m" for k q
  proof -
    have "map_of ?m k = Some q" using that distinct_entries [OF assms] by (simp add: map_of_is_SomeI)
    moreover have "map_of ?m (wk_connectionID ?c) = Some p" using True by (simp add: registered_iff [OF assms])
    ultimately have "k = wk_connectionID ?c \<Longrightarrow> q = p" by simp
    moreover have "q = p \<Longrightarrow> k = wk_connectionID ?c" using well_keyedD(2) [OF assms that] by simp
    ultimately show ?thesis by blast
  qed
  show ?thesis
  proof (cases "u = wk_userID ?c")
    case True
    then show ?thesis unfolding removed using key by (auto intro!: filter_cong)
  next
    case False
    then have "\<forall>e \<in> set (entries hub u). snd e \<noteq> p"
      using well_keyedD(1) [OF assms] by fastforce
    then show ?thesis unfolding removed using False by (simp add: case_prod_beta filter_id_conv)
  qed
qed

text \<open>Nothing but the close state of the removed client changes in the store.\<close>

lemma closing_fields [simp]:
  "wk_userID (closing code reason c) = wk_userID c" "wk_connectionID (closing code reason c) = wk_connectionID c"
  "wk_sessionID (closing code reason c) = wk_sessionID c" "wk_send (closing code reason c) = wk_send c"
  "wk_SendBuffer (closing code reason c) = wk_SendBuffer c" "wk_closed (closing code reason c) \<noteq> None"
  by (simp_all add: closing_def split: option.splits)

lemma heap_shutdown: "hub_heap (shutdown hub p code reason) = (hub_heap hub)(p := closing code reason (hub_heap hub p))"
  by (simp add: shutdown_def closing_def)

lemma heap_removeClient:
  assumes "well_keyed hub"
  shows "hub_heap (removeClient hub p code reason) =
    (if registered hub p then (hub_heap hub)(p := closing code reason (hub_heap hub p)) else hub_heap hub)"
  by (simp add: removeClient_def Let_def registered_iff [OF assms] observeDisconnect_def heap_shutdown)

lemma fields_removeClient:
  assumes "well_keyed hub"
  shows "wk_userID (hub_heap (removeClient hub p code reason) q) = wk_userID (hub_heap hub q)"
    and "wk_connectionID (hub_heap (removeClient hub p code reason) q) = wk_connectionID (hub_heap hub q)"
    and "wk_sessionID (hub_heap (removeClient hub p code reason) q) = wk_sessionID (hub_heap hub q)"
    and "wk_send (hub_heap (removeClient hub p code reason) q) = wk_send (hub_heap hub q)"
    and "wk_SendBuffer (hub_heap (removeClient hub p code reason) q) = wk_SendBuffer (hub_heap hub q)"
  by (simp_all add: heap_removeClient [OF assms])

lemma has_room_removeClient: "well_keyed hub \<Longrightarrow> has_room (removeClient hub p code reason) q = has_room hub q"
  by (simp add: has_room_def fields_removeClient)

lemma clients_removeClient:
  assumes "well_keyed hub"
  shows "hub_clients (removeClient hub p code reason) u \<noteq> Some []"
proof -
  have "hub_clients hub u \<noteq> Some []" using assms unfolding well_keyed_def by blast
  then show ?thesis by (simp add: removeClient_def Let_def observeDisconnect_def shutdown_def)
qed

lemma well_keyed_removeClient:
  assumes "well_keyed hub"
  shows "well_keyed (removeClient hub p code reason)"
  unfolding well_keyed_def
proof (intro allI conjI impI)
  fix u
  show "hub_clients (removeClient hub p code reason) u \<noteq> Some []" by (rule clients_removeClient [OF assms])
  show "distinct (map fst (entries (removeClient hub p code reason) u))"
    using distinct_entries [OF assms] by (simp add: entries_removeClient [OF assms] distinct_map_filter)
next
  fix u k q
  assume "(k, q) \<in> set (entries (removeClient hub p code reason) u)"
  then have "(k, q) \<in> set (entries hub u)" by (simp add: entries_removeClient [OF assms])
  then show "wk_userID (hub_heap (removeClient hub p code reason) q) = u"
    and "wk_connectionID (hub_heap (removeClient hub p code reason) q) = k"
    by (simp_all add: fields_removeClient [OF assms] well_keyedD [OF assms])
qed

lemma registered_removeClient:
  assumes "well_keyed hub"
  shows "registered (removeClient hub p code reason) q \<longleftrightarrow> registered hub q \<and> q \<noteq> p"
  unfolding registered_def by (force simp: entries_removeClient [OF assms] fields_removeClient [OF assms])

lemma hub_entries_removeClient:
  assumes "well_keyed hub"
  shows "hub_entries (removeClient hub p code reason) =
    hub_entries hub - (if registered hub p then {(wk_userID (hub_heap hub p), wk_connectionID (hub_heap hub p))} else {})"
proof (rule set_eqI)
  fix x :: "int \<times> string"
  obtain u k where x: "x = (u, k)" by (cases x)
  let ?r = "wk_userID (hub_heap hub p)" and ?k = "wk_connectionID (hub_heap hub p)"
  have after: "x \<in> hub_entries (removeClient hub p code reason) \<longleftrightarrow> (\<exists>q. (k, q) \<in> set (entries hub u) \<and> q \<noteq> p)"
    by (force simp: hub_entries_def x entries_removeClient [OF assms])
  have before: "x \<in> hub_entries hub \<longleftrightarrow> (\<exists>q. (k, q) \<in> set (entries hub u))"
    by (force simp: hub_entries_def x)
  have same: "(k, q) \<in> set (entries hub u) \<Longrightarrow> (k, q') \<in> set (entries hub u) \<Longrightarrow> q = q'" for q q'
    using distinct_entries [OF assms, of u] by (metis eq_key_imp_eq_value)
  have mine: "(k, p) \<in> set (entries hub u) \<longleftrightarrow> registered hub p \<and> u = ?r \<and> k = ?k"
  proof
    assume e: "(k, p) \<in> set (entries hub u)"
    show "registered hub p \<and> u = ?r \<and> k = ?k"
      using registered_in_entries [OF assms e] well_keyedD [OF assms e] by simp
  next
    assume r: "registered hub p \<and> u = ?r \<and> k = ?k"
    then have "map_of (entries hub u) k = Some p" using registered_iff [OF assms, of p] by simp
    then show "(k, p) \<in> set (entries hub u)" by (rule map_of_SomeD)
  qed
  show "x \<in> hub_entries (removeClient hub p code reason) \<longleftrightarrow>
    x \<in> hub_entries hub - (if registered hub p then {(?r, ?k)} else {})"
  proof (cases "(k, p) \<in> set (entries hub u)")
    case True
    then have "\<not> (\<exists>q. (k, q) \<in> set (entries hub u) \<and> q \<noteq> p)" using same by blast
    then have "x \<notin> hub_entries (removeClient hub p code reason)" using after by blast
    moreover have "x \<in> (if registered hub p then {(?r, ?k)} else {})"
      unfolding x using iffD1 [OF mine True] by (simp only: if_True singleton_iff prod.inject)
    ultimately show ?thesis by blast
  next
    case False
    then have "(\<exists>q. (k, q) \<in> set (entries hub u) \<and> q \<noteq> p) \<longleftrightarrow> (\<exists>q. (k, q) \<in> set (entries hub u))" by blast
    then have "x \<in> hub_entries (removeClient hub p code reason) \<longleftrightarrow> x \<in> hub_entries hub" using after before by blast
    moreover have "x \<notin> (if registered hub p then {(?r, ?k)} else {})"
      using False mine unfolding x by (simp only: singleton_iff prod.inject empty_iff split: if_split) blast
    ultimately show ?thesis by blast
  qed
qed

lemma hub_inv_removeClient:
  assumes "hub_inv hub"
  shows "hub_inv (removeClient hub p code reason)"
proof -
  have wk: "well_keyed hub" and fin: "finite (hub_entries hub)"
    and gauge: "hub_connections hub = int (card (hub_entries hub))"
    and room: "\<forall>q. length (wk_send (hub_heap hub q)) \<le> wk_SendBuffer (hub_heap hub q)"
    using assms unfolding hub_inv_def by blast+
  have conn: "hub_connections (removeClient hub p code reason) = hub_connections hub - (if registered hub p then 1 else 0)"
    by (simp add: removeClient_def Let_def registered_iff [OF wk] observeDisconnect_def shutdown_def)
  have "hub_connections (removeClient hub p code reason) = int (card (hub_entries (removeClient hub p code reason)))"
  proof (cases "registered hub p")
    case True
    let ?e = "(wk_userID (hub_heap hub p), wk_connectionID (hub_heap hub p))"
    have "?e \<in> hub_entries hub"
    proof -
      have "(wk_connectionID (hub_heap hub p), p) \<in> set (entries hub (wk_userID (hub_heap hub p)))"
        using True registered_iff [OF wk, of p] by (simp add: map_of_SomeD)
      then show ?thesis unfolding hub_entries_def by (simp add: rev_image_eqI)
    qed
    then have "0 < card (hub_entries hub)" and "card (hub_entries hub - {?e}) = card (hub_entries hub) - 1"
      using fin by (auto simp: card_gt_0_iff)
    then show ?thesis using True gauge by (simp add: conn hub_entries_removeClient [OF wk])
  next
    case False
    then show ?thesis using gauge by (simp add: conn hub_entries_removeClient [OF wk])
  qed
  then show ?thesis
    unfolding hub_inv_def using well_keyed_removeClient [OF wk] fin room
    by (simp add: hub_entries_removeClient [OF wk] fields_removeClient [OF wk])
qed

section \<open>Delivery\<close>

lemma entries_enqueue [simp]: "entries (enqueue hub p payload) u = entries hub u"
  by (simp add: enqueue_def)

lemma heap_enqueue:
  "hub_heap (enqueue hub p payload) = (hub_heap hub)(p := (hub_heap hub p)\<lparr>wk_send := wk_send (hub_heap hub p) @ [payload]\<rparr>)"
  by (simp add: enqueue_def)

lemma well_keyed_cong:
  assumes "well_keyed hub" and "hub_clients hub' = hub_clients hub"
    and "\<And>p. wk_userID (hub_heap hub' p) = wk_userID (hub_heap hub p)"
    and "\<And>p. wk_connectionID (hub_heap hub' p) = wk_connectionID (hub_heap hub p)"
  shows "well_keyed hub'"
  using assms unfolding well_keyed_def entries_def by simp

lemma hub_inv_cong:
  assumes "hub_inv hub" and "hub_clients hub' = hub_clients hub" and "hub_connections hub' = hub_connections hub"
    and "\<And>p. wk_userID (hub_heap hub' p) = wk_userID (hub_heap hub p)"
    and "\<And>p. wk_connectionID (hub_heap hub' p) = wk_connectionID (hub_heap hub p)"
    and "\<And>p. length (wk_send (hub_heap hub' p)) \<le> wk_SendBuffer (hub_heap hub' p)"
  shows "hub_inv hub'"
proof -
  have "hub_entries hub' = hub_entries hub" using assms(2) by (simp add: hub_entries_def entries_def)
  then show ?thesis
    using assms(1,3,6) well_keyed_cong [OF _ assms(2,4,5)] unfolding hub_inv_def by simp
qed

lemma hub_inv_room: "hub_inv hub \<Longrightarrow> length (wk_send (hub_heap hub p)) \<le> wk_SendBuffer (hub_heap hub p)"
  unfolding hub_inv_def by blast

lemma hub_inv_well_keyed: "hub_inv hub \<Longrightarrow> well_keyed hub"
  unfolding hub_inv_def by blast

lemma hub_inv_enqueue:
  assumes "hub_inv hub" and "has_room hub p"
  shows "hub_inv (enqueue hub p payload)"
  by (rule hub_inv_cong [OF assms(1)])
     (use assms(2) hub_inv_room [OF assms(1)] in \<open>simp_all add: enqueue_def has_room_def\<close>)

lemma hub_inv_deliveries: "hub_inv hub \<Longrightarrow> hub_inv (hub\<lparr>hub_deliveries := d\<rparr>)"
  by (rule hub_inv_cong) (simp_all add: hub_inv_room)

lemma registered_deliveries [simp]: "registered (hub\<lparr>hub_deliveries := d\<rparr>) p = registered hub p"
  by (simp add: registered_def)

lemma well_keyed_deliveries: "well_keyed hub \<Longrightarrow> well_keyed (hub\<lparr>hub_deliveries := d\<rparr>)"
  by (rule well_keyed_cong) simp_all

lemma deliver_one_inv: "hub_inv hub \<Longrightarrow> hub_inv (deliver_one payload p hub)"
  unfolding deliver_one_def using hub_inv_enqueue hub_inv_removeClient hub_inv_deliveries by simp

lemma deliver_one_entries:
  assumes "well_keyed hub"
  shows "entries (deliver_one payload p hub) u = filter (\<lambda>(k, q). has_room hub p \<or> q \<noteq> p) (entries hub u)"
  unfolding deliver_one_def by (simp add: entries_removeClient [OF well_keyed_deliveries [OF assms]])

lemma deliver_one_heap:
  assumes "well_keyed hub" and "registered hub p"
  shows "hub_heap (deliver_one payload p hub) = (hub_heap hub)(p := delivered_client payload hub p)"
  using assms(2) unfolding deliver_one_def delivered_client_def
  by (simp add: heap_enqueue heap_removeClient [OF well_keyed_deliveries [OF assms(1)]])

lemma deliver_one_registered:
  assumes "well_keyed hub" and "registered hub p" and "q \<noteq> p"
  shows "registered (deliver_one payload p hub) q = registered hub q"
  using assms(3) unfolding registered_def deliver_one_heap [OF assms(1,2)] deliver_one_entries [OF assms(1)]
  by force

lemma deliver_one_rest:
  assumes "hub_inv hub" and "distinct (p # ps)" and "\<forall>p' \<in> set (p # ps). registered hub p'"
  shows "\<And>q. q \<in> set ps \<Longrightarrow> hub_heap (deliver_one payload p hub) q = hub_heap hub q"
    and "\<And>q. q \<in> set ps \<Longrightarrow> has_room (deliver_one payload p hub) q = has_room hub q"
    and "\<forall>q \<in> set ps. registered (deliver_one payload p hub) q"
proof -
  note wk = hub_inv_well_keyed [OF assms(1)]
  have p: "registered hub p" using assms(3) by simp
  show same: "hub_heap (deliver_one payload p hub) q = hub_heap hub q" if "q \<in> set ps" for q
    using that assms(2) deliver_one_heap [OF wk p, of payload] by auto
  then show "has_room (deliver_one payload p hub) q = has_room hub q" if "q \<in> set ps" for q
    using that by (simp add: has_room_def)
  show "\<forall>q \<in> set ps. registered (deliver_one payload p hub) q"
  proof
    fix q
    assume "q \<in> set ps"
    then have "q \<noteq> p" and "registered hub q" using assms(2,3) by auto
    then show "registered (deliver_one payload p hub) q" using deliver_one_registered [OF wk p] by simp
  qed
qed

lemma deliverLoop_exact:
  assumes "hub_inv hub" and "distinct ps" and "\<forall>p \<in> set ps. registered hub p"
  shows "fst (deliverLoop payload ps hub n) = n + length (filter (has_room hub) ps)
    \<and> hub_inv (snd (deliverLoop payload ps hub n))
    \<and> (\<forall>u. entries (snd (deliverLoop payload ps hub n)) u = filter (\<lambda>(k, q). q \<in> set ps \<longrightarrow> has_room hub q) (entries hub u))
    \<and> (\<forall>q. hub_heap (snd (deliverLoop payload ps hub n)) q =
           (if q \<in> set ps then delivered_client payload hub q else hub_heap hub q))"
  using assms
proof (induction ps arbitrary: hub n)
  case Nil
  then show ?case by simp
next
  case (Cons p ps)
  let ?h = "deliver_one payload p hub"
  let ?n = "if has_room hub p then n + 1 else n"
  note wk = hub_inv_well_keyed [OF Cons.prems(1)]
  note rest = deliver_one_rest [OF Cons.prems, where payload = payload]
  have p: "registered hub p" "p \<notin> set ps" using Cons.prems(2,3) by simp_all
  have step: "deliverLoop payload (p # ps) hub n = deliverLoop payload ps ?h ?n"
    by (simp add: deliver_one_def)
  have "distinct ps" using Cons.prems(2) by simp
  note IH = Cons.IH [OF deliver_one_inv [OF Cons.prems(1)] this rest(3), of ?n]
  show ?case unfolding step
  proof (intro conjI allI)
    have "filter (has_room ?h) ps = filter (has_room hub) ps" using rest(2) by (intro filter_cong) auto
    then show "fst (deliverLoop payload ps ?h ?n) = n + length (filter (has_room hub) (p # ps))"
      using IH by simp
    show "hub_inv (snd (deliverLoop payload ps ?h ?n))" using IH by blast
  next
    fix u
    have "entries (snd (deliverLoop payload ps ?h ?n)) u =
        filter (\<lambda>(k, q). q \<in> set ps \<longrightarrow> has_room ?h q) (filter (\<lambda>(k, q). has_room hub p \<or> q \<noteq> p) (entries hub u))"
      using IH by (simp only: deliver_one_entries [OF wk])
    also have "\<dots> = filter (\<lambda>(k, q). q \<in> set (p # ps) \<longrightarrow> has_room hub q) (entries hub u)"
      unfolding filter_filter using rest(2) p(2) by (intro filter_cong) auto
    finally show "entries (snd (deliverLoop payload ps ?h ?n)) u =
        filter (\<lambda>(k, q). q \<in> set (p # ps) \<longrightarrow> has_room hub q) (entries hub u)" .
  next
    fix q
    have "hub_heap (snd (deliverLoop payload ps ?h ?n)) q = (if q \<in> set ps then delivered_client payload ?h q else hub_heap ?h q)"
      using IH by blast
    also have "\<dots> = (if q \<in> set (p # ps) then delivered_client payload hub q else hub_heap hub q)"
      using rest(1,2) deliver_one_heap [OF wk p(1), of payload] by (simp add: delivered_client_def p(2))
    finally show "hub_heap (snd (deliverLoop payload ps ?h ?n)) q =
      (if q \<in> set (p # ps) then delivered_client payload hub q else hub_heap hub q)" .
  qed
qed

lemma distinct_pointers:
  assumes "well_keyed hub"
  shows "distinct (map snd (entries hub u))"
proof -
  have "inj_on snd (set (entries hub u))"
  proof (rule inj_onI)
    fix x y
    assume "x \<in> set (entries hub u)" "y \<in> set (entries hub u)" "snd x = snd y"
    moreover obtain k k' p where "x = (k, p)" and "y = (k', p)" using \<open>snd x = snd y\<close> by (metis prod.collapse)
    ultimately show "x = y" using well_keyedD(2) [OF assms] by (metis prod.inject)
  qed
  moreover have "distinct (entries hub u)" using distinct_entries [OF assms] by (rule distinct_mapD)
  ultimately show ?thesis by (simp add: distinct_map)
qed

lemma pointers_registered: "well_keyed hub \<Longrightarrow> \<forall>p \<in> set (map snd (entries hub u)). registered hub p"
  using registered_in_entries by auto

lemma pointer_of_user:
  assumes "well_keyed hub" and "(k, q) \<in> set (entries hub v)"
  shows "q \<in> snd ` set (entries hub u) \<longleftrightarrow> v = u"
proof
  assume "q \<in> snd ` set (entries hub u)"
  then obtain k' where "(k', q) \<in> set (entries hub u)" by auto
  then show "v = u" using well_keyedD(1) [OF assms] well_keyedD(1) [OF assms(1)] by metis
next
  assume "v = u"
  then show "q \<in> snd ` set (entries hub u)" using assms(2) by force
qed

lemma deliver_exact:
  assumes inv: "hub_inv hub"
  shows "fst (deliver hub u payload) = length (filter (\<lambda>(k, p). has_room hub p) (entries hub u))"
    and "hub_inv (snd (deliver hub u payload))"
    and "entries (snd (deliver hub u payload)) v =
           (if v = u then filter (\<lambda>(k, p). has_room hub p) (entries hub u) else entries hub v)"
    and "hub_heap (snd (deliver hub u payload)) p =
           (if p \<in> snd ` set (entries hub u) then delivered_client payload hub p else hub_heap hub p)"
proof -
  let ?h = "if entries hub u = [] then hub\<lparr>hub_deliveries := hub_deliveries hub @ [''no_connection'']\<rparr> else hub"
  let ?ps = "map snd (entries hub u)"
  note wk = hub_inv_well_keyed [OF inv]
  have inv': "hub_inv ?h" using inv hub_inv_deliveries by simp
  have reg: "\<forall>p \<in> set ?ps. registered ?h p" using pointers_registered [OF wk, of u] by simp
  have same: "entries ?h v = entries hub v" "hub_heap ?h = hub_heap hub" "has_room ?h = has_room hub" for v
    by (auto simp: has_room_def)
  note loop = deliverLoop_exact [OF inv' distinct_pointers [OF wk, of u] reg, of payload 0, unfolded same]
  have loop_eq: "deliver hub u payload = deliverLoop payload ?ps ?h 0"
    by (simp add: deliver_def Let_def)
  have "fst (deliver hub u payload) = length (filter (has_room hub) ?ps)"
    using loop by (simp add: loop_eq)
  then show "fst (deliver hub u payload) = length (filter (\<lambda>(k, p). has_room hub p) (entries hub u))"
    by (simp add: filter_map comp_def case_prod_unfold)
  show "hub_inv (snd (deliver hub u payload))" using loop unfolding loop_eq by blast
  have "entries (snd (deliver hub u payload)) v = filter (\<lambda>(k, q). q \<in> set ?ps \<longrightarrow> has_room hub q) (entries hub v)"
    using loop unfolding loop_eq by blast
  also have "\<dots> = filter (\<lambda>(k, q). v = u \<longrightarrow> has_room hub q) (entries hub v)"
    using pointer_of_user [OF wk, of _ _ v u] by (intro filter_cong) auto
  also have "\<dots> = (if v = u then filter (\<lambda>(k, p). has_room hub p) (entries hub u) else entries hub v)"
    by (simp add: case_prod_beta)
  finally show "entries (snd (deliver hub u payload)) v =
     (if v = u then filter (\<lambda>(k, p). has_room hub p) (entries hub u) else entries hub v)" .
  show "hub_heap (snd (deliver hub u payload)) p =
     (if p \<in> snd ` set (entries hub u) then delivered_client payload hub p else hub_heap hub p)"
    using loop by (simp add: loop_eq)
qed

section \<open>Disconnection\<close>

abbreviation targets :: "int \<Rightarrow> webSocketHub \<Rightarrow> nat \<Rightarrow> bool" where
  "targets sessionID hub q \<equiv> sessionID = 0 \<or> wk_sessionID (hub_heap hub q) = sessionID"

text \<open>One connection, removed when it is of the session.\<close>

lemma remove_target:
  fixes sessionID code :: int and reason :: string and p :: nat
  assumes inv: "hub_inv hub"
  defines "hub' \<equiv> if targets sessionID hub p then removeClient hub p code reason else hub"
  shows "hub_inv hub'" and "wk_sessionID (hub_heap hub' q) = wk_sessionID (hub_heap hub q)"
    and "entries hub' v = filter (\<lambda>(k, q). \<not> (q = p \<and> targets sessionID hub q)) (entries hub v)"
    and "wk_closed (hub_heap hub q) \<noteq> None \<or> (q = p \<and> registered hub q \<and> targets sessionID hub q) \<Longrightarrow>
           wk_closed (hub_heap hub' q) \<noteq> None"
    and "registered hub q \<Longrightarrow> q \<noteq> p \<Longrightarrow> registered hub' q"
proof -
  note wk = hub_inv_well_keyed [OF inv]
  show "hub_inv hub'" using inv hub_inv_removeClient by (simp add: hub'_def)
  show "wk_sessionID (hub_heap hub' q) = wk_sessionID (hub_heap hub q)" by (simp add: hub'_def fields_removeClient [OF wk])
  show "entries hub' v = filter (\<lambda>(k, q). \<not> (q = p \<and> targets sessionID hub q)) (entries hub v)"
  proof (cases "targets sessionID hub p")
    case True
    then show ?thesis unfolding hub'_def by (auto simp: entries_removeClient [OF wk] intro!: filter_cong)
  next
    case False
    then have "\<forall>e \<in> set (entries hub v). \<not> (snd e = p \<and> targets sessionID hub (snd e))" by auto
    then show ?thesis using False unfolding hub'_def by (simp add: case_prod_beta filter_id_conv)
  qed
  show "wk_closed (hub_heap hub' q) \<noteq> None"
    if "wk_closed (hub_heap hub q) \<noteq> None \<or> (q = p \<and> registered hub q \<and> targets sessionID hub q)"
    using that closing_fields(6) by (auto simp: hub'_def heap_removeClient [OF wk] simp del: not_None_eq)
  show "registered hub' q" if "registered hub q" "q \<noteq> p"
    using that registered_removeClient [OF wk] by (simp add: hub'_def)
qed

lemma removeAll_matching:
  fixes sessionID code :: int and reason :: string
  assumes "hub_inv hub"
  defines "f \<equiv> \<lambda>p h. if targets sessionID h p then removeClient h p code reason else h"
  shows "hub_inv (fold f ps hub)
    \<and> (\<forall>v. entries (fold f ps hub) v = filter (\<lambda>(k, q). \<not> (q \<in> set ps \<and> targets sessionID hub q)) (entries hub v))
    \<and> (\<forall>q. wk_sessionID (hub_heap (fold f ps hub) q) = wk_sessionID (hub_heap hub q)
         \<and> (wk_closed (hub_heap hub q) \<noteq> None \<longrightarrow> wk_closed (hub_heap (fold f ps hub) q) \<noteq> None)
         \<and> (q \<in> set ps \<and> registered hub q \<and> targets sessionID hub q \<longrightarrow> wk_closed (hub_heap (fold f ps hub) q) \<noteq> None))"
  using assms(1)
proof (induction ps arbitrary: hub)
  case Nil
  then show ?case by (simp add: case_prod_beta)
next
  case (Cons p ps)
  have f: "(if targets sessionID hub p then removeClient hub p code reason else hub) = f p hub" by (simp add: f_def)
  note step = remove_target [where sessionID = sessionID and p = p and code = code and reason = reason, OF Cons.prems, unfolded f]
  note IH = Cons.IH [OF step(1)]
  have fold: "fold f (p # ps) hub = fold f ps (f p hub)" by simp
  show ?case unfolding fold
  proof (intro conjI allI impI)
    show "hub_inv (fold f ps (f p hub))" using IH by blast
  next
    fix v
    have "entries (fold f ps (f p hub)) v = filter (\<lambda>(k, q). \<not> (q \<in> set ps \<and> targets sessionID hub q)) (entries (f p hub) v)"
      using IH by (simp only: step(2))
    then show "entries (fold f ps (f p hub)) v =
        filter (\<lambda>(k, q). \<not> (q \<in> set (p # ps) \<and> targets sessionID hub q)) (entries hub v)"
      by (simp only: step(3) filter_filter) (auto intro!: filter_cong)
  next
    fix q
    show "wk_sessionID (hub_heap (fold f ps (f p hub)) q) = wk_sessionID (hub_heap hub q)" using IH by (simp only: step(2))
    show "wk_closed (hub_heap (fold f ps (f p hub)) q) \<noteq> None" if "wk_closed (hub_heap hub q) \<noteq> None"
      using that step(4) IH by blast
    show "wk_closed (hub_heap (fold f ps (f p hub)) q) \<noteq> None"
      if "q \<in> set (p # ps) \<and> registered hub q \<and> targets sessionID hub q"
      using that step(2,4,5) IH by (metis set_ConsD)
  qed
qed

lemma disconnectMatching_exact:
  assumes inv: "hub_inv hub"
  shows "hub_inv (disconnectMatching hub u s)"
    and "entries (disconnectMatching hub u s) v =
           filter (\<lambda>(k, q). \<not> (v = u \<and> (s = 0 \<or> wk_sessionID (hub_heap hub q) = s))) (entries hub v)"
    and "(k, q) \<in> set (entries hub u) \<Longrightarrow> s = 0 \<or> wk_sessionID (hub_heap hub q) = s \<Longrightarrow>
           wk_closed (hub_heap (disconnectMatching hub u s) q) \<noteq> None"
proof -
  note wk = hub_inv_well_keyed [OF inv]
  note all = removeAll_matching [OF inv, of s StatusPolicyViolation "''session revoked''" "map snd (entries hub u)",
      folded disconnectMatching_def]
  show "hub_inv (disconnectMatching hub u s)" using all by blast
  have "entries (disconnectMatching hub u s) v = filter (\<lambda>(k, q). \<not> (q \<in> set (map snd (entries hub u)) \<and>
      (s = 0 \<or> wk_sessionID (hub_heap hub q) = s))) (entries hub v)"
    using all by blast
  also have "\<dots> = filter (\<lambda>(k, q). \<not> (v = u \<and> (s = 0 \<or> wk_sessionID (hub_heap hub q) = s))) (entries hub v)"
    using pointer_of_user [OF wk, of _ _ v u] by (intro filter_cong) auto
  finally show "entries (disconnectMatching hub u s) v =
     filter (\<lambda>(k, q). \<not> (v = u \<and> (s = 0 \<or> wk_sessionID (hub_heap hub q) = s))) (entries hub v)" .
  assume q: "(k, q) \<in> set (entries hub u)" and match: "s = 0 \<or> wk_sessionID (hub_heap hub q) = s"
  have "q \<in> set (map snd (entries hub u))" using q by force
  then show "wk_closed (hub_heap (disconnectMatching hub u s) q) \<noteq> None"
    using all match registered_in_entries [OF wk q] by blast
qed

section \<open>The invariant in every run\<close>

lemma hub_inv_new: "hub_inv newWebSocketHub"
  by (simp add: hub_inv_def well_keyed_def hub_entries_def entries_def newWebSocketHub_def)

lemma newWebSocketClient_queue: "newWebSocketClient u s k c config = Inr x \<Longrightarrow> wk_send x = []"
  by (auto simp: newWebSocketClient_def split: if_splits)

lemma hub_inv_alloc:
  assumes "hub_inv hub" and "wk_send c = []" and "\<forall>v. p \<notin> snd ` set (entries hub v)"
  shows "hub_inv (hub\<lparr>hub_heap := (hub_heap hub)(p := c)\<rparr>)"
proof -
  have other: "q \<noteq> p" if "(k, q) \<in> set (entries hub v)" for k q v
    using that assms(3) by force
  have "well_keyed hub" using assms(1) by (rule hub_inv_well_keyed)
  then have "well_keyed (hub\<lparr>hub_heap := (hub_heap hub)(p := c)\<rparr>)"
    unfolding well_keyed_def using other by (simp add: fun_upd_other)
  moreover have "hub_entries (hub\<lparr>hub_heap := (hub_heap hub)(p := c)\<rparr>) = hub_entries hub"
    by (simp add: hub_entries_def)
  ultimately show ?thesis using assms(1,2) unfolding hub_inv_def by simp
qed

lemma hub_inv_register:
  assumes "hub_inv hub" and "fresh_request hub (RegisterRequest p)"
  shows "hub_inv (hubRegister hub p)"
proof -
  let ?u = "wk_userID (hub_heap hub p)" and ?k = "wk_connectionID (hub_heap hub p)"
  note wk = hub_inv_well_keyed [OF assms(1)]
  have fresh: "?k \<notin> fst ` set (entries hub ?u)" using assms(2) by (simp add: fresh_request_def)
  have heap: "hub_heap (hubRegister hub p) = hub_heap hub" by (simp add: hubRegister_def Let_def)
  have entries: "entries (hubRegister hub p) v = (if v = ?u then entries hub ?u @ [(?k, p)] else entries hub v)" for v
    using fresh by (simp add: hubRegister_def Let_def put_entry_def entries_def)
  have clients: "hub_clients (hubRegister hub p) v \<noteq> Some []" for v
    using wk fresh by (simp add: well_keyed_def hubRegister_def Let_def put_entry_def)
  have "well_keyed (hubRegister hub p)"
    unfolding well_keyed_def
  proof (intro allI conjI impI)
    fix v
    show "hub_clients (hubRegister hub p) v \<noteq> Some []" by (rule clients)
    show "distinct (map fst (Hub.entries (hubRegister hub p) v))"
      using distinct_entries [OF wk] fresh by (simp add: entries)
  next
    fix v k q
    assume "(k, q) \<in> set (Hub.entries (hubRegister hub p) v)"
    then have "(k, q) \<in> set (Hub.entries hub v) \<or> (v = ?u \<and> k = ?k \<and> q = p)"
      unfolding entries by (simp split: if_splits) blast
    then show "wk_userID (hub_heap (hubRegister hub p) q) = v" and "wk_connectionID (hub_heap (hubRegister hub p) q) = k"
      unfolding heap using well_keyedD [OF wk] by blast+
  qed
  moreover have "hub_entries (hubRegister hub p) = insert (?u, ?k) (hub_entries hub)"
    by (auto simp: hub_entries_def entries split: if_splits)
  moreover have "(?u, ?k) \<notin> hub_entries hub" using fresh by (simp add: hub_entries_def)
  moreover have "hub_connections (hubRegister hub p) = hub_connections hub + 1"
    by (simp add: hubRegister_def Let_def)
  ultimately show ?thesis using assms(1) unfolding hub_inv_def by (simp add: heap)
qed

lemma hub_inv_serve:
  assumes "hub_inv hub" and "fresh_request hub request"
  shows "hub_inv (hubServe hub request)"
proof (cases request)
  case (RegisterRequest p)
  then show ?thesis using assms hub_inv_register by (simp add: hubServe_def)
next
  case (DisconnectConnectionRequest u c)
  then show ?thesis
    using assms(1) hub_inv_removeClient by (simp add: hubServe_def disconnectOne_def split: option.split)
qed (simp_all add: hubServe_def hub_inv_removeClient deliver_exact(2) disconnectMatching_exact(1) assms(1))

lemma hub_inv_shutdown: "hub_inv hub \<Longrightarrow> hub_inv (shutdown hub p code reason)"
  by (rule hub_inv_cong [where hub = hub]) (simp_all add: heap_shutdown hub_inv_room, simp_all add: shutdown_def)

lemma stop_fold_heap:
  "wk_send (hub_heap (fold (\<lambda>p h. shutdown (observeDisconnect h r) p code reason) ps hub) q) = wk_send (hub_heap hub q)
   \<and> wk_SendBuffer (hub_heap (fold (\<lambda>p h. shutdown (observeDisconnect h r) p code reason) ps hub) q) = wk_SendBuffer (hub_heap hub q)"
  by (induction ps arbitrary: hub) (simp_all add: heap_shutdown observeDisconnect_def)

lemma hub_inv_stop:
  assumes "hub_inv hub"
  shows "hub_inv (hubShutdown hub userIDs)"
proof -
  have "\<forall>q. length (wk_send (hub_heap (hubShutdown hub userIDs) q)) \<le> wk_SendBuffer (hub_heap (hubShutdown hub userIDs) q)"
    unfolding hubShutdown_def using hub_inv_room [OF assms] by (simp add: stop_fold_heap)
  then show ?thesis
    by (simp add: hub_inv_def well_keyed_def hub_entries_def) (simp add: hubShutdown_def entries_def)
qed

lemma hub_run_inv: "hub_run hub \<Longrightarrow> hub_inv hub"
proof (induction rule: hub_run.induct)
  case (hub_alloc hub u s k config c p)
  then show ?case using hub_inv_alloc newWebSocketClient_queue by blast
next
  case (hub_take hub p payload queue)
  have "length (wk_send (hub_heap hub p)) \<le> wk_SendBuffer (hub_heap hub p)" using hub_take.IH by (rule hub_inv_room)
  then show ?case
    by (intro hub_inv_cong [OF hub_take.IH]) (use hub_take.hyps hub_inv_room [OF hub_take.IH] in simp_all)
qed (simp_all add: hub_inv_new hub_inv_serve hub_inv_shutdown hub_inv_stop)

section \<open>The publisher\<close>

lemma checkRecipients_ok:
  "checkRecipients expected rs seen = Inr seen' \<Longrightarrow>
     seen' = seen \<union> rc_UserID ` set rs \<and> distinct (map rc_UserID rs) \<and> rc_UserID ` set rs \<inter> seen = {}
     \<and> rc_UserID ` set rs \<subseteq> expected \<and> (\<forall>r \<in> set rs. 0 < rc_UserID r)"
proof (induction rs arbitrary: seen)
  case Nil
  then show ?case by simp
next
  case (Cons r rs)
  then have ok: "0 < rc_UserID r" "rc_UserID r \<in> expected" "rc_UserID r \<notin> seen"
    and rest: "checkRecipients expected rs (insert (rc_UserID r) seen) = Inr seen'"
    by (simp_all split: if_splits)
  show ?case using Cons.IH [OF rest] ok by auto
qed

lemma decode_recipients:
  assumes "decodeMessageCreatedEvent event = Inr payload"
  shows "rc_UserID ` set (pl_Recipients payload) = {m_SenderID (pl_Message payload), m_ReceiverID (pl_Message payload)}"
    and "distinct (map rc_UserID (pl_Recipients payload))"
    and "\<forall>r \<in> set (pl_Recipients payload). rc_Cursor r = 0 \<and> 0 < rc_UserID r"
    and "ev_Payload event = Some payload"
proof -
  let ?m = "pl_Message payload"
  obtain seen where p: "ev_Payload event = Some payload"
    and seen: "checkRecipients {m_SenderID ?m, m_ReceiverID ?m} (pl_Recipients payload) {} = Inr seen"
    and "card seen = card {m_SenderID ?m, m_ReceiverID ?m}"
    and cursor: "\<not> list_ex (\<lambda>r. rc_Cursor r \<noteq> 0) (pl_Recipients payload)"
    using assms unfolding decodeMessageCreatedEvent_def
    by (auto simp: Let_def split: if_splits option.splits sum.splits)
  moreover have "seen \<subseteq> {m_SenderID ?m, m_ReceiverID ?m}" "seen = rc_UserID ` set (pl_Recipients payload)"
    using checkRecipients_ok [OF seen] by auto
  ultimately show "rc_UserID ` set (pl_Recipients payload) = {m_SenderID ?m, m_ReceiverID ?m}"
    by (metis card_subset_eq finite.emptyI finite.insertI)
  show "distinct (map rc_UserID (pl_Recipients payload))" using checkRecipients_ok [OF seen] by blast
  show "\<forall>r \<in> set (pl_Recipients payload). rc_Cursor r = 0 \<and> 0 < rc_UserID r"
    using checkRecipients_ok [OF seen] cursor by (auto simp: list_ex_iff)
  show "ev_Payload event = Some payload" by (rule p)
qed

lemma publishRecipients_error:
  "fst (publishRecipients route marshal event payload rs s) = Some err \<Longrightarrow>
     is_permanent err \<longrightarrow> (\<exists>r \<in> set rs. \<exists>e. marshal (envelope_for event payload r) = Inl e)"
  by (induction rs arbitrary: s)
     (auto simp: permanentPublishError_def retryablePublishError_def is_permanent_def split: sum.splits prod.splits)

lemma via_hub_eq: "via_hub hub u payload = (Inr (fst (deliver hub u payload)), snd (deliver hub u payload))"
  by (simp add: via_hub_def hubPublish_def hubCall_def hubServe_def)

lemma mem_pointers_iff:
  assumes "well_keyed hub"
  shows "p \<in> snd ` set (entries hub u) \<longleftrightarrow> registered hub p \<and> wk_userID (hub_heap hub p) = u"
proof
  assume "p \<in> snd ` set (entries hub u)"
  then obtain k where "(k, p) \<in> set (entries hub u)" by auto
  then show "registered hub p \<and> wk_userID (hub_heap hub p) = u"
    using registered_in_entries [OF assms] well_keyedD(1) [OF assms] by blast
next
  assume "registered hub p \<and> wk_userID (hub_heap hub p) = u"
  then show "p \<in> snd ` set (entries hub u)" unfolding registered_def by blast
qed

lemma deliver_heap:
  assumes "hub_inv hub"
  shows "hub_heap (snd (deliver hub u payload)) p =
    (if registered hub p \<and> wk_userID (hub_heap hub p) = u then delivered_client payload hub p else hub_heap hub p)"
  by (simp add: deliver_exact(4) [OF assms] mem_pointers_iff [OF hub_inv_well_keyed [OF assms]])

lemma delivered_client_userID [simp]: "wk_userID (delivered_client payload hub p) = wk_userID (hub_heap hub p)"
  by (simp add: delivered_client_def)

lemma deliver_other_user:
  assumes "hub_inv hub" and "wk_userID (hub_heap hub p) \<noteq> u"
  shows "hub_heap (snd (deliver hub u payload)) p = hub_heap hub p"
    and "registered (snd (deliver hub u payload)) p = registered hub p"
  using assms by (simp_all add: registered_def deliver_heap deliver_exact(3))

lemma publishRecipients_via_hub:
  assumes "hub_inv hub" and "distinct (map rc_UserID rs)" and "\<forall>r \<in> set rs. marshal (envelope_for event payload r) = Inr frame"
  shows "fst (publishRecipients via_hub marshal event payload rs hub) = None
    \<and> (\<forall>p. hub_heap (snd (publishRecipients via_hub marshal event payload rs hub)) p =
           (if registered hub p \<and> wk_userID (hub_heap hub p) \<in> rc_UserID ` set rs
            then delivered_client frame hub p else hub_heap hub p))"
  using assms
proof (induction rs arbitrary: hub)
  case Nil
  then show ?case by simp
next
  case (Cons r rs)
  let ?u = "rc_UserID r"
  let ?h = "snd (deliver hub ?u frame)"
  have frame: "marshal (envelope_for event payload r) = Inr frame" using Cons.prems(3) by simp
  have step: "publishRecipients via_hub marshal event payload (r # rs) hub = publishRecipients via_hub marshal event payload rs ?h"
    by (simp add: frame via_hub_eq)
  have prems: "distinct (map rc_UserID rs)" "\<forall>r \<in> set rs. marshal (envelope_for event payload r) = Inr frame" "?u \<notin> rc_UserID ` set rs"
    using Cons.prems(2,3) by auto
  note IH = Cons.IH [OF deliver_exact(2) [OF Cons.prems(1), of ?u frame] prems(1,2)]
  show ?case unfolding step
  proof (intro conjI allI)
    show "fst (publishRecipients via_hub marshal event payload rs ?h) = None" using IH by blast
  next
    fix p
    have final: "hub_heap (snd (publishRecipients via_hub marshal event payload rs ?h)) p =
      (if registered ?h p \<and> wk_userID (hub_heap ?h p) \<in> rc_UserID ` set rs then delivered_client frame ?h p else hub_heap ?h p)"
      using IH by blast
    show "hub_heap (snd (publishRecipients via_hub marshal event payload rs ?h)) p =
      (if registered hub p \<and> wk_userID (hub_heap hub p) \<in> rc_UserID ` set (r # rs)
       then delivered_client frame hub p else hub_heap hub p)"
    proof (cases "wk_userID (hub_heap hub p) = ?u")
      case True
      then show ?thesis using prems(3) by (simp add: final deliver_heap [OF Cons.prems(1)])
    next
      case False
      note other = deliver_other_user [OF Cons.prems(1) False, of frame]
      have "delivered_client frame ?h p = delivered_client frame hub p"
        using other(1) by (simp add: delivered_client_def has_room_def)
      then show ?thesis using False by (simp add: final other)
    qed
  qed
qed

lemma addUsers_set: "set (addUsers rs userIDs) = set userIDs \<union> rc_UserID ` set rs"
  by (induction rs arbitrary: userIDs) auto

lemma addUsers_distinct: "distinct userIDs \<Longrightarrow> distinct (addUsers rs userIDs)"
  by (induction rs arbitrary: userIDs) auto

lemma batchUsers_core:
  "distinct userIDs \<Longrightarrow> distinct (batchUsers events userIDs)
   \<and> set (batchUsers events userIDs) = set userIDs \<union> (\<Union>event \<in> set events. event_users event)"
proof (induction events arbitrary: userIDs)
  case (Cons event events)
  show ?case
  proof (cases "ev_EventType event = ''message.created''")
    case True
    show ?thesis
    proof (cases "decodeMessageCreatedEvent event")
      case (Inl err)
      then show ?thesis using True Cons.IH [OF Cons.prems] by (simp add: event_users_def)
    next
      case (Inr payload)
      let ?us = "addUsers (pl_Recipients payload) userIDs"
      have step: "batchUsers (event # events) userIDs = batchUsers events ?us" using True Inr by simp
      have "set ?us = set userIDs \<union> event_users event"
        using True Inr by (simp add: addUsers_set decode_recipients(1) [OF Inr] event_users_def)
      then show ?thesis unfolding step using Cons.IH [OF addUsers_distinct [OF Cons.prems, of "pl_Recipients payload"]]
        by (simp only: list.set UN_insert Un_assoc simp_thms)
    qed
  next
    case False
    then show ?thesis using Cons.IH [OF Cons.prems] by (simp add: event_users_def)
  qed
qed simp

lemma writePump_prefix:
  "writePump events queue written = (err, rest, out) \<Longrightarrow>
   \<exists>sent lost. out = written @ sent \<and> queue = sent @ lost @ rest \<and> length lost \<le> 1 \<and> (err = None \<longrightarrow> lost = [])"
proof (induction events queue written rule: writePump.induct)
  case (3 result events queue written)
  show ?case
  proof (cases queue)
    case Nil
    then show ?thesis using 3 by simp
  next
    case (Cons payload queue')
    show ?thesis
    proof (cases result)
      case None
      have "writePump events queue' (written @ [payload]) = (err, rest, out)"
        using "3.prems" Cons None by simp
      then obtain sent lost where "out = (written @ [payload]) @ sent" "queue' = sent @ lost @ rest" "length lost \<le> 1"
        "err = None \<longrightarrow> lost = []"
        using "3.IH"(2) [OF Cons None] by blast
      then show ?thesis using Cons by (intro exI [of _ "payload # sent"] exI [of _ lost]) simp
    next
      case (Some e)
      then show ?thesis using "3.prems" Cons by (intro exI [of _ "[]"] exI [of _ "[payload]"]) auto
    qed
  qed
qed (auto split: option.splits)

section \<open>Properties\<close>

text \<open>
  C19: In every run of the hub, whatever requests it serves in whatever order and however the write
  loops and shutdowns interleave with them, the invariant holds: each entry leads to the
  connection it is keyed by, no user keeps an empty map, the gauge is the number of connections,
  and no queue holds more than its capacity.
\<close>

theorem hub_is_consistent: "hub_run hub \<Longrightarrow> hub_inv hub"
  by (rule hub_run_inv)

text \<open>
  A delivery counts exactly the connections of the receiver whose queue had room. Each of
  these has the payload appended once, every other connection of the receiver is removed and
  closed as a slow client, and no connection of another user is touched.
\<close>

theorem delivery_is_exact:
  assumes "hub_run hub" and "deliver hub receiverID payload = (delivered, hub')"
  shows "delivered = length (filter (\<lambda>(k, p). has_room hub p) (entries hub receiverID))
    \<and> (\<forall>v. entries hub' v = (if v = receiverID then filter (\<lambda>(k, p). has_room hub p) (entries hub v) else entries hub v))
    \<and> (\<forall>p. hub_heap hub' p =
      (if registered hub p \<and> wk_userID (hub_heap hub p) = receiverID
       then (if has_room hub p then (hub_heap hub p)\<lparr>wk_send := wk_send (hub_heap hub p) @ [payload]\<rparr>
             else closing StatusPolicyViolation ''slow client'' (hub_heap hub p))
       else hub_heap hub p))"
  using deliver_exact(1,3) [OF hub_run_inv [OF assms(1)], of receiverID payload]
    deliver_heap [OF hub_run_inv [OF assms(1)], of receiverID payload] assms(2)
  by (simp add: delivered_client_def)

text \<open>
  Disconnecting a session (or, with session 0, a whole user) leaves no connection of that
  session in the hub, closes each of them, and keeps every other connection.
\<close>

theorem revoked_session_is_cut_off:
  assumes "hub_run hub" and "hub' = disconnectMatching hub userID sessionID"
  shows "((k, p) \<in> set (entries hub' v) \<longleftrightarrow>
      (k, p) \<in> set (entries hub v) \<and> \<not> (v = userID \<and> (sessionID = 0 \<or> wk_sessionID (hub_heap hub p) = sessionID)))
    \<and> ((k, p) \<in> set (entries hub userID) \<and> (sessionID = 0 \<or> wk_sessionID (hub_heap hub p) = sessionID) \<longrightarrow>
      wk_closed (hub_heap hub' p) \<noteq> None)"
proof (intro conjI impI)
  note exact = disconnectMatching_exact(2,3) [OF hub_run_inv [OF assms(1)]]
  show "(k, p) \<in> set (entries hub' v) \<longleftrightarrow>
      (k, p) \<in> set (entries hub v) \<and> \<not> (v = userID \<and> (sessionID = 0 \<or> wk_sessionID (hub_heap hub p) = sessionID))"
    by (simp add: assms(2) exact(1))
  assume "(k, p) \<in> set (entries hub userID) \<and> (sessionID = 0 \<or> wk_sessionID (hub_heap hub p) = sessionID)"
  then show "wk_closed (hub_heap hub' p) \<noteq> None" unfolding assms(2) using exact(2) by blast
qed

text \<open>
  Publishing a well-formed event through the hub succeeds and hands the encoded envelope to
  every registered connection of the sender and of the receiver: appended once where the queue
  has room, otherwise the connection is closed. No other connection changes.
\<close>

theorem publish_reaches_both_parties:
  assumes "hub_run hub" and "ev_EventType event = ''message.created''"
    and "decodeMessageCreatedEvent event = Inr payload"
    and "\<forall>r. marshal (envelope_for event payload r) = Inr frame"
    and "publisherPublish via_hub marshal event hub = (err, hub')"
  shows "err = None \<and> (\<forall>p. hub_heap hub' p =
      (if registered hub p \<and> wk_userID (hub_heap hub p) \<in> {m_SenderID (pl_Message payload), m_ReceiverID (pl_Message payload)}
       then (if has_room hub p then (hub_heap hub p)\<lparr>wk_send := wk_send (hub_heap hub p) @ [frame]\<rparr>
             else closing StatusPolicyViolation ''slow client'' (hub_heap hub p))
       else hub_heap hub p))"
proof -
  have pub: "publisherPublish via_hub marshal event hub =
      publishRecipients via_hub marshal event payload (pl_Recipients payload) hub"
    using assms(2,3) by (simp add: publisherPublish_def)
  note core = publishRecipients_via_hub [where event = event and payload = payload and marshal = marshal and frame = frame,
      OF hub_run_inv [OF assms(1)] decode_recipients(2) [OF assms(3)]]
  have "fst (err, hub') = None \<and> (\<forall>p. hub_heap (snd (err, hub')) p =
      (if registered hub p \<and> wk_userID (hub_heap hub p) \<in> rc_UserID ` set (pl_Recipients payload)
       then delivered_client frame hub p else hub_heap hub p))"
    unfolding assms(5) [symmetric] pub by (rule core) (use assms(4) in blast)
  then show ?thesis
    unfolding decode_recipients(1) [OF assms(3)] delivered_client_def fst_conv snd_conv .
qed

text \<open>
  The users whose presence is looked up for a batch are, each once, exactly the senders and
  receivers of the well-formed events in it; a malformed event does not hide the others.
\<close>

theorem batch_names_every_recipient:
  "distinct (batchUsers events []) \<and> set (batchUsers events []) = (\<Union>event \<in> set events. event_users event)"
  using batchUsers_core [of "[]"] by simp

text \<open>
  The write loop sends the queue in order: what it has written is a prefix of what was
  queued, and at most one frame, the one whose write failed, is neither written nor left.
\<close>

theorem write_loop_sends_in_order:
  assumes "writePump events queue [] = (err, rest, out)"
  shows "\<exists>lost. queue = out @ lost @ rest \<and> length lost \<le> 1 \<and> (err = None \<longrightarrow> lost = [])"
  using writePump_prefix [OF assms] by simp

section \<open>Witnesses\<close>

lemma hub_run_connect:
  assumes "hub_run hub" and "0 < u" "0 < s" "k \<noteq> []" and "\<forall>v. p \<notin> snd ` set (entries hub v)"
    and "k \<notin> fst ` set (entries hub u)"
  shows "hub_run (connect p (small_client u s k) hub)"
proof -
  have "newWebSocketClient u s k True \<lparr>kc_SendBuffer = 1, kc_ReadLimit = 1, kc_WriteWait = 1, kc_PingPeriod = 1\<rparr> = Inr (small_client u s k)"
    using assms(2-4) by (simp add: newWebSocketClient_def small_client_def)
  then have "hub_run (hub\<lparr>hub_heap := (hub_heap hub)(p := small_client u s k)\<rparr>)"
    by (rule hub_alloc [OF assms(1)]) (rule assms(5))
  moreover have "fresh_request (hub\<lparr>hub_heap := (hub_heap hub)(p := small_client u s k)\<rparr>) (RegisterRequest p)"
    using assms(6) by (simp add: fresh_request_def small_client_def)
  ultimately show ?thesis unfolding connect_def by (rule hub_serve)
qed

lemmas small_defs = connect_def small_client_def hubServe_def hubRegister_def put_entry_def entries_def deliver_def
  has_room_def enqueue_def newWebSocketHub_def

lemma hub_run_small: "hub_run small_hub"
  unfolding small_hub_def
  by (intro hub_run_connect hub_serve hub_new) (simp_all add: fresh_request_def, auto simp: small_defs Let_def)

lemma hub_is_consistent_witness: "hub_run small_hub \<and> hub_inv small_hub \<and> hub_connections small_hub = 3"
  using hub_run_small hub_is_consistent [OF hub_run_small] by (simp add: small_hub_def small_defs Let_def)

lemma small_hub_clients:
  "registered small_hub 0" "\<not> has_room small_hub 0" "hub_heap small_hub 0 = (small_client 7 21 ''c0'')\<lparr>wk_send := [''old'']\<rparr>"
  "registered small_hub (Suc 0)" "has_room small_hub (Suc 0)" "hub_heap small_hub (Suc 0) = small_client 7 22 ''c1''"
  "registered small_hub 2" "has_room small_hub 2" "hub_heap small_hub 2 = small_client 9 31 ''c2''"
  "entries small_hub 7 = [(''c0'', 0), (''c1'', 1)]" "entries small_hub 9 = [(''c2'', 2)]"
  by (simp_all add: small_hub_def small_defs Let_def registered_def)

lemma delivery_is_exact_witness:
  "fst (deliver small_hub 7 ''new'') = 1 \<and> hub_run small_hub
   \<and> entries (snd (deliver small_hub 7 ''new'')) 7 = [(''c1'', 1)]
   \<and> wk_closed (hub_heap (snd (deliver small_hub 7 ''new'')) 0) = Some (1008, ''slow client'')
   \<and> wk_send (hub_heap (snd (deliver small_hub 7 ''new'')) 1) = [''new'']"
  using delivery_is_exact [OF hub_run_small prod.collapse [symmetric], where receiverID = 7 and payload = "''new''"] hub_run_small
  by (simp add: small_hub_clients) (simp add: small_client_def closing_def StatusPolicyViolation_def)

lemma revoked_session_witness:
  "(''c0'', 0) \<notin> set (entries (disconnectMatching small_hub 7 21) 7)
   \<and> (''c1'', 1) \<in> set (entries (disconnectMatching small_hub 7 21) 7)
   \<and> wk_closed (hub_heap (disconnectMatching small_hub 7 21) 0) \<noteq> None"
  using revoked_session_is_cut_off [OF hub_run_small refl, where k = "''c0''" and p = 0 and userID = 7 and sessionID = 21 and v = 7]
    revoked_session_is_cut_off [OF hub_run_small refl, where k = "''c1''" and p = 1 and userID = 7 and sessionID = 21 and v = 7]
  by (simp add: small_hub_clients) (simp add: small_client_def)

lemma decode_small_event: "decodeMessageCreatedEvent small_event = Inr (the (ev_Payload small_event))"
  by (simp add: decodeMessageCreatedEvent_def small_event_def hello_message_def)

lemma publish_reaches_both_parties_witness:
  "fst (publisherPublish via_hub (\<lambda>_. Inr ''frame'') small_event small_hub) = None
   \<and> wk_send (hub_heap (snd (publisherPublish via_hub (\<lambda>_. Inr ''frame'') small_event small_hub)) 1) = [''frame'']
   \<and> wk_send (hub_heap (snd (publisherPublish via_hub (\<lambda>_. Inr ''frame'') small_event small_hub)) 2) = [''frame'']"
proof -
  have type: "ev_EventType small_event = ''message.created''" by (simp add: small_event_def)
  have frame: "\<forall>r. (\<lambda>_. Inr ''frame'') (envelope_for small_event (the (ev_Payload small_event)) r) = Inr ''frame''" by simp
  have parties: "m_SenderID (pl_Message (the (ev_Payload small_event))) = 9" "m_ReceiverID (pl_Message (the (ev_Payload small_event))) = 7"
    by (simp_all add: small_event_def)
  note pub = publish_reaches_both_parties [OF hub_run_small type decode_small_event frame prod.collapse [symmetric]]
  show ?thesis
    using pub by (simp add: small_hub_clients parties) (simp add: small_client_def)
qed

lemma write_loop_witness:
  "\<exists>lost. [''a'', ''b'', ''c''] = [''a''] @ lost @ [''c''] \<and> length lost \<le> 1
     \<and> (Some ''broken pipe'' = None \<longrightarrow> lost = [])"
  by (rule write_loop_sends_in_order [where events = "[PumpSend None, PumpPing None, PumpSend (Some ''broken pipe'')]"]) simp

end
