(* ===== verification/Presence.thy ===== *)
theory Presence
  imports Outbox
begin

text \<open>
  Which connection holds a session, in Redis: \<^verbatim>\<open>redis_presence.go\<close>. A session key holds the JSON
  of the record of the connection that owns it, with an expiry; a set per user holds the ids of
  its sessions. The scripts run atomically. Redis keys of the two kinds never meet
  (\<open>sessionKey_not_userSessionsKey\<close>), so strings and sets are two maps. Redis times are
  milliseconds.

  The JSON encoding of a record is a pair of parameters; what the code relies on is that decoding
  undoes encoding (\<open>json_round_trip\<close>). The locale \<open>ownership\<close> is the contract of a session slot
  with one owner; it is interpreted on the scripts.
\<close>

section \<open>Redis\<close>

record redis_db =
  rd_strings :: "string \<rightharpoonup> string \<times> int"
  rd_sets :: "string \<rightharpoonup> string list \<times> int option"

definition str_GET :: "redis_db \<Rightarrow> int \<Rightarrow> string \<Rightarrow> string option" where
  "str_GET db now k = (case rd_strings db k of None \<Rightarrow> None | Some (v, e) \<Rightarrow> if now < e then Some v else None)"

definition str_SET_PX :: "redis_db \<Rightarrow> int \<Rightarrow> string \<Rightarrow> string \<Rightarrow> int \<Rightarrow> redis_db" where
  "str_SET_PX db now k v px = db\<lparr>rd_strings := (rd_strings db)(k \<mapsto> (v, now + px))\<rparr>"

definition str_PEXPIRE :: "redis_db \<Rightarrow> int \<Rightarrow> string \<Rightarrow> int \<Rightarrow> redis_db" where
  "str_PEXPIRE db now k px =
     (case str_GET db now k of
        None \<Rightarrow> db
      | Some v \<Rightarrow> db\<lparr>rd_strings := (rd_strings db)(k := if px \<le> 0 then None else Some (v, now + px))\<rparr>)"

definition str_DEL :: "redis_db \<Rightarrow> string \<Rightarrow> redis_db" where
  "str_DEL db k = db\<lparr>rd_strings := (rd_strings db)(k := None)\<rparr>"

definition live_set :: "redis_db \<Rightarrow> int \<Rightarrow> string \<Rightarrow> (string list \<times> int option) option" where
  "live_set db now k = (case rd_sets db k of
      None \<Rightarrow> None
    | Some (ms, None) \<Rightarrow> Some (ms, None)
    | Some (ms, Some e) \<Rightarrow> if now < e then Some (ms, Some e) else None)"

definition set_SMEMBERS :: "redis_db \<Rightarrow> int \<Rightarrow> string \<Rightarrow> string list" where
  "set_SMEMBERS db now k = (case live_set db now k of None \<Rightarrow> [] | Some (ms, _) \<Rightarrow> ms)"

definition set_SADD :: "redis_db \<Rightarrow> int \<Rightarrow> string \<Rightarrow> string \<Rightarrow> redis_db" where
  "set_SADD db now k m =
     db\<lparr>rd_sets := (rd_sets db)(k \<mapsto>
        (case live_set db now k of
           None \<Rightarrow> ([m], None)
         | Some (ms, e) \<Rightarrow> (if m \<in> set ms then ms else ms @ [m], e)))\<rparr>"

definition set_PEXPIRE :: "redis_db \<Rightarrow> int \<Rightarrow> string \<Rightarrow> int \<Rightarrow> redis_db" where
  "set_PEXPIRE db now k px =
     (case live_set db now k of
        None \<Rightarrow> db
      | Some (ms, _) \<Rightarrow> db\<lparr>rd_sets := (rd_sets db)(k := if px \<le> 0 then None else Some (ms, Some (now + px)))\<rparr>)"

text \<open>Removing the last member removes the key.\<close>

definition set_SREM :: "redis_db \<Rightarrow> int \<Rightarrow> string \<Rightarrow> string list \<Rightarrow> redis_db" where
  "set_SREM db now k gone =
     (case live_set db now k of
        None \<Rightarrow> db
      | Some (ms, e) \<Rightarrow>
          (let ms' = filter (\<lambda>m. m \<notin> set gone) ms
           in db\<lparr>rd_sets := (rd_sets db)(k := if ms' = [] then None else Some (ms', e))\<rparr>))"

definition set_SCARD :: "redis_db \<Rightarrow> int \<Rightarrow> string \<Rightarrow> nat" where
  "set_SCARD db now k = length (set_SMEMBERS db now k)"

definition set_DEL :: "redis_db \<Rightarrow> string \<Rightarrow> redis_db" where
  "set_DEL db k = db\<lparr>rd_sets := (rd_sets db)(k := None)\<rparr>"

section \<open>Scripts\<close>

text \<open>\<open>SET ... PX\<close> refuses an expiry that is not positive; the script then fails before it changes anything.\<close>

definition registerWebSocketPresence ::
  "redis_db \<Rightarrow> int \<Rightarrow> string \<Rightarrow> string \<Rightarrow> string \<Rightarrow> int \<Rightarrow> string \<Rightarrow> string option \<times> redis_db" where
  "registerWebSocketPresence db now key1 key2 v px member =
     (let old = str_GET db now key1
      in if px \<le> 0 then (None, db)
         else (Some (case old of None \<Rightarrow> [] | Some o' \<Rightarrow> o'),
               set_PEXPIRE (set_SADD (str_SET_PX db now key1 v px) now key2 member) now key2 px))"

definition refreshWebSocketPresence ::
  "redis_db \<Rightarrow> int \<Rightarrow> string \<Rightarrow> string \<Rightarrow> string \<Rightarrow> int \<Rightarrow> string \<Rightarrow> int option \<times> redis_db" where
  "refreshWebSocketPresence db now key1 key2 v px member =
     (case str_GET db now key1 of
        None \<Rightarrow> if px \<le> 0 then (None, db)
                else (Some 2, set_PEXPIRE (set_SADD (str_SET_PX db now key1 v px) now key2 member) now key2 px)
      | Some current \<Rightarrow>
          if current = v
          then (Some 1, set_PEXPIRE (set_SADD (str_PEXPIRE db now key1 px) now key2 member) now key2 px)
          else (Some 0, db))"

definition unregisterWebSocketPresence ::
  "redis_db \<Rightarrow> int \<Rightarrow> string \<Rightarrow> string \<Rightarrow> string \<Rightarrow> string \<Rightarrow> int \<times> redis_db" where
  "unregisterWebSocketPresence db now key1 key2 v member =
     (if str_GET db now key1 \<noteq> Some v then (0, db)
      else (let db1 = set_SREM (str_DEL db key1) now key2 [member]
            in (1, if set_SCARD db1 now key2 = 0 then set_DEL db1 key2 else db1)))"

section \<open>Records and operations\<close>

record webSocketPresenceRecord =
  pr_UserID :: int
  pr_SessionID :: int
  pr_ConnectionID :: string
  pr_InstanceID :: string

definition valid :: "webSocketPresenceRecord \<Rightarrow> bool" where
  "valid record \<longleftrightarrow> 0 < pr_UserID record \<and> 0 < pr_SessionID record \<and> pr_ConnectionID record \<noteq> [] \<and> pr_InstanceID record \<noteq> []"

definition encoded :: "(webSocketPresenceRecord \<Rightarrow> string) \<Rightarrow> webSocketPresenceRecord \<Rightarrow> string + string" where
  "encoded marshal record =
     (if \<not> valid record then Inl ''websocket presence identity is incomplete'' else Inr (marshal record))"

datatype webSocketPresenceRefresh = webSocketPresenceLost | webSocketPresenceRenewed | webSocketPresenceRecovered

record redisWebSocketPresence =
  ps_namespace :: string
  ps_ttl :: duration
  ps_renewInterval :: duration

definition defaultWebSocketPresenceNamespace :: string where "defaultWebSocketPresenceNamespace = ''im:ws''"

definition newRedisWebSocketPresence :: "bool \<Rightarrow> string \<Rightarrow> duration \<Rightarrow> duration \<Rightarrow> string + redisWebSocketPresence" where
  "newRedisWebSocketPresence has_client namespace ttl renewInterval =
     (if \<not> has_client then Inl ''websocket presence requires Redis''
      else if ttl \<le> 0 \<or> renewInterval \<le> 0 \<or> renewInterval \<ge> ttl
      then Inl ''websocket presence requires a renewal interval shorter than its TTL''
      else Inr \<lparr>ps_namespace = (if namespace = [] then defaultWebSocketPresenceNamespace else namespace),
                ps_ttl = ttl, ps_renewInterval = renewInterval\<rparr>)"

definition sessionKey :: "redisWebSocketPresence \<Rightarrow> int \<Rightarrow> int \<Rightarrow> string" where
  "sessionKey ps userID sessionID =
     ps_namespace ps @ '':{user:'' @ FormatInt userID @ ''}:session:'' @ FormatInt sessionID"

definition userSessionsKey :: "redisWebSocketPresence \<Rightarrow> int \<Rightarrow> string" where
  "userSessionsKey ps userID = ps_namespace ps @ '':{user:'' @ FormatInt userID @ ''}:sessions''"

text \<open>A call of a script: it is answered, or the connection fails after or before the script ran.\<close>

datatype redis_call = CallOk | CallLost bool

definition presenceRegister ::
  "(webSocketPresenceRecord \<Rightarrow> string) \<Rightarrow> (string \<Rightarrow> webSocketPresenceRecord option) \<Rightarrow> redisWebSocketPresence \<Rightarrow>
   redis_call \<Rightarrow> int \<Rightarrow> webSocketPresenceRecord \<Rightarrow> redis_db \<Rightarrow> (string + webSocketPresenceRecord option) \<times> redis_db" where
  "presenceRegister marshal unmarshal ps call now record db =
     (case encoded marshal record of
        Inl err \<Rightarrow> (Inl err, db)
      | Inr v \<Rightarrow>
        (let (reply, db') = registerWebSocketPresence db now (sessionKey ps (pr_UserID record) (pr_SessionID record))
               (userSessionsKey ps (pr_UserID record)) v (Milliseconds (ps_ttl ps)) (FormatInt (pr_SessionID record))
         in case call of
              CallLost applied \<Rightarrow> (Inl ''redis'', if applied then db' else db)
            | CallOk \<Rightarrow>
                (case reply of
                   None \<Rightarrow> (Inl ''redis'', db')
                 | Some oldValue \<Rightarrow>
                     if oldValue = [] then (Inr None, db')
                     else (case unmarshal oldValue of
                             None \<Rightarrow> (Inl ''replaced websocket presence record was invalid'', db')
                           | Some old \<Rightarrow> if \<not> valid old then (Inl ''replaced websocket presence record was invalid'', db')
                                         else (Inr (Some old), db')))))"

definition presenceRefresh ::
  "(webSocketPresenceRecord \<Rightarrow> string) \<Rightarrow> redisWebSocketPresence \<Rightarrow> redis_call \<Rightarrow> int \<Rightarrow>
   webSocketPresenceRecord \<Rightarrow> redis_db \<Rightarrow> (string + webSocketPresenceRefresh) \<times> redis_db" where
  "presenceRefresh marshal ps call now record db =
     (case encoded marshal record of
        Inl err \<Rightarrow> (Inl err, db)
      | Inr v \<Rightarrow>
        (let (reply, db') = refreshWebSocketPresence db now (sessionKey ps (pr_UserID record) (pr_SessionID record))
               (userSessionsKey ps (pr_UserID record)) v (Milliseconds (ps_ttl ps)) (FormatInt (pr_SessionID record))
         in case call of
              CallLost applied \<Rightarrow> (Inl ''redis'', if applied then db' else db)
            | CallOk \<Rightarrow>
                (case reply of
                   None \<Rightarrow> (Inl ''redis'', db')
                 | Some result \<Rightarrow>
                     (Inr (if result = 1 then webSocketPresenceRenewed
                           else if result = 2 then webSocketPresenceRecovered else webSocketPresenceLost), db'))))"

definition presenceUnregister ::
  "(webSocketPresenceRecord \<Rightarrow> string) \<Rightarrow> redisWebSocketPresence \<Rightarrow> redis_call \<Rightarrow> int \<Rightarrow>
   webSocketPresenceRecord \<Rightarrow> redis_db \<Rightarrow> (string + bool) \<times> redis_db" where
  "presenceUnregister marshal ps call now record db =
     (case encoded marshal record of
        Inl err \<Rightarrow> (Inl err, db)
      | Inr v \<Rightarrow>
        (let (result, db') = unregisterWebSocketPresence db now (sessionKey ps (pr_UserID record) (pr_SessionID record))
               (userSessionsKey ps (pr_UserID record)) v (FormatInt (pr_SessionID record))
         in case call of
              CallLost applied \<Rightarrow> (Inl ''redis'', if applied then db' else db)
            | CallOk \<Rightarrow> (Inr (result = 1), db')))"

section \<open>Lookups\<close>

record webSocketPresenceLookup =
  lk_sessionIDs :: "int list"
  lk_keys :: "string list"
  lk_staleValues :: "string list"

fun uniqueUsers :: "int list \<Rightarrow> int list \<Rightarrow> (int list) option" where
  "uniqueUsers [] unique = Some unique"
| "uniqueUsers (u # us) unique =
     (if u \<le> 0 then None else if u \<in> set unique then uniqueUsers us unique else uniqueUsers us (unique @ [u]))"

fun scanSessions :: "redisWebSocketPresence \<Rightarrow> int \<Rightarrow> string list \<Rightarrow> webSocketPresenceLookup \<Rightarrow> webSocketPresenceLookup" where
  "scanSessions ps userID [] lookup = lookup"
| "scanSessions ps userID (v # vs) lookup =
     (case ParseInt 64 v of
        None \<Rightarrow> scanSessions ps userID vs (lookup\<lparr>lk_staleValues := lk_staleValues lookup @ [v]\<rparr>)
      | Some sessionID \<Rightarrow>
          if sessionID \<le> 0 then scanSessions ps userID vs (lookup\<lparr>lk_staleValues := lk_staleValues lookup @ [v]\<rparr>)
          else scanSessions ps userID vs (lookup\<lparr>lk_sessionIDs := lk_sessionIDs lookup @ [sessionID],
                                                 lk_keys := lk_keys lookup @ [sessionKey ps userID sessionID]\<rparr>))"

fun scanValues ::
  "(string \<Rightarrow> webSocketPresenceRecord option) \<Rightarrow> int \<Rightarrow> (int \<times> string option) list \<Rightarrow>
   webSocketPresenceRecord list \<Rightarrow> string list \<Rightarrow> webSocketPresenceRecord list \<times> string list" where
  "scanValues unmarshal userID [] records stale = (records, stale)"
| "scanValues unmarshal userID ((sessionID, value) # rest) records stale =
     (case value of
        None \<Rightarrow> scanValues unmarshal userID rest records (stale @ [FormatInt sessionID])
      | Some v \<Rightarrow>
          (case unmarshal v of
             None \<Rightarrow> scanValues unmarshal userID rest records (stale @ [FormatInt sessionID])
           | Some record \<Rightarrow>
               if \<not> valid record \<or> pr_UserID record \<noteq> userID \<or> pr_SessionID record \<noteq> sessionID
               then scanValues unmarshal userID rest records (stale @ [FormatInt sessionID])
               else scanValues unmarshal userID rest (records @ [record]) stale))"

text \<open>
  The commands of a pipeline are not atomic together: each sees a state and a time of its own,
  given for the user it is about. A pipeline that has commands may fail as a whole.
\<close>

record lookup_env =
  le_first_fails :: bool
  le_sessions :: "int \<Rightarrow> redis_db \<times> int"
  le_second_fails :: bool
  le_values :: "int \<Rightarrow> redis_db \<times> int"

definition sessionLookup :: "redisWebSocketPresence \<Rightarrow> lookup_env \<Rightarrow> int \<Rightarrow> webSocketPresenceLookup" where
  "sessionLookup ps env userID =
     scanSessions ps userID
       (set_SMEMBERS (fst (le_sessions env userID)) (snd (le_sessions env userID)) (userSessionsKey ps userID))
       \<lparr>lk_sessionIDs = [], lk_keys = [], lk_staleValues = []\<rparr>"

definition lookupUser ::
  "(string \<Rightarrow> webSocketPresenceRecord option) \<Rightarrow> redisWebSocketPresence \<Rightarrow> lookup_env \<Rightarrow> int \<Rightarrow>
   string + webSocketPresenceRecord list \<times> string list" where
  "lookupUser unmarshal ps env userID =
     (let lookup = sessionLookup ps env userID
      in if lk_keys lookup = [] then Inr ([], lk_staleValues lookup)
         else (let values = map (str_GET (fst (le_values env userID)) (snd (le_values env userID))) (lk_keys lookup)
               in if length values \<noteq> length (lk_sessionIDs lookup)
                  then Inl ''websocket presence lookup returned a wrong number of records''
                  else Inr (scanValues unmarshal userID (zip (lk_sessionIDs lookup) values) [] (lk_staleValues lookup))))"

fun lookupAll ::
  "(int \<Rightarrow> string + webSocketPresenceRecord list \<times> string list) \<Rightarrow> int list \<Rightarrow>
   string + (int \<times> webSocketPresenceRecord list \<times> string list) list" where
  "lookupAll f [] = Inr []"
| "lookupAll f (u # us) =
     (case f u of
        Inl err \<Rightarrow> Inl err
      | Inr (records, stale) \<Rightarrow> (case lookupAll f us of Inl err \<Rightarrow> Inl err | Inr rest \<Rightarrow> Inr ((u, records, stale) # rest)))"

text \<open>\<open>LookupUsers\<close>: the records by user, and the members to take out of the sets.\<close>

definition LookupUsers ::
  "(string \<Rightarrow> webSocketPresenceRecord option) \<Rightarrow> redisWebSocketPresence \<Rightarrow> lookup_env \<Rightarrow> int list \<Rightarrow>
   string + (int \<rightharpoonup> webSocketPresenceRecord list) \<times> (int \<times> string list) list" where
  "LookupUsers unmarshal ps env userIDs =
     (case uniqueUsers userIDs [] of
        None \<Rightarrow> Inl ''websocket presence lookup requires positive users''
      | Some found \<Rightarrow>
          (let unique = sort found
           in if unique = [] then Inr (Map.empty, [])
              else if le_first_fails env then Inl ''redis''
              else if le_second_fails env \<and> list_ex (\<lambda>u. lk_keys (sessionLookup ps env u) \<noteq> []) unique then Inl ''redis''
              else case lookupAll (lookupUser unmarshal ps env) unique of
                     Inl err \<Rightarrow> Inl err
                   | Inr results \<Rightarrow> Inr (map_of (map (\<lambda>(u, records, stale). (u, records)) results),
                                        map (\<lambda>(u, records, stale). (u, stale)) results)))"

definition removeStaleMembersForUsers ::
  "redisWebSocketPresence \<Rightarrow> int \<Rightarrow> (int \<times> string list) list \<Rightarrow> redis_db \<Rightarrow> redis_db" where
  "removeStaleMembersForUsers ps now lookups db =
     fold (\<lambda>(userID, stale) d. if stale \<noteq> [] then set_SREM d now (userSessionsKey ps userID) stale else d) lookups db"

definition LookupUser ::
  "(string \<Rightarrow> webSocketPresenceRecord option) \<Rightarrow> redisWebSocketPresence \<Rightarrow> lookup_env \<Rightarrow> int \<Rightarrow>
   string + webSocketPresenceRecord list \<times> (int \<times> string list) list" where
  "LookupUser unmarshal ps env userID =
     (if userID \<le> 0 then Inl ''websocket presence lookup requires a user''
      else case LookupUsers unmarshal ps env [userID] of
        Inl err \<Rightarrow> Inl err
      | Inr (recordsByUser, stale) \<Rightarrow> Inr (case recordsByUser userID of None \<Rightarrow> [] | Some rs \<Rightarrow> rs, stale))"

section \<open>Runs and the invariant\<close>

definition json_round_trip :: "(webSocketPresenceRecord \<Rightarrow> string) \<Rightarrow> (string \<Rightarrow> webSocketPresenceRecord option) \<Rightarrow> bool" where
  "json_round_trip marshal unmarshal \<longleftrightarrow>
     (\<forall>r. fits_int64 (pr_UserID r) \<longrightarrow> fits_int64 (pr_SessionID r) \<longrightarrow> marshal r \<noteq> [] \<and> unmarshal (marshal r) = Some r)"

abbreviation ttl_ms :: "redisWebSocketPresence \<Rightarrow> int" where
  "ttl_ms ps \<equiv> Milliseconds (ps_ttl ps)"

text \<open>An undisturbed lookup: every command sees one state at one time.\<close>

definition quiet :: "redis_db \<Rightarrow> int \<Rightarrow> lookup_env" where
  "quiet db now = \<lparr>le_first_fails = False, le_sessions = (\<lambda>_. (db, now)), le_second_fails = False, le_values = (\<lambda>_. (db, now))\<rparr>"

definition good_record :: "webSocketPresenceRecord \<Rightarrow> bool" where
  "good_record r \<longleftrightarrow> valid r \<and> fits_int64 (pr_UserID r) \<and> fits_int64 (pr_SessionID r)"

text \<open>
  Every stored string is the record of its key; the set of a user names the session of every
  live record, lives at least as long, and holds session ids only, each once.
\<close>

definition strings_ok :: "(webSocketPresenceRecord \<Rightarrow> string) \<Rightarrow> redisWebSocketPresence \<Rightarrow> redis_db \<Rightarrow> int \<Rightarrow> bool" where
  "strings_ok marshal ps db now \<longleftrightarrow>
     (\<forall>k v e. rd_strings db k = Some (v, e) \<longrightarrow>
        e \<le> now + ttl_ms ps \<and>
        (\<exists>r. good_record r \<and> k = sessionKey ps (pr_UserID r) (pr_SessionID r) \<and> v = marshal r))"

definition sets_ok :: "redis_db \<Rightarrow> bool" where
  "sets_ok db \<longleftrightarrow>
     (\<forall>k ms e. rd_sets db k = Some (ms, e) \<longrightarrow> distinct ms \<and> (\<forall>m \<in> set ms. \<exists>s. m = FormatInt s \<and> 0 < s \<and> fits_int64 s))"

definition indexed :: "redisWebSocketPresence \<Rightarrow> redis_db \<Rightarrow> int \<Rightarrow> int \<Rightarrow> int \<Rightarrow> bool" where
  "indexed ps db now u s \<longleftrightarrow>
     (\<forall>v e. rd_strings db (sessionKey ps u s) = Some (v, e) \<and> now < e \<longrightarrow>
        (\<exists>ms es. rd_sets db (userSessionsKey ps u) = Some (ms, Some es) \<and> FormatInt s \<in> set ms \<and> e \<le> es))"

definition presence_inv :: "(webSocketPresenceRecord \<Rightarrow> string) \<Rightarrow> redisWebSocketPresence \<Rightarrow> redis_db \<Rightarrow> int \<Rightarrow> bool" where
  "presence_inv marshal ps db now \<longleftrightarrow>
     strings_ok marshal ps db now \<and> sets_ok db \<and> (\<forall>u s. indexed ps db now u s)"

inductive presence_run ::
  "(webSocketPresenceRecord \<Rightarrow> string) \<Rightarrow> (string \<Rightarrow> webSocketPresenceRecord option) \<Rightarrow> redisWebSocketPresence \<Rightarrow>
   redis_db \<Rightarrow> int \<Rightarrow> bool" for marshal unmarshal ps where
  run_empty: "presence_run marshal unmarshal ps \<lparr>rd_strings = Map.empty, rd_sets = Map.empty\<rparr> now"
| run_time: "presence_run marshal unmarshal ps db now \<Longrightarrow> now \<le> now' \<Longrightarrow> presence_run marshal unmarshal ps db now'"
| run_register: "presence_run marshal unmarshal ps db now \<Longrightarrow> fits_int64 (pr_UserID r) \<Longrightarrow> fits_int64 (pr_SessionID r) \<Longrightarrow>
     presence_run marshal unmarshal ps (snd (presenceRegister marshal unmarshal ps call now r db)) now"
| run_refresh: "presence_run marshal unmarshal ps db now \<Longrightarrow> fits_int64 (pr_UserID r) \<Longrightarrow> fits_int64 (pr_SessionID r) \<Longrightarrow>
     presence_run marshal unmarshal ps (snd (presenceRefresh marshal ps call now r db)) now"
| run_unregister: "presence_run marshal unmarshal ps db now \<Longrightarrow>
     presence_run marshal unmarshal ps (snd (presenceUnregister marshal ps call now r db)) now"
| run_cleanup: "presence_run marshal unmarshal ps db now \<Longrightarrow>
     LookupUsers unmarshal ps (quiet db now) userIDs = Inr (found, stale) \<Longrightarrow>
     presence_run marshal unmarshal ps (removeStaleMembersForUsers ps now stale db) now"

text \<open>The records of a user that are live at a time.\<close>

definition live_records :: "(webSocketPresenceRecord \<Rightarrow> string) \<Rightarrow> redisWebSocketPresence \<Rightarrow> redis_db \<Rightarrow> int \<Rightarrow> int \<Rightarrow> webSocketPresenceRecord set" where
  "live_records marshal ps db now u =
     {r. good_record r \<and> pr_UserID r = u \<and> str_GET db now (sessionKey ps u (pr_SessionID r)) = Some (marshal r)}"

text \<open>A slot of the store: the session of a user, held by an encoded record.\<close>

definition slot_holder :: "redisWebSocketPresence \<Rightarrow> redis_db \<Rightarrow> int \<Rightarrow> int \<times> int \<Rightarrow> string option" where
  "slot_holder ps db now slot = str_GET db now (sessionKey ps (fst slot) (snd slot))"

definition slot_put :: "redisWebSocketPresence \<Rightarrow> int \<Rightarrow> (int \<times> int) \<times> string \<Rightarrow> redis_db \<Rightarrow> redis_db" where
  "slot_put ps now cl db = snd (registerWebSocketPresence db now (sessionKey ps (fst (fst cl)) (snd (fst cl)))
     (userSessionsKey ps (fst (fst cl))) (snd cl) (ttl_ms ps) (FormatInt (snd (fst cl))))"

definition slot_renew :: "redisWebSocketPresence \<Rightarrow> int \<Rightarrow> (int \<times> int) \<times> string \<Rightarrow> redis_db \<Rightarrow> bool \<times> redis_db" where
  "slot_renew ps now cl db =
     (let (reply, db') = refreshWebSocketPresence db now (sessionKey ps (fst (fst cl)) (snd (fst cl)))
            (userSessionsKey ps (fst (fst cl))) (snd cl) (ttl_ms ps) (FormatInt (snd (fst cl)))
      in (reply = Some 1 \<or> reply = Some 2, db'))"

definition slot_drop :: "redisWebSocketPresence \<Rightarrow> int \<Rightarrow> (int \<times> int) \<times> string \<Rightarrow> redis_db \<Rightarrow> bool \<times> redis_db" where
  "slot_drop ps now cl db =
     (let (reply, db') = unregisterWebSocketPresence db now (sessionKey ps (fst (fst cl)) (snd (fst cl)))
            (userSessionsKey ps (fst (fst cl))) (snd cl) (FormatInt (snd (fst cl)))
      in (reply = 1, db'))"

text \<open>
  A stand-in for the JSON encoding, for the examples: the two ids, the length of the connection id
  in unary, and the two strings.
\<close>

definition plain_marshal :: "webSocketPresenceRecord \<Rightarrow> string" where
  "plain_marshal r = FormatInt (pr_UserID r) @ CHR ''}'' # FormatInt (pr_SessionID r) @ CHR ''}'' #
     replicate (length (pr_ConnectionID r)) (CHR ''x'') @ CHR ''}'' # pr_ConnectionID r @ pr_InstanceID r"

definition until_brace :: "string \<Rightarrow> string \<times> string" where
  "until_brace s = (takeWhile (\<lambda>c. c \<noteq> CHR ''}'') s, drop 1 (dropWhile (\<lambda>c. c \<noteq> CHR ''}'') s))"

definition plain_unmarshal :: "string \<Rightarrow> webSocketPresenceRecord option" where
  "plain_unmarshal s =
     (let (u, s1) = until_brace s; (t, s2) = until_brace s1; (n, s3) = until_brace s2
      in case (ParseInt 64 u, ParseInt 64 t) of
           (Some userID, Some sessionID) \<Rightarrow>
             Some \<lparr>pr_UserID = userID, pr_SessionID = sessionID,
                   pr_ConnectionID = take (length n) s3, pr_InstanceID = drop (length n) s3\<rparr>
         | _ \<Rightarrow> None)"

definition small_presence :: redisWebSocketPresence where
  "small_presence = \<lparr>ps_namespace = ''im:ws'', ps_ttl = 30 * Second, ps_renewInterval = 10 * Second\<rparr>"

definition small_record :: "string \<Rightarrow> webSocketPresenceRecord" where
  "small_record k = \<lparr>pr_UserID = 7, pr_SessionID = 21, pr_ConnectionID = k, pr_InstanceID = ''api-1''\<rparr>"

definition no_redis :: redis_db where
  "no_redis = \<lparr>rd_strings = Map.empty, rd_sets = Map.empty\<rparr>"

definition one_presence :: redis_db where
  "one_presence = snd (presenceRegister plain_marshal plain_unmarshal small_presence CallOk 1000 (small_record ''c0'') no_redis)"

text \<open>
  The two sessions of a user registered at 1 s and 20 s; the first has expired at 40 s. A lookup
  at 40 s whose cleanup arrives after the first session has registered again.
\<close>

definition reg :: "int \<Rightarrow> webSocketPresenceRecord \<Rightarrow> redis_db \<Rightarrow> redis_db" where
  "reg now r db = snd (presenceRegister plain_marshal plain_unmarshal small_presence CallOk now r db)"

definition before_race :: redis_db where
  "before_race = reg 20000 ((small_record ''c1'')\<lparr>pr_SessionID := 22\<rparr>) (reg 1000 (small_record ''c0'') no_redis)"

definition after_race :: redis_db where
  "after_race =
     (case LookupUsers plain_unmarshal small_presence (quiet before_race 40000) [7] of
        Inl _ \<Rightarrow> before_race
      | Inr (found, stale) \<Rightarrow>
          removeStaleMembersForUsers small_presence 40002 stale (reg 40001 (small_record ''c9'') before_race))"

section \<open>The contract of a slot with one owner\<close>

text \<open>
  A claim names a slot and an owner. Registering replaces the holder; renewing and dropping act
  only for the holder, except that a vacant slot is taken again by a renewal.
\<close>

locale ownership =
  fixes ok :: bool
    and holder :: "'s \<Rightarrow> int \<Rightarrow> 'k \<Rightarrow> 'o option"
    and put :: "int \<Rightarrow> 'k \<times> 'o \<Rightarrow> 's \<Rightarrow> 's"
    and renew :: "int \<Rightarrow> 'k \<times> 'o \<Rightarrow> 's \<Rightarrow> bool \<times> 's"
    and release :: "int \<Rightarrow> 'k \<times> 'o \<Rightarrow> 's \<Rightarrow> bool \<times> 's"
  assumes put_holder: "ok \<Longrightarrow> holder (put now (k, r) s) now k' = (if k' = k then Some r else holder s now k')"
    and renew_holder: "ok \<Longrightarrow> holder s now k = None \<or> holder s now k = Some r \<Longrightarrow>
      fst (renew now (k, r) s) \<and> holder (snd (renew now (k, r) s)) now k' = (if k' = k then Some r else holder s now k')"
    and renew_lost: "holder s now k = Some r' \<Longrightarrow> r' \<noteq> r \<Longrightarrow> renew now (k, r) s = (False, s)"
    and release_holder: "holder s now k = Some r \<Longrightarrow>
      fst (release now (k, r) s) \<and> holder (snd (release now (k, r) s)) now k' = (if k' = k then None else holder s now k')"
    and release_lost: "holder s now k \<noteq> Some r \<Longrightarrow> release now (k, r) s = (False, s)"
begin

lemma renewed_iff: "ok \<Longrightarrow> fst (renew now (k, r) s) \<longleftrightarrow> holder s now k = None \<or> holder s now k = Some r"
  using renew_holder renew_lost by (cases "holder s now k") (metis fst_conv)+

lemma replaced_is_harmless:
  assumes ok and "r' \<noteq> r"
  shows "renew now (k, r) (put now (k, r') s) = (False, put now (k, r') s)"
    and "release now (k, r) (put now (k, r') s) = (False, put now (k, r') s)"
  using assms put_holder by (simp_all add: renew_lost release_lost)

lemma other_slot_kept:
  assumes ok and "k' \<noteq> k"
  shows "holder (snd (renew now (k, r) s)) now k' = holder s now k'"
    and "holder (snd (release now (k, r) s)) now k' = holder s now k'"
proof -
  show "holder (snd (renew now (k, r) s)) now k' = holder s now k'"
  proof (cases "holder s now k = None \<or> holder s now k = Some r")
    case True
    then show ?thesis using renew_holder [OF assms(1) True, of k'] assms(2) by simp
  next
    case False
    then obtain r' where "holder s now k = Some r'" and "r' \<noteq> r" by (cases "holder s now k") auto
    then have "renew now (k, r) s = (False, s)" by (rule renew_lost)
    then show ?thesis by simp
  qed
  show "holder (snd (release now (k, r) s)) now k' = holder s now k'"
    using assms(2) release_holder release_lost by (cases "holder s now k = Some r") auto
qed

text \<open>Whatever renewals and releases other owners send, the holder keeps its slot.\<close>

lemma holder_survives_others:
  assumes ok and "holder s now k = Some r" and "(k, r) \<notin> fst ` set calls"
  shows "holder (fold (\<lambda>(cl, renews) s. snd (if renews then renew now cl s else release now cl s)) calls s) now k = Some r"
  using assms(2,3)
proof (induction calls arbitrary: s)
  case (Cons call calls)
  obtain k' r' renews where call: "call = ((k', r'), renews)" by (metis prod.collapse)
  have "holder (snd (if renews then renew now (k', r') s else release now (k', r') s)) now k = Some r"
  proof (cases "k' = k")
    case True
    then have "r' \<noteq> r" using Cons.prems(2) call by auto
    then have "renew now (k', r') s = (False, s)" "release now (k', r') s = (False, s)"
      using True Cons.prems(1) renew_lost release_lost by auto
    then show ?thesis using Cons.prems(1) by simp
  next
    case False
    then show ?thesis using other_slot_kept [OF assms(1)] Cons.prems(1) by simp
  qed
  then show ?case using Cons.IH Cons.prems(2) call by simp
qed simp

end

section \<open>Keys\<close>

lemma brace_not_in_FormatInt: "CHR ''}'' \<notin> set (FormatInt i)"
proof -
  have "CHR ''}'' \<notin> set (format_nat n)" for n
    using format_nat_digits [of n] by (auto simp: list_all_iff is_digit_def)
  then show ?thesis by (simp add: FormatInt_def)
qed

lemma FormatInt_then_brace:
  "FormatInt u @ CHR ''}'' # x = FormatInt v @ CHR ''}'' # y \<longleftrightarrow> u = v \<and> x = y"
proof
  assume eq: "FormatInt u @ CHR ''}'' # x = FormatInt v @ CHR ''}'' # y"
  have "takeWhile (\<lambda>c. c \<noteq> CHR ''}'') (FormatInt w @ CHR ''}'' # z) = FormatInt w" for w z
    using brace_not_in_FormatInt [of w] by (subst takeWhile_append2) auto
  then have "FormatInt u = FormatInt v" using eq by metis
  then show "u = v \<and> x = y" using eq by (simp add: FormatInt_inj)
qed simp

lemma sessionKey_inj [simp]: "sessionKey ps u s = sessionKey ps v t \<longleftrightarrow> u = v \<and> s = t"
  by (simp add: sessionKey_def FormatInt_then_brace FormatInt_inj)

lemma userSessionsKey_inj [simp]: "userSessionsKey ps u = userSessionsKey ps v \<longleftrightarrow> u = v"
  by (simp add: userSessionsKey_def FormatInt_inj)

lemma sessionKey_not_userSessionsKey: "sessionKey ps u s \<noteq> userSessionsKey ps v"
  by (simp add: sessionKey_def userSessionsKey_def FormatInt_then_brace)

section \<open>The scripts\<close>

lemma strings_of_sets [simp]:
  "rd_strings (set_SADD db now k m) = rd_strings db" "rd_strings (set_PEXPIRE db now k px) = rd_strings db"
  "rd_strings (set_SREM db now k ms) = rd_strings db" "rd_strings (set_DEL db k) = rd_strings db"
  by (simp_all add: set_SADD_def set_PEXPIRE_def set_SREM_def set_DEL_def Let_def split: option.split prod.split)

lemma sets_of_strings [simp]:
  "rd_sets (str_SET_PX db now k v px) = rd_sets db" "rd_sets (str_PEXPIRE db now k px) = rd_sets db"
  "rd_sets (str_DEL db k) = rd_sets db"
  by (simp_all add: str_SET_PX_def str_PEXPIRE_def str_DEL_def split: option.split)

lemma str_GET_cong: "rd_strings db = rd_strings db' \<Longrightarrow> str_GET db now k = str_GET db' now k"
  by (simp add: str_GET_def)

lemma str_GET_sets [simp]:
  "str_GET (set_SADD db t k m) now k' = str_GET db now k'" "str_GET (set_PEXPIRE db t k px) now k' = str_GET db now k'"
  "str_GET (set_SREM db t k ms) now k' = str_GET db now k'" "str_GET (set_DEL db k) now k' = str_GET db now k'"
  by (rule str_GET_cong; simp)+

lemma str_GET_SET: "0 < px \<Longrightarrow> str_GET (str_SET_PX db now k v px) now k' = (if k' = k then Some v else str_GET db now k')"
  by (simp add: str_GET_def str_SET_PX_def)

lemma str_GET_PEXPIRE: "0 < px \<Longrightarrow> str_GET (str_PEXPIRE db now k px) now k' = str_GET db now k'"
  by (simp add: str_GET_def str_PEXPIRE_def split: option.split prod.split)

lemma str_GET_DEL: "str_GET (str_DEL db k) now k' = (if k' = k then None else str_GET db now k')"
  by (simp add: str_GET_def str_DEL_def)

interpretation presence_slots: ownership "0 < ttl_ms ps" "slot_holder ps" "slot_put ps" "slot_renew ps" "slot_drop ps"
  for ps
proof (unfold_locales, goal_cases)
  case (1 now k r s k')
  then show ?case
    by (cases k; cases k') (simp add: slot_holder_def slot_put_def registerWebSocketPresence_def Let_def str_GET_SET)
next
  case (2 s now k r k')
  then show ?case
    by (cases k; cases k')
       (auto simp: slot_holder_def slot_renew_def refreshWebSocketPresence_def Let_def str_GET_SET str_GET_PEXPIRE)
next
  case (3 s now k r' r)
  then show ?case by (simp add: slot_holder_def slot_renew_def refreshWebSocketPresence_def)
next
  case (4 s now k r k')
  then show ?case
    by (cases k; cases k') (auto simp: slot_holder_def slot_drop_def unregisterWebSocketPresence_def Let_def str_GET_DEL)
next
  case (5 s now k r)
  then show ?case by (simp add: slot_holder_def slot_drop_def unregisterWebSocketPresence_def)
qed

section \<open>The invariant\<close>

lemma live_setI: "rd_sets db k = Some (ms, Some es) \<Longrightarrow> now < es \<Longrightarrow> live_set db now k = Some (ms, Some es)"
  by (simp add: live_set_def)

lemma live_setD: "live_set db now k = Some (ms, e) \<Longrightarrow> rd_sets db k = Some (ms, e)"
  by (auto simp: live_set_def split: option.splits if_splits prod.splits)

lemma sets_okD: "sets_ok db \<Longrightarrow> rd_sets db k = Some (ms, e) \<Longrightarrow>
    distinct ms \<and> (\<forall>m \<in> set ms. \<exists>s. m = FormatInt s \<and> 0 < s \<and> fits_int64 s)"
  unfolding sets_ok_def by blast

lemma sets_ok_members:
  assumes "sets_ok db"
  shows "distinct (set_SMEMBERS db now k)" and "\<forall>m \<in> set (set_SMEMBERS db now k). \<exists>s. m = FormatInt s \<and> 0 < s \<and> fits_int64 s"
proof -
  have "distinct (set_SMEMBERS db now k) \<and> (\<forall>m \<in> set (set_SMEMBERS db now k). \<exists>s. m = FormatInt s \<and> 0 < s \<and> fits_int64 s)"
  proof (cases "live_set db now k")
    case None
    then show ?thesis by (simp add: set_SMEMBERS_def)
  next
    case (Some x)
    then obtain ms e where x: "live_set db now k = Some (ms, e)" by (cases x) simp
    show ?thesis using sets_okD [OF assms live_setD [OF x]] x by (simp add: set_SMEMBERS_def)
  qed
  then show "distinct (set_SMEMBERS db now k)" and "\<forall>m \<in> set (set_SMEMBERS db now k). \<exists>s. m = FormatInt s \<and> 0 < s \<and> fits_int64 s"
    by blast+
qed

lemma sets_ok_upd:
  assumes "sets_ok db" and "rd_sets db' = (rd_sets db)(k := x)"
    and "\<And>ms e. x = Some (ms, e) \<Longrightarrow> distinct ms \<and> (\<forall>m \<in> set ms. \<exists>s. m = FormatInt s \<and> 0 < s \<and> fits_int64 s)"
  shows "sets_ok db'"
  unfolding sets_ok_def
proof (intro allI impI)
  fix k' ms e
  assume "rd_sets db' k' = Some (ms, e)"
  then have "x = Some (ms, e) \<or> rd_sets db k' = Some (ms, e)" unfolding assms(2) by (simp split: if_splits)
  then show "distinct ms \<and> (\<forall>m \<in> set ms. \<exists>s. m = FormatInt s \<and> 0 < s \<and> fits_int64 s)"
    using assms(3) sets_okD [OF assms(1)] by blast
qed

lemma indexedD:
  assumes "indexed ps db now u s" and "rd_strings db (sessionKey ps u s) = Some (v, e)" and "now < e"
  obtains ms es where "rd_sets db (userSessionsKey ps u) = Some (ms, Some es)" "FormatInt s \<in> set ms" "e \<le> es"
    "set_SMEMBERS db now (userSessionsKey ps u) = ms"
proof -
  obtain ms es where set: "rd_sets db (userSessionsKey ps u) = Some (ms, Some es)" "FormatInt s \<in> set ms" "e \<le> es"
    using assms unfolding indexed_def by blast
  then have "live_set db now (userSessionsKey ps u) = Some (ms, Some es)" using assms(3) by (simp add: live_setI)
  then show ?thesis using set that by (simp add: set_SMEMBERS_def)
qed

text \<open>The index after \<open>SADD\<close> and \<open>PEXPIRE\<close>.\<close>

lemma sets_after_add:
  "0 < px \<Longrightarrow> rd_sets (set_PEXPIRE (set_SADD db now k m) now k px) =
     (rd_sets db)(k \<mapsto> (let ms = set_SMEMBERS db now k in if m \<in> set ms then ms else ms @ [m], Some (now + px)))"
proof -
  assume px: "0 < px"
  obtain e where live: "live_set (set_SADD db now k m) now k =
      Some (let ms = set_SMEMBERS db now k in if m \<in> set ms then ms else ms @ [m], e)"
  proof (cases "live_set db now k")
    case None
    then have "rd_sets (set_SADD db now k m) k = Some ([m], None)" by (simp add: set_SADD_def)
    then have "live_set (set_SADD db now k m) now k = Some ([m], None)" by (simp add: live_set_def)
    then show ?thesis using that [of None] None by (simp add: set_SMEMBERS_def)
  next
    case (Some x)
    then obtain ms e where x: "live_set db now k = Some (ms, e)" by (cases x) simp
    let ?ms = "if m \<in> set ms then ms else ms @ [m]"
    have "rd_sets (set_SADD db now k m) k = Some (?ms, e)" using x by (simp add: set_SADD_def)
    moreover have "e = None \<or> (\<exists>t. e = Some t \<and> now < t)"
      using x by (auto simp: live_set_def split: option.splits if_splits prod.splits)
    ultimately have "live_set (set_SADD db now k m) now k = Some (?ms, e)" by (auto simp: live_set_def)
    then show ?thesis using that [of e] x by (simp add: set_SMEMBERS_def Let_def)
  qed
  show ?thesis using px by (simp add: set_PEXPIRE_def live) (simp add: set_SADD_def)
qed

abbreviation slot_write :: "redisWebSocketPresence \<Rightarrow> redis_db \<Rightarrow> int \<Rightarrow> webSocketPresenceRecord \<Rightarrow> string \<Rightarrow> redis_db" where
  "slot_write ps db now r v \<equiv>
     set_PEXPIRE (set_SADD (str_SET_PX db now (sessionKey ps (pr_UserID r) (pr_SessionID r)) v (ttl_ms ps)) now
       (userSessionsKey ps (pr_UserID r)) (FormatInt (pr_SessionID r))) now (userSessionsKey ps (pr_UserID r)) (ttl_ms ps)"

lemma presence_inv_write:
  assumes inv: "presence_inv marshal ps db now" and good: "good_record r" and px: "0 < ttl_ms ps"
  shows "presence_inv marshal ps (slot_write ps db now r (marshal r)) now"
proof -
  let ?k1 = "sessionKey ps (pr_UserID r) (pr_SessionID r)" and ?k2 = "userSessionsKey ps (pr_UserID r)"
  let ?m = "FormatInt (pr_SessionID r)"
  let ?db = "slot_write ps db now r (marshal r)"
  let ?ms = "set_SMEMBERS db now ?k2"
  have strings: "rd_strings ?db = (rd_strings db)(?k1 \<mapsto> (marshal r, now + ttl_ms ps))"
    by (simp add: str_SET_PX_def)
  have members: "set_SMEMBERS (str_SET_PX db now ?k1 v px) now k = set_SMEMBERS db now k" for v px k
    by (simp add: set_SMEMBERS_def live_set_def)
  have sets: "rd_sets ?db = (rd_sets db)(?k2 \<mapsto> (if ?m \<in> set ?ms then ?ms else ?ms @ [?m], Some (now + ttl_ms ps)))"
    by (simp add: sets_after_add [OF px] members Let_def)
  have parts: "strings_ok marshal ps db now" "sets_ok db" "\<And>u s. indexed ps db now u s"
    using inv unfolding presence_inv_def by blast+
  have "strings_ok marshal ps ?db now"
    unfolding strings_ok_def
  proof (intro allI impI)
    fix k v e
    assume e: "rd_strings ?db k = Some (v, e)"
    show "e \<le> now + ttl_ms ps \<and> (\<exists>r. good_record r \<and> k = sessionKey ps (pr_UserID r) (pr_SessionID r) \<and> v = marshal r)"
    proof (cases "k = ?k1")
      case True
      then have "e = now + ttl_ms ps" "v = marshal r" using e unfolding strings by simp_all
      then show ?thesis using True good by blast
    next
      case False
      then show ?thesis using e parts(1) unfolding strings strings_ok_def by simp
    qed
  qed
  moreover have "sets_ok ?db"
    by (rule sets_ok_upd [OF parts(2) sets])
       (use sets_ok_members [OF parts(2), of now ?k2] good in \<open>auto simp: good_record_def valid_def\<close>)
  moreover have "indexed ps ?db now u s" for u s
    unfolding indexed_def
  proof (intro allI impI, elim conjE)
    fix v e
    assume e: "rd_strings ?db (sessionKey ps u s) = Some (v, e)" "now < e"
    show "\<exists>ms es. rd_sets ?db (userSessionsKey ps u) = Some (ms, Some es) \<and> FormatInt s \<in> set ms \<and> e \<le> es"
    proof (cases "u = pr_UserID r \<and> s = pr_SessionID r")
      case True
      then show ?thesis using e unfolding strings sets by simp
    next
      case False
      then have old: "rd_strings db (sessionKey ps u s) = Some (v, e)" using e unfolding strings by (auto split: if_splits)
      then have late: "e \<le> now + ttl_ms ps" using parts(1) unfolding strings_ok_def by blast
      obtain ms es where set: "rd_sets db (userSessionsKey ps u) = Some (ms, Some es)" "FormatInt s \<in> set ms" "e \<le> es"
        "set_SMEMBERS db now (userSessionsKey ps u) = ms"
        using indexedD [OF parts(3) old e(2)] .
      show ?thesis
      proof (cases "u = pr_UserID r")
        case True
        then show ?thesis unfolding sets using set late by simp
      next
        case False
        then show ?thesis unfolding sets using set by simp
      qed
    qed
  qed
  ultimately show ?thesis unfolding presence_inv_def by blast
qed

lemma presence_inv_weaker_sets:
  assumes inv: "presence_inv marshal ps db now" and strings: "\<And>k v e. rd_strings db' k = Some (v, e) \<Longrightarrow> rd_strings db k = Some (v, e)"
    and sets: "rd_sets db' = (rd_sets db)(userSessionsKey ps u := x)"
    and x: "x = None \<or> (\<exists>ms' ms e. rd_sets db (userSessionsKey ps u) = Some (ms, e) \<and> x = Some (ms', e) \<and> distinct ms' \<and> set ms' \<subseteq> set ms)"
    and kept: "\<And>s v e. rd_strings db' (sessionKey ps u s) = Some (v, e) \<Longrightarrow> now < e \<Longrightarrow> \<exists>ms' e. x = Some (ms', e) \<and> FormatInt s \<in> set ms'"
  shows "presence_inv marshal ps db' now"
proof -
  have parts: "strings_ok marshal ps db now" "sets_ok db" "\<And>u s. indexed ps db now u s"
    using inv unfolding presence_inv_def by blast+
  have "strings_ok marshal ps db' now" using parts(1) strings unfolding strings_ok_def by blast
  moreover have "sets_ok db'"
  proof (rule sets_ok_upd [OF parts(2) sets])
    fix ms' e
    assume "x = Some (ms', e)"
    then obtain ms where "rd_sets db (userSessionsKey ps u) = Some (ms, e)" "distinct ms'" "set ms' \<subseteq> set ms" using x by auto
    then show "distinct ms' \<and> (\<forall>m \<in> set ms'. \<exists>s. m = FormatInt s \<and> 0 < s \<and> fits_int64 s)"
      using sets_okD [OF parts(2)] by blast
  qed
  moreover have "indexed ps db' now v s" for v s
    unfolding indexed_def
  proof (intro allI impI, elim conjE)
    fix w e
    assume e: "rd_strings db' (sessionKey ps v s) = Some (w, e)" "now < e"
    obtain ms es where set: "rd_sets db (userSessionsKey ps v) = Some (ms, Some es)" "FormatInt s \<in> set ms" "e \<le> es"
      using indexedD [OF parts(3) strings [OF e(1)] e(2)] by metis
    show "\<exists>ms es. rd_sets db' (userSessionsKey ps v) = Some (ms, Some es) \<and> FormatInt s \<in> set ms \<and> e \<le> es"
    proof (cases "v = u")
      case True
      then obtain ms' e' where x': "x = Some (ms', e')" "FormatInt s \<in> set ms'" using kept e by blast
      then have "e' = Some es" using x set(1) True by auto
      then show ?thesis unfolding sets using True x' set(3) by simp
    next
      case False
      then show ?thesis unfolding sets using set by simp
    qed
  qed
  ultimately show ?thesis unfolding presence_inv_def by blast
qed

lemma presence_inv_SREM:
  assumes inv: "presence_inv marshal ps db now"
    and gone: "\<And>s. FormatInt s \<in> set gone \<Longrightarrow> str_GET db now (sessionKey ps u s) = None"
  shows "presence_inv marshal ps (set_SREM db now (userSessionsKey ps u) gone) now"
proof (cases "live_set db now (userSessionsKey ps u)")
  case None
  then show ?thesis using inv by (simp add: set_SREM_def)
next
  case (Some x)
  then obtain ms e where live: "live_set db now (userSessionsKey ps u) = Some (ms, e)" by (cases x) simp
  note old = live_setD [OF live]
  let ?ms = "filter (\<lambda>m. m \<notin> set gone) ms"
  have "distinct ms" using sets_okD [OF _ old] inv unfolding presence_inv_def by blast
  have sets: "rd_sets (set_SREM db now (userSessionsKey ps u) gone) =
      (rd_sets db)(userSessionsKey ps u := if ?ms = [] then None else Some (?ms, e))"
    by (simp add: set_SREM_def live Let_def)
  show ?thesis
  proof (rule presence_inv_weaker_sets [OF inv _ sets])
    show "(if ?ms = [] then None else Some (?ms, e)) = None \<or> (\<exists>ms' ms'' e'. rd_sets db (userSessionsKey ps u) = Some (ms'', e')
        \<and> (if ?ms = [] then None else Some (?ms, e)) = Some (ms', e') \<and> distinct ms' \<and> set ms' \<subseteq> set ms'')"
      using old \<open>distinct ms\<close> by (cases "?ms = []") auto
  next
    fix s v t
    assume "rd_strings (set_SREM db now (userSessionsKey ps u) gone) (sessionKey ps u s) = Some (v, t)" "now < t"
    then have str: "rd_strings db (sessionKey ps u s) = Some (v, t)" "now < t" by simp_all
    then have "str_GET db now (sessionKey ps u s) = Some v" by (simp add: str_GET_def)
    then have "FormatInt s \<notin> set gone" using gone [of s] by auto
    moreover have "indexed ps db now u s" using inv unfolding presence_inv_def by blast
    then have "FormatInt s \<in> set ms" using str old unfolding indexed_def by fastforce
    ultimately have "FormatInt s \<in> set ?ms" by simp
    then show "\<exists>ms' e'. (if ?ms = [] then None else Some (?ms, e)) = Some (ms', e') \<and> FormatInt s \<in> set ms'"
      by (intro exI [of _ ?ms] exI [of _ e]) (auto simp: filter_empty_conv)
  qed simp
qed

lemma presence_inv_no_members:
  assumes inv: "presence_inv marshal ps db now" and "set_SMEMBERS db now (userSessionsKey ps u) = []"
  shows "presence_inv marshal ps (set_DEL db (userSessionsKey ps u)) now"
proof (rule presence_inv_weaker_sets [OF inv])
  show "rd_sets (set_DEL db (userSessionsKey ps u)) = (rd_sets db)(userSessionsKey ps u := None)" by (simp add: set_DEL_def)
next
  fix s v e
  assume "rd_strings (set_DEL db (userSessionsKey ps u)) (sessionKey ps u s) = Some (v, e)" "now < e"
  then have str: "rd_strings db (sessionKey ps u s) = Some (v, e)" "now < e" by simp_all
  moreover have "indexed ps db now u s" using inv unfolding presence_inv_def by blast
  ultimately show "\<exists>ms' e. None = Some (ms', e) \<and> FormatInt s \<in> set ms'"
    using indexedD assms(2) by (metis empty_iff list.set(1))
qed simp_all

lemma presence_inv_DEL:
  assumes "presence_inv marshal ps db now"
  shows "presence_inv marshal ps (str_DEL db k) now"
proof -
  have old: "rd_strings db k' = Some (v, e)" if "rd_strings (str_DEL db k) k' = Some (v, e)" for k' v e
    using that by (simp add: str_DEL_def split: if_splits)
  have parts: "strings_ok marshal ps db now" "sets_ok db" "\<And>u s. indexed ps db now u s"
    using assms unfolding presence_inv_def by blast+
  have "strings_ok marshal ps (str_DEL db k) now" using parts(1) old unfolding strings_ok_def by blast
  moreover have "sets_ok (str_DEL db k)" using parts(2) by (simp add: sets_ok_def)
  moreover have "indexed ps (str_DEL db k) now u s" for u s
    using parts(3) [of u s] old unfolding indexed_def by simp
  ultimately show ?thesis unfolding presence_inv_def by blast
qed

lemma presence_inv_time:
  assumes "presence_inv marshal ps db now" and "now \<le> now'"
  shows "presence_inv marshal ps db now'"
proof -
  have "strings_ok marshal ps db now'"
    using assms unfolding presence_inv_def strings_ok_def by fastforce
  moreover have "indexed ps db now' u s" for u s
  proof -
    have "indexed ps db now u s" using assms(1) unfolding presence_inv_def by blast
    then show ?thesis using assms(2) unfolding indexed_def by (meson order_le_less_trans)
  qed
  ultimately show ?thesis using assms(1) unfolding presence_inv_def by blast
qed

lemma presence_inv_register:
  assumes "presence_inv marshal ps db now" and "fits_int64 (pr_UserID r)" "fits_int64 (pr_SessionID r)" and "0 < ttl_ms ps"
  shows "presence_inv marshal ps (snd (presenceRegister marshal unmarshal ps call now r db)) now"
proof (cases "valid r")
  case True
  have written: "presence_inv marshal ps (slot_write ps db now r (marshal r)) now"
    by (rule presence_inv_write [OF assms(1) _ assms(4)]) (use True assms(2,3) in \<open>simp add: good_record_def\<close>)
  have "snd (presenceRegister marshal unmarshal ps call now r db) \<in> {db, slot_write ps db now r (marshal r)}"
    using True assms(4) by (simp add: presenceRegister_def encoded_def registerWebSocketPresence_def Let_def
        split: redis_call.split option.split)
  then show ?thesis using written assms(1) by auto
next
  case False
  then show ?thesis using assms(1) by (simp add: presenceRegister_def encoded_def)
qed

lemma str_PEXPIRE_live: "str_GET db now k = Some v \<Longrightarrow> 0 < px \<Longrightarrow> str_PEXPIRE db now k px = str_SET_PX db now k v px"
  by (simp add: str_PEXPIRE_def str_SET_PX_def)

lemma presence_inv_refresh:
  assumes "presence_inv marshal ps db now" and "fits_int64 (pr_UserID r)" "fits_int64 (pr_SessionID r)" and "0 < ttl_ms ps"
  shows "presence_inv marshal ps (snd (presenceRefresh marshal ps call now r db)) now"
proof (cases "valid r")
  case True
  have written: "presence_inv marshal ps (slot_write ps db now r (marshal r)) now"
    by (rule presence_inv_write [OF assms(1) _ assms(4)]) (use True assms(2,3) in \<open>simp add: good_record_def\<close>)
  have "snd (presenceRefresh marshal ps call now r db) \<in> {db, slot_write ps db now r (marshal r)}"
    using True assms(4) by (simp add: presenceRefresh_def encoded_def refreshWebSocketPresence_def Let_def str_PEXPIRE_live
        split: redis_call.split option.split)
  then show ?thesis using written assms(1) by auto
next
  case False
  then show ?thesis using assms(1) by (simp add: presenceRefresh_def encoded_def)
qed

lemma presence_inv_unregister:
  assumes inv: "presence_inv marshal ps db now"
  shows "presence_inv marshal ps (snd (presenceUnregister marshal ps call now r db)) now"
proof -
  let ?k1 = "sessionKey ps (pr_UserID r) (pr_SessionID r)" and ?k2 = "userSessionsKey ps (pr_UserID r)"
  let ?db1 = "set_SREM (str_DEL db ?k1) now ?k2 [FormatInt (pr_SessionID r)]"
  have db1: "presence_inv marshal ps ?db1 now"
    by (rule presence_inv_SREM [OF presence_inv_DEL [OF inv]]) (simp add: FormatInt_inj str_GET_DEL)
  then have "set_SCARD ?db1 now ?k2 = 0 \<Longrightarrow> presence_inv marshal ps (set_DEL ?db1 ?k2) now"
    by (rule presence_inv_no_members) (simp add: set_SCARD_def)
  moreover have "snd (presenceUnregister marshal ps call now r db)
      \<in> {db, if set_SCARD ?db1 now ?k2 = 0 then set_DEL ?db1 ?k2 else ?db1}"
    by (simp add: presenceUnregister_def encoded_def unregisterWebSocketPresence_def Let_def split: redis_call.split)
  ultimately show ?thesis using db1 inv by (auto split: if_splits)
qed

section \<open>Lookups\<close>

lemma scanSessions_formatted:
  "\<forall>s \<in> set sids. 0 < s \<and> fits_int64 s \<Longrightarrow>
   scanSessions ps u (map FormatInt sids) l =
     l\<lparr>lk_sessionIDs := lk_sessionIDs l @ sids, lk_keys := lk_keys l @ map (sessionKey ps u) sids\<rparr>"
  by (induction sids arbitrary: l) (simp_all add: ParseInt_FormatInt)

lemma scanValues_decoded:
  assumes "\<forall>(s, v) \<in> set pairs. \<forall>x. v = Some x \<longrightarrow> (\<exists>r. unmarshal x = Some r \<and> valid r \<and> pr_UserID r = u \<and> pr_SessionID r = s)"
  shows "scanValues unmarshal u pairs rs st =
     (rs @ List.map_filter (\<lambda>(s, v). Option.bind v unmarshal) pairs, st @ map (FormatInt \<circ> fst) (filter (\<lambda>p. snd p = None) pairs))"
  using assms
proof (induction pairs arbitrary: rs st)
  case (Cons p pairs)
  obtain s v where p: "p = (s, v)" by (cases p)
  show ?case
  proof (cases v)
    case None
    then show ?thesis using Cons p by simp
  next
    case (Some x)
    then obtain r where "unmarshal x = Some r" "valid r" "pr_UserID r = u" "pr_SessionID r = s" using Cons.prems p by auto
    then show ?thesis using Cons p Some by simp
  qed
qed simp

lemma map_filter_ids:
  assumes "\<forall>(s, v) \<in> set pairs. \<forall>x. v = Some x \<longrightarrow> (\<exists>r. unmarshal x = Some r \<and> valid r \<and> pr_UserID r = u \<and> pr_SessionID r = s)"
  shows "map pr_SessionID (List.map_filter (\<lambda>(s, v). Option.bind v unmarshal) pairs) = map fst (filter (\<lambda>p. snd p \<noteq> None) pairs)"
  using assms
proof (induction pairs)
  case (Cons p pairs)
  obtain s v where p: "p = (s, v)" by (cases p)
  show ?case using Cons by (cases v) (auto simp: p)
qed simp

lemma formatted_list:
  "\<forall>m \<in> set ms. \<exists>s. m = FormatInt s \<and> 0 < s \<and> fits_int64 s \<Longrightarrow>
   \<exists>sids. ms = map FormatInt sids \<and> (\<forall>s \<in> set sids. 0 < s \<and> fits_int64 s)"
proof (induction ms)
  case (Cons m ms)
  then obtain sids s where "ms = map FormatInt sids" "\<forall>s \<in> set sids. 0 < s \<and> fits_int64 s" "m = FormatInt s" "0 < s" "fits_int64 s"
    by auto
  then show ?case by (intro exI [of _ "s # sids"]) simp
qed simp

lemma stored_value:
  assumes "presence_inv marshal ps db now" and "str_GET db now (sessionKey ps u s) = Some v"
  obtains r where "good_record r" "pr_UserID r = u" "pr_SessionID r = s" "v = marshal r"
proof -
  obtain e where "rd_strings db (sessionKey ps u s) = Some (v, e)"
    using assms(2) by (auto simp: str_GET_def split: option.splits if_splits)
  then obtain r where r: "good_record r" "sessionKey ps u s = sessionKey ps (pr_UserID r) (pr_SessionID r)" "v = marshal r"
    using assms(1) unfolding presence_inv_def strings_ok_def by blast
  then show ?thesis using that by simp
qed

lemma live_is_member:
  assumes "presence_inv marshal ps db now" and "str_GET db now (sessionKey ps u s) = Some v"
  shows "FormatInt s \<in> set (set_SMEMBERS db now (userSessionsKey ps u))"
proof -
  obtain e where e: "rd_strings db (sessionKey ps u s) = Some (v, e)" "now < e"
    using assms(2) by (auto simp: str_GET_def split: option.splits if_splits)
  have "indexed ps db now u s" using assms(1) unfolding presence_inv_def by blast
  then show ?thesis using indexedD e by metis
qed

lemma lookupUser_exact:
  assumes inv: "presence_inv marshal ps db now" and json: "json_round_trip marshal unmarshal"
  shows "\<exists>records stale. lookupUser unmarshal ps (quiet db now) u = Inr (records, stale)
    \<and> set records = live_records marshal ps db now u \<and> distinct (map pr_SessionID records)
    \<and> (\<forall>s. FormatInt s \<in> set stale \<longrightarrow> str_GET db now (sessionKey ps u s) = None)"
proof -
  let ?get = "\<lambda>s. str_GET db now (sessionKey ps u s)"
  have ok: "sets_ok db" using inv unfolding presence_inv_def by blast
  obtain sids where sids: "set_SMEMBERS db now (userSessionsKey ps u) = map FormatInt sids" "\<forall>s \<in> set sids. 0 < s \<and> fits_int64 s"
    using formatted_list [OF sets_ok_members(2) [OF ok]] by blast
  have dist: "distinct sids" using sets_ok_members(1) [OF ok, of now "userSessionsKey ps u"] unfolding sids(1) by (rule distinct_mapD)
  have look: "sessionLookup ps (quiet db now) u = \<lparr>lk_sessionIDs = sids, lk_keys = map (sessionKey ps u) sids, lk_staleValues = []\<rparr>"
    by (simp add: sessionLookup_def quiet_def sids(1) scanSessions_formatted [OF sids(2)])
  let ?pairs = "map (\<lambda>s. (s, ?get s)) sids"
  have pairs: "zip sids (map (str_GET db now) (map (sessionKey ps u) sids)) = ?pairs"
    by (simp add: zip_map2 zip_same_conv_map)
  have decoded: "\<exists>r. good_record r \<and> x = marshal r \<and> unmarshal x = Some r \<and> valid r \<and> pr_UserID r = u \<and> pr_SessionID r = s"
    if "?get s = Some x" for s x
    using stored_value [OF inv that] json unfolding json_round_trip_def good_record_def by metis
  have "\<forall>(s, v) \<in> set ?pairs. \<forall>x. v = Some x \<longrightarrow> (\<exists>r. unmarshal x = Some r \<and> valid r \<and> pr_UserID r = u \<and> pr_SessionID r = s)"
  proof (clarify)
    fix s x
    assume "(s, Some x) \<in> set ?pairs"
    then have "?get s = Some x" by auto
    then show "\<exists>r. unmarshal x = Some r \<and> valid r \<and> pr_UserID r = u \<and> pr_SessionID r = s" using decoded by blast
  qed
  note scan = scanValues_decoded [OF this, of "[]" "[]"] and ids = map_filter_ids [OF this]
  let ?records = "List.map_filter (\<lambda>(s, v). Option.bind v unmarshal) ?pairs"
  let ?stale = "map (FormatInt \<circ> fst) (filter (\<lambda>p. snd p = None) ?pairs)"
  have result: "lookupUser unmarshal ps (quiet db now) u = Inr (?records, ?stale)"
  proof (cases "sids = []")
    case True
    then show ?thesis by (simp add: lookupUser_def Let_def look)
  next
    case False
    then show ?thesis using scan pairs by (simp add: lookupUser_def Let_def look) (simp add: quiet_def comp_def)
  qed
  have mem: "r \<in> set ?records \<longleftrightarrow> (\<exists>s \<in> set sids. \<exists>x. ?get s = Some x \<and> unmarshal x = Some r)" for r
    unfolding set_map_filter_eq by (auto simp: Option.bind_eq_Some_conv)
  have "set ?records = live_records marshal ps db now u"
  proof (intro set_eqI iffI)
    fix r
    assume "r \<in> set ?records"
    then obtain s x where sx: "?get s = Some x" "unmarshal x = Some r" using mem by blast
    then show "r \<in> live_records marshal ps db now u" using decoded [OF sx(1)] unfolding live_records_def by auto
  next
    fix r
    assume r: "r \<in> live_records marshal ps db now u"
    then have get: "?get (pr_SessionID r) = Some (marshal r)" unfolding live_records_def by blast
    have "FormatInt (pr_SessionID r) \<in> set (map FormatInt sids)" using live_is_member [OF inv get] sids(1) by simp
    then have "pr_SessionID r \<in> set sids" by (auto simp: FormatInt_inj)
    moreover have "unmarshal (marshal r) = Some r"
      using json r unfolding json_round_trip_def live_records_def good_record_def by blast
    ultimately show "r \<in> set ?records" using mem get by blast
  qed
  moreover have "distinct (map pr_SessionID ?records)"
    unfolding ids using dist by (simp add: filter_map comp_def)
  moreover have "\<forall>s. FormatInt s \<in> set ?stale \<longrightarrow> ?get s = None" by (auto simp: FormatInt_inj)
  ultimately show ?thesis using result by blast
qed

lemma uniqueUsers_ok:
  "uniqueUsers us acc = Some l \<Longrightarrow> distinct acc \<Longrightarrow> distinct l \<and> set l = set acc \<union> set us \<and> (\<forall>u \<in> set us. 0 < u)"
proof (induction us arbitrary: acc)
  case (Cons u us)
  then have "0 < u" by (auto split: if_splits)
  then show ?case using Cons.IH [of acc] Cons.IH [of "acc @ [u]"] Cons.prems by (cases "u \<in> set acc") auto
qed simp

lemma uniqueUsers_total: "\<forall>u \<in> set us. 0 < u \<Longrightarrow> \<exists>l. uniqueUsers us acc = Some l"
  by (induction us arbitrary: acc) auto

lemma lookupAll_total:
  "\<forall>u \<in> set us. f u = Inr (g u) \<Longrightarrow> lookupAll f us = Inr (map (\<lambda>u. (u, g u)) us)"
  by (induction us) (auto split: prod.split)

lemma LookupUsers_quiet:
  assumes inv: "presence_inv marshal ps db now" and json: "json_round_trip marshal unmarshal" and pos: "\<forall>u \<in> set userIDs. 0 < u"
  shows "\<exists>found stale. LookupUsers unmarshal ps (quiet db now) userIDs = Inr (found, stale)
    \<and> dom found = set userIDs
    \<and> (\<forall>u \<in> set userIDs. \<exists>records. found u = Some records \<and> set records = live_records marshal ps db now u
          \<and> distinct (map pr_SessionID records))
    \<and> (\<forall>(u, gone) \<in> set stale. \<forall>s. FormatInt s \<in> set gone \<longrightarrow> str_GET db now (sessionKey ps u s) = None)"
proof -
  let ?f = "lookupUser unmarshal ps (quiet db now)"
  obtain l where l: "uniqueUsers userIDs [] = Some l" using uniqueUsers_total [OF pos] by blast
  have l_set: "distinct l" "set l = set userIDs" using uniqueUsers_ok [OF l] by auto
  define g where "g u = projr (?f u)" for u
  have exact: "?f u = Inr (g u) \<and> set (fst (g u)) = live_records marshal ps db now u \<and> distinct (map pr_SessionID (fst (g u)))
     \<and> (\<forall>s. FormatInt s \<in> set (snd (g u)) \<longrightarrow> str_GET db now (sessionKey ps u s) = None)" for u
    using lookupUser_exact [OF inv json, of u] unfolding g_def by (elim exE conjE) simp
  have all: "lookupAll ?f (sort l) = Inr (map (\<lambda>u. (u, g u)) (sort l))"
    by (rule lookupAll_total) (use exact in blast)
  let ?found = "map_of (map (\<lambda>(u, records, stale). (u, records)) (map (\<lambda>u. (u, g u)) (sort l)))"
  let ?stale = "map (\<lambda>(u, records, stale). (u, stale)) (map (\<lambda>u. (u, g u)) (sort l))"
  have maps: "map (\<lambda>(u, records, stale). (u, records)) (map (\<lambda>u. (u, g u)) (sort l)) = map (\<lambda>u. (u, fst (g u))) (sort l)"
    "?stale = map (\<lambda>u. (u, snd (g u))) (sort l)"
    by (simp_all add: case_prod_unfold comp_def)
  have result: "LookupUsers unmarshal ps (quiet db now) userIDs =
      (if sort l = [] then Inr (Map.empty, []) else Inr (?found, ?stale))"
    using l all by (simp add: LookupUsers_def Let_def) (simp add: quiet_def)
  then have result: "LookupUsers unmarshal ps (quiet db now) userIDs = Inr (?found, ?stale)"
    by (cases "sort l = []") simp_all
  have found: "?found u = (if u \<in> set userIDs then Some (fst (g u)) else None)" for u
    unfolding maps by (auto simp: map_of_map_restrict restrict_map_def l_set(2))
  show ?thesis
  proof (intro exI conjI ballI)
    show "LookupUsers unmarshal ps (quiet db now) userIDs = Inr (?found, ?stale)" by (rule result)
    show "dom ?found = set userIDs" unfolding dom_def found by (simp split: if_splits)
  next
    fix u
    assume "u \<in> set userIDs"
    then show "set (fst (g u)) = live_records marshal ps db now u" "distinct (map pr_SessionID (fst (g u)))"
      "?found u = Some (fst (g u))" using exact found by simp_all
  next
    fix x
    assume "x \<in> set ?stale"
    then obtain u where "x = (u, snd (g u))" unfolding maps by auto
    then show "case x of (u, gone) \<Rightarrow> \<forall>s. FormatInt s \<in> set gone \<longrightarrow> str_GET db now (sessionKey ps u s) = None"
      using exact by simp
  qed
qed

lemma presence_inv_cleanup:
  assumes "presence_inv marshal ps db now"
    and "\<forall>(u, gone) \<in> set stale. \<forall>s. FormatInt s \<in> set gone \<longrightarrow> str_GET db now (sessionKey ps u s) = None"
  shows "presence_inv marshal ps (removeStaleMembersForUsers ps now stale db) now"
  using assms unfolding removeStaleMembersForUsers_def
proof (induction stale arbitrary: db)
  case (Cons x stale)
  obtain u gone where x: "x = (u, gone)" by (cases x)
  let ?db = "if gone \<noteq> [] then set_SREM db now (userSessionsKey ps u) gone else db"
  have "presence_inv marshal ps ?db now"
    using presence_inv_SREM [OF Cons.prems(1), of gone u] Cons.prems x by simp
  moreover have "\<forall>(u, gone) \<in> set stale. \<forall>s. FormatInt s \<in> set gone \<longrightarrow> str_GET ?db now (sessionKey ps u s) = None"
    using Cons.prems(2) by simp
  ultimately show ?case using Cons.IH x by simp
qed simp

lemma presence_run_inv:
  assumes "presence_run marshal unmarshal ps db now" and "json_round_trip marshal unmarshal" and "0 < ttl_ms ps"
  shows "presence_inv marshal ps db now"
  using assms(1)
proof (induction rule: presence_run.induct)
  case (run_empty now)
  then show ?case by (simp add: presence_inv_def strings_ok_def sets_ok_def indexed_def)
next
  case (run_time db now now')
  show ?case by (rule presence_inv_time [OF run_time.IH run_time.hyps(2)])
next
  case (run_register db now r call)
  show ?case by (rule presence_inv_register [OF run_register.IH run_register.hyps(2,3) assms(3)])
next
  case (run_refresh db now r call)
  show ?case by (rule presence_inv_refresh [OF run_refresh.IH run_refresh.hyps(2,3) assms(3)])
next
  case (run_unregister db now call r)
  show ?case by (rule presence_inv_unregister [OF run_unregister.IH])
next
  case (run_cleanup db now userIDs found stale)
  have pos: "\<forall>u \<in> set userIDs. 0 < u"
    using run_cleanup.hyps(2) uniqueUsers_ok [of userIDs "[]"] by (auto simp: LookupUsers_def split: option.splits)
  have "\<forall>(u, gone) \<in> set stale. \<forall>s. FormatInt s \<in> set gone \<longrightarrow> str_GET db now (sessionKey ps u s) = None"
  proof -
    obtain found' stale' where look: "LookupUsers unmarshal ps (quiet db now) userIDs = Inr (found', stale')"
      and gone: "\<forall>(u, gone) \<in> set stale'. \<forall>s. FormatInt s \<in> set gone \<longrightarrow> str_GET db now (sessionKey ps u s) = None"
      using LookupUsers_quiet [OF run_cleanup.IH assms(2) pos] by (elim exE conjE)
    have "stale' = stale" using look run_cleanup.hyps(2) by simp
    then show ?thesis using gone by (simp only:)
  qed
  then show ?case by (rule presence_inv_cleanup [OF run_cleanup.IH])
qed

section \<open>Properties\<close>


text \<open>
  A connection that another has replaced can neither renew nor release the session: while the
  session is held by a different record, a renewal answers that ownership is lost, a release
  answers false, and neither changes Redis, whether or not the answer arrives.
\<close>

theorem replaced_connection_is_powerless:
  assumes "json_round_trip marshal unmarshal" and "good_record r" and "good_record r'" and "r' \<noteq> r"
    and "str_GET db now (sessionKey ps (pr_UserID r) (pr_SessionID r)) = Some (marshal r')"
  shows "snd (presenceRefresh marshal ps call now r db) = db \<and> snd (presenceUnregister marshal ps call now r db) = db
    \<and> fst (presenceRefresh marshal ps CallOk now r db) = Inr webSocketPresenceLost
    \<and> fst (presenceUnregister marshal ps CallOk now r db) = Inr False"
proof -
  have "unmarshal (marshal r) = Some r" "unmarshal (marshal r') = Some r'"
    using assms(1-3) unfolding json_round_trip_def good_record_def by simp_all
  then have differ: "marshal r' \<noteq> marshal r" using assms(4) by auto
  show ?thesis using assms(2,5) differ
    by (simp add: good_record_def presenceRefresh_def presenceUnregister_def encoded_def refreshWebSocketPresence_def
        unregisterWebSocketPresence_def split: redis_call.split)
qed

text \<open>
  Whatever renewals and releases other connections send for a session at an instant, the
  connection that registered for it last keeps it.
\<close>

theorem last_registration_keeps_the_session:
  assumes "0 < ttl_ms ps" and "((userID, sessionID), record) \<notin> fst ` set calls"
  shows "slot_holder ps (fold (\<lambda>(cl, renews) db. snd (if renews then slot_renew ps now cl db else slot_drop ps now cl db)) calls
      (slot_put ps now ((userID, sessionID), record) db)) now (userID, sessionID) = Some record"
  using presence_slots.holder_survives_others [OF assms(1) _ assms(2)] presence_slots.put_holder [OF assms(1)] by simp

text \<open>
  The cleanup of a lookup does not look again before it removes: when a session that had
  expired registers between the lookup and its cleanup, the session is held and live, yet the
  next lookup of its user does not return it, until a renewal enters it into the set again.
\<close>

theorem cleanup_race_hides_a_live_session:
  "str_GET after_race 40002 (sessionKey small_presence 7 21) = Some (plain_marshal (small_record ''c9''))
   \<and> (case LookupUser plain_unmarshal small_presence (quiet after_race 40002) 7 of
        Inl _ \<Rightarrow> False | Inr (records, _) \<Rightarrow> map pr_SessionID records = [22])
   \<and> (case LookupUser plain_unmarshal small_presence
          (quiet (snd (presenceRefresh plain_marshal small_presence CallOk 40010 (small_record ''c9'') after_race)) 40010) 7 of
        Inl _ \<Rightarrow> False | Inr (records, _) \<Rightarrow> map pr_SessionID records = [22, 21])"
proof (intro conjI)
  show "str_GET after_race 40002 (sessionKey small_presence 7 21) = Some (plain_marshal (small_record ''c9''))" by code_simp
  show "case LookupUser plain_unmarshal small_presence (quiet after_race 40002) 7 of
      Inl _ \<Rightarrow> False | Inr (records, _) \<Rightarrow> map pr_SessionID records = [22]" by code_simp
  show "case LookupUser plain_unmarshal small_presence
        (quiet (snd (presenceRefresh plain_marshal small_presence CallOk 40010 (small_record ''c9'') after_race)) 40010) 7 of
      Inl _ \<Rightarrow> False | Inr (records, _) \<Rightarrow> map pr_SessionID records = [22, 21]" by code_simp
qed

section \<open>Witnesses\<close>

lemma until_brace_step: "CHR ''}'' \<notin> set x \<Longrightarrow> until_brace (x @ CHR ''}'' # y) = (x, y)"
proof -
  assume no: "CHR ''}'' \<notin> set x"
  have "takeWhile (\<lambda>c. c \<noteq> CHR ''}'') (x @ CHR ''}'' # y) = x"
    using no by (subst takeWhile_append2) auto
  moreover have "dropWhile (\<lambda>c. c \<noteq> CHR ''}'') (x @ CHR ''}'' # y) = CHR ''}'' # y"
    using no by (subst dropWhile_append2) auto
  ultimately show ?thesis by (simp add: until_brace_def)
qed

lemma plain_round_trip: "json_round_trip plain_marshal plain_unmarshal"
proof -
  have "CHR ''}'' \<notin> set (replicate n (CHR ''x''))" for n by simp
  then show ?thesis
    unfolding json_round_trip_def plain_marshal_def plain_unmarshal_def
    by (simp add: until_brace_step brace_not_in_FormatInt ParseInt_FormatInt)
qed

lemma small_ttl: "ttl_ms small_presence = 30000"
  by (simp add: small_presence_def Milliseconds_def Second_def Millisecond_def go_div_def)

lemma good_small: "k \<noteq> [] \<Longrightarrow> good_record (small_record k)"
  by (simp add: good_record_def valid_def small_record_def fits_int64_iff)

lemma one_presence_run: "presence_run plain_marshal plain_unmarshal small_presence one_presence 1000"
  unfolding one_presence_def no_redis_def
  by (rule run_register [OF run_empty]) (simp_all add: small_record_def fits_int64_iff)

lemma one_presence_holder:
  "str_GET one_presence 1000 (sessionKey small_presence 7 21) = Some (plain_marshal (small_record ''c0''))"
  using good_small [of "''c0''"]
  by (simp add: one_presence_def presenceRegister_def encoded_def good_record_def registerWebSocketPresence_def Let_def
      no_redis_def small_ttl str_GET_SET) (simp add: small_record_def str_GET_SET str_GET_def)


lemma replaced_connection_witness:
  "snd (presenceRefresh plain_marshal small_presence CallOk 1000 (small_record ''old'') one_presence) = one_presence
   \<and> fst (presenceRefresh plain_marshal small_presence CallOk 1000 (small_record ''old'') one_presence) = Inr webSocketPresenceLost"
  using replaced_connection_is_powerless [OF plain_round_trip good_small good_small, of "''old''" "''c0''" one_presence 1000 small_presence CallOk]
    one_presence_holder by (simp add: small_record_def)

lemma last_registration_witness:
  "slot_holder small_presence (snd (slot_drop small_presence 1000 ((7, 21), ''old'')
     (slot_put small_presence 1000 ((7, 21), ''new'') no_redis))) 1000 (7, 21) = Some ''new''"
  using last_registration_keeps_the_session [of small_presence 7 21 "''new''" "[(((7, 21), ''old''), False)]" 1000 no_redis]
  by (simp add: small_ttl)

end
