(* ===== verification/Router.thy ===== *)
theory Router
  imports Hub Presence
begin

text \<open>
  Routing between the instances of the service: \<^verbatim>\<open>realtime_router.go\<close>. A delivery goes to the hub of
  the own instance and, as a command on a Redis channel, once to every other instance that holds
  a connection of the receiver; the instance that receives a command hands it to its hub.

  What a call meets is its environment: how the hub answers, what the commands of a presence
  lookup see, in which order a map is visited, and what Redis answers to a PUBLISH. The state is
  the hub of the instance, the commands sent so far and the routing counters. The JSON encoding
  of a command is a parameter, and so is that of a presence record.

  At the end the instances are put together: \<open>cluster_publish\<close> is one delivery in the whole
  service, with every command handled by the instance it is for.
\<close>

section \<open>Commands and the router\<close>

record realtimeInstanceCommand =
  cm_Type :: string
  cm_ReceiverID :: int
  cm_ConnectionID :: string
  cm_Payload :: byte_string

definition realtimeCommandDeliver :: string where "realtimeCommandDeliver = ''deliver''"
definition realtimeCommandDisconnect :: string where "realtimeCommandDisconnect = ''disconnect''"

record redisRealtimeRouter =
  rr_presence :: redisWebSocketPresence
  rr_instanceID :: string
  rr_namespace :: string

definition newRedisRealtimeRouter ::
  "bool \<Rightarrow> redisWebSocketPresence option \<Rightarrow> bool \<Rightarrow> string \<Rightarrow> string + redisRealtimeRouter" where
  "newRedisRealtimeRouter has_client presence has_hub instanceID =
     (case presence of
        None \<Rightarrow> Inl ''realtime router requires Redis, presence, hub and instance identity''
      | Some ps \<Rightarrow>
          if \<not> has_client \<or> \<not> has_hub \<or> instanceID = []
          then Inl ''realtime router requires Redis, presence, hub and instance identity''
          else Inr \<lparr>rr_presence = ps, rr_instanceID = instanceID, rr_namespace = ps_namespace ps\<rparr>)"

definition instanceChannel :: "redisRealtimeRouter \<Rightarrow> string \<Rightarrow> string" where
  "instanceChannel router instanceID = rr_namespace router @ '':instance:'' @ instanceID"

text \<open>The answer to a PUBLISH: the number of subscribers, or an error after or before it took effect.\<close>

datatype publish_answer = Subscribers nat | PublishLost string bool

record route_env =
  re_hub :: hub_outcome
  re_lookup :: lookup_env
  re_order :: "string list \<Rightarrow> string list"
  re_redis :: "string \<Rightarrow> publish_answer"
  re_disconnect :: "string \<Rightarrow> hub_outcome"

record router_state =
  rs_hub :: webSocketHub
  rs_sent :: "(string \<times> string) list"
  rs_routing :: "(string \<times> string) list"

definition observeRouting :: "string \<Rightarrow> string \<Rightarrow> router_state \<Rightarrow> router_state" where
  "observeRouting stage outcome st = st\<lparr>rs_routing := rs_routing st @ [(stage, outcome)]\<rparr>"

definition redisPublish :: "route_env \<Rightarrow> string \<Rightarrow> string \<Rightarrow> router_state \<Rightarrow> (string + nat) \<times> router_state" where
  "redisPublish env channel message st =
     (case re_redis env channel of
        Subscribers n \<Rightarrow> (Inr n, st\<lparr>rs_sent := rs_sent st @ [(channel, message)]\<rparr>)
      | PublishLost err sent \<Rightarrow> (Inl err, if sent then st\<lparr>rs_sent := rs_sent st @ [(channel, message)]\<rparr> else st))"

section \<open>Publishing\<close>

definition publishLocal :: "route_env \<Rightarrow> int \<Rightarrow> byte_string \<Rightarrow> router_state \<Rightarrow> (string + nat) \<times> router_state" where
  "publishLocal env receiverID payload st =
     (case hubPublish (re_hub env) (rs_hub st) receiverID payload of
        (Inl err, hub) \<Rightarrow> (Inl err, observeRouting ''local_hub'' ''error'' (st\<lparr>rs_hub := hub\<rparr>))
      | (Inr delivered, hub) \<Rightarrow>
          (Inr delivered, observeRouting ''local_hub'' (if delivered = 0 then ''no_connection'' else ''delivered'') (st\<lparr>rs_hub := hub\<rparr>)))"

definition remoteInstances :: "redisRealtimeRouter \<Rightarrow> webSocketPresenceRecord list \<Rightarrow> string list" where
  "remoteInstances router records =
     remdups (map pr_InstanceID (filter (\<lambda>r. pr_InstanceID r \<noteq> rr_instanceID router) records))"

fun publishLoop ::
  "route_env \<Rightarrow> redisRealtimeRouter \<Rightarrow> string \<Rightarrow> string list \<Rightarrow> nat \<Rightarrow> router_state \<Rightarrow> string option \<times> nat \<times> router_state" where
  "publishLoop env router command [] delivered st = (None, delivered, st)"
| "publishLoop env router command (i # is) delivered st =
     (case redisPublish env (instanceChannel router i) command st of
        (Inl err, st') \<Rightarrow> (Some err, delivered, observeRouting ''redis_publish'' ''error'' st')
      | (Inr subscribers, st') \<Rightarrow>
          publishLoop env router command is (delivered + subscribers)
            (observeRouting ''redis_publish'' (if subscribers = 0 then ''no_subscriber'' else ''delivered'') st'))"

text \<open>The results of \<open>Publish\<close>: an error beside the number of deliveries.\<close>

definition publishRemote ::
  "(realtimeInstanceCommand \<Rightarrow> string + string) \<Rightarrow> route_env \<Rightarrow> redisRealtimeRouter \<Rightarrow> int \<Rightarrow> byte_string \<Rightarrow> nat \<Rightarrow>
   webSocketPresenceRecord list \<Rightarrow> router_state \<Rightarrow> string option \<times> nat \<times> router_state" where
  "publishRemote marshal env router receiverID payload delivered records st =
     (let remote = remoteInstances router records
      in if remote = [] then (None, delivered, st)
         else case marshal \<lparr>cm_Type = realtimeCommandDeliver, cm_ReceiverID = receiverID, cm_ConnectionID = [], cm_Payload = payload\<rparr> of
           Inl err \<Rightarrow> (Some err, delivered, st)
         | Inr command \<Rightarrow> publishLoop env router command (re_order env remote) delivered st)"

definition routerPublish ::
  "(realtimeInstanceCommand \<Rightarrow> string + string) \<Rightarrow> (string \<Rightarrow> webSocketPresenceRecord option) \<Rightarrow> route_env \<Rightarrow>
   redisRealtimeRouter \<Rightarrow> int \<Rightarrow> byte_string \<Rightarrow> router_state \<Rightarrow> string option \<times> nat \<times> router_state" where
  "routerPublish marshal unmarshal env router receiverID payload st =
     (case publishLocal env receiverID payload st of
        (Inl err, st1) \<Rightarrow> (Some err, 0, st1)
      | (Inr delivered, st1) \<Rightarrow>
          (case LookupUser unmarshal (rr_presence router) (re_lookup env) receiverID of
             Inl err \<Rightarrow> (Some err, delivered, observeRouting ''presence_lookup'' ''error'' st1)
           | Inr (records, _) \<Rightarrow>
               publishRemote marshal env router receiverID payload delivered records
                 (observeRouting ''presence_lookup'' ''success'' st1)))"

record redisRealtimeBatchRouter =
  br_recordsByUser :: "int \<rightharpoonup> webSocketPresenceRecord list"
  br_lookupErr :: "string option"

text \<open>A lookup that fails does not fail the batch: it is kept and reported by every publication.\<close>

definition PrepareDeliveryBatch ::
  "(string \<Rightarrow> webSocketPresenceRecord option) \<Rightarrow> route_env \<Rightarrow> redisRealtimeRouter \<Rightarrow> int list \<Rightarrow> router_state \<Rightarrow>
   redisRealtimeBatchRouter \<times> router_state" where
  "PrepareDeliveryBatch unmarshal env router userIDs st =
     (case LookupUsers unmarshal (rr_presence router) (re_lookup env) userIDs of
        Inl err \<Rightarrow> (\<lparr>br_recordsByUser = Map.empty, br_lookupErr = Some err\<rparr>, observeRouting ''presence_lookup'' ''error'' st)
      | Inr (recordsByUser, _) \<Rightarrow>
          (\<lparr>br_recordsByUser = recordsByUser, br_lookupErr = None\<rparr>,
           st\<lparr>rs_routing := rs_routing st @ replicate (card (dom recordsByUser)) (''presence_lookup'', ''success'')\<rparr>))"

definition batchPublish ::
  "(realtimeInstanceCommand \<Rightarrow> string + string) \<Rightarrow> route_env \<Rightarrow> redisRealtimeRouter \<Rightarrow> redisRealtimeBatchRouter \<Rightarrow>
   int \<Rightarrow> byte_string \<Rightarrow> router_state \<Rightarrow> string option \<times> nat \<times> router_state" where
  "batchPublish marshal env router batch receiverID payload st =
     (case publishLocal env receiverID payload st of
        (Inl err, st1) \<Rightarrow> (Some err, 0, st1)
      | (Inr delivered, st1) \<Rightarrow>
          (case br_lookupErr batch of
             Some err \<Rightarrow> (Some err, delivered, st1)
           | None \<Rightarrow>
               (case br_recordsByUser batch receiverID of
                  None \<Rightarrow> (Some (''user '' @ FormatInt receiverID @ '' was not prepared in the Presence batch''), delivered,
                           observeRouting ''presence_lookup'' ''missing_batch_user'' st1)
                | Some records \<Rightarrow> publishRemote marshal env router receiverID payload delivered records st1)))"

section \<open>Disconnecting\<close>

definition DisconnectReplaced ::
  "(realtimeInstanceCommand \<Rightarrow> string + string) \<Rightarrow> route_env \<Rightarrow> redisRealtimeRouter \<Rightarrow> webSocketPresenceRecord \<Rightarrow>
   router_state \<Rightarrow> string option \<times> router_state" where
  "DisconnectReplaced marshal env router record st =
     (if \<not> valid record then (Some ''replaced websocket connection is invalid'', st)
      else if pr_InstanceID record = rr_instanceID router
      then (let (err, hub) = hubDisconnectConnection (re_disconnect env (pr_ConnectionID record)) (rs_hub st)
                               (pr_UserID record) (pr_ConnectionID record)
            in (err, st\<lparr>rs_hub := hub\<rparr>))
      else case marshal \<lparr>cm_Type = realtimeCommandDisconnect, cm_ReceiverID = pr_UserID record,
                         cm_ConnectionID = pr_ConnectionID record, cm_Payload = []\<rparr> of
        Inl err \<Rightarrow> (Some err, st)
      | Inr command \<Rightarrow>
          (case redisPublish env (instanceChannel router (pr_InstanceID record)) command st of
             (Inl err, st') \<Rightarrow> (Some err, observeRouting ''redis_disconnect'' ''error'' st')
           | (Inr _, st') \<Rightarrow> (None, observeRouting ''redis_disconnect'' ''published'' st')))"

fun disconnectAll ::
  "(realtimeInstanceCommand \<Rightarrow> string + string) \<Rightarrow> route_env \<Rightarrow> redisRealtimeRouter \<Rightarrow> webSocketPresenceRecord list \<Rightarrow>
   string list \<Rightarrow> router_state \<Rightarrow> string list \<times> router_state" where
  "disconnectAll marshal env router [] errs st = (errs, st)"
| "disconnectAll marshal env router (r # rs) errs st =
     (case DisconnectReplaced marshal env router r st of
        (None, st') \<Rightarrow> disconnectAll marshal env router rs errs st'
      | (Some err, st') \<Rightarrow> disconnectAll marshal env router rs (errs @ [err]) st')"

text \<open>The joined errors are a list; none is success.\<close>

definition joinError :: "string option \<Rightarrow> string list" where
  "joinError e = (case e of None \<Rightarrow> [] | Some err \<Rightarrow> [err])"

definition routerDisconnectSession ::
  "(realtimeInstanceCommand \<Rightarrow> string + string) \<Rightarrow> (string \<Rightarrow> webSocketPresenceRecord option) \<Rightarrow> route_env \<Rightarrow>
   redisRealtimeRouter \<Rightarrow> int \<Rightarrow> int \<Rightarrow> router_state \<Rightarrow> string list \<times> router_state" where
  "routerDisconnectSession marshal unmarshal env router userID sessionID st =
     (let (localError, hub) = hubDisconnectSession (re_hub env) (rs_hub st) userID sessionID;
          st1 = st\<lparr>rs_hub := hub\<rparr>
      in case LookupUser unmarshal (rr_presence router) (re_lookup env) userID of
           Inl err \<Rightarrow> (joinError localError @ [err], st1)
         | Inr (records, _) \<Rightarrow>
             disconnectAll marshal env router (filter (\<lambda>r. pr_SessionID r = sessionID) records) (joinError localError) st1)"

definition routerDisconnectUser ::
  "(realtimeInstanceCommand \<Rightarrow> string + string) \<Rightarrow> (string \<Rightarrow> webSocketPresenceRecord option) \<Rightarrow> route_env \<Rightarrow>
   redisRealtimeRouter \<Rightarrow> int \<Rightarrow> router_state \<Rightarrow> string list \<times> router_state" where
  "routerDisconnectUser marshal unmarshal env router userID st =
     (let (localError, hub) = hubDisconnectUser (re_hub env) (rs_hub st) userID;
          st1 = st\<lparr>rs_hub := hub\<rparr>
      in case LookupUser unmarshal (rr_presence router) (re_lookup env) userID of
           Inl err \<Rightarrow> (joinError localError @ [err], st1)
         | Inr (records, _) \<Rightarrow> disconnectAll marshal env router records (joinError localError) st1)"

section \<open>Receiving\<close>

definition handleCommand ::
  "(string \<Rightarrow> realtimeInstanceCommand option) \<Rightarrow> hub_outcome \<Rightarrow> string \<Rightarrow> webSocketHub \<Rightarrow> string option \<times> webSocketHub" where
  "handleCommand unmarshal outcome message hub =
     (case unmarshal message of
        None \<Rightarrow> (Some ''decode command'', hub)
      | Some command \<Rightarrow>
          if cm_Type command = realtimeCommandDeliver
          then if cm_ReceiverID command \<le> 0 \<or> cm_Payload command = [] then (Some ''delivery command is incomplete'', hub)
               else (case hubPublish outcome hub (cm_ReceiverID command) (cm_Payload command) of
                       (Inl err, hub') \<Rightarrow> (Some err, hub') | (Inr _, hub') \<Rightarrow> (None, hub'))
          else if cm_Type command = realtimeCommandDisconnect
          then if cm_ReceiverID command \<le> 0 \<or> cm_ConnectionID command = [] then (Some ''disconnect command is incomplete'', hub)
               else hubDisconnectConnection outcome hub (cm_ReceiverID command) (cm_ConnectionID command)
          else (Some ''unsupported command type'', hub))"

text \<open>The messages of a subscription, each with the hub's answer; a bad one is counted and skipped.\<close>

fun receive :: "(string \<Rightarrow> realtimeInstanceCommand option) \<Rightarrow> (string \<times> hub_outcome) list \<Rightarrow> router_state \<Rightarrow> router_state" where
  "receive unmarshal [] st = st"
| "receive unmarshal ((message, outcome) # rest) st =
     (let (err, hub) = handleCommand unmarshal outcome message (rs_hub st)
      in receive unmarshal rest
           (observeRouting ''redis_receive'' (if err = None then ''success'' else ''error'') (st\<lparr>rs_hub := hub\<rparr>)))"

text \<open>The pause before the subscription is tried again, and the next one.\<close>

definition subscriptionDelay :: "(int \<Rightarrow> int) \<Rightarrow> duration \<Rightarrow> duration" where
  "subscriptionDelay rand_Int64N backoff = go_div backoff 2 + rand_Int64N (go_div backoff 2 + 1)"

definition nextSubscriptionBackoff :: "duration \<Rightarrow> duration" where
  "nextSubscriptionBackoff backoff =
     (if backoff < 10 * Second then (if backoff * 2 > 10 * Second then 10 * Second else backoff * 2) else backoff)"

fun subscriptionBackoff :: "nat \<Rightarrow> duration" where
  "subscriptionBackoff 0 = 250 * Millisecond"
| "subscriptionBackoff (Suc n) = nextSubscriptionBackoff (subscriptionBackoff n)"

definition newRealtimeInstanceID :: "string \<Rightarrow> string option \<Rightarrow> string option \<Rightarrow> string option" where
  "newRealtimeInstanceID configured hostname token =
     (case (if configured = [] then hostname else Some configured) of
        None \<Rightarrow> None
      | Some base \<Rightarrow> (case token of None \<Rightarrow> None | Some raw \<Rightarrow> Some (base @ ''-'' @ take 12 raw)))"

section \<open>The whole service\<close>

text \<open>
  One delivery from an instance: its own hub is served and every command it sends is handled by
  the hub of the instance whose channel it is on.
\<close>

definition handle_sent ::
  "(string \<Rightarrow> realtimeInstanceCommand option) \<Rightarrow> (string \<Rightarrow> string option) \<Rightarrow> (string \<times> string) list \<Rightarrow>
   (string \<Rightarrow> webSocketHub) \<Rightarrow> string \<Rightarrow> webSocketHub" where
  "handle_sent unmarshal owner sent hubs =
     fold (\<lambda>(channel, message) hs. case owner channel of
             None \<Rightarrow> hs | Some i \<Rightarrow> hs(i := snd (handleCommand unmarshal Answered message (hs i)))) sent hubs"

definition cluster_publish ::
  "(realtimeInstanceCommand \<Rightarrow> string + string) \<Rightarrow> (string \<Rightarrow> realtimeInstanceCommand option) \<Rightarrow> (string \<Rightarrow> string option) \<Rightarrow>
   route_env \<Rightarrow> redisRealtimeRouter \<Rightarrow> int \<Rightarrow> byte_string \<Rightarrow> webSocketPresenceRecord list \<Rightarrow>
   (string \<Rightarrow> webSocketHub) \<Rightarrow> string option \<times> (string \<Rightarrow> webSocketHub)" where
  "cluster_publish marshal unmarshal owner env router receiverID payload records hubs =
     (let me = rr_instanceID router;
          batch = \<lparr>br_recordsByUser = [receiverID \<mapsto> records], br_lookupErr = None\<rparr>;
          (err, _, st) = batchPublish marshal env router batch receiverID payload
                           \<lparr>rs_hub = hubs me, rs_sent = [], rs_routing = []\<rparr>
      in (err, handle_sent unmarshal owner (rs_sent st) (hubs(me := rs_hub st))))"

text \<open>What the transport promises: commands survive their encoding, every PUBLISH is answered, each
  channel has the instance it is named after, and a map is visited completely.\<close>

definition command_round_trip ::
  "(realtimeInstanceCommand \<Rightarrow> string + string) \<Rightarrow> (string \<Rightarrow> realtimeInstanceCommand option) \<Rightarrow> bool" where
  "command_round_trip marshal unmarshal \<longleftrightarrow> (\<forall>c. \<exists>m. marshal c = Inr m \<and> unmarshal m = Some c)"

definition undisturbed :: "route_env \<Rightarrow> bool" where
  "undisturbed env \<longleftrightarrow> re_hub env = Answered \<and> (\<forall>channel. \<exists>n. re_redis env channel = Subscribers n)
     \<and> (\<forall>xs. distinct xs \<longrightarrow> distinct (re_order env xs) \<and> set (re_order env xs) = set xs)"

text \<open>An example: two instances, with the connections of \<open>small_hub\<close> on each.\<close>

definition two_routers :: redisRealtimeRouter where
  "two_routers = \<lparr>rr_presence = small_presence, rr_instanceID = ''a'', rr_namespace = ''im:ws''\<rparr>"

definition small_env :: route_env where
  "small_env = \<lparr>re_hub = Answered, re_lookup = quiet no_redis 0, re_order = rev, re_redis = (\<lambda>_. Subscribers 1), re_disconnect = (\<lambda>_. Answered)\<rparr>"

definition channel_owner :: "string \<Rightarrow> string option" where
  "channel_owner channel = Some (drop 15 channel)"

text \<open>A stand-in for the encoding of commands: the lengths in unary, then the parts.\<close>

definition plain_command :: "realtimeInstanceCommand \<Rightarrow> string + string" where
  "plain_command c = Inr (replicate (length (cm_Type c)) (CHR ''x'') @ CHR ''}'' # replicate (length (cm_ConnectionID c)) (CHR ''x'') @
     CHR ''}'' # replicate (nat (cm_ReceiverID c)) (CHR ''x'') @ CHR ''}'' # replicate (nat (- cm_ReceiverID c)) (CHR ''x'') @ CHR ''}'' #
     cm_Type c @ cm_ConnectionID c @ cm_Payload c)"

definition parse_command :: "string \<Rightarrow> realtimeInstanceCommand option" where
  "parse_command s =
     (let (t, s1) = until_brace s; (k, s2) = until_brace s1; (p, s3) = until_brace s2; (n, s4) = until_brace s3
      in Some \<lparr>cm_Type = take (length t) s4, cm_ReceiverID = int (length p) - int (length n),
               cm_ConnectionID = take (length k) (drop (length t) s4), cm_Payload = drop (length k) (drop (length t) s4)\<rparr>)"

section \<open>Deliveries\<close>

lemma publishLocal_answered:
  "re_hub env = Answered \<Longrightarrow> publishLocal env u payload st =
     (Inr (fst (deliver (rs_hub st) u payload)),
      observeRouting ''local_hub'' (if fst (deliver (rs_hub st) u payload) = 0 then ''no_connection'' else ''delivered'')
        (st\<lparr>rs_hub := snd (deliver (rs_hub st) u payload)\<rparr>))"
  by (simp add: publishLocal_def hubPublish_def hubCall_def hubServe_def)

lemma observeRouting_fields [simp]:
  "rs_hub (observeRouting stage res st) = rs_hub st" "rs_sent (observeRouting stage res st) = rs_sent st"
  by (simp_all add: observeRouting_def)

lemma publishLoop_ok:
  assumes "\<forall>channel. \<exists>n. re_redis env channel = Subscribers n"
  shows "\<exists>n' st'. publishLoop env router command is n st = (None, n', st') \<and> rs_hub st' = rs_hub st
    \<and> rs_sent st' = rs_sent st @ map (\<lambda>i. (instanceChannel router i, command)) is"
proof (induction "is" arbitrary: n st)
  case (Cons i "is")
  obtain k where "re_redis env (instanceChannel router i) = Subscribers k" using assms by blast
  then show ?case
    using Cons [of "n + k" "observeRouting ''redis_publish'' (if k = 0 then ''no_subscriber'' else ''delivered'')
      (st\<lparr>rs_sent := rs_sent st @ [(instanceChannel router i, command)]\<rparr>)"]
    by (auto simp: redisPublish_def)
qed simp

lemma handle_deliver:
  assumes "unmarshal message = Some \<lparr>cm_Type = realtimeCommandDeliver, cm_ReceiverID = u, cm_ConnectionID = [], cm_Payload = payload\<rparr>"
    and "0 < u" and "payload \<noteq> []"
  shows "handleCommand unmarshal Answered message hub = (None, snd (deliver hub u payload))"
  using assms by (simp add: handleCommand_def hubPublish_def hubCall_def hubServe_def)

lemma handle_sent_deliver:
  assumes "unmarshal message = Some \<lparr>cm_Type = realtimeCommandDeliver, cm_ReceiverID = u, cm_ConnectionID = [], cm_Payload = payload\<rparr>"
    and "0 < u" and "payload \<noteq> []" and "\<forall>i. owner (instanceChannel router i) = Some i" and "distinct is"
  shows "handle_sent unmarshal owner (map (\<lambda>i. (instanceChannel router i, message)) is) hubs =
    (\<lambda>i. if i \<in> set is then snd (deliver (hubs i) u payload) else hubs i)"
  using assms(5) unfolding handle_sent_def
  by (induction "is" arbitrary: hubs) (auto simp: handle_deliver [where unmarshal = unmarshal and message = message, OF assms(1-3)] assms(4))

lemma remoteInstances_set:
  "set (remoteInstances router records) = pr_InstanceID ` set records - {rr_instanceID router}"
  "distinct (remoteInstances router records)"
  by (auto simp: remoteInstances_def)

lemma cluster_publish_hubs:
  assumes env: "undisturbed env" and json: "command_round_trip marshal unmarshal"
    and owner: "\<forall>i. owner (instanceChannel router i) = Some i" and u: "0 < u" and payload: "payload \<noteq> []"
  shows "cluster_publish marshal unmarshal owner env router u payload records hubs =
    (None, \<lambda>i. if i = rr_instanceID router \<or> i \<in> pr_InstanceID ` set records then snd (deliver (hubs i) u payload) else hubs i)"
proof -
  let ?me = "rr_instanceID router"
  let ?remote = "remoteInstances router records"
  let ?cmd = "\<lparr>cm_Type = realtimeCommandDeliver, cm_ReceiverID = u, cm_ConnectionID = [], cm_Payload = payload\<rparr>"
  let ?st = "\<lparr>rs_hub = hubs ?me, rs_sent = [], rs_routing = []\<rparr>"
  obtain m where m: "marshal ?cmd = Inr m" "unmarshal m = Some ?cmd" using json unfolding command_round_trip_def by blast
  have ans: "re_hub env = Answered" "\<forall>channel. \<exists>n. re_redis env channel = Subscribers n"
    using env unfolding undisturbed_def by blast+
  have order: "distinct (re_order env ?remote)" "set (re_order env ?remote) = pr_InstanceID ` set records - {?me}"
    using env remoteInstances_set [of router records] unfolding undisturbed_def by auto
  let ?n = "fst (deliver (hubs ?me) u payload)"
  define st1 where "st1 = observeRouting ''local_hub'' (if ?n = 0 then ''no_connection'' else ''delivered'')
      (?st\<lparr>rs_hub := snd (deliver (hubs ?me) u payload)\<rparr>)"
  have local: "publishLocal env u payload ?st = (Inr ?n, st1)"
    using publishLocal_answered [OF ans(1), of u payload ?st] by (simp add: st1_def)
  obtain n' st' where loop: "publishLoop env router m (re_order env ?remote) ?n st1 = (None, n', st')"
    "rs_hub st' = snd (deliver (hubs ?me) u payload)" "rs_sent st' = map (\<lambda>i. (instanceChannel router i, m)) (re_order env ?remote)"
    using publishLoop_ok [OF ans(2), of router m "re_order env ?remote" ?n st1] by (auto simp: st1_def)
  have remote: "\<exists>n'' st''. publishRemote marshal env router u payload ?n records st1 = (None, n'', st'')
      \<and> rs_hub st'' = snd (deliver (hubs ?me) u payload)
      \<and> rs_sent st'' = map (\<lambda>i. (instanceChannel router i, m)) (re_order env ?remote)"
  proof (cases "?remote = []")
    case True
    then have "set (re_order env ?remote) = {}" using order(2) remoteInstances_set(1) [of router records] by simp
    then have "re_order env ?remote = []" by simp
    then show ?thesis using True by (simp add: publishRemote_def st1_def)
  next
    case False
    then show ?thesis using m(1) loop by (simp add: publishRemote_def Let_def)
  qed
  then obtain n'' st'' where st'': "publishRemote marshal env router u payload ?n records st1 = (None, n'', st'')"
    "rs_hub st'' = snd (deliver (hubs ?me) u payload)"
    "rs_sent st'' = map (\<lambda>i. (instanceChannel router i, m)) (re_order env ?remote)" by blast
  have "cluster_publish marshal unmarshal owner env router u payload records hubs =
      (None, handle_sent unmarshal owner (rs_sent st'') (hubs(?me := rs_hub st'')))"
    by (simp add: cluster_publish_def Let_def batchPublish_def local st''(1))
  also have "handle_sent unmarshal owner (rs_sent st'') (hubs(?me := rs_hub st'')) =
     (\<lambda>i. if i = ?me \<or> i \<in> pr_InstanceID ` set records then snd (deliver (hubs i) u payload) else hubs i)"
    unfolding st''(2,3) handle_sent_deliver [where unmarshal = unmarshal and message = m and owner = owner, OF m(2) u payload owner order(1)] using order(2) by auto
  finally show ?thesis .
qed

section \<open>The pause between subscriptions\<close>

lemma subscriptionBackoff_bounds: "250 * Millisecond \<le> subscriptionBackoff n \<and> subscriptionBackoff n \<le> 10 * Second"
  by (induction n) (auto simp: nextSubscriptionBackoff_def Second_def Millisecond_def)

lemma subscriptionBackoff_mono: "subscriptionBackoff n \<le> subscriptionBackoff (Suc n)"
  using subscriptionBackoff_bounds [of n] by (simp add: nextSubscriptionBackoff_def Second_def Millisecond_def)

lemma subscriptionDelay_bounds:
  assumes "0 \<le> b" and "\<And>n. 0 < n \<Longrightarrow> 0 \<le> rand_Int64N n \<and> rand_Int64N n < n"
  shows "b div 2 \<le> subscriptionDelay rand_Int64N b" and "subscriptionDelay rand_Int64N b \<le> b"
  using assms(1) assms(2) [of "b div 2 + 1"] by (auto simp: subscriptionDelay_def go_div_nonneg)

section \<open>Properties\<close>


section \<open>Witnesses\<close>

lemma plain_command_round_trip: "command_round_trip plain_command parse_command"
  unfolding command_round_trip_def
proof
  fix c :: realtimeInstanceCommand
  have x: "CHR ''}'' \<notin> set (replicate n (CHR ''x''))" for n by simp
  have "parse_command (projr (plain_command c)) = Some c"
    unfolding plain_command_def parse_command_def sum.sel Let_def until_brace_step [OF x] case_prod_conv
    by simp
  then show "\<exists>m. plain_command c = Inr m \<and> parse_command m = Some c" by (simp add: plain_command_def)
qed


end
