(* ===== verification/WebSocketSession.thy ===== *)
theory WebSocketSession
  imports Router AuthSessions
begin

text \<open>
  The life of a websocket connection: the handshake, the checks that run beside it and the
  disconnection ordered by a revocation (\<^verbatim>\<open>serveWebSocket\<close>, \<^verbatim>\<open>maintainWebSocketSession\<close> and
  \<^verbatim>\<open>maintainWebSocketPresence\<close> in \<^verbatim>\<open>websocket.go\<close>, the two \<^verbatim>\<open>disconnect...WebSockets\<close> in \<^verbatim>\<open>auth.go\<close>).
  The handshake is three phases: the session row is read and locked, the connection is registered
  with the hub and in Redis, the lock is released. \<open>ws_run\<close> interleaves the phases of many
  handshakes with the transactions of the other handlers, which cannot revoke a locked session,
  with the requests of the hub and with the disconnections.
\<close>

section \<open>The handshake\<close>

definition StatusInternalError :: int where "StatusInternalError = 1011"

text \<open>The parts of the application a connection uses: the hub with the router, and Redis.\<close>

record ws_server =
  sv_router :: router_state
  sv_redis :: redis_db

abbreviation sv_hub :: "ws_server \<Rightarrow> webSocketHub" where
  "sv_hub sv \<equiv> rs_hub (sv_router sv)"

definition with_hub :: "webSocketHub \<Rightarrow> ws_server \<Rightarrow> ws_server" where
  "with_hub hub sv = sv\<lparr>sv_router := (sv_router sv)\<lparr>rs_hub := hub\<rparr>\<rparr>"

text \<open>The encodings of presence records and of commands between instances.\<close>

record ws_codecs =
  wc_marshal :: "webSocketPresenceRecord \<Rightarrow> string"
  wc_unmarshal :: "string \<Rightarrow> webSocketPresenceRecord option"
  wc_command :: "realtimeInstanceCommand \<Rightarrow> string + string"

record ws_env =
  wv_random :: "byte_string option"
  wv_begin_fails :: bool
  wv_select_fails :: bool
  wv_now :: timestamp
  wv_clock :: timestamp
  wv_register :: hub_outcome
  wv_presence :: redis_call
  wv_presence_now :: int
  wv_route :: route_env
  wv_commit_fails :: bool
  wv_cleanup :: hub_outcome
  wv_release :: redis_call
  wv_release_now :: int

datatype ws_result = WsError api_error | WsNotAccepted | WsClose int string | WsAdmitted | WsRegistered | WsRunning

text \<open>The row a session needs to be in to be served; the first reads it \<open>FOR SHARE\<close>.\<close>

definition active_session :: "timestamp \<Rightarrow> timestamp \<Rightarrow> int \<Rightarrow> int \<Rightarrow> db \<Rightarrow> bool" where
  "active_session now clock userID sessionID d \<longleftrightarrow>
     list_ex (\<lambda>s. s_id s = sessionID \<and> s_user_id s = userID \<and> live_session now clock s) (sessions d)"

text \<open>The client is allocated at the address \<open>p\<close>.\<close>

definition wsAdmit ::
  "(byte_string \<Rightarrow> byte_string) \<Rightarrow> ws_env \<Rightarrow> authenticated \<Rightarrow> nat \<Rightarrow> db \<Rightarrow> webSocketHub \<Rightarrow> ws_result \<times> webSocketHub" where
  "wsAdmit sha256 env who p d hub =
     (case newToken sha256 (wv_random env) of
        None \<Rightarrow> (WsClose StatusInternalError ''could not create connection'', hub)
      | Some identifier \<Rightarrow>
        (case newWebSocketClient (au_UserID who) (au_SessionID who) (gt_raw identifier) True defaultWebSocketClientConfig of
           Inl _ \<Rightarrow> (WsClose StatusInternalError ''could not create connection'', hub)
         | Inr client \<Rightarrow>
           (let hub1 = hub\<lparr>hub_heap := (hub_heap hub)(p := client)\<rparr>
            in if wv_begin_fails env \<or> wv_select_fails env
               then (WsClose StatusTryAgainLater ''session validation unavailable'',
                     shutdown hub1 p StatusTryAgainLater ''session validation unavailable'')
               else if \<not> active_session (wv_now env) (wv_clock env) (wk_userID client) (wk_sessionID client) d
               then (WsClose StatusPolicyViolation ''session revoked'', shutdown hub1 p StatusPolicyViolation ''session revoked'')
               else (WsAdmitted, hub1))))"

definition presence_record :: "redisRealtimeRouter \<Rightarrow> webSocketClient \<Rightarrow> webSocketPresenceRecord" where
  "presence_record router client =
     \<lparr>pr_UserID = wk_userID client, pr_SessionID = wk_sessionID client, pr_ConnectionID = wk_connectionID client,
      pr_InstanceID = rr_instanceID router\<rparr>"

definition wsAnnounce :: "ws_codecs \<Rightarrow> ws_env \<Rightarrow> redisRealtimeRouter \<Rightarrow> nat \<Rightarrow> ws_server \<Rightarrow> ws_server" where
  "wsAnnounce codecs env router p sv =
     (let record = presence_record router (hub_heap (sv_hub sv) p);
          (old, redis) = presenceRegister (wc_marshal codecs) (wc_unmarshal codecs) (rr_presence router)
                           (wv_presence env) (wv_presence_now env) record (sv_redis sv);
          sv1 = sv\<lparr>sv_redis := redis\<rparr>
      in case old of
           Inr (Some replaced) \<Rightarrow>
             if pr_ConnectionID replaced \<noteq> pr_ConnectionID record
             then sv1\<lparr>sv_router := snd (DisconnectReplaced (wc_command codecs) (wv_route env) router replaced (sv_router sv1))\<rparr>
             else sv1
         | _ \<Rightarrow> sv1)"

definition wsRegister :: "ws_codecs \<Rightarrow> ws_env \<Rightarrow> redisRealtimeRouter option \<Rightarrow> nat \<Rightarrow> ws_server \<Rightarrow> ws_result \<times> ws_server" where
  "wsRegister codecs env router p sv =
     (case Register (wv_register env) (sv_hub sv) p of
        (Some _, hub) \<Rightarrow> (WsClose StatusTryAgainLater ''realtime messaging is unavailable'', with_hub hub sv)
      | (None, hub) \<Rightarrow>
        (WsRegistered, case router of None \<Rightarrow> with_hub hub sv | Some r \<Rightarrow> wsAnnounce codecs env r p (with_hub hub sv)))"

text \<open>The deferred removal of the presence record.\<close>

definition wsRelease :: "ws_codecs \<Rightarrow> ws_env \<Rightarrow> redisRealtimeRouter option \<Rightarrow> nat \<Rightarrow> ws_server \<Rightarrow> ws_server" where
  "wsRelease codecs env router p sv =
     (case router of
        None \<Rightarrow> sv
      | Some r \<Rightarrow> sv\<lparr>sv_redis := snd (presenceUnregister (wc_marshal codecs) (rr_presence r) (wv_release env) (wv_release_now env)
                                     (presence_record r (hub_heap (sv_hub sv) p)) (sv_redis sv))\<rparr>)"

definition wsCommit :: "ws_codecs \<Rightarrow> ws_env \<Rightarrow> redisRealtimeRouter option \<Rightarrow> nat \<Rightarrow> ws_server \<Rightarrow> ws_result \<times> ws_server" where
  "wsCommit codecs env router p sv =
     (if wv_commit_fails env
      then (let hub1 = shutdown (sv_hub sv) p StatusTryAgainLater ''session validation unavailable'';
                hub2 = snd (Unregister (wv_cleanup env) hub1 p StatusTryAgainLater ''session validation unavailable'')
            in (WsClose StatusTryAgainLater ''session validation unavailable'', wsRelease codecs env router p (with_hub hub2 sv)))
      else (WsRunning, sv))"

text \<open>The handler up to the start of the connection's loops, and what follows their end.\<close>

definition serveWebSocket ::
  "ws_codecs \<Rightarrow> (byte_string \<Rightarrow> byte_string) \<Rightarrow> ws_env \<Rightarrow> bool \<Rightarrow> bool \<Rightarrow> redisRealtimeRouter option \<Rightarrow> authenticated \<Rightarrow> nat \<Rightarrow> db \<Rightarrow>
   ws_server \<Rightarrow> ws_result \<times> ws_server" where
  "serveWebSocket codecs sha256 env has_hub accepted router who p d sv =
     (if \<not> has_hub
      then (WsError (503, ''REALTIME_UNAVAILABLE'', ''realtime messaging is temporarily unavailable''), sv)
      else if \<not> accepted then (WsNotAccepted, sv)
      else case wsAdmit sha256 env who p d (sv_hub sv) of
        (WsAdmitted, hub) \<Rightarrow>
          (case wsRegister codecs env router p (with_hub hub sv) of
             (WsRegistered, sv1) \<Rightarrow> wsCommit codecs env router p sv1
           | (r, sv1) \<Rightarrow> (r, sv1))
      | (r, hub) \<Rightarrow> (r, with_hub hub sv))"

definition wsFinish :: "ws_codecs \<Rightarrow> ws_env \<Rightarrow> redisRealtimeRouter option \<Rightarrow> hub_outcome \<Rightarrow> bool \<Rightarrow> nat \<Rightarrow> ws_server \<Rightarrow> ws_server" where
  "wsFinish codecs env router outcome deadline_exceeded p sv =
     wsRelease codecs env router p (with_hub (clientRun outcome deadline_exceeded (sv_hub sv) p) sv)"

section \<open>The checks beside a connection\<close>

definition webSocketSessionCheckInterval :: duration where "webSocketSessionCheckInterval = 5 * Second"
definition webSocketSessionCheckTimeout :: duration where "webSocketSessionCheckTimeout = 2 * Second"

text \<open>What the loop meets: the end of its context, or a tick with the state the query sees, if it succeeds.\<close>

datatype session_event = ContextDone | SessionCheck "(timestamp \<times> timestamp \<times> db) option"

datatype monitor_result = Watching | Stopped | ShutDown int string | Unregistered int string

fun maintainWebSocketSession :: "session_event list \<Rightarrow> webSocketClient \<Rightarrow> monitor_result" where
  "maintainWebSocketSession [] client = Watching"
| "maintainWebSocketSession (ContextDone # events) client = Stopped"
| "maintainWebSocketSession (SessionCheck None # events) client = ShutDown StatusTryAgainLater ''session validation unavailable''"
| "maintainWebSocketSession (SessionCheck (Some (now, clock, d)) # events) client =
     (if active_session now clock (wk_userID client) (wk_sessionID client) d then maintainWebSocketSession events client
      else ShutDown StatusPolicyViolation ''session revoked'')"

text \<open>The renewal of the presence record; between two ticks others work on Redis.\<close>

datatype presence_event = PresenceDone | PresenceTick "redis_db \<Rightarrow> redis_db" redis_call int

fun maintainWebSocketPresence ::
  "ws_codecs \<Rightarrow> redisRealtimeRouter \<Rightarrow> webSocketPresenceRecord \<Rightarrow> presence_event list \<Rightarrow> redis_db \<Rightarrow> monitor_result \<times> redis_db" where
  "maintainWebSocketPresence codecs router record [] redis = (Watching, redis)"
| "maintainWebSocketPresence codecs router record (PresenceDone # events) redis = (Stopped, redis)"
| "maintainWebSocketPresence codecs router record (PresenceTick others call now # events) redis =
     (case presenceRefresh (wc_marshal codecs) (rr_presence router) call now record (others redis) of
        (Inr webSocketPresenceLost, redis') \<Rightarrow> (Unregistered StatusPolicyViolation ''connection ownership lost'', redis')
      | (_, redis') \<Rightarrow> maintainWebSocketPresence codecs router record events redis')"

section \<open>Disconnection\<close>

definition disconnectSessionWebSockets ::
  "ws_codecs \<Rightarrow> route_env \<Rightarrow> bool \<Rightarrow> redisRealtimeRouter option \<Rightarrow> int \<Rightarrow> int \<Rightarrow> ws_server \<Rightarrow> ws_server" where
  "disconnectSessionWebSockets codecs env has_hub router userID sessionID sv =
     (case router of
        Some r \<Rightarrow> sv\<lparr>sv_router := snd (routerDisconnectSession (wc_command codecs) (wc_unmarshal codecs) env r userID sessionID (sv_router sv))\<rparr>
      | None \<Rightarrow> if \<not> has_hub then sv else with_hub (snd (hubDisconnectSession (re_hub env) (sv_hub sv) userID sessionID)) sv)"

definition disconnectUserWebSockets ::
  "ws_codecs \<Rightarrow> route_env \<Rightarrow> bool \<Rightarrow> redisRealtimeRouter option \<Rightarrow> int \<Rightarrow> ws_server \<Rightarrow> ws_server" where
  "disconnectUserWebSockets codecs env has_hub router userID sv =
     (case router of
        Some r \<Rightarrow> sv\<lparr>sv_router := snd (routerDisconnectUser (wc_command codecs) (wc_unmarshal codecs) env r userID (sv_router sv))\<rparr>
      | None \<Rightarrow> if \<not> has_hub then sv else with_hub (snd (hubDisconnectUser (re_hub env) (sv_hub sv) userID)) sv)"

fun carry_out :: "ws_codecs \<Rightarrow> route_env \<Rightarrow> redisRealtimeRouter option \<Rightarrow> disconnection \<Rightarrow> ws_server \<Rightarrow> ws_server" where
  "carry_out codecs env router (DisconnectSessionOf u s) sv = disconnectSessionWebSockets codecs env True router u s sv"
| "carry_out codecs env router (DisconnectUserOf u) sv = disconnectUserWebSockets codecs env True router u sv"

fun concerns :: "disconnection \<Rightarrow> int \<Rightarrow> int \<Rightarrow> bool" where
  "concerns (DisconnectSessionOf u s) userID sessionID \<longleftrightarrow> u = userID \<and> s = sessionID"
| "concerns (DisconnectUserOf u) userID sessionID \<longleftrightarrow> u = userID"

section \<open>Connections among transactions\<close>

text \<open>
  The transactions that touch sessions, with the disconnections they order and whether the handler
  learned that its revocation is stored. A handler is called for the account of the session that
  authenticated it; a disconnection of a rotation is the one of a replay. Nothing is claimed here
  of registrations and logins, which revoke nothing.
\<close>

definition replay_order :: "(int \<times> int) option \<Rightarrow> disconnection list" where
  "replay_order x = (case x of None \<Rightarrow> [] | Some (u, i) \<Rightarrow> [DisconnectSessionOf u i])"

inductive auth_emit :: "db \<Rightarrow> disconnection list \<Rightarrow> bool \<Rightarrow> db \<Rightarrow> bool" where
  em_other: "auth_same d v \<Longrightarrow> auth_emit d [] True v"
| em_register: "auth_emit d [] False (snd (register cr env limiter body d))"
| em_login: "alone env \<Longrightarrow> auth_emit d [] False (snd (createIdempotentLogin cr env cipher account hash device request d))"
| em_rotate: "rotateRefreshToken cr env cipher token key d = (r, x, v) \<Longrightarrow> auth_emit d (replay_order x) (r \<noteq> RotationFailed) v"
| em_logout: "map_option s_user_id (find_session d i) = Some u \<Longrightarrow> logout env u i d = (r, orders, v)
     \<Longrightarrow> auth_emit d orders (r = NoBody 204) v"
| em_logoutAll: "logoutAll env u d = (r, orders, v) \<Longrightarrow> auth_emit d orders (r = NoBody 204) v"
| em_revoke: "revokeSession env u path d = (r, orders, v) \<Longrightarrow>
     auth_emit d orders (r = NoBody 204 \<or> r = APIError 404 ''SESSION_NOT_FOUND'' ''active session was not found'') v"
| em_password: "commitPasswordChange env u old new d = (r, orders, v) \<Longrightarrow> auth_emit d orders (r = NoBody 204) v"

definition newly_revoked :: "db \<Rightarrow> db \<Rightarrow> int \<Rightarrow> bool" where
  "newly_revoked d v i \<longleftrightarrow> (\<exists>s s'. find_session d i = Some s \<and> s_revoked_at s = None \<and> find_session v i = Some s' \<and> s_revoked_at s' \<noteq> None)"

text \<open>The sessions revoked without an order for the connections of their owner.\<close>

definition uncovered :: "disconnection list \<Rightarrow> db \<Rightarrow> db \<Rightarrow> int set" where
  "uncovered orders d v = {i. newly_revoked d v i \<and>
     (\<forall>s o'. find_session d i = Some s \<longrightarrow> o' \<in> set orders \<longrightarrow> \<not> concerns o' (s_user_id s) i)}"

datatype ws_phase = RowLocked | InHub

text \<open>
  The handshakes under way, the connections whose loops run, the orders not carried out yet, and
  the sessions that were revoked without one: the handler did not learn that its update is stored,
  the order failed, or it was given on another instance.
\<close>

record ws_world =
  w_db :: db
  w_sv :: ws_server
  w_shared :: "nat \<rightharpoonup> ws_phase"
  w_running :: "nat set"
  w_orders :: "disconnection list"
  w_lost :: "int set"

abbreviation w_hub :: "ws_world \<Rightarrow> webSocketHub" where
  "w_hub w \<equiv> sv_hub (w_sv w)"

abbreviation w_client :: "ws_world \<Rightarrow> nat \<Rightarrow> webSocketClient" where
  "w_client w p \<equiv> hub_heap (w_hub w) p"

definition in_use :: "ws_world \<Rightarrow> nat \<Rightarrow> bool" where
  "in_use w p \<longleftrightarrow> p \<in> w_running w \<or> p \<in> dom (w_shared w) \<or> (\<exists>u. p \<in> snd ` set (entries (w_hub w) u))"

definition starting_world :: "db \<Rightarrow> redis_db \<Rightarrow> ws_world" where
  "starting_world d redis =
     \<lparr>w_db = d, w_sv = \<lparr>sv_router = \<lparr>rs_hub = newWebSocketHub, rs_sent = [], rs_routing = []\<rparr>, sv_redis = redis\<rparr>,
      w_shared = Map.empty, w_running = {}, w_orders = [], w_lost = {}\<rparr>"

fun is_registration :: "hub_request \<Rightarrow> bool" where
  "is_registration (RegisterRequest p) = True"
| "is_registration _ = False"

text \<open>
  A registration that was served although its caller saw an error means that the hub has stopped,
  and then it is empty.
\<close>

inductive ws_run :: "ws_codecs \<Rightarrow> (byte_string \<Rightarrow> byte_string) \<Rightarrow> redisRealtimeRouter option \<Rightarrow> ws_world \<Rightarrow> bool"
  for codecs sha256 router where
  ws_start: "auth_inv d \<Longrightarrow> ws_run codecs sha256 router (starting_world d redis)"
| ws_admit: "ws_run codecs sha256 router w \<Longrightarrow> \<not> in_use w p \<Longrightarrow> wsAdmit sha256 env who p (w_db w) (w_hub w) = (r, hub) \<Longrightarrow>
     ws_run codecs sha256 router (w\<lparr>w_sv := with_hub hub (w_sv w),
       w_shared := (if r = WsAdmitted then (w_shared w)(p \<mapsto> RowLocked) else w_shared w)\<rparr>)"
| ws_register: "ws_run codecs sha256 router w \<Longrightarrow> w_shared w p = Some RowLocked \<Longrightarrow> fresh_request (w_hub w) (RegisterRequest p) \<Longrightarrow>
     wsRegister codecs env router p (w_sv w) = (WsRegistered, sv) \<Longrightarrow>
     ws_run codecs sha256 router (w\<lparr>w_sv := sv, w_shared := (w_shared w)(p \<mapsto> InHub)\<rparr>)"
| ws_not_registered: "ws_run codecs sha256 router w \<Longrightarrow> w_shared w p = Some RowLocked \<Longrightarrow> wv_register env = NotQueued err \<Longrightarrow>
     wsRegister codecs env router p (w_sv w) = (r, sv) \<Longrightarrow>
     ws_run codecs sha256 router (w\<lparr>w_sv := sv, w_shared := (w_shared w)(p := None)\<rparr>)"
| ws_abandoned: "ws_run codecs sha256 router w \<Longrightarrow> w_shared w p = Some RowLocked \<Longrightarrow> dom (hub_clients (w_hub w)) \<subseteq> set userIDs \<Longrightarrow>
     ws_run codecs sha256 router (w\<lparr>w_sv := with_hub (hubShutdown (w_hub w) userIDs) (w_sv w), w_shared := (w_shared w)(p := None)\<rparr>)"
| ws_commit: "ws_run codecs sha256 router w \<Longrightarrow> w_shared w p = Some InHub \<Longrightarrow> wsCommit codecs env router p (w_sv w) = (r, sv) \<Longrightarrow>
     ws_run codecs sha256 router (w\<lparr>w_sv := sv, w_shared := (w_shared w)(p := None),
       w_running := (if r = WsRunning then insert p (w_running w) else w_running w)\<rparr>)"
| ws_auth: "ws_run codecs sha256 router w \<Longrightarrow> auth_emit (w_db w) orders told v \<Longrightarrow>
     \<forall>p \<in> dom (w_shared w). \<not> newly_revoked (w_db w) v (wk_sessionID (w_client w p)) \<Longrightarrow>
     ws_run codecs sha256 router (w\<lparr>w_db := v, w_orders := w_orders w @ orders, w_lost := w_lost w \<union> uncovered orders (w_db w) v\<rparr>)"
| ws_order: "ws_run codecs sha256 router w \<Longrightarrow> w_orders w = before @ order # after \<Longrightarrow>
     ws_run codecs sha256 router (w\<lparr>w_sv := carry_out codecs env router order (w_sv w), w_orders := before @ after,
       w_lost := (if re_hub env = Answered then w_lost w else w_lost w \<union> {i. \<exists>u. concerns order u i})\<rparr>)"
| ws_serve: "ws_run codecs sha256 router w \<Longrightarrow> \<not> is_registration request \<Longrightarrow>
     ws_run codecs sha256 router (w\<lparr>w_sv := with_hub (hubServe (w_hub w) request) (w_sv w)\<rparr>)"
| ws_take: "ws_run codecs sha256 router w \<Longrightarrow> wk_send (w_client w p) = payload # queue \<Longrightarrow>
     ws_run codecs sha256 router (w\<lparr>w_sv := with_hub ((w_hub w)\<lparr>hub_heap := (hub_heap (w_hub w))(p := (w_client w p)\<lparr>wk_send := queue\<rparr>)\<rparr>) (w_sv w)\<rparr>)"
| ws_check: "ws_run codecs sha256 router w \<Longrightarrow> p \<in> w_running w \<Longrightarrow>
     maintainWebSocketSession [SessionCheck answer] (w_client w p) = ShutDown code reason \<Longrightarrow>
     ws_run codecs sha256 router (w\<lparr>w_sv := with_hub (shutdown (w_hub w) p code reason) (w_sv w)\<rparr>)"
| ws_finish: "ws_run codecs sha256 router w \<Longrightarrow> p \<in> w_running w \<Longrightarrow>
     ws_run codecs sha256 router (w\<lparr>w_sv := wsFinish codecs env router outcome deadline p (w_sv w), w_running := w_running w - {p}\<rparr>)"

definition open_connection :: "ws_world \<Rightarrow> nat \<Rightarrow> bool" where
  "open_connection w p \<longleftrightarrow> p \<in> w_running w \<and> wk_closed (w_client w p) = None"

section \<open>What a hub does without a registration\<close>

text \<open>Connections only leave the hub, and those that leave are closed.\<close>

definition narrows :: "webSocketHub \<Rightarrow> webSocketHub \<Rightarrow> bool" where
  "narrows h h' \<longleftrightarrow> (hub_inv h \<longrightarrow> hub_inv h' \<and> (\<forall>v. set (entries h' v) \<subseteq> set (entries h v))
     \<and> (\<forall>q. wk_userID (hub_heap h' q) = wk_userID (hub_heap h q) \<and> wk_sessionID (hub_heap h' q) = wk_sessionID (hub_heap h q)
          \<and> (wk_closed (hub_heap h q) \<noteq> None \<longrightarrow> wk_closed (hub_heap h' q) \<noteq> None)
          \<and> (registered h q \<longrightarrow> \<not> registered h' q \<longrightarrow> wk_closed (hub_heap h' q) \<noteq> None)))"

lemma narrowsD:
  assumes "narrows h h'" and "hub_inv h"
  shows "hub_inv h'" and "set (entries h' v) \<subseteq> set (entries h v)"
    and "wk_userID (hub_heap h' q) = wk_userID (hub_heap h q)" and "wk_sessionID (hub_heap h' q) = wk_sessionID (hub_heap h q)"
    and "wk_closed (hub_heap h q) \<noteq> None \<Longrightarrow> wk_closed (hub_heap h' q) \<noteq> None"
    and "registered h q \<Longrightarrow> \<not> registered h' q \<Longrightarrow> wk_closed (hub_heap h' q) \<noteq> None"
  using assms unfolding narrows_def by blast+

lemma narrows_refl [simp]: "narrows h h"
  by (simp add: narrows_def)

lemma narrows_registered:
  assumes "narrows h h'" and "hub_inv h" and "registered h' q"
  shows "registered h q"
  using assms(3) narrowsD(2,3) [OF assms(1,2)] unfolding registered_def by fastforce

lemma narrows_trans [trans]:
  assumes "narrows a b" and "narrows b c"
  shows "narrows a c"
  unfolding narrows_def
proof (intro impI conjI allI)
  assume a: "hub_inv a"
  note ab = narrowsD [OF assms(1) a]
  note bc = narrowsD [OF assms(2) ab(1)]
  show "hub_inv c" by (rule bc(1))
  show "set (entries c v) \<subseteq> set (entries a v)" for v using ab(2) bc(2) by blast
  show "wk_userID (hub_heap c q) = wk_userID (hub_heap a q)" for q using ab(3) bc(3) by simp
  show "wk_sessionID (hub_heap c q) = wk_sessionID (hub_heap a q)" for q using ab(4) bc(4) by simp
  show "wk_closed (hub_heap a q) \<noteq> None \<Longrightarrow> wk_closed (hub_heap c q) \<noteq> None" for q using ab(5) bc(5) by blast
  show "registered a q \<Longrightarrow> \<not> registered c q \<Longrightarrow> wk_closed (hub_heap c q) \<noteq> None" for q
    using ab(6) bc(5,6) by blast
qed

lemma narrows_heap:
  assumes "hub_clients h' = hub_clients h" and "hub_connections h' = hub_connections h"
    and "\<And>q. wk_userID (hub_heap h' q) = wk_userID (hub_heap h q)" and "\<And>q. wk_connectionID (hub_heap h' q) = wk_connectionID (hub_heap h q)"
    and "\<And>q. wk_sessionID (hub_heap h' q) = wk_sessionID (hub_heap h q)"
    and "\<And>q. wk_closed (hub_heap h q) \<noteq> None \<Longrightarrow> wk_closed (hub_heap h' q) \<noteq> None"
    and "\<And>q. hub_inv h \<Longrightarrow> length (wk_send (hub_heap h' q)) \<le> wk_SendBuffer (hub_heap h' q)"
  shows "narrows h h'"
proof -
  have "entries h' = entries h" using assms(1) by (simp add: entries_def fun_eq_iff)
  then show ?thesis using hub_inv_cong [OF _ assms(1,2,3,4)] assms(3,5,6,7) unfolding narrows_def registered_def by simp
qed

lemma narrows_removeClient: "narrows h (removeClient h p code reason)"
  unfolding narrows_def
proof (intro impI conjI allI)
  assume inv: "hub_inv h"
  note wk = hub_inv_well_keyed [OF inv]
  show "hub_inv (removeClient h p code reason)" using inv by (rule hub_inv_removeClient)
  show "set (entries (removeClient h p code reason) v) \<subseteq> set (entries h v)" for v by (auto simp: entries_removeClient [OF wk])
  show "wk_closed (hub_heap h q) \<noteq> None \<Longrightarrow> wk_closed (hub_heap (removeClient h p code reason) q) \<noteq> None" for q
    using closing_fields(6) by (simp add: heap_removeClient [OF wk] del: not_None_eq)
  show "registered h q \<Longrightarrow> \<not> registered (removeClient h p code reason) q \<Longrightarrow> wk_closed (hub_heap (removeClient h p code reason) q) \<noteq> None" for q
    using closing_fields(6) by (simp add: registered_removeClient [OF wk] heap_removeClient [OF wk] del: not_None_eq)
qed (simp_all add: fields_removeClient [OF hub_inv_well_keyed])

lemma narrows_shutdown: "narrows h (shutdown h p code reason)"
  by (rule narrows_heap) (simp_all add: heap_shutdown hub_inv_room closing_fields(6) del: not_None_eq, simp_all add: shutdown_def)

lemma narrows_enqueue: "has_room h p \<Longrightarrow> narrows h (enqueue h p payload)"
  using hub_inv_room by (intro narrows_heap) (auto simp: enqueue_def has_room_def)

lemma narrows_deliveries: "narrows h (h\<lparr>hub_deliveries := x\<rparr>)"
  by (rule narrows_heap) (simp_all add: hub_inv_room)

lemma narrows_deliverLoop: "narrows h (snd (deliverLoop payload ps h n))"
proof (induction ps arbitrary: h n)
  case (Cons p ps)
  show ?case
  proof (cases "has_room h p")
    case True
    then show ?thesis using narrows_trans [OF narrows_enqueue [OF True] Cons.IH] by simp
  next
    case False
    then show ?thesis using narrows_trans [OF narrows_trans [OF narrows_deliveries narrows_removeClient] Cons.IH] by simp
  qed
qed simp

lemma narrows_fold: "(\<And>p h. narrows h (f p h)) \<Longrightarrow> narrows h (fold f ps h)"
  by (induction ps arbitrary: h) (auto intro: narrows_trans)

lemma narrows_serve: "\<not> is_registration request \<Longrightarrow> narrows h (hubServe h request)"
proof (cases request)
  case (PublishRequest u payload)
  then show ?thesis
    using narrows_deliverLoop narrows_deliveries by (simp add: hubServe_def deliver_def Let_def)
qed (auto simp: hubServe_def disconnectMatching_def disconnectOne_def narrows_removeClient intro!: narrows_fold split: option.split)

lemma narrows_call: "\<not> is_registration request \<Longrightarrow> narrows h (snd (hubCall outcome h request))"
  by (simp add: hubCall_def narrows_serve split: hub_outcome.split)

lemma narrows_Unregister: "narrows h (snd (Unregister outcome h p code reason))"
  by (simp add: Unregister_def narrows_removeClient split: hub_outcome.split)

lemma narrows_disconnectConnection: "narrows h (snd (hubDisconnectConnection outcome h u c))"
  by (simp add: hubDisconnectConnection_def narrows_call)

lemma narrows_stop:
  assumes "dom (hub_clients h) \<subseteq> set userIDs"
  shows "narrows h (hubShutdown h userIDs)"
proof -
  let ?ps = "concat (map (\<lambda>u. map snd (entries h u)) userIDs)"
  let ?f = "\<lambda>p h. shutdown (observeDisconnect h ''server_shutdown'') p StatusGoingAway ''server shutting down''"
  have heap: "hub_heap (hubShutdown h userIDs) = hub_heap (fold ?f ps h)" if "ps = ?ps" for ps
    using that by (simp add: hubShutdown_def)
  have fields: "wk_userID (hub_heap (fold ?f ps g) q) = wk_userID (hub_heap g q) \<and> wk_sessionID (hub_heap (fold ?f ps g) q) = wk_sessionID (hub_heap g q)" for ps g q
    by (induction ps arbitrary: g) (simp_all add: heap_shutdown observeDisconnect_def)
  have closed: "wk_closed (hub_heap (fold ?f ps g) q) \<noteq> None" if "wk_closed (hub_heap g q) \<noteq> None \<or> q \<in> set ps" for ps g q
    using that
  proof (induction ps arbitrary: g)
    case (Cons p ps)
    have "wk_closed (hub_heap (?f p g) q) \<noteq> None \<or> q \<in> set ps"
      using Cons.prems closing_fields(6) by (auto simp: heap_shutdown observeDisconnect_def simp del: not_None_eq)
    then show ?case using Cons.IH by simp
  qed simp
  have gone: "entries (hubShutdown h userIDs) v = []" for v by (simp add: hubShutdown_def entries_def)
  have member: "q \<in> set ?ps" if "registered h q" for q
  proof -
    have "hub_clients h (wk_userID (hub_heap h q)) \<noteq> None" using that unfolding registered_def entries_def
      by (cases "hub_clients h (wk_userID (hub_heap h q))") simp_all
    then have "wk_userID (hub_heap h q) \<in> set userIDs" using assms by blast
    then show ?thesis using that unfolding registered_def by auto
  qed
  show ?thesis unfolding narrows_def
    using fields [of ?ps h] closed [of h _ ?ps] member hub_inv_stop by (simp add: heap gone del: not_None_eq)
qed

lemma sv_hub_with_hub [simp]: "sv_hub (with_hub h sv) = h"
  by (simp add: with_hub_def)

lemma redisPublish_hub [simp]: "rs_hub (snd (redisPublish env channel m st)) = rs_hub st"
  by (simp add: redisPublish_def split: publish_answer.split)

lemma narrows_DisconnectReplaced: "narrows (rs_hub st) (rs_hub (snd (DisconnectReplaced marshal env router record st)))"
  using narrows_disconnectConnection
  by (simp add: DisconnectReplaced_def Let_def case_prod_unfold split: sum.split)

lemma narrows_disconnectAll: "narrows (rs_hub st) (rs_hub (snd (disconnectAll marshal env router records errs st)))"
proof (induction records arbitrary: errs st)
  case (Cons r records)
  obtain e st' where e: "DisconnectReplaced marshal env router r st = (e, st')" by fastforce
  have "narrows (rs_hub st) (rs_hub st')" using narrows_DisconnectReplaced [of st marshal env router r] e by simp
  then show ?case using Cons.IH e by (auto intro: narrows_trans split: option.split)
qed simp

fun order_request :: "disconnection \<Rightarrow> hub_request" where
  "order_request (DisconnectSessionOf u i) = DisconnectSessionRequest u i"
| "order_request (DisconnectUserOf u) = DisconnectUserRequest u"

lemma order_request_kind [simp]: "\<not> is_registration (order_request order)"
  by (cases order) simp_all

lemma narrows_hub_set: "narrows h (rs_hub (snd (disconnectAll marshal env r records errs (st\<lparr>rs_hub := h\<rparr>))))"
  using narrows_disconnectAll [of "st\<lparr>rs_hub := h\<rparr>"] by simp

lemma narrows_carry_out_call:
  "narrows (snd (hubCall (re_hub env) (sv_hub sv) (order_request order))) (sv_hub (carry_out codecs env router order sv))"
  by (cases order; cases router)
    (simp_all add: disconnectSessionWebSockets_def disconnectUserWebSockets_def hubDisconnectSession_def hubDisconnectUser_def
      routerDisconnectSession_def routerDisconnectUser_def Let_def case_prod_unfold narrows_hub_set narrows_disconnectAll split: sum.split)

lemma narrows_carry_out: "narrows (sv_hub sv) (sv_hub (carry_out codecs env router order sv))"
  by (rule narrows_trans [OF narrows_call narrows_carry_out_call]) simp

text \<open>An order the hub answers leaves none of its connections.\<close>

lemma carried_out:
  assumes "hub_inv (sv_hub sv)" and "re_hub env = Answered"
    and "concerns order (wk_userID (hub_heap (sv_hub sv) q)) (wk_sessionID (hub_heap (sv_hub sv) q))"
  shows "\<not> registered (sv_hub (carry_out codecs env router order sv)) q"
proof
  let ?h = "sv_hub sv" and ?h1 = "snd (hubCall (re_hub env) (sv_hub sv) (order_request order))"
  assume "registered (sv_hub (carry_out codecs env router order sv)) q"
  moreover have h1: "narrows ?h ?h1" by (simp add: narrows_call)
  ultimately have reg: "registered ?h1 q"
    using narrows_registered [OF narrows_carry_out_call] narrowsD(1) [OF h1 assms(1)] by blast
  obtain u s where call: "?h1 = disconnectMatching ?h u s" "u = wk_userID (hub_heap ?h q)" "s = 0 \<or> wk_sessionID (hub_heap ?h q) = s"
    using assms(2,3) by (cases order) (auto simp: hubCall_def hubServe_def)
  have "q \<notin> snd ` set (entries ?h1 u)"
    unfolding call(1) disconnectMatching_exact(2) [OF assms(1)] using call(3) by auto
  moreover have "wk_userID (hub_heap ?h1 q) = u" using narrowsD(3) [OF h1 assms(1)] call(2) by simp
  ultimately show False using reg unfolding registered_def by simp
qed

section \<open>The invariant of the connections\<close>

definition unrevoked :: "db \<Rightarrow> int \<Rightarrow> int \<Rightarrow> bool" where
  "unrevoked d u i \<longleftrightarrow> (\<exists>s. find_session d i = Some s \<and> s_user_id s = u \<and> s_revoked_at s = None)"

definition authorised :: "ws_world \<Rightarrow> int \<Rightarrow> int \<Rightarrow> bool" where
  "authorised w u i \<longleftrightarrow> (\<exists>s. find_session (w_db w) i = Some s \<and> s_user_id s = u
     \<and> (s_revoked_at s = None \<or> (\<exists>order \<in> set (w_orders w). concerns order u i) \<or> i \<in> w_lost w))"

definition ws_inv :: "ws_world \<Rightarrow> bool" where
  "ws_inv w \<longleftrightarrow> auth_inv (w_db w) \<and> hub_inv (w_hub w)
     \<and> (\<forall>p. registered (w_hub w) p \<longrightarrow> authorised w (wk_userID (w_client w p)) (wk_sessionID (w_client w p)))
     \<and> (\<forall>p \<in> dom (w_shared w). unrevoked (w_db w) (wk_userID (w_client w p)) (wk_sessionID (w_client w p)))
     \<and> (\<forall>p. p \<in> w_running w \<or> w_shared w p = Some InHub \<longrightarrow> wk_closed (w_client w p) = None \<longrightarrow> registered (w_hub w) p)"

lemma ws_invD:
  assumes "ws_inv w"
  shows "auth_inv (w_db w)" and "hub_inv (w_hub w)"
    and "registered (w_hub w) p \<Longrightarrow> authorised w (wk_userID (w_client w p)) (wk_sessionID (w_client w p))"
    and "w_shared w p = Some phase \<Longrightarrow> unrevoked (w_db w) (wk_userID (w_client w p)) (wk_sessionID (w_client w p))"
    and "p \<in> w_running w \<or> w_shared w p = Some InHub \<Longrightarrow> wk_closed (w_client w p) = None \<Longrightarrow> registered (w_hub w) p"
  using assms unfolding ws_inv_def by blast+

lemma unrevoked_authorised: "unrevoked (w_db w) u i \<Longrightarrow> authorised w u i"
  unfolding unrevoked_def authorised_def by blast

text \<open>Steps in which connections can only leave.\<close>

lemma ws_inv_narrows:
  assumes w: "ws_inv w" and n: "narrows (w_hub w) (sv_hub sv)"
    and shared: "\<And>p phase. shared p = Some phase \<Longrightarrow> w_shared w p = Some phase"
    and running: "\<And>p. p \<in> R \<Longrightarrow> p \<in> w_running w \<or> w_shared w p = Some InHub"
  shows "ws_inv (w\<lparr>w_sv := sv, w_shared := shared, w_running := R\<rparr>)"
proof -
  note n' = narrowsD [OF n ws_invD(2) [OF w]]
  note fields = n'(3,4)
  show ?thesis unfolding ws_inv_def
  proof (intro conjI allI impI ballI; simp)
    show "auth_inv (w_db w)" by (rule ws_invD(1) [OF w])
    show "hub_inv (sv_hub sv)" by (rule n'(1))
  next
    fix p
    assume "registered (sv_hub sv) p"
    then have "registered (w_hub w) p" by (rule narrows_registered [OF n ws_invD(2) [OF w]])
    then show "authorised (w\<lparr>w_sv := sv, w_shared := shared, w_running := R\<rparr>) (wk_userID (hub_heap (sv_hub sv) p)) (wk_sessionID (hub_heap (sv_hub sv) p))"
      using ws_invD(3) [OF w] unfolding fields authorised_def by simp
  next
    fix p
    assume "p \<in> dom shared"
    then show "unrevoked (w_db w) (wk_userID (hub_heap (sv_hub sv) p)) (wk_sessionID (hub_heap (sv_hub sv) p))"
      using ws_invD(4) [OF w] shared unfolding fields by blast
  next
    fix p
    assume "p \<in> R \<or> shared p = Some InHub" and "wk_closed (hub_heap (sv_hub sv) p) = None"
    then show "registered (sv_hub sv) p" using n'(5,6) ws_invD(5) [OF w] shared running by blast
  qed
qed

lemma ws_inv_hub:
  assumes "ws_inv w" and "narrows (w_hub w) (sv_hub sv)"
  shows "ws_inv (w\<lparr>w_sv := sv\<rparr>)"
  using ws_inv_narrows [OF assms, of "w_shared w" "w_running w"] by simp

lemma ws_inv_unlock:
  assumes "ws_inv w" and "narrows (w_hub w) (sv_hub sv)"
  shows "ws_inv (w\<lparr>w_sv := sv, w_shared := (w_shared w)(p := None)\<rparr>)"
proof -
  have "ws_inv (w\<lparr>w_sv := sv, w_shared := (w_shared w)(p := None), w_running := w_running w\<rparr>)"
    by (rule ws_inv_narrows [OF assms]) (simp_all split: if_splits)
  then show ?thesis by simp
qed

lemma narrows_wsRelease: "sv_hub (wsRelease codecs env router p sv) = sv_hub sv"
  by (simp add: wsRelease_def split: option.split)

lemma narrows_wsAnnounce: "narrows (sv_hub sv) (sv_hub (wsAnnounce codecs env router p sv))"
  using narrows_DisconnectReplaced [of "sv_router sv"]
  by (simp add: wsAnnounce_def Let_def case_prod_unfold split: sum.split option.split)

lemma narrows_wsCommit: "wsCommit codecs env router p sv = (r, sv') \<Longrightarrow> narrows (sv_hub sv) (sv_hub sv')"
  using narrows_trans [OF narrows_shutdown narrows_Unregister]
  by (auto simp: wsCommit_def Let_def narrows_wsRelease split: if_splits)

lemma narrows_wsFinish: "narrows (sv_hub sv) (sv_hub (wsFinish codecs env router outcome deadline p sv))"
  by (simp add: wsFinish_def clientRun_def narrows_wsRelease narrows_Unregister)

lemma wsRegister_registered:
  "wsRegister codecs env router p sv = (WsRegistered, sv') \<Longrightarrow> narrows (hubRegister (sv_hub sv) p) (sv_hub sv')"
  using narrows_wsAnnounce [of "with_hub (hubRegister (sv_hub sv) p) sv"]
  by (auto simp: wsRegister_def Register_def hubCall_def hubServe_def split: hub_outcome.splits option.splits)

lemma wsRegister_refused:
  "wsRegister codecs env router p sv = (r, sv') \<Longrightarrow> wv_register env = NotQueued err \<Longrightarrow> sv_hub sv' = sv_hub sv"
  by (auto simp: wsRegister_def Register_def hubCall_def)

text \<open>A new client is at an address nothing refers to.\<close>

definition allocated :: "nat \<Rightarrow> webSocketClient \<Rightarrow> webSocketHub \<Rightarrow> webSocketHub" where
  "allocated p c hub = hub\<lparr>hub_heap := (hub_heap hub)(p := c)\<rparr>"

lemma wsAdmit_cases:
  assumes "wsAdmit sha256 env who p d hub = (r, hub')"
  obtains (refused) "hub' = hub" "r \<noteq> WsAdmitted"
  | (closed) c code reason where "wk_send c = []" "hub' = shutdown (allocated p c hub) p code reason" "r \<noteq> WsAdmitted"
  | (admitted) c where "wk_send c = []" "hub' = allocated p c hub" "r = WsAdmitted"
      "active_session (wv_now env) (wv_clock env) (wk_userID c) (wk_sessionID c) d"
  using assms unfolding wsAdmit_def allocated_def
  by (auto simp: Let_def split: option.splits sum.splits if_splits dest: newWebSocketClient_queue)

lemma ws_inv_allocated:
  assumes w: "ws_inv w" and free: "\<not> in_use w p" and c: "wk_send c = []"
  shows "ws_inv (w\<lparr>w_sv := with_hub (allocated p c (w_hub w)) (w_sv w)\<rparr>)"
proof -
  let ?h = "allocated p c (w_hub w)"
  have out: "p \<notin> snd ` set (entries (w_hub w) v)" for v using free unfolding in_use_def by blast
  have entries: "entries ?h v = entries (w_hub w) v" for v by (simp add: allocated_def)
  have heap: "hub_heap ?h q = (if q = p then c else w_client w q)" for q by (simp add: allocated_def)
  have reg: "registered ?h q \<longleftrightarrow> registered (w_hub w) q \<and> q \<noteq> p" for q
    unfolding registered_def entries heap using out by auto
  have inv: "hub_inv ?h" unfolding allocated_def using hub_inv_alloc [OF ws_invD(2) [OF w] c] out by blast
  have other: "q \<noteq> p" if "q \<in> w_running w \<or> q \<in> dom (w_shared w)" for q using that free unfolding in_use_def by blast
  show ?thesis unfolding ws_inv_def
  proof (intro conjI allI impI ballI; simp)
    show "auth_inv (w_db w)" by (rule ws_invD(1) [OF w])
    show "hub_inv ?h" by (rule inv)
  next
    fix q
    assume "registered ?h q"
    then show "authorised (w\<lparr>w_sv := with_hub ?h (w_sv w)\<rparr>) (wk_userID (hub_heap ?h q)) (wk_sessionID (hub_heap ?h q))"
      using ws_invD(3) [OF w] by (simp add: reg heap authorised_def)
  next
    fix q
    assume "q \<in> dom (w_shared w)"
    then show "unrevoked (w_db w) (wk_userID (hub_heap ?h q)) (wk_sessionID (hub_heap ?h q))"
      using ws_invD(4) [OF w] other by (auto simp: heap)
  next
    fix q
    assume q: "q \<in> w_running w \<or> w_shared w q = Some InHub" and "wk_closed (hub_heap ?h q) = None"
    moreover have "q \<noteq> p" using q other by blast
    ultimately show "registered ?h q" using ws_invD(5) [OF w] by (simp add: reg heap)
  qed
qed

lemma active_unrevoked:
  assumes "auth_inv d" and "active_session now clock u i d"
  shows "unrevoked d u i"
  using assms session_by_id [OF assms(1)] unfolding active_session_def unrevoked_def live_session_def list_ex_iff by blast

lemma ws_inv_shared:
  assumes w: "ws_inv w" and "unrevoked (w_db w) (wk_userID (w_client w p)) (wk_sessionID (w_client w p))"
    and "phase = InHub \<Longrightarrow> wk_closed (w_client w p) = None \<Longrightarrow> registered (w_hub w) p"
  shows "ws_inv (w\<lparr>w_shared := (w_shared w)(p \<mapsto> phase)\<rparr>)"
  unfolding ws_inv_def
proof (intro conjI allI impI ballI; simp)
  show "auth_inv (w_db w)" "hub_inv (w_hub w)" by (rule ws_invD(1,2) [OF w])+
next
  fix q
  assume "registered (w_hub w) q"
  then show "authorised (w\<lparr>w_shared := (w_shared w)(p \<mapsto> phase)\<rparr>) (wk_userID (w_client w q)) (wk_sessionID (w_client w q))"
    using ws_invD(3) [OF w] by (simp add: authorised_def)
next
  fix q
  assume "q = p \<or> q \<in> dom (w_shared w)"
  then show "unrevoked (w_db w) (wk_userID (w_client w q)) (wk_sessionID (w_client w q))"
    using assms(2) ws_invD(4) [OF w] by blast
next
  fix q
  assume "q \<in> w_running w \<or> (if q = p then Some phase else w_shared w q) = Some InHub" and "wk_closed (w_client w q) = None"
  then show "registered (w_hub w) q" using assms(3) ws_invD(5) [OF w] by (metis option.inject)
qed

lemma ws_inv_admit:
  assumes w: "ws_inv w" and free: "\<not> in_use w p" and admit: "wsAdmit sha256 env who p (w_db w) (w_hub w) = (r, hub)"
  shows "ws_inv (w\<lparr>w_sv := with_hub hub (w_sv w), w_shared := (if r = WsAdmitted then (w_shared w)(p \<mapsto> RowLocked) else w_shared w)\<rparr>)"
  using admit
proof (cases rule: wsAdmit_cases)
  case refused
  then show ?thesis using ws_inv_hub [OF w, of "with_hub hub (w_sv w)"] by simp
next
  case (closed c code reason)
  then show ?thesis
    using ws_inv_hub [OF ws_inv_allocated [OF w free closed(1)], of "with_hub hub (w_sv w)"] narrows_shutdown by simp
next
  case (admitted c)
  let ?w = "w\<lparr>w_sv := with_hub hub (w_sv w)\<rparr>"
  have "ws_inv ?w" using ws_inv_allocated [OF w free admitted(1)] admitted(2) by simp
  moreover have "unrevoked (w_db ?w) (wk_userID (w_client ?w p)) (wk_sessionID (w_client ?w p))"
    using active_unrevoked [OF ws_invD(1) [OF w] admitted(4)] admitted(2) by (simp add: allocated_def)
  ultimately have "ws_inv (?w\<lparr>w_shared := (w_shared ?w)(p \<mapsto> RowLocked)\<rparr>)" by (rule ws_inv_shared) simp
  then show ?thesis using admitted(3) by simp
qed

lemma hubRegister_registered:
  assumes "fresh_request hub (RegisterRequest p)"
  shows "registered (hubRegister hub p) q \<longleftrightarrow> registered hub q \<or> q = p" and "hub_heap (hubRegister hub p) = hub_heap hub"
proof -
  show heap: "hub_heap (hubRegister hub p) = hub_heap hub" by (simp add: hubRegister_def Let_def)
  have "entries (hubRegister hub p) v = (if v = wk_userID (hub_heap hub p)
      then entries hub v @ [(wk_connectionID (hub_heap hub p), p)] else entries hub v)" for v
    using assms by (simp add: fresh_request_def hubRegister_def Let_def put_entry_def entries_def)
  then show "registered (hubRegister hub p) q \<longleftrightarrow> registered hub q \<or> q = p" unfolding registered_def heap by auto
qed

lemma ws_inv_hubRegister:
  assumes w: "ws_inv w" and locked: "w_shared w p = Some phase" and fresh: "fresh_request (w_hub w) (RegisterRequest p)"
  shows "ws_inv (w\<lparr>w_sv := with_hub (hubRegister (w_hub w) p) (w_sv w)\<rparr>)"
proof -
  note reg = hubRegister_registered [OF fresh]
  have "authorised w (wk_userID (w_client w q)) (wk_sessionID (w_client w q))" if "registered (w_hub w) q \<or> q = p" for q
    using that ws_invD(3) [OF w] unrevoked_authorised ws_invD(4) [OF w locked] by blast
  moreover have "hub_inv (hubRegister (w_hub w) p)" using ws_invD(2) [OF w] fresh by (rule hub_inv_register)
  ultimately show ?thesis
    using w unfolding ws_inv_def by (simp add: reg authorised_def)
qed

lemma ws_inv_register:
  assumes w: "ws_inv w" and locked: "w_shared w p = Some RowLocked" and fresh: "fresh_request (w_hub w) (RegisterRequest p)"
    and sv: "wsRegister codecs env router p (w_sv w) = (WsRegistered, sv)"
  shows "ws_inv (w\<lparr>w_sv := sv, w_shared := (w_shared w)(p \<mapsto> InHub)\<rparr>)"
proof -
  let ?w1 = "w\<lparr>w_sv := with_hub (hubRegister (w_hub w) p) (w_sv w)\<rparr>" and ?w2 = "w\<lparr>w_sv := sv\<rparr>"
  have w1: "ws_inv ?w1" by (rule ws_inv_hubRegister [OF w locked fresh])
  have n: "narrows (w_hub ?w1) (sv_hub sv)" using wsRegister_registered [OF sv] by simp
  have w2: "ws_inv ?w2" using ws_inv_hub [OF w1 n] by simp
  have closed: "wk_closed (w_client ?w2 p) = None \<Longrightarrow> registered (w_hub ?w2) p"
    using narrowsD(6) [OF n ws_invD(2) [OF w1], of p] hubRegister_registered(1) [OF fresh] by auto
  have un: "unrevoked (w_db ?w2) (wk_userID (w_client ?w2 p)) (wk_sessionID (w_client ?w2 p))"
    using ws_invD(4) [OF w2, of p] locked by simp
  have "ws_inv (?w2\<lparr>w_shared := (w_shared ?w2)(p \<mapsto> InHub)\<rparr>)" by (rule ws_inv_shared [OF w2 un]) (rule closed)
  then show ?thesis by simp
qed

lemma auth_emit_step: "auth_emit d orders told v \<Longrightarrow> auth_step d v"
  by (induction rule: auth_emit.induct) (metis auth_step.intros snd_conv)+

lemma kept_session:
  assumes "auth_inv d" and "auth_step d v" and "find_session d i = Some s"
  obtains s' where "find_session v i = Some s'" "s_user_id s' = s_user_id s" "s_revoked_at s \<noteq> None \<longrightarrow> s_revoked_at s' \<noteq> None"
proof -
  have v: "auth_inv v" and "keeps d v" using auth_step_evolves [OF assms(2)] assms(1) unfolding evolves_def by blast+
  then obtain s' where "s' \<in> set (sessions v)" "s_id s' = s_id s" "s_user_id s' = s_user_id s" "s_revoked_at s \<noteq> None \<longrightarrow> s_revoked_at s' \<noteq> None"
    using find_session_Some [OF assms(3)] unfolding keeps_def by blast
  then show ?thesis using that session_by_id [OF v] find_session_Some [OF assms(3)] by metis
qed

lemma authorised_auth:
  assumes "auth_inv (w_db w)" and "auth_emit (w_db w) orders told v" and "authorised w u i"
  shows "authorised (w\<lparr>w_db := v, w_orders := w_orders w @ orders, w_lost := w_lost w \<union> uncovered orders (w_db w) v\<rparr>) u i"
proof -
  obtain s where s: "find_session (w_db w) i = Some s" "s_user_id s = u"
      "s_revoked_at s = None \<or> (\<exists>order \<in> set (w_orders w). concerns order u i) \<or> i \<in> w_lost w"
    using assms(3) unfolding authorised_def by blast
  obtain s' where s': "find_session v i = Some s'" "s_user_id s' = u" using kept_session [OF assms(1) auth_emit_step [OF assms(2)] s(1)] s(2) by metis
  have "s_revoked_at s' = None \<or> (\<exists>order \<in> set (w_orders w @ orders). concerns order u i) \<or> i \<in> w_lost w \<union> uncovered orders (w_db w) v"
  proof (cases "newly_revoked (w_db w) v i")
    case True
    then show ?thesis using s(1,2) unfolding uncovered_def by fastforce
  next
    case False
    then have "s_revoked_at s = None \<longrightarrow> s_revoked_at s' = None" using s(1) s'(1) unfolding newly_revoked_def by blast
    then show ?thesis using s(3) by auto
  qed
  then show ?thesis using s' unfolding authorised_def by simp
qed

lemma unrevoked_auth:
  assumes "auth_inv d" and "auth_emit d orders told v" and "unrevoked d u i" and "\<not> newly_revoked d v i"
  shows "unrevoked v u i"
proof -
  obtain s where s: "find_session d i = Some s" "s_user_id s = u" "s_revoked_at s = None" using assms(3) unfolding unrevoked_def by blast
  obtain s' where "find_session v i = Some s'" "s_user_id s' = u" using kept_session [OF assms(1) auth_emit_step [OF assms(2)] s(1)] s(2) by metis
  then show ?thesis using assms(4) s unfolding unrevoked_def newly_revoked_def by blast
qed

lemma ws_inv_auth:
  assumes w: "ws_inv w" and emit: "auth_emit (w_db w) orders told v"
    and locks: "\<forall>p \<in> dom (w_shared w). \<not> newly_revoked (w_db w) v (wk_sessionID (w_client w p))"
  shows "ws_inv (w\<lparr>w_db := v, w_orders := w_orders w @ orders, w_lost := w_lost w \<union> uncovered orders (w_db w) v\<rparr>)"
proof -
  note inv = ws_invD(1) [OF w]
  have "auth_inv v" using auth_step_evolves [OF auth_emit_step [OF emit]] inv unfolding evolves_def by blast
  moreover have "unrevoked v (wk_userID (w_client w p)) (wk_sessionID (w_client w p))" if "p \<in> dom (w_shared w)" for p
    using that unrevoked_auth [OF inv emit] locks ws_invD(4) [OF w] by blast
  ultimately show ?thesis
    using w authorised_auth [OF inv emit] unfolding ws_inv_def by simp
qed

lemma ws_inv_order:
  assumes w: "ws_inv w" and orders: "w_orders w = before @ order # after"
  shows "ws_inv (w\<lparr>w_sv := carry_out codecs env router order (w_sv w), w_orders := before @ after,
       w_lost := (if re_hub env = Answered then w_lost w else w_lost w \<union> {i. \<exists>u. concerns order u i})\<rparr>)"
proof -
  let ?sv = "carry_out codecs env router order (w_sv w)"
  let ?w1 = "w\<lparr>w_sv := ?sv\<rparr>"
  have n: "narrows (w_hub w) (sv_hub ?sv)" by (rule narrows_carry_out)
  have w1: "ws_inv ?w1" using w n by (rule ws_inv_hub)
  have "authorised (w\<lparr>w_sv := ?sv, w_orders := before @ after,
       w_lost := (if re_hub env = Answered then w_lost w else w_lost w \<union> {i. \<exists>u. concerns order u i})\<rparr>)
       (wk_userID (w_client ?w1 p)) (wk_sessionID (w_client ?w1 p))" if reg: "registered (sv_hub ?sv) p" for p
  proof -
    let ?u = "wk_userID (w_client ?w1 p)" and ?i = "wk_sessionID (w_client ?w1 p)"
    have "re_hub env = Answered \<longrightarrow> \<not> concerns order ?u ?i"
      using reg carried_out [OF ws_invD(2) [OF w], of env order p codecs router] narrowsD(3,4) [OF n ws_invD(2) [OF w], of p] by auto
    moreover have "authorised ?w1 ?u ?i" using ws_invD(3) [OF w1, of p] reg by simp
    ultimately show ?thesis unfolding authorised_def by (auto simp: orders)
  qed
  then show ?thesis using w1 unfolding ws_inv_def by simp
qed

lemma ws_run_inv: "ws_run codecs sha256 router w \<Longrightarrow> ws_inv w"
proof (induction rule: ws_run.induct)
  case (ws_start d redis)
  then show ?case
    by (simp add: ws_inv_def starting_world_def hub_inv_new registered_def) (simp add: newWebSocketHub_def entries_def)
next
  case (ws_admit w p env who r hub)
  then show ?case using ws_inv_admit by blast
next
  case (ws_register w p env sv)
  then show ?case using ws_inv_register by blast
next
  case (ws_not_registered w p env err r sv)
  then have "narrows (w_hub w) (sv_hub sv)" using wsRegister_refused by fastforce
  then show ?case by (rule ws_inv_unlock [OF ws_not_registered.IH])
next
  case (ws_abandoned w p userIDs)
  then show ?case by (intro ws_inv_unlock [OF ws_abandoned.IH]) (simp add: narrows_stop)
next
  case (ws_commit w p env r sv)
  show ?case by (rule ws_inv_narrows [OF ws_commit.IH narrows_wsCommit [OF ws_commit.hyps(3)]])
      (use ws_commit.hyps(2) in \<open>auto split: if_splits\<close>)
next
  case (ws_auth w orders told v)
  then show ?case using ws_inv_auth by blast
next
  case (ws_order w before order after env)
  then show ?case using ws_inv_order by blast
next
  case (ws_finish w p env outcome deadline)
  then show ?case
    using ws_inv_narrows [OF ws_finish.IH narrows_wsFinish, of "w_shared w" "w_running w - {p}"] by simp
next
  case (ws_take w p payload queue)
  let ?h = "(w_hub w)\<lparr>hub_heap := (hub_heap (w_hub w))(p := (w_client w p)\<lparr>wk_send := queue\<rparr>)\<rparr>"
  have "length (wk_send (w_client w p)) \<le> wk_SendBuffer (w_client w p)" using hub_inv_room ws_invD(2) [OF ws_take.IH] .
  then have "narrows (w_hub w) ?h" using ws_take.hyps(2) hub_inv_room by (intro narrows_heap) (auto split: if_splits)
  then show ?case using ws_inv_hub [OF ws_take.IH] by simp
next
  case (ws_serve w request)
  then show ?case using ws_inv_hub narrows_serve by simp
next
  case (ws_check w p answer code reason)
  then show ?case using ws_inv_hub narrows_shutdown by simp
qed

section \<open>Orders of the handlers\<close>

lemma find_session_cong: "sessions v = sessions d \<Longrightarrow> find_session v i = find_session d i"
  by (simp add: find_session_def)

lemma not_newly_revoked: "sessions v = sessions d \<Longrightarrow> \<not> newly_revoked d v i"
  unfolding newly_revoked_def using find_session_cong [of v d] by fastforce

lemma uncovered_same: "sessions v = sessions d \<Longrightarrow> uncovered orders d v = {}"
  unfolding uncovered_def using not_newly_revoked by blast

lemma newly_revoked_update:
  assumes "sessions v = update_rows p f (sessions d)" and "\<And>s. s_id (f s) = s_id s" and "newly_revoked d v i"
  obtains s where "find_session d i = Some s" "p s" "s_revoked_at (f s) \<noteq> None" "s_revoked_at s = None"
proof -
  have "find_session v i = map_option (\<lambda>s. if p s then f s else s) (find_session d i)"
    unfolding find_session_def assms(1) using assms(2) by (simp add: find_update_rows)
  then show ?thesis using that assms(3) unfolding newly_revoked_def by (auto split: if_splits)
qed

lemma uncovered_update:
  assumes "sessions v = update_rows p f (sessions d)" and "\<And>s. s_id (f s) = s_id s"
    and "\<And>s i. find_session d i = Some s \<Longrightarrow> p s \<Longrightarrow> s_revoked_at s = None \<Longrightarrow> \<exists>order \<in> set orders. concerns order (s_user_id s) i"
  shows "uncovered orders d v = {}"
proof -
  have False if "i \<in> uncovered orders d v" for i
  proof -
    have new: "newly_revoked d v i" and none: "\<And>s order. find_session d i = Some s \<Longrightarrow> order \<in> set orders \<Longrightarrow> \<not> concerns order (s_user_id s) i"
      using that unfolding uncovered_def by blast+
    obtain s where "find_session d i = Some s" "p s" "s_revoked_at s = None" using newly_revoked_update [OF assms(1,2) new] by metis
    then show False using assms(3) none by blast
  qed
  then show ?thesis by blast
qed

lemma uncovered_revoke:
  assumes "\<And>s i. find_session d i = Some s \<Longrightarrow> p s \<Longrightarrow> \<exists>order \<in> set orders. concerns order (s_user_id s) i"
  shows "uncovered orders d (revoke_where now p (d\<lparr>users := x\<rparr>)) = {}"
  by (rule uncovered_update [where p = "\<lambda>s. p s \<and> s_revoked_at s = None" and f = "\<lambda>s. s\<lparr>s_revoked_at := Some now\<rparr>"])
    (use assms in \<open>simp_all add: revoke_where_def\<close>)

lemma revokeReplayed_covered:
  assumes "revokeReplayed env (s_user_id s) (s_id s) d = (r, x, v)" and "r \<noteq> RotationFailed" and "find_session d (s_id s) = Some s"
  shows "uncovered (replay_order x) d v = {}"
proof -
  let ?f = "\<lambda>s. s\<lparr>s_revoked_at := (case s_revoked_at s of None \<Rightarrow> Some (ae_now env AtAuthBegin) | Some t \<Rightarrow> Some t)\<rparr>"
  have "x = Some (s_user_id s, s_id s) \<and> sessions v = update_rows (\<lambda>y. s_id y = s_id s) ?f (sessions d)"
    using assms(1,2) unfolding revokeReplayed_def
    by (auto simp: Let_def auth_commit_def split: if_splits commit_outcome.splits)
  then have x: "x = Some (s_user_id s, s_id s)" and v: "sessions v = update_rows (\<lambda>y. s_id y = s_id s) ?f (sessions d)" by blast+
  have "\<exists>order \<in> set (replay_order x). concerns order (s_user_id y) i" if "find_session d i = Some y" "s_id y = s_id s" for y i
  proof -
    have i: "i = s_id s" using conjunct2 [OF find_session_Some [OF that(1)]] that(2) by metis
    then have "y = s" using that(1) assms(3) by simp
    then show ?thesis by (simp add: i x replay_order_def)
  qed
  then show ?thesis by (intro uncovered_update [OF v]) simp_all
qed

lemma rotate_covered:
  assumes "auth_inv d" and run: "rotateRefreshToken cr env cipher token key d = (r, x, v)" and "r \<noteq> RotationFailed"
  shows "uncovered (replay_order x) d v = {}"
proof (cases "find (redeemable env token d) (refresh_tokens d)")
  case None
  then have used: "handleUsedOrInvalidRefresh cr env cipher token key d = (r, x, v)"
    using run assms(3) unfolding rotateRefreshToken_def by (auto split: if_splits)
  then have "sessions v = sessions d \<or> (\<exists>s. find_session d (s_id s) = Some s \<and> revokeReplayed env (s_user_id s) (s_id s) d = (r, x, v))"
    unfolding handleUsedOrInvalidRefresh_def by (auto split: if_splits option.splits dest: found_session)
  then show ?thesis using uncovered_same revokeReplayed_covered assms(3) by blast
next
  case (Some rt)
  have "\<exists>y. r = Rotated y"
  proof (cases r)
    case (RotationRefused status)
    then show ?thesis using run Some unfolding rotateRefreshToken_def
      by (auto simp: Let_def auth_commit_def split: if_splits option.splits prod.splits sum.splits commit_outcome.splits)
  qed (use assms(3) in auto)
  then obtain y where y: "r = Rotated y" by blast
  obtain s account access fresh where "rotation_writes cr env cipher key rt access fresh y (consumeToken env rt d) = (Inr (), v)"
    using rotation_done [OF Some] run y by metis
  then obtain w1 w2 w3 row e h e1 parent k e2 where chain: "insertAccessToken env (ar_SessionID y) h e1 (consumeToken env rt d) = (Inr (), w1)"
      "insertRefreshToken env (ar_SessionID y) parent k e2 w1 = (Inr (), w2)" "extendSession env e (ar_SessionID y) w2 = (Inr (), w3)"
      "insertRefreshResult env row w3 = (Inr (), v)"
    unfolding rotation_writes_def andThen_Inr by (auto simp: andThen_Inr split: option.splits)
  note steps = insertAccessToken_Inr [OF chain(1)] insertRefreshToken_Inr [OF chain(2)] extendSession_Inr [OF chain(3)] insertRefreshResult_Inr [OF chain(4)]
  have v: "sessions v = update_rows (\<lambda>x. s_id x = ar_SessionID y) (\<lambda>x. x\<lparr>s_idle_expires_at := e\<rparr>) (sessions d)"
    using steps by (simp add: consumeToken_def)
  have "\<not> newly_revoked d v i" for i
  proof
    assume "newly_revoked d v i"
    then show False by (rule newly_revoked_update [OF v, rotated]) simp_all
  qed
  then show ?thesis unfolding uncovered_def by blast
qed

lemma answered_orders:
  assumes "auth_emit d orders told v" and "auth_inv d" and told
  shows "uncovered orders d v = {}"
  using assms
proof (induction rule: auth_emit.induct)
  case (em_other d v)
  then show ?case using uncovered_same unfolding auth_same_def by blast
next
  case (em_rotate cr env cipher token key d r x v)
  then show ?case using rotate_covered by blast
next
  case (em_logout d i u env r orders v)
  have "orders = [DisconnectSessionOf u i]" "v = revoke_where (ae_now env AtRevoke) (\<lambda>s. s_id s = i) (d\<lparr>users := users d\<rparr>)"
    using em_logout by (auto simp: logout_def exec_auto_def internalAuthError_def split: if_splits)
  moreover have "s_user_id s = u \<and> j = i" if "find_session d j = Some s" "s_id s = i" for s j
    using that em_logout(1) find_session_Some [OF that(1)] by auto
  ultimately show ?case by (simp only:) (rule uncovered_revoke, auto)
next
  case (em_logoutAll env u d r orders v)
  have "orders = [DisconnectUserOf u]" "v = revoke_where (ae_now env AtRevoke) (\<lambda>s. s_user_id s = u) (d\<lparr>users := users d\<rparr>)"
    using em_logoutAll by (auto simp: logoutAll_def exec_auto_def internalAuthError_def split: if_splits)
  then show ?case by (simp only:) (rule uncovered_revoke, auto)
next
  case (em_password env u old new d r orders v)
  have "orders = [DisconnectUserOf u] \<and> (\<exists>x. v = revoke_where (ae_now env AtAuthBegin) (\<lambda>s. s_user_id s = u) (d\<lparr>users := x\<rparr>))"
    using em_password by (auto simp: commitPasswordChange_def Let_def auth_commit_def internalAuthError_def split: if_splits commit_outcome.splits)
  then obtain x where "orders = [DisconnectUserOf u]" "v = revoke_where (ae_now env AtAuthBegin) (\<lambda>s. s_user_id s = u) (d\<lparr>users := x\<rparr>)" by blast
  then show ?case by (simp only:) (rule uncovered_revoke, auto)
next
  case (em_revoke env u path d r orders v)
  obtain i where i: "ParseInt 64 path = Some i" using em_revoke by (auto simp: revokeSession_def split: option.splits)
  let ?p = "\<lambda>s. s_id s = i \<and> s_user_id s = u"
  have v: "v = revoke_where (ae_now env AtRevoke) ?p (d\<lparr>users := users d\<rparr>)"
    and orders: "orders = [DisconnectSessionOf u i] \<or> (\<forall>s \<in> set (sessions d). \<not> (?p s \<and> s_revoked_at s = None))"
    using em_revoke i by (auto simp: revokeSession_def Let_def exec_auto_def internalAuthError_def rows_affected_zero split: if_splits)
  show ?case
  proof (cases "orders = [DisconnectSessionOf u i]")
    case True
    then show ?thesis unfolding v by (intro uncovered_revoke) (auto dest: find_session_Some)
  next
    case False
    then have "sessions v = sessions d" using orders unfolding v revoke_where_def by (simp add: update_rows_none)
    then show ?thesis by (rule uncovered_same)
  qed
qed simp_all

section \<open>Properties\<close>

text \<open>
  C13: A revocation reaches every open connection. In every interleaving of handshakes, requests of
  the hub, transactions and disconnections, an open connection belongs to a session that exists,
  of the user it was opened for. If that session is revoked, an order to disconnect it is still to
  be carried out or was lost; carrying one out closes the connection, with or without the router,
  and so does the next check of the session, which needs no order.
\<close>

theorem revocation_reaches_the_connection:
  assumes "ws_run codecs sha256 router w" and "open_connection w p"
    and "u = wk_userID (w_client w p)" and "i = wk_sessionID (w_client w p)"
  shows "\<exists>s. find_session (w_db w) i = Some s \<and> s_user_id s = u
    \<and> (s_revoked_at s \<noteq> None \<longrightarrow> ((\<exists>order \<in> set (w_orders w). concerns order u i) \<or> i \<in> w_lost w)
        \<and> maintainWebSocketSession [SessionCheck (Some (now, clock, w_db w))] (w_client w p)
            = ShutDown StatusPolicyViolation ''session revoked'')
    \<and> (concerns order u i \<longrightarrow> re_hub env = Answered \<longrightarrow>
        wk_closed (hub_heap (sv_hub (carry_out codecs env router order (w_sv w))) p) \<noteq> None)"
proof -
  note inv = ws_run_inv [OF assms(1)]
  have reg: "registered (w_hub w) p" using ws_invD(5) [OF inv] assms(2) unfolding open_connection_def by blast
  obtain s where s: "find_session (w_db w) i = Some s" "s_user_id s = u"
      "s_revoked_at s = None \<or> (\<exists>order \<in> set (w_orders w). concerns order u i) \<or> i \<in> w_lost w"
    using ws_invD(3) [OF inv reg] assms(3,4) unfolding authorised_def by blast
  have "\<not> active_session now clock u i (w_db w)" if "s_revoked_at s \<noteq> None"
    using active_unrevoked [OF ws_invD(1) [OF inv]] that s(1) unfolding unrevoked_def by fastforce
  moreover have "wk_closed (hub_heap (sv_hub (carry_out codecs env router order (w_sv w))) p) \<noteq> None"
    if "concerns order u i" "re_hub env = Answered"
    using narrowsD(6) [OF narrows_carry_out ws_invD(2) [OF inv] reg] carried_out [OF ws_invD(2) [OF inv] that(2)] that(1) assms(3,4) by blast
  ultimately show ?thesis using s assms(3,4) by auto
qed

text \<open>
  An answered revocation orders the disconnection. Whenever logout, logout of all devices, the
  revocation of a session, a password change or a refused refresh reports its outcome, every
  session that its transaction revoked is covered by an order it gave, for the session's owner.
\<close>

theorem answered_revocations_are_ordered:
  assumes "auth_emit d orders True v" and "auth_inv d"
  shows "uncovered orders d v = {}"
  using answered_orders [OF assms] by simp

text \<open>
  The session check fails closed. The loop beside a connection ends it at the first tick whose
  query fails or finds the session revoked, expired or owned by another user, unless the context
  ended before; it goes on only while every check found the session active.
\<close>

theorem session_check_fails_closed:
  "maintainWebSocketSession events client = Watching \<longleftrightarrow>
     (\<forall>e \<in> set events. \<exists>now clock d. e = SessionCheck (Some (now, clock, d)) \<and> active_session now clock (wk_userID client) (wk_sessionID client) d)"
  by (induction events client rule: maintainWebSocketSession.induct) simp_all

section \<open>An example\<close>

definition calm_ws :: ws_env where
  "calm_ws = \<lparr>wv_random = Some (replicate 32 (CHR ''x'')), wv_begin_fails = False, wv_select_fails = False, wv_now = 10, wv_clock = 10,
     wv_register = Answered, wv_presence = CallOk, wv_presence_now = 0, wv_route = small_env, wv_commit_fails = False,
     wv_cleanup = Answered, wv_release = CallOk, wv_release_now = 0\<rparr>"

definition phone :: authenticated where
  "phone = \<lparr>au_UserID = 1, au_SessionID = 7, au_DeviceID = ''phone'', au_TokenExpiry = 1000\<rparr>"

definition phone_client :: webSocketClient where
  "phone_client = \<lparr>wk_userID = 1, wk_sessionID = 7, wk_connectionID = EncodeToString url_alphabet (replicate 32 (CHR ''x'')), wk_send = [],
     wk_SendBuffer = 256, wk_closed = None\<rparr>"

definition no_codecs :: ws_codecs where
  "no_codecs = \<lparr>wc_marshal = plain_marshal, wc_unmarshal = plain_unmarshal, wc_command = plain_command\<rparr>"

text \<open>The phone connects and then logs out; the order is not carried out yet.\<close>

definition phone_world :: ws_world where
  "phone_world = (starting_world (revoke_where 20 (\<lambda>s. s_id s = 7) (sample_db None None)) no_redis)
     \<lparr>w_sv := with_hub (hubRegister (allocated 0 phone_client newWebSocketHub) 0) (w_sv (starting_world (sample_db None None) no_redis)),
      w_running := {0}, w_orders := [DisconnectSessionOf 1 7]\<rparr>"

lemma phone_admitted:
  "wsAdmit fixed_hash calm_ws phone 0 (sample_db None None) newWebSocketHub = (WsAdmitted, allocated 0 phone_client newWebSocketHub)"
proof -
  have "EncodeToString url_alphabet (replicate 32 (CHR ''x'')) \<noteq> []" by (rule encoded_nonempty) (simp add: tokenLength_def)
  moreover have "active_session 10 10 1 7 (sample_db None None)"
    by (simp add: active_session_def sample_db_def sample_session_def live_session_def sessionAbsoluteLifetime_def)
  ultimately show ?thesis
    by (simp add: wsAdmit_def newToken_def newWebSocketClient_def calm_ws_def phone_def phone_client_def allocated_def Let_def
        defaultWebSocketClientConfig_def Second_def)
qed

lemma phone_world_run: "ws_run no_codecs fixed_hash None phone_world"
proof -
  let ?w0 = "starting_world (sample_db None None) no_redis"
  let ?h1 = "allocated 0 phone_client newWebSocketHub"
  let ?w1 = "?w0\<lparr>w_sv := with_hub ?h1 (w_sv ?w0), w_shared := [0 \<mapsto> RowLocked]\<rparr>"
  let ?sv = "with_hub (hubRegister ?h1 0) (w_sv ?w0)"
  let ?w2 = "?w1\<lparr>w_sv := ?sv, w_shared := [0 \<mapsto> InHub]\<rparr>"
  let ?w3 = "?w2\<lparr>w_shared := Map.empty, w_running := {0}\<rparr>"
  note parts = starting_world_def with_hub_def
  have start: "ws_run no_codecs fixed_hash None ?w0" using sample_db_inv by (rule ws_start)
  have "\<not> in_use ?w0 0" by (simp add: in_use_def parts entries_def newWebSocketHub_def)
  from ws_admit [OF start this, of calm_ws phone WsAdmitted ?h1]
  have w1: "ws_run no_codecs fixed_hash None ?w1" using phone_admitted by (simp add: parts)
  have "fresh_request (w_hub ?w1) (RegisterRequest 0)"
    by (simp add: fresh_request_def parts allocated_def) (simp add: entries_def newWebSocketHub_def)
  moreover have "wsRegister no_codecs calm_ws None 0 (w_sv ?w1) = (WsRegistered, ?sv)"
    by (simp add: wsRegister_def Register_def hubCall_def hubServe_def calm_ws_def parts)
  ultimately have "ws_run no_codecs fixed_hash None (?w1\<lparr>w_sv := ?sv, w_shared := (w_shared ?w1)(0 \<mapsto> InHub)\<rparr>)"
    using ws_register [OF w1, of 0 calm_ws ?sv] by simp
  then have w2: "ws_run no_codecs fixed_hash None ?w2" by simp
  from ws_commit [OF w2, of 0 calm_ws WsRunning ?sv]
  have w3: "ws_run no_codecs fixed_hash None ?w3" by (simp add: wsCommit_def calm_ws_def parts)
  let ?v = "revoke_where 20 (\<lambda>s. s_id s = 7) (sample_db None None)"
  have "auth_emit (sample_db None None) [DisconnectSessionOf 1 7] True ?v"
    using em_logout [of "sample_db None None" 7 1 "sample_env 20" "NoBody 204" "[DisconnectSessionOf 1 7]" ?v]
    by (simp add: logout_def exec_auto_def sample_env_def find_session_def sample_db_def sample_session_def)
  from ws_auth [OF w3, of "[DisconnectSessionOf 1 7]" True ?v] this
    answered_orders [OF this sample_db_inv TrueI]
  show ?thesis by (simp add: phone_world_def parts)
qed

lemma revocation_reaches_witness:
  "open_connection phone_world 0
   \<and> maintainWebSocketSession [SessionCheck (Some (30, 30, w_db phone_world))] (w_client phone_world 0)
       = ShutDown StatusPolicyViolation ''session revoked''
   \<and> wk_closed (hub_heap (sv_hub (carry_out no_codecs small_env None (DisconnectSessionOf 1 7) (w_sv phone_world))) 0) \<noteq> None"
proof -
  have client: "w_client phone_world 0 = phone_client"
    by (simp add: phone_world_def with_hub_def starting_world_def hubRegister_def Let_def allocated_def)
  have open_now: "open_connection phone_world 0"
    unfolding open_connection_def client by (simp add: phone_world_def phone_client_def)
  have s: "find_session (w_db phone_world) 7 = Some (sample_session\<lparr>s_revoked_at := Some 20\<rparr>)"
    by (simp add: phone_world_def starting_world_def find_session_def revoke_where_def sample_db_def sample_session_def)
  show ?thesis
    using revocation_reaches_the_connection [OF phone_world_run open_now refl refl, where now = 30 and clock = 30
        and order = "DisconnectSessionOf 1 7" and env = small_env] open_now s
    by (simp add: client phone_client_def small_env_def)
qed

lemma answered_revocations_witness:
  "uncovered [DisconnectSessionOf 1 7] (sample_db None None) (revoke_where 20 (\<lambda>s. s_id s = 7) (sample_db None None)) = {}"
proof -
  have "auth_emit (sample_db None None) [DisconnectSessionOf 1 7] True (revoke_where 20 (\<lambda>s. s_id s = 7) (sample_db None None))"
    using em_logout [of "sample_db None None" 7 1 "sample_env 20" "NoBody 204" "[DisconnectSessionOf 1 7]"
        "revoke_where 20 (\<lambda>s. s_id s = 7) (sample_db None None)"]
    by (simp add: logout_def exec_auto_def sample_env_def find_session_def sample_db_def sample_session_def)
  then show ?thesis using sample_db_inv by (rule answered_revocations_are_ordered)
qed

lemma session_check_witness:
  "maintainWebSocketSession [SessionCheck (Some (10, 10, sample_db None None))] phone_client = Watching
   \<and> maintainWebSocketSession [SessionCheck (Some (10, 10, sample_db None None)), SessionCheck None] phone_client \<noteq> Watching"
  using session_check_fails_closed [of "[SessionCheck (Some (10, 10, sample_db None None))]" phone_client]
    session_check_fails_closed [of "[SessionCheck (Some (10, 10, sample_db None None)), SessionCheck None]" phone_client]
  by (simp add: active_session_def sample_db_def sample_session_def live_session_def sessionAbsoluteLifetime_def phone_client_def)

end
