(* ===== verification/SqlScript.thy ===== *)
theory SqlScript
  imports GoStrings "HOL-Library.Word"
begin

text \<open>
  The text of a migration: \<^verbatim>\<open>splitSQLStatements\<close>, \<^verbatim>\<open>unwrapTransaction\<close> and \<^verbatim>\<open>equalBytes\<close> of
  \<^verbatim>\<open>internal/migrate/migrate.go\<close>. The splitter is the loop of the code over an index into the text;
  a loop that did not end would be \<open>None\<close>. It is related to a reference that reads the text from
  left to right, and to scripts put together from lexical units.
\<close>

section \<open>Splitting\<close>

text \<open>The five flags of the loop; at most one of them is set at a time.\<close>

datatype sql_mode = Outside | SingleQuote | DoubleQuote | LineComment | BlockComment | DollarTag string

definition tag_char :: "char \<Rightarrow> bool" where
  "tag_char c \<longleftrightarrow> c = CHR ''_'' \<or> is_lower c \<or> is_upper c \<or> is_digit c"

definition quote :: char where "quote = CHR 0x27"
definition newline :: char where "newline = CHR 0x0A"

definition tagEnd :: "string \<Rightarrow> nat \<Rightarrow> nat" where
  "tagEnd sql index = index + length (takeWhile tag_char (drop index sql))"

text \<open>\<open>sql[start:index]\<close>, and a statement unless it is blank.\<close>

definition slice :: "string \<Rightarrow> nat \<Rightarrow> nat \<Rightarrow> string" where
  "slice sql start index = take (index - start) (drop start sql)"

definition addStatement :: "string list \<Rightarrow> string \<Rightarrow> string list" where
  "addStatement statements piece = (if TrimSpace piece \<noteq> [] then statements @ [TrimSpace piece] else statements)"

text \<open>One turn of the loop: the new index, start, mode and statements.\<close>

definition splitTurn ::
  "string \<Rightarrow> nat \<Rightarrow> nat \<Rightarrow> sql_mode \<Rightarrow> string list \<Rightarrow> nat \<times> nat \<times> sql_mode \<times> string list" where
  "splitTurn sql index start mode statements =
     (case mode of
        LineComment \<Rightarrow> (index + 1, start, if sql ! index = newline then Outside else LineComment, statements)
      | BlockComment \<Rightarrow>
          if index + 1 < length sql \<and> slice sql index (index + 2) = ''*/'' then (index + 2, start, Outside, statements)
          else (index + 1, start, BlockComment, statements)
      | DollarTag dollarTag \<Rightarrow>
          if HasPrefix (drop index sql) dollarTag then (index + length dollarTag, start, Outside, statements)
          else (index + 1, start, DollarTag dollarTag, statements)
      | SingleQuote \<Rightarrow>
          if sql ! index = quote
          then if index + 1 < length sql \<and> sql ! (index + 1) = quote then (index + 2, start, SingleQuote, statements)
               else (index + 1, start, Outside, statements)
          else (index + 1, start, SingleQuote, statements)
      | DoubleQuote \<Rightarrow>
          if sql ! index = CHR 0x22
          then if index + 1 < length sql \<and> sql ! (index + 1) = CHR 0x22 then (index + 2, start, DoubleQuote, statements)
               else (index + 1, start, Outside, statements)
          else (index + 1, start, DoubleQuote, statements)
      | Outside \<Rightarrow>
          if index + 1 < length sql \<and> slice sql index (index + 2) = ''--'' then (index + 2, start, LineComment, statements)
          else if index + 1 < length sql \<and> slice sql index (index + 2) = ''/*'' then (index + 2, start, BlockComment, statements)
          else if sql ! index = quote then (index + 1, start, SingleQuote, statements)
          else if sql ! index = CHR 0x22 then (index + 1, start, DoubleQuote, statements)
          else if sql ! index = CHR ''$''
          then (let stop = tagEnd sql (index + 1)
                in if stop < length sql \<and> sql ! stop = CHR ''$''
                   then (stop + 1, start, DollarTag (slice sql index (stop + 1)), statements)
                   else (index + 1, start, Outside, statements))
          else if sql ! index = CHR '';''
          then (index + 1, index + 1, Outside, addStatement statements (slice sql start (index + 1)))
          else (index + 1, start, Outside, statements))"

partial_function (option) splitLoop ::
  "string \<Rightarrow> nat \<Rightarrow> nat \<Rightarrow> sql_mode \<Rightarrow> string list \<Rightarrow> (sql_mode \<times> nat \<times> string list) option" where
  "splitLoop sql index start mode statements =
     (if \<not> index < length sql then Some (mode, start, statements)
      else case splitTurn sql index start mode statements of
        (index', start', mode', statements') \<Rightarrow> splitLoop sql index' start' mode' statements')"

definition splitSQLStatements :: "string \<Rightarrow> (string + string list) option" where
  "splitSQLStatements sql =
     (case splitLoop sql 0 0 Outside [] of
        None \<Rightarrow> None
      | Some (mode, start, found) \<Rightarrow>
          Some (if mode \<noteq> Outside \<and> mode \<noteq> LineComment
                then Inl ''non-transactional migration contains unterminated SQL syntax''
                else let statements = addStatement found (drop start sql)
                     in if statements = [] then Inl ''non-transactional migration contains no SQL statements''
                        else Inr statements))"

section \<open>The outer transaction\<close>

text \<open>\<open>strings.ToUpper\<close>, with the Unicode tables as a parameter where the ASCII path does not apply.\<close>

definition ToUpper :: "(string \<Rightarrow> string) \<Rightarrow> string \<Rightarrow> string" where
  "ToUpper table s = (if is_ascii s then map ascii_upper s else table s)"

definition significantLines :: "string list \<Rightarrow> nat list" where
  "significantLines lines =
     filter (\<lambda>i. \<not> (TrimSpace (lines ! i) = [] \<or> HasPrefix (TrimSpace (lines ! i)) ''--'')) [0..<length lines]"

definition unwrapTransaction :: "(string \<Rightarrow> string) \<Rightarrow> string \<Rightarrow> string + string \<times> bool" where
  "unwrapTransaction table sql =
     (let lines = split_at newline sql; significant = significantLines lines
      in if significant = [] then Inl ''migration contains no SQL''
         else let first = ToUpper table (TrimSpace (lines ! hd significant));
                  last = ToUpper table (TrimSpace (lines ! last significant));
                  hasBegin = (first = ''BEGIN;'' \<or> first = ''BEGIN'');
                  hasCommit = (last = ''COMMIT;'' \<or> last = ''COMMIT'')
              in if hasBegin \<noteq> hasCommit then Inl ''migration must contain both outer BEGIN and COMMIT or neither''
                 else if \<not> hasBegin then Inr (sql, False)
                 else Inr (join_with [newline] (lines[hd significant := [], List.last significant := []]), True))"

section \<open>Comparing checksums\<close>

unbundle bit_operations_syntax

fun differenceLoop :: "byte_string \<Rightarrow> byte_string \<Rightarrow> 8 word \<Rightarrow> 8 word" where
  "differenceLoop (a # left) (b # right) difference = differenceLoop left right (difference OR (of_nat (byte a) XOR of_nat (byte b)))"
| "differenceLoop _ _ difference = difference"

definition equalBytes :: "byte_string \<Rightarrow> byte_string \<Rightarrow> bool" where
  "equalBytes left right = (if length left \<noteq> length right then False else differenceLoop left right 0 = 0)"

section \<open>A reference\<close>

text \<open>
  One step from the head of a text: how many characters it takes, the mode after it and whether a
  statement ends there.
\<close>

fun lex :: "sql_mode \<Rightarrow> string \<Rightarrow> nat \<times> sql_mode \<times> bool" where
  "lex LineComment (c # s) = (1, if c = newline then Outside else LineComment, False)"
| "lex BlockComment s = (if take 2 s = ''*/'' then (2, Outside, False) else (1, BlockComment, False))"
| "lex (DollarTag tag) s = (if HasPrefix s tag then (length tag, Outside, False) else (1, DollarTag tag, False))"
| "lex SingleQuote (c # s) = (if c \<noteq> quote then (1, SingleQuote, False)
     else if take 1 s = [quote] then (2, SingleQuote, False) else (1, Outside, False))"
| "lex DoubleQuote (c # s) = (if c \<noteq> CHR 0x22 then (1, DoubleQuote, False)
     else if take 1 s = [CHR 0x22] then (2, DoubleQuote, False) else (1, Outside, False))"
| "lex Outside (c # s) =
     (if take 2 (c # s) = ''--'' then (2, LineComment, False)
      else if take 2 (c # s) = ''/*'' then (2, BlockComment, False)
      else if c = quote then (1, SingleQuote, False)
      else if c = CHR 0x22 then (1, DoubleQuote, False)
      else if c = CHR ''$''
      then (let word = takeWhile tag_char s
            in if take 1 (drop (length word) s) = ''$'' then (length word + 2, DollarTag (''$'' @ word @ ''$''), False)
               else (1, Outside, False))
      else (1, Outside, c = CHR '';''))"
| "lex mode [] = (1, mode, False)"

text \<open>A tag in force is never empty, so every step makes progress.\<close>

definition progress :: "sql_mode \<Rightarrow> string \<Rightarrow> nat" where
  "progress mode s = max 1 (fst (lex mode s))"

function scan :: "string \<Rightarrow> string \<Rightarrow> sql_mode \<Rightarrow> string list \<Rightarrow> sql_mode \<times> string \<times> string list" where
  "scan s piece mode found =
     (if s = [] then (mode, piece, found)
      else let piece' = piece @ take (progress mode s) s; mode' = fst (snd (lex mode s))
           in if snd (snd (lex mode s)) then scan (drop (progress mode s) s) [] mode' (addStatement found piece')
              else scan (drop (progress mode s) s) piece' mode' found)"
  by pat_completeness auto
termination
  by (relation "measure (\<lambda>(s, _). length s)") (auto simp: progress_def)

declare scan.simps [simp del]

section \<open>The loop is the reference\<close>

definition mode_ok :: "sql_mode \<Rightarrow> bool" where
  "mode_ok mode \<longleftrightarrow> mode \<noteq> DollarTag []"

lemma take2_Cons: "take 2 (c # s) = [a, b] \<longleftrightarrow> c = a \<and> take 1 s = [b]"
  by (cases s) auto

lemma take1_eq: "take 1 s = [b] \<longleftrightarrow> s \<noteq> [] \<and> hd s = b"
  by (cases s) auto

lemma lex_bounds:
  assumes "mode_ok mode" and "s \<noteq> []" and "lex mode s = (n, m, b)"
  shows "1 \<le> n \<and> n \<le> length s \<and> mode_ok m"
proof -
  obtain c t where s: "s = c # t" using assms(2) by (cases s) auto
  have word: "length (takeWhile tag_char t) + 2 \<le> length s" if "take 1 (drop (length (takeWhile tag_char t)) t) = ''$''"
    using that unfolding take1_eq by (simp add: s)
  have prefix: "length tag \<le> length s" if "HasPrefix s tag" for tag
    using that unfolding HasPrefix_def by (metis length_take min.cobounded1)
  show ?thesis
    using assms(1,3) word prefix
    by (cases mode) (auto simp: s mode_ok_def Let_def take2_Cons take1_eq Suc_le_eq split: if_splits)
qed

lemma slice_two: "index + 1 < length sql \<and> slice sql index (index + 2) = w \<longleftrightarrow> length w = 2 \<and> take 2 (drop index sql) = w"
  if "length w = 2"
  using that unfolding slice_def by (auto dest: arg_cong [where f = length])

lemma slice_grow: "start \<le> index \<Longrightarrow> slice sql start index @ take n (drop index sql) = slice sql start (index + n)"
proof -
  assume le: "start \<le> index"
  then have "drop index sql = drop (index - start) (drop start sql)" by simp
  then show ?thesis using le by (simp add: slice_def take_add [symmetric] del: drop_drop)
qed

lemma splitTurn_lex:
  assumes "mode_ok mode" and "index < length sql" and "lex mode (drop index sql) = (n, mode', semi)"
  shows "splitTurn sql index start mode found =
    (if semi then (index + n, index + n, mode', addStatement found (slice sql start (index + n)))
     else (index + n, start, mode', found))"
proof -
  have rest: "drop index sql = sql ! index # drop (Suc index) sql" using assms(2) by (rule Cons_nth_drop_Suc [symmetric])
  have next_char: "take 1 (drop (Suc index) sql) = [c] \<longleftrightarrow> index + 1 < length sql \<and> sql ! (index + 1) = c" for c
    unfolding take1_eq by (auto simp: hd_drop_conv_nth)
  have at: "take 1 (drop k sql) = [c] \<longleftrightarrow> k < length sql \<and> sql ! k = c" for k c
    unfolding take1_eq by (auto simp: hd_drop_conv_nth)
  have tag: "slice sql index (index + 1 + length w + 1) = CHR ''$'' # w @ ''$''"
    if "w = takeWhile tag_char (drop (Suc index) sql)" "sql ! index = CHR ''$''" "take 1 (drop (Suc index + length w) sql) = ''$''" for w
  proof -
    have "take (length w) (drop (Suc index) sql) = w" unfolding that(1) by (metis takeWhile_eq_take)
    moreover have "take (length w + 1) (drop (Suc index) sql) = take (length w) (drop (Suc index) sql) @ take 1 (drop (length w) (drop (Suc index) sql))"
      by (rule take_add)
    ultimately show ?thesis using that(2,3) by (simp add: slice_def rest add.commute)
  qed
  have two: "(index + 1 < length sql \<and> slice sql index (index + 2) = [a, b]) = (take 2 (sql ! index # drop (Suc index) sql) = [a, b])" for a b
    using slice_two [of "[a, b]" index sql] unfolding rest by simp
  show ?thesis
  proof (cases mode)
    case Outside
    let ?r = "drop (Suc index) sql" and ?c = "sql ! index" and ?w = "takeWhile tag_char (drop (Suc index) sql)"
    have dollar: "(tagEnd sql (index + 1) < length sql \<and> sql ! tagEnd sql (index + 1) = CHR ''$'') = (take 1 (drop (length ?w) ?r) = ''$'')"
      using at [of "Suc index + length ?w" "CHR ''$''"] by (simp add: tagEnd_def add.commute)
    have tagged: "tagEnd sql (index + 1) + 1 = index + (length ?w + 2)" by (simp add: tagEnd_def)
    have opened: "slice sql index (index + (length ?w + 2)) = ''$'' @ ?w @ ''$''"
      if "?c = CHR ''$''" "take 1 (drop (length ?w) ?r) = ''$''"
      using tag [OF refl that(1)] that(2) by (simp add: add.commute)
    show ?thesis
      using assms(3) unfolding Outside rest splitTurn_def sql_mode.case lex.simps two dollar tagged Let_def
      using opened by (auto simp: quote_def split: if_splits)
  next
    case (DollarTag t)
    then show ?thesis using assms(2,3) by (auto simp: splitTurn_def split: if_splits)
  next
    case BlockComment
    then show ?thesis using assms(3) unfolding rest splitTurn_def BlockComment sql_mode.case two by (auto split: if_splits)
  qed (use assms(2,3) in \<open>auto simp: splitTurn_def rest next_char [unfolded One_nat_def Suc_eq_plus1 [symmetric]] split: if_splits\<close>)
qed

lemma scan_step:
  assumes "mode_ok mode" and "s \<noteq> []" and "lex mode s = (n, mode', semi)"
  shows "scan s piece mode found =
    (if semi then scan (drop n s) [] mode' (addStatement found (piece @ take n s)) else scan (drop n s) (piece @ take n s) mode' found)"
proof -
  have "progress mode s = n" using lex_bounds [OF assms] assms(3) by (simp add: progress_def)
  then show ?thesis using assms(2,3) by (subst scan.simps) (simp add: Let_def)
qed

lemma scan_Nil [simp]: "scan [] piece mode found = (mode, piece, found)"
  by (subst scan.simps) simp

lemma splitLoop_scan:
  assumes "mode_ok mode" and "start \<le> index" and "index \<le> length sql"
  shows "splitLoop sql index start mode found =
    (case scan (drop index sql) (slice sql start index) mode found of (m, piece, f) \<Rightarrow> Some (m, length sql - length piece, f))"
  using assms
proof (induction "length sql - index" arbitrary: index start mode found rule: less_induct)
  case less
  show ?case
  proof (cases "index < length sql")
    case False
    then have "index = length sql" using less.prems(3) by simp
    then show ?thesis using less.prems(2) by (subst splitLoop.simps) (simp add: slice_def)
  next
    case True
    obtain n mode' semi where lex: "lex mode (drop index sql) = (n, mode', semi)" using prod_cases3 by blast
    note bounds = lex_bounds [OF less.prems(1) _ lex]
    have n: "1 \<le> n" "index + n \<le> length sql" and ok: "mode_ok mode'" using bounds True by auto
    note IH = less.hyps [OF _ ok]
    have grow: "slice sql start index @ take n (drop index sql) = slice sql start (index + n)"
      using slice_grow less.prems(2) by blast
    have rest: "drop n (drop index sql) = drop (index + n) sql" by (simp add: add.commute)
    have fresh: "slice sql (index + n) (index + n) = []" by (simp add: slice_def)
    show ?thesis
      unfolding splitLoop.simps [of sql index] splitTurn_lex [OF less.prems(1) True lex]
        scan_step [OF less.prems(1) _ lex, of "slice sql start index" found] grow rest
      using True n IH [of "index + n" "index + n"] IH [of "index + n" start] less.prems(2) lex
        scan_step [OF less.prems(1) _ lex, of "slice sql start index" found]
      by (simp add: grow rest fresh add.commute [of n index])
  qed
qed

definition splitReference :: "string \<Rightarrow> string + string list" where
  "splitReference sql =
     (case scan sql [] Outside [] of
        (mode, piece, found) \<Rightarrow>
          if mode \<noteq> Outside \<and> mode \<noteq> LineComment then Inl ''non-transactional migration contains unterminated SQL syntax''
          else if addStatement found piece = [] then Inl ''non-transactional migration contains no SQL statements''
          else Inr (addStatement found piece))"

text \<open>What is left of the text is its end.\<close>

definition suffix_of :: "string \<Rightarrow> string \<Rightarrow> bool" where
  "suffix_of piece s \<longleftrightarrow> (\<exists>p. s = p @ piece)"

lemma scan_suffix:
  assumes "mode_ok mode" and "scan s piece mode found = (m, rest, f)"
  shows "\<exists>p. piece @ s = p @ rest"
  using assms
proof (induction "length s" arbitrary: s piece mode found rule: less_induct)
  case less
  show ?case
  proof (cases "s = []")
    case True
    then show ?thesis using less.prems(2) by auto
  next
    case False
    obtain n mode' semi where lex: "lex mode s = (n, mode', semi)" using prod_cases3 by blast
    note bounds = lex_bounds [OF less.prems(1) False lex]
    have smaller: "length (drop n s) < length s" using bounds False by simp
    have ok: "mode_ok mode'" using bounds by blast
    have split: "piece @ s = (piece @ take n s) @ drop n s" by simp
    show ?thesis
    proof (cases semi)
      case True
      then have "scan (drop n s) [] mode' (addStatement found (piece @ take n s)) = (m, rest, f)"
        using less.prems(2) scan_step [OF less.prems(1) False lex, of piece found] by simp
      then obtain p where "drop n s = p @ rest" using less.hyps [OF smaller ok] by fastforce
      then have "piece @ s = (piece @ take n s @ p) @ rest" using split by simp
      then show ?thesis by blast
    next
      case False
      then have "scan (drop n s) (piece @ take n s) mode' found = (m, rest, f)"
        using less.prems(2) scan_step [OF less.prems(1) \<open>s \<noteq> []\<close> lex, of piece found] by simp
      then show ?thesis using less.hyps [OF smaller ok] split by fastforce
    qed
  qed
qed

lemma splitSQLStatements_reference: "splitSQLStatements sql = Some (splitReference sql)"
proof -
  obtain m piece f where scan: "scan sql [] Outside [] = (m, piece, f)" using prod_cases3 by blast
  obtain p where "sql = p @ piece" using scan_suffix [OF _ scan] by (auto simp: mode_ok_def)
  then have "drop (length sql - length piece) sql = piece" by simp
  then show ?thesis
    using splitLoop_scan [of Outside 0 0 sql "[]"] scan
    by (simp add: splitSQLStatements_def splitReference_def mode_ok_def slice_def Let_def)
qed

section \<open>Scripts put together from lexical units\<close>

datatype sql_unit = Plain char | SingleQuoted string | DoubleQuoted string | LineCommented string | BlockCommented string
  | DollarQuoted string string

fun doubled :: "char \<Rightarrow> string \<Rightarrow> string" where
  "doubled q [] = []"
| "doubled q (c # s) = (if c = q then q # q # doubled q s else c # doubled q s)"

fun render :: "sql_unit \<Rightarrow> string" where
  "render (Plain c) = [c]"
| "render (SingleQuoted s) = quote # doubled quote s @ [quote]"
| "render (DoubleQuoted s) = CHR 0x22 # doubled (CHR 0x22) s @ [CHR 0x22]"
| "render (LineCommented s) = ''--'' @ s @ [newline]"
| "render (BlockCommented s) = ''/*'' @ s @ ''*/''"
| "render (DollarQuoted tag s) = ''$'' @ tag @ ''$'' @ s @ ''$'' @ tag @ ''$''"

text \<open>A closing mark is found where it is meant: it does not start earlier.\<close>

definition ends_only :: "string \<Rightarrow> string \<Rightarrow> bool" where
  "ends_only mark s \<longleftrightarrow> (\<forall>i < length s. \<not> HasPrefix (drop i s @ mark) mark)"

text \<open>A unit, with the character that follows it.\<close>

fun unit_ok :: "sql_unit \<Rightarrow> char \<Rightarrow> bool" where
  "unit_ok (Plain c) next_char \<longleftrightarrow> c \<notin> {quote, CHR 0x22, CHR ''$'', CHR '';''}
     \<and> \<not> (c = CHR ''-'' \<and> next_char = CHR ''-'') \<and> \<not> (c = CHR ''/'' \<and> next_char = CHR ''*'')"
| "unit_ok (SingleQuoted s) next_char \<longleftrightarrow> next_char \<noteq> quote"
| "unit_ok (DoubleQuoted s) next_char \<longleftrightarrow> next_char \<noteq> CHR 0x22"
| "unit_ok (LineCommented s) next_char \<longleftrightarrow> newline \<notin> set s"
| "unit_ok (BlockCommented s) next_char \<longleftrightarrow> ends_only ''*/'' s"
| "unit_ok (DollarQuoted tag s) next_char \<longleftrightarrow> list_all tag_char tag \<and> ends_only (''$'' @ tag @ ''$'') s"

text \<open>A statement: units followed by a semicolon.\<close>

fun statement_text :: "sql_unit list \<Rightarrow> string" where
  "statement_text [] = '';''"
| "statement_text (u # us) = render u @ statement_text us"

fun statement_ok :: "sql_unit list \<Rightarrow> bool" where
  "statement_ok [] \<longleftrightarrow> True"
| "statement_ok (u # us) \<longleftrightarrow> unit_ok u (hd (statement_text us)) \<and> statement_ok us"

lemma statement_text_nonempty [simp]: "statement_text us \<noteq> []"
  by (induction us) auto

lemma scan_one:
  assumes "lex mode (c # s) = (1, mode', False)" and "mode_ok mode"
  shows "scan (c # s) piece mode found = scan s (piece @ [c]) mode' found"
  using scan_step [OF assms(2) _ assms(1)] by simp

definition quotes :: "sql_mode \<Rightarrow> char \<Rightarrow> bool" where
  "quotes mode q \<longleftrightarrow> mode = SingleQuote \<and> q = quote \<or> mode = DoubleQuote \<and> q = CHR 0x22"

lemma lex_quotes:
  "quotes mode q \<Longrightarrow> lex mode (c # s) = (if c \<noteq> q then (1, mode, False) else if take 1 s = [q] then (2, mode, False) else (1, Outside, False))"
  unfolding quotes_def by auto

lemma scan_doubled:
  assumes q: "quotes mode q" and "rest \<noteq> []" and "hd rest \<noteq> q"
  shows "scan (doubled q s @ q # rest) piece mode found = scan rest (piece @ doubled q s @ [q]) Outside found"
proof (induction s arbitrary: piece)
  case Nil
  have "take 1 rest \<noteq> [q]" unfolding take1_eq using assms(3) by simp
  then show ?case using q scan_one [of mode q rest Outside] by (auto simp: lex_quotes quotes_def mode_ok_def)
next
  case (Cons c s)
  have ok: "mode_ok mode" using q by (auto simp: quotes_def mode_ok_def)
  show ?case
  proof (cases "c = q")
    case True
    have "lex mode (q # q # doubled q s @ q # rest) = (2, mode, False)" using q by (simp add: lex_quotes)
    from scan_step [OF ok _ this, of piece found] Cons.IH [of "piece @ [q, q]"] show ?thesis using True by simp
  next
    case False
    then show ?thesis using Cons.IH [of "piece @ [c]"] q ok by (simp add: scan_one lex_quotes)
  qed
qed

lemma scan_line:
  "newline \<notin> set s \<Longrightarrow> scan (s @ newline # rest) piece LineComment found = scan rest (piece @ s @ [newline]) Outside found"
  by (induction s arbitrary: piece) (auto simp: scan_one mode_ok_def)

lemma ends_only_Cons: "ends_only mark (c # s) \<Longrightarrow> \<not> HasPrefix (c # s @ mark) mark \<and> ends_only mark s"
  unfolding ends_only_def by (metis Suc_less_eq append_Cons drop0 drop_Suc_Cons length_Cons zero_less_Suc)

lemma HasPrefix_longer: "length mark \<le> length s \<Longrightarrow> HasPrefix (s @ t) mark = HasPrefix s mark"
  by (simp add: HasPrefix_def)

lemma scan_marked:
  assumes "mark \<noteq> []" and "mode_ok mode"
    and stop: "\<And>t. lex mode (mark @ t) = (length mark, Outside, False)"
    and inside: "\<And>t. t \<noteq> [] \<Longrightarrow> \<not> HasPrefix t mark \<Longrightarrow> lex mode t = (1, mode, False)"
  shows "ends_only mark s \<Longrightarrow> scan (s @ mark @ rest) piece mode found = scan rest (piece @ s @ mark) Outside found"
proof (induction s arbitrary: piece)
  case Nil
  then show ?case using scan_step [OF assms(2) _ stop [of rest], of piece found] assms(1) by simp
next
  case (Cons c s)
  note here = ends_only_Cons [OF Cons.prems]
  have "\<not> HasPrefix ((c # s @ mark) @ rest) mark" using here by (subst HasPrefix_longer) simp_all
  then have "lex mode (c # s @ mark @ rest) = (1, mode, False)" using inside by simp
  from scan_one [OF this assms(2)] Cons.IH [of "piece @ [c]"] here show ?case by simp
qed

lemma scan_block: "ends_only ''*/'' s \<Longrightarrow> scan (s @ ''*/'' @ rest) piece BlockComment found = scan rest (piece @ s @ ''*/'') Outside found"
  by (rule scan_marked) (simp_all add: mode_ok_def HasPrefix_def numeral_2_eq_2)

lemma scan_dollar:
  "tag \<noteq> [] \<Longrightarrow> ends_only tag s \<Longrightarrow> scan (s @ tag @ rest) piece (DollarTag tag) found = scan rest (piece @ s @ tag) Outside found"
  by (rule scan_marked) (simp_all add: mode_ok_def HasPrefix_def)

lemma lex_dollar:
  assumes "list_all tag_char tag"
  shows "lex Outside (CHR ''$'' # tag @ CHR ''$'' # rest) = (length tag + 2, DollarTag (CHR ''$'' # tag @ ''$''), False)"
proof -
  have "\<not> tag_char (CHR ''$'')" by code_simp
  then have word: "takeWhile tag_char (tag @ CHR ''$'' # rest) = tag" using assms by (simp add: list_all_iff takeWhile_append2)
  show ?thesis by (simp add: quote_def Let_def word)
qed

lemma scan_unit:
  assumes "unit_ok u (hd rest)" and "rest \<noteq> []"
  shows "scan (render u @ rest) piece Outside found = scan rest (piece @ render u) Outside found"
proof (cases u)
  case (Plain c)
  then have "lex Outside (c # rest) = (1, Outside, False)" using assms by (cases rest) auto
  then show ?thesis using Plain scan_one by (simp add: mode_ok_def)
next
  case (SingleQuoted s)
  have "lex Outside (quote # t) = (1, SingleQuote, False)" for t by (simp add: quote_def)
  from scan_one [OF this] scan_doubled [of SingleQuote quote rest s "piece @ [quote]"] show ?thesis
    using assms SingleQuoted by (simp add: mode_ok_def quotes_def)
next
  case (DoubleQuoted s)
  have "lex Outside (CHR 0x22 # t) = (1, DoubleQuote, False)" for t by (simp add: quote_def)
  from scan_one [OF this] scan_doubled [of DoubleQuote "CHR 0x22" rest s "piece @ [CHR 0x22]"] show ?thesis
    using assms DoubleQuoted by (simp add: mode_ok_def quotes_def)
next
  case (LineCommented s)
  have "lex Outside (''--'' @ t) = (2, LineComment, False)" for t by simp
  from scan_step [OF _ _ this, of "s @ newline # rest" piece found] scan_line [of s rest "piece @ ''--''"] show ?thesis
    using assms LineCommented by (simp add: mode_ok_def)
next
  case (BlockCommented s)
  have "lex Outside (''/*'' @ t) = (2, BlockComment, False)" for t by simp
  from scan_step [OF _ _ this, of "s @ ''*/'' @ rest" piece found] scan_block [of s rest "piece @ ''/*''"] show ?thesis
    using assms BlockCommented by (simp add: mode_ok_def)
next
  case (DollarQuoted tag s)
  let ?tag = "CHR ''$'' # tag @ ''$''"
  have tag: "list_all tag_char tag" "ends_only ?tag s" using assms DollarQuoted by simp_all
  have "scan (?tag @ s @ ?tag @ rest) piece Outside found = scan (s @ ?tag @ rest) (piece @ ?tag) (DollarTag ?tag) found"
    using scan_step [OF _ _ lex_dollar [OF tag(1), of "s @ ?tag @ rest"], of piece found] by (simp add: mode_ok_def)
  also have "\<dots> = scan rest ((piece @ ?tag) @ s @ ?tag) Outside found" by (rule scan_dollar) (use tag in simp_all)
  finally show ?thesis using DollarQuoted by simp
qed

lemma scan_statement:
  assumes "statement_ok us"
  shows "scan (statement_text us @ rest) piece Outside found = scan rest [] Outside (addStatement found (piece @ statement_text us))"
  using assms
proof (induction us arbitrary: piece)
  case Nil
  have "lex Outside (CHR '';'' # rest) = (1, Outside, True)" by (simp add: quote_def)
  from scan_step [OF _ _ this, of piece found] show ?case by (simp add: mode_ok_def)
next
  case (Cons u us)
  have "unit_ok u (hd (statement_text us @ rest))" using Cons.prems by (simp add: hd_append)
  from scan_unit [OF this, of piece found] Cons.IH [of "piece @ render u"] Cons.prems show ?case by simp
qed

lemma statement_text_ends: "\<exists>p. statement_text us = p @ '';''"
proof (induction us)
  case (Cons u us)
  then obtain p where "statement_text us = p @ '';''" by blast
  then have "statement_text (u # us) = (render u @ p) @ '';''" by simp
  then show ?case by blast
qed simp

text \<open>White space is not trimmed past a character that is none.\<close>

lemma space_width_before:
  assumes "narrow c"
  shows "space_width (p @ [c]) \<le> length p"
proof (cases p)
  case (Cons a t)
  have "length u \<le> length p" if "find (\<lambda>u. take (length u) (p @ [c]) = u) unicode_spaces = Some u" for u
  proof (rule ccontr)
    assume long: "\<not> length u \<le> length p"
    have u: "u \<in> set unicode_spaces" "take (length u) (p @ [c]) = u" using find_SomeD [OF that] by simp_all
    then have "u = p @ [c]" using long by simp
    then show False using wide_spaces u(1) assms by (auto simp: narrow_def)
  qed
  then show ?thesis using Cons by (auto simp: space_width_def split: option.split)
qed (use assms in simp)

lemma trim_left_narrow:
  assumes "narrow c"
  shows "\<exists>q. trim_left (p @ [c]) = q @ [c]"
proof (induction "length p" arbitrary: p rule: less_induct)
  case less
  show ?case
  proof (cases "space_width (p @ [c]) = 0")
    case True
    then show ?thesis by (subst trim_left.simps) simp
  next
    case False
    note le = space_width_before [OF assms, of p]
    have "trim_left (p @ [c]) = trim_left (drop (space_width (p @ [c])) p @ [c])"
      by (subst trim_left.simps) (simp add: False le)
    moreover have "length (drop (space_width (p @ [c])) p) < length p" using False le by simp
    ultimately show ?thesis using less.hyps by metis
  qed
qed

lemma TrimSpace_ends:
  assumes "narrow c"
  shows "\<exists>q. TrimSpace (p @ [c]) = q @ [c]"
proof -
  obtain q where q: "trim_left (p @ [c]) = q @ [c]" using trim_left_narrow [OF assms] by blast
  have "trim_right (q @ [c]) = q @ [c]" by (subst trim_right.simps) (simp add: last_space_width_narrow assms)
  then show ?thesis using q by (simp add: TrimSpace_def)
qed

lemma addStatement_text: "addStatement found (statement_text us) = found @ [TrimSpace (statement_text us)]"
proof -
  obtain p where "statement_text us = p @ '';''" using statement_text_ends by blast
  moreover have "narrow (CHR '';'')" by code_simp
  ultimately have "TrimSpace (statement_text us) \<noteq> []" using TrimSpace_ends [of "CHR '';''" p] by auto
  then show ?thesis by (simp add: addStatement_def)
qed

lemma scan_script:
  assumes "list_all statement_ok script"
  shows "scan (concat (map statement_text script)) [] Outside found = (Outside, [], found @ map (TrimSpace \<circ> statement_text) script)"
  using assms
  by (induction script arbitrary: found) (simp_all add: scan_statement addStatement_text)

text \<open>Where the pieces of a script are: nothing is lost but blank pieces and surrounding space.\<close>

lemma scan_pieces:
  assumes "mode_ok mode" and "scan s piece mode found = (m, rest, f)"
  shows "\<exists>pieces. piece @ s = concat pieces @ rest \<and> f = found @ filter (\<lambda>x. x \<noteq> []) (map TrimSpace pieces)
    \<and> (\<forall>x \<in> set pieces. last x = CHR '';'')"
  using assms
proof (induction "length s" arbitrary: s piece mode found rule: less_induct)
  case less
  show ?case
  proof (cases "s = []")
    case True
    then show ?thesis using less.prems(2) by (intro exI [of _ "[]"]) simp
  next
    case False
    obtain n mode' semi where lex: "lex mode s = (n, mode', semi)" using prod_cases3 by blast
    note bounds = lex_bounds [OF less.prems(1) False lex]
    have smaller: "length (drop n s) < length s" using bounds False by simp
    have ok: "mode_ok mode'" using bounds by blast
    note step = scan_step [OF less.prems(1) False lex, of piece found]
    have split: "piece @ s = (piece @ take n s) @ drop n s" by simp
    show ?thesis
    proof (cases semi)
      case True
      let ?x = "piece @ take n s"
      have "take n s = '';''" using lex True False by (cases s; cases mode) (auto simp: Let_def split: if_splits)
      then have "last ?x = CHR '';''" by simp
      moreover obtain pieces where pieces: "drop n s = concat pieces @ rest"
          "f = addStatement found ?x @ filter (\<lambda>x. x \<noteq> []) (map TrimSpace pieces)" "\<forall>x \<in> set pieces. last x = CHR '';''"
        using less.hyps [OF smaller ok, of "[]" "addStatement found ?x"] less.prems(2) step True by auto
      moreover have "piece @ s = concat (?x # pieces) @ rest" using split unfolding pieces by simp
      ultimately have "piece @ s = concat (?x # pieces) @ rest \<and> f = found @ filter (\<lambda>x. x \<noteq> []) (map TrimSpace (?x # pieces))
          \<and> (\<forall>x \<in> set (?x # pieces). last x = CHR '';'')"
        by (intro conjI) (assumption, auto simp: addStatement_def)
      then show ?thesis by blast
    next
      case False
      then have "scan (drop n s) (piece @ take n s) mode' found = (m, rest, f)" using less.prems(2) step by simp
      then show ?thesis unfolding split by (rule less.hyps [OF smaller ok])
    qed
  qed
qed

section \<open>Bytes and lines\<close>

lemma byte_word_eq: "(of_nat (byte a) :: 8 word) = of_nat (byte b) \<longleftrightarrow> a = b"
proof -
  have "take_bit 8 (byte c) = byte c" for c :: char by (simp add: take_bit_eq_mod)
  then have "(of_nat (byte a) :: 8 word) = of_nat (byte b) \<longleftrightarrow> byte a = byte b" by (simp add: word_of_nat_eq_iff)
  then show ?thesis by simp
qed

lemma differenceLoop_zero: "length left = length right \<Longrightarrow> differenceLoop left right d = 0 \<longleftrightarrow> d = 0 \<and> left = right"
proof (induction left right arbitrary: d rule: list_induct2)
  case (Cons a left b right)
  have "x XOR y = 0 \<longleftrightarrow> x = y" for x y :: "8 word" by (metis xor.assoc xor.left_neutral xor.right_neutral xor_self_eq)
  then have "d OR (of_nat (byte a) XOR of_nat (byte b)) = 0 \<longleftrightarrow> d = 0 \<and> a = b" by (simp add: or_eq_0_iff byte_word_eq)
  then show ?case using Cons.IH by simp
qed simp

lemma split_at_append: "split_at d (u @ d # v) = split_at d u @ split_at d v"
  by (induction u) (auto split: list.split simp: split_at_nonempty)

lemma join_with_Cons: "ls \<noteq> [] \<Longrightarrow> join_with sep (l # ls) = l @ sep @ join_with sep ls"
  by (cases ls) auto

lemma join_with_snoc: "ls \<noteq> [] \<Longrightarrow> join_with sep (ls @ [l]) = join_with sep ls @ sep @ l"
  by (induction sep ls rule: join_with.induct) auto

lemma TrimSpace_word: "list_all narrow w \<Longrightarrow> TrimSpace w = w"
  by (cases "w = []") (auto intro: TrimSpace_narrow simp: list_all_iff)

text \<open>The lines of a script that is wrapped in a transaction.\<close>

lemma wrapped_lines:
  assumes "list_all narrow first" "list_all narrow final" "newline \<notin> set first" "newline \<notin> set final"
  shows "split_at newline (first @ [newline] @ body @ [newline] @ final) = first # split_at newline body @ [final]"
  using split_at_append [of newline first "body @ newline # final"] split_at_append [of newline body final]
    split_at_no_sep assms by simp

lemma wrapped_significant:
  assumes "first \<noteq> []" "final \<noteq> []" "list_all narrow first" "list_all narrow final" "\<not> HasPrefix first ''--''" "\<not> HasPrefix final ''--''"
  shows "significantLines (first # ls @ [final]) \<noteq> []" and "hd (significantLines (first # ls @ [final])) = 0"
    and "List.last (significantLines (first # ls @ [final])) = Suc (length ls)"
proof -
  let ?lines = "first # ls @ [final]"
  let ?p = "\<lambda>i. \<not> (TrimSpace (?lines ! i) = [] \<or> HasPrefix (TrimSpace (?lines ! i)) ''--'')"
  have ends: "[0..<length ?lines] = 0 # [1..<Suc (length ls)] @ [Suc (length ls)]"
  proof -
    have "[0..<Suc (length ls)] = 0 # [1..<Suc (length ls)]" by (simp only: upt_conv_Cons zero_less_Suc One_nat_def)
    moreover have "[0..<length ?lines] = [0..<Suc (length ls)] @ [Suc (length ls)]" by simp
    ultimately show ?thesis by (simp only: append_Cons)
  qed
  have "?p 0" "?p (Suc (length ls))" using assms by (simp_all add: TrimSpace_word)
  then have "significantLines ?lines = 0 # filter ?p [1..<Suc (length ls)] @ [Suc (length ls)]"
    unfolding significantLines_def ends by simp
  then show "significantLines ?lines \<noteq> []" "hd (significantLines ?lines) = 0" "List.last (significantLines ?lines) = Suc (length ls)"
    by simp_all
qed

lemma split_script:
  assumes "list_all statement_ok script" and "script \<noteq> []"
  shows "splitSQLStatements (concat (map statement_text script)) = Some (Inr (map (TrimSpace \<circ> statement_text) script))"
  unfolding splitSQLStatements_reference splitReference_def scan_script [OF assms(1)]
  using assms(2) by (simp add: addStatement_def)

section \<open>Properties\<close>

text \<open>
  C22: The splitter ends on every text, and its result is that of the reference, which reads the
  text once from left to right: its indices never leave the text and every turn makes progress.
\<close>

theorem split_is_the_reference: "splitSQLStatements sql = Some (splitReference sql)"
  by (rule splitSQLStatements_reference)


text \<open>
  Splitting loses nothing: the text is the concatenation of pieces that end in semicolons and a
  rest, and the statements are exactly the pieces and the rest, trimmed, without the blank ones.
\<close>

theorem split_loses_nothing:
  assumes "splitSQLStatements sql = Some (Inr statements)"
  shows "\<exists>pieces rest. sql = concat pieces @ rest \<and> statements = filter (\<lambda>x. x \<noteq> []) (map TrimSpace (pieces @ [rest]))
    \<and> (\<forall>x \<in> set pieces. last x = CHR '';'')"
proof -
  obtain m rest f where scan: "scan sql [] Outside [] = (m, rest, f)" using prod_cases3 by blast
  obtain pieces where "sql = concat pieces @ rest" "f = filter (\<lambda>x. x \<noteq> []) (map TrimSpace pieces)" "\<forall>x \<in> set pieces. last x = CHR '';''"
    using scan_pieces [OF _ scan] by (auto simp: mode_ok_def)
  moreover have "statements = addStatement f rest"
    using assms scan unfolding splitSQLStatements_reference splitReference_def by (auto split: if_splits)
  ultimately show ?thesis by (intro exI [of _ pieces] exI [of _ rest]) (simp add: addStatement_def)
qed

text \<open>
  The outer transaction is taken off without moving a line: the first and the last line become
  empty, everything between them stays as it is.
\<close>

theorem unwrap_wrapped:
  "unwrapTransaction table (''BEGIN;'' @ [newline] @ body @ [newline] @ ''COMMIT;'') = Inr ([newline] @ body @ [newline], True)"
proof -
  have words: "list_all narrow ''BEGIN;''" "list_all narrow ''COMMIT;''" "newline \<notin> set ''BEGIN;''" "newline \<notin> set ''COMMIT;''" by code_simp+
  have upper: "ToUpper table ''BEGIN;'' = ''BEGIN;''" "ToUpper table ''COMMIT;'' = ''COMMIT;''" unfolding ToUpper_def by code_simp+
  have sig: "significantLines (''BEGIN;'' # split_at newline body @ [''COMMIT;'']) \<noteq> []"
    "hd (significantLines (''BEGIN;'' # split_at newline body @ [''COMMIT;''])) = 0"
    "last (significantLines (''BEGIN;'' # split_at newline body @ [''COMMIT;''])) = Suc (length (split_at newline body))"
    by (rule wrapped_significant; (rule words | simp add: HasPrefix_def))+
  have joined: "join_with [newline] ([] # split_at newline body @ [[]]) = [newline] @ body @ [newline]"
    by (simp add: join_with_Cons join_with_snoc join_split_at)
  show ?thesis
    unfolding unwrapTransaction_def wrapped_lines [OF words] Let_def
    using sig joined by (simp add: upper TrimSpace_word [OF words(1)] TrimSpace_word [OF words(2)] nth_append list_update_append)
qed

text \<open>Checksums are equal for the comparison, which looks at every byte, exactly when they are equal.\<close>

theorem equalBytes_iff: "equalBytes left right \<longleftrightarrow> left = right"
  by (auto simp: equalBytes_def differenceLoop_zero)

text \<open>
  A block comment ends at the first closing mark, also where PostgreSQL nests comments: a
  semicolon in the outer comment then splits the statement.
\<close>

theorem nested_comment_is_split:
  "splitSQLStatements ''/* a /* b */ ; c */ SELECT 1;'' = Some (Inr [''/* a /* b */ ;'', ''c */ SELECT 1;''])"
proof -
  have units: "statement_ok [BlockCommented '' a /* b '', Plain (CHR '' '')]" "statement_ok (map Plain '' c */ SELECT 1'')"
    by code_simp+
  have "TrimSpace ''/* a /* b */ ;'' = ''/* a /* b */ ;''" by (rule TrimSpace_narrow) (simp_all, code_simp+)
  moreover have "TrimSpace ''c */ SELECT 1;'' = ''c */ SELECT 1;''" by (rule TrimSpace_narrow) (simp_all, code_simp+)
  moreover have "TrimSpace '' c */ SELECT 1;'' = TrimSpace ''c */ SELECT 1;''" by (rule TrimSpace_space) code_simp
  ultimately show ?thesis using split_script [of "[[BlockCommented '' a /* b '', Plain (CHR '' '')], map Plain '' c */ SELECT 1'']"] units
    by simp
qed


end
