(* ===== verification/Migrate.thy ===== *)
theory Migrate
  imports SqlScript
begin

text \<open>
  The schema migrations: \<^verbatim>\<open>migrate.go\<close>, \<^verbatim>\<open>readiness.go\<close> and the fingerprint of \<^verbatim>\<open>schema.go\<close> in
  \<^verbatim>\<open>internal/migrate\<close>. What PostgreSQL does with a script is a parameter: a schema is a value of an
  arbitrary type, an engine says what a script makes of it and what the catalogue queries see in
  it. The table of applied migrations is modelled, with its constraints. Every statement may fail,
  with or without its effect where no transaction surrounds it; a script that fails outside a
  transaction may leave any schema behind. That covers a process that dies at any point.
\<close>

section \<open>Files\<close>

record Migration =
  mg_Version :: int
  mg_Name :: string
  mg_Filename :: string
  mg_SQL :: string
  mg_Checksum :: byte_string
  mg_Transactional :: bool
  mg_Body :: string

record AppliedMigration =
  ap_Version :: int
  ap_Name :: string
  ap_Checksum :: byte_string

text \<open>An entry of the directory; its contents are \<open>None\<close> when it cannot be read.\<close>

record dir_entry =
  de_Name :: string
  de_IsDir :: bool
  de_Contents :: "string option"

datatype migration_error = ErrBaselineRequired | ErrBaselineMismatch | ErrMigrationHistoryExists | ErrMaintenanceRequired
  | MigrationFailure string

definition Ext :: "string \<Rightarrow> string" where
  "Ext name = (if CHR ''.'' \<in> set name then ''.'' @ rev (takeWhile (\<lambda>c. c \<noteq> CHR ''.'') (rev name)) else [])"

definition name_char :: "char \<Rightarrow> bool" where
  "name_char c \<longleftrightarrow> is_lower c \<or> is_digit c \<or> c = CHR ''_''"

definition migrationFilenamePattern :: "string \<Rightarrow> (string \<times> string) option" where
  "migrationFilenamePattern name =
     (let version = take 3 name; rest = drop 3 name; middle = take (length rest - 5) (drop 1 rest)
      in if length version = 3 \<and> list_all is_digit version \<and> 6 \<le> length rest \<and> hd rest = CHR ''_''
            \<and> drop (length rest - 4) rest = ''.sql'' \<and> list_all name_char middle
         then Some (version, middle) else None)"

fun loadEntries :: "(byte_string \<Rightarrow> byte_string) \<Rightarrow> (string \<Rightarrow> string) \<Rightarrow> dir_entry list \<Rightarrow> Migration list \<Rightarrow> migration_error + Migration list" where
  "loadEntries sha256 table [] migrations = Inr migrations"
| "loadEntries sha256 table (entry # entries) migrations =
     (if de_IsDir entry \<or> Ext (de_Name entry) \<noteq> ''.sql'' then loadEntries sha256 table entries migrations
      else case migrationFilenamePattern (de_Name entry) of
        None \<Rightarrow> Inl (MigrationFailure ''invalid migration filename'')
      | Some (version, name) \<Rightarrow>
        (case Atoi version of
           None \<Rightarrow> Inl (MigrationFailure ''parse migration version'')
         | Some v \<Rightarrow>
           (case de_Contents entry of
              None \<Rightarrow> Inl (MigrationFailure ''read migration'')
            | Some contents \<Rightarrow>
              (case unwrapTransaction table contents of
                 Inl err \<Rightarrow> Inl (MigrationFailure (''inspect migration: '' @ err))
               | Inr (body, transactional) \<Rightarrow>
                   loadEntries sha256 table entries (migrations @
                     [\<lparr>mg_Version = v, mg_Name = name, mg_Filename = de_Name entry, mg_SQL = contents, mg_Checksum = sha256 contents,
                       mg_Transactional = transactional, mg_Body = body\<rparr>])))))"

fun checkChain :: "int \<Rightarrow> Migration option \<Rightarrow> Migration list \<Rightarrow> migration_error option" where
  "checkChain index previous [] = None"
| "checkChain index previous (m # ms) =
     (if mg_Version m \<noteq> index + 1 then Some (MigrationFailure ''migration chain'')
      else if index > 0 \<and> map_option mg_Version previous = Some (mg_Version m) then Some (MigrationFailure ''duplicate migration version'')
      else checkChain (index + 1) (Some m) ms)"

text \<open>The order of equal versions after the sort does not matter: they are refused.\<close>

definition Load :: "(byte_string \<Rightarrow> byte_string) \<Rightarrow> (string \<Rightarrow> string) \<Rightarrow> dir_entry list option \<Rightarrow> migration_error + Migration list" where
  "Load sha256 table files =
     (case files of
        None \<Rightarrow> Inl (MigrationFailure ''read migrations'')
      | Some entries \<Rightarrow>
        (case loadEntries sha256 table entries [] of
           Inl err \<Rightarrow> Inl err
         | Inr found \<Rightarrow>
           (let migrations = sort_key mg_Version found
            in case checkChain 0 None migrations of
                 Some err \<Rightarrow> Inl err
               | None \<Rightarrow> if migrations = [] then Inl (MigrationFailure ''no migrations found'') else Inr migrations)))"

section \<open>The database\<close>

record 'd sql_engine =
  en_exec :: "string \<Rightarrow> 'd \<Rightarrow> 'd option"
  en_tables :: "'d \<Rightarrow> bool"
  en_messages :: "'d \<Rightarrow> bool"
  en_index :: "'d \<Rightarrow> bool \<times> bool \<times> bool"
  en_signatures :: "'d \<Rightarrow> string list"

record 'd mig_db =
  md_history :: "AppliedMigration list option"
  md_schema :: 'd

datatype mig_point = AtLock | AtHistory | AtTables | AtCreateHistory | AtLoadApplied | AtMessages int | AtBegin int | AtBody int
  | AtRecord int | AtCommit int | AtState int bool | AtStatement int nat | AtFingerprint

datatype exec_outcome = Executed | FailedClean | FailedApplied

record 'd mig_env =
  mv_outcome :: "mig_point \<Rightarrow> exec_outcome"
  mv_broken :: "int \<Rightarrow> nat \<Rightarrow> 'd \<Rightarrow> 'd"

abbreviation fails :: "'d mig_env \<Rightarrow> mig_point \<Rightarrow> bool" where
  "fails env point \<equiv> mv_outcome env point \<noteq> Executed"

text \<open>A statement outside a transaction and a COMMIT: the error, and whether the effect is there.\<close>

definition settle :: "'d mig_env \<Rightarrow> mig_point \<Rightarrow> string \<Rightarrow> 'x \<Rightarrow> 'x \<Rightarrow> migration_error option \<times> 'x" where
  "settle env point err old new =
     (case mv_outcome env point of
        Executed \<Rightarrow> (None, new)
      | FailedClean \<Rightarrow> (Some (MigrationFailure err), old)
      | FailedApplied \<Rightarrow> (Some (MigrationFailure err), new))"

definition applied_row :: "Migration \<Rightarrow> AppliedMigration" where
  "applied_row m = \<lparr>ap_Version = mg_Version m, ap_Name = mg_Name m, ap_Checksum = mg_Checksum m\<rparr>"

text \<open>The INSERT with the constraints of the table; \<open>None\<close> when it violates one or there is no table.\<close>

definition insertHistory :: "Migration \<Rightarrow> AppliedMigration list option \<Rightarrow> AppliedMigration list option" where
  "insertHistory m history =
     (case history of
        None \<Rightarrow> None
      | Some rows \<Rightarrow>
          if mg_Version m \<in> ap_Version ` set rows \<or> mg_Version m \<le> 0 \<or> mg_Name m = [] \<or> \<not> list_all name_char (mg_Name m)
             \<or> length (mg_Checksum m) \<noteq> 32
          then None else Some (rows @ [applied_row m]))"

definition createHistory :: "AppliedMigration list option" where
  "createHistory = Some []"

definition ensureHistory :: "'d sql_engine \<Rightarrow> 'd mig_env \<Rightarrow> 'd mig_db \<Rightarrow> migration_error option \<times> 'd mig_db" where
  "ensureHistory engine env db =
     (if fails env AtHistory then (Some (MigrationFailure ''inspect migration history''), db)
      else if md_history db \<noteq> None then (None, db)
      else if fails env AtTables then (Some (MigrationFailure ''inspect existing business tables''), db)
      else if en_tables engine (md_schema db) then (Some ErrBaselineRequired, db)
      else settle env AtCreateHistory ''create migration history'' db (db\<lparr>md_history := createHistory\<rparr>))"

definition loadApplied :: "'d mig_env \<Rightarrow> 'd mig_db \<Rightarrow> migration_error + AppliedMigration list" where
  "loadApplied env db =
     (if fails env AtLoadApplied then Inl (MigrationFailure ''load migration history'')
      else case md_history db of
        None \<Rightarrow> Inl (MigrationFailure ''load migration history'')
      | Some rows \<Rightarrow> Inr (sort_key ap_Version rows))"

text \<open>
  The map of the applied migrations is the list of its entries. A map is visited in any order, so
  which of several mismatches is reported is not determined; the messages carry no detail here.
\<close>

fun checkRecorded :: "Migration list \<Rightarrow> AppliedMigration list \<Rightarrow> migration_error option" where
  "checkRecorded migrations [] = None"
| "checkRecorded migrations (recorded # rest) =
     (case map_of (map (\<lambda>m. (mg_Version m, m)) (rev migrations)) (ap_Version recorded) of
        None \<Rightarrow> Some (MigrationFailure ''database contains unknown migration version'')
      | Some m \<Rightarrow>
          if ap_Name recorded \<noteq> mg_Name m then Some (MigrationFailure ''migration name changed'')
          else if \<not> equalBytes (ap_Checksum recorded) (mg_Checksum m)
          then Some (MigrationFailure ''checksum does not match migration history'')
          else checkRecorded migrations rest)"

definition validateApplied :: "Migration list \<Rightarrow> AppliedMigration list \<Rightarrow> migration_error option" where
  "validateApplied migrations applied =
     (case checkRecorded migrations applied of
        Some err \<Rightarrow> Some err
      | None \<Rightarrow> if list_all (\<lambda>v. v \<in> ap_Version ` set applied) [1..int (length applied)] then None
                else Some (MigrationFailure ''migration history has a gap''))"

section \<open>Applying\<close>

definition nonTransactionalState :: "'d sql_engine \<Rightarrow> 'd mig_env \<Rightarrow> int \<Rightarrow> bool \<Rightarrow> 'd \<Rightarrow> migration_error + bool \<times> bool" where
  "nonTransactionalState engine env version again d =
     (if version = 14
      then if fails env (AtState version again) then Inl (MigrationFailure ''query'')
           else (case en_index engine d of (indexExists, indexValid, statisticsExist) \<Rightarrow>
                   (let complete = (indexExists \<and> indexValid \<and> statisticsExist)
                    in Inr (complete, \<not> complete \<and> (indexExists \<or> statisticsExist))))
      else Inl (MigrationFailure ''non-transactional migration has no completion verifier''))"

fun runStatements :: "'d sql_engine \<Rightarrow> 'd mig_env \<Rightarrow> int \<Rightarrow> nat \<Rightarrow> string list \<Rightarrow> 'd \<Rightarrow> migration_error option \<times> 'd" where
  "runStatements engine env version k [] d = (None, d)"
| "runStatements engine env version k (statement # statements) d =
     (case (if fails env (AtStatement version k) then None else en_exec engine statement d) of
        None \<Rightarrow> (Some (MigrationFailure ''statement''), mv_broken env version k d)
      | Some d' \<Rightarrow> runStatements engine env version (k + 1) statements d')"

definition recordAlone :: "'d mig_env \<Rightarrow> Migration \<Rightarrow> 'd mig_db \<Rightarrow> migration_error option \<times> 'd mig_db" where
  "recordAlone env m db =
     (case insertHistory m (md_history db) of
        None \<Rightarrow> (Some (MigrationFailure ''record''), db)
      | Some rows \<Rightarrow> settle env (AtRecord (mg_Version m)) ''record'' db (db\<lparr>md_history := Some rows\<rparr>))"

definition applyMigration :: "'d sql_engine \<Rightarrow> 'd mig_env \<Rightarrow> Migration \<Rightarrow> 'd mig_db \<Rightarrow> migration_error option \<times> 'd mig_db" where
  "applyMigration engine env m db =
     (if mg_Transactional m
      then if fails env (AtBegin (mg_Version m)) then (Some (MigrationFailure ''begin''), db)
           else (case (if fails env (AtBody (mg_Version m)) then None else en_exec engine (mg_Body m) (md_schema db)) of
                   None \<Rightarrow> (Some (MigrationFailure ''body''), db)
                 | Some d \<Rightarrow>
                   (case (if fails env (AtRecord (mg_Version m)) then None else insertHistory m (md_history db)) of
                      None \<Rightarrow> (Some (MigrationFailure ''record''), db)
                    | Some rows \<Rightarrow> settle env (AtCommit (mg_Version m)) ''commit'' db \<lparr>md_history = Some rows, md_schema = d\<rparr>))
      else (case nonTransactionalState engine env (mg_Version m) False (md_schema db) of
              Inl err \<Rightarrow> (Some err, db)
            | Inr (complete, partial) \<Rightarrow>
              if partial then (Some (MigrationFailure ''manual recovery is required''), db)
              else if complete then recordAlone env m db
              else (case splitSQLStatements (mg_SQL m) of
                      None \<Rightarrow> (Some (MigrationFailure ''does not return''), db)
                    | Some (Inl err) \<Rightarrow> (Some (MigrationFailure err), db)
                    | Some (Inr statements) \<Rightarrow>
                      (case runStatements engine env (mg_Version m) 0 statements (md_schema db) of
                         (Some err, d) \<Rightarrow> (Some err, db\<lparr>md_schema := d\<rparr>)
                       | (None, d) \<Rightarrow>
                         (case nonTransactionalState engine env (mg_Version m) True d of
                            Inl err \<Rightarrow> (Some err, db\<lparr>md_schema := d\<rparr>)
                          | Inr (complete', partial') \<Rightarrow>
                            if \<not> complete' \<or> partial'
                            then (Some (MigrationFailure ''did not produce valid database objects''), db\<lparr>md_schema := d\<rparr>)
                            else recordAlone env m (db\<lparr>md_schema := d\<rparr>))))))"

definition needs_maintenance :: "Migration \<Rightarrow> bool" where
  "needs_maintenance m \<longleftrightarrow> mg_Version m = 15 \<or> mg_Version m = 16"

text \<open>The result has the migrations reported as applied.\<close>

fun upLoop ::
  "'d sql_engine \<Rightarrow> 'd mig_env \<Rightarrow> bool \<Rightarrow> AppliedMigration list \<Rightarrow> Migration list \<Rightarrow> Migration list \<Rightarrow> 'd mig_db \<Rightarrow>
   migration_error option \<times> Migration list \<times> 'd mig_db" where
  "upLoop engine env allowMaintenance applied [] reported db = (None, reported, db)"
| "upLoop engine env allowMaintenance applied (m # ms) reported db =
     (if mg_Version m \<in> ap_Version ` set applied then upLoop engine env allowMaintenance applied ms reported db
      else if needs_maintenance m \<and> \<not> allowMaintenance \<and> fails env (AtMessages (mg_Version m))
      then (Some (MigrationFailure ''check migration maintenance requirement''), reported, db)
      else if needs_maintenance m \<and> \<not> allowMaintenance \<and> en_messages engine (md_schema db)
      then (Some ErrMaintenanceRequired, reported, db)
      else case applyMigration engine env m db of
        (Some err, db') \<Rightarrow> (Some err, reported, db')
      | (None, db') \<Rightarrow> upLoop engine env allowMaintenance applied ms (reported @ [m]) db')"

definition Up ::
  "(byte_string \<Rightarrow> byte_string) \<Rightarrow> (string \<Rightarrow> string) \<Rightarrow> 'd sql_engine \<Rightarrow> 'd mig_env \<Rightarrow> bool \<Rightarrow> bool \<Rightarrow> dir_entry list option \<Rightarrow> 'd mig_db \<Rightarrow>
   migration_error option \<times> Migration list \<times> 'd mig_db" where
  "Up sha256 table engine env connected allowMaintenance files db =
     (if \<not> connected then (Some (MigrationFailure ''migration database connection is required''), [], db)
      else case Load sha256 table files of
        Inl err \<Rightarrow> (Some err, [], db)
      | Inr migrations \<Rightarrow>
        if fails env AtLock then (Some (MigrationFailure ''acquire migration lock''), [], db)
        else (case ensureHistory engine env db of
                (Some err, db1) \<Rightarrow> (Some err, [], db1)
              | (None, db1) \<Rightarrow>
                (case loadApplied env db1 of
                   Inl err \<Rightarrow> (Some err, [], db1)
                 | Inr applied \<Rightarrow>
                   (case validateApplied migrations applied of
                      Some err \<Rightarrow> (Some err, [], db1)
                    | None \<Rightarrow> upLoop engine env allowMaintenance applied migrations [] db1))))"

section \<open>Baseline and readiness\<close>

definition SchemaSignatures :: "'d sql_engine \<Rightarrow> 'd \<Rightarrow> string list" where
  "SchemaSignatures engine d = map TrimSpace (en_signatures engine d)"

definition SchemaFingerprint :: "(byte_string \<Rightarrow> byte_string) \<Rightarrow> 'd sql_engine \<Rightarrow> 'd \<Rightarrow> string \<times> nat" where
  "SchemaFingerprint sha256 engine d =
     (hex_EncodeToString (sha256 (concat (map (\<lambda>s. s @ [newline]) (SchemaSignatures engine d)))), length (SchemaSignatures engine d))"

definition ExpectedSchemaFingerprint015 :: string where
  "ExpectedSchemaFingerprint015 = ''a7cf0ed182ff73a68fdfac8c90dce4138d91c2ebfb03f313c91556abd8ed7462''"

definition ExpectedSchemaFingerprint016 :: string where
  "ExpectedSchemaFingerprint016 = ''40b2748d060733a1a2178259c0191597cf5666a1389dddbcbef8242c714e2926''"

definition expectedFingerprint :: "int \<Rightarrow> string" where
  "expectedFingerprint target =
     (if target = 15 then ExpectedSchemaFingerprint015 else if target = 16 then ExpectedSchemaFingerprint016 else [])"

fun recordAll :: "'d mig_env \<Rightarrow> Migration list \<Rightarrow> AppliedMigration list option \<Rightarrow> AppliedMigration list option" where
  "recordAll env [] history = history"
| "recordAll env (m # ms) history =
     (case (if fails env (AtRecord (mg_Version m)) then None else insertHistory m history) of
        None \<Rightarrow> None
      | Some rows \<Rightarrow> recordAll env ms (Some rows))"

definition Baseline ::
  "(byte_string \<Rightarrow> byte_string) \<Rightarrow> (string \<Rightarrow> string) \<Rightarrow> 'd sql_engine \<Rightarrow> 'd mig_env \<Rightarrow> bool \<Rightarrow> int \<Rightarrow> dir_entry list option \<Rightarrow> 'd mig_db \<Rightarrow>
   migration_error option \<times> 'd mig_db" where
  "Baseline sha256 table engine env connected target files db =
     (if \<not> connected then (Some (MigrationFailure ''migration database connection is required''), db)
      else case Load sha256 table files of
        Inl err \<Rightarrow> (Some err, db)
      | Inr migrations \<Rightarrow>
        if expectedFingerprint target = [] \<or> int (length migrations) < target
        then (Some (MigrationFailure ''baseline target is unsupported''), db)
        else if fails env AtLock then (Some (MigrationFailure ''acquire migration lock''), db)
        else if fails env (AtBegin target) then (Some (MigrationFailure ''begin baseline''), db)
        else if fails env AtHistory then (Some (MigrationFailure ''inspect migration history''), db)
        else if md_history db \<noteq> None then (Some ErrMigrationHistoryExists, db)
        else if fails env AtTables then (Some (MigrationFailure ''inspect existing business tables''), db)
        else if \<not> en_tables engine (md_schema db) then (Some (MigrationFailure ''database has no business tables''), db)
        else if fails env AtFingerprint then (Some (MigrationFailure ''read schema fingerprint''), db)
        else if fst (SchemaFingerprint sha256 engine (md_schema db)) \<noteq> expectedFingerprint target then (Some ErrBaselineMismatch, db)
        else if fails env AtCreateHistory then (Some (MigrationFailure ''create migration history''), db)
        else (case recordAll env (take (nat target) migrations) createHistory of
                None \<Rightarrow> (Some (MigrationFailure ''record baseline migration''), db)
              | Some rows \<Rightarrow> settle env (AtCommit target) ''commit baseline'' db (db\<lparr>md_history := Some rows\<rparr>)))"

definition validateReady :: "Migration list \<Rightarrow> AppliedMigration list \<Rightarrow> migration_error option" where
  "validateReady migrations applied =
     (case validateApplied migrations applied of
        Some err \<Rightarrow> Some err
      | None \<Rightarrow> if length applied \<noteq> length migrations
                then Some (MigrationFailure ''database is behind the application'') else None)"

text \<open>Every error stops the application from starting, so the check is a yes or no.\<close>

definition CheckReady ::
  "(byte_string \<Rightarrow> byte_string) \<Rightarrow> (string \<Rightarrow> string) \<Rightarrow> 'd mig_env \<Rightarrow> bool \<Rightarrow> dir_entry list option \<Rightarrow> 'd mig_db \<Rightarrow> bool" where
  "CheckReady sha256 table env connected files db =
     (if \<not> connected then False
      else case Load sha256 table files of
        Inl err \<Rightarrow> False
      | Inr migrations \<Rightarrow>
        if fails env AtHistory then False
        else if md_history db = None then False
        else (case loadApplied env db of Inl err \<Rightarrow> False | Inr applied \<Rightarrow> validateReady migrations applied = None))"

end
