(* ===== verification/MigrateRuns.thy ===== *)
theory MigrateRuns
  imports Migrate
begin

text \<open>
  What the migrator guarantees: the chain of versions, the meaning of the history check, and the
  states that runs of \<^verbatim>\<open>Up\<close> leave behind, however often they fail and are started again.
\<close>

section \<open>The chain of versions\<close>

lemma checkChain_versions:
  "checkChain i p ms = None \<Longrightarrow> map mg_Version ms = [i + 1..i + int (length ms)]"
proof (induction ms arbitrary: i p)
  case (Cons m ms)
  have "mg_Version m = i + 1" and "checkChain (i + 1) (Some m) ms = None" using Cons.prems by (auto split: if_splits)
  moreover have "[i + 1..i + int (length (m # ms))] = (i + 1) # [i + 1 + 1..i + 1 + int (length ms)]"
    by (subst upto_rec1) (simp_all add: algebra_simps)
  ultimately show ?case using Cons.IH [of "i + 1" "Some m"] by simp
qed simp

text \<open>The check for duplicates after the check of the position never fires.\<close>

lemma duplicate_check_never_fires:
  assumes "map_option mg_Version p = Some i \<or> p = None"
  shows "checkChain i p ms \<noteq> Some (MigrationFailure ''duplicate migration version'')"
  using assms by (induction ms arbitrary: i p) auto

definition loaded_from :: "(byte_string \<Rightarrow> byte_string) \<Rightarrow> (string \<Rightarrow> string) \<Rightarrow> Migration \<Rightarrow> bool" where
  "loaded_from sha256 table m \<longleftrightarrow> mg_Name m \<noteq> [] \<and> list_all name_char (mg_Name m) \<and> mg_Checksum m = sha256 (mg_SQL m)
     \<and> unwrapTransaction table (mg_SQL m) = Inr (mg_Body m, mg_Transactional m)"

lemma pattern_name: "migrationFilenamePattern name = Some (v, n) \<Longrightarrow> n \<noteq> [] \<and> list_all name_char n"
  by (auto simp: migrationFilenamePattern_def Let_def split: if_splits)

lemma loadEntries_from:
  assumes "loadEntries sha256 table entries ms = Inr found" and "list_all (loaded_from sha256 table) ms"
  shows "list_all (loaded_from sha256 table) found"
  using assms
proof (induction entries arbitrary: ms)
  case (Cons e es)
  show ?case
  proof (cases "de_IsDir e \<or> Ext (de_Name e) \<noteq> ''.sql''")
    case True
    then show ?thesis using Cons by auto
  next
    case False
    then obtain v n i c b t where parts: "migrationFilenamePattern (de_Name e) = Some (v, n)" "Atoi v = Some i" "de_Contents e = Some c"
        "unwrapTransaction table c = Inr (b, t)"
      using Cons.prems(1) by (auto split: option.splits sum.splits)
    then show ?thesis
      using Cons.IH Cons.prems False pattern_name [OF parts(1)] by (simp add: loaded_from_def)
  qed
qed simp

lemma Load_versions:
  assumes "Load sha256 table files = Inr ms"
  shows "map mg_Version ms = [1..int (length ms)]" and "ms \<noteq> []" and "list_all (loaded_from sha256 table) ms"
proof -
  obtain entries found where load: "loadEntries sha256 table entries [] = Inr found" and ms: "ms = sort_key mg_Version found"
      "checkChain 0 None ms = None" "ms \<noteq> []"
    using assms unfolding Load_def by (auto simp: Let_def split: option.splits sum.splits if_splits)
  show "map mg_Version ms = [1..int (length ms)]" using checkChain_versions [OF ms(2)] by simp
  show "ms \<noteq> []" by (rule ms(3))
  show "list_all (loaded_from sha256 table) ms" using loadEntries_from [OF load] by (simp add: ms(1) list_all_iff)
qed

section \<open>The history check\<close>

definition chained :: "Migration list \<Rightarrow> bool" where
  "chained ms \<longleftrightarrow> map mg_Version ms = [1..int (length ms)]"

lemma chained_nth: "chained ms \<Longrightarrow> i < length ms \<Longrightarrow> mg_Version (ms ! i) = int i + 1"
  unfolding chained_def using nth_map [of i ms mg_Version] nth_upto [of 1 i "int (length ms)"] by simp

lemma chained_distinct: "chained ms \<Longrightarrow> distinct (map mg_Version ms)"
  unfolding chained_def by simp

lemma checkRecorded_iff:
  assumes "distinct (map mg_Version ms)"
  shows "checkRecorded ms rows = None \<longleftrightarrow> set rows \<subseteq> applied_row ` set ms"
proof (induction rows)
  case (Cons r rows)
  have found: "map_of (map (\<lambda>m. (mg_Version m, m)) (rev ms)) v = Some m \<longleftrightarrow> m \<in> set ms \<and> mg_Version m = v" for v m
    using assms by (subst map_of_eq_Some_iff) (auto simp: comp_def rev_map [symmetric])
  show ?case
  proof (cases "map_of (map (\<lambda>m. (mg_Version m, m)) (rev ms)) (ap_Version r)")
    case None
    then have "r \<noteq> applied_row m" if "m \<in> set ms" for m using that found [of "ap_Version r" m] by (auto simp: applied_row_def)
    then show ?thesis using None by auto
  next
    case (Some m)
    then have m: "m \<in> set ms" "mg_Version m = ap_Version r" using found by simp_all
    have "r \<in> applied_row ` set ms \<longleftrightarrow> r = applied_row m"
    proof
      assume "r \<in> applied_row ` set ms"
      then obtain m' where "m' \<in> set ms" "r = applied_row m'" by blast
      moreover from this have "m' = m" using m assms by (metis AppliedMigration.select_convs(1) applied_row_def distinct_key_eq)
      ultimately show "r = applied_row m" by simp
    qed (use m in blast)
    moreover have "r = applied_row m \<longleftrightarrow> ap_Name r = mg_Name m \<and> ap_Checksum r = mg_Checksum m"
      using m(2) by (cases r) (simp add: applied_row_def)
    ultimately show ?thesis using Some Cons.IH by (auto simp: equalBytes_iff)
  qed
qed simp

lemma validateApplied_iff:
  assumes "chained ms" and "sorted (map ap_Version rows)" and "distinct (map ap_Version rows)"
  shows "validateApplied ms rows = None \<longleftrightarrow> rows = map applied_row (take (length rows) ms)"
proof
  let ?k = "length rows"
  assume "validateApplied ms rows = None"
  then have rec: "set rows \<subseteq> applied_row ` set ms" and all: "set [1..int ?k] \<subseteq> ap_Version ` set rows"
    using checkRecorded_iff [OF chained_distinct [OF assms(1)]]
    by (auto simp: validateApplied_def list_all_iff split: option.splits if_splits)
  have "card (set [1..int ?k]) = card (ap_Version ` set rows)"
    using assms(3) by (simp add: card_image distinct_map distinct_card)
  then have "set (map ap_Version rows) = set [1..int ?k]" using all card_subset_eq [OF _ all] by simp
  then have versions: "map ap_Version rows = [1..int ?k]"
    using sorted_distinct_set_unique [OF assms(2,3) sorted_upto distinct_upto] by simp
  have small: "?k \<le> length ms"
  proof (cases "?k = 0")
    case False
    then have "int ?k \<in> set [1..int ?k]" by (simp add: Suc_le_eq)
    then have "int ?k \<in> ap_Version ` set rows" using all by (rule rev_subsetD)
    then have "int ?k \<in> set (map mg_Version ms)" using rec by (auto simp: applied_row_def)
    then show ?thesis using assms(1) unfolding chained_def by simp
  qed simp
  show "rows = map applied_row (take ?k ms)"
  proof (rule nth_equalityI)
    fix i
    assume i: "i < ?k"
    then have v: "ap_Version (rows ! i) = int i + 1" using versions nth_map [of i rows ap_Version] nth_upto [of 1 i "int ?k"] by simp
    obtain m where m: "m \<in> set ms" "rows ! i = applied_row m" using rec i nth_mem by blast
    then have "mg_Version m = mg_Version (ms ! i)" using v chained_nth [OF assms(1), of i] i small by (simp add: applied_row_def)
    then have "m = ms ! i" using distinct_key_eq [OF chained_distinct [OF assms(1)] m(1)] i small by simp
    then show "rows ! i = map applied_row (take ?k ms) ! i" using m(2) i small by simp
  qed (use small in simp)
next
  assume eq: "rows = map applied_row (take (length rows) ms)"
  then have small: "length rows \<le> length ms" by (metis length_map length_take min.absorb_iff2 nat_le_linear take_all)
  have "set rows \<subseteq> applied_row ` set ms" by (subst eq) (auto dest: in_set_takeD)
  moreover have "map ap_Version rows = take (length rows) (map mg_Version ms)"
    by (subst eq) (simp add: applied_row_def comp_def take_map)
  then have "map ap_Version rows = [1..int (length rows)]"
    using small assms(1) unfolding chained_def by (simp add: take_upto min_def)
  then have "ap_Version ` set rows = {1..int (length rows)}" by (metis set_map set_upto)
  ultimately show "validateApplied ms rows = None"
    using checkRecorded_iff [OF chained_distinct [OF assms(1)], of rows] by (simp add: validateApplied_def list_all_iff)
qed

section \<open>What the history says of the schema\<close>

text \<open>
  The script of a migration without a transaction is started only on a schema that has none of the
  objects it creates, and may stop anywhere.
\<close>

inductive attempted :: "'d sql_engine \<Rightarrow> Migration \<Rightarrow> 'd \<Rightarrow> 'd \<Rightarrow> bool" for engine m where
  attempted_not: "attempted engine m d d"
| attempted_again: "attempted engine m d d1 \<Longrightarrow> en_index engine d1 = (False, valid, False) \<Longrightarrow>
    splitSQLStatements (mg_SQL m) = Some (Inr statements) \<Longrightarrow>
    runStatements engine env (mg_Version m) 0 statements d1 = (e, d2) \<Longrightarrow> attempted engine m d d2"

text \<open>The schemas the first \<open>k\<close> migrations make, each applied once and in order.\<close>

inductive built :: "'d sql_engine \<Rightarrow> Migration list \<Rightarrow> 'd \<Rightarrow> nat \<Rightarrow> 'd \<Rightarrow> bool" for engine ms d0 where
  built_0: "built engine ms d0 0 d0"
| built_tx: "built engine ms d0 k d \<Longrightarrow> k < length ms \<Longrightarrow> mg_Transactional (ms ! k) \<Longrightarrow>
    en_exec engine (mg_Body (ms ! k)) d = Some d' \<Longrightarrow> built engine ms d0 (Suc k) d'"
| built_raw: "built engine ms d0 k d \<Longrightarrow> k < length ms \<Longrightarrow> \<not> mg_Transactional (ms ! k) \<Longrightarrow> attempted engine (ms ! k) d d' \<Longrightarrow>
    en_index engine d' = (True, True, True) \<Longrightarrow> built engine ms d0 (Suc k) d'"

definition recorded :: "Migration list \<Rightarrow> nat \<Rightarrow> 'd mig_db \<Rightarrow> bool" where
  "recorded ms k db \<longleftrightarrow> md_history db = Some (map applied_row (take k ms))"

definition at_level :: "'d sql_engine \<Rightarrow> Migration list \<Rightarrow> 'd \<Rightarrow> nat \<Rightarrow> 'd mig_db \<Rightarrow> bool" where
  "at_level engine ms d0 k db \<longleftrightarrow> recorded ms k db \<and>
     (built engine ms d0 k (md_schema db)
      \<or> k < length ms \<and> \<not> mg_Transactional (ms ! k) \<and> (\<exists>d. built engine ms d0 k d \<and> attempted engine (ms ! k) d (md_schema db)))"

lemma insertHistory_next:
  assumes "recorded ms k db" and "k < length ms" and "insertHistory (ms ! k) (md_history db) = Some rows"
  shows "rows = map applied_row (take (Suc k) ms)"
  using assms by (auto simp: recorded_def insertHistory_def take_Suc_conv_app_nth split: if_splits)

lemma settle_cases:
  assumes "settle env point err old new = (e, x)"
  shows "x = new \<or> x = old \<and> e \<noteq> None"
  using assms by (auto simp: settle_def split: exec_outcome.splits)

lemma recordAlone_cases:
  assumes "recordAlone env (ms ! k) db = (e, db')" and "recorded ms k db" and "k < length ms"
  shows "db' = db \<and> e \<noteq> None \<or> recorded ms (Suc k) db' \<and> md_schema db' = md_schema db"
proof (cases "insertHistory (ms ! k) (md_history db)")
  case None
  then show ?thesis using assms(1) by (auto simp: recordAlone_def)
next
  case (Some rows)
  then have "settle env (AtRecord (mg_Version (ms ! k))) ''record'' db (db\<lparr>md_history := Some rows\<rparr>) = (e, db')"
    using assms(1) by (simp add: recordAlone_def)
  from settle_cases [OF this] insertHistory_next [OF assms(2,3) Some] show ?thesis by (auto simp: recorded_def)
qed

lemma at_levelI [intro]: "recorded ms k db \<Longrightarrow> built engine ms d0 k (md_schema db) \<Longrightarrow> at_level engine ms d0 k db"
  by (simp add: at_level_def)

lemma transactional_apply:
  assumes "applyMigration engine env (ms ! k) db = (e, db')" and "mg_Transactional (ms ! k)"
    and "recorded ms k db" and "built engine ms d0 k (md_schema db)" and "k < length ms"
  shows "db' = db \<and> e \<noteq> None \<or> recorded ms (Suc k) db' \<and> built engine ms d0 (Suc k) (md_schema db')"
proof (cases "db' = db \<and> e \<noteq> None")
  case False
  then obtain d rows where run: "en_exec engine (mg_Body (ms ! k)) (md_schema db) = Some d"
      "insertHistory (ms ! k) (md_history db) = Some rows"
      "settle env (AtCommit (mg_Version (ms ! k))) ''commit'' db \<lparr>md_history = Some rows, md_schema = d\<rparr> = (e, db')"
    using assms(1,2) by (auto simp: applyMigration_def split: if_splits option.splits)
  from settle_cases [OF run(3)] False have "db' = \<lparr>md_history = Some rows, md_schema = d\<rparr>" by blast
  then show ?thesis
    using insertHistory_next [OF assms(3,5) run(2)] built_tx [OF assms(4,5,2) run(1)] by (simp add: recorded_def)
qed simp

lemma state_complete: "nonTransactionalState engine env v again d = Inr (True, p) \<Longrightarrow> en_index engine d = (True, True, True)"
  by (auto simp: nonTransactionalState_def Let_def split: if_splits prod.splits)

lemma state_fresh: "nonTransactionalState engine env v again d = Inr (False, False) \<Longrightarrow> \<exists>valid. en_index engine d = (False, valid, False)"
  by (auto simp: nonTransactionalState_def Let_def split: if_splits prod.splits)

lemma script_end:
  assumes "(case nonTransactionalState engine env v True d of Inl err \<Rightarrow> (Some err, db) | Inr (c, p) \<Rightarrow>
              if \<not> c \<or> p then (Some (MigrationFailure msg), db) else recordAlone env m db) = (e, db')"
  shows "db' = db \<and> e \<noteq> None \<or> en_index engine d = (True, True, True) \<and> recordAlone env m db = (e, db')"
proof (cases "nonTransactionalState engine env v True d = Inr (True, False)")
  case True
  then show ?thesis using assms state_complete [OF True] by simp
next
  case False
  then show ?thesis using assms by (auto split: sum.splits prod.splits if_splits)
qed

text \<open>The ways a migration without a transaction ends, with the last schema before it was recorded.\<close>

lemma raw_endings:
  assumes "applyMigration engine env m db = (e, db')" and "\<not> mg_Transactional m"
  obtains "db' = db" "e \<noteq> None"
  | d1 where "d1 = md_schema db \<or> (\<exists>valid statements e1. en_index engine (md_schema db) = (False, valid, False)
        \<and> splitSQLStatements (mg_SQL m) = Some (Inr statements) \<and> runStatements engine env (mg_Version m) 0 statements (md_schema db) = (e1, d1))"
      "db' = db\<lparr>md_schema := d1\<rparr> \<and> e \<noteq> None \<or> en_index engine d1 = (True, True, True) \<and> recordAlone env m (db\<lparr>md_schema := d1\<rparr>) = (e, db')"
proof (cases "nonTransactionalState engine env (mg_Version m) False (md_schema db)")
  case (Inl err)
  then show ?thesis using assms that(1) by (auto simp: applyMigration_def)
next
  case (Inr r)
  consider p where "r = (p, True)" | "r = (True, False)" | "r = (False, False)" by (metis (full_types) surj_pair)
  then show ?thesis
  proof cases
    case 1
    then show ?thesis using assms Inr that(1) by (auto simp: applyMigration_def)
  next
    case 2
    then show ?thesis using assms Inr that(2) [of "md_schema db"] state_complete [of engine env "mg_Version m" False "md_schema db" False]
      by (simp add: applyMigration_def)
  next
    case 3
    then obtain valid where fresh: "en_index engine (md_schema db) = (False, valid, False)"
      using state_fresh [of engine env "mg_Version m" False "md_schema db"] Inr by auto
    show ?thesis
    proof (cases "\<exists>statements. splitSQLStatements (mg_SQL m) = Some (Inr statements)")
      case False
      then show ?thesis using assms Inr 3 that(1) by (auto simp: applyMigration_def split: option.splits sum.splits)
    next
      case True
      then obtain statements where split: "splitSQLStatements (mg_SQL m) = Some (Inr statements)" by blast
      obtain e1 d1 where run: "runStatements engine env (mg_Version m) 0 statements (md_schema db) = (e1, d1)" by fastforce
      have "db' = db\<lparr>md_schema := d1\<rparr> \<and> e \<noteq> None \<or> en_index engine d1 = (True, True, True) \<and> recordAlone env m (db\<lparr>md_schema := d1\<rparr>) = (e, db')"
      proof (cases e1)
        case None
        show ?thesis by (rule script_end) (use assms Inr 3 split run None in \<open>simp add: applyMigration_def\<close>)
      qed (use assms Inr 3 split run in \<open>auto simp: applyMigration_def\<close>)
      then show ?thesis using that(2) fresh split run by blast
    qed
  qed
qed

lemma raw_apply:
  assumes "applyMigration engine env (ms ! k) db = (e, db')" and raw: "\<not> mg_Transactional (ms ! k)"
    and "recorded ms k db" and "built engine ms d0 k d" and "attempted engine (ms ! k) d (md_schema db)" and "k < length ms"
  shows "recorded ms k db' \<and> attempted engine (ms ! k) d (md_schema db') \<and> e \<noteq> None
         \<or> recorded ms (Suc k) db' \<and> built engine ms d0 (Suc k) (md_schema db')"
  using assms(1) raw
proof (cases rule: raw_endings)
  case 1
  then show ?thesis using assms(3,5) by simp
next
  case (2 d1)
  have d1: "attempted engine (ms ! k) d d1" using 2(1) assms(5) attempted_again by metis
  have rec: "recorded ms k (db\<lparr>md_schema := d1\<rparr>)" using assms(3) by (simp add: recorded_def)
  from 2(2) show ?thesis
  proof
    assume "en_index engine d1 = (True, True, True) \<and> recordAlone env (ms ! k) (db\<lparr>md_schema := d1\<rparr>) = (e, db')"
    then show ?thesis
      using recordAlone_cases [OF _ rec assms(6)] built_raw [OF assms(4,6) raw d1] d1 rec by fastforce
  qed (use d1 rec in simp)
qed

lemma apply_level:
  assumes "applyMigration engine env (ms ! k) db = (e, db')" and "at_level engine ms d0 k db" and "k < length ms"
  shows "at_level engine ms d0 k db' \<and> e \<noteq> None \<or> recorded ms (Suc k) db' \<and> built engine ms d0 (Suc k) (md_schema db')"
proof (cases "mg_Transactional (ms ! k)")
  case True
  then show ?thesis using transactional_apply [OF assms(1) True, of d0] assms(2,3) by (auto simp: at_level_def)
next
  case False
  have rec: "recorded ms k db" using assms(2) by (simp add: at_level_def)
  obtain d where d: "built engine ms d0 k d" "attempted engine (ms ! k) d (md_schema db)"
    using assms(2) attempted_not [of engine "ms ! k" "md_schema db"] unfolding at_level_def by metis
  from raw_apply [OF assms(1) False rec d assms(3)] show ?thesis
  proof
    assume "recorded ms k db' \<and> attempted engine (ms ! k) d (md_schema db') \<and> e \<noteq> None"
    then show ?thesis using d(1) assms(3) False unfolding at_level_def by metis
  qed simp
qed

lemma not_yet_recorded:
  assumes "chained ms" and "k \<le> j" and "j < length ms"
  shows "mg_Version (ms ! j) \<notin> ap_Version ` set (map applied_row (take k ms))"
proof
  assume "mg_Version (ms ! j) \<in> ap_Version ` set (map applied_row (take k ms))"
  then obtain i where "i < k" "i < length ms" "mg_Version (ms ! j) = mg_Version (ms ! i)"
    by (auto simp: in_set_conv_nth applied_row_def)
  then show False using chained_nth [OF assms(1)] assms(2,3) by simp
qed

lemma upLoop_level:
  assumes "upLoop engine env allow (map applied_row (take k ms)) (drop j ms) reported db = (e, reported', db')"
    and "chained ms" and "k \<le> j" and "j \<le> length ms" and "at_level engine ms d0 j db" and "j = length ms \<longrightarrow> built engine ms d0 j (md_schema db)"
  shows "\<exists>j' \<le> length ms. j \<le> j' \<and> at_level engine ms d0 j' db' \<and> (e = None \<longrightarrow> j' = length ms \<and> built engine ms d0 j' (md_schema db')
           \<and> reported' = reported @ drop j ms)"
  using assms
proof (induction "length ms - j" arbitrary: j reported db)
  case 0
  then show ?case by auto
next
  case (Suc n)
  then have j: "j < length ms" by simp
  then have drop: "drop j ms = ms ! j # drop (Suc j) ms" by (simp add: Cons_nth_drop_Suc)
  note fresh = not_yet_recorded [OF Suc.prems(2,3) j]
  show ?case
  proof (cases "e = None \<or> db' \<noteq> db")
    case False
    then show ?thesis using Suc.prems by auto
  next
    case True
    obtain e1 db1 where a: "applyMigration engine env (ms ! j) db = (e1, db1)" by fastforce
    note outcome = apply_level [OF a Suc.prems(5) j]
    show ?thesis
    proof (cases e1)
      case None
      then have ahead: "upLoop engine env allow (map applied_row (take k ms)) (drop (Suc j) ms) (reported @ [ms ! j]) db1 = (e, reported', db')"
        using Suc.prems(1) True fresh a unfolding drop by (auto split: if_splits)
      have "at_level engine ms d0 (Suc j) db1" "built engine ms d0 (Suc j) (md_schema db1)" using outcome None by auto
      then show ?thesis using Suc.hyps(1) [of "Suc j", OF _ ahead Suc.prems(2)] Suc.hyps(2) Suc.prems(3) j drop by fastforce
    next
      case (Some err)
      then have "e \<noteq> None \<and> db' = db1" using Suc.prems(1) True fresh a unfolding drop by (auto split: if_splits)
      then show ?thesis using outcome j by (metis Suc_leI at_levelI le_SucI order_refl less_imp_le)
    qed
  qed
qed

section \<open>Runs\<close>

lemma chain_prefix_versions: "chained ms \<Longrightarrow> map ap_Version (map applied_row (take k ms)) = [1..int (min k (length ms))]"
proof -
  assume c: "chained ms"
  have "map ap_Version (map applied_row (take k ms)) = take k (map mg_Version ms)" by (simp add: applied_row_def comp_def take_map)
  then show ?thesis using c unfolding chained_def by (simp add: take_upto min_def)
qed

lemma chain_prefix_ordered:
  assumes "chained ms"
  shows "sorted (map ap_Version (map applied_row (take k ms)))" and "distinct (map ap_Version (map applied_row (take k ms)))"
  by (simp_all only: chain_prefix_versions [OF assms] sorted_upto distinct_upto)

lemma loadApplied_recorded:
  assumes "chained ms" and "recorded ms k db"
  shows "loadApplied env db = (if fails env AtLoadApplied then Inl (MigrationFailure ''load migration history'')
           else Inr (map applied_row (take k ms)))"
  using sorted_sort_id [OF chain_prefix_ordered(1) [OF assms(1)]] sort_key_id_if_sorted [OF chain_prefix_ordered(1) [OF assms(1)], of k] assms(2)
  by (simp add: loadApplied_def recorded_def)

lemma validateApplied_prefix: "chained ms \<Longrightarrow> validateApplied ms (map applied_row (take k ms)) = None"
  using validateApplied_iff [OF _ chain_prefix_ordered] by (simp add: min_def)

lemma upLoop_skip:
  assumes "set (map mg_Version prior) \<subseteq> ap_Version ` set applied"
  shows "upLoop engine env allow applied (prior @ ms) reported db = upLoop engine env allow applied ms reported db"
  using assms by (induction prior) auto

lemma upLoop_recorded:
  "upLoop engine env allow (map applied_row (take k ms)) ms reported db = upLoop engine env allow (map applied_row (take k ms)) (drop k ms) reported db"
  using upLoop_skip [of "take k ms" "map applied_row (take k ms)" engine env allow "drop k ms"] by (simp add: image_image applied_row_def)

definition resumable :: "'d sql_engine \<Rightarrow> Migration list \<Rightarrow> 'd \<Rightarrow> nat \<Rightarrow> 'd mig_db \<Rightarrow> bool" where
  "resumable engine ms d0 k db \<longleftrightarrow> at_level engine ms d0 k db \<or> k = 0 \<and> md_history db = None \<and> md_schema db = d0"

lemma ensureHistory_level:
  assumes "ensureHistory engine env db = (e, db')" and "resumable engine ms d0 k db"
  shows "resumable engine ms d0 k db'" and "e = None \<Longrightarrow> at_level engine ms d0 k db'"
proof -
  have created: "at_level engine ms d0 0 (db\<lparr>md_history := createHistory\<rparr>)" if "md_schema db = d0"
    using that built_0 [of engine ms d0] by (auto simp: recorded_def createHistory_def)
  have some: "md_history db \<noteq> None" if "at_level engine ms d0 k db" using that by (simp add: at_level_def recorded_def)
  show "resumable engine ms d0 k db'"
    using assms created some by (auto simp: ensureHistory_def settle_def resumable_def split: if_splits exec_outcome.splits)
  show "at_level engine ms d0 k db'" if "e = None"
    using assms created some that by (auto simp: ensureHistory_def settle_def resumable_def split: if_splits exec_outcome.splits)
qed

lemma Up_level:
  assumes up: "Up sha256 table engine env connected allow files db = (e, reported, db')" and load: "Load sha256 table files = Inr ms"
    and start: "resumable engine ms d0 k db" and k: "k \<le> length ms"
  shows "\<exists>k' \<le> length ms. k \<le> k' \<and> resumable engine ms d0 k' db'
    \<and> (e = None \<longrightarrow> k' = length ms \<and> recorded ms k' db' \<and> built engine ms d0 k' (md_schema db') \<and> reported = drop k ms)"
proof -
  have chain: "chained ms" using Load_versions(1) [OF load] by (simp add: chained_def)
  obtain e1 db1 where ensure: "ensureHistory engine env db = (e1, db1)" by fastforce
  note level = ensureHistory_level [OF ensure start]
  show ?thesis
  proof (cases "connected \<and> \<not> fails env AtLock \<and> e1 = None \<and> \<not> fails env AtLoadApplied")
    case False
    have "loadApplied env db1 = Inl (MigrationFailure ''load migration history'')" if "fails env AtLoadApplied"
      using that by (simp add: loadApplied_def)
    then have "e \<noteq> None \<and> (db' = db \<or> db' = db1)" using False up load ensure by (auto simp: Up_def split: if_splits option.splits)
    then show ?thesis using level(1) start k by blast
  next
    case True
    then have at: "at_level engine ms d0 k db1" using level(2) by simp
    then have rec: "recorded ms k db1" by (simp add: at_level_def)
    have "upLoop engine env allow (map applied_row (take k ms)) (drop k ms) [] db1 = (e, reported, db')"
      using up load True ensure loadApplied_recorded [OF chain rec, of env] validateApplied_prefix [OF chain]
      by (simp add: Up_def upLoop_recorded)
    moreover have "k = length ms \<longrightarrow> built engine ms d0 k (md_schema db1)" using at by (auto simp: at_level_def)
    ultimately obtain k' where "k' \<le> length ms" "k \<le> k'" "at_level engine ms d0 k' db'"
        "e = None \<longrightarrow> k' = length ms \<and> built engine ms d0 k' (md_schema db') \<and> reported = [] @ drop k ms"
      using upLoop_level [OF _ chain order_refl k at] by blast
    then show ?thesis unfolding resumable_def at_level_def by auto
  qed
qed

inductive mig_run ::
  "(byte_string \<Rightarrow> byte_string) \<Rightarrow> (string \<Rightarrow> string) \<Rightarrow> 'd sql_engine \<Rightarrow> dir_entry list option \<Rightarrow> 'd \<Rightarrow> 'd mig_db \<Rightarrow> bool"
  for sha256 table engine files d0 where
  run_start: "mig_run sha256 table engine files d0 \<lparr>md_history = None, md_schema = d0\<rparr>"
| run_up: "mig_run sha256 table engine files d0 db \<Longrightarrow>
    Up sha256 table engine env connected allow files db = (e, reported, db') \<Longrightarrow> mig_run sha256 table engine files d0 db'"

lemma mig_run_resumable:
  assumes "mig_run sha256 table engine files d0 db" and "Load sha256 table files = Inr ms"
  shows "\<exists>k \<le> length ms. resumable engine ms d0 k db"
  using assms
proof (induction rule: mig_run.induct)
  case run_start
  then show ?case by (auto simp: resumable_def)
next
  case (run_up db env connected allow e reported db')
  then obtain k where "resumable engine ms d0 k db" "k \<le> length ms" by blast
  from Up_level [OF run_up.hyps(2) run_up.prems this] show ?case by blast
qed

section \<open>Readiness and refusals\<close>

lemma loadApplied_sorted:
  assumes "loadApplied env db = Inr rows" and "md_history db = Some history"
  shows "rows = sort_key ap_Version history"
  using assms by (auto simp: loadApplied_def split: if_splits)

lemma validateApplied_of_history:
  assumes "chained ms" and "distinct (map ap_Version history)"
  shows "validateApplied ms (sort_key ap_Version history) = None \<longleftrightarrow> (\<exists>k \<le> length ms. mset history = mset (map applied_row (take k ms)))"
proof -
  let ?rows = "sort_key ap_Version history"
  have dist: "distinct (map ap_Version ?rows)" using assms(2) by (metis distinct_map distinct_sort set_sort)
  note iff = validateApplied_iff [OF assms(1) sorted_sort_key dist]
  show ?thesis
  proof
    assume "validateApplied ms ?rows = None"
    then have eq: "?rows = map applied_row (take (length ?rows) ms)" by (rule iff [THEN iffD1])
    then have "mset history = mset (map applied_row (take (length ?rows) ms))" by (metis mset_sort)
    moreover have "length ?rows \<le> length ms" using eq by (metis length_map length_take min.cobounded1)
    ultimately show "\<exists>k \<le> length ms. mset history = mset (map applied_row (take k ms))" by blast
  next
    assume "\<exists>k \<le> length ms. mset history = mset (map applied_row (take k ms))"
    then obtain k where k: "k \<le> length ms" "mset history = mset (map applied_row (take k ms))" by blast
    have "?rows = map applied_row (take k ms)"
    proof (rule map_sorted_distinct_set_unique [where f = ap_Version])
      show "inj_on ap_Version (set ?rows \<union> set (map applied_row (take k ms)))"
        using assms(2) mset_eq_setD [OF k(2)] by (simp add: distinct_map)
    qed (use chain_prefix_ordered [OF assms(1), of k] dist mset_eq_setD [OF k(2)] in \<open>simp_all del: map_map\<close>)
    then show "validateApplied ms ?rows = None" using validateApplied_prefix [OF assms(1)] by simp
  qed
qed

lemma CheckReady_iff:
  assumes "Load sha256 table files = Inr ms" and "md_history db = Some history" and "distinct (map ap_Version history)"
  shows "CheckReady sha256 table env connected files db \<longleftrightarrow>
    connected \<and> \<not> fails env AtHistory \<and> \<not> fails env AtLoadApplied \<and> mset history = mset (map applied_row ms)"
proof -
  have chain: "chained ms" using Load_versions(1) [OF assms(1)] by (simp add: chained_def)
  have "validateReady ms (sort_key ap_Version history) = None \<longleftrightarrow>
      (\<exists>k \<le> length ms. mset history = mset (map applied_row (take k ms))) \<and> length history = length ms"
    using validateApplied_of_history [OF chain assms(3)] by (auto simp: validateReady_def split: option.splits)
  also have "\<dots> \<longleftrightarrow> mset history = mset (map applied_row ms)"
  proof
    assume "(\<exists>k \<le> length ms. mset history = mset (map applied_row (take k ms))) \<and> length history = length ms"
    then obtain k where "k \<le> length ms" "mset history = mset (map applied_row (take k ms))" "length history = length ms" by blast
    moreover from this have "k = length ms" using mset_eq_length [of history "map applied_row (take k ms)"] by simp
    ultimately show "mset history = mset (map applied_row ms)" by simp
  next
    assume eq: "mset history = mset (map applied_row ms)"
    then have "length history = length ms" using mset_eq_length [of history "map applied_row ms"] by simp
    then show "(\<exists>k \<le> length ms. mset history = mset (map applied_row (take k ms))) \<and> length history = length ms"
      using eq by (auto intro!: exI [of _ "length ms"])
  qed
  finally show ?thesis using assms(1,2) by (auto simp: CheckReady_def loadApplied_def)
qed

lemma ready_after_all:
  assumes "Load sha256 table files = Inr ms" and "recorded ms (length ms) db" and "\<And>point. mv_outcome env point = Executed"
  shows "CheckReady sha256 table env True files db"
proof -
  have "chained ms" using Load_versions(1) [OF assms(1)] by (simp add: chained_def)
  from chain_prefix_ordered(2) [OF this, of "length ms"] show ?thesis
    using CheckReady_iff [OF assms(1), of db "map applied_row ms"] assms(2,3) by (simp add: recorded_def del: map_map)
qed

lemma refused_history:
  assumes "Load sha256 table files = Inr ms" and "md_history db = Some history" and "distinct (map ap_Version history)"
    and "\<nexists>k. k \<le> length ms \<and> mset history = mset (map applied_row (take k ms))"
  shows "\<exists>err. Up sha256 table engine env connected allow files db = (Some err, [], db)"
proof -
  have "chained ms" using Load_versions(1) [OF assms(1)] by (simp add: chained_def)
  from validateApplied_of_history [OF this assms(3)] assms(4)
  obtain err where "validateApplied ms (sort_key ap_Version history) = Some err" by blast
  then show ?thesis using assms(1,2) by (auto simp: Up_def ensureHistory_def loadApplied_def)
qed

lemma recordAll_some:
  "recordAll env ms (Some rows) = Some rows' \<Longrightarrow> rows' = rows @ map applied_row ms"
  by (induction ms arbitrary: rows) (fastforce simp: insertHistory_def split: if_splits)+

lemma recordAll_all:
  assumes "\<And>point. mv_outcome env point = Executed" and "distinct (map mg_Version ms)" and "mg_Version ` set ms \<inter> ap_Version ` set rows = {}"
    and "\<forall>m \<in> set ms. 0 < mg_Version m \<and> mg_Name m \<noteq> [] \<and> list_all name_char (mg_Name m) \<and> length (mg_Checksum m) = 32"
  shows "recordAll env ms (Some rows) = Some (rows @ map applied_row ms)"
  using assms(2-)
proof (induction ms arbitrary: rows)
  case (Cons m ms)
  have "insertHistory m (Some rows) = Some (rows @ [applied_row m])" using Cons.prems by (auto simp: insertHistory_def)
  moreover have "recordAll env ms (Some (rows @ [applied_row m])) = Some ((rows @ [applied_row m]) @ map applied_row ms)"
    by (rule Cons.IH) (use Cons.prems in \<open>auto simp: applied_row_def\<close>)
  ultimately show ?case using assms(1) by simp
qed simp

lemma upLoop_maintenance:
  assumes "chained ms" and "recorded ms k db" and "k = 14 \<or> k = 15" and "k < length ms" and "en_messages engine (md_schema db)"
  shows "\<exists>err. upLoop engine env False (map applied_row (take k ms)) ms [] db = (Some err, [], db)
           \<and> (\<not> fails env (AtMessages (int k + 1)) \<longrightarrow> err = ErrMaintenanceRequired)"
proof -
  have drop: "drop k ms = ms ! k # drop (Suc k) ms" using assms(4) by (simp add: Cons_nth_drop_Suc)
  have v: "mg_Version (ms ! k) = int k + 1" using chained_nth [OF assms(1,4)] .
  have "needs_maintenance (ms ! k)" using assms(3) v by (auto simp: needs_maintenance_def)
  with not_yet_recorded [OF assms(1) order_refl assms(4)] show ?thesis unfolding upLoop_recorded drop using assms(5) v by auto
qed

section \<open>Progress\<close>

lemma insertHistory_fits:
  assumes "chained ms" and "recorded ms k db" and "k < length ms" and "loaded_from sha256 table (ms ! k)" and "\<And>s. length (sha256 s) = 32"
  shows "insertHistory (ms ! k) (md_history db) = Some (map applied_row (take (Suc k) ms))"
proof -
  have v: "mg_Version (ms ! k) = int k + 1" using chained_nth [OF assms(1,3)] .
  show ?thesis
    using not_yet_recorded [OF assms(1) order_refl assms(3)] assms(2-5) v by (simp add: recorded_def insertHistory_def loaded_from_def take_Suc_conv_app_nth del: set_map)
qed

lemma upLoop_succeeds:
  assumes "chained ms" and "list_all (loaded_from sha256 table) ms" and "\<And>s. length (sha256 s) = 32" and "\<And>point. mv_outcome env point = Executed"
    and works: "\<And>j d. built engine ms d0 j d \<Longrightarrow> k \<le> j \<Longrightarrow> j < length ms \<Longrightarrow> mg_Transactional (ms ! j) \<and> en_exec engine (mg_Body (ms ! j)) d \<noteq> None"
    and "k \<le> j" and "j \<le> length ms" and "recorded ms j db" and "built engine ms d0 j (md_schema db)"
  shows "fst (upLoop engine env True (map applied_row (take k ms)) (drop j ms) reported db) = None"
  using assms(6-)
proof (induction "length ms - j" arbitrary: j reported db)
  case (Suc n)
  then have j: "j < length ms" by simp
  then have drop: "drop j ms = ms ! j # drop (Suc j) ms" by (simp add: Cons_nth_drop_Suc)
  obtain d where tx: "mg_Transactional (ms ! j)" and d: "en_exec engine (mg_Body (ms ! j)) (md_schema db) = Some d"
    using works [OF Suc.prems(4,1) j] by blast
  let ?db = "\<lparr>md_history = Some (map applied_row (take (Suc j) ms)), md_schema = d\<rparr>"
  have "loaded_from sha256 table (ms ! j)" using assms(2) j by (simp add: list_all_length)
  from insertHistory_fits [OF assms(1) Suc.prems(3) j this assms(3)]
  have applied: "applyMigration engine env (ms ! j) db = (None, ?db)"
    using tx d assms(4) by (simp add: applyMigration_def settle_def)
  have "fst (upLoop engine env True (map applied_row (take k ms)) (drop (Suc j) ms) (reported @ [ms ! j]) ?db) = None"
    by (rule Suc.hyps(1)) (use Suc.hyps(2) Suc.prems j built_tx [OF Suc.prems(4) j tx d] in \<open>simp_all add: recorded_def\<close>)
  then show ?case unfolding drop using not_yet_recorded [OF assms(1) Suc.prems(1) j] applied by (simp del: set_map)
qed simp

section \<open>A database that logs its scripts\<close>

definition log_engine :: "string list sql_engine" where
  "log_engine = \<lparr>en_exec = (\<lambda>script d. Some (d @ [script])), en_tables = (\<lambda>d. d \<noteq> []), en_messages = (\<lambda>d. False),
     en_index = (\<lambda>d. (False, False, False)), en_signatures = (\<lambda>d. d)\<rparr>"

definition calm :: "string list mig_env" where
  "calm = \<lparr>mv_outcome = (\<lambda>point. Executed), mv_broken = (\<lambda>v k d. d)\<rparr>"

lemma calm_outcome [simp]: "mv_outcome calm point = Executed"
  by (simp add: calm_def)

text \<open>The answer to the first COMMIT is lost.\<close>

definition lost_commit :: "string list mig_env" where
  "lost_commit = calm\<lparr>mv_outcome := (\<lambda>point. if point = AtCommit 1 then FailedApplied else Executed)\<rparr>"

definition log_sha :: "byte_string \<Rightarrow> byte_string" where
  "log_sha s = replicate 32 CHR ''#''"

definition sql_file :: "string \<Rightarrow> string \<Rightarrow> dir_entry" where
  "sql_file name script = \<lparr>de_Name = name, de_IsDir = False,
     de_Contents = Some (''BEGIN;'' @ [newline] @ script @ [newline] @ ''COMMIT;'')\<rparr>"

definition two_files :: "dir_entry list" where
  "two_files = [sql_file ''001_a.sql'' ''A'', sql_file ''002_b.sql'' ''B'']"

definition logged :: "int \<Rightarrow> string \<Rightarrow> string \<Rightarrow> Migration" where
  "logged v name script = \<lparr>mg_Version = v, mg_Name = name, mg_Filename = (if v = 1 then ''001_'' else ''002_'') @ name @ ''.sql'',
     mg_SQL = ''BEGIN;'' @ [newline] @ script @ [newline] @ ''COMMIT;'', mg_Checksum = replicate 32 CHR ''#'',
     mg_Transactional = True, mg_Body = [newline] @ script @ [newline]\<rparr>"

lemma two_files_names:
  "Ext ''001_a.sql'' = ''.sql''" "Ext ''002_b.sql'' = ''.sql''"
  "migrationFilenamePattern ''001_a.sql'' = Some (''001'', ''a'')" "migrationFilenamePattern ''002_b.sql'' = Some (''002'', ''b'')"
  "Atoi ''001'' = Some 1" "Atoi ''002'' = Some 2"
  by code_simp+

lemma two_files_loaded: "Load log_sha id (Some two_files) = Inr [logged 1 ''a'' ''A'', logged 2 ''b'' ''B'']"
  using unwrap_wrapped [of id "''A''"] unwrap_wrapped [of id "''B''"]
  by (simp add: Load_def two_files_def sql_file_def two_files_names logged_def log_sha_def Let_def)

lemma two_files_lost_commit:
  "Up log_sha id log_engine lost_commit True False (Some two_files) \<lparr>md_history = None, md_schema = []\<rparr> =
     (Some (MigrationFailure ''commit''), [],
      \<lparr>md_history = Some [applied_row (logged 1 ''a'' ''A'')], md_schema = [[newline, CHR ''A'', newline]]\<rparr>)"
  unfolding Up_def two_files_loaded by code_simp

lemma two_files_resumed:
  "Up log_sha id log_engine calm True False (Some two_files)
     \<lparr>md_history = Some [applied_row (logged 1 ''a'' ''A'')], md_schema = [[newline, CHR ''A'', newline]]\<rparr> =
     (None, [logged 2 ''b'' ''B''],
      \<lparr>md_history = Some [applied_row (logged 1 ''a'' ''A''), applied_row (logged 2 ''b'' ''B'')],
        md_schema = [[newline, CHR ''A'', newline], [newline, CHR ''B'', newline]]\<rparr>)"
  unfolding Up_def two_files_loaded by code_simp

abbreviation after_lost_commit :: "string list mig_db" where
  "after_lost_commit \<equiv> \<lparr>md_history = Some [applied_row (logged 1 ''a'' ''A'')], md_schema = [[newline, CHR ''A'', newline]]\<rparr>"

lemma run_after_lost_commit: "mig_run log_sha id log_engine (Some two_files) [] after_lost_commit"
  by (rule run_up [OF run_start two_files_lost_commit])

text \<open>Sixteen files, with a hash that gives the reviewed fingerprint, and a database with messages.\<close>

definition reviewed_sha :: "byte_string \<Rightarrow> byte_string" where
  "reviewed_sha s = map char_of [64, 178, 116, 141, 6, 7, 51, 161, 162, 23, 130, 89, 192, 25, 21, 151, 207, 86, 102, 161, 56, 157, 221, 188, 190, 248, 36, 44, 113, 78, 41, 38 :: nat]"

definition nth_file :: "nat \<Rightarrow> dir_entry" where
  "nth_file v = sql_file ([CHR ''0'', hex_digit (v div 10), hex_digit (v mod 10)] @ ''_a.sql'') ''A''"

definition nth_migration :: "nat \<Rightarrow> Migration" where
  "nth_migration v = \<lparr>mg_Version = int v, mg_Name = ''a'', mg_Filename = de_Name (nth_file v),
     mg_SQL = ''BEGIN;'' @ [newline] @ ''A'' @ [newline] @ ''COMMIT;'', mg_Checksum = reviewed_sha [],
     mg_Transactional = True, mg_Body = [newline] @ ''A'' @ [newline]\<rparr>"

lemma nth_file_names:
  "list_all (\<lambda>v. Ext (de_Name (nth_file v)) = ''.sql'' \<and> (case migrationFilenamePattern (de_Name (nth_file v)) of
       None \<Rightarrow> False | Some (version, name) \<Rightarrow> name = ''a'' \<and> Atoi version = Some (int v))) [1..<17]"
  by code_simp

lemma nth_files_load:
  assumes "set vs \<subseteq> {1..<17}"
  shows "loadEntries reviewed_sha table (map nth_file vs) ms = Inr (ms @ map nth_migration vs)"
  using assms
proof (induction vs arbitrary: ms)
  case (Cons v vs)
  have "v \<in> set [1..<17]" using Cons.prems by simp
  with nth_file_names [unfolded list_all_iff] obtain version where
    "Ext (de_Name (nth_file v)) = ''.sql''" "migrationFilenamePattern (de_Name (nth_file v)) = Some (version, ''a'')" "Atoi version = Some (int v)"
    by (fastforce split: option.splits)
  moreover have "\<not> de_IsDir (nth_file v)" "de_Contents (nth_file v) = Some (''BEGIN;'' @ [newline] @ ''A'' @ [newline] @ ''COMMIT;'')"
    by (simp_all add: nth_file_def sql_file_def)
  moreover have "reviewed_sha (''BEGIN;'' @ [newline] @ ''A'' @ [newline] @ ''COMMIT;'') = reviewed_sha []" by (simp add: reviewed_sha_def)
  ultimately show ?case
    using Cons unwrap_wrapped [of table "''A''"] by (simp add: nth_migration_def del: append.simps)
qed simp

definition sixteen_files :: "dir_entry list" where
  "sixteen_files = map nth_file [1..<17]"

definition sixteen :: "Migration list" where
  "sixteen = map nth_migration [1..<17]"

lemma length_sixteen: "length sixteen = 16"
  by (simp add: sixteen_def)

lemma sixteen_files_loaded: "Load reviewed_sha id (Some sixteen_files) = Inr sixteen"
proof -
  have "checkChain 0 None sixteen = None" unfolding sixteen_def by (simp add: nth_migration_def upt_rec)
  moreover have "sort_key mg_Version sixteen = sixteen"
    unfolding sixteen_def by (rule sort_key_id_if_sorted) (simp add: nth_migration_def upt_rec)
  moreover have "sixteen \<noteq> []" using length_sixteen by auto
  ultimately show ?thesis using nth_files_load [of "[1..<17]" id "[]"] by (simp add: Load_def Let_def sixteen_files_def sixteen_def)
qed

definition kept_messages :: "string list sql_engine" where
  "kept_messages = log_engine\<lparr>en_tables := (\<lambda>d. True), en_messages := (\<lambda>d. True), en_signatures := (\<lambda>d. [])\<rparr>"

section \<open>Properties\<close>



text \<open>
  A run of \<^verbatim>\<open>Up\<close> that reports success has completed the chain, also when earlier runs were
  interrupted: it announced exactly the migrations that were not recorded before, the history is
  the chain of the files, the schema is the one the whole chain makes, and the application's
  startup check then passes.
\<close>

theorem successful_up_completes_the_chain:
  assumes "mig_run sha256 table engine files d0 db" and "Load sha256 table files = Inr ms"
    and "Up sha256 table engine env connected allow files db = (None, reported, db')"
  shows "(\<exists>k \<le> length ms. reported = drop k ms \<and> (recorded ms k db \<or> k = 0 \<and> md_history db = None))
    \<and> md_history db' = Some (map applied_row ms) \<and> built engine ms d0 (length ms) (md_schema db')
    \<and> (\<forall>env'. (\<forall>point. mv_outcome env' point = Executed) \<longrightarrow> CheckReady sha256 table env' True files db')"
proof -
  obtain k where k: "k \<le> length ms" "resumable engine ms d0 k db" using mig_run_resumable [OF assms(1,2)] by blast
  from Up_level [OF assms(3,2) k(2,1)]
  have rec: "recorded ms (length ms) db'" and rest: "built engine ms d0 (length ms) (md_schema db')" "reported = drop k ms" by auto
  have "\<exists>k \<le> length ms. reported = drop k ms \<and> (recorded ms k db \<or> k = 0 \<and> md_history db = None)"
    using k rest(2) unfolding resumable_def at_level_def by auto
  moreover have "md_history db' = Some (map applied_row ms)" using rec by (simp add: recorded_def)
  ultimately show ?thesis using rest(1) ready_after_all [OF assms(2) rec] by blast
qed

theorem successful_up_witness:
  "CheckReady log_sha id calm True (Some two_files)
     \<lparr>md_history = Some [applied_row (logged 1 ''a'' ''A''), applied_row (logged 2 ''b'' ''B'')],
      md_schema = [[newline, CHR ''A'', newline], [newline, CHR ''B'', newline]]\<rparr>"
  using successful_up_completes_the_chain [OF run_after_lost_commit two_files_loaded two_files_resumed] by (simp add: calm_def)

text \<open>
  \<^verbatim>\<open>Up\<close> gets there: where the history records the first \<open>k\<close> migrations and the schema is theirs,
  a run in which nothing fails and whose remaining scripts are transactional and accepted by the
  database returns without an error.
\<close>

theorem undisturbed_up_succeeds:
  assumes "Load sha256 table files = Inr ms" and "\<And>s. length (sha256 s) = 32" and "\<And>point. mv_outcome env point = Executed"
    and "recorded ms k db" and "k \<le> length ms" and "built engine ms d0 k (md_schema db)"
    and "\<And>j d. built engine ms d0 j d \<Longrightarrow> k \<le> j \<Longrightarrow> j < length ms \<Longrightarrow> mg_Transactional (ms ! j) \<and> en_exec engine (mg_Body (ms ! j)) d \<noteq> None"
  shows "fst (Up sha256 table engine env True True files db) = None"
proof -
  have chain: "chained ms" using Load_versions(1) [OF assms(1)] by (simp add: chained_def)
  have "ensureHistory engine env db = (None, db)" using assms(3,4) by (simp add: ensureHistory_def recorded_def)
  then show ?thesis
    using upLoop_succeeds [OF chain Load_versions(3) [OF assms(1)] assms(2,3,7) order_refl assms(5,4,6)]
      loadApplied_recorded [OF chain assms(4), of env] validateApplied_prefix [OF chain] assms(1,3)
    by (simp add: Up_def upLoop_recorded)
qed

theorem undisturbed_up_witness:
  "fst (Up log_sha id log_engine calm True True (Some two_files) \<lparr>md_history = Some [], md_schema = []\<rparr>) = None"
proof (rule undisturbed_up_succeeds [OF two_files_loaded, where k = 0 and ?d0.0 = "[]"])
  fix j and d :: "string list"
  assume "j < length [logged 1 ''a'' ''A'', logged 2 ''b'' ''B'']"
  then have "j = 0 \<or> j = 1" by auto
  then show "mg_Transactional ([logged 1 ''a'' ''A'', logged 2 ''b'' ''B''] ! j)
      \<and> en_exec log_engine (mg_Body ([logged 1 ''a'' ''A'', logged 2 ''b'' ''B''] ! j)) d \<noteq> None"
    by (auto simp: logged_def log_engine_def)
qed (simp_all add: log_sha_def calm_def recorded_def built_0)

text \<open>
  C27: A history that is not a beginning of the chain, because a migration file was edited, renamed
  or removed, a row is missing or the database is newer, is refused: \<^verbatim>\<open>Up\<close> returns an error, announces
  nothing and leaves the database as it is, and the application does not start.
\<close>

theorem altered_history_is_refused:
  assumes "Load sha256 table files = Inr ms" and "md_history db = Some history" and "distinct (map ap_Version history)"
    and "\<nexists>k. k \<le> length ms \<and> mset history = mset (map applied_row (take k ms))"
  shows "(\<exists>err. Up sha256 table engine env connected allow files db = (Some err, [], db))
    \<and> \<not> CheckReady sha256 table env connected files db"
proof -
  have "mset history \<noteq> mset (map applied_row ms)" using assms(4) by (metis order_refl take_all)
  then have "\<not> CheckReady sha256 table env connected files db" using CheckReady_iff [OF assms(1-3)] by simp
  then show ?thesis using refused_history [OF assms] by blast
qed

theorem altered_history_witness:
  "\<not> CheckReady log_sha id calm True (Some two_files)
     \<lparr>md_history = Some [(applied_row (logged 1 ''a'' ''A''))\<lparr>ap_Checksum := replicate 32 CHR ''!''\<rparr>], md_schema = [] :: string list\<rparr>"
proof (rule altered_history_is_refused [OF two_files_loaded, THEN conjunct2])
  show "\<nexists>k. k \<le> length [logged 1 ''a'' ''A'', logged 2 ''b'' ''B''] \<and>
      mset [(applied_row (logged 1 ''a'' ''A''))\<lparr>ap_Checksum := replicate 32 CHR ''!''\<rparr>] =
      mset (map applied_row (take k [logged 1 ''a'' ''A'', logged 2 ''b'' ''B'']))"
    by (auto simp: applied_row_def logged_def take_Cons' le_Suc_eq numeral_2_eq_2)
qed simp_all

text \<open>
  A baseline records history only for a schema that was verified: if it changes anything, the
  database had business tables and no history, its fingerprint is the reviewed one of the target,
  and what changed is that the history, and nothing else, now records exactly the first \<open>target\<close>
  migrations, in one transaction; the next \<^verbatim>\<open>Up\<close> starts with the migration after them. Otherwise
  there is an error and the database is as it was.
\<close>

theorem baseline_records_only_a_verified_schema:
  assumes "Baseline sha256 table engine env connected target files db = (e, db')" and "Load sha256 table files = Inr ms"
  shows "e \<noteq> None \<and> db' = db
    \<or> (target = 15 \<or> target = 16) \<and> md_history db = None \<and> en_tables engine (md_schema db)
      \<and> fst (SchemaFingerprint sha256 engine (md_schema db)) = expectedFingerprint target
      \<and> db' = db\<lparr>md_history := Some (map applied_row (take (nat target) ms))\<rparr>"
proof (cases "e \<noteq> None \<and> db' = db")
  case False
  then obtain rows where checks: "expectedFingerprint target \<noteq> []" "md_history db = None" "en_tables engine (md_schema db)"
      "fst (SchemaFingerprint sha256 engine (md_schema db)) = expectedFingerprint target"
      and rows: "recordAll env (take (nat target) ms) createHistory = Some rows"
      and settled: "settle env (AtCommit target) ''commit baseline'' db (db\<lparr>md_history := Some rows\<rparr>) = (e, db')"
    using assms unfolding Baseline_def by (auto split: if_splits option.splits)
  have "target = 15 \<or> target = 16" using checks(1) by (auto simp: expectedFingerprint_def split: if_splits)
  moreover have "rows = map applied_row (take (nat target) ms)" using recordAll_some [of env _ "[]"] rows by (simp add: createHistory_def)
  ultimately show ?thesis using settle_cases [OF settled] False checks by blast
qed simp

theorem baseline_witness:
  "snd (Baseline reviewed_sha id kept_messages calm True 16 (Some sixteen_files) \<lparr>md_history = None, md_schema = []\<rparr>)
     = \<lparr>md_history = Some (map applied_row sixteen), md_schema = []\<rparr>"
proof -
  obtain e db' where run: "Baseline reviewed_sha id kept_messages calm True 16 (Some sixteen_files) \<lparr>md_history = None, md_schema = []\<rparr> = (e, db')"
    by fastforce
  have good: "recordAll calm sixteen createHistory = Some ([] @ map applied_row sixteen)"
    unfolding createHistory_def sixteen_def
    by (rule recordAll_all) (auto simp: nth_migration_def reviewed_sha_def name_char_def is_lower_def comp_def distinct_map)
  have print: "fst (SchemaFingerprint reviewed_sha kept_messages []) = expectedFingerprint 16" "expectedFingerprint 16 \<noteq> []" by code_simp+
  have "e = None"
    using run good print by (simp add: Baseline_def sixteen_files_loaded length_sixteen kept_messages_def settle_def)
  then show ?thesis
    using baseline_records_only_a_verified_schema [OF run sixteen_files_loaded] run by (simp add: length_sixteen)
qed

text \<open>
  The migrations that rewrite historical messages wait for maintenance: where the next one is
  015 or 016 and there are messages, \<^verbatim>\<open>Up\<close> without the flag returns an error, the one that asks for
  maintenance unless a query failed, and changes nothing.
\<close>

theorem rewriting_messages_needs_maintenance:
  assumes "Load sha256 table files = Inr ms" and "recorded ms k db" and "k = 14 \<or> k = 15" and "k < length ms"
    and "en_messages engine (md_schema db)"
  shows "\<exists>err. Up sha256 table engine env connected False files db = (Some err, [], db)
           \<and> (connected \<and> (\<forall>point. mv_outcome env point = Executed) \<longrightarrow> err = ErrMaintenanceRequired)"
proof -
  have chain: "chained ms" using Load_versions(1) [OF assms(1)] by (simp add: chained_def)
  obtain err where loop: "upLoop engine env False (map applied_row (take k ms)) ms [] db = (Some err, [], db)"
      "\<not> fails env (AtMessages (int k + 1)) \<longrightarrow> err = ErrMaintenanceRequired"
    using upLoop_maintenance [OF chain assms(2-5)] by blast
  show ?thesis
    using loop assms(1,2) loadApplied_recorded [OF chain assms(2), of env] validateApplied_prefix [OF chain, of k]
    by (auto simp: Up_def ensureHistory_def recorded_def)
qed

theorem rewriting_messages_witness:
  "Up reviewed_sha id kept_messages calm True False (Some sixteen_files) \<lparr>md_history = Some (map applied_row (take 14 sixteen)), md_schema = []\<rparr> =
     (Some ErrMaintenanceRequired, [], \<lparr>md_history = Some (map applied_row (take 14 sixteen)), md_schema = []\<rparr>)"
proof -
  have "recorded sixteen 14 \<lparr>md_history = Some (map applied_row (take 14 sixteen)), md_schema = [] :: string list\<rparr>" by (simp add: recorded_def)
  from rewriting_messages_needs_maintenance [OF sixteen_files_loaded this, of kept_messages calm True]
  show ?thesis by (simp add: kept_messages_def length_sixteen)
qed

end
