(* ===== verification/Packets.thy ===== *)
theory Packets
  imports Database
begin

text \<open>
  The packets of \<^verbatim>\<open>internal/reliabilitylab\<close>: \<^verbatim>\<open>packet.go\<close>, \<^verbatim>\<open>packet_http.go\<close> and the tables, constraints and
  triggers of its \<^verbatim>\<open>schema.sql\<close>. Claims of one packet wait for each other on the lock of its row, and
  nothing else writes what they read, so a transaction is one step; the two statements of a delivery
  commit apart and are two. Every statement can fail, and the answer to a COMMIT can be lost.
\<close>

section \<open>Tables\<close>

record packet_row =
  pk_id :: string
  pk_total :: int
  pk_shares :: int

record slot_row =
  sl_packet :: string
  sl_slot :: int
  sl_amount :: int
  sl_claimed_by :: "string option"

record credit_row =
  cr_packet :: string
  cr_slot :: int
  cr_amount :: int
  cr_user :: string

record received_row =
  rv_packet :: string
  rv_user :: string
  rv_amount :: int

record lab_db =
  packets :: "packet_row list"
  packet_slots :: "slot_row list"
  packet_credits :: "credit_row list"
  credit_outbox :: "(string \<times> string) list"
  received_credits :: "received_row list"

record Receipt =
  rp_Packet :: string
  rp_User :: string
  rp_Slot :: int
  rp_Amount :: int

datatype packet_error = InvalidAllocation | InvalidUser | ErrNoRows | ErrExhausted | PacketFailed

datatype packet_point = AtPacketBegin | AtPacketRow | AtPacketSlots | AtReceipt | AtTakeSlot | AtCreditRow | AtIntentRow | AtDelivery | AtDelivered

record lab_env =
  lv_fails :: "packet_point \<Rightarrow> bool"
  lv_commit :: "packet_point \<Rightarrow> commit_outcome"

text \<open>The deferred trigger \<open>check_allocation\<close>; a missing packet makes its comparisons NULL.\<close>

definition slots_of :: "lab_db \<Rightarrow> string \<Rightarrow> slot_row list" where
  "slots_of db packet = filter (\<lambda>s. sl_packet s = packet) (packet_slots db)"

definition check_allocation :: "string \<Rightarrow> lab_db \<Rightarrow> bool" where
  "check_allocation target db =
     (case find (\<lambda>p. pk_id p = target) (packets db) of
        None \<Rightarrow> True
      | Some p \<Rightarrow> int (length (slots_of db target)) = pk_shares p \<and> sum_list (map sl_amount (slots_of db target)) = pk_total p
          \<and> Min (sl_slot ` set (slots_of db target)) = 0 \<and> Max (sl_slot ` set (slots_of db target)) = pk_shares p - 1)"

definition commitPacket :: "lab_env \<Rightarrow> packet_point \<Rightarrow> string \<Rightarrow> lab_db \<Rightarrow> lab_db \<Rightarrow> packet_error option \<times> lab_db" where
  "commitPacket env point target old new =
     (if \<not> check_allocation target new then (Some PacketFailed, old)
      else case lv_commit env point of
        CommitOk \<Rightarrow> (None, new)
      | CommitLostApplied \<Rightarrow> (Some PacketFailed, new)
      | CommitLostNotApplied \<Rightarrow> (Some PacketFailed, old))"

section \<open>Creating and claiming\<close>

text \<open>Both numbers are positive here, so the division of SQL is \<open>div\<close>.\<close>

definition allocation :: "int \<Rightarrow> int \<Rightarrow> (int \<times> int) list" where
  "allocation funds shares = map (\<lambda>n. (n, funds div shares + (if n < funds mod shares then 1 else 0))) [0..shares - 1]"

definition createRows :: "string \<Rightarrow> int \<Rightarrow> int \<Rightarrow> lab_db \<Rightarrow> lab_db" where
  "createRows packet funds shares db =
     db\<lparr>packets := packets db @ [\<lparr>pk_id = packet, pk_total = funds, pk_shares = shares\<rparr>],
        packet_slots := packet_slots db @ map (\<lambda>(n, amount). \<lparr>sl_packet = packet, sl_slot = n, sl_amount = amount, sl_claimed_by = None\<rparr>)
          (allocation funds shares)\<rparr>"

definition Create :: "lab_env \<Rightarrow> string \<Rightarrow> int \<Rightarrow> int \<Rightarrow> lab_db \<Rightarrow> packet_error option \<times> lab_db" where
  "Create env packet funds shares db =
     (if packet = [] \<or> shares < 1 \<or> shares > 10000 \<or> funds < shares then (Some InvalidAllocation, db)
      else if lv_fails env AtPacketBegin then (Some PacketFailed, db)
      else if lv_fails env AtPacketRow \<or> \<not> pg_text_ok packet \<or> packet \<in> pk_id ` set (packets db) then (Some PacketFailed, db)
      else if lv_fails env AtPacketSlots \<or> packet \<in> sl_packet ` set (packet_slots db)
              \<or> \<not> list_all (\<lambda>(n, amount). 0 \<le> n \<and> 0 < amount) (allocation funds shares) then (Some PacketFailed, db)
      else commitPacket env AtPacketRow packet db (createRows packet funds shares db))"

text \<open>The rows a claim writes, with the constraints of their tables; \<open>None\<close> when one is violated.\<close>

definition takeSlot :: "string \<Rightarrow> slot_row \<Rightarrow> lab_db \<Rightarrow> lab_db option" where
  "takeSlot user s db =
     (if RuneCountInString user < 1 \<or> RuneCountInString user > 128
         \<or> (\<exists>s' \<in> set (packet_slots db). sl_packet s' = sl_packet s \<and> sl_slot s' \<noteq> sl_slot s \<and> sl_claimed_by s' = Some user)
      then None
      else Some (db\<lparr>packet_slots := update_rows (\<lambda>r. sl_packet r = sl_packet s \<and> sl_slot r = sl_slot s)
                                      (\<lambda>r. r\<lparr>sl_claimed_by := Some user\<rparr>) (packet_slots db)\<rparr>))"

definition insertCredit :: "credit_row \<Rightarrow> lab_db \<Rightarrow> lab_db option" where
  "insertCredit c db =
     (if (\<exists>c' \<in> set (packet_credits db). cr_packet c' = cr_packet c \<and> (cr_user c' = cr_user c \<or> cr_slot c' = cr_slot c))
         \<or> \<not> (\<exists>s \<in> set (packet_slots db). sl_packet s = cr_packet c \<and> sl_slot s = cr_slot c \<and> sl_amount s = cr_amount c
               \<and> sl_claimed_by s = Some (cr_user c))
      then None else Some (db\<lparr>packet_credits := packet_credits db @ [c]\<rparr>))"

definition insertIntent :: "string \<Rightarrow> string \<Rightarrow> lab_db \<Rightarrow> lab_db option" where
  "insertIntent packet user db =
     (if (packet, user) \<in> set (credit_outbox db) \<or> (packet, user) \<notin> (\<lambda>c. (cr_packet c, cr_user c)) ` set (packet_credits db)
      then None else Some (db\<lparr>credit_outbox := credit_outbox db @ [(packet, user)]\<rparr>))"

definition Claim :: "lab_env \<Rightarrow> string \<Rightarrow> string \<Rightarrow> lab_db \<Rightarrow> (packet_error + Receipt) \<times> lab_db" where
  "Claim env packet user db =
     (if user = [] \<or> length user > 128 then (Inl InvalidUser, db)
      else if lv_fails env AtPacketBegin then (Inl PacketFailed, db)
      else if lv_fails env AtPacketRow \<or> \<not> pg_text_ok packet then (Inl PacketFailed, db)
      else case find (\<lambda>p. pk_id p = packet) (packets db) of
        None \<Rightarrow> (Inl ErrNoRows, db)
      | Some p \<Rightarrow>
        if lv_fails env AtReceipt \<or> \<not> pg_text_ok user then (Inl PacketFailed, db)
        else (case find (\<lambda>c. cr_packet c = packet \<and> cr_user c = user) (packet_credits db) of
                Some c \<Rightarrow>
                  (if lv_commit env AtReceipt = CommitOk
                   then Inr \<lparr>rp_Packet = packet, rp_User = user, rp_Slot = cr_slot c, rp_Amount = cr_amount c\<rparr> else Inl PacketFailed, db)
              | None \<Rightarrow>
                if lv_fails env AtTakeSlot then (Inl PacketFailed, db)
                else (case select_limit (\<lambda>s. sl_packet s = packet \<and> sl_claimed_by s = None) sl_slot 1 (packet_slots db) of
                        [] \<Rightarrow> (Inl ErrExhausted, db)
                      | s # _ \<Rightarrow>
                        (case takeSlot user s db of
                           None \<Rightarrow> (Inl PacketFailed, db)
                         | Some db1 \<Rightarrow>
                           (case (if lv_fails env AtCreditRow then None
                                  else insertCredit \<lparr>cr_packet = packet, cr_slot = sl_slot s, cr_amount = sl_amount s, cr_user = user\<rparr> db1) of
                              None \<Rightarrow> (Inl PacketFailed, db)
                            | Some db2 \<Rightarrow>
                              (case (if lv_fails env AtIntentRow then None else insertIntent packet user db2) of
                                 None \<Rightarrow> (Inl PacketFailed, db)
                               | Some db3 \<Rightarrow>
                                 (case commitPacket env AtTakeSlot packet db db3 of
                                    (Some err, db') \<Rightarrow> (Inl err, db')
                                  | (None, db') \<Rightarrow>
                                    (Inr \<lparr>rp_Packet = packet, rp_User = user, rp_Slot = sl_slot s, rp_Amount = sl_amount s\<rparr>, db'))))))))"

section \<open>Delivering\<close>

definition received_row_of :: "credit_row \<Rightarrow> received_row" where
  "received_row_of c = \<lparr>rv_packet = cr_packet c, rv_user = cr_user c, rv_amount = cr_amount c\<rparr>"

definition receiveCredit :: "string \<Rightarrow> string \<Rightarrow> lab_db \<Rightarrow> lab_db" where
  "receiveCredit packet user db =
     (if (packet, user) \<in> (\<lambda>r. (rv_packet r, rv_user r)) ` set (received_credits db) then db
      else db\<lparr>received_credits := received_credits db @
             map received_row_of (filter (\<lambda>c. cr_packet c = packet \<and> cr_user c = user \<and> (packet, user) \<in> set (credit_outbox db))
               (packet_credits db))\<rparr>)"

definition acknowledgeIntent :: "string \<Rightarrow> string \<Rightarrow> lab_db \<Rightarrow> lab_db" where
  "acknowledgeIntent packet user db = db\<lparr>credit_outbox := filter (\<lambda>i. i \<noteq> (packet, user)) (credit_outbox db)\<rparr>"

definition statement :: "lab_env \<Rightarrow> packet_point \<Rightarrow> lab_db \<Rightarrow> lab_db \<Rightarrow> packet_error option \<times> lab_db" where
  "statement env point old new =
     (case lv_commit env point of
        CommitOk \<Rightarrow> (None, new)
      | CommitLostApplied \<Rightarrow> (Some PacketFailed, new)
      | CommitLostNotApplied \<Rightarrow> (Some PacketFailed, old))"

text \<open>Between the two statements others commit: \<open>others\<close> is what they make of the tables.\<close>

definition Deliver :: "lab_env \<Rightarrow> (lab_db \<Rightarrow> lab_db) \<Rightarrow> string \<Rightarrow> string \<Rightarrow> lab_db \<Rightarrow> packet_error option \<times> lab_db" where
  "Deliver env others packet user db =
     (case statement env AtDelivery db (receiveCredit packet user db) of
        (Some err, db1) \<Rightarrow> (Some err, db1)
      | (None, db1) \<Rightarrow> statement env AtDelivered (others db1) (acknowledgeIntent packet user (others db1)))"

section \<open>The endpoint\<close>

definition PacketHandler :: "lab_env \<Rightarrow> string option \<Rightarrow> string \<Rightarrow> lab_db \<Rightarrow> (int \<times> string + Receipt) \<times> lab_db" where
  "PacketHandler env authenticate packet db =
     (case authenticate of
        None \<Rightarrow> (Inl (401, ''unauthorized''), db)
      | Some user \<Rightarrow>
        if user = [] then (Inl (401, ''unauthorized''), db)
        else (case Claim env packet user db of
                (Inl ErrExhausted, db') \<Rightarrow> (Inl (409, ''exhausted''), db')
              | (Inl ErrNoRows, db') \<Rightarrow> (Inl (404, ''packet not found''), db')
              | (Inl _, db') \<Rightarrow> (Inl (503, ''claim outcome unresolved; retry same packet and user''), db')
              | (Inr receipt, db') \<Rightarrow> (Inr receipt, db')))"

section \<open>What is kept\<close>

lemma allocation_sum:
  assumes "1 \<le> shares" and "shares \<le> funds"
  shows "sum_list (map snd (allocation funds shares)) = funds"
proof -
  let ?q = "funds div shares" and ?r = "funds mod shares"
  have r: "0 \<le> ?r" "?r < shares" using assms(1) by simp_all
  have "sum_list (map snd (allocation funds shares)) = (\<Sum>n\<in>{0..shares - 1}. ?q + (if n < ?r then 1 else 0))"
    by (simp add: allocation_def comp_def sum_list_distinct_conv_sum_set)
  also have "\<dots> = shares * ?q + int (card ({0..shares - 1} \<inter> {n. n < ?r}))"
    using assms(1) by (simp add: sum.distrib sum.If_cases)
  also have "{0..shares - 1} \<inter> {n. n < ?r} = {0..<?r}" using r by auto
  finally show ?thesis using r by (simp add: mult.commute)
qed

lemma allocation_slots: "map fst (allocation funds shares) = [0..shares - 1]"
  by (simp add: allocation_def comp_def)

lemma allocation_amounts:
  assumes "1 \<le> shares" and "shares \<le> funds" and "(n, amount) \<in> set (allocation funds shares)"
  shows "0 < amount" and "amount = funds div shares \<or> amount = funds div shares + 1"
proof -
  have "1 \<le> funds div shares" using assms(1,2) by (metis div_self not_one_le_zero zdiv_mono1 zero_less_one_class.zero_less_one order_less_le_trans)
  then show "0 < amount" using assms(3) by (auto simp: allocation_def split: if_splits)
  show "amount = funds div shares \<or> amount = funds div shares + 1" using assms(3) by (auto simp: allocation_def split: if_splits)
qed

definition allocated :: "lab_db \<Rightarrow> bool" where
  "allocated db \<longleftrightarrow> distinct (map pk_id (packets db)) \<and> sl_packet ` set (packet_slots db) \<subseteq> pk_id ` set (packets db)
     \<and> (\<forall>p \<in> set (packets db). 1 \<le> pk_shares p \<and> pk_shares p \<le> pk_total p
          \<and> map (\<lambda>s. (sl_slot s, sl_amount s)) (slots_of db (pk_id p)) = allocation (pk_total p) (pk_shares p))"

definition claim_of :: "slot_row \<Rightarrow> (string \<times> int \<times> int \<times> string) set" where
  "claim_of s = (case sl_claimed_by s of None \<Rightarrow> {} | Some u \<Rightarrow> {(sl_packet s, sl_slot s, sl_amount s, u)})"

definition claimed :: "lab_db \<Rightarrow> (string \<times> int \<times> int \<times> string) set" where
  "claimed db = (\<Union>s \<in> set (packet_slots db). claim_of s)"

definition credit_tuple :: "credit_row \<Rightarrow> string \<times> int \<times> int \<times> string" where
  "credit_tuple c = (cr_packet c, cr_slot c, cr_amount c, cr_user c)"

definition credit_key :: "credit_row \<Rightarrow> string \<times> string" where
  "credit_key c = (cr_packet c, cr_user c)"

definition credited :: "lab_db \<Rightarrow> bool" where
  "credited db \<longleftrightarrow> credit_tuple ` set (packet_credits db) = claimed db \<and> distinct (map credit_key (packet_credits db))"

definition received_key :: "received_row \<Rightarrow> string \<times> string" where
  "received_key r = (rv_packet r, rv_user r)"

text \<open>Every credit is to be delivered or was; nothing else is, and nothing twice.\<close>

definition delivered :: "lab_db \<Rightarrow> bool" where
  "delivered db \<longleftrightarrow> set (credit_outbox db) \<subseteq> credit_key ` set (packet_credits db) \<and> distinct (credit_outbox db)
     \<and> set (received_credits db) \<subseteq> received_row_of ` set (packet_credits db) \<and> distinct (map received_key (received_credits db))
     \<and> credit_key ` set (packet_credits db) \<subseteq> set (credit_outbox db) \<union> received_key ` set (received_credits db)"

text \<open>The trigger finds nothing to complain of.\<close>

lemma allocated_checks:
  assumes "allocated db"
  shows "check_allocation target db"
proof (cases "find (\<lambda>p. pk_id p = target) (packets db)")
  case (Some p)
  then have p: "p \<in> set (packets db)" "pk_id p = target" using find_SomeD by fastforce+
  let ?rows = "slots_of db target"
  have rows: "map (\<lambda>s. (sl_slot s, sl_amount s)) ?rows = allocation (pk_total p) (pk_shares p)" and shares: "1 \<le> pk_shares p" "pk_shares p \<le> pk_total p"
    using assms p unfolding allocated_def by auto
  have "length ?rows = nat (pk_shares p)" using arg_cong [OF rows, of length] by (simp add: allocation_def)
  moreover have "sum_list (map sl_amount ?rows) = pk_total p"
    using allocation_sum [OF shares] arg_cong [OF rows, of "\<lambda>xs. sum_list (map snd xs)"] by (simp add: comp_def)
  moreover have "sl_slot ` set ?rows = {0..pk_shares p - 1}"
    using arg_cong [OF rows, of "\<lambda>xs. set (map fst xs)"] unfolding allocation_slots by (simp add: image_image)
  moreover have "Min {0..pk_shares p - 1} = 0" "Max {0..pk_shares p - 1} = pk_shares p - 1"
    using shares(1) by (auto intro: Min_eqI Max_eqI)
  ultimately show ?thesis using Some shares by (simp add: check_allocation_def)
qed (simp add: check_allocation_def)

definition lab_inv :: "lab_db \<Rightarrow> bool" where
  "lab_inv db \<longleftrightarrow> allocated db \<and> credited db \<and> delivered db"

lemma commitPacket_cases:
  assumes "commitPacket env point target old new = (e, db)"
  shows "db = old \<and> e \<noteq> None \<or> db = new \<and> (e = None \<or> lv_commit env point = CommitLostApplied)"
  using assms by (auto simp: commitPacket_def split: if_splits commit_outcome.splits)

lemma Create_cases:
  assumes "Create env packet funds shares db = (e, db')"
  obtains "db' = db" "e \<noteq> None"
  | "1 \<le> shares" "shares \<le> funds" "packet \<notin> pk_id ` set (packets db)" "db' = createRows packet funds shares db"
proof (cases "db' = db \<and> e \<noteq> None")
  case False
  then have "1 \<le> shares" "shares \<le> funds" "packet \<notin> pk_id ` set (packets db)"
      and commit: "commitPacket env AtPacketRow packet db (createRows packet funds shares db) = (e, db')"
    using assms unfolding Create_def by (auto split: if_splits)
  then show ?thesis using that(2) commitPacket_cases [OF commit] False by blast
qed (use that(1) in blast)

lemma createRows_fields:
  "packets (createRows packet funds shares db) = packets db @ [\<lparr>pk_id = packet, pk_total = funds, pk_shares = shares\<rparr>]"
  "packet_slots (createRows packet funds shares db) = packet_slots db
     @ map (\<lambda>(n, amount). \<lparr>sl_packet = packet, sl_slot = n, sl_amount = amount, sl_claimed_by = None\<rparr>) (allocation funds shares)"
  "packet_credits (createRows packet funds shares db) = packet_credits db" "credit_outbox (createRows packet funds shares db) = credit_outbox db"
  "received_credits (createRows packet funds shares db) = received_credits db"
  by (simp_all add: createRows_def)

lemma allocated_create:
  assumes "allocated db" and "1 \<le> shares" and "shares \<le> funds" and "packet \<notin> pk_id ` set (packets db)"
  shows "allocated (createRows packet funds shares db)" (is "allocated ?db")
proof -
  let ?new = "map (\<lambda>(n, amount). \<lparr>sl_packet = packet, sl_slot = n, sl_amount = amount, sl_claimed_by = None\<rparr>) (allocation funds shares)"
  have none: "filter (\<lambda>s. sl_packet s = packet) (packet_slots db) = []"
    using assms(1,4) by (auto simp: allocated_def filter_empty_conv)
  have "slots_of ?db packet = ?new" using none by (auto simp: slots_of_def createRows_fields filter_id_conv)
  moreover have "map (\<lambda>s. (sl_slot s, sl_amount s)) ?new = allocation funds shares" by (simp add: map_idI split_beta)
  moreover have "slots_of ?db q = slots_of db q" if "q \<noteq> packet" for q
    using that by (auto simp: slots_of_def createRows_fields filter_empty_conv)
  moreover have "slots_of ?db (pk_id p) = slots_of db (pk_id p)" if "p \<in> set (packets db)" for p
    using calculation(3) [of "pk_id p"] that assms(4) by blast
  ultimately show ?thesis using assms unfolding allocated_def createRows_fields by (auto simp: image_iff)
qed

lemma create_keeps_the_rest:
  shows "credited (createRows packet funds shares db) \<longleftrightarrow> credited db" and "delivered (createRows packet funds shares db) \<longleftrightarrow> delivered db"
proof -
  have "claimed (createRows packet funds shares db) = claimed db" unfolding claimed_def createRows_fields by (auto simp: claim_of_def)
  then show "credited (createRows packet funds shares db) \<longleftrightarrow> credited db" by (simp add: credited_def createRows_fields)
  show "delivered (createRows packet funds shares db) \<longleftrightarrow> delivered db" by (simp add: delivered_def createRows_fields)
qed

lemma Create_inv:
  assumes "Create env packet funds shares db = (e, db')" and "lab_inv db"
  shows "lab_inv db'"
  using assms(1)
proof (cases rule: Create_cases)
  case 2
  then show ?thesis using assms(2) allocated_create [of db shares funds packet] create_keeps_the_rest unfolding lab_inv_def by simp
qed (use assms(2) in simp)

text \<open>What a claim that goes through writes.\<close>

definition claim_rows :: "string \<Rightarrow> string \<Rightarrow> slot_row \<Rightarrow> lab_db \<Rightarrow> lab_db" where
  "claim_rows packet user s db =
     db\<lparr>packet_slots := update_rows (\<lambda>r. sl_packet r = sl_packet s \<and> sl_slot r = sl_slot s) (\<lambda>r. r\<lparr>sl_claimed_by := Some user\<rparr>) (packet_slots db),
        packet_credits := packet_credits db @ [\<lparr>cr_packet = packet, cr_slot = sl_slot s, cr_amount = sl_amount s, cr_user = user\<rparr>],
        credit_outbox := credit_outbox db @ [(packet, user)]\<rparr>"

definition next_slot :: "lab_db \<Rightarrow> string \<Rightarrow> slot_row \<Rightarrow> bool" where
  "next_slot db packet s \<longleftrightarrow> s \<in> set (packet_slots db) \<and> sl_packet s = packet \<and> sl_claimed_by s = None
     \<and> (\<forall>r \<in> set (packet_slots db). sl_packet r = packet \<and> sl_claimed_by r = None \<longrightarrow> sl_slot s \<le> sl_slot r)"

lemma select_next_slot:
  assumes "select_limit (\<lambda>s. sl_packet s = packet \<and> sl_claimed_by s = None) sl_slot 1 (packet_slots db) = s # rest"
  shows "next_slot db packet s"
proof -
  let ?p = "\<lambda>s. sl_packet s = packet \<and> sl_claimed_by s = None"
  obtain tail where sorted: "sort_key sl_slot (filter ?p (packet_slots db)) = s # tail"
    using assms by (cases "sort_key sl_slot (filter ?p (packet_slots db))") (auto simp: select_limit_def)
  have "sorted (map sl_slot (s # tail))" using sorted_sort_key [of sl_slot "filter ?p (packet_slots db)"] unfolding sorted .
  moreover have "set (s # tail) = {r \<in> set (packet_slots db). ?p r}" using arg_cong [OF sorted, of set] by simp
  ultimately show ?thesis unfolding next_slot_def by auto
qed

lemma Claim_cases:
  assumes "Claim env packet user db = (r, db')"
  obtains "db' = db"
  | s where "next_slot db packet s" "credit_key ` set (packet_credits db) \<inter> {(packet, user)} = {}" "packet \<in> pk_id ` set (packets db)"
    "db' = claim_rows packet user s db" "user \<noteq> []"
    "\<forall>s' \<in> set (packet_slots db). sl_packet s' = packet \<and> sl_slot s' \<noteq> sl_slot s \<longrightarrow> sl_claimed_by s' \<noteq> Some user"
proof (cases "db' = db")
  case False
  then obtain p s rest db1 db2 db3 where steps: "find (\<lambda>p. pk_id p = packet) (packets db) = Some p" "user \<noteq> []"
      "find (\<lambda>c. cr_packet c = packet \<and> cr_user c = user) (packet_credits db) = None"
      "select_limit (\<lambda>s. sl_packet s = packet \<and> sl_claimed_by s = None) sl_slot 1 (packet_slots db) = s # rest"
      "takeSlot user s db = Some db1" "insertCredit \<lparr>cr_packet = packet, cr_slot = sl_slot s, cr_amount = sl_amount s, cr_user = user\<rparr> db1 = Some db2"
      "insertIntent packet user db2 = Some db3" and commit: "\<exists>e. commitPacket env AtTakeSlot packet db db3 = (e, db')"
    using assms unfolding Claim_def by (auto split: if_splits option.splits list.splits prod.splits)
  note slot = select_next_slot [OF steps(4)]
  have "db3 = claim_rows packet user s db"
    using steps(5-7) by (auto simp: takeSlot_def insertCredit_def insertIntent_def claim_rows_def split: if_splits)
  moreover have "db' = db3" using commit False commitPacket_cases by blast
  moreover have "packet \<in> pk_id ` set (packets db)" using find_SomeD [OF steps(1)] by auto
  moreover have "credit_key ` set (packet_credits db) \<inter> {(packet, user)} = {}"
    using steps(3) by (auto simp: find_None_iff credit_key_def)
  moreover have "\<forall>s' \<in> set (packet_slots db). sl_packet s' = packet \<and> sl_slot s' \<noteq> sl_slot s \<longrightarrow> sl_claimed_by s' \<noteq> Some user"
    using steps(5) slot by (auto simp: takeSlot_def next_slot_def split: if_splits)
  ultimately show ?thesis using that(2) [OF slot] steps(2) by simp
qed (rule that(1))

lemma slots_distinct:
  assumes "allocated db" and "packet \<in> pk_id ` set (packets db)"
  shows "distinct (map sl_slot (slots_of db packet))"
proof -
  obtain p where "p \<in> set (packets db)" "pk_id p = packet" using assms(2) by blast
  then have "map (\<lambda>s. (sl_slot s, sl_amount s)) (slots_of db packet) = allocation (pk_total p) (pk_shares p)"
    using assms(1) unfolding allocated_def by blast
  from arg_cong [OF this, of "map fst"] show ?thesis unfolding allocation_slots by (simp add: comp_def)
qed

lemma slot_unique:
  assumes "allocated db" and "s \<in> set (packet_slots db)" and "r \<in> set (packet_slots db)" and "sl_packet r = sl_packet s" and "sl_slot r = sl_slot s"
  shows "r = s"
proof -
  have "sl_packet s \<in> pk_id ` set (packets db)" using assms(1,2) by (auto simp: allocated_def)
  from distinct_key_eq [OF slots_distinct [OF assms(1) this], of r s] show ?thesis using assms(2-5) by (simp add: slots_of_def)
qed

lemma claim_rows_fields:
  "packets (claim_rows packet user s db) = packets db"
  "packet_slots (claim_rows packet user s db) =
     update_rows (\<lambda>r. sl_packet r = sl_packet s \<and> sl_slot r = sl_slot s) (\<lambda>r. r\<lparr>sl_claimed_by := Some user\<rparr>) (packet_slots db)"
  "packet_credits (claim_rows packet user s db) =
     packet_credits db @ [\<lparr>cr_packet = packet, cr_slot = sl_slot s, cr_amount = sl_amount s, cr_user = user\<rparr>]"
  "credit_outbox (claim_rows packet user s db) = credit_outbox db @ [(packet, user)]"
  "received_credits (claim_rows packet user s db) = received_credits db"
  by (simp_all add: claim_rows_def)

lemma claim_allocated: "allocated db \<Longrightarrow> allocated (claim_rows packet user s db)"
proof -
  have "map (\<lambda>r. (sl_slot r, sl_amount r)) (filter q (update_rows p (\<lambda>r. r\<lparr>sl_claimed_by := u\<rparr>) rows)) = map (\<lambda>r. (sl_slot r, sl_amount r)) (filter q rows)"
    if "\<And>r v. q (r\<lparr>sl_claimed_by := v\<rparr>) = q r" for p q u and rows :: "slot_row list"
    using that by (induction rows) auto
  then have "map (\<lambda>r. (sl_slot r, sl_amount r)) (slots_of (claim_rows packet user s db) q) = map (\<lambda>r. (sl_slot r, sl_amount r)) (slots_of db q)" for q
    by (simp add: slots_of_def claim_rows_fields)
  moreover have "sl_packet ` set (packet_slots (claim_rows packet user s db)) = sl_packet ` set (packet_slots db)"
    using arg_cong [OF map_update_rows_key [of sl_packet "\<lambda>r. r\<lparr>sl_claimed_by := Some user\<rparr>"], of set] by (simp add: claim_rows_fields)
  ultimately show "allocated db \<Longrightarrow> allocated (claim_rows packet user s db)" unfolding allocated_def claim_rows_fields(1) by simp
qed

lemma claim_claimed:
  assumes "allocated db" and "next_slot db packet s"
  shows "claimed (claim_rows packet user s db) = insert (packet, sl_slot s, sl_amount s, user) (claimed db)"
proof -
  let ?f = "\<lambda>r. if sl_packet r = sl_packet s \<and> sl_slot r = sl_slot s then r\<lparr>sl_claimed_by := Some user\<rparr> else r"
  have s: "s \<in> set (packet_slots db)" "sl_packet s = packet" "sl_claimed_by s = None" using assms(2) by (auto simp: next_slot_def)
  have f: "?f r = (if r = s then s\<lparr>sl_claimed_by := Some user\<rparr> else r)" if "r \<in> set (packet_slots db)" for r
    using slot_unique [OF assms(1) s(1) that] by auto
  have "claimed (claim_rows packet user s db) = (\<Union>r \<in> set (packet_slots db). claim_of (?f r))"
    unfolding claimed_def claim_rows_fields set_update_rows by (simp only: UN_simps)
  also have "\<dots> = (\<Union>r \<in> set (packet_slots db). if r = s then {(packet, sl_slot s, sl_amount s, user)} else claim_of r)"
    by (rule SUP_cong [OF refl]) (simp only: f, simp add: claim_of_def s(2))
  also have "\<dots> = insert (packet, sl_slot s, sl_amount s, user) (claimed db)"
    using s(1,3) unfolding claimed_def by (auto simp: claim_of_def split: if_splits)
  finally show ?thesis .
qed

lemma Claim_inv:
  assumes "Claim env packet user db = (r, db')" and "lab_inv db"
  shows "lab_inv db'"
  using assms(1)
proof (cases rule: Claim_cases)
  case (2 s)
  have inv: "allocated db" "credited db" "delivered db" using assms(2) by (simp_all add: lab_inv_def)
  let ?c = "\<lparr>cr_packet = packet, cr_slot = sl_slot s, cr_amount = sl_amount s, cr_user = user\<rparr>"
  have key: "(packet, user) \<notin> credit_key ` set (packet_credits db)" using 2(2) by blast
  have "credited db'"
    using inv(2) key claim_claimed [OF inv(1) 2(1)] unfolding 2(4) credited_def claim_rows_fields
    by (auto simp: credit_tuple_def credit_key_def)
  moreover have "delivered db'"
    using inv(3) key unfolding 2(4) delivered_def claim_rows_fields by (auto simp: credit_key_def)
  ultimately show ?thesis using claim_allocated [OF inv(1)] unfolding lab_inv_def 2(4) by blast
qed (use assms(2) in simp)

lemma filter_key_single: "distinct (map k xs) \<Longrightarrow> x \<in> set xs \<Longrightarrow> filter (\<lambda>y. k y = k x) xs = [x]"
  by (induction xs) (auto simp: filter_empty_conv image_iff)

lemma filter_key_at_most_one: "distinct (map k xs) \<Longrightarrow> length (filter (\<lambda>y. k y = v) xs) \<le> 1"
  by (induction xs) (auto simp: filter_empty_conv image_iff)

lemma receive_cases:
  assumes "delivered db" and "(packet, user) \<in> set (credit_outbox db)" and "distinct (map credit_key (packet_credits db))"
  obtains "(packet, user) \<in> received_key ` set (received_credits db)" "receiveCredit packet user db = db"
  | c where "c \<in> set (packet_credits db)" "credit_key c = (packet, user)" "(packet, user) \<notin> received_key ` set (received_credits db)"
    "receiveCredit packet user db = db\<lparr>received_credits := received_credits db @ [received_row_of c]\<rparr>"
proof (cases "(packet, user) \<in> received_key ` set (received_credits db)")
  case True
  then show ?thesis using that(1) by (simp add: receiveCredit_def received_key_def [abs_def])
next
  case False
  obtain c where c: "c \<in> set (packet_credits db)" "credit_key c = (packet, user)" using assms(1,2) unfolding delivered_def by force
  have "filter (\<lambda>x. credit_key x = credit_key c) (packet_credits db) = [c]"
    by (rule filter_key_single [OF assms(3) c(1)])
  then show ?thesis using that(2) [OF c False] assms(2) c(2) False
    by (simp add: receiveCredit_def received_key_def [abs_def] credit_key_def)
qed

lemma receive_inv:
  assumes "lab_inv db" and "(packet, user) \<in> set (credit_outbox db)"
  shows "lab_inv (receiveCredit packet user db)"
    and "(packet, user) \<in> received_key ` set (received_credits (receiveCredit packet user db))"
proof -
  have inv: "allocated db" "credited db" "delivered db" using assms(1) by (simp_all add: lab_inv_def)
  have keys: "distinct (map credit_key (packet_credits db))" using inv(2) by (simp add: credited_def)
  have rest: "allocated (db\<lparr>received_credits := rs\<rparr>) = allocated db" "credited (db\<lparr>received_credits := rs\<rparr>) = credited db" for rs
    by (simp_all add: allocated_def slots_of_def credited_def claimed_def)
  have "lab_inv (receiveCredit packet user db) \<and> (packet, user) \<in> received_key ` set (received_credits (receiveCredit packet user db))"
    using inv(3) assms(2) keys
  proof (cases rule: receive_cases)
    case (2 c)
    have "delivered (receiveCredit packet user db)"
      using inv(3) 2(1-3) unfolding 2(4) delivered_def by (auto simp: received_key_def received_row_of_def credit_key_def)
    then show ?thesis using inv rest 2(1,2) unfolding 2(4) lab_inv_def by (auto simp: received_key_def received_row_of_def credit_key_def)
  qed (use assms(1) in simp)
  then show "lab_inv (receiveCredit packet user db)"
    and "(packet, user) \<in> received_key ` set (received_credits (receiveCredit packet user db))" by blast+
qed

lemma acknowledge_inv:
  assumes "lab_inv db" and "(packet, user) \<in> received_key ` set (received_credits db)"
  shows "lab_inv (acknowledgeIntent packet user db)"
proof -
  have "allocated (acknowledgeIntent packet user db) = allocated db" "credited (acknowledgeIntent packet user db) = credited db"
    by (simp_all add: acknowledgeIntent_def allocated_def slots_of_def credited_def claimed_def)
  moreover have "delivered (acknowledgeIntent packet user db)"
    using assms unfolding lab_inv_def delivered_def acknowledgeIntent_def by auto
  ultimately show ?thesis using assms(1) by (simp add: lab_inv_def)
qed

section \<open>Runs\<close>

text \<open>
  A delivery is called for an intent of the outbox; \<open>ready\<close> holds the deliveries whose first
  statement was answered, and any of them may acknowledge, at any time and more than once.
\<close>

inductive lab_step :: "lab_db \<times> (string \<times> string) set \<Rightarrow> lab_db \<times> (string \<times> string) set \<Rightarrow> bool" where
  step_create: "Create env packet funds shares db = (e, db') \<Longrightarrow> lab_step (db, ready) (db', ready)"
| step_claim: "Claim env packet user db = (r, db') \<Longrightarrow> lab_step (db, ready) (db', ready)"
| step_receive: "(packet, user) \<in> set (credit_outbox db) \<Longrightarrow> statement env AtDelivery db (receiveCredit packet user db) = (e, db') \<Longrightarrow>
    lab_step (db, ready) (db', if e = None then insert (packet, user) ready else ready)"
| step_acknowledge: "(packet, user) \<in> ready \<Longrightarrow> statement env AtDelivered db (acknowledgeIntent packet user db) = (e, db') \<Longrightarrow>
    lab_step (db, ready) (db', ready)"

definition empty_lab :: lab_db where
  "empty_lab = \<lparr>packets = [], packet_slots = [], packet_credits = [], credit_outbox = [], received_credits = []\<rparr>"

definition lab_run :: "lab_db \<times> (string \<times> string) set \<Rightarrow> bool" where
  "lab_run st \<longleftrightarrow> lab_step\<^sup>*\<^sup>* (empty_lab, {}) st"

lemma statement_cases: "statement env point old new = (e, db) \<Longrightarrow> db = new \<or> db = old \<and> e \<noteq> None"
  by (auto simp: statement_def split: commit_outcome.splits)

lemma Create_credits: "Create env packet funds shares db = (e, db') \<Longrightarrow> packet_credits db' = packet_credits db \<and> received_credits db' = received_credits db"
  by (erule Create_cases) (simp_all add: createRows_fields)

lemma Claim_credits: "Claim env packet user db = (r, db') \<Longrightarrow> set (packet_credits db) \<subseteq> set (packet_credits db') \<and> received_credits db' = received_credits db"
  by (erule Claim_cases) (auto simp: claim_rows_fields)

lemma Create_packets: "Create env packet funds shares db = (e, db') \<Longrightarrow> set (packets db) \<subseteq> set (packets db')"
  by (erule Create_cases) (auto simp: createRows_fields)

lemma Claim_packets: "Claim env packet user db = (r, db') \<Longrightarrow> packets db' = packets db"
  by (erule Claim_cases) (simp_all add: claim_rows_fields)

lemma receive_fields:
  "packets (receiveCredit packet user db) = packets db" "packet_credits (receiveCredit packet user db) = packet_credits db"
  "set (received_credits db) \<subseteq> set (received_credits (receiveCredit packet user db))"
  by (auto simp: receiveCredit_def)

lemma acknowledge_fields [simp]:
  "packets (acknowledgeIntent packet user db) = packets db" "packet_credits (acknowledgeIntent packet user db) = packet_credits db"
  "received_credits (acknowledgeIntent packet user db) = received_credits db"
  by (simp_all add: acknowledgeIntent_def)

text \<open>Packets, credits and deliveries stay.\<close>

lemma step_keeps:
  assumes "lab_step (db, ready) (db', ready')"
  shows "set (packets db) \<subseteq> set (packets db')" and "set (packet_credits db) \<subseteq> set (packet_credits db')"
    and "set (received_credits db) \<subseteq> set (received_credits db')"
  using assms
  by (cases rule: lab_step.cases; auto dest!: statement_cases dest: Create_credits Claim_credits Create_packets Claim_packets simp: receive_fields;
      use Claim_credits Create_packets receive_fields(3) in blast)+

definition run_inv :: "lab_db \<times> (string \<times> string) set \<Rightarrow> bool" where
  "run_inv st \<longleftrightarrow> lab_inv (fst st) \<and> snd st \<subseteq> received_key ` set (received_credits (fst st))"

lemma step_inv:
  assumes "lab_step st st'" and "run_inv st"
  shows "run_inv st'"
  using assms
proof (induction rule: lab_step.induct)
  case (step_create env packet funds shares db e db' ready)
  then show ?case using Create_inv Create_credits by (simp add: run_inv_def)
next
  case (step_claim env packet user db r db' ready)
  then show ?case using Claim_inv Claim_credits by (simp add: run_inv_def)
next
  case (step_receive packet user db env e db' ready)
  have "received_key ` set (received_credits db) \<subseteq> received_key ` set (received_credits (receiveCredit packet user db))"
    by (rule image_mono [OF receive_fields(3)])
  then show ?case
    using step_receive statement_cases [OF step_receive.hyps(2)] receive_inv [of db packet user]
    unfolding run_inv_def by (auto simp del: image_subset_iff)
next
  case (step_acknowledge packet user ready env db e db')
  then show ?case
    using statement_cases [OF step_acknowledge.hyps(2)] acknowledge_inv [of db packet user] by (auto simp: run_inv_def)
qed

lemma lab_run_inv: "lab_run st \<Longrightarrow> run_inv st"
proof -
  have base: "run_inv (empty_lab, {})"
    by (simp add: run_inv_def lab_inv_def empty_lab_def allocated_def credited_def claimed_def delivered_def)
  assume "lab_run st"
  then have "lab_step\<^sup>*\<^sup>* (empty_lab, {}) st" by (simp add: lab_run_def)
  then show "run_inv st" by (induction rule: rtranclp_induct) (use base step_inv in blast)+
qed

lemma steps_keep:
  assumes "lab_step\<^sup>*\<^sup>* st st'"
  shows "set (packets (fst st)) \<subseteq> set (packets (fst st'))" and "set (packet_credits (fst st)) \<subseteq> set (packet_credits (fst st'))"
  using assms by (induction rule: rtranclp_induct) (use step_keeps in fastforce)+

section \<open>Money\<close>

definition credited_sum :: "lab_db \<Rightarrow> string \<Rightarrow> int" where
  "credited_sum db packet = sum_list (map cr_amount (filter (\<lambda>c. cr_packet c = packet) (packet_credits db)))"

definition received_sum :: "lab_db \<Rightarrow> string \<Rightarrow> int" where
  "received_sum db packet = sum_list (map rv_amount (filter (\<lambda>r. rv_packet r = packet) (received_credits db)))"

definition credit_of_slot :: "slot_row \<Rightarrow> credit_row" where
  "credit_of_slot s = \<lparr>cr_packet = sl_packet s, cr_slot = sl_slot s, cr_amount = sl_amount s, cr_user = the (sl_claimed_by s)\<rparr>"

lemma credit_tuple_eq: "credit_tuple c = credit_tuple c' \<longleftrightarrow> c = c'"
  by (cases c; cases c') (simp add: credit_tuple_def)

lemma credits_are_claims:
  assumes "credited db"
  shows "set (packet_credits db) = credit_of_slot ` {s \<in> set (packet_slots db). sl_claimed_by s \<noteq> None}"
proof -
  have "claim_of s = (if sl_claimed_by s \<noteq> None then {credit_tuple (credit_of_slot s)} else {})" for s
    by (cases "sl_claimed_by s") (simp_all add: claim_of_def credit_tuple_def credit_of_slot_def)
  then have "claimed db = credit_tuple ` credit_of_slot ` {s \<in> set (packet_slots db). sl_claimed_by s \<noteq> None}"
    unfolding claimed_def by auto
  then have "credit_tuple ` set (packet_credits db) = credit_tuple ` credit_of_slot ` {s \<in> set (packet_slots db). sl_claimed_by s \<noteq> None}"
    using assms unfolding credited_def by simp
  moreover have "inj credit_tuple" by (rule injI) (simp add: credit_tuple_eq)
  ultimately show ?thesis by (simp only: inj_image_eq_iff)
qed

lemma credited_sum_slots:
  assumes "lab_inv db" and "packet \<in> pk_id ` set (packets db)"
  shows "credited_sum db packet = sum_list (map sl_amount (filter (\<lambda>s. sl_claimed_by s \<noteq> None) (slots_of db packet)))"
proof -
  let ?A = "{s \<in> set (slots_of db packet). sl_claimed_by s \<noteq> None}" and ?B = "{c \<in> set (packet_credits db). cr_packet c = packet}"
  have inv: "allocated db" "credited db" using assms(1) by (simp_all add: lab_inv_def)
  have "distinct (packet_credits db)" using inv(2) distinct_mapD unfolding credited_def by blast
  then have "credited_sum db packet = (\<Sum>c \<in> ?B. cr_amount c)" by (simp add: credited_sum_def sum_list_distinct_conv_sum_set)
  also have "?B = credit_of_slot ` ?A" unfolding credits_are_claims [OF inv(2)] slots_of_def by (auto simp: credit_of_slot_def)
  also have "inj_on credit_of_slot ?A"
    by (rule inj_onI) (use slot_unique [OF inv(1)] in \<open>auto simp: credit_of_slot_def slots_of_def\<close>)
  then have "(\<Sum>c \<in> credit_of_slot ` ?A. cr_amount c) = (\<Sum>s \<in> ?A. sl_amount s)"
    by (subst sum.reindex) (auto simp: credit_of_slot_def)
  also have "\<dots> = sum_list (map sl_amount (filter (\<lambda>s. sl_claimed_by s \<noteq> None) (slots_of db packet)))"
    using distinct_mapD [OF slots_distinct [OF inv(1) assms(2)]] by (simp add: sum_list_distinct_conv_sum_set)
  finally show ?thesis .
qed

lemma slot_amount:
  assumes "allocated db" and "p \<in> set (packets db)" and "s \<in> set (slots_of db (pk_id p))"
  shows "0 < sl_amount s" and "sl_amount s \<in> {pk_total p div pk_shares p, pk_total p div pk_shares p + 1}"
proof -
  have "1 \<le> pk_shares p" "pk_shares p \<le> pk_total p" "(sl_slot s, sl_amount s) \<in> set (allocation (pk_total p) (pk_shares p))"
    using assms unfolding allocated_def by (force simp: image_iff dest: arg_cong [of _ _ set])+
  from allocation_amounts [OF this] show "0 < sl_amount s" and "sl_amount s \<in> {pk_total p div pk_shares p, pk_total p div pk_shares p + 1}" by auto
qed

lemma slots_sum:
  assumes "allocated db" and "p \<in> set (packets db)"
  shows "sum_list (map sl_amount (slots_of db (pk_id p))) = pk_total p"
proof -
  have rows: "map (\<lambda>s. (sl_slot s, sl_amount s)) (slots_of db (pk_id p)) = allocation (pk_total p) (pk_shares p)" "1 \<le> pk_shares p" "pk_shares p \<le> pk_total p"
    using assms unfolding allocated_def by auto
  show ?thesis using allocation_sum [OF rows(2,3)] arg_cong [OF rows(1), of "\<lambda>xs. sum_list (map snd xs)"] by (simp add: comp_def)
qed

lemma sum_list_filter_le: "(\<And>x. x \<in> set xs \<Longrightarrow> 0 \<le> f x) \<Longrightarrow> sum_list (map f (filter p xs)) \<le> (sum_list (map f xs) :: int)"
  by (induction xs) fastforce+

lemma received_sum_le:
  assumes "lab_inv db" and "p \<in> set (packets db)"
  shows "received_sum db (pk_id p) \<le> credited_sum db (pk_id p)"
proof -
  let ?R = "{r \<in> set (received_credits db). rv_packet r = pk_id p}" and ?C = "{c \<in> set (packet_credits db). cr_packet c = pk_id p}"
  have inv: "allocated db" "credited db" "delivered db" using assms(1) by (simp_all add: lab_inv_def)
  have dist: "distinct (received_credits db)" "distinct (packet_credits db)" "distinct (map credit_key (packet_credits db))"
    using inv(2,3) distinct_mapD unfolding delivered_def credited_def by blast+
  have inj: "inj_on received_row_of ?C"
    by (rule inj_onI) (use dist(3) in \<open>auto simp: received_row_of_def distinct_map inj_on_def credit_key_def\<close>)
  have pos: "0 \<le> cr_amount c" if "c \<in> ?C" for c
    using that slot_amount(1) [OF inv(1) assms(2)] unfolding credits_are_claims [OF inv(2)] by (fastforce simp: credit_of_slot_def slots_of_def)
  have "?R \<subseteq> received_row_of ` ?C" using inv(3) unfolding delivered_def received_row_of_def by auto
  then have "(\<Sum>r \<in> ?R. rv_amount r) \<le> (\<Sum>r \<in> received_row_of ` ?C. rv_amount r)"
    by (rule sum_mono2 [rotated]) (use pos in \<open>auto simp: received_row_of_def\<close>)
  also have "\<dots> = (\<Sum>c \<in> ?C. cr_amount c)" using inj by (subst sum.reindex) (auto simp: received_row_of_def)
  finally show ?thesis using dist(1,2) by (simp add: received_sum_def credited_sum_def sum_list_distinct_conv_sum_set)
qed

section \<open>Answers\<close>

definition receipt_of :: "credit_row \<Rightarrow> Receipt" where
  "receipt_of c = \<lparr>rp_Packet = cr_packet c, rp_User = cr_user c, rp_Slot = cr_slot c, rp_Amount = cr_amount c\<rparr>"

lemma Claim_again:
  assumes "\<And>point. \<not> lv_fails env point" and "lv_commit env AtReceipt = CommitOk" and "lab_inv db"
    and "c \<in> set (packet_credits db)" and "cr_user c \<noteq> []" and "length (cr_user c) \<le> 128" and "pg_text_ok (cr_user c)" and "pg_text_ok (cr_packet c)"
  shows "Claim env (cr_packet c) (cr_user c) db = (Inr (receipt_of c), db)"
proof -
  have inv: "allocated db" "credited db" using assms(3) by (simp_all add: lab_inv_def)
  have "cr_packet c \<in> sl_packet ` set (packet_slots db)"
    using assms(4) unfolding credits_are_claims [OF inv(2)] by (auto simp: credit_of_slot_def)
  then have "cr_packet c \<in> pk_id ` set (packets db)" using inv(1) unfolding allocated_def by blast
  then obtain p where p: "find (\<lambda>p. pk_id p = cr_packet c) (packets db) = Some p"
    by (cases "find (\<lambda>p. pk_id p = cr_packet c) (packets db)") (auto simp: find_None_iff)
  have "distinct (map credit_key (packet_credits db))" using inv(2) by (simp add: credited_def)
  then have "find (\<lambda>x. cr_packet x = cr_packet c \<and> cr_user x = cr_user c) (packet_credits db) = Some c"
    by (rule find_distinct_key) (use assms(4) in \<open>auto simp: credit_key_def\<close>)
  then show ?thesis using assms(1,2,5-8) p by (simp add: Claim_def receipt_of_def)
qed

text \<open>A claim that is answered with a receipt has the credit of the receipt in the table.\<close>

lemma Claim_receipt:
  assumes "Claim env packet user db = (Inr receipt, db')"
  shows "\<exists>c \<in> set (packet_credits db'). receipt = receipt_of c \<and> credit_key c = (packet, user)"
proof (cases "find (\<lambda>c. cr_packet c = packet \<and> cr_user c = user) (packet_credits db)")
  case (Some c)
  then have "receipt = receipt_of c \<and> db' = db"
    using assms find_SomeD [OF Some] by (auto simp: Claim_def receipt_of_def split: if_splits option.splits)
  then show ?thesis using find_SomeD [OF Some] by (auto simp: credit_key_def)
next
  case None
  then obtain s rest db1 db2 db3 where steps: "takeSlot user s db = Some db1"
      "insertCredit \<lparr>cr_packet = packet, cr_slot = sl_slot s, cr_amount = sl_amount s, cr_user = user\<rparr> db1 = Some db2"
      "insertIntent packet user db2 = Some db3" "commitPacket env AtTakeSlot packet db db3 = (None, db')"
      "receipt = \<lparr>rp_Packet = packet, rp_User = user, rp_Slot = sl_slot s, rp_Amount = sl_amount s\<rparr>"
    using assms unfolding Claim_def by (auto split: if_splits option.splits list.splits prod.splits)
  have "db' = db3" using commitPacket_cases [OF steps(4)] by auto
  then have "\<lparr>cr_packet = packet, cr_slot = sl_slot s, cr_amount = sl_amount s, cr_user = user\<rparr> \<in> set (packet_credits db')"
    using steps(2,3) by (auto simp: insertCredit_def insertIntent_def split: if_splits)
  then show ?thesis using steps(5) by (force simp: receipt_of_def credit_key_def)
qed

lemma Claim_exhausted:
  assumes "Claim env packet user db = (Inl ErrExhausted, db')"
  shows "db' = db" and "\<forall>s \<in> set (slots_of db packet). sl_claimed_by s \<noteq> None" and "packet \<in> pk_id ` set (packets db)"
    and "(packet, user) \<notin> credit_key ` set (packet_credits db)"
proof -
  have commit: "commitPacket env point target old new \<noteq> (Some ErrExhausted, x)" for point target old new x
    by (auto simp: commitPacket_def split: commit_outcome.splits)
  obtain p where steps: "find (\<lambda>p. pk_id p = packet) (packets db) = Some p"
      "find (\<lambda>c. cr_packet c = packet \<and> cr_user c = user) (packet_credits db) = None"
      "select_limit (\<lambda>s. sl_packet s = packet \<and> sl_claimed_by s = None) sl_slot 1 (packet_slots db) = []" "db' = db"
    using assms commit unfolding Claim_def by (auto split: if_splits option.splits list.splits prod.splits)
  show "db' = db" by (rule steps(4))
  show "packet \<in> pk_id ` set (packets db)" using find_SomeD [OF steps(1)] by auto
  show "(packet, user) \<notin> credit_key ` set (packet_credits db)" using steps(2) by (auto simp: find_None_iff credit_key_def)
  have "filter (\<lambda>s. sl_packet s = packet \<and> sl_claimed_by s = None) (packet_slots db) = []"
    using steps(3) by (auto simp: select_limit_def dest: arg_cong [of _ "[]" length])
  then show "\<forall>s \<in> set (slots_of db packet). sl_claimed_by s \<noteq> None" by (auto simp: slots_of_def filter_empty_conv)
qed

lemma credited_all:
  assumes "lab_inv db" and "p \<in> set (packets db)" and "\<forall>s \<in> set (slots_of db (pk_id p)). sl_claimed_by s \<noteq> None"
  shows "credited_sum db (pk_id p) = pk_total p"
  using credited_sum_slots [OF assms(1)] slots_sum assms by (simp add: lab_inv_def filter_True)

section \<open>A packet for two\<close>

definition quiet_lab :: lab_env where
  "quiet_lab = \<lparr>lv_fails = (\<lambda>point. False), lv_commit = (\<lambda>point. CommitOk)\<rparr>"

text \<open>The first claim commits, but its answer is lost.\<close>

definition lost_answer :: lab_env where
  "lost_answer = quiet_lab\<lparr>lv_commit := (\<lambda>point. CommitLostApplied)\<rparr>"

definition packet_created :: lab_db where
  "packet_created = snd (Create quiet_lab ''p'' 5 2 empty_lab)"

definition one_claimed :: lab_db where
  "one_claimed = snd (Claim lost_answer ''p'' ''u'' packet_created)"

definition both_claimed :: lab_db where
  "both_claimed = snd (Claim quiet_lab ''p'' ''v'' one_claimed)"

definition one_received :: lab_db where
  "one_received = receiveCredit ''p'' ''u'' both_claimed"

lemma step_Create: "lab_step (db, ready) (snd (Create env packet funds shares db), ready)"
  by (rule step_create [OF surjective_pairing])

lemma step_Claim: "lab_step (db, ready) (snd (Claim env packet user db), ready)"
  by (rule step_claim [OF surjective_pairing])

lemma created_run: "lab_run (packet_created, {})"
  unfolding lab_run_def packet_created_def by (rule r_into_rtranclp, rule step_Create)

lemma claimed_steps: "lab_step\<^sup>*\<^sup>* (one_claimed, {}) (both_claimed, {})" "lab_run (one_claimed, {})"
proof -
  show "lab_step\<^sup>*\<^sup>* (one_claimed, {}) (both_claimed, {})" unfolding both_claimed_def by (rule r_into_rtranclp, rule step_Claim)
  show "lab_run (one_claimed, {})"
    using created_run unfolding lab_run_def one_claimed_def by (rule rtranclp.rtrancl_into_rtrancl) (rule step_Claim)
qed

lemma both_run: "lab_run (both_claimed, {})"
  using claimed_steps unfolding lab_run_def by simp

lemma packet_values:
  "\<lparr>pk_id = ''p'', pk_total = 5, pk_shares = 2\<rparr> \<in> set (packets both_claimed)" "credited_sum both_claimed ''p'' = 5"
  "(''p'', ''u'') \<in> credit_key ` set (packet_credits one_claimed)" "(''p'', ''u'') \<in> set (credit_outbox both_claimed)"
  "\<lparr>cr_packet = ''p'', cr_slot = 0, cr_amount = 3, cr_user = ''u''\<rparr> \<in> set (packet_credits one_received)"
  by code_simp+

lemma received_run: "lab_run (one_received, {(''p'', ''u'')})"
proof -
  have "statement quiet_lab AtDelivery both_claimed (receiveCredit ''p'' ''u'' both_claimed) = (None, one_received)"
    by (simp add: statement_def quiet_lab_def one_received_def)
  from step_receive [OF packet_values(4) this, of "{}"] show ?thesis using both_run unfolding lab_run_def by simp
qed

section \<open>Properties\<close>

text \<open>
  C33: The money of a packet is never spent twice. In every run of creations, claims and deliveries,
  whatever statements fail and whatever answers are lost, the credits of a packet are never more
  than its total, a user has at most one of them, each is an equal share up to one minor unit, and
  what was received is never more than what was credited.
\<close>

theorem packets_are_never_overspent:
  assumes "lab_run (db, ready)" and "p \<in> set (packets db)"
  shows "credited_sum db (pk_id p) \<le> pk_total p \<and> received_sum db (pk_id p) \<le> credited_sum db (pk_id p)
    \<and> distinct (map credit_key (packet_credits db)) \<and> distinct (map received_key (received_credits db))
    \<and> (\<forall>c \<in> set (packet_credits db). cr_packet c = pk_id p \<longrightarrow> 0 < cr_amount c \<and> cr_amount c \<in> {pk_total p div pk_shares p, pk_total p div pk_shares p + 1})"
proof -
  have inv: "lab_inv db" "allocated db" "credited db" "delivered db" using lab_run_inv [OF assms(1)] by (auto simp: run_inv_def lab_inv_def)
  have "credited_sum db (pk_id p) \<le> sum_list (map sl_amount (slots_of db (pk_id p)))"
    using credited_sum_slots [OF inv(1)] assms(2) sum_list_filter_le [of "slots_of db (pk_id p)" sl_amount]
      slot_amount(1) [OF inv(2) assms(2)] by (simp add: less_imp_le)
  moreover have "\<forall>c \<in> set (packet_credits db). cr_packet c = pk_id p \<longrightarrow>
      0 < cr_amount c \<and> cr_amount c \<in> {pk_total p div pk_shares p, pk_total p div pk_shares p + 1}"
    unfolding credits_are_claims [OF inv(3)] using slot_amount [OF inv(2) assms(2)] by (simp add: credit_of_slot_def slots_of_def)
  ultimately show ?thesis
    using slots_sum [OF inv(2) assms(2)] received_sum_le [OF inv(1) assms(2)] inv(3,4) unfolding credited_def delivered_def by simp
qed

theorem packets_overspent_witness:
  "credited_sum both_claimed ''p'' = 5 \<and> received_sum both_claimed ''p'' \<le> credited_sum both_claimed ''p''"
  using packets_are_never_overspent [OF both_run packet_values(1)] packet_values(2) by simp

text \<open>
  A claim can be repeated safely. Once a claim has left its credit, also when its answer was
  lost, every later undisturbed claim of the same user returns the same receipt and changes
  nothing, whatever happens in between; an answered receipt is the one that is returned.
\<close>

theorem repeated_claim_returns_the_receipt:
  assumes "lab_run (db, ready)" and "Claim env packet user db = (r, db')" and "(packet, user) \<in> credit_key ` set (packet_credits db')"
    and "lab_step\<^sup>*\<^sup>* (db', ready) (db2, ready2)"
    and "\<And>point. \<not> lv_fails env2 point" and "lv_commit env2 AtReceipt = CommitOk"
    and "user \<noteq> []" and "length user \<le> 128" and "pg_text_ok user" and "pg_text_ok packet"
  shows "\<exists>receipt. Claim env2 packet user db2 = (Inr receipt, db2) \<and> (\<forall>x. r = Inr x \<longrightarrow> x = receipt)"
proof -
  have run': "lab_run (db', ready)" using assms(1) step_claim [OF assms(2), of ready] unfolding lab_run_def by simp
  then have inv': "credited db'" using lab_run_inv by (fastforce simp: run_inv_def lab_inv_def)
  have "lab_run (db2, ready2)" using run' assms(4) unfolding lab_run_def by simp
  then have inv2: "lab_inv db2" using lab_run_inv by (fastforce simp: run_inv_def)
  obtain c where c: "c \<in> set (packet_credits db')" "credit_key c = (packet, user)" using assms(3) by fastforce
  have "c \<in> set (packet_credits db2)" using steps_keep(2) [OF assms(4)] c(1) by auto
  from Claim_again [OF assms(5,6) inv2 this] have again: "Claim env2 packet user db2 = (Inr (receipt_of c), db2)"
    using c(2) assms(7-10) by (simp add: credit_key_def)
  moreover have "x = receipt_of c" if "r = Inr x" for x
  proof -
    obtain d where d: "d \<in> set (packet_credits db')" "x = receipt_of d" "credit_key d = (packet, user)"
      using Claim_receipt assms(2) \<open>r = Inr x\<close> by blast
    then have "d = c" using distinct_key_eq [of credit_key "packet_credits db'" d c] inv' c by (simp add: credited_def)
    then show ?thesis using d(2) by simp
  qed
  ultimately show ?thesis by blast
qed

theorem repeated_claim_witness: "\<exists>receipt. Claim quiet_lab ''p'' ''u'' both_claimed = (Inr receipt, both_claimed)"
proof -
  have "Claim lost_answer ''p'' ''u'' packet_created = (fst (Claim lost_answer ''p'' ''u'' packet_created), one_claimed)" by (simp add: one_claimed_def)
  from repeated_claim_returns_the_receipt [OF created_run this packet_values(3) claimed_steps(1), of quiet_lab]
  show ?thesis by (auto simp: quiet_lab_def pg_text_ok_def)
qed

text \<open>
  A packet is reported exhausted only when all of its money was credited, to others, and the
  report changes nothing.
\<close>

theorem exhausted_means_all_credited:
  assumes "lab_run (db, ready)" and "Claim env packet user db = (Inl ErrExhausted, db')"
  shows "\<exists>p \<in> set (packets db). pk_id p = packet \<and> credited_sum db packet = pk_total p
    \<and> (packet, user) \<notin> credit_key ` set (packet_credits db) \<and> db' = db"
proof -
  have inv: "lab_inv db" using lab_run_inv [OF assms(1)] by (simp add: run_inv_def)
  note exhausted = Claim_exhausted [OF assms(2)]
  obtain p where "p \<in> set (packets db)" "pk_id p = packet" using exhausted(3) by blast
  then show ?thesis using credited_all [OF inv, of p] exhausted by blast
qed

theorem exhausted_witness: "\<exists>p \<in> set (packets both_claimed). pk_id p = ''p'' \<and> credited_sum both_claimed ''p'' = pk_total p"
proof -
  have "Claim quiet_lab ''p'' ''w'' both_claimed = (Inl ErrExhausted, both_claimed)" by code_simp
  from exhausted_means_all_credited [OF both_run this] show ?thesis by blast
qed

text \<open>
  No credit is lost and none is delivered twice: in every run each credit waits in the outbox or
  was received, with its amount and once, as long as deliveries are started for intents of the
  outbox; a delivery that succeeds has its credit received.
\<close>

theorem credits_are_delivered_once:
  assumes "lab_run (db, ready)" and "c \<in> set (packet_credits db)"
  shows "(credit_key c \<in> set (credit_outbox db) \<or> received_row_of c \<in> set (received_credits db))
    \<and> length (filter (\<lambda>r. received_key r = credit_key c) (received_credits db)) \<le> 1
    \<and> (credit_key c \<in> ready \<longrightarrow> received_row_of c \<in> set (received_credits db))"
proof -
  have inv: "credited db" "delivered db" and ready: "ready \<subseteq> received_key ` set (received_credits db)"
    using lab_run_inv [OF assms(1)] by (auto simp: run_inv_def lab_inv_def)
  have row: "received_row_of c \<in> set (received_credits db)" if key: "credit_key c \<in> received_key ` set (received_credits db)"
  proof -
    obtain r where r: "r \<in> set (received_credits db)" "received_key r = credit_key c" using key by force
    then obtain d where d: "d \<in> set (packet_credits db)" "r = received_row_of d" using inv(2) unfolding delivered_def by blast
    then have "credit_key d = credit_key c" using r(2) by (simp add: received_key_def received_row_of_def credit_key_def)
    then have "d = c" using distinct_key_eq [of credit_key "packet_credits db" d c] inv(1) d(1) assms(2) by (simp add: credited_def)
    then show ?thesis using r(1) d(2) by simp
  qed
  have "distinct (map received_key (received_credits db))" using inv(2) by (simp add: delivered_def)
  then have "length (filter (\<lambda>r. received_key r = credit_key c) (received_credits db)) \<le> 1"
    by (rule filter_key_at_most_one)
  moreover have "credit_key c \<in> set (credit_outbox db) \<or> credit_key c \<in> received_key ` set (received_credits db)"
    using inv(2) assms(2) unfolding delivered_def by blast
  ultimately show ?thesis using row ready by blast
qed

theorem credits_delivered_witness:
  "received_row_of \<lparr>cr_packet = ''p'', cr_slot = 0, cr_amount = 3, cr_user = ''u''\<rparr> \<in> set (received_credits one_received)"
  using credits_are_delivered_once [OF received_run packet_values(5)] by (simp add: credit_key_def)

text \<open>
  A delivery that is called before its claim has committed acknowledges an intent it did not
  deliver: the first statement finds nothing, the claim commits, the second statement deletes the
  intent, and the credit is never received. Nothing looks at the number of rows inserted.
\<close>

theorem early_delivery_loses_the_credit:
  "Deliver quiet_lab (\<lambda>db. snd (Claim quiet_lab ''p'' ''u'' db)) ''p'' ''u'' packet_created =
     (None, packet_created\<lparr>packet_slots := packet_slots one_claimed, packet_credits := packet_credits one_claimed\<rparr>)"
  by code_simp

end
