(* ===== verification/Fence.thy ===== *)
theory Fence
  imports Database
begin

text \<open>
  The fencing tokens of \<^verbatim>\<open>internal/reliabilitylab/fence.go\<close>. A lease row is never deleted. A write locks
  the lease row that an acquisition updates, so each is one step. The clock is read where the
  statement reads it and may show anything.
\<close>

record fence_db =
  resource_leases :: "string \<Rightarrow> (int \<times> timestamp) option"
  resources :: "string \<Rightarrow> (string \<times> int) option"

datatype fence_error = LeaseNotPositive | LeaseHeld | ErrStaleOwner | FenceFailed

datatype fence_point = AtLeaseStatement | AtFenceBegin | AtLeaseRow | AtResource | AtFenceCommit

text \<open>\<open>fe_expiry\<close> is the clock in the new expiry, \<open>fe_now\<close> the clock in the condition.\<close>

record fence_env =
  fe_fails :: "fence_point \<Rightarrow> bool"
  fe_commit :: commit_outcome
  fe_expiry :: timestamp
  fe_now :: timestamp

definition Milliseconds :: "int \<Rightarrow> int" where
  "Milliseconds duration = go_div duration 1000000"

definition fenceCommit :: "fence_env \<Rightarrow> 'a \<Rightarrow> fence_db \<Rightarrow> fence_db \<Rightarrow> (fence_error + 'a) \<times> fence_db" where
  "fenceCommit env result old new =
     (case fe_commit env of
        CommitOk \<Rightarrow> (Inr result, new)
      | CommitLostApplied \<Rightarrow> (Inl FenceFailed, new)
      | CommitLostNotApplied \<Rightarrow> (Inl FenceFailed, old))"

definition AcquireFence :: "fence_env \<Rightarrow> string \<Rightarrow> int \<Rightarrow> fence_db \<Rightarrow> (fence_error + int) \<times> fence_db" where
  "AcquireFence env name lease db =
     (if lease \<le> 0 then (Inl LeaseNotPositive, db)
      else if fe_fails env AtLeaseStatement \<or> \<not> pg_text_ok name then (Inl FenceFailed, db)
      else let until = fe_expiry env + Milliseconds lease * 1000
           in case resource_leases db name of
                None \<Rightarrow> fenceCommit env 1 db (db\<lparr>resource_leases := (resource_leases db)(name \<mapsto> (1, until))\<rparr>)
              | Some (token, held) \<Rightarrow>
                  if held \<le> fe_now env
                  then if fits_int64 (token + 1)
                       then fenceCommit env (token + 1) db (db\<lparr>resource_leases := (resource_leases db)(name \<mapsto> (token + 1, until))\<rparr>)
                       else (Inl FenceFailed, db)
                  else (Inl LeaseHeld, db))"

definition WriteFenced :: "fence_env \<Rightarrow> string \<Rightarrow> int \<Rightarrow> string \<Rightarrow> fence_db \<Rightarrow> (fence_error + unit) \<times> fence_db" where
  "WriteFenced env name token value db =
     (if fe_fails env AtFenceBegin then (Inl FenceFailed, db)
      else if fe_fails env AtLeaseRow \<or> \<not> pg_text_ok name then (Inl FenceFailed, db)
      else case resource_leases db name of
        None \<Rightarrow> (Inl ErrStaleOwner, db)
      | Some (current, held) \<Rightarrow>
        if current \<noteq> token then (Inl ErrStaleOwner, db)
        else if fe_fails env AtResource \<or> \<not> pg_text_ok value then (Inl FenceFailed, db)
        else (case resources db name of
                None \<Rightarrow> (Inl ErrStaleOwner, db)
              | Some (old, used) \<Rightarrow>
                if used \<le> token \<and> fe_now env < held
                then fenceCommit env () db (db\<lparr>resources := (resources db)(name \<mapsto> (value, token))\<rparr>)
                else (Inl ErrStaleOwner, db)))"

section \<open>Runs\<close>

inductive fence_step :: "fence_db \<Rightarrow> fence_db \<Rightarrow> bool" where
  step_acquire: "AcquireFence env name lease db = (r, db') \<Longrightarrow> fence_step db db'"
| step_write: "WriteFenced env name token value db = (r, db') \<Longrightarrow> fence_step db db'"

definition current_token :: "fence_db \<Rightarrow> string \<Rightarrow> int" where
  "current_token db name = (case resource_leases db name of None \<Rightarrow> 0 | Some (token, held) \<Rightarrow> token)"

definition last_token :: "fence_db \<Rightarrow> string \<Rightarrow> int" where
  "last_token db name = (case resources db name of None \<Rightarrow> 0 | Some (old, used) \<Rightarrow> used)"

text \<open>The token last used for a write is never ahead of the lease.\<close>

definition fence_inv :: "fence_db \<Rightarrow> bool" where
  "fence_inv db \<longleftrightarrow> (\<forall>name. 0 \<le> current_token db name \<and> last_token db name \<le> current_token db name)"

lemma fenceCommit_cases: "fenceCommit env x old new = (r, db) \<Longrightarrow> db = old \<and> r = Inl FenceFailed \<or> db = new \<and> (r = Inr x \<or> r = Inl FenceFailed)"
  by (auto simp: fenceCommit_def split: commit_outcome.splits)

lemma AcquireFence_cases:
  assumes "AcquireFence env name lease db = (r, db')"
  obtains err where "r = Inl err" "db' = db"
  | until where "db' = db\<lparr>resource_leases := (resource_leases db)(name \<mapsto> (current_token db name + 1, until))\<rparr>"
      "r = Inr (current_token db name + 1) \<or> r = Inl FenceFailed" "0 < lease"
      "\<forall>token held. resource_leases db name = Some (token, held) \<longrightarrow> held \<le> fe_now env"
  using assms unfolding AcquireFence_def current_token_def
  by (auto simp: Let_def split: if_splits option.splits prod.splits dest!: fenceCommit_cases)

lemma WriteFenced_cases:
  assumes "WriteFenced env name token value db = (r, db')"
  obtains err where "r = Inl err" "db' = db"
  | held where "db' = db\<lparr>resources := (resources db)(name \<mapsto> (value, token))\<rparr>" "r = Inr () \<or> r = Inl FenceFailed"
      "resource_leases db name = Some (token, held)" "fe_now env < held" "last_token db name \<le> token"
  using assms unfolding WriteFenced_def last_token_def
  by (auto split: if_splits option.splits prod.splits dest!: fenceCommit_cases)

lemma acquire_token: "current_token (db\<lparr>resource_leases := (resource_leases db)(name \<mapsto> (token, until))\<rparr>) other =
    (if other = name then token else current_token db other)"
  by (simp add: current_token_def)

lemma write_token: "current_token (db\<lparr>resources := rs\<rparr>) other = current_token db other"
  by (simp add: current_token_def)

lemma acquire_last: "last_token (db\<lparr>resource_leases := ls\<rparr>) other = last_token db other"
  by (simp add: last_token_def)

lemma write_last: "last_token (db\<lparr>resources := (resources db)(name \<mapsto> (v, token))\<rparr>) other = (if other = name then token else last_token db other)"
  by (simp add: last_token_def)

lemma step_token_mono:
  assumes "fence_step db db'"
  shows "current_token db name \<le> current_token db' name"
  using assms
proof (cases rule: fence_step.cases)
  case (step_acquire env other lease r)
  then show ?thesis by (auto simp: acquire_token elim!: AcquireFence_cases)
next
  case (step_write env other token new r)
  then show ?thesis by (auto simp: write_token elim!: WriteFenced_cases)
qed

lemma steps_token_mono: "fence_step\<^sup>*\<^sup>* db db' \<Longrightarrow> current_token db name \<le> current_token db' name"
  by (induction rule: rtranclp_induct) (use step_token_mono order_trans in blast)+

lemma step_fence_inv:
  assumes "fence_step db db'" and "fence_inv db"
  shows "fence_inv db'"
  using assms(1)
proof (cases rule: fence_step.cases)
  case (step_acquire env name lease r)
  then show ?thesis
  proof (cases rule: AcquireFence_cases)
    case (2 until)
    then show ?thesis using assms(2) unfolding fence_inv_def 2(1) acquire_token acquire_last by (simp add: le_SucI add_increasing2)
  qed (use assms(2) in simp)
next
  case (step_write env name token new r)
  then show ?thesis
  proof (cases rule: WriteFenced_cases)
    case (2 held)
    then have "current_token db name = token" by (simp add: current_token_def)
    then show ?thesis using assms(2) unfolding fence_inv_def 2(1) write_token write_last by simp
  qed (use assms(2) in simp)
qed

lemma acquired_token:
  assumes "AcquireFence env name lease db = (Inr token, db')"
  shows "token = current_token db name + 1" and "current_token db' name = token"
  using assms by (auto simp: acquire_token elim!: AcquireFence_cases)

lemma write_needs_the_current_token:
  assumes "token \<noteq> current_token db name"
  shows "\<exists>err. WriteFenced env name token value db = (Inl err, db)"
  using assms by (auto simp: WriteFenced_def current_token_def split: option.splits)

lemma holder_can_write:
  assumes "fence_inv db" and "resource_leases db name = Some (token, held)" and "fe_now env < held" and "resources db name = Some (old, used)"
    and "\<And>point. \<not> fe_fails env point" and "fe_commit env = CommitOk" and "pg_text_ok name" and "pg_text_ok new"
  shows "WriteFenced env name token new db = (Inr (), db\<lparr>resources := (resources db)(name \<mapsto> (new, token))\<rparr>)"
proof -
  have "used \<le> token" using assms(1,2,4) unfolding fence_inv_def last_token_def current_token_def
    by (metis (no_types, lifting) case_prod_conv option.case(2))
  then show ?thesis using assms by (simp add: WriteFenced_def fenceCommit_def)
qed

definition fence_start :: "fence_db \<Rightarrow> bool" where
  "fence_start db \<longleftrightarrow> (\<forall>name. resource_leases db name = None) \<and> (\<forall>name. last_token db name = 0)"

lemma fence_reachable_inv:
  assumes "fence_start db0" and "fence_step\<^sup>*\<^sup>* db0 db"
  shows "fence_inv db"
  using assms(2)
proof (induction rule: rtranclp_induct)
  case base
  show ?case using assms(1) by (simp add: fence_inv_def fence_start_def current_token_def)
qed (use step_fence_inv in blast)

definition fence_calm :: "int \<Rightarrow> fence_env" where
  "fence_calm now = \<lparr>fe_fails = (\<lambda>point. False), fe_commit = CommitOk, fe_expiry = now, fe_now = now\<rparr>"

definition one_resource :: fence_db where
  "one_resource = \<lparr>resource_leases = Map.empty, resources = [''r'' \<mapsto> (''a'', 0)]\<rparr>"

definition first_lease :: fence_db where
  "first_lease = snd (AcquireFence (fence_calm 0) ''r'' 1000000 one_resource)"

section \<open>Properties\<close>

text \<open>
  C37: A superseded owner cannot write. Once a token was granted for a resource, in every later
  state every write with an older token is refused and changes nothing, whatever the clock shows
  and however long the write was delayed, and every token granted from then on is larger.
\<close>

theorem superseded_owner_cannot_write:
  assumes "AcquireFence env name lease db = (Inr token, db')" and "fence_step\<^sup>*\<^sup>* db' later"
  shows "(\<forall>old env2 new. old < token \<longrightarrow> (\<exists>err. WriteFenced env2 name old new later = (Inl err, later)))
    \<and> (\<forall>env3 lease3 next. fst (AcquireFence env3 name lease3 later) = Inr next \<longrightarrow> token < next)"
proof -
  have now: "token \<le> current_token later name" using acquired_token(2) [OF assms(1)] steps_token_mono [OF assms(2)] by metis
  have "\<exists>err. WriteFenced env2 name old new later = (Inl err, later)" if "old < token" for old env2 new
    by (rule write_needs_the_current_token) (use that now in simp)
  moreover have "token < next" if "fst (AcquireFence env3 name lease3 later) = Inr next" for env3 lease3 and "next"
    using acquired_token(1) [of env3 name lease3 later "next" "snd (AcquireFence env3 name lease3 later)"] that now by (simp add: prod_eq_iff)
  ultimately show ?thesis by blast
qed

theorem superseded_owner_witness:
  "\<exists>err. WriteFenced (fence_calm 5) ''r'' 1 ''x'' (snd (AcquireFence (fence_calm 2000) ''r'' 1000000 first_lease))
     = (Inl err, snd (AcquireFence (fence_calm 2000) ''r'' 1000000 first_lease))"
proof -
  have "AcquireFence (fence_calm 2000) ''r'' 1000000 first_lease = (Inr 2, snd (AcquireFence (fence_calm 2000) ''r'' 1000000 first_lease))"
    by (simp add: first_lease_def AcquireFence_def fence_calm_def one_resource_def fenceCommit_def Milliseconds_def go_div_def pg_text_ok_def fits_int64_iff)
  from superseded_owner_cannot_write [OF this rtranclp.rtrancl_refl] show ?thesis by simp
qed

text \<open>
  The holder writes, and only the holder. In every reachable state a write that is accepted was
  made with the current token while the lease had not run out, and it changed its resource and
  nothing else; and the holder of a lease that has not run out can write to an existing resource.
\<close>

theorem holder_and_only_the_holder_writes:
  assumes "fence_start db0" and "fence_step\<^sup>*\<^sup>* db0 db" and "\<And>point. \<not> fe_fails env point" and "fe_commit env = CommitOk"
    and "pg_text_ok name" and "pg_text_ok new"
  shows "WriteFenced env name token new db = (Inr (), db') \<longleftrightarrow>
    (\<exists>held. resource_leases db name = Some (token, held) \<and> fe_now env < held) \<and> resources db name \<noteq> None
    \<and> db' = db\<lparr>resources := (resources db)(name \<mapsto> (new, token))\<rparr>"
proof
  assume "WriteFenced env name token new db = (Inr (), db')"
  then show "(\<exists>held. resource_leases db name = Some (token, held) \<and> fe_now env < held) \<and> resources db name \<noteq> None
      \<and> db' = db\<lparr>resources := (resources db)(name \<mapsto> (new, token))\<rparr>"
    using assms(3,4) unfolding WriteFenced_def by (auto simp: fenceCommit_def split: if_splits option.splits prod.splits)
next
  assume "(\<exists>held. resource_leases db name = Some (token, held) \<and> fe_now env < held) \<and> resources db name \<noteq> None
      \<and> db' = db\<lparr>resources := (resources db)(name \<mapsto> (new, token))\<rparr>"
  then show "WriteFenced env name token new db = (Inr (), db')"
    using holder_can_write [OF fence_reachable_inv [OF assms(1,2)] _ _ _ assms(3-6)] by auto
qed

theorem holder_writes_witness:
  "fst (WriteFenced (fence_calm 500) ''r'' 1 ''x'' first_lease) = Inr ()"
proof -
  have start: "fence_start one_resource" by (simp add: fence_start_def last_token_def one_resource_def)
  have "fence_step one_resource first_lease" unfolding first_lease_def by (rule step_acquire [OF surjective_pairing])
  then have run: "fence_step\<^sup>*\<^sup>* one_resource first_lease" by blast
  have lease: "resource_leases first_lease ''r'' = Some (1, 1000)" "resources first_lease ''r'' = Some (''a'', 0)"
    by (simp_all add: first_lease_def AcquireFence_def fence_calm_def one_resource_def fenceCommit_def Milliseconds_def go_div_def pg_text_ok_def)
  show ?thesis
    using holder_and_only_the_holder_writes [OF start run, of "fence_calm 500" "''r''" "''x''" 1
        "first_lease\<lparr>resources := (resources first_lease)(''r'' \<mapsto> (''x'', 1))\<rparr>"] lease
    by (simp add: fence_calm_def pg_text_ok_def)
qed

text \<open>
  A lease shorter than a millisecond passes the guard but is stored as no time at all: its token is
  granted and can never be used.
\<close>

theorem sub_millisecond_lease_is_useless:
  assumes "AcquireFence env name lease db = (Inr token, db')" and "lease < 1000000" and "fe_expiry env \<le> fe_now env2"
  shows "\<exists>err. WriteFenced env2 name token new db' = (Inl err, db')"
proof -
  have "0 < lease" using assms(1) by (auto simp: AcquireFence_def split: if_splits)
  then have "Milliseconds lease = 0" using assms(2) by (simp add: Milliseconds_def go_div_def)
  then have "resource_leases db' name = Some (token, fe_expiry env)"
    using assms(1) unfolding AcquireFence_def by (auto simp: fenceCommit_def Let_def split: if_splits option.splits prod.splits commit_outcome.splits)
  then show ?thesis using assms(3) by (auto simp: WriteFenced_def split: option.splits)
qed

end
