(* ===== verification/LabCache.thy ===== *)
theory LabCache
  imports Database
begin

text \<open>
  The read-through cache of \<^verbatim>\<open>internal/reliabilitylab/cache.go\<close>: a value and its version in PostgreSQL, a
  copy with an expiry in Redis and an intent to invalidate that is written with every update. A
  read and an invalidation are not atomic; each is also taken apart into its steps, which
  interleave with everything else.
\<close>

record cache_state =
  cache_values :: "string \<Rightarrow> (string \<times> int) option"
  cache_invalidations :: "string \<Rightarrow> int option"
  cached :: "string \<Rightarrow> (string \<times> timestamp) option"

datatype cache_error = CacheNoRows | CacheFailed

datatype cache_point = AtGet | AtSelectValue | AtSet | AtUpdateValue | AtSelectIntent | AtDel | AtAckIntent

text \<open>A call that fails may have had its effect.\<close>

record cache_env =
  ce_outcome :: "cache_point \<Rightarrow> commit_outcome"
  ce_now :: timestamp
  ce_TTL :: int

abbreviation answered_at :: "cache_env \<Rightarrow> cache_point \<Rightarrow> bool" where
  "answered_at env point \<equiv> ce_outcome env point = CommitOk"

definition applied_at :: "cache_env \<Rightarrow> cache_point \<Rightarrow> bool" where
  "applied_at env point \<longleftrightarrow> ce_outcome env point \<noteq> CommitLostNotApplied"

definition redisGet :: "timestamp \<Rightarrow> string \<Rightarrow> cache_state \<Rightarrow> string option" where
  "redisGet now key st =
     (case cached st key of None \<Rightarrow> None | Some (value, expiry) \<Rightarrow> if now < expiry then Some value else None)"

definition redisSet :: "timestamp \<Rightarrow> string \<Rightarrow> string \<Rightarrow> cache_state \<Rightarrow> cache_state" where
  "redisSet expiry key value st = st\<lparr>cached := (cached st)(key \<mapsto> (value, expiry))\<rparr>"

definition redisDel :: "string \<Rightarrow> cache_state \<Rightarrow> cache_state" where
  "redisDel key st = st\<lparr>cached := (cached st)(key := None)\<rparr>"

definition Read :: "cache_env \<Rightarrow> (cache_state \<Rightarrow> cache_state) \<Rightarrow> string \<Rightarrow> cache_state \<Rightarrow> (cache_error + string) \<times> cache_state" where
  "Read env others key st =
     (case (if answered_at env AtGet then redisGet (ce_now env) key st else None) of
        Some value \<Rightarrow> (Inr value, st)
      | None \<Rightarrow>
        if \<not> answered_at env AtSelectValue then (Inl CacheFailed, st)
        else (case cache_values st key of
                None \<Rightarrow> (Inl CacheNoRows, st)
              | Some (value, version) \<Rightarrow>
                (Inr value, if 0 < ce_TTL env \<and> applied_at env AtSet then redisSet (ce_now env + ce_TTL env) key value (others st) else others st)))"

definition updateRows :: "string \<Rightarrow> string \<Rightarrow> cache_state \<Rightarrow> cache_state" where
  "updateRows key value st =
     (let version = (case cache_values st key of None \<Rightarrow> 1 | Some (old, v) \<Rightarrow> v + 1)
      in st\<lparr>cache_values := (cache_values st)(key \<mapsto> (value, version)), cache_invalidations := (cache_invalidations st)(key \<mapsto> version)\<rparr>)"

definition UpdateValue :: "cache_env \<Rightarrow> string \<Rightarrow> string \<Rightarrow> cache_state \<Rightarrow> cache_error option \<times> cache_state" where
  "UpdateValue env key value st =
     (if answered_at env AtUpdateValue then None else Some CacheFailed, if applied_at env AtUpdateValue then updateRows key value st else st)"

definition ackIntent :: "string \<Rightarrow> int \<Rightarrow> cache_state \<Rightarrow> cache_state" where
  "ackIntent key version st =
     (if cache_invalidations st key = Some version then st\<lparr>cache_invalidations := (cache_invalidations st)(key := None)\<rparr> else st)"

text \<open>\<open>before\<close> and \<open>after\<close> are what others do before and after the deletion in Redis.\<close>

definition Invalidate ::
  "cache_env \<Rightarrow> (cache_state \<Rightarrow> cache_state) \<Rightarrow> (cache_state \<Rightarrow> cache_state) \<Rightarrow> string \<Rightarrow> cache_state \<Rightarrow> cache_error option \<times> cache_state" where
  "Invalidate env before after key st =
     (if \<not> answered_at env AtSelectIntent then (Some CacheFailed, st)
      else case cache_invalidations st key of
        None \<Rightarrow> (Some CacheNoRows, st)
      | Some version \<Rightarrow>
        (let st1 = (if applied_at env AtDel then redisDel key (before st) else before st)
         in if \<not> answered_at env AtDel then (Some CacheFailed, st1)
            else let st2 = after st1
                 in (if answered_at env AtAckIntent then None else Some CacheFailed,
                     if applied_at env AtAckIntent then ackIntent key version st2 else st2)))"

section \<open>Interleaved steps\<close>

text \<open>
  Beside the state: the clock, the values loaded by reads, the intents seen and the keys deleted by
  invalidations under way, and the keys whose copy was last filled with a value that was no longer
  current. What was loaded or seen once may be used at any later time.
\<close>

record cache_world =
  cw_state :: cache_state
  cw_clock :: timestamp
  cw_loaded :: "(string \<times> string) set"
  cw_seen :: "(string \<times> int) set"
  cw_deleted :: "(string \<times> int) set"
  cw_late :: "string set"

definition current_value :: "cache_state \<Rightarrow> string \<Rightarrow> string option" where
  "current_value st key = map_option fst (cache_values st key)"

inductive cache_step :: "int \<Rightarrow> cache_world \<Rightarrow> cache_world \<Rightarrow> bool" for TTL where
  world_time: "cw_clock w \<le> now \<Longrightarrow> cache_step TTL w (w\<lparr>cw_clock := now\<rparr>)"
| world_load: "current_value (cw_state w) key = Some v \<Longrightarrow> cache_step TTL w (w\<lparr>cw_loaded := insert (key, v) (cw_loaded w)\<rparr>)"
| world_fill: "(key, v) \<in> cw_loaded w \<Longrightarrow> 0 < TTL \<Longrightarrow>
    cache_step TTL w (w\<lparr>cw_state := redisSet (cw_clock w + TTL) key v (cw_state w),
      cw_late := (if current_value (cw_state w) key = Some v then cw_late w - {key} else insert key (cw_late w))\<rparr>)"
| world_update: "cache_step TTL w (w\<lparr>cw_state := updateRows key v (cw_state w)\<rparr>)"
| world_see: "cache_invalidations (cw_state w) key = Some n \<Longrightarrow> cache_step TTL w (w\<lparr>cw_seen := insert (key, n) (cw_seen w)\<rparr>)"
| world_delete: "(key, n) \<in> cw_seen w \<Longrightarrow>
    cache_step TTL w (w\<lparr>cw_state := redisDel key (cw_state w), cw_deleted := insert (key, n) (cw_deleted w), cw_late := cw_late w - {key}\<rparr>)"
| world_acknowledge: "(key, n) \<in> cw_deleted w \<Longrightarrow> cache_step TTL w (w\<lparr>cw_state := ackIntent key n (cw_state w)\<rparr>)"
| world_evict: "cache_step TTL w (w\<lparr>cw_state := redisDel key (cw_state w), cw_late := cw_late w - {key}\<rparr>)"

definition cache_version :: "cache_state \<Rightarrow> string \<Rightarrow> int" where
  "cache_version st key = (case cache_values st key of None \<Rightarrow> 0 | Some (v, n) \<Rightarrow> n)"

definition stale :: "cache_state \<Rightarrow> string \<Rightarrow> bool" where
  "stale st key \<longleftrightarrow> (\<exists>v expiry. cached st key = Some (v, expiry) \<and> current_value st key \<noteq> Some v)"

text \<open>Versions that are pending, seen or deleted are never ahead of the value's.\<close>

definition versions_inv :: "cache_world \<Rightarrow> bool" where
  "versions_inv w \<longleftrightarrow> (\<forall>key n. cache_invalidations (cw_state w) key = Some n \<longrightarrow> n \<le> cache_version (cw_state w) key)
     \<and> (\<forall>key n. (key, n) \<in> cw_seen w \<union> cw_deleted w \<longrightarrow> n \<le> cache_version (cw_state w) key)"

definition expiry_inv :: "int \<Rightarrow> cache_world \<Rightarrow> bool" where
  "expiry_inv TTL w \<longleftrightarrow> (\<forall>key v expiry. cached (cw_state w) key = Some (v, expiry) \<longrightarrow> expiry \<le> cw_clock w + TTL)"

text \<open>
  A stale copy is still to be deleted or was filled late; and once the deletion for the pending
  version was made, only a late fill makes the copy stale.
\<close>

definition stale_inv :: "cache_world \<Rightarrow> bool" where
  "stale_inv w \<longleftrightarrow> (\<forall>key. stale (cw_state w) key \<and> key \<notin> cw_late w \<longrightarrow>
     (\<exists>n. cache_invalidations (cw_state w) key = Some n \<and> (key, n) \<notin> cw_deleted w))"

lemma redis_fields [simp]:
  "current_value (redisSet e k v st) key = current_value st key" "cache_version (redisSet e k v st) key = cache_version st key"
  "cache_invalidations (redisSet e k v st) = cache_invalidations st" "cached (redisSet e k v st) = (cached st)(k \<mapsto> (v, e))"
  "current_value (redisDel k st) key = current_value st key" "cache_version (redisDel k st) key = cache_version st key"
  "cache_invalidations (redisDel k st) = cache_invalidations st" "cached (redisDel k st) = (cached st)(k := None)"
  by (simp_all add: redisSet_def redisDel_def current_value_def cache_version_def)

lemma update_fields [simp]:
  "current_value (updateRows k v st) key = (if key = k then Some v else current_value st key)"
  "cache_version (updateRows k v st) key = (if key = k then cache_version st k + 1 else cache_version st key)"
  "cache_invalidations (updateRows k v st) key = (if key = k then Some (cache_version st k + 1) else cache_invalidations st key)"
  "cached (updateRows k v st) = cached st"
  by (auto simp: updateRows_def current_value_def cache_version_def Let_def split: option.splits)

lemma ack_fields [simp]:
  "current_value (ackIntent k n st) key = current_value st key" "cache_version (ackIntent k n st) key = cache_version st key"
  "cached (ackIntent k n st) = cached st"
  "cache_invalidations (ackIntent k n st) key = (if key = k \<and> cache_invalidations st k = Some n then None else cache_invalidations st key)"
  by (auto simp: ackIntent_def current_value_def cache_version_def)

lemma stale_fields:
  "stale (redisSet e k v st) key \<longleftrightarrow> (if key = k then current_value st k \<noteq> Some v else stale st key)"
  "stale (redisDel k st) key \<longleftrightarrow> key \<noteq> k \<and> stale st key"
  "stale (ackIntent k n st) key \<longleftrightarrow> stale st key"
  "key \<noteq> k \<Longrightarrow> stale (updateRows k v st) key \<longleftrightarrow> stale st key"
  by (auto simp: stale_def)

lemma versions_step: "cache_step TTL w w' \<Longrightarrow> versions_inv w \<Longrightarrow> versions_inv w'"
  by (induction rule: cache_step.induct) (force simp: versions_inv_def)+

lemma expiry_step: "cache_step TTL w w' \<Longrightarrow> expiry_inv TTL w \<Longrightarrow> expiry_inv TTL w'"
  by (induction rule: cache_step.induct) (force simp: expiry_inv_def)+

lemma stale_step:
  assumes "cache_step TTL w w'" and "versions_inv w" and "stale_inv w"
  shows "stale_inv w'"
  using assms
proof (induction rule: cache_step.induct)
  case (world_update w k v)
  show ?case unfolding stale_inv_def
  proof (intro allI impI)
    fix key
    assume stale: "stale (cw_state (w\<lparr>cw_state := updateRows k v (cw_state w)\<rparr>)) key \<and> key \<notin> cw_late (w\<lparr>cw_state := updateRows k v (cw_state w)\<rparr>)"
    show "\<exists>n. cache_invalidations (cw_state (w\<lparr>cw_state := updateRows k v (cw_state w)\<rparr>)) key = Some n \<and>
        (key, n) \<notin> cw_deleted (w\<lparr>cw_state := updateRows k v (cw_state w)\<rparr>)"
    proof (cases "key = k")
      case True
      have "(k, cache_version (cw_state w) k + 1) \<notin> cw_deleted w"
        using world_update.prems(1) unfolding versions_inv_def by fastforce
      then show ?thesis using True by simp
    next
      case False
      then show ?thesis using world_update.prems(2) stale unfolding stale_inv_def by (simp add: stale_fields)
    qed
  qed
next
  case (world_acknowledge key n w)
  then show ?case unfolding stale_inv_def by (auto simp: stale_fields)
qed (auto simp: stale_inv_def stale_fields)

definition cold_world :: "(string \<Rightarrow> (string \<times> int) option) \<Rightarrow> cache_world" where
  "cold_world values = \<lparr>cw_state = \<lparr>cache_values = values, cache_invalidations = Map.empty, cached = Map.empty\<rparr>, cw_clock = 0,
     cw_loaded = {}, cw_seen = {}, cw_deleted = {}, cw_late = {}\<rparr>"

lemma cache_run_inv:
  assumes "(cache_step TTL)\<^sup>*\<^sup>* (cold_world values) w"
  shows "versions_inv w" and "expiry_inv TTL w" and "stale_inv w"
proof -
  have "versions_inv w \<and> expiry_inv TTL w \<and> stale_inv w"
    using assms
  proof (induction rule: rtranclp_induct)
    case base
    show ?case by (simp add: cold_world_def versions_inv_def expiry_inv_def stale_inv_def stale_def)
  next
    case (step v w)
    then show ?case using versions_step expiry_step stale_step by blast
  qed
  then show "versions_inv w" and "expiry_inv TTL w" and "stale_inv w" by blast+
qed

definition cache_calm :: "timestamp \<Rightarrow> int \<Rightarrow> cache_env" where
  "cache_calm now TTL = \<lparr>ce_outcome = (\<lambda>point. CommitOk), ce_now = now, ce_TTL = TTL\<rparr>"

lemma Read_current:
  assumes "current_value st key = Some v" and "redisGet now key st = None \<or> redisGet now key st = Some v"
    and "\<And>point. answered_at env point" and "ce_now env = now"
  shows "fst (Read env others key st) = Inr v"
  using assms by (auto simp: Read_def current_value_def)

section \<open>The operations are runs of the steps\<close>

lemma UpdateValue_run:
  assumes "UpdateValue env key v (cw_state w) = (e, st')"
  shows "\<exists>w'. (cache_step TTL)\<^sup>*\<^sup>* w w' \<and> cw_state w' = st'"
proof (cases "applied_at env AtUpdateValue")
  case True
  have "(cache_step TTL)\<^sup>*\<^sup>* w (w\<lparr>cw_state := updateRows key v (cw_state w)\<rparr>)" by (rule r_into_rtranclp, rule world_update)
  moreover have "st' = cw_state (w\<lparr>cw_state := updateRows key v (cw_state w)\<rparr>)" using True assms by (auto simp: UpdateValue_def)
  ultimately show ?thesis by blast
next
  case False
  then show ?thesis using assms by (auto simp: UpdateValue_def)
qed

lemma Read_run:
  assumes "Read env id key (cw_state w) = (r, st')" and "ce_now env = cw_clock w" and "ce_TTL env = TTL"
  shows "\<exists>w'. (cache_step TTL)\<^sup>*\<^sup>* w w' \<and> cw_state w' = st'"
proof (cases "st' = cw_state w")
  case False
  then obtain v where v: "current_value (cw_state w) key = Some v" "0 < TTL" and st': "st' = redisSet (cw_clock w + TTL) key v (cw_state w)"
    using assms by (auto simp: Read_def current_value_def split: option.splits if_splits)
  define w1 where "w1 = w\<lparr>cw_loaded := insert (key, v) (cw_loaded w)\<rparr>"
  define w2 where "w2 = w1\<lparr>cw_state := redisSet (cw_clock w1 + TTL) key v (cw_state w1),
      cw_late := (if current_value (cw_state w1) key = Some v then cw_late w1 - {key} else insert key (cw_late w1))\<rparr>"
  have "cache_step TTL w w1" unfolding w1_def by (rule world_load [OF v(1)])
  moreover have "cache_step TTL w1 w2" unfolding w2_def by (rule world_fill) (use v(2) in \<open>simp_all add: w1_def\<close>)
  ultimately have "(cache_step TTL)\<^sup>*\<^sup>* w w2" by (meson rtranclp.rtrancl_into_rtrancl rtranclp.rtrancl_refl)
  moreover have "cw_state w2 = st'" by (simp add: w2_def w1_def st')
  ultimately show ?thesis by blast
qed blast

lemma Invalidate_run:
  assumes "Invalidate env id id key (cw_state w) = (e, st')"
  shows "\<exists>w'. (cache_step TTL)\<^sup>*\<^sup>* w w' \<and> cw_state w' = st'"
proof (cases "st' = cw_state w")
  case False
  then obtain n where n: "cache_invalidations (cw_state w) key = Some n" and del: "applied_at env AtDel"
      and st': "st' = redisDel key (cw_state w) \<or> st' = ackIntent key n (redisDel key (cw_state w))"
    using assms by (auto simp: Invalidate_def applied_at_def Let_def split: option.splits if_splits)
  define w1 where "w1 = w\<lparr>cw_seen := insert (key, n) (cw_seen w)\<rparr>"
  define w2 where "w2 = w1\<lparr>cw_state := redisDel key (cw_state w1), cw_deleted := insert (key, n) (cw_deleted w1), cw_late := cw_late w1 - {key}\<rparr>"
  define w3 where "w3 = w2\<lparr>cw_state := ackIntent key n (cw_state w2)\<rparr>"
  have "cache_step TTL w w1" unfolding w1_def by (rule world_see [OF n])
  moreover have "cache_step TTL w1 w2" unfolding w2_def by (rule world_delete) (simp add: w1_def)
  ultimately have run: "(cache_step TTL)\<^sup>*\<^sup>* w w2" by (meson rtranclp.rtrancl_into_rtrancl rtranclp.rtrancl_refl)
  moreover have "cache_step TTL w2 w3" unfolding w3_def by (rule world_acknowledge) (simp add: w2_def)
  ultimately have "(cache_step TTL)\<^sup>*\<^sup>* w w3" by (rule rtranclp.rtrancl_into_rtrancl)
  moreover have "cw_state w2 = redisDel key (cw_state w)" "cw_state w3 = ackIntent key n (redisDel key (cw_state w))"
    by (simp_all add: w3_def w2_def w1_def)
  ultimately show ?thesis using run st' by metis
qed blast

section \<open>Properties\<close>

text \<open>
  The cache converges. In every interleaving of reads, updates, invalidations that stop anywhere
  and are repeated, and evictions, a read returns the current value of a key as soon as no
  invalidation of it is pending, unless a value loaded before an update was filled in after the
  deletion; and such a late copy is gone when the time to live has passed since it was filled.
\<close>

theorem cache_converges:
  assumes "(cache_step TTL)\<^sup>*\<^sup>* (cold_world values) w" and "current_value (cw_state w) key = Some v"
    and "cache_invalidations (cw_state w) key = None \<and> key \<notin> cw_late w \<or> cw_clock w + TTL \<le> now"
    and "\<And>point. answered_at env point" and "ce_now env = now"
  shows "fst (Read env others key (cw_state w)) = Inr v"
proof (rule Read_current [OF assms(2) _ assms(4,5)])
  note inv = cache_run_inv [OF assms(1)]
  show "redisGet now key (cw_state w) = None \<or> redisGet now key (cw_state w) = Some v"
  proof (cases "cached (cw_state w) key")
    case (Some entry)
    obtain copy expiry where entry: "entry = (copy, expiry)" by (cases entry)
    have "expiry \<le> cw_clock w + TTL" using inv(2) Some unfolding expiry_inv_def entry by blast
    moreover have "copy = v" if "cache_invalidations (cw_state w) key = None" "key \<notin> cw_late w"
    proof -
      have "\<not> stale (cw_state w) key" using inv(3) that unfolding stale_inv_def by force
      then show ?thesis using Some entry assms(2) by (auto simp: stale_def)
    qed
    ultimately show ?thesis using assms(3) Some entry by (auto simp: redisGet_def)
  qed (simp add: redisGet_def)
qed

theorem cache_converges_witness:
  "\<exists>w. (cache_step 10)\<^sup>*\<^sup>* (cold_world [''k'' \<mapsto> (''a'', 1)]) w \<and> cw_state w \<noteq> cw_state (cold_world [''k'' \<mapsto> (''a'', 1)])
     \<and> fst (Read (cache_calm 0 10) id ''k'' (cw_state w)) = Inr ''b''"
proof -
  define w0 where "w0 = cold_world [''k'' \<mapsto> (''a'', 1)]"
  define w1 where "w1 = w0\<lparr>cw_state := updateRows ''k'' ''b'' (cw_state w0)\<rparr>"
  define w2 where "w2 = w1\<lparr>cw_seen := insert (''k'', 2) (cw_seen w1)\<rparr>"
  define w3 where "w3 = w2\<lparr>cw_state := redisDel ''k'' (cw_state w2), cw_deleted := insert (''k'', 2) (cw_deleted w2), cw_late := cw_late w2 - {''k''}\<rparr>"
  define w4 where "w4 = w3\<lparr>cw_state := ackIntent ''k'' 2 (cw_state w3)\<rparr>"
  have pending: "cache_invalidations (cw_state w1) ''k'' = Some 2" by (simp add: w1_def w0_def cold_world_def cache_version_def)
  have "cache_step 10 w0 w1" unfolding w1_def by (rule world_update)
  moreover have "cache_step 10 w1 w2" unfolding w2_def by (rule world_see [OF pending])
  moreover have "cache_step 10 w2 w3" unfolding w3_def by (rule world_delete) (simp add: w2_def)
  moreover have "cache_step 10 w3 w4" unfolding w4_def by (rule world_acknowledge) (simp add: w3_def)
  ultimately have run: "(cache_step 10)\<^sup>*\<^sup>* w0 w4" by (meson rtranclp.rtrancl_into_rtrancl rtranclp.rtrancl_refl)
  have "fst (Read (cache_calm 0 10) id ''k'' (cw_state w4)) = Inr ''b''"
  proof (rule cache_converges [OF run [unfolded w0_def], where now = 0])
    show "current_value (cw_state w4) ''k'' = Some ''b''" by (simp add: w4_def w3_def w2_def w1_def)
    show "cache_invalidations (cw_state w4) ''k'' = None \<and> ''k'' \<notin> cw_late w4 \<or> cw_clock w4 + 10 \<le> 0"
      using pending by (simp add: w4_def w3_def w2_def)
  qed (simp_all add: cache_calm_def)
  moreover have "current_value (cw_state w4) ''k'' \<noteq> current_value (cw_state w0) ''k''"
    by (simp add: w4_def w3_def w2_def w1_def w0_def cold_world_def current_value_def updateRows_def ackIntent_def redisDel_def)
  ultimately show ?thesis using run unfolding w0_def by metis
qed

text \<open>
  An acknowledgement never hides an update that came later: where the pending version is no longer
  the one the invalidation looked at, it stays.
\<close>

lemma invalidation_keeps_newer_intents:
  assumes "Invalidate env before after key st = (None, st')" and "cache_invalidations st key = Some n"
    and "cache_invalidations (after (redisDel key (before st))) key \<noteq> Some n"
  shows "cache_invalidations st' key = cache_invalidations (after (redisDel key (before st))) key"
  using assms by (auto simp: Invalidate_def applied_at_def Let_def split: if_splits)

end
