(* ===== verification/LoadTracker.thy ===== *)
theory LoadTracker
  imports GoStrings "HOL-Library.Word" "HOL-Library.AList"
begin

unbundle bit_operations_syntax

text \<open>
  The delivery tracker of the load test, \<^verbatim>\<open>cmd/im-loadtest/main.go\<close>: which connection is to receive which
  message, spread over 64 shards with a lock each. A Go map is an association list with distinct
  keys, a set of labels a list without repetition. An operation holds the lock of the one shard it
  works on and is one step. The tracker is related to a plain set of expected and a plain set of
  received deliveries.
\<close>

section \<open>The tracker\<close>

record trackerShard =
  sh_started :: "(string \<times> int) list"
  sh_expected :: "(string \<times> string list) list"
  sh_received :: "(string \<times> (string \<times> int) list) list"

record tracker =
  tr_shards :: "trackerShard list"
  tr_unexpected :: nat
  tr_duplicate :: nat
  tr_readerErrors :: "string list"

definition trackerShardCount :: nat where
  "trackerShardCount = 64"

definition newTracker :: tracker where
  "newTracker = \<lparr>tr_shards = replicate trackerShardCount \<lparr>sh_started = [], sh_expected = [], sh_received = []\<rparr>,
     tr_unexpected = 0, tr_duplicate = 0, tr_readerErrors = []\<rparr>"

definition shard_hash :: "string \<Rightarrow> 32 word" where
  "shard_hash clientID = foldl (\<lambda>hash c. (hash XOR word_of_nat (byte c)) * 16777619) 2166136261 clientID"

definition shard :: "string \<Rightarrow> nat" where
  "shard clientID = unat (shard_hash clientID) mod trackerShardCount"

abbreviation shard_of :: "string \<Rightarrow> tracker \<Rightarrow> trackerShard" where
  "shard_of clientID t \<equiv> tr_shards t ! shard clientID"

definition put_shard :: "string \<Rightarrow> trackerShard \<Rightarrow> tracker \<Rightarrow> tracker" where
  "put_shard clientID sh t = t\<lparr>tr_shards := (tr_shards t)[shard clientID := sh]\<rparr>"

definition expect :: "string \<Rightarrow> int \<Rightarrow> string list \<Rightarrow> tracker \<Rightarrow> tracker" where
  "expect clientID started labels t =
     (let sh = shard_of clientID t
      in put_shard clientID (sh\<lparr>sh_started := AList.update clientID started (sh_started sh),
                                sh_expected := AList.update clientID (remdups labels) (sh_expected sh)\<rparr>) t)"

definition drop_message :: "string \<Rightarrow> tracker \<Rightarrow> tracker" where
  "drop_message clientID t =
     (let sh = shard_of clientID t
      in put_shard clientID \<lparr>sh_started = AList.delete clientID (sh_started sh), sh_expected = AList.delete clientID (sh_expected sh),
           sh_received = AList.delete clientID (sh_received sh)\<rparr> t)"

definition lookup_map :: "'v \<Rightarrow> (string \<times> 'v) list \<Rightarrow> string \<Rightarrow> 'v" where
  "lookup_map zero m key = (case map_of m key of None \<Rightarrow> zero | Some v \<Rightarrow> v)"

definition observe :: "int \<Rightarrow> string \<Rightarrow> string \<Rightarrow> tracker \<Rightarrow> tracker" where
  "observe now label clientID t =
     (let sh = shard_of clientID t
      in case map_of (sh_expected sh) clientID of
           None \<Rightarrow> t\<lparr>tr_unexpected := tr_unexpected t + 1\<rparr>
         | Some expectedLabels \<Rightarrow>
           if label \<notin> set expectedLabels then t\<lparr>tr_unexpected := tr_unexpected t + 1\<rparr>
           else let got = lookup_map [] (sh_received sh) clientID
                in if label \<in> fst ` set got then t\<lparr>tr_duplicate := tr_duplicate t + 1\<rparr>
                   else put_shard clientID (sh\<lparr>sh_received :=
                          AList.update clientID (AList.update label (now - lookup_map 0 (sh_started sh) clientID) got) (sh_received sh)\<rparr>) t)"

definition readerError :: "string \<Rightarrow> string \<Rightarrow> tracker \<Rightarrow> tracker" where
  "readerError label err t = t\<lparr>tr_readerErrors := tr_readerErrors t @ [label @ '': '' @ err]\<rparr>"

definition counts :: "tracker \<Rightarrow> nat \<times> nat" where
  "counts t = (sum_list (map (\<lambda>sh. sum_list (map (\<lambda>(i, labels). length labels) (sh_expected sh))) (tr_shards t)),
     sum_list (map (\<lambda>sh. sum_list (map (\<lambda>(i, labels). length labels) (sh_received sh))) (tr_shards t)))"

text \<open>
  The wait looks at the counters, then sleeps until something changed or the time is up: it is
  given the states it wakes up in, and the end of them is the timeout.
\<close>

fun wait :: "tracker list \<Rightarrow> bool" where
  "wait [] = False"
| "wait (t # ts) = (fst (counts t) = snd (counts t) \<or> wait ts)"

record tracker_snapshot =
  ss_expected :: nat
  ss_received :: nat
  ss_missing :: "string list"
  ss_latencies :: "int list"
  ss_duplicate :: nat
  ss_unexpected :: nat
  ss_readerErrors :: "string list"

definition deliveries :: "trackerShard \<Rightarrow> (string \<times> string) list" where
  "deliveries sh = concat (map (\<lambda>(clientID, labels). map (Pair clientID) labels) (sh_expected sh))"

definition latency_of :: "trackerShard \<Rightarrow> string \<times> string \<Rightarrow> int option" where
  "latency_of sh d = map_of (lookup_map [] (sh_received sh) (fst d)) (snd d)"

text \<open>A Go map is visited in any order, so the order of the misses and the latencies means nothing here.\<close>

definition snapshot :: "tracker \<Rightarrow> tracker_snapshot" where
  "snapshot t = \<lparr>ss_expected = sum_list (map (\<lambda>sh. sum_list (map (\<lambda>(i, labels). length labels) (sh_expected sh))) (tr_shards t)),
     ss_received = length (concat (map (\<lambda>sh. filter (\<lambda>d. latency_of sh d \<noteq> None) (deliveries sh)) (tr_shards t))),
     ss_missing = map (\<lambda>d. fst d @ ''@'' @ snd d) (concat (map (\<lambda>sh. filter (\<lambda>d. latency_of sh d = None) (deliveries sh)) (tr_shards t))),
     ss_latencies = concat (map (\<lambda>sh. List.map_filter (latency_of sh) (deliveries sh)) (tr_shards t)),
     ss_duplicate = tr_duplicate t, ss_unexpected = tr_unexpected t, ss_readerErrors = tr_readerErrors t\<rparr>"

section \<open>Sets of deliveries\<close>

definition expected_set :: "tracker \<Rightarrow> (string \<times> string) set" where
  "expected_set t = (\<Union>sh \<in> set (tr_shards t). set (deliveries sh))"

definition received_set :: "tracker \<Rightarrow> (string \<times> string) set" where
  "received_set t = {(clientID, label). latency_of (shard_of clientID t) (clientID, label) \<noteq> None}"

definition shard_inv :: "nat \<Rightarrow> trackerShard \<Rightarrow> bool" where
  "shard_inv i sh \<longleftrightarrow> distinct (map fst (sh_expected sh)) \<and> distinct (map fst (sh_received sh))
     \<and> (\<forall>clientID labels. map_of (sh_expected sh) clientID = Some labels \<longrightarrow> shard clientID = i \<and> distinct labels)
     \<and> (\<forall>clientID got. map_of (sh_received sh) clientID = Some got \<longrightarrow> distinct (map fst got)
          \<and> (\<exists>labels. map_of (sh_expected sh) clientID = Some labels \<and> fst ` set got \<subseteq> set labels))"

definition tracker_inv :: "tracker \<Rightarrow> bool" where
  "tracker_inv t \<longleftrightarrow> length (tr_shards t) = trackerShardCount \<and> (\<forall>i < trackerShardCount. shard_inv i (tr_shards t ! i))"

lemma shard_less [simp]: "shard clientID < trackerShardCount"
  by (simp add: shard_def trackerShardCount_def)

lemma shard_inv_new [simp]: "shard_inv i \<lparr>sh_started = [], sh_expected = [], sh_received = []\<rparr>"
  by (simp add: shard_inv_def)

lemma tracker_inv_new: "tracker_inv newTracker"
  by (simp add: tracker_inv_def newTracker_def)

lemma tracker_inv_shard: "tracker_inv t \<Longrightarrow> shard_inv (shard clientID) (shard_of clientID t)"
  by (simp add: tracker_inv_def)

lemma tracker_inv_put: "tracker_inv t \<Longrightarrow> shard_inv (shard clientID) sh \<Longrightarrow> tracker_inv (put_shard clientID sh t)"
  by (auto simp: tracker_inv_def put_shard_def nth_list_update)

lemma shard_put: "tracker_inv t \<Longrightarrow> shard_of other (put_shard clientID sh t) = (if shard other = shard clientID then sh else shard_of other t)"
  by (auto simp: put_shard_def tracker_inv_def nth_list_update)

lemmas alist_simps = update_conv' delete_conv' distinct_update distinct_delete

lemma shard_inv_expected: "shard_inv i sh \<Longrightarrow> map_of (sh_expected sh) clientID = Some labels \<Longrightarrow> shard clientID = i \<and> distinct labels"
  unfolding shard_inv_def by blast

lemma shard_inv_received:
  "shard_inv i sh \<Longrightarrow> map_of (sh_received sh) clientID = Some got \<Longrightarrow>
   distinct (map fst got) \<and> (\<exists>labels. map_of (sh_expected sh) clientID = Some labels \<and> fst ` set got \<subseteq> set labels)"
  unfolding shard_inv_def by blast

lemma shard_inv_expect:
  assumes "shard_inv i sh" and "shard clientID = i" and "map_of (sh_expected sh) clientID = None"
  shows "shard_inv i (sh\<lparr>sh_started := x, sh_expected := AList.update clientID (remdups labels) (sh_expected sh)\<rparr>)"
proof -
  have "map_of (sh_received sh) clientID = None" using shard_inv_received [OF assms(1)] assms(3) by (metis option.distinct(1) option.exhaust)
  then show ?thesis using assms unfolding shard_inv_def by (simp add: alist_simps del: map_of_eq_Some_iff)
qed

lemma shard_inv_drop:
  "shard_inv i sh \<Longrightarrow> shard_inv i \<lparr>sh_started = x, sh_expected = AList.delete clientID (sh_expected sh), sh_received = AList.delete clientID (sh_received sh)\<rparr>"
  unfolding shard_inv_def by (simp add: alist_simps del: map_of_eq_Some_iff)

lemma shard_inv_got:
  assumes "shard_inv i sh" and "map_of (sh_expected sh) clientID = Some labels"
  shows "distinct (map fst (lookup_map [] (sh_received sh) clientID))" and "fst ` set (lookup_map [] (sh_received sh) clientID) \<subseteq> set labels"
proof -
  have "distinct (map fst (lookup_map [] (sh_received sh) clientID)) \<and> fst ` set (lookup_map [] (sh_received sh) clientID) \<subseteq> set labels"
  proof (cases "map_of (sh_received sh) clientID")
    case (Some got)
    then show ?thesis using shard_inv_received [OF assms(1) Some] assms(2) by (auto simp: lookup_map_def simp del: map_of_eq_Some_iff)
  qed (simp add: lookup_map_def)
  then show "distinct (map fst (lookup_map [] (sh_received sh) clientID))" and "fst ` set (lookup_map [] (sh_received sh) clientID) \<subseteq> set labels" by blast+
qed

lemma shard_inv_observe:
  assumes "shard_inv i sh" and "map_of (sh_expected sh) clientID = Some labels" and "label \<in> set labels"
  shows "shard_inv i (sh\<lparr>sh_received := AList.update clientID (AList.update label x (lookup_map [] (sh_received sh) clientID)) (sh_received sh)\<rparr>)"
proof -
  let ?got = "lookup_map [] (sh_received sh) clientID"
  note got = shard_inv_got [OF assms(1,2)]
  have "fst ` set (AList.update label x ?got) = insert label (fst ` set ?got)"
    using dom_update [of label x ?got] by simp
  then show ?thesis using assms got unfolding shard_inv_def by (simp add: alist_simps del: map_of_eq_Some_iff)
qed

lemma expect_inv:
  assumes "tracker_inv t" and "map_of (sh_expected (shard_of clientID t)) clientID = None"
  shows "tracker_inv (expect clientID started labels t)"
  unfolding expect_def Let_def
  by (rule tracker_inv_put [OF assms(1)]) (rule shard_inv_expect [OF tracker_inv_shard [OF assms(1)] refl assms(2)])

lemma drop_inv: "tracker_inv t \<Longrightarrow> tracker_inv (drop_message clientID t)"
  unfolding drop_message_def Let_def by (rule tracker_inv_put, assumption) (rule shard_inv_drop, rule tracker_inv_shard)

lemma observe_inv:
  assumes "tracker_inv t"
  shows "tracker_inv (observe now label clientID t)"
proof -
  have count: "tracker_inv (t\<lparr>tr_unexpected := n\<rparr>)" "tracker_inv (t\<lparr>tr_duplicate := n\<rparr>)" for n using assms by (simp_all add: tracker_inv_def)
  show ?thesis
  proof (cases "map_of (sh_expected (shard_of clientID t)) clientID")
    case (Some labels)
    then show ?thesis
      using count tracker_inv_put [OF assms shard_inv_observe [OF tracker_inv_shard [OF assms] Some]]
      unfolding observe_def Let_def by simp
  qed (use count in \<open>simp add: observe_def\<close>)
qed

section \<open>Counting\<close>

lemma set_deliveries:
  "distinct (map fst (sh_expected sh)) \<Longrightarrow> (c, l) \<in> set (deliveries sh) \<longleftrightarrow> (\<exists>ls. map_of (sh_expected sh) c = Some ls \<and> l \<in> set ls)"
  by (auto simp: deliveries_def)

lemma distinct_pairs:
  "distinct (map fst xs) \<Longrightarrow> (\<And>c ls. (c, ls) \<in> set xs \<Longrightarrow> distinct ls) \<Longrightarrow> distinct (concat (map (\<lambda>(c, ls). map (Pair c) ls) xs))"
  by (induction xs) (auto simp: distinct_map image_iff inj_on_def, force)

lemma distinct_deliveries:
  assumes "shard_inv i sh"
  shows "distinct (deliveries sh)"
proof -
  have keys: "distinct (map fst (sh_expected sh))" using assms by (simp add: shard_inv_def)
  have "distinct ls" if "(c, ls) \<in> set (sh_expected sh)" for c ls
    using shard_inv_expected [OF assms] keys that by (metis map_of_eq_Some_iff)
  then show ?thesis unfolding deliveries_def by (rule distinct_pairs [OF keys])
qed

lemma distinct_concat_nth:
  assumes "\<And>i. i < length xs \<Longrightarrow> distinct (xs ! i)" and "\<And>i j. i < length xs \<Longrightarrow> j < length xs \<Longrightarrow> i \<noteq> j \<Longrightarrow> set (xs ! i) \<inter> set (xs ! j) = {}"
  shows "distinct (concat xs)"
  using assms
proof (induction xs rule: rev_induct)
  case (snoc x xs)
  have prefix: "(xs @ [x]) ! i = xs ! i" if "i < length xs" for i using that by (simp add: nth_append)
  have "distinct (concat xs)"
  proof (rule snoc.IH)
    show "distinct (xs ! i)" if "i < length xs" for i using snoc.prems(1) [of i] that prefix by simp
    show "set (xs ! i) \<inter> set (xs ! j) = {}" if "i < length xs" "j < length xs" "i \<noteq> j" for i j
      using snoc.prems(2) [of i j] that prefix by simp
  qed
  moreover have "distinct x" using snoc.prems(1) [of "length xs"] by simp
  moreover have "set y \<inter> set x = {}" if y: "y \<in> set xs" for y
  proof -
    obtain i where i: "i < length xs" "xs ! i = y" using y by (metis in_set_conv_nth)
    have "set ((xs @ [x]) ! i) \<inter> set ((xs @ [x]) ! length xs) = {}" by (rule snoc.prems(2)) (use i(1) in simp_all)
    then show ?thesis unfolding prefix [OF i(1)] i(2) by simp
  qed
  then have "set (concat xs) \<inter> set x = {}" unfolding set_concat by blast
  ultimately show ?case by (simp del: set_concat)
qed simp

definition all_deliveries :: "tracker \<Rightarrow> (string \<times> string) list" where
  "all_deliveries t = concat (map deliveries (tr_shards t))"

lemma delivery_shard:
  assumes "shard_inv i sh" and "(c, l) \<in> set (deliveries sh)"
  shows "shard c = i"
  using assms set_deliveries [of sh c l] shard_inv_expected [OF assms(1)] unfolding shard_inv_def by blast

lemma distinct_all_deliveries:
  assumes "tracker_inv t"
  shows "distinct (all_deliveries t)"
  unfolding all_deliveries_def
proof (rule distinct_concat_nth)
  fix i
  assume "i < length (map deliveries (tr_shards t))"
  then show "distinct (map deliveries (tr_shards t) ! i)" using assms distinct_deliveries by (auto simp: tracker_inv_def)
next
  fix i j
  assume "i < length (map deliveries (tr_shards t))" "j < length (map deliveries (tr_shards t))" "i \<noteq> j"
  then have "shard_inv i (tr_shards t ! i)" "shard_inv j (tr_shards t ! j)" and
      nth: "map deliveries (tr_shards t) ! i = deliveries (tr_shards t ! i)" "map deliveries (tr_shards t) ! j = deliveries (tr_shards t ! j)"
    using assms by (simp_all add: tracker_inv_def)
  then show "set (map deliveries (tr_shards t) ! i) \<inter> set (map deliveries (tr_shards t) ! j) = {}"
    unfolding nth using delivery_shard \<open>i \<noteq> j\<close> by (metis disjoint_iff surj_pair)
qed

lemma expected_set_all: "expected_set t = set (all_deliveries t)"
  by (auto simp: expected_set_def all_deliveries_def)

lemma expected_set_iff:
  assumes "tracker_inv t"
  shows "(c, l) \<in> expected_set t \<longleftrightarrow> (\<exists>ls. map_of (sh_expected (shard_of c t)) c = Some ls \<and> l \<in> set ls)"
proof -
  have inv: "shard_inv i (tr_shards t ! i)" if "i < length (tr_shards t)" for i using assms that by (auto simp: tracker_inv_def)
  have "(c, l) \<in> expected_set t \<longleftrightarrow> (c, l) \<in> set (deliveries (shard_of c t))"
  proof
    assume "(c, l) \<in> expected_set t"
    then obtain i where i: "i < length (tr_shards t)" "(c, l) \<in> set (deliveries (tr_shards t ! i))"
      unfolding expected_set_def by (metis UN_E in_set_conv_nth)
    then show "(c, l) \<in> set (deliveries (shard_of c t))" using delivery_shard [OF inv [OF i(1)] i(2)] by simp
  next
    assume "(c, l) \<in> set (deliveries (shard_of c t))"
    moreover have "shard_of c t \<in> set (tr_shards t)" using assms by (simp add: tracker_inv_def)
    ultimately show "(c, l) \<in> expected_set t" unfolding expected_set_def by blast
  qed
  moreover have "distinct (map fst (sh_expected (shard_of c t)))" using tracker_inv_shard [OF assms, of c] unfolding shard_inv_def by blast
  ultimately show ?thesis using set_deliveries by blast
qed

lemma received_expected:
  assumes "tracker_inv t"
  shows "received_set t \<subseteq> expected_set t"
proof
  fix d
  assume "d \<in> received_set t"
  then obtain c l where d: "d = (c, l)" and got: "latency_of (shard_of c t) (c, l) \<noteq> None" by (auto simp: received_set_def)
  then have l: "l \<in> fst ` set (lookup_map [] (sh_received (shard_of c t)) c)" by (auto simp: latency_of_def map_of_eq_None_iff)
  then obtain r where r: "map_of (sh_received (shard_of c t)) c = Some r" by (cases "map_of (sh_received (shard_of c t)) c") (auto simp: lookup_map_def)
  from shard_inv_received [OF tracker_inv_shard [OF assms] r] show "d \<in> expected_set t"
    using l r unfolding d expected_set_iff [OF assms] by (auto simp: lookup_map_def simp del: map_of_eq_Some_iff)
qed

text \<open>The received map of a shard holds one entry for each of its deliveries that was received.\<close>

lemma received_of_client:
  assumes "shard_inv i sh" and "map_of (sh_expected sh) c = Some labels"
  shows "length (filter (\<lambda>l. latency_of sh (c, l) \<noteq> None) labels) = length (lookup_map [] (sh_received sh) c)"
proof -
  let ?got = "lookup_map [] (sh_received sh) c"
  note got = shard_inv_got [OF assms]
  have "set (filter (\<lambda>l. latency_of sh (c, l) \<noteq> None) labels) = fst ` set ?got"
    using got(2) by (auto simp: latency_of_def map_of_eq_None_iff)
  moreover have "distinct (filter (\<lambda>l. latency_of sh (c, l) \<noteq> None) labels)" using shard_inv_expected [OF assms] by simp
  ultimately show ?thesis
    using distinct_card [OF got(1)] distinct_card [of "filter (\<lambda>l. latency_of sh (c, l) \<noteq> None) labels"] by simp
qed

lemma filter_deliveries_length:
  "length (filter p (concat (map (\<lambda>(c, ls). map (Pair c) ls) xs))) = sum_list (map (\<lambda>(c, ls). length (filter (\<lambda>l. p (c, l)) ls)) xs)"
  by (induction xs) (auto simp: filter_map comp_def)

lemma received_of_shard:
  assumes "shard_inv i sh"
  shows "length (filter (\<lambda>d. latency_of sh d \<noteq> None) (deliveries sh)) = sum_list (map (\<lambda>(c, got). length got) (sh_received sh))"
proof -
  let ?f = "\<lambda>c. length (lookup_map [] (sh_received sh) c)"
  have keys: "distinct (map fst (sh_expected sh))" "distinct (map fst (sh_received sh))" using assms by (simp_all add: shard_inv_def)
  have "length (filter (\<lambda>d. latency_of sh d \<noteq> None) (deliveries sh)) = sum_list (map (\<lambda>(c, ls). length (filter (\<lambda>l. latency_of sh (c, l) \<noteq> None) ls)) (sh_expected sh))"
    unfolding deliveries_def by (rule filter_deliveries_length)
  also have "\<dots> = sum_list (map ?f (map fst (sh_expected sh)))"
    unfolding map_map by (intro arg_cong [where f = sum_list] map_cong refl) (use received_of_client [OF assms] keys(1) in fastforce)
  also have "\<dots> = (\<Sum>c \<in> fst ` set (sh_expected sh). ?f c)" using keys(1) by (simp add: sum_list_distinct_conv_sum_set del: map_map)
  also have "\<dots> = (\<Sum>c \<in> fst ` set (sh_received sh). ?f c)"
  proof (rule sum.mono_neutral_right)
    have "c \<in> fst ` set (sh_expected sh)" if c: "c \<in> fst ` set (sh_received sh)" for c
    proof -
      obtain got where "map_of (sh_received sh) c = Some got" using c by (metis not_None_eq map_of_eq_None_iff)
      from shard_inv_received [OF assms this] show ?thesis by (metis map_of_eq_None_iff option.distinct(1))
    qed
    then show "fst ` set (sh_received sh) \<subseteq> fst ` set (sh_expected sh)" by blast
    show "\<forall>c \<in> fst ` set (sh_expected sh) - fst ` set (sh_received sh). ?f c = 0"
      by (metis DiffD2 lookup_map_def list.size(3) map_of_eq_None_iff option.case(1))
  qed simp
  also have "\<dots> = sum_list (map ?f (map fst (sh_received sh)))" using keys(2) by (simp add: sum_list_distinct_conv_sum_set del: map_map)
  also have "\<dots> = sum_list (map (\<lambda>(c, got). length got) (sh_received sh))"
    unfolding map_map by (intro arg_cong [where f = sum_list] map_cong refl) (use keys(2) in \<open>auto simp: lookup_map_def split: option.splits dest: eq_key_imp_eq_value\<close>)
  finally show ?thesis .
qed

definition all_received :: "tracker \<Rightarrow> (string \<times> string) list" where
  "all_received t = concat (map (\<lambda>sh. filter (\<lambda>d. latency_of sh d \<noteq> None) (deliveries sh)) (tr_shards t))"

lemma shard_received_iff:
  assumes "tracker_inv t" and sh: "sh \<in> set (tr_shards t)" and d: "d \<in> set (deliveries sh)"
  shows "latency_of sh d = None \<longleftrightarrow> d \<notin> received_set t"
proof -
  obtain i where i: "i < length (tr_shards t)" "sh = tr_shards t ! i" using sh by (metis in_set_conv_nth)
  then have "shard (fst d) = i" using delivery_shard [of i sh "fst d" "snd d"] assms(1) d by (simp add: tracker_inv_def)
  then show ?thesis using i(2) by (auto simp: received_set_def split: prod.splits)
qed

lemma all_received_filter:
  assumes "tracker_inv t"
  shows "all_received t = filter (\<lambda>d. d \<in> received_set t) (all_deliveries t)"
  unfolding all_received_def all_deliveries_def filter_concat map_map comp_def
  by (intro arg_cong [where f = concat] map_cong filter_cong refl) (simp add: shard_received_iff [OF assms])

lemma all_missing_filter:
  assumes "tracker_inv t"
  shows "concat (map (\<lambda>sh. filter (\<lambda>d. latency_of sh d = None) (deliveries sh)) (tr_shards t)) = filter (\<lambda>d. d \<notin> received_set t) (all_deliveries t)"
  unfolding all_deliveries_def filter_concat map_map comp_def
  by (intro arg_cong [where f = concat] map_cong filter_cong refl) (use shard_received_iff [OF assms] in blast)

lemma counts_are_cards:
  assumes "tracker_inv t"
  shows "counts t = (card (expected_set t), card (received_set t))"
proof -
  have "length (deliveries sh) = sum_list (map (\<lambda>(i, labels). length labels) (sh_expected sh))" for sh
    unfolding deliveries_def by (simp add: length_concat comp_def case_prod_unfold)
  then have "fst (counts t) = length (all_deliveries t)" by (simp add: counts_def all_deliveries_def length_concat comp_def)
  then have one: "fst (counts t) = card (expected_set t)"
    using distinct_card [OF distinct_all_deliveries [OF assms]] by (simp add: expected_set_all)
  have "sum_list (map (\<lambda>(i, labels). length labels) (sh_received sh)) = length (filter (\<lambda>d. latency_of sh d \<noteq> None) (deliveries sh))"
    if "sh \<in> set (tr_shards t)" for sh
    using that assms received_of_shard unfolding tracker_inv_def by (metis in_set_conv_nth)
  then have "snd (counts t) = length (all_received t)"
    unfolding counts_def all_received_def by (simp add: length_concat comp_def cong: map_cong)
  moreover have "set (all_received t) = received_set t"
    using received_expected [OF assms] by (auto simp: all_received_filter [OF assms] expected_set_all)
  moreover have "distinct (all_received t)" using distinct_all_deliveries [OF assms] by (simp add: all_received_filter [OF assms])
  ultimately have "snd (counts t) = card (received_set t)" using distinct_card by metis
  with one show ?thesis by (metis prod.collapse)
qed

section \<open>The reference\<close>

datatype tracker_op = Expect string int "string list" | Drop string | Observe int string string | ReaderError string string

fun apply_op :: "tracker_op \<Rightarrow> tracker \<Rightarrow> tracker" where
  "apply_op (Expect clientID started labels) t = expect clientID started labels t"
| "apply_op (Drop clientID) t = drop_message clientID t"
| "apply_op (Observe now label clientID) t = observe now label clientID t"
| "apply_op (ReaderError label err) t = readerError label err t"

record reference_tracker =
  rt_expected :: "(string \<times> string) set"
  rt_received :: "(string \<times> string) set"
  rt_unexpected :: nat
  rt_duplicate :: nat
  rt_errors :: "string list"

fun reference_op :: "tracker_op \<Rightarrow> reference_tracker \<Rightarrow> reference_tracker" where
  "reference_op (Expect clientID started labels) r = r\<lparr>rt_expected := rt_expected r \<union> {clientID} \<times> set labels\<rparr>"
| "reference_op (Drop clientID) r = r\<lparr>rt_expected := rt_expected r - {clientID} \<times> UNIV, rt_received := rt_received r - {clientID} \<times> UNIV\<rparr>"
| "reference_op (Observe now label clientID) r =
     (if (clientID, label) \<notin> rt_expected r then r\<lparr>rt_unexpected := rt_unexpected r + 1\<rparr>
      else if (clientID, label) \<in> rt_received r then r\<lparr>rt_duplicate := rt_duplicate r + 1\<rparr>
      else r\<lparr>rt_received := insert (clientID, label) (rt_received r)\<rparr>)"
| "reference_op (ReaderError label err) r = r\<lparr>rt_errors := rt_errors r @ [label @ '': '' @ err]\<rparr>"

definition reference_of :: "tracker \<Rightarrow> reference_tracker" where
  "reference_of t = \<lparr>rt_expected = expected_set t, rt_received = received_set t, rt_unexpected = tr_unexpected t,
     rt_duplicate = tr_duplicate t, rt_errors = tr_readerErrors t\<rparr>"

lemma received_set_iff: "(c, l) \<in> received_set t \<longleftrightarrow> l \<in> fst ` set (lookup_map [] (sh_received (shard_of c t)) c)"
  by (auto simp: received_set_def latency_of_def map_of_eq_None_iff)

lemma put_fields [simp]:
  "tr_unexpected (put_shard c sh t) = tr_unexpected t" "tr_duplicate (put_shard c sh t) = tr_duplicate t"
  "tr_readerErrors (put_shard c sh t) = tr_readerErrors t"
  by (simp_all add: put_shard_def)

lemma pair_setI: "(\<And>c l. (c, l) \<in> A \<longleftrightarrow> (c, l) \<in> B) \<Longrightarrow> A = B"
  by (rule set_eqI) (metis surj_pair)

lemma expect_refines:
  assumes "tracker_inv t" and "map_of (sh_expected (shard_of clientID t)) clientID = None"
  shows "reference_of (expect clientID started labels t) = reference_op (Expect clientID started labels) (reference_of t)"
proof -
  let ?t = "expect clientID started labels t" and ?sh = "shard_of clientID t"
  have inv: "tracker_inv ?t" by (rule expect_inv [OF assms])
  have sh: "shard_of c ?t = (if shard c = shard clientID then ?sh\<lparr>sh_started := AList.update clientID started (sh_started ?sh),
      sh_expected := AList.update clientID (remdups labels) (sh_expected ?sh)\<rparr> else shard_of c t)" for c
    unfolding expect_def Let_def by (rule shard_put [OF assms(1)])
  have "expected_set ?t = expected_set t \<union> {clientID} \<times> set labels"
  proof (rule pair_setI)
    fix c l
    have "map_of (sh_expected (shard_of c ?t)) c = (if c = clientID then Some (remdups labels) else map_of (sh_expected (shard_of c t)) c)"
      by (simp add: sh update_conv')
    then show "(c, l) \<in> expected_set ?t \<longleftrightarrow> (c, l) \<in> expected_set t \<union> {clientID} \<times> set labels"
      unfolding expected_set_iff [OF inv] Un_iff expected_set_iff [OF assms(1)] using assms(2) by auto
  qed
  moreover have "received_set ?t = received_set t" by (rule pair_setI) (simp add: received_set_iff sh)
  ultimately show ?thesis by (simp add: reference_of_def expect_def Let_def)
qed

lemma drop_refines:
  assumes "tracker_inv t"
  shows "reference_of (drop_message clientID t) = reference_op (Drop clientID) (reference_of t)"
proof -
  let ?t = "drop_message clientID t" and ?sh = "shard_of clientID t"
  have inv: "tracker_inv ?t" by (rule drop_inv [OF assms])
  have sh: "shard_of c ?t = (if shard c = shard clientID then \<lparr>sh_started = AList.delete clientID (sh_started ?sh),
      sh_expected = AList.delete clientID (sh_expected ?sh), sh_received = AList.delete clientID (sh_received ?sh)\<rparr> else shard_of c t)" for c
    unfolding drop_message_def Let_def by (rule shard_put [OF assms])
  have maps: "map_of (sh_expected (shard_of c ?t)) c = (if c = clientID then None else map_of (sh_expected (shard_of c t)) c)"
      "map_of (sh_received (shard_of c ?t)) c = (if c = clientID then None else map_of (sh_received (shard_of c t)) c)" for c
    by (simp_all add: sh delete_conv')
  have "expected_set ?t = expected_set t - {clientID} \<times> UNIV"
    by (rule pair_setI) (auto simp: expected_set_iff [OF inv] expected_set_iff [OF assms] maps simp del: map_of_eq_Some_iff)
  moreover have "received_set ?t = received_set t - {clientID} \<times> UNIV"
    by (rule pair_setI) (auto simp: received_set_iff lookup_map_def maps)
  ultimately show ?thesis by (simp add: reference_of_def drop_message_def Let_def)
qed

lemma observe_refines:
  assumes "tracker_inv t"
  shows "reference_of (observe now label clientID t) = reference_op (Observe now label clientID) (reference_of t)"
proof -
  let ?t = "observe now label clientID t" and ?sh = "shard_of clientID t"
  have same: "expected_set (t\<lparr>tr_unexpected := n\<rparr>) = expected_set t" "received_set (t\<lparr>tr_unexpected := n\<rparr>) = received_set t"
      "expected_set (t\<lparr>tr_duplicate := n\<rparr>) = expected_set t" "received_set (t\<lparr>tr_duplicate := n\<rparr>) = received_set t" for n
    by (simp_all add: expected_set_def received_set_def)
  show ?thesis
  proof (cases "(clientID, label) \<in> expected_set t")
    case False
    then have "?t = t\<lparr>tr_unexpected := tr_unexpected t + 1\<rparr>"
      unfolding expected_set_iff [OF assms] observe_def Let_def by (auto split: option.splits simp del: map_of_eq_Some_iff)
    then show ?thesis using False by (simp add: reference_of_def same)
  next
    case True
    then obtain labels where labels: "map_of (sh_expected ?sh) clientID = Some labels" "label \<in> set labels"
      unfolding expected_set_iff [OF assms] by blast
    let ?got = "lookup_map [] (sh_received ?sh) clientID"
    show ?thesis
    proof (cases "(clientID, label) \<in> received_set t")
      case dup: True
      then have "?t = t\<lparr>tr_duplicate := tr_duplicate t + 1\<rparr>"
        unfolding received_set_iff observe_def Let_def using labels by simp
      then show ?thesis using dup \<open>(clientID, label) \<in> expected_set t\<close> by (simp add: reference_of_def same)
    next
      case new: False
      let ?got' = "AList.update label (now - lookup_map 0 (sh_started ?sh) clientID) ?got"
      have t: "?t = put_shard clientID (?sh\<lparr>sh_received := AList.update clientID ?got' (sh_received ?sh)\<rparr>) t"
        using new labels unfolding received_set_iff observe_def Let_def by simp
      have inv: "tracker_inv ?t" by (rule observe_inv [OF assms])
      have sh: "shard_of c ?t = (if shard c = shard clientID then ?sh\<lparr>sh_received := AList.update clientID ?got' (sh_received ?sh)\<rparr> else shard_of c t)" for c
        unfolding t by (rule shard_put [OF assms])
      have "expected_set ?t = expected_set t"
        by (rule pair_setI) (simp add: expected_set_iff [OF inv] expected_set_iff [OF assms] sh del: map_of_eq_Some_iff)
      moreover have "received_set ?t = insert (clientID, label) (received_set t)"
      proof (rule pair_setI)
        fix c l
        have "lookup_map [] (sh_received (shard_of c ?t)) c = (if c = clientID then ?got' else lookup_map [] (sh_received (shard_of c t)) c)"
          by (simp add: sh lookup_map_def update_conv')
        then show "(c, l) \<in> received_set ?t \<longleftrightarrow> (c, l) \<in> insert (clientID, label) (received_set t)"
          using dom_update [of label _ ?got] by (auto simp: received_set_iff)
      qed
      ultimately show ?thesis using new True by (simp add: reference_of_def t)
    qed
  qed
qed

lemma readerError_refines:
  "reference_of (readerError label err t) = reference_op (ReaderError label err) (reference_of t)" "tracker_inv t \<Longrightarrow> tracker_inv (readerError label err t)"
  by (simp_all add: reference_of_def readerError_def expected_set_def received_set_def tracker_inv_def)

fun expect_ids :: "tracker_op list \<Rightarrow> string list" where
  "expect_ids [] = []"
| "expect_ids (Expect clientID started labels # ops) = clientID # expect_ids ops"
| "expect_ids (_ # ops) = expect_ids ops"

definition known :: "tracker \<Rightarrow> string set" where
  "known t = {c. map_of (sh_expected (shard_of c t)) c \<noteq> None}"

lemma known_ops:
  assumes "tracker_inv t"
  shows "known (expect clientID started labels t) \<subseteq> insert clientID (known t)" and "known (drop_message clientID t) \<subseteq> known t"
    and "known (observe now label clientID t) \<subseteq> known t" and "known (readerError label err t) = known t"
  using shard_put [OF assms]
  by (auto simp: known_def expect_def drop_message_def observe_def readerError_def Let_def update_conv' delete_conv' lookup_map_def
      split: option.splits if_splits simp del: map_of_eq_Some_iff)

lemma run_refines:
  assumes "tracker_inv t" and "distinct (expect_ids ops)" and "set (expect_ids ops) \<inter> known t = {}"
  shows "tracker_inv (fold apply_op ops t) \<and> reference_of (fold apply_op ops t) = fold reference_op ops (reference_of t)"
  using assms
proof (induction ops arbitrary: t)
  case (Cons op ops)
  have step: "tracker_inv (apply_op op t) \<and> reference_of (apply_op op t) = reference_op op (reference_of t)"
  proof (cases op)
    case (Expect clientID started labels)
    then have "map_of (sh_expected (shard_of clientID t)) clientID = None" using Cons.prems(3) by (simp add: known_def)
    then show ?thesis unfolding Expect apply_op.simps using expect_inv expect_refines Cons.prems(1) by blast
  next
    case (Drop clientID)
    then show ?thesis unfolding Drop apply_op.simps using drop_inv drop_refines Cons.prems(1) by blast
  next
    case (Observe now label clientID)
    then show ?thesis unfolding Observe apply_op.simps using observe_inv observe_refines Cons.prems(1) by blast
  next
    case (ReaderError label err)
    then show ?thesis unfolding ReaderError apply_op.simps using readerError_refines Cons.prems(1) by blast
  qed
  moreover have "set (expect_ids ops) \<inter> known (apply_op op t) = {}"
    using Cons.prems(2,3) known_ops [OF Cons.prems(1)] by (cases op) (simp_all, blast+)
  moreover have "distinct (expect_ids ops)" using Cons.prems(2) by (cases op) simp_all
  ultimately show ?case using Cons.IH by simp
qed simp

definition no_deliveries :: reference_tracker where
  "no_deliveries = \<lparr>rt_expected = {}, rt_received = {}, rt_unexpected = 0, rt_duplicate = 0, rt_errors = []\<rparr>"

lemma new_shard: "shard_of c newTracker = \<lparr>sh_started = [], sh_expected = [], sh_received = []\<rparr>"
  by (simp add: newTracker_def)

lemma reference_new: "reference_of newTracker = no_deliveries"
proof -
  have "expected_set newTracker = {}" by (auto simp: expected_set_def newTracker_def deliveries_def)
  moreover have "received_set newTracker = {}" by (auto simp: received_set_iff new_shard lookup_map_def)
  ultimately show ?thesis by (simp add: reference_of_def no_deliveries_def newTracker_def)
qed

lemma known_new: "known newTracker = {}"
  by (simp add: known_def new_shard)

lemma snapshot_counts:
  assumes "tracker_inv t"
  shows "ss_expected (snapshot t) = card (expected_set t)" and "ss_received (snapshot t) = card (received_set t)"
    and "length (ss_missing (snapshot t)) = card (expected_set t - received_set t)"
proof -
  note dist = distinct_all_deliveries [OF assms]
  show "ss_expected (snapshot t) = card (expected_set t)" using counts_are_cards [OF assms] by (simp add: snapshot_def counts_def)
  have "ss_received (snapshot t) = length (all_received t)" by (simp add: snapshot_def all_received_def)
  moreover have "set (all_received t) = received_set t"
    using received_expected [OF assms] by (auto simp: all_received_filter [OF assms] expected_set_all)
  moreover have "distinct (all_received t)" using dist by (simp add: all_received_filter [OF assms])
  ultimately show "ss_received (snapshot t) = card (received_set t)" using distinct_card by metis
  have miss: "ss_missing (snapshot t) = map (\<lambda>d. fst d @ ''@'' @ snd d) (filter (\<lambda>d. d \<notin> received_set t) (all_deliveries t))"
    by (simp add: snapshot_def all_missing_filter [OF assms])
  have set: "set (filter (\<lambda>d. d \<notin> received_set t) (all_deliveries t)) = expected_set t - received_set t" by (auto simp: expected_set_all)
  show "length (ss_missing (snapshot t)) = card (expected_set t - received_set t)"
    unfolding miss length_map set [symmetric] by (rule distinct_card [symmetric]) (simp add: dist)
qed

section \<open>Properties\<close>

lemma fold_newTracker:
  assumes "distinct (expect_ids ops)"
  shows "tracker_inv (fold apply_op ops newTracker)" "reference_of (fold apply_op ops newTracker) = fold reference_op ops no_deliveries"
  using run_refines [OF tracker_inv_new assms] by (simp_all add: known_new reference_new)

lemma received_all_iff:
  assumes "tracker_inv t"
  shows "received_set t = expected_set t \<longleftrightarrow> card (expected_set t) = card (received_set t)"
proof -
  have "finite (expected_set t)" by (simp add: expected_set_all)
  from card_subset_eq [OF this received_expected [OF assms]] show ?thesis by auto
qed

text \<open>What was announced and not withdrawn is expected at the end.\<close>

lemma expected_stays:
  assumes "\<not> Drop clientID \<in> set ops" and "(clientID, label) \<in> rt_expected r"
  shows "(clientID, label) \<in> rt_expected (fold reference_op ops r)"
  using assms
proof (induction ops arbitrary: r)
  case (Cons op ops)
  then have "(clientID, label) \<in> rt_expected (reference_op op r)" by (cases op) auto
  then show ?case using Cons by simp
qed simp

lemma announced_expected:
  assumes "Expect clientID started labels \<in> set ops" and "\<not> Drop clientID \<in> set ops" and "label \<in> set labels"
  shows "(clientID, label) \<in> rt_expected (fold reference_op ops r)"
  using assms(1,2)
proof (induction ops arbitrary: r)
  case (Cons op ops)
  show ?case
  proof (cases "op = Expect clientID started labels")
    case True
    then show ?thesis using expected_stays [of clientID ops label "reference_op op r"] Cons.prems(2) assms(3) by simp
  qed (use Cons in auto)
qed simp

text \<open>
  C34: The sharded tracker is a pair of sets. For every sequence of its operations in which no
  message is announced twice, the counters, the report and the misses are those of plain sets of
  expected and received deliveries, and the wait ends early exactly when every expected delivery
  was received.
\<close>

theorem tracker_refines_the_sets:
  assumes "distinct (expect_ids ops)" and "t = fold apply_op ops newTracker" and "r = fold reference_op ops no_deliveries"
  shows "counts t = (card (rt_expected r), card (rt_received r)) \<and> rt_received r \<subseteq> rt_expected r
    \<and> (wait [t] \<longleftrightarrow> rt_received r = rt_expected r)
    \<and> ss_expected (snapshot t) = card (rt_expected r) \<and> ss_received (snapshot t) = card (rt_received r)
    \<and> length (ss_missing (snapshot t)) = card (rt_expected r - rt_received r)
    \<and> ss_unexpected (snapshot t) = rt_unexpected r \<and> ss_duplicate (snapshot t) = rt_duplicate r"
proof -
  have run: "tracker_inv t" "reference_of t = r" using fold_newTracker [OF assms(1)] unfolding assms(2,3) by simp_all
  then have r: "rt_expected r = expected_set t" "rt_received r = received_set t" "rt_unexpected r = tr_unexpected t" "rt_duplicate r = tr_duplicate t"
    by (auto simp: reference_of_def)
  show ?thesis
    unfolding r
    using counts_are_cards [OF run(1)] received_expected [OF run(1)] snapshot_counts [OF run(1)] received_all_iff [OF run(1)] by (simp add: snapshot_def)
qed

theorem tracker_refines_witness:
  "counts (fold apply_op [Expect ''m'' 0 [''a'', ''b''], Observe 3 ''a'' ''m'', Observe 4 ''a'' ''m'', Observe 5 ''c'' ''m''] newTracker) = (2, 1)"
  using tracker_refines_the_sets [of "[Expect ''m'' 0 [''a'', ''b''], Observe 3 ''a'' ''m'', Observe 4 ''a'' ''m'', Observe 5 ''c'' ''m'']", OF _ refl refl]
  by (simp add: no_deliveries_def)

end
