(* ===== verification/LoadTest.thy ===== *)
theory LoadTest
  imports LoadTracker ConversationSync "HOL-Library.Char_ord" "HOL-Library.List_Lexorder"
begin

text \<open>
  The load test, \<^verbatim>\<open>cmd/im-loadtest/main.go\<close>: its configuration, the sends with their second attempt, the
  realtime reader, the verification by synchronisation and the verdict. What a request returns is
  an argument: the reply of the server, decoded with a parameter that stands for the JSON decoder.
  Latencies are durations; their conversion to milliseconds and the product with a quantile are
  floating point and parameters.
\<close>

section \<open>Configuration\<close>

record config =
  cf_baseURL :: string
  cf_metricsURL :: string
  cf_databaseURL :: string
  cf_allowedDB :: string
  cf_users :: int
  cf_devicesPerUser :: int
  cf_messages :: int
  cf_concurrency :: int
  cf_targetRate :: int
  cf_trafficPattern :: string
  cf_requestTimeout :: int
  cf_deliveryWait :: int
  cf_metricSampleInterval :: int
  cf_allowWrite :: bool

definition trafficPatternRing :: string where "trafficPatternRing = ''ring''"
definition trafficPatternHot :: string where "trafficPatternHot = ''hot''"

text \<open>\<open>parses\<close> is \<open>url.ParseRequestURI\<close> without an error.\<close>

definition validateConfig :: "(string \<Rightarrow> bool) \<Rightarrow> config \<Rightarrow> string option" where
  "validateConfig parses cfg =
     (if \<not> cf_allowWrite cfg then Some ''refusing to write without -allow-write''
      else if TrimSpace (cf_allowedDB cfg) = [] then Some ''-allow-database is required''
      else if cf_users cfg < 2 \<or> cf_users cfg > 10 then Some ''-users must be between 2 and 10''
      else if cf_devicesPerUser cfg < 1 \<or> cf_devicesPerUser cfg > 3 then Some ''-devices must be between 1 and 3''
      else if cf_users cfg * cf_devicesPerUser cfg > 30 then Some ''users * devices must not exceed the current login IP limit of 30/minute''
      else if cf_messages cfg < 1 \<or> cf_messages cfg > 100000 then Some ''-messages must be between 1 and 100000''
      else if cf_concurrency cfg < 1 \<or> cf_concurrency cfg > 1000 then Some ''-concurrency must be between 1 and 1000''
      else if cf_targetRate cfg < 0 \<or> cf_targetRate cfg > 100000 then Some ''-rate must be between 0 and 100000''
      else if cf_trafficPattern cfg \<noteq> trafficPatternRing \<and> cf_trafficPattern cfg \<noteq> trafficPatternHot then Some ''-traffic-pattern must be ring or hot''
      else if cf_requestTimeout cfg \<le> 0 \<or> cf_deliveryWait cfg \<le> 0 \<or> cf_metricSampleInterval cfg \<le> 0 then Some ''timeouts must be positive''
      else if \<not> list_all parses [cf_baseURL cfg, cf_metricsURL cfg, cf_databaseURL cfg] then Some ''invalid URL''
      else None)"

text \<open>The name of the connected database and whether it has a table of users; \<open>None\<close> when the query fails.\<close>

definition validateDatabase :: "string option \<Rightarrow> bool option \<Rightarrow> string \<Rightarrow> string + string" where
  "validateDatabase current usersTable allowed =
     (case current of
        None \<Rightarrow> Inl ''query''
      | Some actual \<Rightarrow>
        if actual \<noteq> allowed then Inl ''connected to another database''
        else (case usersTable of
                None \<Rightarrow> Inl ''query''
              | Some present \<Rightarrow> if present then Inr actual else Inl ''users table is missing; initialize the IM schema first''))"

section \<open>Requests\<close>

text \<open>No reply, or a status with a body; the body is \<open>None\<close> when it cannot be read to its end or limit.\<close>

datatype http_reply = NoReply string | Reply int "string option"

definition load_doJSON :: "(string \<Rightarrow> 'a option) \<Rightarrow> (string \<Rightarrow> string option) \<Rightarrow> http_reply \<Rightarrow> int \<times> string option \<times> 'a option" where
  "load_doJSON decode errorField reply =
     (case reply of
        NoReply err \<Rightarrow> (0, Some err, None)
      | Reply status None \<Rightarrow> (status, Some ''read'', None)
      | Reply status (Some whole) \<Rightarrow>
        (let payload = take 1048576 whole
         in if 200 \<le> status \<and> status < 300
            then (case decode payload of None \<Rightarrow> (status, Some ''decode response'', None) | Some v \<Rightarrow> (status, None, Some v))
            else (case errorField payload of
                    Some err \<Rightarrow> if err \<noteq> [] then (status, Some err, None) else (status, None, None)
                  | None \<Rightarrow> (status, None, None))))"

section \<open>Sending\<close>

record sendResult =
  sn_clientMessageID :: string
  sn_message :: message
  sn_latency :: int
  sn_status :: int
  sn_attempts :: int
  sn_recovered :: bool
  sn_dropped :: bool
  sn_err :: string

definition zero_message :: message where
  "zero_message = \<lparr>m_ID = 0, m_ConversationID = 0, m_ConversationSeq = 0, m_ClientMessageID = [], m_SenderID = 0, m_ReceiverID = 0,
     m_Content = [], m_CreatedAt = 0\<rparr>"

definition zero_result :: sendResult where
  "zero_result = \<lparr>sn_clientMessageID = [], sn_message = zero_message, sn_latency = 0, sn_status = 0, sn_attempts = 0,
     sn_recovered = False, sn_dropped = False, sn_err = []\<rparr>"

definition pad :: "nat \<Rightarrow> int \<Rightarrow> string" where
  "pad width n = replicate (width - length (FormatInt n)) CHR ''0'' @ FormatInt n"

definition client_id :: "string \<Rightarrow> int \<Rightarrow> string" where
  "client_id runID index = ''msg_'' @ runID @ ''_'' @ pad 8 (index + 1)"

definition device_label :: "int \<Rightarrow> int \<Rightarrow> string" where
  "device_label user device = ''u'' @ pad 2 (user + 1) @ ''-d'' @ pad 2 (device + 1)"

definition messageParticipants :: "string \<Rightarrow> int \<Rightarrow> int \<Rightarrow> int \<times> int" where
  "messageParticipants pattern index userCount =
     (if pattern = trafficPatternHot then (index mod 2, 1 - index mod 2)
      else (index mod userCount, (index mod userCount + 1) mod userCount))"

definition droppedSend :: "string \<Rightarrow> int \<Rightarrow> string \<Rightarrow> sendResult" where
  "droppedSend runID index reason =
     zero_result\<lparr>sn_clientMessageID := client_id runID index, sn_dropped := True, sn_err := ''not started: '' @ reason\<rparr>"

text \<open>One attempt; the second component says whether the loop is left.\<close>

definition sendAttempt :: "int \<Rightarrow> int \<times> string option \<times> message option \<Rightarrow> sendResult \<Rightarrow> sendResult \<times> bool" where
  "sendAttempt attempt reply result =
     (case reply of (status, requestErr, created) \<Rightarrow>
        let result = result\<lparr>sn_attempts := attempt, sn_status := status\<rparr>
        in if requestErr = None \<and> (status = 201 \<or> status = 200)
           then (result\<lparr>sn_message := (case created of Some m \<Rightarrow> m | None \<Rightarrow> zero_message), sn_recovered := (attempt > 1 \<or> status = 200)\<rparr>, True)
           else if attempt = 1 \<and> (status = 0 \<or> status \<ge> 500) then (result, False)
           else (result\<lparr>sn_err := (case requestErr of Some err \<Rightarrow> err | None \<Rightarrow> ''HTTP '' @ FormatInt status)\<rparr>, False))"

text \<open>The result, and what was done to the tracker before and after.\<close>

definition sendOne ::
  "config \<Rightarrow> string \<Rightarrow> int \<Rightarrow> int \<Rightarrow> int \<Rightarrow> (int \<Rightarrow> int \<times> string option \<times> message option) \<Rightarrow> int \<Rightarrow> sendResult \<times> tracker_op list \<times> tracker_op list" where
  "sendOne cfg runID userCount started finished replies index =
     (case messageParticipants (cf_trafficPattern cfg) index userCount of (senderIndex, receiverIndex) \<Rightarrow>
        let clientID = client_id runID index;
            labels = concat (map (\<lambda>device. [device_label senderIndex device, device_label receiverIndex device]) [0..cf_devicesPerUser cfg - 1]);
            first = sendAttempt 1 (replies 1) (zero_result\<lparr>sn_clientMessageID := clientID\<rparr>);
            result = (if snd first then fst first else fst (sendAttempt 2 (replies 2) (fst first)));
            result = result\<lparr>sn_latency := finished - started\<rparr>
        in if m_ID (sn_message result) = 0
           then (if sn_err result = [] then result\<lparr>sn_err := ''HTTP '' @ FormatInt (sn_status result) @ '' returned no message''\<rparr> else result,
                 [Expect clientID started labels], [Drop clientID])
           else (result, [Expect clientID started labels], []))"

text \<open>
  What becomes of an index: its request ran, the load was cancelled before it started, or, at a
  fixed rate, no slot was free. The results arrive in any order of the indices.
\<close>

datatype send_fate = Ran sendResult | LoadCancelled | NoFreeSlot

definition sendIndex :: "config \<Rightarrow> string \<Rightarrow> (int \<Rightarrow> send_fate) \<Rightarrow> int \<Rightarrow> sendResult" where
  "sendIndex cfg runID fate index =
     (case fate index of
        Ran result \<Rightarrow> result
      | LoadCancelled \<Rightarrow> droppedSend runID index
          (if cf_targetRate cfg > 0 then ''load context cancelled before scheduled start'' else ''load context cancelled before request start'')
      | NoFreeSlot \<Rightarrow> droppedSend runID index ''max in-flight requests reached'')"

definition sendLoad :: "config \<Rightarrow> string \<Rightarrow> (int \<Rightarrow> send_fate) \<Rightarrow> int list \<Rightarrow> sendResult list" where
  "sendLoad cfg runID fate arrival = sort_key sn_clientMessageID (map (sendIndex cfg runID fate) arrival)"

record send_summary =
  su_successful :: nat
  su_recovered :: nat
  su_dropped :: nat
  su_errors :: "string list"
  su_latencies :: "int list"

fun summarizeLoop :: "sendResult list \<Rightarrow> send_summary \<Rightarrow> send_summary" where
  "summarizeLoop [] s = s"
| "summarizeLoop (result # results) s =
     (let s = (if sn_dropped result then s\<lparr>su_dropped := su_dropped s + 1\<rparr> else s\<lparr>su_latencies := su_latencies s @ [sn_latency result]\<rparr>)
      in if sn_err result = []
         then summarizeLoop results (s\<lparr>su_successful := su_successful s + 1, su_recovered := su_recovered s + (if sn_recovered result then 1 else 0)\<rparr>)
         else summarizeLoop results (s\<lparr>su_errors := su_errors s @ [sn_clientMessageID result @ '': '' @ sn_err result]\<rparr>))"

definition summarizeSends :: "sendResult list \<Rightarrow> send_summary" where
  "summarizeSends results =
     summarizeLoop results \<lparr>su_successful = 0, su_recovered = 0, su_dropped = 0, su_errors = [], su_latencies = []\<rparr>"

section \<open>Reading events\<close>

record wsEnvelope =
  we_Type :: string
  we_ConversationID :: int
  we_ConversationSeq :: int
  we_Message :: message

datatype ws_read = ReadPayload string | ReadFailed bool bool string

text \<open>
  One read: a payload, or the end with the context cancelled, the close status a normal one and the
  text of the error. The second component says whether the loop goes on.
\<close>

definition readWebSocket :: "(string \<Rightarrow> wsEnvelope option) \<Rightarrow> string \<Rightarrow> int \<Rightarrow> ws_read \<Rightarrow> tracker_op list \<times> bool" where
  "readWebSocket decode label now read =
     (case read of
        ReadFailed cancelled normal err \<Rightarrow> (if \<not> cancelled \<and> \<not> normal then [ReaderError label err] else [], False)
      | ReadPayload payload \<Rightarrow>
        (case decode payload of
           None \<Rightarrow> ([ReaderError label ''decode event''], True)
         | Some envelope \<Rightarrow>
           if we_Type envelope = ''message.created''
           then if we_ConversationID envelope \<le> 0 \<or> we_ConversationSeq envelope \<le> 0
                   \<or> m_ConversationID (we_Message envelope) \<noteq> we_ConversationID envelope
                   \<or> m_ConversationSeq (we_Message envelope) \<noteq> we_ConversationSeq envelope
                then ([ReaderError label ''message.created has an invalid conversation cursor''], True)
                else ([Observe now label (m_ClientMessageID (we_Message envelope))], True)
           else ([], True)))"

section \<open>Verification by synchronisation\<close>

record conversationListPage =
  cp_Conversations :: "int list"
  cp_NextCursor :: int
  cp_SnapshotCursor :: int
  cp_HasMore :: bool

text \<open>
  A page is requested with its number, the cursor and, after the first one, the snapshot; the
  answer is an error, a status other than 200 or the page.
\<close>

fun checkConversations :: "int \<Rightarrow> int \<Rightarrow> int list \<Rightarrow> string + int list" where
  "checkConversations bound lastID [] = Inr []"
| "checkConversations bound lastID (cid # cids) =
     (if cid \<le> lastID \<or> cid > bound then Inl (''invalid conversation list cursor '' @ FormatInt cid)
      else case checkConversations bound cid cids of Inl err \<Rightarrow> Inl err | Inr rest \<Rightarrow> Inr (cid # rest))"

fun listPages :: "(nat \<Rightarrow> int \<Rightarrow> int option \<Rightarrow> string + conversationListPage) \<Rightarrow> nat \<Rightarrow> nat \<Rightarrow> int list \<Rightarrow> int \<Rightarrow> int option \<Rightarrow> string + int list" where
  "listPages fetch 0 number found after bound = Inl ''conversation list exceeded 10000 pages''"
| "listPages fetch (Suc fuel) number found after bound =
     (case fetch number after bound of
        Inl err \<Rightarrow> Inl err
      | Inr page \<Rightarrow>
        (let snap = (case bound of None \<Rightarrow> cp_SnapshotCursor page | Some s \<Rightarrow> s)
         in case checkConversations snap after (cp_Conversations page) of
              Inl err \<Rightarrow> Inl err
            | Inr cids \<Rightarrow>
              if \<not> cp_HasMore page then Inr (found @ cids)
              else if cp_NextCursor page \<le> after then Inl ''conversation list cursor did not advance''
              else listPages fetch fuel (Suc number) (found @ cids) (cp_NextCursor page) (Some snap)))"

definition listConversationIDs :: "(nat \<Rightarrow> int \<Rightarrow> int option \<Rightarrow> string + conversationListPage) \<Rightarrow> string + int list" where
  "listConversationIDs fetch = listPages fetch 10000 0 [] 0 None"

fun checkMessages :: "int \<Rightarrow> int \<Rightarrow> int \<Rightarrow> message list \<Rightarrow> string + message list" where
  "checkMessages conversationID bound lastSequence [] = Inr []"
| "checkMessages conversationID bound lastSequence (m # ms) =
     (if m_ConversationID m \<noteq> conversationID \<or> m_ConversationSeq m \<noteq> lastSequence + 1 \<or> m_ConversationSeq m > bound
      then Inl (''invalid message cursor '' @ FormatInt (m_ConversationID m) @ ''/'' @ FormatInt (m_ConversationSeq m))
      else case checkMessages conversationID bound (m_ConversationSeq m) ms of Inl err \<Rightarrow> Inl err | Inr rest \<Rightarrow> Inr (m # rest))"

fun syncPages ::
  "(nat \<Rightarrow> int \<Rightarrow> int option \<Rightarrow> string + conversationMessagePage) \<Rightarrow> int \<Rightarrow> nat \<Rightarrow> nat \<Rightarrow> message list \<Rightarrow> int \<Rightarrow> int option \<Rightarrow> string + message list" where
  "syncPages fetch conversationID 0 number found after bound = Inl ''conversation sync exceeded 10000 pages''"
| "syncPages fetch conversationID (Suc fuel) number found after bound =
     (case fetch number after bound of
        Inl err \<Rightarrow> Inl err
      | Inr page \<Rightarrow>
        if pg_ConversationID page \<noteq> conversationID then Inl (''response conversation '' @ FormatInt (pg_ConversationID page) @ '' does not match request'')
        else let snap = (case bound of None \<Rightarrow> pg_SnapshotCursor page | Some s \<Rightarrow> s)
             in case checkMessages conversationID snap after (pg_Messages page) of
                  Inl err \<Rightarrow> Inl err
                | Inr ms \<Rightarrow>
                  if \<not> pg_HasMore page then Inr (found @ ms)
                  else if pg_NextCursor page \<le> after then Inl ''conversation message cursor did not advance''
                  else syncPages fetch conversationID fuel (Suc number) (found @ ms) (pg_NextCursor page) (Some snap))"

definition syncOneConversation :: "(nat \<Rightarrow> int \<Rightarrow> int option \<Rightarrow> string + conversationMessagePage) \<Rightarrow> int \<Rightarrow> string + message list" where
  "syncOneConversation fetch conversationID = syncPages fetch conversationID 10000 0 [] 0 None"

fun syncConversations ::
  "(int \<Rightarrow> nat \<Rightarrow> int \<Rightarrow> int option \<Rightarrow> string + conversationMessagePage) \<Rightarrow> string \<Rightarrow> int list \<Rightarrow> int set \<Rightarrow> string + int set" where
  "syncConversations fetch prefix [] seen = Inr seen"
| "syncConversations fetch prefix (cid # cids) seen =
     (case syncOneConversation (fetch cid) cid of
        Inl err \<Rightarrow> Inl (''conversation '' @ FormatInt cid @ '': '' @ err)
      | Inr ms \<Rightarrow> syncConversations fetch prefix cids (seen \<union> set (map m_ID (filter (\<lambda>m. HasPrefix (m_ClientMessageID m) prefix) ms))))"

definition syncUser ::
  "(nat \<Rightarrow> int \<Rightarrow> int option \<Rightarrow> string + conversationListPage) \<Rightarrow> (int \<Rightarrow> nat \<Rightarrow> int \<Rightarrow> int option \<Rightarrow> string + conversationMessagePage) \<Rightarrow>
   string \<Rightarrow> string + int set" where
  "syncUser list fetch prefix = (case listConversationIDs list of Inl err \<Rightarrow> Inl err | Inr cids \<Rightarrow> syncConversations fetch prefix cids {})"

text \<open>
  The sets of expected messages as pairs of a user and a message. A message of somebody who is not
  a test user is an assignment to a nil map, a panic.
\<close>

definition expectedPairs :: "sendResult list \<Rightarrow> (int \<times> int) list" where
  "expectedPairs results = remdups (concat (map (\<lambda>r. if sn_err r \<noteq> [] then []
     else [(m_SenderID (sn_message r), m_ID (sn_message r)), (m_ReceiverID (sn_message r), m_ID (sn_message r))]) results))"

record sync_report =
  sy_expected :: nat
  sy_observed :: nat
  sy_missing :: "(int \<times> int) list"
  sy_err :: "string option"

fun verifyUsers :: "(int \<Rightarrow> string + int set) \<Rightarrow> (int \<times> int) list \<Rightarrow> int list \<Rightarrow> sync_report \<Rightarrow> sync_report" where
  "verifyUsers sync expected [] report = report"
| "verifyUsers sync expected (user # testUsers) report =
     (case sync user of
        Inl err \<Rightarrow> report\<lparr>sy_err := Some (''user '' @ FormatInt user @ '': '' @ err)\<rparr>
      | Inr seen \<Rightarrow> verifyUsers sync expected testUsers
          (report\<lparr>sy_observed := sy_observed report + length (filter (\<lambda>p. fst p = user \<and> snd p \<in> seen) expected),
                  sy_missing := sy_missing report @ filter (\<lambda>p. fst p = user \<and> snd p \<notin> seen) expected\<rparr>))"

definition verifySync :: "(int \<Rightarrow> string + int set) \<Rightarrow> int list \<Rightarrow> sendResult list \<Rightarrow> sync_report option" where
  "verifySync sync testUsers results =
     (let expected = expectedPairs results
      in if \<not> list_all (\<lambda>p. fst p \<in> set testUsers) expected then None
         else Some (verifyUsers sync expected testUsers \<lparr>sy_expected = length expected, sy_observed = 0, sy_missing = [], sy_err = None\<rparr>))"

section \<open>Statistics and the verdict\<close>

definition percentile :: "(int \<Rightarrow> int) \<Rightarrow> int list \<Rightarrow> int" where
  "percentile scaled sorted_values =
     (if sorted_values = [] then 0
      else let index = scaled (int (length sorted_values) - 1);
               index = (if index < 0 then 0 else index);
               index = (if index \<ge> int (length sorted_values) then int (length sorted_values) - 1 else index)
           in sorted_values ! nat index)"

record durationStats =
  st_Count :: nat
  st_P50 :: int
  st_P95 :: int
  st_P99 :: int
  st_Max :: int

definition calculateDurationStats :: "(int \<Rightarrow> int) \<Rightarrow> (int \<Rightarrow> int) \<Rightarrow> (int \<Rightarrow> int) \<Rightarrow> int list \<Rightarrow> durationStats" where
  "calculateDurationStats p50 p95 p99 values =
     (if values = [] then \<lparr>st_Count = 0, st_P50 = 0, st_P95 = 0, st_P99 = 0, st_Max = 0\<rparr>
      else let ordered = sort values
           in \<lparr>st_Count = length ordered, st_P50 = percentile p50 ordered, st_P95 = percentile p95 ordered,
               st_P99 = percentile p99 ordered, st_Max = last ordered\<rparr>)"

definition capStrings :: "string list \<Rightarrow> nat \<Rightarrow> string list" where
  "capStrings values limit =
     (if length values \<le> limit then values
      else take limit values @ [''... '' @ FormatInt (int (length values - limit)) @ '' more''])"

text \<open>The report as far as it decides the exit code; \<open>metricsErr\<close> is the failure of the last scrape.\<close>

definition requestErrors :: "send_summary \<Rightarrow> sync_report \<Rightarrow> string option \<Rightarrow> string list" where
  "requestErrors summary sync metricsErr =
     su_errors summary @ (case sy_err sync of None \<Rightarrow> [] | Some err \<Rightarrow> [''sync verification: '' @ err])
       @ (case metricsErr of None \<Rightarrow> [] | Some err \<Rightarrow> [''metrics after load: '' @ err])"

definition exitCode :: "config \<Rightarrow> send_summary \<Rightarrow> tracker_snapshot \<Rightarrow> sync_report \<Rightarrow> string option \<Rightarrow> int" where
  "exitCode cfg summary realtime sync metricsErr =
     (if cf_messages cfg - int (su_successful summary) > 0
         \<or> \<not> (sy_err sync = None \<and> sy_expected sync = sy_observed sync)
         \<or> ss_expected realtime \<noteq> ss_received realtime
         \<or> capStrings (requestErrors summary sync metricsErr) 100 \<noteq> [] \<or> capStrings (ss_readerErrors realtime) 100 \<noteq> []
         \<or> ss_unexpected realtime > 0
      then 1 else 0)"

section \<open>Client ids and participants\<close>

lemma digits_value_zeros: "digits_value (replicate k CHR ''0'' @ s) = digits_value s"
proof (induction k)
  case (Suc k)
  have "digits_value (CHR ''0'' # x) = digits_value x" for x by (simp add: digits_value_def)
  then show ?case using Suc by simp
qed simp

lemma pad_inj:
  assumes "0 \<le> m" and "0 \<le> n" and "pad w m = pad w n"
  shows "m = n"
proof -
  have "digits_value (pad w k) = nat k" if "0 \<le> k" for k
    using that by (simp add: pad_def digits_value_zeros FormatInt_def digits_value_format_nat)
  then show ?thesis using assms by (metis nat_eq_iff2 int_nat_eq)
qed

lemma client_id_inj: "0 \<le> i \<Longrightarrow> 0 \<le> j \<Longrightarrow> client_id runID i = client_id runID j \<longleftrightarrow> i = j"
  using pad_inj [of "i + 1" "j + 1" 8] by (auto simp: client_id_def)

lemma participants_differ:
  assumes "2 \<le> userCount" and "0 \<le> index" and "messageParticipants pattern index userCount = (sender, receiver)"
  shows "sender \<noteq> receiver \<and> 0 \<le> sender \<and> sender < userCount \<and> 0 \<le> receiver \<and> receiver < userCount"
proof (cases "pattern = trafficPatternHot")
  case True
  then have "sender = index mod 2" "receiver = 1 - index mod 2" using assms(3) by (auto simp: messageParticipants_def)
  moreover have "index mod 2 = 0 \<or> index mod 2 = 1" by presburger
  ultimately show ?thesis using assms(1) by (elim disjE) simp_all
next
  case False
  let ?s = "index mod userCount"
  have s: "sender = ?s" "receiver = (?s + 1) mod userCount" using False assms(3) by (auto simp: messageParticipants_def)
  have range: "0 \<le> ?s" "?s < userCount" using assms(1) by simp_all
  show ?thesis
  proof (cases "?s + 1 = userCount")
    case True
    then show ?thesis unfolding s using assms(1) by simp
  next
    case False
    then have "(?s + 1) mod userCount = ?s + 1" using range by (intro mod_pos_pos_trivial) auto
    then show ?thesis unfolding s using range False by simp
  qed
qed

section \<open>Results of sends\<close>

lemma summarizeLoop_counts:
  "su_successful (summarizeLoop results s) = su_successful s + length (filter (\<lambda>r. sn_err r = []) results)"
  "length (su_errors (summarizeLoop results s)) = length (su_errors s) + length (filter (\<lambda>r. sn_err r \<noteq> []) results)"
  "su_dropped (summarizeLoop results s) = su_dropped s + length (filter sn_dropped results)"
  "length (su_latencies (summarizeLoop results s)) = length (su_latencies s) + length (filter (\<lambda>r. \<not> sn_dropped r) results)"
  by (induction results arbitrary: s) (simp_all add: Let_def)

lemma summarizeSends_counts:
  "su_successful (summarizeSends results) = length (filter (\<lambda>r. sn_err r = []) results)"
  "length (su_errors (summarizeSends results)) = length (filter (\<lambda>r. sn_err r \<noteq> []) results)"
  by (simp_all add: summarizeSends_def summarizeLoop_counts)

text \<open>
  A request that is refused, not by a server error, is sent once more all the same, and when the
  second attempt creates the message the error of the first one stays: the message exists, is to
  be delivered to everybody and is counted as failed.
\<close>

theorem refused_send_is_repeated_and_miscounted:
  assumes "replies 1 = (status, None, None)" and "400 \<le> status" and "status < 500" and "replies 2 = (201, None, Some m)" and "m_ID m \<noteq> 0"
  shows "\<exists>result announced. sendOne cfg runID userCount started finished replies index = (result, announced, [])
    \<and> sn_message result = m \<and> sn_attempts result = 2 \<and> sn_err result = ''HTTP '' @ FormatInt status
    \<and> su_successful (summarizeSends [result]) = 0"
  using assms by (cases "messageParticipants (cf_trafficPattern cfg) index userCount")
    (simp add: sendOne_def sendAttempt_def Let_def summarizeSends_counts)

section \<open>Verification\<close>

definition seen_by :: "(int \<Rightarrow> string + int set) \<Rightarrow> int \<Rightarrow> int set" where
  "seen_by sync user = (case sync user of Inl err \<Rightarrow> {} | Inr seen \<Rightarrow> seen)"

lemma verifyUsers_counts:
  assumes "distinct us" and "sy_err (verifyUsers sync expected us rep) = None" and "sy_err rep = None"
  shows "sy_observed (verifyUsers sync expected us rep) = sy_observed rep + length (filter (\<lambda>p. fst p \<in> set us \<and> snd p \<in> seen_by sync (fst p)) expected)
    \<and> length (sy_missing (verifyUsers sync expected us rep)) =
      length (sy_missing rep) + length (filter (\<lambda>p. fst p \<in> set us \<and> snd p \<notin> seen_by sync (fst p)) expected)
    \<and> sy_expected (verifyUsers sync expected us rep) = sy_expected rep \<and> (\<forall>u \<in> set us. \<exists>seen. sync u = Inr seen)"
  using assms
proof (induction us arbitrary: rep)
  case (Cons u us)
  have split: "length (filter (\<lambda>p. fst p \<in> set (u # us) \<and> q p) expected) =
      length (filter (\<lambda>p. fst p = u \<and> q p) expected) + length (filter (\<lambda>p. fst p \<in> set us \<and> q p) expected)" for q
    using Cons.prems(1) by (induction expected) auto
  obtain seen where sync: "sync u = Inr seen" using Cons.prems(2) by (cases "sync u") auto
  have own: "fst p = u \<Longrightarrow> seen_by sync (fst p) = seen" for p :: "int \<times> int" using sync by (simp add: seen_by_def)
  let ?rep = "rep\<lparr>sy_observed := sy_observed rep + length (filter (\<lambda>p. fst p = u \<and> snd p \<in> seen) expected),
      sy_missing := sy_missing rep @ filter (\<lambda>p. fst p = u \<and> snd p \<notin> seen) expected\<rparr>"
  have same: "filter (\<lambda>p. fst p = u \<and> snd p \<in> seen_by sync (fst p)) expected = filter (\<lambda>p. fst p = u \<and> snd p \<in> seen) expected"
      "filter (\<lambda>p. fst p = u \<and> snd p \<notin> seen_by sync (fst p)) expected = filter (\<lambda>p. fst p = u \<and> snd p \<notin> seen) expected"
    using own by (auto intro: filter_cong)
  have step: "verifyUsers sync expected (u # us) rep = verifyUsers sync expected us ?rep" using sync by simp
  show ?case
    unfolding step split same using Cons.IH [of ?rep] Cons.prems sync unfolding step by simp
qed simp

lemma verifySync_counts:
  assumes "verifySync sync us results = Some rep" and "distinct us" and "sy_err rep = None"
  shows "sy_expected rep = sy_observed rep + length (sy_missing rep)"
    and "sy_expected rep = sy_observed rep \<Longrightarrow> p \<in> set (expectedPairs results) \<Longrightarrow> \<exists>seen. sync (fst p) = Inr seen \<and> snd p \<in> seen"
proof -
  let ?E = "expectedPairs results"
  have users: "\<forall>p \<in> set ?E. fst p \<in> set us" and rep: "rep = verifyUsers sync ?E us \<lparr>sy_expected = length ?E, sy_observed = 0, sy_missing = [], sy_err = None\<rparr>"
    using assms(1) by (auto simp: verifySync_def Let_def list_all_iff split: if_splits)
  note counts = verifyUsers_counts [OF assms(2), of sync ?E "\<lparr>sy_expected = length ?E, sy_observed = 0, sy_missing = [], sy_err = None\<rparr>", folded rep, OF assms(3)]
  have filt: "filter (\<lambda>p. fst p \<in> set us \<and> q p) ?E = filter q ?E" for q using users by (auto intro: filter_cong)
  have len: "length (filter (\<lambda>p. snd p \<in> seen_by sync (fst p)) ?E) + length (filter (\<lambda>p. snd p \<notin> seen_by sync (fst p)) ?E) = length ?E"
    by (rule sum_length_filter_compl)
  show sum: "sy_expected rep = sy_observed rep + length (sy_missing rep)" using counts len by (simp add: filt)
  assume "sy_expected rep = sy_observed rep" and p: "p \<in> set ?E"
  then have "filter (\<lambda>p. snd p \<notin> seen_by sync (fst p)) ?E = []" using sum counts by (simp add: filt)
  then have "snd p \<in> seen_by sync (fst p)" using p by (auto simp: filter_empty_conv)
  moreover obtain seen where "sync (fst p) = Inr seen" using counts users p by auto
  ultimately show "\<exists>seen. sync (fst p) = Inr seen \<and> snd p \<in> seen" by (simp add: seen_by_def)
qed

section \<open>Reading a conversation of the server\<close>

definition page_reply :: "int \<Rightarrow> (int \<Rightarrow> int option \<Rightarrow> (message list \<times> int \<times> int \<times> bool) option) \<Rightarrow> int \<Rightarrow> int option \<Rightarrow> string + conversationMessagePage" where
  "page_reply cid fetch after bound =
     (case fetch after bound of
        None \<Rightarrow> Inl ''HTTP''
      | Some (ms, next, snap, further) \<Rightarrow>
          Inr \<lparr>pg_ConversationID = cid, pg_Messages = ms, pg_NextCursor = next, pg_SnapshotCursor = snap, pg_HasMore = further\<rparr>)"

text \<open>A stream of numbered messages of one conversation.\<close>

locale message_stream = snapshot_stream fetch item stream_last ready later
  for fetch :: "'s \<Rightarrow> int \<Rightarrow> int \<Rightarrow> int option \<Rightarrow> (message list \<times> int \<times> int \<times> bool) option" and item and stream_last and ready and later +
  fixes cid :: int
  assumes item_fields: "ready s \<Longrightarrow> 1 \<le> k \<Longrightarrow> k \<le> stream_last s \<Longrightarrow> m_ConversationID (item s k) = cid \<and> m_ConversationSeq (item s k) = k"
    and last_nonneg: "ready s \<Longrightarrow> 0 \<le> stream_last s"
begin

lemma checkMessages_items:
  assumes "ready s" and "0 \<le> after" and "upper \<le> snap" and "snap \<le> stream_last s"
  shows "checkMessages cid snap after (map (item s) [after + 1..upper]) = Inr (map (item s) [after + 1..upper])"
  using assms(2)
proof (induction "nat (upper - after)" arbitrary: after)
  case (Suc n)
  then have range: "after + 1 \<le> upper" by simp
  have list: "[after + 1..upper] = (after + 1) # [after + 1 + 1..upper]" using range by (simp add: upto_rec1)
  have "checkMessages cid snap (after + 1) (map (item s) [after + 1 + 1..upper]) = Inr (map (item s) [after + 1 + 1..upper])"
    by (rule Suc.hyps(1)) (use Suc in simp_all)
  then show ?case unfolding list using item_fields [OF assms(1), of "after + 1"] Suc.prems range assms(3,4) by simp
qed simp

lemma syncPages_snapshot:
  assumes "\<And>i. ready (states i)" and "\<And>i. later s (states i)" and "ready s" and "snap \<le> stream_last s"
    and "0 \<le> after" and "after \<le> snap" and "snap - after < 200 * int fuel"
  shows "syncPages (\<lambda>i. page_reply cid (\<lambda>a b. fetch (states i) a 200 b)) cid fuel i found after (Some snap) =
    Inr (found @ map (item s) [after + 1..snap])"
  using assms(5-7)
proof (induction fuel arbitrary: i found after)
  case (Suc fuel)
  have le: "snap \<le> stream_last (states i)" using later_last [OF assms(3,1,2), of i] assms(4) by simp
  have same: "map (item (states i)) [after + 1..j] = map (item s) [after + 1..j]" if "j \<le> snap" for j
    using that Suc.prems(1) assms(4) by (auto intro!: later_item assms(1-3))
  let ?upper = "min snap (after + 200)"
  have page: "page_reply cid (\<lambda>a b. fetch (states i) a 200 b) after (Some snap) =
      Inr \<lparr>pg_ConversationID = cid, pg_Messages = map (item (states i)) [after + 1..?upper], pg_NextCursor = ?upper, pg_SnapshotCursor = snap,
        pg_HasMore = (after + 200 < snap)\<rparr>"
    using fetch_page [OF assms(1) Suc.prems(1,2) le, of 200] by (simp add: page_reply_def)
  note check = checkMessages_items [OF assms(1) Suc.prems(1) _ le, of ?upper]
  show ?case
  proof (cases "after + 200 < snap")
    case True
    then have "[after + 1..snap] = [after + 1..after + 200] @ [after + 200 + 1..snap]" by (intro upto_split2) auto
    moreover have "syncPages (\<lambda>i. page_reply cid (\<lambda>a b. fetch (states i) a 200 b)) cid fuel (Suc i) (found @ map (item s) [after + 1..after + 200]) (after + 200) (Some snap) =
        Inr ((found @ map (item s) [after + 1..after + 200]) @ map (item s) [after + 200 + 1..snap])"
      by (rule Suc.IH) (use Suc.prems True in simp_all)
    ultimately show ?thesis using page check True same [of "after + 200"] by (simp add: min_absorb2)
  next
    case False
    then show ?thesis using page check same [of snap] by (simp add: min_absorb1)
  qed
qed simp

lemma syncOneConversation_complete:
  assumes "\<And>i. ready (states i)" and "\<And>i. later (states 0) (states i)" and "stream_last (states 0) < 2000000"
  shows "syncOneConversation (\<lambda>i. page_reply cid (\<lambda>a b. fetch (states i) a 200 b)) cid = Inr (map (item (states 0)) [1..stream_last (states 0)])"
proof -
  let ?fetch = "\<lambda>i. page_reply cid (\<lambda>a b. fetch (states i) a 200 b)" and ?last = "stream_last (states 0)"
  have last: "0 \<le> ?last" by (rule last_nonneg [OF assms(1)])
  have fuel: "(10000 :: nat) = Suc 9999" by simp
  have "?fetch 0 0 None = ?fetch 0 0 (Some ?last)"
    using fetch_first [OF assms(1), of 0 0 200] last by (simp add: page_reply_def)
  moreover have "pg_SnapshotCursor page = ?last" if "?fetch 0 0 (Some ?last) = Inr page" for page
    using that fetch_page [OF assms(1), of 0 ?last 0 200] last by (auto simp: page_reply_def)
  ultimately have "syncPages ?fetch cid 10000 0 [] 0 None = syncPages ?fetch cid 10000 0 [] 0 (Some ?last)"
    unfolding fuel syncPages.simps by (auto simp: Let_def split: sum.splits)
  then show ?thesis
    unfolding syncOneConversation_def
    using syncPages_snapshot [OF assms(1,2,1) order.refl _ last, where fuel = 10000 and i = 0 and found = "[]"] assms(3) last by simp
qed

end

interpretation loaded: message_stream "server_fetch uid cid" "message_at cid" "stream_end cid" "readable uid cid" db_le cid
  for uid cid
proof (unfold_locales, goal_cases)
  case (1 s k)
  then show ?case using message_at_seq [of s cid uid k] by (auto simp: readable_def conversation_messages_def)
next
  case (2 s)
  then show ?case using stream_seqs(2) [of s cid uid] by (simp add: readable_def)
qed


text \<open>
  The load test reads whole conversations. When a member's pages are answered by the server,
  in states that only grow from one request to the next, the verification of a conversation ends
  without an error and returns exactly the messages the conversation had at the first request, in
  order, as long as there are fewer than two million.
\<close>

theorem load_test_reads_the_whole_conversation:
  assumes "\<And>i. readable uid cid (states i)" and "\<And>i. db_le (states 0) (states i)" and "stream_end cid (states 0) < 2000000"
  shows "syncOneConversation (\<lambda>i. page_reply cid (\<lambda>after bound. server_fetch uid cid (states i) after 200 bound)) cid =
    Inr (map (message_at cid (states 0)) [1..stream_end cid (states 0)])"
  by (rule loaded.syncOneConversation_complete) (use assms in simp_all)

theorem load_test_reads_witness:
  "syncOneConversation (\<lambda>i. page_reply 1 (\<lambda>after bound. server_fetch 2 1 hello_db after 200 bound)) 1 = Inr [hello_message]"
proof -
  have "is_member hello_db 1 2" "stream_end 1 hello_db = 1" "message_at 1 hello_db 1 = hello_message" "[1..1::int] = [1]" "fits_int64 1"
    by code_simp+
  then show ?thesis
    using load_test_reads_the_whole_conversation [of 2 1 "\<lambda>_. hello_db"] chat_inv_hello_db
    by (simp add: readable_def int64_max_def)
qed

section \<open>A passing run\<close>

lemma capStrings_empty [simp]: "0 < limit \<Longrightarrow> capStrings values limit = [] \<longleftrightarrow> values = []"
  by (auto simp: capStrings_def)

lemma summarizeSends_errors: "su_errors (summarizeSends results) = [] \<Longrightarrow> result \<in> set results \<Longrightarrow> sn_err result = []"
  using summarizeSends_counts(2) [of results] by (auto simp: filter_empty_conv)

lemma set_sendLoad: "set (sendLoad cfg runID fate arrival) = sendIndex cfg runID fate ` set arrival"
  by (simp add: sendLoad_def)

lemma sendIndex_succeeded:
  assumes "sn_err (sendIndex cfg runID fate index) = []"
  shows "fate index = Ran (sendIndex cfg runID fate index)"
  using assms by (cases "fate index") (auto simp: sendIndex_def droppedSend_def)

lemma sendOne_succeeded:
  assumes "sn_err (fst (sendOne cfg runID userCount started finished replies index)) = []"
    and "messageParticipants (cf_trafficPattern cfg) index userCount = (sender, receiver)"
  shows "snd (sendOne cfg runID userCount started finished replies index) =
    ([Expect (client_id runID index) started
       (concat (map (\<lambda>device. [device_label sender device, device_label receiver device]) [0..cf_devicesPerUser cfg - 1]))], [])"
  using assms by (auto simp: sendOne_def Let_def split: if_splits)

lemma expectedPairs_succeeded:
  "result \<in> set results \<Longrightarrow> sn_err result = [] \<Longrightarrow>
   (m_SenderID (sn_message result), m_ID (sn_message result)) \<in> set (expectedPairs results) \<and>
   (m_ReceiverID (sn_message result), m_ID (sn_message result)) \<in> set (expectedPairs results)"
  unfolding expectedPairs_def by force

lemma exitCode_zero:
  assumes "exitCode cfg summary realtime sync metricsErr = 0"
  shows "su_errors summary = []" "sy_err sync = None" "sy_expected sync = sy_observed sync" "ss_expected realtime = ss_received realtime"
    "ss_unexpected realtime = 0"
  using assms by (auto simp: exitCode_def requestErrors_def split: if_splits option.splits)

text \<open>
  The operations on the tracker of one run: each send that ran announced its deliveries, and a
  message is withdrawn by its own send only. Anything else the readers of the connections add.
\<close>

definition run_ops :: "(int \<Rightarrow> send_fate) \<Rightarrow> (int \<Rightarrow> sendResult \<times> tracker_op list \<times> tracker_op list) \<Rightarrow> string \<Rightarrow> tracker_op list \<Rightarrow> bool" where
  "run_ops fate sends runID ops \<longleftrightarrow> distinct (expect_ids ops)
     \<and> (\<forall>index result. 0 \<le> index \<longrightarrow> fate index = Ran result \<longrightarrow> result = fst (sends index) \<and> set (fst (snd (sends index))) \<subseteq> set ops)
     \<and> (\<forall>clientID. Drop clientID \<in> set ops \<longrightarrow>
          (\<exists>index \<ge> 0. clientID = client_id runID index \<and> Drop clientID \<in> set (snd (snd (sends index)))))"

lemma run_ops_succeeded:
  assumes "run_ops fate sends runID ops" and "0 \<le> index" and "fate index = Ran result" and "sn_err result = []"
    and "sends = (\<lambda>i. sendOne cfg runID userCount (started i) (finished i) (replies i) i)"
    and "messageParticipants (cf_trafficPattern cfg) index userCount = (sender, receiver)"
    and "0 \<le> device" and "device < cf_devicesPerUser cfg"
  shows "(client_id runID index, device_label sender device) \<in> rt_expected (fold reference_op ops r)"
    and "(client_id runID index, device_label receiver device) \<in> rt_expected (fold reference_op ops r)"
proof -
  let ?labels = "concat (map (\<lambda>device. [device_label sender device, device_label receiver device]) [0..cf_devicesPerUser cfg - 1])"
  have result: "result = fst (sends index)" and sub: "set (fst (snd (sends index))) \<subseteq> set ops"
    using assms(1-3) by (auto simp: run_ops_def)
  then have own: "snd (sends index) = ([Expect (client_id runID index) (started index) ?labels], [])"
    using assms(4-6) by (auto simp: sendOne_succeeded)
  have announced: "Expect (client_id runID index) (started index) ?labels \<in> set ops" using sub own by simp
  have kept: "\<not> Drop (client_id runID index) \<in> set ops"
  proof
    assume "Drop (client_id runID index) \<in> set ops"
    then obtain j where j: "0 \<le> j" "client_id runID index = client_id runID j" "Drop (client_id runID index) \<in> set (snd (snd (sends j)))"
      using assms(1) unfolding run_ops_def by blast
    then have "j = index" using client_id_inj [OF assms(2) j(1)] by simp
    then show False using j(3) own by simp
  qed
  show "(client_id runID index, device_label sender device) \<in> rt_expected (fold reference_op ops r)"
    by (rule announced_expected [OF announced kept]) (use assms(7,8) in auto)
  show "(client_id runID index, device_label receiver device) \<in> rt_expected (fold reference_op ops r)"
    by (rule announced_expected [OF announced kept]) (use assms(7,8) in auto)
qed

text \<open>
  C30: A load test that ends with code 0 delivered everything. Every one of its messages was sent,
  without an error and with an id; both users of the message find it when they synchronise; and
  every device of both received its realtime event, none of them one it was not to receive.
\<close>

theorem passing_load_test_delivered_everything:
  assumes "set arrival = {0..<cf_messages cfg}" and "results = sendLoad cfg runID fate arrival"
    and "sends = (\<lambda>i. sendOne cfg runID userCount (started i) (finished i) (replies i) i)" and "run_ops fate sends runID ops"
    and "verifySync sync testUsers results = Some rep" and "distinct testUsers"
    and "exitCode cfg (summarizeSends results) (snapshot (fold apply_op ops newTracker)) rep metricsErr = 0"
    and "0 \<le> index" and "index < cf_messages cfg" and "m = sn_message (fst (sends index))"
    and "messageParticipants (cf_trafficPattern cfg) index userCount = (sender, receiver)"
    and "received = rt_received (fold reference_op ops no_deliveries)"
  shows "sn_err (fst (sends index)) = [] \<and> m_ID m \<noteq> 0
    \<and> (\<forall>user \<in> {m_SenderID m, m_ReceiverID m}. \<exists>seen. sync user = Inr seen \<and> m_ID m \<in> seen)
    \<and> (\<forall>device \<in> {0..<cf_devicesPerUser cfg}.
         (client_id runID index, device_label sender device) \<in> received \<and> (client_id runID index, device_label receiver device) \<in> received)
    \<and> rt_unexpected (fold reference_op ops no_deliveries) = 0"
proof -
  let ?t = "fold apply_op ops newTracker" and ?r = "fold reference_op ops no_deliveries" and ?result = "sendIndex cfg runID fate index"
  note zero = exitCode_zero [OF assms(7)]
  have mem: "?result \<in> set results" using assms(1,2,8,9) by (simp add: set_sendLoad)
  have ok: "sn_err ?result = []" by (rule summarizeSends_errors [OF zero(1) mem])
  have ran: "fate index = Ran ?result" by (rule sendIndex_succeeded [OF ok])
  then have result: "?result = fst (sends index)" using assms(4,8) by (auto simp: run_ops_def)
  have distinct: "distinct (expect_ids ops)" using assms(4) by (simp add: run_ops_def)
  note inv = fold_newTracker(1) [OF distinct]
  have sets: "rt_received ?r = received_set ?t" "rt_expected ?r = expected_set ?t" "rt_unexpected ?r = tr_unexpected ?t"
    unfolding fold_newTracker(2) [OF distinct, symmetric] by (simp_all add: reference_of_def)
  have all: "rt_received ?r = rt_expected ?r"
    unfolding sets received_all_iff [OF inv] using snapshot_counts [OF inv] zero(4) by simp
  have "m_ID m \<noteq> 0" using ok result unfolding assms(3,10)
    by (auto simp: sendOne_def Let_def split: if_splits prod.splits)
  moreover have "\<exists>seen. sync user = Inr seen \<and> m_ID m \<in> seen" if "user = m_SenderID m \<or> user = m_ReceiverID m" for user
    using verifySync_counts(2) [OF assms(5,6) zero(2,3)] expectedPairs_succeeded [OF mem ok] that result unfolding assms(10) by force
  moreover have "rt_unexpected ?r = 0" using zero(5) by (simp add: sets(3) snapshot_def)
  ultimately show ?thesis
    using ok result run_ops_succeeded [OF assms(4,8) ran ok assms(3,11), of _ no_deliveries] unfolding assms(12) all by auto
qed

definition small_load :: config where
  "small_load = \<lparr>cf_baseURL = [], cf_metricsURL = [], cf_databaseURL = [], cf_allowedDB = ''im_test'', cf_users = 2, cf_devicesPerUser = 1,
     cf_messages = 1, cf_concurrency = 1, cf_targetRate = 0, cf_trafficPattern = ''ring'', cf_requestTimeout = 10, cf_deliveryWait = 30,
     cf_metricSampleInterval = 1, cf_allowWrite = True\<rparr>"

definition small_message :: message where
  "small_message = zero_message\<lparr>m_ID := 7, m_ConversationID := 1, m_ConversationSeq := 1, m_SenderID := 1, m_ReceiverID := 2\<rparr>"

definition small_send :: "int \<Rightarrow> sendResult \<times> tracker_op list \<times> tracker_op list" where
  "small_send index = sendOne small_load ''r'' 2 0 5 (\<lambda>_. (201, None, Some small_message)) index"

definition small_ops :: "tracker_op list" where
  "small_ops = [Expect ''msg_r_00000001'' 0 [''u01-d01'', ''u02-d01''], Observe 3 ''u01-d01'' ''msg_r_00000001'', Observe 4 ''u02-d01'' ''msg_r_00000001'']"

lemma small_send_first:
  "client_id ''r'' 0 = ''msg_r_00000001''" "device_label 0 0 = ''u01-d01''" "device_label 1 0 = ''u02-d01''"
  "messageParticipants (cf_trafficPattern small_load) 0 2 = (0, 1)"
  by code_simp+

lemma small_load_devices: "cf_devicesPerUser small_load = 1" "cf_messages small_load = 1"
  by (simp_all add: small_load_def)

lemma small_run_ops:
  "run_ops (\<lambda>index. if index = 0 then Ran (fst (small_send 0)) else LoadCancelled) small_send ''r'' small_ops"
proof -
  have "fst (snd (small_send 0)) = [hd small_ops]" by code_simp
  then show ?thesis by (auto simp: run_ops_def small_ops_def split: if_splits)
qed

lemma small_snapshot:
  "ss_expected (snapshot (fold apply_op small_ops newTracker)) = 2" "ss_received (snapshot (fold apply_op small_ops newTracker)) = 2"
  "ss_unexpected (snapshot (fold apply_op small_ops newTracker)) = 0" "ss_readerErrors (snapshot (fold apply_op small_ops newTracker)) = []"
proof -
  let ?t = "fold apply_op small_ops newTracker"
  have distinct: "distinct (expect_ids small_ops)" by (simp add: small_ops_def)
  have "reference_of ?t = \<lparr>rt_expected = {''msg_r_00000001''} \<times> {''u01-d01'', ''u02-d01''},
      rt_received = {(''msg_r_00000001'', ''u02-d01''), (''msg_r_00000001'', ''u01-d01'')}, rt_unexpected = 0, rt_duplicate = 0, rt_errors = []\<rparr>"
    unfolding fold_newTracker(2) [OF distinct] by (simp add: small_ops_def no_deliveries_def)
  then have sets: "expected_set ?t = {''msg_r_00000001''} \<times> {''u01-d01'', ''u02-d01''}"
      "received_set ?t = {(''msg_r_00000001'', ''u02-d01''), (''msg_r_00000001'', ''u01-d01'')}"
      "tr_unexpected ?t = 0" "tr_readerErrors ?t = []"
    by (simp_all add: reference_of_def)
  show "ss_expected (snapshot ?t) = 2" "ss_received (snapshot ?t) = 2" "ss_unexpected (snapshot ?t) = 0" "ss_readerErrors (snapshot ?t) = []"
    using snapshot_counts [OF fold_newTracker(1) [OF distinct]] sets by (simp_all add: card_cartesian_product snapshot_def)
qed

theorem passing_load_test_witness:
  "m_ID (sn_message (fst (small_send 0))) \<noteq> 0
   \<and> (''msg_r_00000001'', ''u02-d01'') \<in> rt_received (fold reference_op small_ops no_deliveries)"
proof -
  let ?fate = "\<lambda>index :: int. if index = 0 then Ran (fst (small_send 0)) else LoadCancelled" and ?sync = "\<lambda>user :: int. Inr {7} :: string + int set"
  let ?results = "sendLoad small_load ''r'' ?fate [0]"
  let ?rep = "\<lparr>sy_expected = 2, sy_observed = 2, sy_missing = [], sy_err = None\<rparr>"
  have sends: "small_send = (\<lambda>i. sendOne small_load ''r'' 2 0 5 (\<lambda>_. (201, None, Some small_message)) i)" by (simp add: fun_eq_iff small_send_def)
  have arrival: "set [0] = {0..<cf_messages small_load}" by (auto simp: small_load_def)
  have "{0..<1::int} = {0}" by auto
  moreover have "verifySync ?sync [1, 2] ?results = Some ?rep" by code_simp
  moreover have "exitCode small_load (summarizeSends ?results) (snapshot (fold apply_op small_ops newTracker)) ?rep None = 0"
  proof -
    have "summarizeSends ?results = \<lparr>su_successful = 1, su_recovered = 0, su_dropped = 0, su_errors = [], su_latencies = [5]\<rparr>" by code_simp
    then show ?thesis by (simp add: exitCode_def requestErrors_def small_snapshot capStrings_def small_load_def)
  qed
  ultimately show ?thesis
    using passing_load_test_delivered_everything [OF arrival refl sends small_run_ops, of ?sync "[1, 2]" ?rep None 0, OF _ _ _ _ _ refl small_send_first(4) refl]
    by (auto simp: small_send_first small_load_devices)
qed

end
