(* ===== verification/Server.thy ===== *)
theory Server
  imports MessageHistory AuthSessions Outbox
begin

text \<open>
  The HTTP surface of the server, \<^verbatim>\<open>main.go\<close>: the table of routes with its matching, the decoding of request
  bodies, the authentication in front of the protected routes and the handlers behind them, as one
  function from a request and a database to an answer, the connections to close and the new
  database. What the other requests do meanwhile is an argument at every point where the handlers
  have one; the theory shows that a request does to the others what it expects from them.
\<close>

section \<open>Requests\<close>

text \<open>The escaped path is split at its slashes; header and query are those of \<open>net/http\<close>.\<close>

record http_request =
  hr_Method :: string
  hr_Path :: "string list"
  hr_Query :: url_values
  hr_Authorization :: string
  hr_Body :: string

definition maxRequestBodyBytes :: nat where
  "maxRequestBodyBytes = 1048576"

definition json_space :: "char \<Rightarrow> bool" where
  "json_space c \<longleftrightarrow> c \<in> {CHR '' '', CHR 0x09, CHR 0x0A, CHR 0x0D}"

text \<open>
  \<open>decode\<close> reads one value of the destination's type without unknown fields and returns the rest
  of the body. The second call of the decoder has to find the end of the body, which is cut at its
  limit by an error of the reader.
\<close>

definition decodeSingleJSON :: "(string \<Rightarrow> ('a \<times> string) option) \<Rightarrow> string \<Rightarrow> 'a option" where
  "decodeSingleJSON decode body =
     (if length body > maxRequestBodyBytes then None
      else case decode body of None \<Rightarrow> None | Some (v, rest) \<Rightarrow> if list_all json_space rest then Some v else None)"

section \<open>Routes\<close>

datatype endpoint =
    Health | RegisterAccount | Login | Refresh | Logout | LogoutAll | ListSessions | RevokeSession | ChangePassword
  | CreateMessage | ListMessages | ListConversations | SyncConversationMessages | AcknowledgeConversation
  | SyncMessages | AcknowledgeMessages | ServeWebSocket

text \<open>The pattern, whether \<open>requireAuthentication\<close> stands in front of the handler, and the handler.\<close>

definition routes :: "(string \<times> bool \<times> endpoint) list" where
  "routes =
     [(''GET /health'', False, Health),
      (''POST /auth/register'', False, RegisterAccount),
      (''POST /auth/login'', False, Login),
      (''POST /auth/refresh'', False, Refresh),
      (''POST /auth/logout'', True, Logout),
      (''POST /auth/logout-all'', True, LogoutAll),
      (''GET /auth/sessions'', True, ListSessions),
      (''DELETE /auth/sessions/{sessionID}'', True, RevokeSession),
      (''POST /auth/password'', True, ChangePassword),
      (''POST /messages'', True, CreateMessage),
      (''GET /messages'', True, ListMessages),
      (''GET /conversations'', True, ListConversations),
      (''GET /conversations/{conversationID}/messages'', True, SyncConversationMessages),
      (''POST /conversations/{conversationID}/ack'', True, AcknowledgeConversation),
      (''GET /messages/sync'', True, SyncMessages),
      (''POST /messages/ack'', True, AcknowledgeMessages),
      (''GET /ws'', True, ServeWebSocket)]"

definition pattern_method :: "string \<Rightarrow> string" where
  "pattern_method pattern = takeWhile (\<lambda>c. c \<noteq> CHR '' '') pattern"

definition pattern_path :: "string \<Rightarrow> string list" where
  "pattern_path pattern = split_at CHR ''/'' (tl (dropWhile (\<lambda>c. c \<noteq> CHR '' '') pattern))"

text \<open>A segment in braces matches any segment that is not empty and is passed to the handler.\<close>

fun match_path :: "string list \<Rightarrow> string list \<Rightarrow> string list option" where
  "match_path [] [] = Some []"
| "match_path (p # ps) (s # ss) =
     (if take 1 p = ''{'' then (if s = [] then None else map_option (Cons s) (match_path ps ss))
      else if p = s then match_path ps ss else None)"
| "match_path _ _ = None"

definition match_method :: "string \<Rightarrow> string \<Rightarrow> bool" where
  "match_method pattern requested \<longleftrightarrow> pattern = requested \<or> pattern = ''GET'' \<and> requested = ''HEAD''"

definition unhex :: "char \<Rightarrow> nat option" where
  "unhex c =
     (let n = byte c in
      if 48 \<le> n \<and> n \<le> 57 then Some (n - 48)
      else if 97 \<le> n \<and> n \<le> 102 then Some (n - 87)
      else if 65 \<le> n \<and> n \<le> 70 then Some (n - 55) else None)"

fun pathUnescape :: "string \<Rightarrow> string option" where
  "pathUnescape [] = Some []"
| "pathUnescape (c # s) =
     (if c = CHR ''%'' then
        (case s of
           a # b # t \<Rightarrow> (case (unhex a, unhex b) of
               (Some x, Some y) \<Rightarrow> map_option (Cons (char_of (16 * x + y))) (pathUnescape t)
             | _ \<Rightarrow> None)
         | _ \<Rightarrow> None)
      else map_option (Cons c) (pathUnescape s))"

text \<open>
  \<open>ServeMux\<close> sends a request for an unclean path to the clean one and matches the segments of the
  escaped path one by one, each unescaped when that is possible.
\<close>

definition path_segment :: "string \<Rightarrow> string" where
  "path_segment s = (case pathUnescape s of None \<Rightarrow> s | Some u \<Rightarrow> u)"

fun clean_loop :: "string list \<Rightarrow> string list \<Rightarrow> string list" where
  "clean_loop kept [] = rev kept"
| "clean_loop kept (s # ss) =
     (if s = [] \<or> s = ''.'' then clean_loop kept ss
      else if s = ''..'' then clean_loop (tl kept) ss else clean_loop (s # kept) ss)"

definition cleanPath :: "string list \<Rightarrow> string list" where
  "cleanPath path =
     (let rooted = (if path = [] \<or> hd path \<noteq> [] then [] # path else path);
          kept = clean_loop [] (tl rooted)
      in if kept = [] then [[], []] else [] # kept @ (if last rooted = [] then [[]] else []))"

datatype dispatched = Redirect | NotFound | MethodNotAllowed | Matched bool endpoint "string list"

definition route_for :: "string \<Rightarrow> string list \<Rightarrow> (string \<times> bool \<times> endpoint) option" where
  "route_for requested path =
     find (\<lambda>(pattern, protected, ep). match_method (pattern_method pattern) requested
             \<and> match_path (pattern_path pattern) (map path_segment path) \<noteq> None) routes"

definition dispatch :: "string \<Rightarrow> string list \<Rightarrow> dispatched" where
  "dispatch requested path =
     (if requested \<noteq> ''CONNECT'' \<and> cleanPath path \<noteq> path then Redirect
      else case route_for requested path of
             Some (pattern, protected, ep) \<Rightarrow> Matched protected ep (the (match_path (pattern_path pattern) (map path_segment path)))
           | None \<Rightarrow>
             if list_ex (\<lambda>(pattern, protected, ep). match_path (pattern_path pattern) (map path_segment path) \<noteq> None) routes
             then MethodNotAllowed else NotFound)"

section \<open>Answers\<close>

datatype payload =
    HealthBody
  | AuthBody authResponse
  | SessionsBody "sessionResponse list"
  | MessageBody message
  | HistoryBody messageHistoryPage
  | ConversationsBody conversationListResponse
  | PageBody conversationMessagePage
  | SyncStateBody deviceConversationSyncState
  | NoPayload

datatype http_outcome = Answered "payload response" | Upgrading authenticated | Redirected | PlainStatus int

text \<open>The decoders of the request bodies and of the history cursor.\<close>

record decoders =
  dc_register :: "string \<Rightarrow> (registerRequest \<times> string) option"
  dc_login :: "string \<Rightarrow> (loginRequest \<times> string) option"
  dc_refresh :: "string \<Rightarrow> (refreshRequest \<times> string) option"
  dc_password :: "string \<Rightarrow> (changePasswordRequest \<times> string) option"
  dc_message :: "string \<Rightarrow> (createMessageRequest \<times> string) option"
  dc_ack :: "string \<Rightarrow> (int option \<times> string) option"
  dc_cursor :: "byte_string \<Rightarrow> messageHistoryCursor option"

text \<open>
  The environment of one request: the failures, clocks and interferences of the authentication and
  of the handler, what the others commit between the two, and the decision of the rate limiter.
\<close>

record server_env =
  ev_check :: auth_env
  ev_between :: "db \<Rightarrow> db"
  ev_auth :: auth_env
  ev_send :: send_env
  ev_read :: read_env
  ev_limiter :: admission_result
  ev_health_fails :: bool

definition syncMessages :: "'a response" where
  "syncMessages = APIError 410 ''ENDPOINT_GONE''
     ''user-level message sync was replaced by GET /conversations and GET /conversations/{conversationID}/messages''"

definition health :: "bool \<Rightarrow> payload response" where
  "health fails =
     (if fails then APIError 503 ''DEPENDENCY_UNAVAILABLE'' ''database is temporarily unavailable'' else JSON 200 HealthBody)"

definition close_of :: "(int \<times> int) option \<Rightarrow> disconnection list" where
  "close_of replayed = (case replayed of None \<Rightarrow> [] | Some (userID, sessionID) \<Rightarrow> [DisconnectSessionOf userID sessionID])"

section \<open>Serving a request\<close>

definition serve_public ::
  "crypto \<Rightarrow> decoders \<Rightarrow> server_env \<Rightarrow> http_request \<Rightarrow> endpoint \<Rightarrow> db \<Rightarrow> payload response \<times> disconnection list \<times> db" where
  "serve_public cr dc env r ep d =
     (case ep of
        RegisterAccount \<Rightarrow>
          (case register cr (ev_auth env) (ev_limiter env) (decodeSingleJSON (dc_register dc) (hr_Body r)) d of
             (resp, d') \<Rightarrow> (map_response AuthBody resp, [], d'))
      | Login \<Rightarrow>
          (case login cr (ev_auth env) (ev_limiter env) (decodeSingleJSON (dc_login dc) (hr_Body r)) d of
             (resp, d') \<Rightarrow> (map_response AuthBody resp, [], d'))
      | Refresh \<Rightarrow>
          (case refresh cr (ev_auth env) (ev_limiter env) (decodeSingleJSON (dc_refresh dc) (hr_Body r)) d of
             (resp, replayed, d') \<Rightarrow> (map_response AuthBody resp, close_of replayed, d'))
      | _ \<Rightarrow> (health (ev_health_fails env), [], d))"

definition no_payload :: "unit response \<times> disconnection list \<times> db \<Rightarrow> http_outcome \<times> disconnection list \<times> db" where
  "no_payload x = (case x of (resp, closed, d) \<Rightarrow> (Answered (map_response (\<lambda>_. NoPayload) resp), closed, d))"

definition serve_private ::
  "crypto \<Rightarrow> decoders \<Rightarrow> server_env \<Rightarrow> http_request \<Rightarrow> endpoint \<Rightarrow> string list \<Rightarrow> authenticated \<Rightarrow> db \<Rightarrow>
   http_outcome \<times> disconnection list \<times> db" where
  "serve_private cr dc env r ep arguments who d =
     (case ep of
        Logout \<Rightarrow> no_payload (logout (ev_auth env) (au_UserID who) (au_SessionID who) d)
      | LogoutAll \<Rightarrow> no_payload (logoutAll (ev_auth env) (au_UserID who) d)
      | ListSessions \<Rightarrow> (Answered (map_response SessionsBody (listSessions (ev_auth env) (au_UserID who) (au_SessionID who) d)), [], d)
      | RevokeSession \<Rightarrow> no_payload (revokeSession (ev_auth env) (au_UserID who) (hd arguments) d)
      | ChangePassword \<Rightarrow>
          no_payload (changePassword cr (ev_auth env) (au_UserID who) (decodeSingleJSON (dc_password dc) (hr_Body r)) d)
      | CreateMessage \<Rightarrow>
          (case createMessage (ev_send env) (au_UserID who) (decodeSingleJSON (dc_message dc) (hr_Body r)) d of
             (resp, d') \<Rightarrow> (Answered (map_response MessageBody resp), [], d'))
      | ListMessages \<Rightarrow> (Answered (map_response HistoryBody (listMessages (dc_cursor dc) (ev_read env) (au_UserID who) (hr_Query r) d)), [], rd_others (ev_read env) d)
      | ListConversations \<Rightarrow>
          (Answered (map_response ConversationsBody (listConversations (ev_read env) (au_UserID who) (hr_Query r) d)), [], rd_others (ev_read env) d)
      | SyncConversationMessages \<Rightarrow>
          (Answered (map_response PageBody (syncConversationMessages (ev_read env) (au_UserID who) (hd arguments) (hr_Query r) d)), [],
           rd_others (ev_read env) d)
      | AcknowledgeConversation \<Rightarrow>
          (case acknowledgeConversation (ev_read env) (au_UserID who) (au_DeviceID who) (hd arguments)
                  (decodeSingleJSON (dc_ack dc) (hr_Body r)) d of
             (label, resp, d') \<Rightarrow> (Answered (map_response SyncStateBody resp), [], d'))
      | SyncMessages \<Rightarrow> (Answered syncMessages, [], d)
      | AcknowledgeMessages \<Rightarrow> (Answered (snd acknowledgeMessages), [], d)
      | _ \<Rightarrow> (Upgrading who, [], d))"

definition serve ::
  "crypto \<Rightarrow> decoders \<Rightarrow> server_env \<Rightarrow> http_request \<Rightarrow> db \<Rightarrow> http_outcome \<times> disconnection list \<times> db" where
  "serve cr dc env r d =
     (case dispatch (hr_Method r) (hr_Path r) of
        Redirect \<Rightarrow> (Redirected, [], d)
      | NotFound \<Rightarrow> (PlainStatus 404, [], d)
      | MethodNotAllowed \<Rightarrow> (PlainStatus 405, [], d)
      | Matched protected ep arguments \<Rightarrow>
        if \<not> protected then (case serve_public cr dc env r ep d of (resp, closed, d') \<Rightarrow> (Answered resp, closed, d'))
        else (case requireAuthentication cr (ev_check env) (hr_Authorization r) d of
                Inl err \<Rightarrow> (Answered (writeAPIError err), [], d)
              | Inr who \<Rightarrow> serve_private cr dc env r ep arguments who (ev_between env d)))"

section \<open>Steps that keep what the others rely on\<close>

text \<open>
  The contract between concurrent parts: every step from a good state is one the others accept. It
  gives that runs stay in good states and are, as a whole, accepted too.
\<close>

locale rely_guarantee =
  fixes step :: "'s \<Rightarrow> 's \<Rightarrow> bool" and accepts :: "'s \<Rightarrow> 's \<Rightarrow> bool" and good :: "'s \<Rightarrow> bool"
  assumes accepts_refl: "accepts d d"
    and accepts_trans: "accepts a b \<Longrightarrow> accepts b c \<Longrightarrow> accepts a c"
    and accepts_good: "accepts d v \<Longrightarrow> good d \<Longrightarrow> good v"
    and guarantee: "step d v \<Longrightarrow> good d \<Longrightarrow> accepts d v"
begin

lemma run_accepted:
  assumes "step\<^sup>*\<^sup>* d v" and "good d"
  shows "good v \<and> accepts d v"
  using assms(1)
proof (induction rule: rtranclp_induct)
  case base
  show ?case using assms(2) accepts_refl by blast
next
  case (step x y)
  then have "accepts x y" using guarantee by blast
  then show ?case using step.IH accepts_good accepts_trans by blast
qed

text \<open>Steps of the one side may be mixed with whatever the other side does that is accepted.\<close>

lemma mixed_run_accepted:
  assumes "(\<lambda>x y. step x y \<or> accepts x y)\<^sup>*\<^sup>* d v" and "good d"
  shows "good v \<and> accepts d v"
  using assms(1)
proof (induction rule: rtranclp_induct)
  case base
  show ?case using assms(2) accepts_refl by blast
next
  case (step x y)
  then have "accepts x y" using guarantee by blast
  then show ?case using step.IH accepts_good accepts_trans by blast
qed

end

section \<open>What a request does to the others\<close>

text \<open>
  The chat tables keep their invariants and only grow; the account tables take steps of their
  transactions. This is asked of what the others do and shown of every request.
\<close>

definition chat_step :: "db \<Rightarrow> db \<Rightarrow> bool" where
  "chat_step d v \<longleftrightarrow> (chat_inv d \<longrightarrow> chat_inv v \<and> db_le d v \<and> (sync_ok d \<longrightarrow> sync_ok v))"

definition advances :: "db \<Rightarrow> db \<Rightarrow> bool" where
  "advances d v \<longleftrightarrow> chat_step d v \<and> auth_step\<^sup>*\<^sup>* d v"

definition message_command :: "authenticated \<Rightarrow> createMessageRequest \<Rightarrow> sendMessageCommand" where
  "message_command who input = \<lparr>cmd_SenderID = au_UserID who, cmd_ReceiverID = req_ReceiverID input,
     cmd_ClientMessageID = req_ClientMessageID input, cmd_Content = req_Content input\<rparr>"

text \<open>The unique index and the sequence of conversations, for the message this request sends.\<close>

definition fair_env :: "crypto \<Rightarrow> decoders \<Rightarrow> server_env \<Rightarrow> http_request \<Rightarrow> db \<Rightarrow> bool" where
  "fair_env cr dc env r d \<longleftrightarrow>
     (\<forall>p x. advances x (ae_others (ev_auth env) p x)) \<and> (\<forall>p x. advances x (env_others (ev_send env) p x))
     \<and> (\<forall>x. advances x (rd_others (ev_read env) x)) \<and> (\<forall>x. advances x (ev_between env x))
     \<and> (\<forall>who input. requireAuthentication cr (ev_check env) (hr_Authorization r) d = Inr who \<longrightarrow>
          decodeSingleJSON (dc_message dc) (hr_Body r) = Some input \<longrightarrow>
          isolation (ev_send env) (message_command who input) (ev_between env d))"

text \<open>A transaction of the accounts leaves the chat tables alone, but for new users.\<close>

definition chat_same :: "db \<Rightarrow> db \<Rightarrow> bool" where
  "chat_same d v \<longleftrightarrow> conversations v = conversations d \<and> conversation_members v = conversation_members d
     \<and> messages v = messages d \<and> outbox_events v = outbox_events d
     \<and> device_conversation_sync_states v = device_conversation_sync_states d
     \<and> conversations_seq v = conversations_seq d \<and> messages_seq v = messages_seq d \<and> user_ids d \<subseteq> user_ids v"

lemma chat_same_refl [simp]: "chat_same d d"
  by (simp add: chat_same_def)

lemma chat_same_trans: "chat_same a b \<Longrightarrow> chat_same b c \<Longrightarrow> chat_same a c"
  by (auto simp: chat_same_def)

lemma chat_step_same:
  assumes "chat_same d v"
  shows "chat_step d v"
proof -
  have "chat_inv v" if "chat_inv d" using chat_inv_more [OF that, of v] assms by (simp add: chat_same_def)
  moreover have "db_le d v" using assms by (auto simp: db_le_def chat_same_def)
  moreover have "sync_ok v = sync_ok d"
    using assms by (simp add: sync_ok_def is_member_def stream_end_def chat_same_def)
  ultimately show ?thesis by (simp add: chat_step_def)
qed

lemma chat_step_refl [simp]: "chat_step d d"
  by (simp add: chat_step_same)

lemma chat_step_trans: "chat_step a b \<Longrightarrow> chat_step b c \<Longrightarrow> chat_step a c"
  by (auto simp: chat_step_def intro: db_le_trans)

lemma advances_refl [simp]: "advances d d"
  by (simp add: advances_def)

lemma advances_trans: "advances a b \<Longrightarrow> advances b c \<Longrightarrow> advances a c"
  unfolding advances_def by (blast intro: chat_step_trans rtranclp_trans)

section \<open>Requests about accounts\<close>

lemma account_statements_same:
  "chat_same d (snd (insertUser env name disp hash d))"
  "chat_same d (snd (insertSession env u device idle d))"
  "chat_same d (snd (insertAccessToken env i h expires d))"
  "chat_same d (snd (insertRefreshToken env i parent h expires d))"
  "chat_same d (snd (insertLoginResult env l d))"
  "chat_same d (snd (insertRefreshResult env f d))"
  "chat_same d (snd (extendSession env idle i d))"
  "chat_same d (consumeToken env rt d)"
  "chat_same d (revoke_where now p d)"
  "chat_same d (auth_rollback d v)"
  by (auto simp: chat_same_def insertUser_def insertSession_def insertAccessToken_def insertRefreshToken_def insertLoginResult_def
      insertRefreshResult_def extendSession_def consumeToken_def revoke_where_def auth_rollback_def user_ids_def Let_def)

lemma andThen_same:
  assumes "\<And>x. chat_same x (snd (m x))" and "\<And>a x. chat_same x (snd (f a x))"
  shows "chat_same d (snd (andThen m f d))"
proof -
  obtain y v where m: "m d = (y, v)" by fastforce
  have "chat_same d v" using assms(1) [of d] m by simp
  then show ?thesis
    using assms(2) [of v] m by (cases y) (auto simp: andThen_def intro: chat_same_trans)
qed

lemma auth_commit_same: "chat_same d v \<Longrightarrow> chat_same d (snd (auth_commit env d v))"
  by (simp add: auth_commit_def account_statements_same split: commit_outcome.split)

lemma createSessionResponse_same: "chat_same d (snd (createSessionResponse cr env account device d))"
  unfolding createSessionResponse_def Let_def
  by (auto simp: account_statements_same intro!: andThen_same split: option.split)

lemma register_same: "chat_same d (snd (register cr env limiter body d))"
proof -
  have tail: "chat_same d (snd (case createSessionResponse cr env created device v of
      (Inl e, w) \<Rightarrow> (internalAuthError ''could not create user'', auth_rollback d w)
    | (Inr response, w) \<Rightarrow> (let (ok, d') = auth_commit env d w in (if ok then JSON 201 response else internalAuthError ''could not create user'', d'))))"
    if "chat_same d v" for created device v
  proof -
    obtain y w where w: "createSessionResponse cr env created device v = (y, w)" by fastforce
    have "chat_same d w" using createSessionResponse_same [of v cr env created device] w chat_same_trans [OF that] by simp
    then show ?thesis using w auth_commit_same [of d w env] by (cases y) (auto simp: account_statements_same Let_def split: prod.split)
  qed
  have "chat_same d (snd (case insertUser env n dn h d of
      (Inl UniqueViolation, v) \<Rightarrow> (APIError 409 ''USERNAME_CONFLICT'' ''username is already registered'', auth_rollback d v)
    | (Inl _, v) \<Rightarrow> (internalAuthError ''could not create user'', auth_rollback d v)
    | (Inr created, v) \<Rightarrow> (case createSessionResponse cr env created device v of
         (Inl _, w) \<Rightarrow> (internalAuthError ''could not create user'', auth_rollback d w)
       | (Inr response, w) \<Rightarrow> (let (ok, d') = auth_commit env d w in (if ok then JSON 201 response else internalAuthError ''could not create user'', d')))))"
    for n dn h device
  proof -
    obtain y v where v: "insertUser env n dn h d = (y, v)" by fastforce
    have same: "chat_same d v" using account_statements_same(1) [of d env n dn h] v by simp
    show ?thesis
    proof (cases y)
      case (Inl e)
      then show ?thesis using v by (cases e) (simp_all add: account_statements_same)
    next
      case (Inr created)
      then show ?thesis using v tail [OF same, of created device] by simp
    qed
  qed
  then show ?thesis
    unfolding register_def Let_def by (auto split: option.split admission_result.split)
qed

lemma createIdempotentLogin_chat:
  assumes "\<And>x. chat_step x (ae_others env AtReload x)"
  shows "chat_step d (snd (createIdempotentLogin cr env cipher account hash device request d))"
proof -
  have rolled: "chat_step d (auth_rollback d w)" for w by (simp add: chat_step_same account_statements_same)
  have "chat_step d (ae_others env AtReload (auth_rollback d w))" for w
    by (rule chat_step_trans [OF rolled assms])
  moreover have "chat_step d e"
    if "createSessionResponse cr env account device d = (Inr r, v)" "insertLoginResult env l v = (Inr u, w)" "auth_commit env d w = (ok, e)"
    for r v l u w ok e
  proof -
    have "chat_same d v" using createSessionResponse_same [of d cr env account device] that(1) by simp
    moreover have "chat_same v w" using account_statements_same(5) [of v env l] that(2) by simp
    ultimately have "chat_same d w" by (rule chat_same_trans)
    then show ?thesis using auth_commit_same [of d w env] that(3) by (simp add: chat_step_same)
  qed
  ultimately show ?thesis
    unfolding createIdempotentLogin_def using rolled
    by (auto simp: Let_def split: option.split prod.split sum.split db_error.split)
qed

lemma login_chat:
  assumes others: "\<And>p x. chat_step x (ae_others env p x)"
  shows "chat_step d (snd (login cr env limiter body d))"
proof -
  have "chat_step d (snd (createIdempotentLogin cr env cipher account hash device request (ae_others env AtAuthBegin (ae_others env AtLoad d))))"
    for cipher account hash device request
    using others createIdempotentLogin_chat [OF others] by (blast intro: chat_step_trans)
  then show ?thesis
    using others [of d AtLoad] unfolding login_def Let_def
    by (simp add: login_answers_snd split: option.split sum.split admission_result.split)
qed

lemma revokeReplayed_same: "chat_same d (snd (snd (revokeReplayed env u i d)))"
proof -
  have "chat_same d (snd (auth_commit env d (d\<lparr>sessions := x\<rparr>)))" for x
    by (rule auth_commit_same) (simp add: chat_same_def user_ids_def)
  then show ?thesis unfolding revokeReplayed_def Let_def by (simp add: case_prod_unfold)
qed

lemma rotateRefreshToken_same: "chat_same d (snd (snd (rotateRefreshToken cr env cipher token key d)))"
proof -
  have used: "chat_same d (snd (snd (handleUsedOrInvalidRefresh cr env cipher token key d)))"
    unfolding handleUsedOrInvalidRefresh_def by (simp add: revokeReplayed_same split: option.split)
  have run: "chat_same d (snd (snd (case andThen (insertAccessToken env i h e1) (\<lambda>_. andThen (insertRefreshToken env i p k e2) (\<lambda>_.
        andThen (extendSession env e2 i) (\<lambda>_. store))) (consumeToken env rt d) of
      (Inl _, v) \<Rightarrow> (RotationFailed, None, auth_rollback d v)
    | (Inr _, v) \<Rightarrow> (let (ok, d') = auth_commit env d v in if ok then (Rotated response, None, d') else (RotationFailed, None, d')))))"
    (is "chat_same d (snd (snd (case ?run of (Inl _, v) \<Rightarrow> _ v | (Inr _, v) \<Rightarrow> _ v)))")
    if "\<And>x. chat_same x (snd (store x))" for i h e1 p k e2 rt response and store :: "unit stmt"
  proof -
    have "chat_same (consumeToken env rt d) (snd ?run)" by (intro andThen_same account_statements_same that)
    then have "chat_same d (snd ?run)" by (rule chat_same_trans [OF account_statements_same(8)])
    then show ?thesis using auth_commit_same [of d "snd ?run" env]
      by (auto simp: account_statements_same Let_def split: prod.split sum.split)
  qed
  show ?thesis
    unfolding rotateRefreshToken_def using used by (auto simp: Let_def account_statements_same intro!: run split: option.split)
qed

lemma refresh_same: "chat_same d (snd (snd (refresh cr env limiter body d)))"
proof -
  have "chat_same d v" if "rotateRefreshToken cr env cipher token key d = (x, y, v)" for cipher token key x y v
    using rotateRefreshToken_same [of d cr env cipher token key] that by simp
  then show ?thesis unfolding refresh_def
    by (auto split: option.split prod.split admission_result.split rotation.split)
qed

lemma exec_auto_same: "chat_same d v \<Longrightarrow> chat_same d (snd (exec_auto env point d v))"
  by (simp add: exec_auto_def split: commit_outcome.split)

lemma revocations_same:
  "chat_same d (snd (snd (logout env u i d)))" "chat_same d (snd (snd (logoutAll env u d)))" "chat_same d (snd (snd (revokeSession env u path d)))"
  by (simp_all add: logout_def logoutAll_def revokeSession_def Let_def case_prod_unfold exec_auto_same account_statements_same split: option.split)

lemma commitPasswordChange_same: "chat_same d (snd (snd (commitPasswordChange env u old new d)))"
proof -
  have ids: "user_ids x = set (map (\<lambda>u. u_ID (ur_user u)) (users x))" for x by (simp add: user_ids_def)
  have "user_ids d = user_ids (d\<lparr>users := update_rows q (\<lambda>r. r\<lparr>ur_password_hash := h\<rparr>) (users d)\<rparr>)" for q h
    unfolding ids by (simp add: map_update_rows_key del: list.set_map)
  then have "chat_same d (revoke_where now p (d\<lparr>users := update_rows q (\<lambda>r. r\<lparr>ur_password_hash := h\<rparr>) (users d)\<rparr>))" for now p q h
    by (intro chat_same_trans [OF _ account_statements_same(9)]) (simp add: chat_same_def)
  then show ?thesis
    by (simp add: commitPasswordChange_def Let_def case_prod_unfold auth_commit_same)
qed

lemma changePassword_chat:
  assumes "\<And>x. chat_step x (ae_others env AtAuthBegin x)"
  shows "chat_step d (snd (snd (changePassword cr env u body d)))"
  using chat_step_trans [OF assms chat_step_same [OF commitPasswordChange_same]]
  unfolding changePassword_def Let_def by (simp split: option.split)

section \<open>Requests about messages\<close>

lemma only_others_advances:
  assumes "only_others env d e" and "\<And>p x. auth_step\<^sup>*\<^sup>* x (env_others env p x)"
  shows "auth_step\<^sup>*\<^sup>* d e"
  using assms(1)
proof (induction rule: only_others.induct)
  case (others e p)
  then show ?case using assms(2) by (blast intro: rtranclp_trans)
next
  case (draw_conversation e)
  have "auth_step e (e\<lparr>conversations_seq := conversations_seq e + 1\<rparr>)" by (rule st_other) (simp add: auth_same_def)
  with draw_conversation.IH show ?case by (rule rtranclp.rtrancl_into_rtrancl)
next
  case (draw_message e)
  have "auth_step e (e\<lparr>messages_seq := messages_seq e + 1\<rparr>)" by (rule st_other) (simp add: auth_same_def)
  with draw_message.IH show ?case by (rule rtranclp.rtrancl_into_rtrancl)
qed simp

lemma contributes_account:
  assumes "contributes env cmd content v p cid m d'"
  shows "auth_step v d'"
proof (rule st_other)
  show "auth_same v d'"
    using assms unfolding contributes_def by (elim insertMessageAndOutbox_SomeD) (simp add: auth_same_def tx_view_def)
qed

lemma stream_end_le_inv:
  assumes "chat_inv d" and "chat_inv e" and "db_le d e" and "is_member d cid u"
  shows "is_member e cid u \<and> stream_end cid d \<le> stream_end cid e"
  using stream_end_le [OF assms] assms(3,4) by (auto simp: is_member_def db_le_def)

lemma only_others_sync:
  assumes "only_others env d e" and "\<And>p x. chat_step x (env_others env p x)" and "chat_inv d" and "sync_ok d"
  shows "chat_inv e \<and> sync_ok e"
  using assms(1)
proof (induction rule: only_others.induct)
  case (others e p)
  then show ?case using assms(2) [of e p] by (simp add: chat_step_def)
next
  case (draw_conversation e)
  then have "chat_inv (e\<lparr>conversations_seq := conversations_seq e + 1\<rparr>)" by (auto intro: chat_inv_more simp: user_ids_def)
  then show ?case using draw_conversation.IH by (simp add: sync_ok_def is_member_def stream_end_def)
next
  case (draw_message e)
  then have "chat_inv (e\<lparr>messages_seq := messages_seq e + 1\<rparr>)" by (auto intro: chat_inv_more simp: user_ids_def)
  then show ?case using draw_message.IH by (simp add: sync_ok_def is_member_def stream_end_def)
qed (use assms(3,4) in simp)

lemma sync_ok_grows:
  assumes "sync_ok d" and "chat_inv d" and "chat_inv e" and "db_le d e"
    and "device_conversation_sync_states e = device_conversation_sync_states d"
  shows "sync_ok e"
  using assms(1) stream_end_le_inv [OF assms(2-4)] unfolding sync_ok_def assms(5) by (blast intro: order_trans)

lemma send_advances:
  assumes others: "\<And>p x. advances x (env_others env p x)" and iso: "isolation env cmd d" and run: "send env cmd d = (r, d')"
    and inv: "chat_inv d"
  shows "advances d d'"
proof -
  have auth: "\<And>p x. auth_step\<^sup>*\<^sup>* x (env_others env p x)" and chat: "\<And>p x. chat_step x (env_others env p x)"
    using others by (simp_all add: advances_def)
  note grown = send_guarantee [OF iso inv run]
  from send_end [OF run iso inv] show ?thesis
  proof
    assume "quiet_end env d r d'"
    then have quiet: "only_others env d d'" by (simp add: quiet_end_def)
    then show ?thesis
      using only_others_advances [OF quiet auth] only_others_sync [OF quiet chat inv] grown by (simp add: advances_def chat_step_def)
  next
    assume "loud_end env cmd d r d'"
    then obtain v p cid m content where v: "only_others env d v" and c: "contributes env cmd content v p cid m d'"
      by (auto simp: loud_end_def)
    have "sync_ok d'" if "sync_ok d"
    proof (rule sync_ok_grows)
      show "sync_ok v" "chat_inv v" using only_others_sync [OF v chat inv that] by simp_all
      show "device_conversation_sync_states d' = device_conversation_sync_states v"
        using c unfolding contributes_def by (elim insertMessageAndOutbox_SomeD) (simp add: tx_view_def)
    qed (use grown contributes_le [OF c] in simp_all)
    moreover have "auth_step\<^sup>*\<^sup>* d d'"
      using only_others_advances [OF v auth] contributes_account [OF c] by (rule rtranclp.rtrancl_into_rtrancl)
    ultimately show ?thesis using grown by (simp add: advances_def chat_step_def)
  qed
qed

lemma createMessage_advances:
  assumes "\<And>p x. advances x (env_others env p x)" and "chat_inv d"
    and "\<And>input. body = Some input \<Longrightarrow> isolation env (message_command who input) d"
  shows "advances d (snd (createMessage env (au_UserID who) body d))"
proof (cases body)
  case None
  then show ?thesis by (simp add: createMessage_def)
next
  case (Some input)
  obtain r d' where run: "send env (message_command who input) d = (r, d')" by fastforce
  have "snd (createMessage env (au_UserID who) body d) = d'"
    using run Some by (cases r) (simp_all add: createMessage_def message_command_def)
  then show ?thesis using send_advances [OF assms(1) assms(3) [OF Some] run assms(2)] by simp
qed

lemma acknowledgeConversation_advances:
  assumes others: "\<And>x. advances x (rd_others env x)" and inv: "chat_inv d" "sync_ok d"
    and run: "acknowledgeConversation env uid device path body d = (label, resp, d')"
  shows "advances d d'"
  using run
proof (cases rule: acknowledgeConversation_cases)
  case refused
  then show ?thesis using others [of d] by auto
next
  case (accepted cid cursor applied at)
  let ?e = "rd_others env d"
  have e: "chat_inv ?e" "db_le d ?e" "sync_ok ?e" using others [of d] inv by (simp_all add: advances_def chat_step_def)
  have m: "is_member d cid uid" using accepted(5) by (auto simp: memberLastSeq_def split: if_splits)
  have "cursor \<le> stream_end cid d" using accepted(6) memberLastSeq_member [OF inv(1) m] by simp
  also have "\<dots> \<le> stream_end cid ?e" by (rule stream_end_le [OF inv(1) e(1,2) m])
  finally have rows: "sync_ok d'" "d' = ?e\<lparr>device_conversation_sync_states := device_conversation_sync_states d'\<rparr>"
    using upsert_rows(1,4) [OF e(3) accepted(7,4)] by blast+
  obtain states where d': "d' = ?e\<lparr>device_conversation_sync_states := states\<rparr>" using rows(2) by blast
  have "chat_inv d'" unfolding d' by (rule chat_inv_more [OF e(1)]) (simp_all add: user_ids_def)
  moreover have "db_le ?e d'" unfolding d' by (auto simp: db_le_def user_ids_def)
  moreover have "auth_step ?e d'" unfolding d' by (rule st_other) (simp add: auth_same_def)
  ultimately have "advances ?e d'" using rows(1) by (auto simp: advances_def chat_step_def)
  then show ?thesis by (rule advances_trans [OF others])
qed

section \<open>A request and the others\<close>

lemma serve_public_advances:
  assumes "\<And>p x. advances x (ae_others (ev_auth env) p x)"
  shows "advances d (snd (snd (serve_public cr dc env r ep d)))"
proof -
  have auth: "\<And>p x. auth_step\<^sup>*\<^sup>* x (ae_others (ev_auth env) p x)" and chat: "\<And>p x. chat_step x (ae_others (ev_auth env) p x)"
    using assms by (simp_all add: advances_def)
  have "advances d (snd (register cr (ev_auth env) limiter body d))" for limiter body
    unfolding advances_def by (blast intro: chat_step_same register_same st_register)
  moreover have "advances d (snd (login cr (ev_auth env) limiter body d))" for limiter body
    using login_steps [OF auth] login_chat [OF chat] by (simp add: advances_def)
  moreover have "advances d (snd (snd (refresh cr (ev_auth env) limiter body d)))" for limiter body
    using refresh_steps chat_step_same [OF refresh_same] by (simp add: advances_def)
  ultimately show ?thesis
    by (cases ep) (simp_all add: serve_public_def case_prod_unfold)
qed

lemma account_requests_advance:
  assumes "\<And>p x. advances x (ae_others env p x)"
  shows "advances d (snd (snd (logout env u i d)))" "advances d (snd (snd (logoutAll env u d)))"
    "advances d (snd (snd (revokeSession env u path d)))" "advances d (snd (snd (changePassword cr env u body d)))"
proof -
  have auth: "\<And>p x. auth_step\<^sup>*\<^sup>* x (ae_others env p x)" and chat: "\<And>p x. chat_step x (ae_others env p x)"
    using assms by (simp_all add: advances_def)
  show "advances d (snd (snd (logout env u i d)))"
    unfolding advances_def by (blast intro: chat_step_same revocations_same st_logout)
  show "advances d (snd (snd (logoutAll env u d)))"
    unfolding advances_def by (blast intro: chat_step_same revocations_same st_logoutAll)
  show "advances d (snd (snd (revokeSession env u path d)))"
    unfolding advances_def by (blast intro: chat_step_same revocations_same st_revoke)
  show "advances d (snd (snd (changePassword cr env u body d)))"
    using changePassword_steps [OF auth] changePassword_chat [OF chat] by (simp add: advances_def)
qed

lemma no_payload_snd [simp]: "snd (snd (no_payload x)) = snd (snd x)"
  by (simp add: no_payload_def case_prod_unfold)

lemma serve_private_advances:
  assumes auth: "\<And>p x. advances x (ae_others (ev_auth env) p x)" and send: "\<And>p x. advances x (env_others (ev_send env) p x)"
    and rd: "\<And>x. advances x (rd_others (ev_read env) x)" and inv: "chat_inv d" "sync_ok d"
    and iso: "\<And>input. decodeSingleJSON (dc_message dc) (hr_Body r) = Some input \<Longrightarrow> isolation (ev_send env) (message_command who input) d"
  shows "advances d (snd (snd (serve_private cr dc env r ep arguments who d)))"
proof -
  have "advances d (snd (snd (acknowledgeConversation (ev_read env) u device path body d)))" for u device path body
    using acknowledgeConversation_advances [OF rd inv] by (metis prod.collapse)
  then show ?thesis
    using account_requests_advance [OF auth] createMessage_advances [OF send inv(1) iso] rd [of d]
    by (cases ep) (simp_all add: serve_private_def case_prod_unfold)
qed

lemma fair_envD:
  assumes "fair_env cr dc env r d"
  shows "advances x (ae_others (ev_auth env) p x)" "advances x (env_others (ev_send env) q x)" "advances x (rd_others (ev_read env) x)"
    "advances x (ev_between env x)"
    "requireAuthentication cr (ev_check env) (hr_Authorization r) d = Inr who \<Longrightarrow>
     decodeSingleJSON (dc_message dc) (hr_Body r) = Some input \<Longrightarrow> isolation (ev_send env) (message_command who input) (ev_between env d)"
  using assms by (simp_all add: fair_env_def)

lemma serve_advances:
  assumes fair: "fair_env cr dc env r d" and inv: "chat_inv d" "sync_ok d"
  shows "advances d (snd (snd (serve cr dc env r d)))"
proof (cases "dispatch (hr_Method r) (hr_Path r)")
  case (Matched protected ep arguments)
  note env = fair_envD [OF fair]
  show ?thesis
  proof (cases protected)
    case False
    then show ?thesis using Matched serve_public_advances [OF env(1)] by (simp add: serve_def case_prod_unfold)
  next
    case True
    show ?thesis
    proof (cases "requireAuthentication cr (ev_check env) (hr_Authorization r) d")
      case (Inl err)
      then show ?thesis using Matched True by (simp add: serve_def)
    next
      case (Inr who)
      let ?e = "ev_between env d"
      have e: "chat_inv ?e" "sync_ok ?e" using env(4) [of d] inv by (simp_all add: advances_def chat_step_def)
      have "advances ?e (snd (snd (serve_private cr dc env r ep arguments who ?e)))"
        by (rule serve_private_advances [OF env(1,2,3) e env(5) [OF Inr]])
      then have "advances d (snd (snd (serve_private cr dc env r ep arguments who ?e)))" by (rule advances_trans [OF env(4)])
      then show ?thesis using Matched True Inr by (simp add: serve_def)
    qed
  qed
qed (simp_all add: serve_def)

section \<open>The system\<close>

text \<open>Requests, each with the others working between its statements, and the statements of the outbox workers.\<close>

inductive system_step :: "crypto \<Rightarrow> decoders \<Rightarrow> db \<Rightarrow> db \<Rightarrow> bool" for cr dc where
  request: "fair_env cr dc env r d \<Longrightarrow> system_step cr dc d (snd (snd (serve cr dc env r d)))"
| worker_claims: "system_step cr dc d (d\<lparr>outbox_events := snd (claim config now skip fresh (outbox_events d))\<rparr>)"
| worker_publishes: "system_step cr dc d (d\<lparr>outbox_events := snd (markPublishedBatch now events (outbox_events d))\<rparr>)"
| worker_fails: "system_step cr dc d (d\<lparr>outbox_events := snd (markFailed jitter config now e err (outbox_events d))\<rparr>)"
| worker_cleans: "system_step cr dc d (d\<lparr>outbox_events := snd (cleanupPublished olderThan batchSize (outbox_events d))\<rparr>)"

definition system_inv :: "db \<Rightarrow> bool" where
  "system_inv d \<longleftrightarrow> chat_inv d \<and> auth_inv d \<and> sync_ok d"

lemma outbox_advances:
  assumes "o_message_id ` set rows \<subseteq> o_message_id ` set (outbox_events d)"
  shows "advances d (d\<lparr>outbox_events := rows\<rparr>)"
proof -
  let ?v = "d\<lparr>outbox_events := rows\<rparr>"
  have "chat_inv ?v" if "chat_inv d" using chat_inv_more [OF that, of ?v] assms by (simp add: user_ids_def)
  moreover have "db_le d ?v" by (auto simp: db_le_def user_ids_def)
  moreover have "sync_ok ?v = sync_ok d" by (simp add: sync_ok_def is_member_def stream_end_def)
  moreover have "auth_step d ?v" by (rule st_other) (simp add: auth_same_def)
  ultimately show ?thesis by (auto simp: advances_def chat_step_def)
qed

lemma message_ids_update:
  assumes "\<And>r. o_message_id (f r) = o_message_id r"
  shows "o_message_id ` set (update_rows p f rows) \<subseteq> o_message_id ` set rows"
  using map_update_rows_key [of o_message_id f p rows, OF assms] by (metis list.set_map order.refl)

lemma worker_rows:
  "o_message_id ` set (snd (claim config now skip fresh rows)) \<subseteq> o_message_id ` set rows"
  "o_message_id ` set (snd (markPublishedBatch now events rows)) \<subseteq> o_message_id ` set rows"
  "o_message_id ` set (snd (markFailed jitter config now e err rows)) \<subseteq> o_message_id ` set rows"
  "o_message_id ` set (snd (cleanupPublished olderThan batchSize rows)) \<subseteq> o_message_id ` set rows"
proof -
  have keep: "o_message_id (lease config now fresh r) = o_message_id r" "o_message_id (publish_row now r) = o_message_id r"
      "o_message_id (kill_row now t r) = o_message_id r" "o_message_id (reschedule_row now delay t r) = o_message_id r" for r t delay
    by (simp_all add: lease_def publish_row_def kill_row_def reschedule_row_def)
  show "o_message_id ` set (snd (claim config now skip fresh rows)) \<subseteq> o_message_id ` set rows"
    using message_ids_update [OF keep(1)] by (simp add: claim_def Let_def)
  show "o_message_id ` set (snd (markPublishedBatch now events rows)) \<subseteq> o_message_id ` set rows"
    using message_ids_update [OF keep(2)] by (simp add: markPublishedBatch_def Let_def)
  show "o_message_id ` set (snd (markFailed jitter config now e err rows)) \<subseteq> o_message_id ` set rows"
    using message_ids_update [OF keep(3)] message_ids_update [OF keep(4)] by (simp add: markFailed_def Let_def)
  show "o_message_id ` set (snd (cleanupPublished olderThan batchSize rows)) \<subseteq> o_message_id ` set rows"
    by (auto simp: cleanupPublished_def Let_def)
qed

lemma system_step_advances: "system_step cr dc d v \<Longrightarrow> system_inv d \<Longrightarrow> advances d v"
  by (induction rule: system_step.induct) (simp_all add: serve_advances outbox_advances worker_rows system_inv_def)

lemma advances_inv:
  assumes "advances d v" and "system_inv d"
  shows "system_inv v" "db_le d v" "keeps d v"
  using assms auth_steps_evolve [of d v] by (auto simp: advances_def chat_step_def system_inv_def evolves_def)

interpretation server_system: rely_guarantee "system_step cr dc" advances system_inv for cr dc
proof unfold_locales
  show "advances a c" if "advances a b" "advances b c" for a b c using that by (rule advances_trans)
qed (simp_all add: advances_inv(1) system_step_advances)

lemmas system_steps_inv = server_system.run_accepted

lemma system_inv_empty: "system_inv empty_db"
  using chat_inv_empty
  by (simp add: system_inv_def sync_ok_def auth_inv_def sessions_ok_def access_ok_def refresh_ok_def results_ok_def one_open_def empty_db_def)

section \<open>Who sees what\<close>

definition takes_part :: "int \<Rightarrow> message \<Rightarrow> bool" where
  "takes_part uid m \<longleftrightarrow> uid = m_SenderID m \<or> uid = m_ReceiverID m"

text \<open>The messages a user exchanged, the conversations and acknowledgements of a member, the sessions of an account.\<close>

fun visible_to :: "db \<Rightarrow> int \<Rightarrow> payload \<Rightarrow> bool" where
  "visible_to d uid (MessageBody m) \<longleftrightarrow> takes_part uid m"
| "visible_to d uid (HistoryBody page) \<longleftrightarrow> (\<forall>m \<in> set (hp_Messages page). takes_part uid m)"
| "visible_to d uid (PageBody page) \<longleftrightarrow> (\<forall>m \<in> set (pg_Messages page). takes_part uid m)"
| "visible_to d uid (ConversationsBody page) \<longleftrightarrow> (\<forall>s \<in> set (cl_Conversations page). is_member d (cs_ID s) uid)"
| "visible_to d uid (SyncStateBody state) \<longleftrightarrow> is_member d (st_ConversationID state) uid"
| "visible_to d uid (SessionsBody rows) \<longleftrightarrow> (\<forall>x \<in> set rows. \<exists>s \<in> set (sessions d). s_id s = se_ID x \<and> s_user_id s = uid)"
| "visible_to d uid body \<longleftrightarrow> True"

fun public_payload :: "payload \<Rightarrow> bool" where
  "public_payload HealthBody \<longleftrightarrow> True"
| "public_payload (AuthBody a) \<longleftrightarrow> True"
| "public_payload body \<longleftrightarrow> False"

lemma member_takes_part:
  assumes "chat_inv d" and "is_member d cid uid" and "m \<in> set (conversation_messages d cid)"
  shows "takes_part uid m"
proof -
  have m: "m \<in> set (messages d)" "m_ConversationID m = cid" using assms(3) by (auto simp: conversation_messages_def)
  from chat_inv_message [OF assms(1) m(1)] obtain c where c: "c \<in> set (conversations d)" "c_id c = cid"
      "has_pair (min (m_SenderID m) (m_ReceiverID m)) (max (m_SenderID m) (m_ReceiverID m)) c"
    using m(2) by (auto simp: message_ok_def)
  from chat_inv_conversation [OF assms(1) c(1)] obtain low high where "has_pair low high c" "{u. is_member d cid u} = {low, high}"
    unfolding conversation_ok_def c(2) by blast
  then have "uid \<in> {min (m_SenderID m) (m_ReceiverID m), max (m_SenderID m) (m_ReceiverID m)}"
    using has_pair_unique [OF c(3)] assms(2) by blast
  then show ?thesis by (auto simp: takes_part_def min_def max_def split: if_splits)
qed

lemma send_answers:
  assumes "send env cmd d = (Inr x, d')"
  shows "m_SenderID (sr_Message x) = cmd_SenderID cmd \<and> sr_Message x \<in> set (messages d')"
proof -
  have found: "m_SenderID m = s \<and> m \<in> set (messages e)" if "findIdempotentMessage e s k = Some m" for e s k m
    using find_SomeD [OF that [unfolded findIdempotentMessage_def]] by simp
  have insert: "m_SenderID (sr_Message x) = cmd_SenderID cmd \<and> sr_Message x \<in> set (messages d')"
    if "send_insert env cmd content e p cid = (Inr x, d')" for content e p cid
    using that
    by (auto simp: send_insert_def send_loser_def commit_send_def Let_def elim!: insertMessageAndOutbox_SomeD dest: found
        split: if_splits sum.splits option.splits prod.splits commit_outcome.splits)
  show ?thesis
    using assms unfolding send_def
    by (auto simp: Let_def dest: found insert split: option.splits if_splits prod.splits sum.splits)
qed

lemma createMessage_answers:
  assumes "createMessage env uid body d = (JSON status m, d')"
  shows "m_SenderID m = uid \<and> m \<in> set (messages d')"
  using assms send_answers
  by (fastforce simp: createMessage_def writeMessageAPIError_def writeAPIError_def split: option.splits prod.splits sum.splits)

lemma sync_page_visible:
  assumes "syncConversationMessages env uid path query d = JSON status page" and "chat_inv d" and "chat_inv (rd_others env d)" and "db_le d (rd_others env d)"
  shows "\<forall>m \<in> set (pg_Messages page). takes_part uid m"
proof -
  let ?e = "rd_others env d"
  have sub: "x \<in> set (conversation_messages ?e cid)" if "x \<in> set (take n (selectMessages ?e cid after snapshot k))" for x n cid after snapshot k
    using in_set_takeD [OF that] set_select_limit unfolding selectMessages_def by fastforce
  obtain cid where cid: "parseConversationID path = Inr cid"
    using assms(1) by (cases "parseConversationID path") (auto simp: syncConversationMessages_def writeAPIError_def split: prod.splits)
  obtain after limit raw where query: "parseSnapshotPagination query = Inr (after, limit, raw)"
    using assms(1) cid by (cases "parseSnapshotPagination query") (auto simp: syncConversationMessages_def writeAPIError_def split: prod.splits)
  have "memberLastSeq d uid cid \<noteq> None \<and> set (pg_Messages page) \<subseteq> set (conversation_messages ?e cid)"
    using assms(1) sub
    by (auto simp: syncConversationMessages_def cid query collectPage_start writeAPIError_def Let_def split: sum.splits option.splits if_splits prod.splits)
  moreover from this have "is_member ?e cid uid" using assms(4) by (auto simp: memberLastSeq_def is_member_def db_le_def split: if_splits)
  ultimately show ?thesis using member_takes_part [OF assms(3)] by blast
qed

lemma history_visible:
  assumes "listMessages unmarshal env uid query d = JSON status page" and "chat_inv (rd_others env d)" and "db_le d (rd_others env d)"
  shows "\<forall>m \<in> set (hp_Messages page). takes_part uid m"
proof -
  let ?e = "rd_others env d"
  have rows: "set (historyRows ?e cid n direction cursor) \<subseteq> set (conversation_messages ?e cid)" for cid n direction cursor
    using set_select_limit
    by (fastforce simp: historyRows_def latestMessageHistoryQuery_def beforeMessageHistoryQuery_def afterMessageHistoryQuery_def selectDescending_def
        dest: in_set_takeD split: messageHistoryDirection.splits)
  have sub: "set (hp_Messages (historyPage cid limit direction xs)) \<subseteq> set xs" for cid limit direction xs
    by (auto simp: historyPage_def Let_def reverse_swap_loop dest: in_set_takeD)
  obtain peer limit direction cursor where query: "parseHistoryQuery unmarshal query = Inr (peer, limit, direction, cursor)"
    using assms(1) by (cases "parseHistoryQuery unmarshal query") (auto simp: listMessages_def writeAPIError_def split: prod.splits)
  show ?thesis
  proof (cases "app_resolveDirectConversation d uid peer")
    case None
    then show ?thesis using assms(1) by (auto simp: listMessages_def query split: if_splits)
  next
    case (Some cid)
    then have "page = historyPage cid limit direction (historyRows ?e cid (limit + 1) direction cursor)"
      using assms(1) by (simp add: listMessages_def query split: if_splits)
    then have "set (hp_Messages page) \<subseteq> set (conversation_messages ?e cid)" using order_trans [OF sub rows] by simp
    moreover have "is_member d cid uid" using Some by (auto simp: app_resolveDirectConversation_def dest: find_SomeD)
    then have "is_member ?e cid uid" using assms(3) by (auto simp: is_member_def db_le_def)
    ultimately show ?thesis using member_takes_part [OF assms(2)] by blast
  qed
qed

lemma conversations_visible:
  assumes "listConversations env uid query d = JSON status page" and "chat_inv (rd_others env d)"
  shows "\<forall>s \<in> set (cl_Conversations page). is_member (rd_others env d) (cs_ID s) uid"
proof -
  let ?e = "rd_others env d"
  have sub: "is_member ?e (cs_ID s) uid" if "s \<in> set (take n (selectConversations ?e uid after snapshot k))" for s n after snapshot k
    using selectConversations_summary [OF assms(2) in_set_takeD [OF that]] by (auto simp: directConversationsOf_def)
  obtain after limit raw where query: "parseSnapshotPagination query = Inr (after, limit, raw)"
    using assms(1) by (cases "parseSnapshotPagination query") (auto simp: listConversations_def writeAPIError_def split: prod.splits)
  show ?thesis
    using assms(1) sub
    by (auto simp: listConversations_def query collectPage_start writeAPIError_def Let_def split: sum.splits if_splits prod.splits)
qed

lemma sessions_visible:
  assumes "listSessions env uid current d = JSON status rows" and "x \<in> set rows"
  shows "\<exists>s \<in> set (sessions d). s_id s = se_ID x \<and> s_user_id s = uid"
proof -
  have "rows = map (\<lambda>s. \<lparr>se_ID = s_id s, se_DeviceID = s_device_id s, se_CreatedAt = s_created_at s, se_IdleExpiresAt = s_idle_expires_at s,
      se_AbsoluteExpiresAt = s_created_at s + sessionAbsoluteLifetime, se_RevokedAt = s_revoked_at s, se_Current = (s_id s = current)\<rparr>)
      (rev (sort_key s_created_at (sort_key s_id (filter (\<lambda>s. s_user_id s = uid) (sessions d)))))"
    using assms(1) by (simp add: listSessions_def internalAuthError_def split: if_splits)
  then show ?thesis using assms(2) by force
qed

lemma ack_visible:
  assumes "acknowledgeConversation env uid device path body d = (label, JSON status state, d')" and "db_le d (rd_others env d)"
  shows "is_member d' (st_ConversationID state) uid"
  using assms(1)
proof (cases rule: acknowledgeConversation_cases)
  case refused
  then show ?thesis
    using assms(1) by (auto simp: acknowledgeConversation_def writeAPIError_def Let_def split: sum.splits option.splits if_splits prod.splits)
next
  case (accepted cid cursor applied at)
  have "is_member (rd_others env d) cid uid"
    using accepted(5) assms(2) by (auto simp: memberLastSeq_def is_member_def db_le_def split: if_splits)
  then show ?thesis
    using accepted(7,8) by (auto simp: upsertSyncState_def Let_def is_member_def split: if_splits option.splits)
qed

lemma map_response_JSON: "map_response f resp = JSON status body \<Longrightarrow> \<exists>x. resp = JSON status x \<and> body = f x"
  by (cases resp) simp_all

lemma serve_private_visible:
  assumes rd: "\<And>x. advances x (rd_others (ev_read env) x)" and inv: "chat_inv d" "sync_ok d"
    and run: "serve_private cr dc env r ep arguments who d = (Answered (JSON status body), closed, d')"
  shows "visible_to d' (au_UserID who) body"
proof -
  let ?e = "rd_others (ev_read env) d"
  have e: "chat_inv ?e" "db_le d ?e" using rd [of d] inv by (simp_all add: advances_def chat_step_def)
  show ?thesis
  proof (cases ep)
    case CreateMessage
    then show ?thesis
      using run createMessage_answers by (fastforce simp: serve_private_def takes_part_def dest!: map_response_JSON split: prod.splits)
  next
    case ListMessages
    then show ?thesis using run history_visible [OF _ e] by (auto simp: serve_private_def dest!: map_response_JSON)
  next
    case ListConversations
    then show ?thesis using run conversations_visible [OF _ e(1)] by (auto simp: serve_private_def dest!: map_response_JSON)
  next
    case SyncConversationMessages
    then show ?thesis using run sync_page_visible [OF _ inv(1) e] by (auto simp: serve_private_def dest!: map_response_JSON)
  next
    case AcknowledgeConversation
    then show ?thesis
      using run ack_visible [OF _ e(2)] by (fastforce simp: serve_private_def dest!: map_response_JSON split: prod.splits)
  next
    case ListSessions
    then show ?thesis using run sessions_visible by (fastforce simp: serve_private_def dest!: map_response_JSON)
  qed (use run in \<open>auto simp: serve_private_def no_payload_def syncMessages_def acknowledgeMessages_def dest!: map_response_JSON split: prod.splits\<close>)
qed

lemma serve_private_origin:
  assumes "serve cr dc env r d = (Answered (JSON status body), closed, d')" and "\<not> public_payload body"
  shows "\<exists>who ep arguments. requireAuthentication cr (ev_check env) (hr_Authorization r) d = Inr who
    \<and> serve_private cr dc env r ep arguments who (ev_between env d) = (Answered (JSON status body), closed, d')"
  using assms
  by (auto simp: serve_def serve_public_def health_def writeAPIError_def dest!: map_response_JSON
      split: dispatched.splits if_splits sum.splits prod.splits endpoint.splits)

section \<open>A small server\<close>

definition with_session :: "db \<Rightarrow> db" where
  "with_session d = d\<lparr>sessions := [sample_session], sessions_seq := 8,
     access_tokens := [\<lparr>a_session_id = 7, a_token_hash = fixed_hash (replicate 32 (CHR ''a'')), a_expires_at = 5000000\<rparr>]\<rparr>"

definition signed_in :: db where
  "signed_in = with_session hello_db"

definition calm_server :: server_env where
  "calm_server = \<lparr>ev_check = sample_env 2000, ev_between = (\<lambda>d. d), ev_auth = sample_env 2001, ev_send = calm_env, ev_read = calm_read,
     ev_limiter = Proceed, ev_health_fails = False\<rparr>"

definition no_decoders :: decoders where
  "no_decoders = \<lparr>dc_register = (\<lambda>_. None), dc_login = (\<lambda>_. None), dc_refresh = (\<lambda>_. None), dc_password = (\<lambda>_. None),
     dc_message = (\<lambda>_. None), dc_ack = (\<lambda>_. None), dc_cursor = (\<lambda>_. None)\<rparr>"

definition page_request :: http_request where
  "page_request = \<lparr>hr_Method = ''GET'', hr_Path = [[], ''conversations'', ''1'', ''messages''], hr_Query = [],
     hr_Authorization = ''Bearer '' @ EncodeToString url_alphabet (replicate 32 (CHR ''a'')), hr_Body = []\<rparr>"

lemma with_session_inv:
  assumes "chat_inv d" and "device_conversation_sync_states d = []" "users d = users two_users" "refresh_tokens d = []"
    "refresh_idempotency_results d = []" "login_idempotency_results d = []"
  shows "system_inv (with_session d)"
proof -
  have "chat_inv (with_session d)" by (rule chat_inv_more [OF assms(1)]) (simp_all add: with_session_def user_ids_def)
  moreover have "auth_inv (with_session d)"
    using assms(2-) by (simp add: with_session_def two_users_def empty_db_def auth_inv_def sessions_ok_def access_ok_def refresh_ok_def
        results_ok_def one_open_def sample_session_def)
  moreover have "sync_ok (with_session d)" using assms(2) by (simp add: sync_ok_def with_session_def)
  ultimately show ?thesis by (simp add: system_inv_def)
qed

lemma signed_in_inv: "system_inv signed_in"
  unfolding signed_in_def by (rule with_session_inv [OF chat_inv_hello_db]; simp add: hello_db_def two_users_def empty_db_def)

lemma two_users_inv: "system_inv (with_session two_users)"
  by (rule with_session_inv [OF chat_inv_two_users]; simp add: two_users_def empty_db_def)

lemma calm_server_fair: "fair_env cr no_decoders calm_server r d"
  by (simp add: fair_env_def calm_server_def sample_env_def calm_read_def no_decoders_def decodeSingleJSON_def)

lemma calm_limiter: "ev_limiter calm_server = Proceed"
  by (simp add: calm_server_def)

lemma page_request_route: "dispatch ''GET'' [[], ''conversations'', ''1'', ''messages''] = Matched True SyncConversationMessages [''1'']"
  by code_simp

lemma page_request_token:
  "requireAuthentication sample_crypto (sample_env 2000) (hr_Authorization page_request) (with_session d) =
   Inr \<lparr>au_UserID = 1, au_SessionID = 7, au_DeviceID = ''phone'', au_TokenExpiry = 5000000\<rparr>"
proof -
  let ?raw = "replicate 32 (CHR ''a'')"
  let ?token = "EncodeToString url_alphabet ?raw"
  have raw: "length ?raw = tokenLength" by (simp add: tokenLength_def)
  have "\<exists>h. decodeAndHashToken fixed_hash ?token = Some (?raw, h) \<and> h = fixed_hash ?raw"
    using decode_new_token [OF raw, of fixed_hash] by (auto simp: newToken_def tokenLength_def)
  moreover have "Fields (''Bearer '' @ ?token) = [''Bearer'', ?token]"
    by (rule bearer_fields [OF url_base64_narrow encoded_nonempty [OF raw]])
  moreover have "is_bearer ''Bearer''" by code_simp
  moreover have "token_session (with_session d) 2000 2000 (fixed_hash ?raw) =
      Some \<lparr>au_UserID = 1, au_SessionID = 7, au_DeviceID = ''phone'', au_TokenExpiry = 5000000\<rparr>"
    by (simp add: token_session_def with_session_def find_session_def live_session_def sample_session_def sessionAbsoluteLifetime_def)
  ultimately show ?thesis
    by (auto simp: requireAuthentication_def page_request_def sample_crypto_def sample_env_def)
qed

lemma page_request_answer:
  "serve sample_crypto no_decoders calm_server page_request signed_in =
   (Answered (JSON 200 (PageBody \<lparr>pg_ConversationID = 1, pg_Messages = [hello_message], pg_NextCursor = 1, pg_SnapshotCursor = 1,
      pg_HasMore = False\<rparr>)), [], signed_in)"
proof -
  have "syncConversationMessages calm_read 1 ''1'' [] signed_in =
      JSON 200 \<lparr>pg_ConversationID = 1, pg_Messages = [hello_message], pg_NextCursor = 1, pg_SnapshotCursor = 1, pg_HasMore = False\<rparr>"
    by code_simp
  then show ?thesis
    using page_request_route page_request_token [of hello_db]
    by (simp add: serve_def serve_private_def page_request_def calm_server_def calm_read_def signed_in_def)
qed

section \<open>Statuses\<close>

text \<open>The statuses of the API. The limiter refuses with 429 or 503.\<close>

definition api_statuses :: "int set" where
  "api_statuses = {200, 201, 204, 400, 401, 404, 409, 410, 429, 500, 503}"

definition answers_ok :: "'a response \<Rightarrow> bool" where
  "answers_ok resp \<longleftrightarrow> response_status resp \<in> api_statuses"

fun limiter_ok :: "admission_result \<Rightarrow> bool" where
  "limiter_ok Proceed \<longleftrightarrow> True"
| "limiter_ok (Rejected err retry) \<longleftrightarrow> fst err = 429 \<or> fst err = 503"

lemma enforced_limiter_ok: "limiter_ok (enforceAuthRateLimit has_limiter failOpen answer)"
  by (simp add: enforceAuthRateLimit_def split: option.split)

lemma api_statuses_iff [simp]:
  "s \<in> api_statuses \<longleftrightarrow> s = 200 \<or> s = 201 \<or> s = 204 \<or> s = 400 \<or> s = 401 \<or> s = 404 \<or> s = 409 \<or> s = 410 \<or> s = 429 \<or> s = 500 \<or> s = 503"
  by (auto simp: api_statuses_def)

lemma answers_ok_map [simp]: "answers_ok (map_response f resp) = answers_ok resp"
  by (cases resp) (simp_all add: answers_ok_def)

lemma answers_ok_simps [simp]:
  "answers_ok (APIError s c m) \<longleftrightarrow> s \<in> api_statuses" "answers_ok (JSON s a) \<longleftrightarrow> s \<in> api_statuses"
  "answers_ok (NoBody s) \<longleftrightarrow> s \<in> api_statuses" "answers_ok (writeAPIError err) \<longleftrightarrow> fst err \<in> api_statuses"
  "answers_ok (internalAuthError msg)" "answers_ok invalidCredentials"
  by (simp_all add: answers_ok_def writeAPIError_def internalAuthError_def invalidCredentials_def split: prod.split)

lemma register_status:
  assumes "limiter_ok limiter"
  shows "answers_ok (fst (register cr env limiter body d))"
  using assms unfolding register_def Let_def
  by (cases limiter) (auto simp: case_prod_unfold split: option.split sum.split db_error.split)

lemma login_status:
  assumes "limiter_ok limiter"
  shows "answers_ok (fst (login cr env limiter body d))"
  using assms unfolding login_def Let_def
  by (cases limiter) (auto simp: case_prod_unfold split: option.split sum.split login_error.split)

lemma refused_rotation:
  "fst (rotateRefreshToken cr env cipher token key d) = RotationRefused status \<Longrightarrow> status = 401"
  by (auto simp: rotateRefreshToken_def handleUsedOrInvalidRefresh_def revokeReplayed_def Let_def case_prod_unfold
      split: if_splits option.splits sum.splits)

lemma refresh_status:
  assumes "limiter_ok limiter"
  shows "answers_ok (fst (refresh cr env limiter body d))"
  using assms refused_rotation unfolding refresh_def Let_def
  by (cases limiter) (fastforce simp: case_prod_unfold split: option.split rotation.split)+

lemma account_statuses:
  "answers_ok (fst (logout env u i d))" "answers_ok (fst (logoutAll env u d))" "answers_ok (fst (revokeSession env u path d))"
  "answers_ok (fst (changePassword cr env u body d))" "answers_ok (listSessions env u i d)"
  by (simp_all add: logout_def logoutAll_def revokeSession_def changePassword_def commitPasswordChange_def listSessions_def Let_def
      case_prod_unfold split: option.split)

lemma createMessage_status: "answers_ok (fst (createMessage env u body d))"
proof -
  have "answers_ok (writeMessageAPIError e :: message response)" for e
    by (cases "e_Code e") (simp_all add: writeMessageAPIError_def messageAPIErrorContract_def)
  then show ?thesis unfolding createMessage_def by (auto split: option.split prod.split sum.split)
qed

lemma checkQueryKeys_status: "checkQueryKeys code allowed msg query = Some err \<Longrightarrow> fst err = 400"
  by (induction code allowed msg query rule: checkQueryKeys.induct) (auto split: if_splits)

lemma parseParameter_status: "parseParameter query name dflt wrap ok problem = Inl err \<Longrightarrow> fst problem = 400 \<Longrightarrow> fst err = 400"
  by (auto simp: parseParameter_def split: option.splits if_splits)

lemma parseSnapshotPagination_status: "parseSnapshotPagination query = Inl err \<Longrightarrow> fst err = 400"
  by (auto simp: parseSnapshotPagination_def dest!: checkQueryKeys_status parseParameter_status split: option.splits sum.splits prod.splits)

lemma validateSnapshotCursor_status: "validateSnapshotCursor raw after current name = Inl err \<Longrightarrow> fst err = 400 \<or> fst err = 409"
  by (auto simp: validateSnapshotCursor_def split: option.splits if_splits)

lemma parseConversationID_status: "parseConversationID path = Inl err \<Longrightarrow> fst err = 400"
  by (auto simp: parseConversationID_def split: option.splits if_splits)

lemma parseHistoryQuery_status: "parseHistoryQuery unmarshal query = Inl err \<Longrightarrow> fst err = 400"
  by (auto simp: parseHistoryQuery_def historyDirection_def dest!: checkQueryKeys_status parseParameter_status
      split: option.splits sum.splits prod.splits if_splits)

lemmas parser_statuses = parseSnapshotPagination_status validateSnapshotCursor_status parseConversationID_status parseHistoryQuery_status

lemma reading_statuses:
  "answers_ok (listMessages unmarshal env u query d)" "answers_ok (listConversations env u query d)"
  "answers_ok (syncConversationMessages env u path query d)" "answers_ok (fst (snd (acknowledgeConversation env u device path ack d)))"
proof -
  show "answers_ok (listMessages unmarshal env u query d)"
    unfolding listMessages_def by (auto dest!: parser_statuses split: sum.split option.split prod.split)
  show "answers_ok (listConversations env u query d)"
    unfolding listConversations_def Let_def by (auto dest!: parser_statuses split: sum.split prod.split)
  show "answers_ok (syncConversationMessages env u path query d)"
    unfolding syncConversationMessages_def Let_def by (auto dest!: parser_statuses split: sum.split option.split prod.split)
  show "answers_ok (fst (snd (acknowledgeConversation env u device path ack d)))"
    unfolding acknowledgeConversation_def Let_def by (auto dest!: parser_statuses split: sum.split option.split prod.split)
qed

lemma requireAuthentication_status: "requireAuthentication cr env header d = Inl err \<Longrightarrow> fst err = 401 \<or> fst err = 503"
  by (auto simp: requireAuthentication_def authenticationRequired_def split: list.splits option.splits if_splits prod.splits)

lemma serve_public_status:
  assumes "limiter_ok (ev_limiter env)"
  shows "answers_ok (fst (serve_public cr dc env r ep d))"
  using register_status [OF assms] login_status [OF assms] refresh_status [OF assms]
  by (cases ep) (simp_all add: serve_public_def health_def case_prod_unfold)

lemma serve_private_status:
  assumes "fst (serve_private cr dc env r ep arguments who d) = Answered resp"
  shows "answers_ok resp"
  using assms account_statuses createMessage_status reading_statuses
  by (cases ep) (auto simp: serve_private_def no_payload_def syncMessages_def acknowledgeMessages_def case_prod_unfold)

lemma serve_status:
  assumes "limiter_ok (ev_limiter env)" and "fst (serve cr dc env r d) = Answered resp"
  shows "answers_ok resp"
  using assms serve_public_status [OF assms(1)]
  by (auto simp: serve_def case_prod_unfold dest: requireAuthentication_status serve_private_status split: dispatched.splits if_splits sum.splits)

lemma serve_unanswered:
  "fst (serve cr dc env r d) = Upgrading who \<Longrightarrow> requireAuthentication cr (ev_check env) (hr_Authorization r) d = Inr who"
  "fst (serve cr dc env r d) = Redirected \<Longrightarrow> cleanPath (hr_Path r) \<noteq> hr_Path r"
  "fst (serve cr dc env r d) = PlainStatus status \<Longrightarrow> status = 404 \<or> status = 405"
proof -
  have behind: "(\<exists>resp. out = Answered resp) \<or> out = Upgrading x" if "fst (serve_private cr dc env r ep arguments x e) = out"
    for ep arguments x e out
    using that by (cases ep) (auto simp: serve_private_def no_payload_def split: prod.splits)
  show "fst (serve cr dc env r d) = Upgrading who \<Longrightarrow> requireAuthentication cr (ev_check env) (hr_Authorization r) d = Inr who"
    by (auto simp: serve_def case_prod_unfold dest: behind split: dispatched.splits if_splits sum.splits)
  show "fst (serve cr dc env r d) = Redirected \<Longrightarrow> cleanPath (hr_Path r) \<noteq> hr_Path r"
    by (auto simp: serve_def dispatch_def Let_def case_prod_unfold dest: behind split: dispatched.splits if_splits sum.splits option.splits)
  show "fst (serve cr dc env r d) = PlainStatus status \<Longrightarrow> status = 404 \<or> status = 405"
    by (auto simp: serve_def case_prod_unfold dest: behind split: dispatched.splits if_splits sum.splits)
qed

section \<open>Routes\<close>

text \<open>Two patterns no path matches both of: they differ in their length or in a segment that is fixed in both.\<close>

fun apart :: "string list \<Rightarrow> string list \<Rightarrow> bool" where
  "apart [] [] \<longleftrightarrow> False"
| "apart (p # ps) (q # qs) \<longleftrightarrow> take 1 p \<noteq> ''{'' \<and> take 1 q \<noteq> ''{'' \<and> p \<noteq> q \<or> apart ps qs"
| "apart _ _ \<longleftrightarrow> True"

lemma apart_match: "apart ps qs \<Longrightarrow> match_path ps path \<noteq> None \<Longrightarrow> match_path qs path = None"
proof (induction ps path arbitrary: qs rule: match_path.induct)
  case (2 p ps s ss)
  show ?case
  proof (cases qs)
    case (Cons q qs')
    then show ?thesis using 2 by (fastforce split: if_splits)
  qed simp
qed (auto elim: apart.elims)

lemma routes_apart:
  "sorted_wrt (\<lambda>a b. pattern_method (fst a) = pattern_method (fst b) \<longrightarrow> apart (pattern_path (fst a)) (pattern_path (fst b))) routes"
  by code_simp

lemma one_of_apart: "sorted_wrt (\<lambda>a b. \<not> (P a \<and> P b)) xs \<Longrightarrow> length (filter P xs) \<le> 1"
  by (induction xs) (auto simp: filter_empty_conv)

lemma one_route:
  "length (filter (\<lambda>route. match_method (pattern_method (fst route)) requested \<and> match_path (pattern_path (fst route)) path \<noteq> None) routes) \<le> 1"
proof (rule one_of_apart, rule sorted_wrt_mono_rel [OF _ routes_apart])
  fix a b assume ab: "a \<in> set routes" "b \<in> set routes"
    and sep: "pattern_method (fst a) = pattern_method (fst b) \<longrightarrow> apart (pattern_path (fst a)) (pattern_path (fst b))"
  have "list_all (\<lambda>route. pattern_method (fst route) \<noteq> ''HEAD'') routes" by code_simp
  then have "pattern_method (fst a) = pattern_method (fst b)"
    if "match_method (pattern_method (fst a)) requested" "match_method (pattern_method (fst b)) requested"
    using that ab by (auto simp: match_method_def list_all_iff)
  then show "\<not> ((match_method (pattern_method (fst a)) requested \<and> match_path (pattern_path (fst a)) path \<noteq> None)
      \<and> match_method (pattern_method (fst b)) requested \<and> match_path (pattern_path (fst b)) path \<noteq> None)"
    using sep apart_match [of "pattern_path (fst a)" "pattern_path (fst b)" path] by argo
qed

section \<open>From an answered message to its readers\<close>

lemma stored_message_readable:
  assumes "chat_inv d" and "m \<in> set (messages d)" and "takes_part uid m"
  shows "is_member d (m_ConversationID m) uid" "m \<in> set (conversation_messages d (m_ConversationID m))"
    "message_at (m_ConversationID m) d (m_ConversationSeq m) = m" "m_ConversationSeq m \<in> {1..stream_end (m_ConversationID m) d}"
proof -
  from chat_inv_message [OF assms(1,2)] obtain c where c: "c \<in> set (conversations d)" "c_id c = m_ConversationID m"
      "has_pair (min (m_SenderID m) (m_ReceiverID m)) (max (m_SenderID m) (m_ReceiverID m)) c"
    by (auto simp: message_ok_def)
  from chat_inv_conversation [OF assms(1) c(1)] obtain low high where "has_pair low high c" "{u. is_member d (m_ConversationID m) u} = {low, high}"
    unfolding conversation_ok_def c(2) by blast
  then have "{u. is_member d (m_ConversationID m) u} = {min (m_SenderID m) (m_ReceiverID m), max (m_SenderID m) (m_ReceiverID m)}"
    using has_pair_unique [OF c(3)] by blast
  moreover have "uid \<in> {min (m_SenderID m) (m_ReceiverID m), max (m_SenderID m) (m_ReceiverID m)}"
    using assms(3) by (auto simp: takes_part_def min_def max_def)
  ultimately show member: "is_member d (m_ConversationID m) uid" by blast
  show stored: "m \<in> set (conversation_messages d (m_ConversationID m))" using assms(2) by (simp add: conversation_messages_def)
  show "message_at (m_ConversationID m) d (m_ConversationSeq m) = m" by (rule message_at_stored [OF assms(1) stored])
  show "m_ConversationSeq m \<in> {1..stream_end (m_ConversationID m) d}"
    using stream_seqs(1) [OF assms(1) member] stored by (force simp: seqs_of_def)
qed

lemma serve_message_stored:
  assumes "serve cr dc env r d = (Answered (JSON status (MessageBody m)), closed, d')"
  shows "m \<in> set (messages d')"
proof -
  obtain who ep arguments where "serve_private cr dc env r ep arguments who (ev_between env d) = (Answered (JSON status (MessageBody m)), closed, d')"
    using serve_private_origin [OF assms] by auto
  then show ?thesis
    by (cases ep) (auto simp: serve_private_def no_payload_def syncMessages_def acknowledgeMessages_def dest!: map_response_JSON
        dest: createMessage_answers split: prod.splits)
qed

lemma answered_message_drained:
  assumes stored: "m \<in> set (messages d)" and inv: "system_inv d" and part: "takes_part uid m"
    and run: "(system_step cr dc)\<^sup>*\<^sup>* d (states 0)" "\<And>i. (system_step cr dc)\<^sup>*\<^sup>* (states 0) (states i)"
    and bounds: "fits_int64 (m_ConversationID m)" "\<And>i. stream_end (m_ConversationID m) (states i) \<le> int64_max"
    and page: "1 \<le> limit" "limit \<le> 200" and fuel: "stream_end (m_ConversationID m) (states 0) < int fuel"
  shows "\<exists>ms. drain (server_fetch uid (m_ConversationID m)) limit states fuel 0 0 None = Some ms \<and> m \<in> set ms"
proof -
  let ?cid = "m_ConversationID m" and ?d = "states 0"
  have first: "system_inv ?d" "db_le d ?d" using system_steps_inv [OF run(1) inv] advances_inv inv by blast+
  have later: "system_inv (states i)" "db_le ?d (states i)" for i using system_steps_inv [OF run(2) first(1)] advances_inv first(1) by blast+
  have m: "m \<in> set (messages (states i))" for i using stored first(2) later(2) [of i] by (auto simp: db_le_def)
  have chat: "chat_inv (states i)" for i using later(1) [of i] by (simp add: system_inv_def)
  note at = stored_message_readable [OF chat m part]
  have "drain (server_fetch uid ?cid) limit states fuel 0 0 None = Some (map (message_at ?cid ?d) [0 + 1..stream_end ?cid ?d])"
    by (rule server.drain_complete) (use at later(2) chat bounds page fuel stream_seqs(2) [OF chat at(1)] in \<open>auto simp: readable_def\<close>)
  moreover have "m \<in> set (map (message_at ?cid ?d) [0 + 1..stream_end ?cid ?d])"
    using at(3,4) [of 0] by (auto intro!: image_eqI [of _ _ "m_ConversationSeq m"])
  ultimately show ?thesis by blast
qed

definition hello_request :: http_request where
  "hello_request = page_request\<lparr>hr_Method := ''POST'', hr_Path := [[], ''messages'']\<rparr>"

definition hello_decoders :: decoders where
  "hello_decoders = no_decoders\<lparr>dc_message := (\<lambda>_. Some (\<lparr>req_ClientMessageID = ''client-message-1'', req_ReceiverID = 2, req_Content = Some ''hello''\<rparr>, []))\<rparr>"

lemma hello_server_fair: "fair_env cr hello_decoders calm_server r d"
  by (simp add: fair_env_def calm_server_def sample_env_def calm_read_def hello_decoders_def isolation_calm)

lemma hello_request_answer:
  "serve sample_crypto hello_decoders calm_server hello_request (with_session two_users) = (Answered (JSON 201 (MessageBody hello_message)), [], signed_in)"
proof -
  have route: "dispatch ''POST'' [[], ''messages''] = Matched True CreateMessage []" by code_simp
  have "decodeSingleJSON (dc_message hello_decoders) [] =
      Some \<lparr>req_ClientMessageID = ''client-message-1'', req_ReceiverID = 2, req_Content = Some ''hello''\<rparr>"
    by (simp add: decodeSingleJSON_def hello_decoders_def)
  moreover have "createMessage calm_env 1 (Some \<lparr>req_ClientMessageID = ''client-message-1'', req_ReceiverID = 2, req_Content = Some ''hello''\<rparr>) (with_session two_users)
      = (JSON 201 hello_message, signed_in)" by code_simp
  ultimately show ?thesis
    using route page_request_token [of two_users] by (simp add: serve_def serve_private_def hello_request_def page_request_def calm_server_def)
qed

end
