(* ===== verification/Observability.thy ===== *)
theory Observability
  imports RateLimit Server
begin

text \<open>
  What the server tells about itself, \<^verbatim>\<open>metrics.go\<close>, \<^verbatim>\<open>database_observability.go\<close> and the request
  ids of \<^verbatim>\<open>api_errors.go\<close>. The Prometheus library is not part of the program: an operation returns the
  calls it makes to it, in their order, and the registration the descriptors it passes. The
  operations of the program that decide something are written out: the writer that captures the
  status of an answer, the middlewares around the routes, the tracer of the connection pool, the
  high watermark kept by compare-and-swap, and the collector that reads the tables.
\<close>

section \<open>Descriptors\<close>

datatype metric_kind = CounterKind | GaugeKind | HistogramKind

text \<open>The upper bounds of the buckets are in microseconds, those of queue depths in entries.\<close>

record metric_desc =
  md_kind :: metric_kind
  md_name :: string
  md_labels :: "string list"
  md_buckets :: "int list"

definition counter_desc :: "string \<Rightarrow> string list \<Rightarrow> metric_desc" where
  "counter_desc name labels = \<lparr>md_kind = CounterKind, md_name = name, md_labels = labels, md_buckets = []\<rparr>"

definition gauge_desc :: "string \<Rightarrow> metric_desc" where
  "gauge_desc name = \<lparr>md_kind = GaugeKind, md_name = name, md_labels = [], md_buckets = []\<rparr>"

definition histogram_desc :: "string \<Rightarrow> string list \<Rightarrow> int list \<Rightarrow> metric_desc" where
  "histogram_desc name labels buckets = \<lparr>md_kind = HistogramKind, md_name = name, md_labels = labels, md_buckets = buckets\<rparr>"

text \<open>The namespace \<open>im_backend\<close> is part of the names. The default buckets are those of the library.\<close>

definition newApplicationMetrics :: "int list \<Rightarrow> metric_desc list" where
  "newApplicationMetrics defBuckets =
     [counter_desc ''im_backend_http_requests_total'' [''route'', ''method'', ''status''],
      histogram_desc ''im_backend_http_request_duration_seconds'' [''route'', ''method''] defBuckets,
      histogram_desc ''im_backend_database_pool_acquire_duration_seconds'' [''workload'', ''result'']
        [10, 25, 50, 100, 250, 500, 1000, 2500, 5000, 10000, 25000, 50000, 100000, 250000, 500000, 1000000, 2500000, 5000000, 10000000],
      counter_desc ''im_backend_outbox_publish_total'' [''event_type'', ''result''],
      histogram_desc ''im_backend_outbox_publish_duration_seconds'' [''event_type''] defBuckets,
      histogram_desc ''im_backend_outbox_stage_duration_seconds'' [''stage'']
        [100, 250, 500, 1000, 2500, 5000, 10000, 25000, 50000, 100000, 250000, 500000, 1000000, 2500000, 5000000, 10000000, 20000000, 30000000, 60000000],
      counter_desc ''im_backend_realtime_routing_total'' [''stage'', ''result''],
      gauge_desc ''im_backend_websocket_connections'',
      counter_desc ''im_backend_websocket_deliveries_total'' [''result''],
      counter_desc ''im_backend_websocket_disconnects_total'' [''reason''],
      counter_desc ''im_backend_websocket_io_total'' [''operation'', ''result''],
      histogram_desc ''im_backend_websocket_write_duration_seconds'' [''result'']
        [100, 250, 500, 1000, 2500, 5000, 10000, 25000, 50000, 100000, 250000, 500000, 1000000, 2500000, 5000000, 10000000],
      histogram_desc ''im_backend_websocket_send_queue_depth'' [] [0, 1, 2, 4, 8, 16, 32, 64, 128, 192, 224, 240, 248, 252, 256],
      gauge_desc ''im_backend_websocket_send_queue_high_watermark'',
      counter_desc ''im_backend_sync_pages_total'' [''has_more''],
      counter_desc ''im_backend_sync_events_total'' [],
      counter_desc ''im_backend_ack_requests_total'' [''result''],
      gauge_desc ''im_backend_outbox_worker_concurrency'',
      gauge_desc ''im_backend_outbox_worker_batch_size'',
      counter_desc ''im_backend_outbox_batch_presence_batches_total'' [''result''],
      counter_desc ''im_backend_outbox_batch_presence_users_total'' []]"

text \<open>The figures of a pool, as its \<open>Stat\<close> gives them; durations in microseconds.\<close>

record pool_statistics =
  ps_AcquiredConns :: int
  ps_IdleConns :: int
  ps_ConstructingConns :: int
  ps_TotalConns :: int
  ps_MaxConns :: int
  ps_AcquireCount :: int
  ps_EmptyAcquireCount :: int
  ps_CanceledAcquireCount :: int
  ps_AcquireDuration :: duration
  ps_EmptyAcquireWaitTime :: duration

record databasePoolCollector =
  pc_acquiredConnections :: string
  pc_idleConnections :: string
  pc_constructingConnections :: string
  pc_totalConnections :: string
  pc_maximumConnections :: string
  pc_acquires :: string
  pc_emptyAcquires :: string
  pc_canceledAcquires :: string
  pc_acquireDuration :: string
  pc_emptyAcquireWait :: string

definition newNamedDatabasePoolCollector :: "string \<Rightarrow> databasePoolCollector" where
  "newNamedDatabasePoolCollector metricPrefix = \<lparr>
     pc_acquiredConnections = metricPrefix @ ''_acquired_connections'',
     pc_idleConnections = metricPrefix @ ''_idle_connections'',
     pc_constructingConnections = metricPrefix @ ''_constructing_connections'',
     pc_totalConnections = metricPrefix @ ''_total_connections'',
     pc_maximumConnections = metricPrefix @ ''_max_connections'',
     pc_acquires = metricPrefix @ ''_acquires_total'',
     pc_emptyAcquires = metricPrefix @ ''_empty_acquires_total'',
     pc_canceledAcquires = metricPrefix @ ''_canceled_acquires_total'',
     pc_acquireDuration = metricPrefix @ ''_acquire_duration_seconds_total'',
     pc_emptyAcquireWait = metricPrefix @ ''_empty_acquire_wait_seconds_total''\<rparr>"

definition newDatabasePoolCollector :: databasePoolCollector where
  "newDatabasePoolCollector = newNamedDatabasePoolCollector ''im_backend_database_pool''"

definition newOutboxDatabasePoolCollector :: databasePoolCollector where
  "newOutboxDatabasePoolCollector = newNamedDatabasePoolCollector ''im_backend_outbox_database_pool''"

definition pool_Describe :: "databasePoolCollector \<Rightarrow> string list" where
  "pool_Describe c =
     [pc_acquiredConnections c, pc_idleConnections c, pc_constructingConnections c, pc_totalConnections c, pc_maximumConnections c,
      pc_acquires c, pc_emptyAcquires c, pc_canceledAcquires c, pc_acquireDuration c, pc_emptyAcquireWait c]"

text \<open>A collected figure: its descriptor, its kind and its value.\<close>

type_synonym const_metric = "string \<times> metric_kind \<times> int"

definition pool_Collect :: "databasePoolCollector \<Rightarrow> pool_statistics \<Rightarrow> const_metric list" where
  "pool_Collect c s =
     [(pc_acquiredConnections c, GaugeKind, ps_AcquiredConns s),
      (pc_idleConnections c, GaugeKind, ps_IdleConns s),
      (pc_constructingConnections c, GaugeKind, ps_ConstructingConns s),
      (pc_totalConnections c, GaugeKind, ps_TotalConns s),
      (pc_maximumConnections c, GaugeKind, ps_MaxConns s),
      (pc_acquires c, CounterKind, ps_AcquireCount s),
      (pc_emptyAcquires c, CounterKind, ps_EmptyAcquireCount s),
      (pc_canceledAcquires c, CounterKind, ps_CanceledAcquireCount s),
      (pc_acquireDuration c, CounterKind, ps_AcquireDuration s),
      (pc_emptyAcquireWait c, CounterKind, ps_EmptyAcquireWaitTime s)]"

record databaseStateCollector =
  dc_collectionSuccess :: string
  dc_outboxPending :: string
  dc_outboxOldestAge :: string
  dc_outboxDead :: string
  dc_ackDevices :: string
  dc_ackMaxLag :: string

definition newDatabaseStateCollector :: databaseStateCollector where
  "newDatabaseStateCollector = \<lparr>
     dc_collectionSuccess = ''im_backend_database_metrics_collection_success'',
     dc_outboxPending = ''im_backend_outbox_pending_events'',
     dc_outboxOldestAge = ''im_backend_outbox_oldest_pending_age_seconds'',
     dc_outboxDead = ''im_backend_outbox_dead_events'',
     dc_ackDevices = ''im_backend_device_sync_states'',
     dc_ackMaxLag = ''im_backend_device_sync_max_ack_lag''\<rparr>"

definition state_Describe :: "databaseStateCollector \<Rightarrow> string list" where
  "state_Describe c =
     [dc_collectionSuccess c, dc_outboxPending c, dc_outboxOldestAge c, dc_outboxDead c, dc_ackDevices c, dc_ackMaxLag c]"

text \<open>What \<open>MustRegister\<close> is given, by \<open>registerDatabaseCollectors\<close> and \<open>registerOutboxDatabasePoolCollector\<close> too.\<close>

definition registerDatabaseCollectors :: "string list \<Rightarrow> string list" where
  "registerDatabaseCollectors names = names @ state_Describe newDatabaseStateCollector @ pool_Describe newDatabasePoolCollector"

definition registerOutboxDatabasePoolCollector :: "string list \<Rightarrow> string list" where
  "registerOutboxDatabasePoolCollector names = names @ pool_Describe newOutboxDatabasePoolCollector"

section \<open>The collector of the tables\<close>

text \<open>The rows of the two queries; the second sees what others commit after the first. Ages are in microseconds.\<close>

definition outboxFigures :: "timestamp \<Rightarrow> outbox_row list \<Rightarrow> int \<times> duration \<times> int" where
  "outboxFigures now rows =
     (let pending = filter open_row rows
      in (int (length pending),
          if pending = [] then 0 else now - Min (o_created_at ` set pending),
          int (length (filter (\<lambda>r. o_dead_at r \<noteq> None) rows))))"

definition ackLags :: "db \<Rightarrow> int list" where
  "ackLags d = concat (map (\<lambda>s. map (\<lambda>c. max (c_last_seq c - d_applied_seq s) 0)
     (filter (\<lambda>c. c_id c = d_conversation_id s) (conversations d))) (device_conversation_sync_states d))"

definition ackFigures :: "db \<Rightarrow> int \<times> int" where
  "ackFigures d = (int (length (ackLags d)), if ackLags d = [] then 0 else Max (set (ackLags d)))"

definition state_Collect :: "databaseStateCollector \<Rightarrow> bool \<Rightarrow> bool \<Rightarrow> (db \<Rightarrow> db) \<Rightarrow> timestamp \<Rightarrow> db \<Rightarrow> const_metric list" where
  "state_Collect c first_fails second_fails others now d =
     (if first_fails then [(dc_collectionSuccess c, GaugeKind, 0)]
      else let (pending, oldestAge, dead) = outboxFigures now (outbox_events d) in
      if second_fails then [(dc_collectionSuccess c, GaugeKind, 0)]
      else let (devices, maxLag) = ackFigures (others d) in
        [(dc_collectionSuccess c, GaugeKind, 1), (dc_outboxPending c, GaugeKind, pending), (dc_outboxOldestAge c, GaugeKind, oldestAge),
         (dc_outboxDead c, GaugeKind, dead), (dc_ackDevices c, GaugeKind, devices), (dc_ackMaxLag c, GaugeKind, maxLag)])"

section \<open>Metric calls\<close>

text \<open>A call of the library: on a vector with its label values, or on a metric without labels. Durations are in microseconds.\<close>

datatype metric_call =
    CounterInc string "string list"
  | CounterAdd string int
  | GaugeSet string int
  | HistogramObserve string "string list" int

text \<open>The observers do nothing without metrics; \<open>has_metrics\<close> says whether the pointer is set.\<close>

definition ObserveWebSocketWrite :: "bool \<Rightarrow> duration \<Rightarrow> string \<Rightarrow> metric_call list" where
  "ObserveWebSocketWrite has_metrics elapsed result =
     (if has_metrics then [HistogramObserve ''im_backend_websocket_write_duration_seconds'' [result] elapsed] else [])"

definition ObserveDatabaseAcquire :: "bool \<Rightarrow> string \<Rightarrow> string \<Rightarrow> duration \<Rightarrow> metric_call list" where
  "ObserveDatabaseAcquire has_metrics workload result elapsed =
     (if \<not> has_metrics \<or> elapsed < 0 then []
      else if workload \<notin> {''api'', ''outbox''} then []
      else if result \<notin> {''success'', ''error''} then []
      else [HistogramObserve ''im_backend_database_pool_acquire_duration_seconds'' [workload, result] elapsed])"

definition ObserveOutboxStage :: "bool \<Rightarrow> string \<Rightarrow> duration \<Rightarrow> metric_call list" where
  "ObserveOutboxStage has_metrics stage elapsed =
     (if has_metrics then [HistogramObserve ''im_backend_outbox_stage_duration_seconds'' [stage] elapsed] else [])"

definition ObserveOutboxBatchPresence :: "bool \<Rightarrow> int \<Rightarrow> string \<Rightarrow> metric_call list" where
  "ObserveOutboxBatchPresence has_metrics resolved result =
     (if \<not> has_metrics then []
      else [CounterInc ''im_backend_outbox_batch_presence_batches_total'' [result],
            CounterAdd ''im_backend_outbox_batch_presence_users_total'' resolved])"

definition SetOutboxWorkerConfig :: "bool \<Rightarrow> outboxWorkerConfig \<Rightarrow> metric_call list" where
  "SetOutboxWorkerConfig has_metrics config =
     (if \<not> has_metrics then []
      else [GaugeSet ''im_backend_outbox_worker_concurrency'' (wc_Concurrency config),
            GaugeSet ''im_backend_outbox_worker_batch_size'' (min (wc_BatchSize config) (wc_Concurrency config))])"

section \<open>The high watermark\<close>

text \<open>
  \<open>ObserveWebSocketQueueDepth\<close> with metrics, as the steps of one call among others: the observation, the load of the maximum, the
  comparison with it, the compare-and-swap and the gauge. A call is where it stands with its depth.
\<close>

datatype watermark_pc = AtObserve | AtLoad | AtSwap int | AtSet | Returned

record watermark =
  wm_maximum :: int
  wm_gauge :: int
  wm_observed :: "int list"
  wm_calls :: "(int \<times> watermark_pc) list"

definition ObserveWebSocketQueueDepth :: "nat \<Rightarrow> watermark \<Rightarrow> watermark" where
  "ObserveWebSocketQueueDepth i w =
     (case wm_calls w ! i of
        (current, AtObserve) \<Rightarrow> w\<lparr>wm_observed := wm_observed w @ [current], wm_calls := (wm_calls w)[i := (current, AtLoad)]\<rparr>
      | (current, AtLoad) \<Rightarrow>
          w\<lparr>wm_calls := (wm_calls w)[i := (current, if current \<le> wm_maximum w then Returned else AtSwap (wm_maximum w))]\<rparr>
      | (current, AtSwap previous) \<Rightarrow>
          if wm_maximum w = previous then w\<lparr>wm_maximum := current, wm_calls := (wm_calls w)[i := (current, AtSet)]\<rparr>
          else w\<lparr>wm_calls := (wm_calls w)[i := (current, AtLoad)]\<rparr>
      | (current, AtSet) \<Rightarrow> w\<lparr>wm_gauge := current, wm_calls := (wm_calls w)[i := (current, Returned)]\<rparr>
      | (current, Returned) \<Rightarrow> w)"

inductive watermark_step :: "watermark \<Rightarrow> watermark \<Rightarrow> bool" where
  "i < length (wm_calls w) \<Longrightarrow> snd (wm_calls w ! i) \<noteq> Returned \<Longrightarrow> watermark_step w (ObserveWebSocketQueueDepth i w)"

definition watermark_start :: "int \<Rightarrow> int list \<Rightarrow> watermark" where
  "watermark_start maximum depths = \<lparr>wm_maximum = maximum, wm_gauge = maximum, wm_observed = [], wm_calls = map (\<lambda>depth. (depth, AtObserve)) depths\<rparr>"

section \<open>Contexts and request ids\<close>

record databaseAcquireTrace =
  at_started :: timestamp
  at_workload :: string

record go_context =
  cx_requestID :: "string option"
  cx_workload :: "string option"
  cx_acquire :: "databaseAcquireTrace option"

text \<open>The random bytes, or the clock in nanoseconds and the value the fallback counter is raised to when there are none.\<close>

datatype entropy = RandomBytes byte_string | NoEntropy int nat

definition newRequestID :: "entropy \<Rightarrow> string" where
  "newRequestID e = (case e of
     RandomBytes raw \<Rightarrow> hex_EncodeToString raw
   | NoEntropy nanos n \<Rightarrow> ''fallback-'' @ FormatInt nanos @ ''-'' @ FormatInt (int n))"

definition requestIDFromContext :: "entropy \<Rightarrow> go_context \<Rightarrow> string" where
  "requestIDFromContext e ctx =
     (let requestID = (case cx_requestID ctx of None \<Rightarrow> [] | Some x \<Rightarrow> x)
      in if requestID = [] then newRequestID e else requestID)"

text \<open>The middleware sets the header \<open>X-Request-ID\<close> and passes the id on in the context.\<close>

definition requestIDMiddleware :: "entropy \<Rightarrow> (go_context \<Rightarrow> 'a) \<Rightarrow> go_context \<Rightarrow> string \<times> 'a" where
  "requestIDMiddleware e handler ctx = (let requestID = newRequestID e in (requestID, handler (ctx\<lparr>cx_requestID := Some requestID\<rparr>)))"

section \<open>The tracer of the pool\<close>

definition withDatabaseWorkload :: "go_context \<Rightarrow> string \<Rightarrow> go_context" where
  "withDatabaseWorkload ctx workload = (if workload \<in> {''api'', ''outbox''} then ctx\<lparr>cx_workload := Some workload\<rparr> else ctx)"

definition databaseWorkloadFromContext :: "go_context \<Rightarrow> string option" where
  "databaseWorkloadFromContext ctx = (case cx_workload ctx of
     None \<Rightarrow> None
   | Some workload \<Rightarrow> if workload \<in> {''api'', ''outbox''} then Some workload else None)"

definition databaseWorkloadHandler :: "string \<Rightarrow> (go_context \<Rightarrow> 'a) \<Rightarrow> go_context \<Rightarrow> 'a" where
  "databaseWorkloadHandler workload handler ctx = handler (withDatabaseWorkload ctx workload)"

text \<open>The tracers of a connection configuration; the library's \<open>multitracer\<close> calls them in turn.\<close>

datatype 'a tracers = OtherTracer 'a | AcquireTracer | MultiTracer "'a tracers" "'a tracers"

definition attachDatabaseAcquireTracer :: "'a tracers option \<Rightarrow> 'a tracers option" where
  "attachDatabaseAcquireTracer configured = (case configured of
     None \<Rightarrow> Some AcquireTracer
   | Some t \<Rightarrow> Some (MultiTracer t AcquireTracer))"

definition TraceAcquireStart :: "bool \<Rightarrow> timestamp \<Rightarrow> go_context \<Rightarrow> go_context" where
  "TraceAcquireStart has_metrics now ctx = (case databaseWorkloadFromContext ctx of
     None \<Rightarrow> ctx
   | Some workload \<Rightarrow> if \<not> has_metrics then ctx else ctx\<lparr>cx_acquire := Some \<lparr>at_started = now, at_workload = workload\<rparr>\<rparr>)"

definition TraceAcquireEnd :: "bool \<Rightarrow> timestamp \<Rightarrow> bool \<Rightarrow> go_context \<Rightarrow> metric_call list" where
  "TraceAcquireEnd has_metrics now failed ctx =
     (if \<not> has_metrics then []
      else case cx_acquire ctx of
        None \<Rightarrow> []
      | Some acquire \<Rightarrow>
          ObserveDatabaseAcquire has_metrics (at_workload acquire) (if failed then ''error'' else ''success'') (now - at_started acquire))"

definition TraceQueryStart :: "go_context \<Rightarrow> go_context" where
  "TraceQueryStart ctx = ctx"

section \<open>The captured status\<close>

text \<open>What the writer behind the capture is told.\<close>

datatype wire = WireHeader int | WireBody string

record statusResponseWriter =
  sw_status :: int
  sw_wroteHeader :: bool
  sw_wire :: "wire list"

definition sw_WriteHeader :: "int \<Rightarrow> statusResponseWriter \<Rightarrow> statusResponseWriter" where
  "sw_WriteHeader status writer =
     (if sw_wroteHeader writer then writer
      else writer\<lparr>sw_status := status, sw_wroteHeader := True, sw_wire := sw_wire writer @ [WireHeader status]\<rparr>)"

definition sw_Write :: "string \<Rightarrow> statusResponseWriter \<Rightarrow> statusResponseWriter" where
  "sw_Write body writer =
     (let writer = (if sw_wroteHeader writer then writer else sw_WriteHeader 200 writer)
      in writer\<lparr>sw_wire := sw_wire writer @ [WireBody body]\<rparr>)"

definition ObserveStatus :: "int \<Rightarrow> statusResponseWriter \<Rightarrow> statusResponseWriter" where
  "ObserveStatus status writer = writer\<lparr>sw_status := status\<rparr>"

text \<open>The calls of a handler on its writer.\<close>

datatype writer_call = CallWriteHeader int | CallWrite string | CallObserveStatus int

fun write_call :: "writer_call \<Rightarrow> statusResponseWriter \<Rightarrow> statusResponseWriter" where
  "write_call (CallWriteHeader status) = sw_WriteHeader status"
| "write_call (CallWrite body) = sw_Write body"
| "write_call (CallObserveStatus status) = ObserveStatus status"

definition InstrumentHTTP :: "writer_call list \<Rightarrow> string \<Rightarrow> string \<Rightarrow> duration \<Rightarrow> wire list \<times> metric_call list" where
  "InstrumentHTTP calls pattern requested elapsed =
     (let capture = fold write_call calls \<lparr>sw_status = 200, sw_wroteHeader = False, sw_wire = []\<rparr>;
          route = (if pattern = [] then ''unmatched'' else pattern)
      in (sw_wire capture,
          [CounterInc ''im_backend_http_requests_total'' [route, requested, FormatInt (sw_status capture)],
           HistogramObserve ''im_backend_http_request_duration_seconds'' [route, requested] elapsed]))"

text \<open>
  The calls of an answer. \<open>encode\<close> writes a body, \<open>encode_error\<close> the code, message and request id of
  an error; \<open>outside\<close> are the calls of the libraries that upgrade and redirect.
\<close>

definition answer_calls :: "('a \<Rightarrow> string) \<Rightarrow> (string \<Rightarrow> string \<Rightarrow> string \<Rightarrow> string) \<Rightarrow> string \<Rightarrow> 'a response \<Rightarrow> writer_call list" where
  "answer_calls encode encode_error requestID resp = (case resp of
     APIError status code msg \<Rightarrow> [CallWriteHeader status, CallWrite (encode_error code msg requestID)]
   | JSON status body \<Rightarrow> [CallWriteHeader status, CallWrite (encode body)]
   | NoBody status \<Rightarrow> [CallWriteHeader status])"

definition outcome_calls ::
  "(payload \<Rightarrow> string) \<Rightarrow> (string \<Rightarrow> string \<Rightarrow> string \<Rightarrow> string) \<Rightarrow> writer_call list \<Rightarrow> string \<Rightarrow> http_outcome \<Rightarrow> writer_call list" where
  "outcome_calls encode encode_error outside requestID out = (case out of
     Answered resp \<Rightarrow> answer_calls encode encode_error requestID resp
   | Upgrading who \<Rightarrow> outside
   | Redirected \<Rightarrow> outside
   | PlainStatus status \<Rightarrow> [CallWriteHeader status, CallWrite (if status = 404 then ''404 page not found'' @ [CHR 0x0A] else ''Method Not Allowed'' @ [CHR 0x0A])])"

text \<open>The pattern \<open>ServeMux\<close> leaves in the request: of the clean path when it redirects to that.\<close>

definition request_pattern :: "string \<Rightarrow> string list \<Rightarrow> string" where
  "request_pattern requested path =
     (case route_for requested (if requested = ''CONNECT'' then path else cleanPath path) of
        None \<Rightarrow> [] | Some (pattern, protected, ep) \<Rightarrow> pattern)"

text \<open>The whole handler \<open>routes\<close> returns: request id, workload, metrics and the routes.\<close>

definition handle_request ::
  "crypto \<Rightarrow> decoders \<Rightarrow> (payload \<Rightarrow> string) \<Rightarrow> (string \<Rightarrow> string \<Rightarrow> string \<Rightarrow> string) \<Rightarrow> writer_call list \<Rightarrow> entropy \<Rightarrow> entropy \<Rightarrow> duration \<Rightarrow>
   server_env \<Rightarrow> http_request \<Rightarrow> go_context \<Rightarrow> db \<Rightarrow> string \<times> (wire list \<times> metric_call list) \<times> disconnection list \<times> db" where
  "handle_request cr dc encode encode_error outside e e' elapsed env r ctx d =
     requestIDMiddleware e
       (databaseWorkloadHandler ''api''
         (\<lambda>ctx. case serve cr dc env r d of (out, closed, d') \<Rightarrow>
            (InstrumentHTTP (outcome_calls encode encode_error outside (requestIDFromContext e' ctx) out)
               (request_pattern (hr_Method r) (hr_Path r)) (hr_Method r) elapsed, closed, d')))
       ctx"

section \<open>Answers are counted as they are sent\<close>

text \<open>The status a client sees: that of the first header, 200 without one.\<close>

fun seen_status :: "wire list \<Rightarrow> int" where
  "seen_status (WireHeader status # _) = status"
| "seen_status _ = 200"

definition bodies_only :: "wire list \<Rightarrow> bool" where
  "bodies_only ws \<longleftrightarrow> (\<forall>w \<in> set ws. \<exists>body. w = WireBody body)"

definition captured :: "statusResponseWriter \<Rightarrow> bool" where
  "captured writer \<longleftrightarrow>
     (if sw_wroteHeader writer then \<exists>status ws. sw_wire writer = WireHeader status # ws \<and> bodies_only ws else sw_wire writer = [])"

lemma write_call_captured: "captured writer \<Longrightarrow> captured (write_call c writer)"
  by (cases c) (auto simp: captured_def sw_WriteHeader_def sw_Write_def ObserveStatus_def bodies_only_def Let_def split: if_splits)

lemma write_call_status:
  assumes "captured writer" and "sw_status writer = seen_status (sw_wire writer)" and "\<And>status. c \<noteq> CallObserveStatus status"
  shows "sw_status (write_call c writer) = seen_status (sw_wire (write_call c writer))"
  using assms by (cases c) (auto simp: captured_def sw_WriteHeader_def sw_Write_def Let_def split: if_splits)

lemma capture_run:
  assumes "captured writer" and "sw_status writer = seen_status (sw_wire writer)"
  shows "captured (fold write_call calls writer)"
    and "\<forall>status. CallObserveStatus status \<notin> set calls \<Longrightarrow>
      sw_status (fold write_call calls writer) = seen_status (sw_wire (fold write_call calls writer))"
  using assms
proof (induction calls arbitrary: writer)
  case (Cons c calls)
  {
    case 1
    have "captured (fold write_call calls v)" if "captured v" for v
      using that by (induction calls arbitrary: v) (auto intro: write_call_captured)
    then show ?case using 1 write_call_captured by simp
  next
    case 2
    then show ?case using Cons.IH(2) [of "write_call c writer"] write_call_captured write_call_status [of writer c] by auto
  }
qed auto

lemma InstrumentHTTP_status:
  assumes "InstrumentHTTP calls pattern requested elapsed = (wires, metrics)" and "\<forall>status. CallObserveStatus status \<notin> set calls"
  shows "hd metrics = CounterInc ''im_backend_http_requests_total''
      [if pattern = [] then ''unmatched'' else pattern, requested, FormatInt (seen_status wires)]"
  using capture_run(2) [of "\<lparr>sw_status = 200, sw_wroteHeader = False, sw_wire = []\<rparr>" calls] assms
  by (auto simp: InstrumentHTTP_def captured_def Let_def)

lemma newRequestID_nonempty: "e \<noteq> RandomBytes [] \<Longrightarrow> newRequestID e \<noteq> []"
  by (cases e) (auto simp: newRequestID_def hex_EncodeToString_def neq_Nil_conv)

lemma answer_wire:
  "sw_wire (fold write_call (answer_calls encode encode_error requestID resp) \<lparr>sw_status = 200, sw_wroteHeader = False, sw_wire = []\<rparr>) =
     (case resp of
        APIError status code msg \<Rightarrow> [WireHeader status, WireBody (encode_error code msg requestID)]
      | JSON status body \<Rightarrow> [WireHeader status, WireBody (encode body)]
      | NoBody status \<Rightarrow> [WireHeader status])"
  "sw_status (fold write_call (answer_calls encode encode_error requestID resp) \<lparr>sw_status = 200, sw_wroteHeader = False, sw_wire = []\<rparr>) =
     response_status resp"
  by (cases resp; simp add: answer_calls_def sw_WriteHeader_def sw_Write_def)+

lemma route_for_SomeD:
  assumes "route_for requested path = Some (pattern, protected, ep)"
  shows "(pattern, protected, ep) \<in> set routes" and "pattern \<noteq> []"
proof -
  show member: "(pattern, protected, ep) \<in> set routes"
    using find_SomeD [OF assms [unfolded route_for_def]] by simp
  have "list_all (\<lambda>(pattern, protected, ep). pattern \<noteq> []) routes" by code_simp
  then show "pattern \<noteq> []" using member by (auto simp: list_all_iff)
qed

lemma request_pattern_dispatch:
  "dispatch requested path = Matched protected ep arguments \<Longrightarrow> (request_pattern requested path, protected, ep) \<in> set routes \<and> request_pattern requested path \<noteq> []"
  "dispatch requested path = NotFound \<or> dispatch requested path = MethodNotAllowed \<Longrightarrow> request_pattern requested path = []"
  by (auto simp: dispatch_def request_pattern_def dest: route_for_SomeD split: if_splits option.splits)

lemma serve_dispatch:
  "fst (serve cr dc env r d) = Answered resp \<Longrightarrow> \<exists>protected ep arguments. dispatch (hr_Method r) (hr_Path r) = Matched protected ep arguments"
  "fst (serve cr dc env r d) = PlainStatus status \<Longrightarrow> dispatch (hr_Method r) (hr_Path r) = NotFound \<or> dispatch (hr_Method r) (hr_Path r) = MethodNotAllowed"
proof -
  have behind: "fst (serve_private cr dc env r ep arguments who e) \<noteq> PlainStatus status" for ep arguments who e
    by (cases ep) (auto simp: serve_private_def no_payload_def split: prod.split)
  show "fst (serve cr dc env r d) = Answered resp \<Longrightarrow> \<exists>protected ep arguments. dispatch (hr_Method r) (hr_Path r) = Matched protected ep arguments"
    by (auto simp: serve_def split: dispatched.splits)
  show "fst (serve cr dc env r d) = PlainStatus status \<Longrightarrow> dispatch (hr_Method r) (hr_Path r) = NotFound \<or> dispatch (hr_Method r) (hr_Path r) = MethodNotAllowed"
    using behind by (auto simp: serve_def case_prod_unfold split: dispatched.splits if_splits sum.splits)
qed


section \<open>The high watermark under concurrent calls\<close>

fun call_ok :: "int \<Rightarrow> int \<Rightarrow> watermark_pc \<Rightarrow> bool" where
  "call_ok maximum depth AtObserve \<longleftrightarrow> True"
| "call_ok maximum depth AtLoad \<longleftrightarrow> True"
| "call_ok maximum depth (AtSwap previous) \<longleftrightarrow> previous < depth"
| "call_ok maximum depth AtSet \<longleftrightarrow> depth \<le> maximum"
| "call_ok maximum depth Returned \<longleftrightarrow> depth \<le> maximum"

lemma call_ok_mono: "call_ok maximum depth pc \<Longrightarrow> maximum \<le> maximum' \<Longrightarrow> call_ok maximum' depth pc"
  by (cases pc) auto

definition watermark_inv :: "int \<Rightarrow> int list \<Rightarrow> watermark \<Rightarrow> bool" where
  "watermark_inv start depths w \<longleftrightarrow>
     map fst (wm_calls w) = depths \<and> start \<le> wm_maximum w \<and> wm_maximum w \<in> insert start (set depths)
     \<and> (\<forall>i < length depths. call_ok (wm_maximum w) (depths ! i) (snd (wm_calls w ! i)))"

lemma watermark_invD:
  assumes "watermark_inv start depths w"
  shows "map fst (wm_calls w) = depths" and "length (wm_calls w) = length depths" and "start \<le> wm_maximum w"
    and "wm_maximum w \<in> insert start (set depths)" and "i < length depths \<Longrightarrow> call_ok (wm_maximum w) (depths ! i) (snd (wm_calls w ! i))"
  using assms length_map [of fst "wm_calls w"] unfolding watermark_inv_def by simp_all

lemma watermark_step_cases:
  assumes "watermark_inv start depths w" and "watermark_step w v"
  obtains (observes) i where "i < length depths" "wm_calls w ! i = (depths ! i, AtObserve)"
      "v = w\<lparr>wm_observed := wm_observed w @ [depths ! i], wm_calls := (wm_calls w)[i := (depths ! i, AtLoad)]\<rparr>"
    | (returns) i where "i < length depths" "wm_calls w ! i = (depths ! i, AtLoad)" "depths ! i \<le> wm_maximum w"
      "v = w\<lparr>wm_calls := (wm_calls w)[i := (depths ! i, Returned)]\<rparr>"
    | (tries) i where "i < length depths" "wm_calls w ! i = (depths ! i, AtLoad)" "wm_maximum w < depths ! i"
      "v = w\<lparr>wm_calls := (wm_calls w)[i := (depths ! i, AtSwap (wm_maximum w))]\<rparr>"
    | (swaps) i where "i < length depths" "wm_calls w ! i = (depths ! i, AtSwap (wm_maximum w))" "wm_maximum w < depths ! i"
      "v = w\<lparr>wm_maximum := depths ! i, wm_calls := (wm_calls w)[i := (depths ! i, AtSet)]\<rparr>"
    | (retries) i previous where "i < length depths" "wm_calls w ! i = (depths ! i, AtSwap previous)" "previous \<noteq> wm_maximum w"
      "v = w\<lparr>wm_calls := (wm_calls w)[i := (depths ! i, AtLoad)]\<rparr>"
    | (sets) i where "i < length depths" "wm_calls w ! i = (depths ! i, AtSet)"
      "v = w\<lparr>wm_gauge := depths ! i, wm_calls := (wm_calls w)[i := (depths ! i, Returned)]\<rparr>"
proof -
  from assms(2) obtain i where i: "i < length (wm_calls w)" "snd (wm_calls w ! i) \<noteq> Returned" "v = ObserveWebSocketQueueDepth i w"
    by (auto elim: watermark_step.cases)
  have at: "i < length depths" "fst (wm_calls w ! i) = depths ! i" using watermark_invD(1,2) [OF assms(1)] i(1) nth_map [of i "wm_calls w" fst] by simp_all
  then obtain pc where pc: "wm_calls w ! i = (depths ! i, pc)" "i < length depths" by (cases "wm_calls w ! i") simp
  note here = i(3) [unfolded ObserveWebSocketQueueDepth_def pc(1) prod.case]
  show thesis
  proof (cases pc)
    case AtObserve
    then show ?thesis using here pc observes [OF pc(2)] by simp
  next
    case AtLoad
    then show ?thesis using here pc returns [OF pc(2)] tries [OF pc(2)] by (cases "depths ! i \<le> wm_maximum w") simp_all
  next
    case (AtSwap previous)
    then have "previous < depths ! i" using watermark_invD(5) [OF assms(1) pc(2)] pc(1) by simp
    then show ?thesis using AtSwap here pc swaps [OF pc(2)] retries [OF pc(2)] by (cases "wm_maximum w = previous") simp_all
  next
    case AtSet
    then show ?thesis using here pc sets [OF pc(2)] by simp
  qed (use i(2) pc(1) in simp)
qed

lemma watermark_step_inv:
  assumes "watermark_inv start depths w" and "watermark_step w v"
  shows "watermark_inv start depths v"
proof -
  note inv = watermark_invD [OF assms(1)]
  have keep: "map fst ((wm_calls w)[i := (depths ! i, pc)]) = depths" for i pc
    using inv(1) by (simp add: map_update)
  have others: "call_ok maximum (depths ! j) (snd ((wm_calls w)[i := (depths ! i, pc)] ! j))"
    if "j < length depths" "wm_maximum w \<le> maximum" "call_ok maximum (depths ! i) pc" for i j pc maximum
    using call_ok_mono [OF inv(5) [OF that(1)] that(2)] that inv(2) by (cases "i = j") simp_all
  show ?thesis
  proof (cases rule: watermark_step_cases [OF assms, case_names observes returns tries swaps retries sets])
    case (sets i)
    then have "depths ! i \<le> wm_maximum w" using inv(5) [of i] by simp
    then show ?thesis using sets inv(3,4) keep others unfolding watermark_inv_def by simp
  qed (use inv(3,4) keep others in \<open>simp_all add: watermark_inv_def\<close>)
qed

interpretation watermark_calls: rely_guarantee watermark_step
  "\<lambda>w v. watermark_inv start depths w \<longrightarrow> watermark_inv start depths v" "watermark_inv start depths" for start depths
  by unfold_locales (blast intro: watermark_step_inv)+

lemma watermark_reaches:
  assumes "watermark_step\<^sup>*\<^sup>* (watermark_start start depths) w"
  shows "watermark_inv start depths w"
  using watermark_calls.run_accepted [OF assms, of start depths]
  by (simp add: watermark_inv_def watermark_start_def comp_def)

text \<open>Calls that are above the maximum become fewer with every swap; between swaps every step takes a call on.\<close>

fun watermark_rank :: "int \<Rightarrow> watermark_pc \<Rightarrow> nat" where
  "watermark_rank maximum AtObserve = 5"
| "watermark_rank maximum AtLoad = 3"
| "watermark_rank maximum (AtSwap previous) = (if previous = maximum then 2 else 4)"
| "watermark_rank maximum AtSet = 1"
| "watermark_rank maximum Returned = 0"

definition watermark_above :: "int list \<Rightarrow> watermark \<Rightarrow> nat" where
  "watermark_above depths w = card {i. i < length depths \<and> wm_maximum w < depths ! i}"

definition watermark_left :: "int list \<Rightarrow> watermark \<Rightarrow> nat" where
  "watermark_left depths w = (\<Sum>i < length depths. watermark_rank (wm_maximum w) (snd (wm_calls w ! i)))"

lemma watermark_left_less:
  assumes "i < length depths" "map fst (wm_calls w) = depths" "wm_maximum v = wm_maximum w" "wm_calls v = (wm_calls w)[i := (depths ! i, pc)]"
    and "watermark_rank (wm_maximum w) pc < watermark_rank (wm_maximum w) (snd (wm_calls w ! i))"
  shows "watermark_left depths v < watermark_left depths w"
  unfolding watermark_left_def
proof (rule sum_strict_mono_ex1)
  have len: "length (wm_calls w) = length depths" using assms(2) by auto
  show "\<forall>j \<in> {..<length depths}. watermark_rank (wm_maximum v) (snd (wm_calls v ! j)) \<le> watermark_rank (wm_maximum w) (snd (wm_calls w ! j))"
    using assms len by (auto simp: nth_list_update)
  show "\<exists>j \<in> {..<length depths}. watermark_rank (wm_maximum v) (snd (wm_calls v ! j)) < watermark_rank (wm_maximum w) (snd (wm_calls w ! j))"
    using assms len by (intro bexI [of _ i]) auto
qed simp

lemma watermark_progress:
  assumes "watermark_inv start depths w" and "watermark_step w v"
  shows "(v, w) \<in> measures [watermark_above depths, watermark_left depths]"
proof -
  have calls: "map fst (wm_calls w) = depths" using assms(1) by (simp add: watermark_inv_def)
  note less = watermark_left_less [OF _ calls]
  have same: "watermark_above depths v = watermark_above depths w" if "wm_maximum v = wm_maximum w"
    using that by (simp add: watermark_above_def)
  show ?thesis
  proof (cases rule: watermark_step_cases [OF assms, case_names observes returns tries swaps retries sets])
    case (swaps i)
    have "{j. j < length depths \<and> wm_maximum v < depths ! j} \<subset> {j. j < length depths \<and> wm_maximum w < depths ! j}"
      using swaps by auto
    then have "watermark_above depths v < watermark_above depths w" unfolding watermark_above_def by (intro psubset_card_mono) auto
    then show ?thesis by simp
  qed (use less same in \<open>auto simp: measures_less\<close>)
qed

lemma watermark_terminates: "wf {(v, w). watermark_inv start depths w \<and> watermark_step w v}"
  by (rule wf_subset [OF wf_measures [of "[watermark_above depths, watermark_left depths]"]]) (blast intro: watermark_progress)

lemma watermark_stuck:
  assumes "watermark_inv start depths w" and "\<nexists>v. watermark_step w v"
  shows "wm_maximum w = Max (insert start (set depths))" and "snd ` set (wm_calls w) \<subseteq> {Returned}"
proof -
  have done_all: "snd (wm_calls w ! i) = Returned" if "i < length (wm_calls w)" for i
    using assms(2) watermark_step.intros that by blast
  note inv = watermark_invD [OF assms(1)]
  have "depths ! i \<le> wm_maximum w" if "i < length depths" for i
    using inv(5) [OF that] done_all [of i] that inv(2) by simp
  then have "x \<le> wm_maximum w" if "x \<in> insert start (set depths)" for x
    using inv(3) that by (auto simp: in_set_conv_nth)
  then show "wm_maximum w = Max (insert start (set depths))"
    using inv(4) by (intro Max_eqI [symmetric]) simp_all
  show "snd ` set (wm_calls w) \<subseteq> {Returned}" using done_all by (force simp: in_set_conv_nth)
qed

text \<open>
  C35: however the concurrent calls of \<open>ObserveWebSocketQueueDepth\<close> are interleaved, the retries of
  their compare-and-swap end: no schedule of them is infinite. When no call can take a step any more,
  all have returned and the maximum is the largest of the depths and the maximum before.
\<close>

theorem watermark_calls_return:
  "wf {(v, w). watermark_step\<^sup>*\<^sup>* (watermark_start start depths) w \<and> watermark_step w v}
   \<and> (\<forall>w. watermark_step\<^sup>*\<^sup>* (watermark_start start depths) w \<longrightarrow> (\<nexists>v. watermark_step w v) \<longrightarrow>
        snd ` set (wm_calls w) \<subseteq> {Returned} \<and> wm_maximum w = Max (insert start (set depths)))"
proof (intro conjI allI impI)
  show "wf {(v, w). watermark_step\<^sup>*\<^sup>* (watermark_start start depths) w \<and> watermark_step w v}"
    by (rule wf_subset [OF watermark_terminates]) (blast intro: watermark_reaches)
qed (blast dest: watermark_reaches watermark_stuck)+

definition watermark_run :: "nat list \<Rightarrow> watermark \<Rightarrow> watermark" where
  "watermark_run schedule w = fold ObserveWebSocketQueueDepth schedule w"

text \<open>Two calls overlap: the second raises the maximum to 7 and the gauge, then the first sets the gauge to its 5.\<close>

lemma gauge_falls_behind:
  "wm_maximum (watermark_run [0, 1, 0, 0, 1, 1, 1, 0] (watermark_start 0 [5, 7])) = 7"
  "wm_gauge (watermark_run [0, 1, 0, 0, 1, 1, 1, 0] (watermark_start 0 [5, 7])) = 5"
  "list_all (\<lambda>c. snd c = Returned) (wm_calls (watermark_run [0, 1, 0, 0, 1, 1, 1, 0] (watermark_start 0 [5, 7])))"
  by code_simp+

lemma watermark_run_reaches:
  assumes "\<forall>i \<in> set schedule. i < length (wm_calls w)"
  shows "watermark_step\<^sup>*\<^sup>* w (watermark_run schedule w)"
  using assms unfolding watermark_run_def
proof (induction schedule arbitrary: w)
  case (Cons i schedule)
  let ?v = "ObserveWebSocketQueueDepth i w"
  have len: "length (wm_calls ?v) = length (wm_calls w)"
    by (auto simp: ObserveWebSocketQueueDepth_def split: prod.split watermark_pc.split)
  have "watermark_step\<^sup>*\<^sup>* w ?v"
  proof (cases "snd (wm_calls w ! i) = Returned")
    case True
    then have "?v = w" by (auto simp: ObserveWebSocketQueueDepth_def split: prod.split)
    then show ?thesis by simp
  qed (use Cons.prems in \<open>auto intro: watermark_step.intros\<close>)
  moreover have "watermark_step\<^sup>*\<^sup>* ?v (fold ObserveWebSocketQueueDepth schedule ?v)"
    using Cons.IH [of ?v] Cons.prems len by simp
  ultimately show ?case by simp
qed simp

theorem watermark_calls_return_witness:
  "wm_maximum (watermark_run [0, 1, 0, 0, 1, 1, 1, 0] (watermark_start 0 [5, 7])) = Max {0, 5, 7}"
proof -
  let ?w = "watermark_run [0, 1, 0, 0, 1, 1, 1, 0] (watermark_start 0 [5, 7])"
  have "watermark_step\<^sup>*\<^sup>* (watermark_start 0 [5, 7]) ?w"
    by (rule watermark_run_reaches) (simp add: watermark_start_def)
  moreover have "\<nexists>v. watermark_step ?w v"
    using gauge_falls_behind(3) by (auto simp: list_all_length elim!: watermark_step.cases)
  ultimately show ?thesis using watermark_calls_return [of 0 "[5, 7]"] by simp
qed

section \<open>The figures of the tables\<close>

definition unacknowledged :: "db \<Rightarrow> sync_state_row \<Rightarrow> message list" where
  "unacknowledged d s = filter (\<lambda>m. d_applied_seq s < m_ConversationSeq m) (conversation_messages d (d_conversation_id s))"

lemma filter_key: "distinct (map f xs) \<Longrightarrow> x \<in> set xs \<Longrightarrow> filter (\<lambda>y. f y = f x) xs = [x]"
  by (induction xs) (auto simp: filter_empty_conv image_iff)

lemma length_unacknowledged:
  assumes inv: "chat_inv d" and member: "is_member d (d_conversation_id s) uid"
    and applied: "0 \<le> d_applied_seq s" "d_applied_seq s \<le> stream_end (d_conversation_id s) d"
  shows "int (length (unacknowledged d s)) = stream_end (d_conversation_id s) d - d_applied_seq s"
proof -
  let ?cid = "d_conversation_id s"
  let ?seqs = "map m_ConversationSeq (unacknowledged d s)"
  have "distinct ?seqs"
    using distinct_seqs [OF inv, of ?cid] unfolding unacknowledged_def by (rule distinct_map_filter)
  moreover have "set ?seqs = {d_applied_seq s + 1..stream_end ?cid d}"
    using stream_seqs(1) [OF inv member] applied unfolding seqs_of_def unacknowledged_def by (auto simp: image_iff set_eq_iff) force+
  ultimately have "length ?seqs = card {d_applied_seq s + 1..stream_end ?cid d}" by (metis distinct_card)
  then show ?thesis using applied by simp
qed

lemma concat_singletons: "(\<And>x. x \<in> set xs \<Longrightarrow> f x = [g x]) \<Longrightarrow> concat (map f xs) = map g xs"
  by (induction xs) auto

lemma ackLags_unacknowledged:
  assumes inv: "chat_inv d" "sync_ok d"
  shows "ackLags d = map (\<lambda>s. int (length (unacknowledged d s))) (device_conversation_sync_states d)"
proof -
  have "map (\<lambda>c. max (c_last_seq c - d_applied_seq s) 0) (filter (\<lambda>c. c_id c = d_conversation_id s) (conversations d))
      = [int (length (unacknowledged d s))]" if s: "s \<in> set (device_conversation_sync_states d)" for s
  proof -
    have member: "is_member d (d_conversation_id s) (d_user_id s)" and applied: "0 \<le> d_applied_seq s" "d_applied_seq s \<le> stream_end (d_conversation_id s) d"
      using inv(2) s by (auto simp: sync_ok_def)
    obtain c where c: "c \<in> set (conversations d)" "c_id c = d_conversation_id s" by (rule member_conversation [OF inv(1) member])
    have "filter (\<lambda>x. c_id x = d_conversation_id s) (conversations d) = [c]"
      using filter_key [OF _ c(1), of c_id] inv(1) c(2) by (simp add: chat_inv_def)
    moreover have "c_last_seq c = stream_end (d_conversation_id s) d" using stream_end_find(2) [OF inv(1) c(1)] c(2) by simp
    ultimately show ?thesis using length_unacknowledged [OF inv(1) member applied] applied(2) by simp
  qed
  then show ?thesis unfolding ackLags_def by (rule concat_singletons)
qed

text \<open>
  A collection that succeeds reports the backlog of the tables it read: the pending events are the
  outbox rows neither published nor dead, the age is that of the oldest of them, and the lag of the
  devices, a difference of two counters, is the largest number of stored messages of a conversation
  that a device with an acknowledgement there has not acknowledged.
\<close>

theorem collected_figures_are_the_backlog:
  assumes "chat_inv (others d)" and "sync_ok (others d)"
    and "state_Collect newDatabaseStateCollector False False others now d = ms"
  shows "\<exists>age lag. ms =
      [(''im_backend_database_metrics_collection_success'', GaugeKind, 1),
       (''im_backend_outbox_pending_events'', GaugeKind,
          int (length (filter (\<lambda>r. o_published_at r = None \<and> o_dead_at r = None) (outbox_events d)))),
       (''im_backend_outbox_oldest_pending_age_seconds'', GaugeKind, age),
       (''im_backend_outbox_dead_events'', GaugeKind, int (length (filter (\<lambda>r. o_dead_at r \<noteq> None) (outbox_events d)))),
       (''im_backend_device_sync_states'', GaugeKind, int (length (device_conversation_sync_states (others d)))),
       (''im_backend_device_sync_max_ack_lag'', GaugeKind, lag)]
    \<and> (\<forall>r \<in> set (outbox_events d). o_published_at r = None \<and> o_dead_at r = None \<longrightarrow> now - o_created_at r \<le> age)
    \<and> lag = Max (insert 0 ((\<lambda>s. int (length (unacknowledged (others d) s))) ` set (device_conversation_sync_states (others d))))"
proof -
  let ?e = "others d"
  note lags = ackLags_unacknowledged [OF assms(1,2)]
  have "snd (ackFigures ?e) = Max (insert 0 ((\<lambda>s. int (length (unacknowledged ?e s))) ` set (device_conversation_sync_states ?e)))"
  proof (cases "device_conversation_sync_states ?e = []")
    case False
    then have "0 \<le> Max ((\<lambda>s. int (length (unacknowledged ?e s))) ` set (device_conversation_sync_states ?e))"
      by (subst Max_ge_iff) (auto simp: neq_Nil_conv)
    then show ?thesis using False by (simp add: ackFigures_def lags max_def)
  qed (simp add: ackFigures_def lags)
  moreover have "fst (ackFigures ?e) = int (length (device_conversation_sync_states ?e))" by (simp add: ackFigures_def lags)
  moreover have "now - o_created_at r \<le> fst (snd (outboxFigures now (outbox_events d)))" if "r \<in> set (outbox_events d)" "open_row r" for r
  proof -
    have "Min (o_created_at ` set (filter open_row (outbox_events d))) \<le> o_created_at r" using that by (intro Min_le) auto
    then show ?thesis using that by (auto simp: outboxFigures_def Let_def filter_empty_conv)
  qed
  moreover have "fst (outboxFigures now (outbox_events d)) = int (length (filter open_row (outbox_events d)))"
      "snd (snd (outboxFigures now (outbox_events d))) = int (length (filter (\<lambda>r. o_dead_at r \<noteq> None) (outbox_events d)))"
    by (simp_all add: outboxFigures_def Let_def)
  moreover have "filter (\<lambda>r. o_published_at r = None \<and> o_dead_at r = None) (outbox_events d) = filter open_row (outbox_events d)"
    by (rule filter_cong) (simp_all add: open_row_def)
  ultimately show ?thesis
    using assms(3) [symmetric]
    by (intro exI [of _ "fst (snd (outboxFigures now (outbox_events d)))"] exI [of _ "snd (ackFigures ?e)"])
      (simp add: state_Collect_def newDatabaseStateCollector_def case_prod_unfold open_row_def)
qed

section \<open>Registration and calls\<close>

definition registered_names :: "int list \<Rightarrow> string list" where
  "registered_names defBuckets =
     registerOutboxDatabasePoolCollector (registerDatabaseCollectors (map md_name (newApplicationMetrics defBuckets)))"

text \<open>A call the library accepts for the descriptors: a metric of its kind with a value for every label.\<close>

fun accepted :: "metric_desc list \<Rightarrow> metric_call \<Rightarrow> bool" where
  "accepted descs (CounterInc name labels) \<longleftrightarrow> (\<exists>m \<in> set descs. md_name m = name \<and> md_kind m = CounterKind \<and> length (md_labels m) = length labels)"
| "accepted descs (CounterAdd name n) \<longleftrightarrow> (\<exists>m \<in> set descs. md_name m = name \<and> md_kind m = CounterKind \<and> md_labels m = [] \<and> 0 \<le> n)"
| "accepted descs (GaugeSet name n) \<longleftrightarrow> (\<exists>m \<in> set descs. md_name m = name \<and> md_kind m = GaugeKind \<and> md_labels m = [])"
| "accepted descs (HistogramObserve name labels n) \<longleftrightarrow>
     (\<exists>m \<in> set descs. md_name m = name \<and> md_kind m = HistogramKind \<and> length (md_labels m) = length labels)"

definition observer_calls :: "bool \<Rightarrow> duration \<Rightarrow> string \<Rightarrow> string \<Rightarrow> int \<Rightarrow> outboxWorkerConfig \<Rightarrow> writer_call list \<Rightarrow> string \<Rightarrow> string \<Rightarrow> metric_call list" where
  "observer_calls has_metrics elapsed result workload resolved config calls pattern requested =
     ObserveWebSocketWrite has_metrics elapsed result @ ObserveDatabaseAcquire has_metrics workload result elapsed
     @ ObserveOutboxStage has_metrics result elapsed @ ObserveOutboxBatchPresence has_metrics resolved result
     @ SetOutboxWorkerConfig has_metrics config @ snd (InstrumentHTTP calls pattern requested elapsed)"

lemma pool_describes_what_it_collects: "map fst (pool_Collect c s) = pool_Describe c"
  by (simp add: pool_Collect_def pool_Describe_def)

lemma state_describes_what_it_collects: "set (map fst (state_Collect c first_fails second_fails others now d)) \<subseteq> set (state_Describe c)"
  by (auto simp: state_Collect_def state_Describe_def split: prod.splits)

lemma registered_descs:
  "histogram_desc ''im_backend_websocket_write_duration_seconds'' [''result'']
     [100, 250, 500, 1000, 2500, 5000, 10000, 25000, 50000, 100000, 250000, 500000, 1000000, 2500000, 5000000, 10000000] \<in> set (newApplicationMetrics b)"
  "histogram_desc ''im_backend_database_pool_acquire_duration_seconds'' [''workload'', ''result'']
     [10, 25, 50, 100, 250, 500, 1000, 2500, 5000, 10000, 25000, 50000, 100000, 250000, 500000, 1000000, 2500000, 5000000, 10000000]
     \<in> set (newApplicationMetrics b)"
  "histogram_desc ''im_backend_outbox_stage_duration_seconds'' [''stage'']
     [100, 250, 500, 1000, 2500, 5000, 10000, 25000, 50000, 100000, 250000, 500000, 1000000, 2500000, 5000000, 10000000, 20000000, 30000000, 60000000]
     \<in> set (newApplicationMetrics b)"
  "counter_desc ''im_backend_outbox_batch_presence_batches_total'' [''result''] \<in> set (newApplicationMetrics b)"
  "counter_desc ''im_backend_outbox_batch_presence_users_total'' [] \<in> set (newApplicationMetrics b)"
  "gauge_desc ''im_backend_outbox_worker_concurrency'' \<in> set (newApplicationMetrics b)"
  "gauge_desc ''im_backend_outbox_worker_batch_size'' \<in> set (newApplicationMetrics b)"
  "counter_desc ''im_backend_http_requests_total'' [''route'', ''method'', ''status''] \<in> set (newApplicationMetrics b)"
  "histogram_desc ''im_backend_http_request_duration_seconds'' [''route'', ''method''] b \<in> set (newApplicationMetrics b)"
  unfolding newApplicationMetrics_def list.set by simp_all

lemma accepted_desc:
  "counter_desc name labels \<in> set descs \<Longrightarrow> length values = length labels \<Longrightarrow> accepted descs (CounterInc name values)"
  "counter_desc name [] \<in> set descs \<Longrightarrow> 0 \<le> n \<Longrightarrow> accepted descs (CounterAdd name n)"
  "gauge_desc name \<in> set descs \<Longrightarrow> accepted descs (GaugeSet name n)"
  "histogram_desc name labels buckets \<in> set descs \<Longrightarrow> length values = length labels \<Longrightarrow> accepted descs (HistogramObserve name values n)"
  by (force simp: counter_desc_def gauge_desc_def histogram_desc_def)+

lemmas accepted_calls =
  registered_descs(1-3,9) [THEN accepted_desc(4)] registered_descs(4,8) [THEN accepted_desc(1)] registered_descs(5) [THEN accepted_desc(2)]
  registered_descs(6,7) [THEN accepted_desc(3)]

text \<open>
  The registration of the metrics cannot fail and no call of the observers can: all descriptors of
  the application, of the collector of the tables and of both pools have different names, the buckets of
  every histogram increase, label names do not repeat, and every call names a registered metric of its
  kind with exactly one value for each label.
\<close>

theorem metrics_are_well_formed:
  assumes "sorted_wrt (<) defBuckets" and "0 \<le> resolved"
  shows "distinct (registered_names defBuckets)
    \<and> (\<forall>m \<in> set (newApplicationMetrics defBuckets). sorted_wrt (<) (md_buckets m) \<and> distinct (md_labels m))
    \<and> (\<forall>c \<in> set (observer_calls has_metrics elapsed result workload resolved config calls pattern requested).
        accepted (newApplicationMetrics defBuckets) c)"
proof (intro conjI)
  have "map md_name (newApplicationMetrics defBuckets) = map md_name (newApplicationMetrics [])"
    by (simp add: newApplicationMetrics_def histogram_desc_def)
  moreover have "distinct (registered_names [])" by code_simp
  ultimately show "distinct (registered_names defBuckets)" by (simp add: registered_names_def)
  show "\<forall>m \<in> set (newApplicationMetrics defBuckets). sorted_wrt (<) (md_buckets m) \<and> distinct (md_labels m)"
    using assms(1) by (simp add: newApplicationMetrics_def counter_desc_def gauge_desc_def histogram_desc_def)
  show "\<forall>c \<in> set (observer_calls has_metrics elapsed result workload resolved config calls pattern requested).
      accepted (newApplicationMetrics defBuckets) c"
    using assms(2)
    by (simp add: observer_calls_def ObserveWebSocketWrite_def ObserveDatabaseAcquire_def ObserveOutboxStage_def ObserveOutboxBatchPresence_def
        SetOutboxWorkerConfig_def InstrumentHTTP_def accepted_calls Let_def del: accepted.simps)
qed

theorem metrics_are_well_formed_witness: "distinct (registered_names [5000, 10000])"
  using metrics_are_well_formed [of "[5000, 10000]" 0] by simp

section \<open>Connections are observed by workload\<close>

text \<open>An acquisition is observed once, under the workload of its context and with its result, when the clock did not go back.\<close>

lemma acquire_observed_once:
  assumes "cx_workload ctx = Some workload" and "workload \<in> {''api'', ''outbox''}" and "t \<le> t'"
  shows "TraceAcquireEnd True t' failed (TraceAcquireStart True t ctx) =
    [HistogramObserve ''im_backend_database_pool_acquire_duration_seconds'' [workload, if failed then ''error'' else ''success''] (t' - t)]"
  using assms by (auto simp: TraceAcquireStart_def databaseWorkloadFromContext_def TraceAcquireEnd_def ObserveDatabaseAcquire_def)

lemma acquire_without_workload:
  assumes "cx_workload ctx = None" and "cx_acquire ctx = None"
  shows "TraceAcquireEnd True t' failed (TraceAcquireStart True t ctx) = []"
  using assms by (simp add: TraceAcquireStart_def databaseWorkloadFromContext_def TraceAcquireEnd_def)

lemma requests_acquire_as_api:
  "cx_workload (withDatabaseWorkload ctx ''api'') = Some ''api''"
  by (simp add: withDatabaseWorkload_def)

section \<open>Methods are not bounded\<close>

text \<open>The method of a request is a label whatever it is: a refused request leaves a series of its own for each made-up method.\<close>

lemma health_has_one_method:
  assumes "m \<notin> {''GET'', ''HEAD'', ''CONNECT''}"
  shows "dispatch m [[], ''health''] = MethodNotAllowed" and "request_pattern m [[], ''health''] = []"
proof -
  have "list_all (\<lambda>(pattern, protected, ep). match_path (pattern_path pattern) (map path_segment [[], ''health'']) = None
      \<or> pattern_method pattern = ''GET'') routes" by code_simp
  then have "route_for m [[], ''health''] = None"
    using assms by (auto simp: route_for_def find_None_iff match_method_def list_all_iff)
  moreover have "cleanPath [[], ''health''] = [[], ''health'']" by code_simp
  moreover have "list_ex (\<lambda>(pattern, protected, ep). match_path (pattern_path pattern) (map path_segment [[], ''health'']) \<noteq> None) routes"
    by code_simp
  ultimately show "dispatch m [[], ''health''] = MethodNotAllowed" "request_pattern m [[], ''health''] = []"
    using assms by (simp_all add: dispatch_def request_pattern_def)
qed

lemma made_up_method_is_counted:
  assumes "m \<notin> {''GET'', ''HEAD'', ''CONNECT''}"
  shows "serve cr dc env (r\<lparr>hr_Method := m, hr_Path := [[], ''health'']\<rparr>) d = (PlainStatus 405, [], d)"
    and "CounterInc ''im_backend_http_requests_total'' [''unmatched'', m, FormatInt 405] \<in>
      set (snd (InstrumentHTTP (outcome_calls encode encode_error outside requestID (PlainStatus 405)) (request_pattern m [[], ''health'']) m elapsed))"
  using health_has_one_method [OF assms]
  by (simp_all add: serve_def InstrumentHTTP_def outcome_calls_def sw_WriteHeader_def sw_Write_def Let_def)

section \<open>Examples\<close>

definition some_context :: go_context where
  "some_context = \<lparr>cx_requestID = None, cx_workload = None, cx_acquire = None\<rparr>"


definition half_read :: db where
  "half_read = signed_in\<lparr>device_conversation_sync_states :=
     [\<lparr>d_user_id = 1, d_device_id = ''phone'', d_conversation_id = 1, d_applied_seq = 0, d_updated_at = 1500\<rparr>,
      \<lparr>d_user_id = 2, d_device_id = ''laptop'', d_conversation_id = 1, d_applied_seq = 1, d_updated_at = 1600\<rparr>]\<rparr>"

lemma half_read_inv: "chat_inv half_read" "sync_ok half_read"
proof -
  have "chat_inv signed_in" using signed_in_inv by (simp add: system_inv_def)
  then show "chat_inv half_read" by (rule chat_inv_more) (simp_all add: half_read_def user_ids_def)
  show "sync_ok half_read"
    by (simp add: sync_ok_def half_read_def is_member_def stream_end_def signed_in_def with_session_def hello_db_def)
qed

theorem collected_figures_witness:
  "\<exists>age. last (state_Collect newDatabaseStateCollector False False (\<lambda>d. d) 2000 half_read) =
      (''im_backend_device_sync_max_ack_lag'', GaugeKind, 1)
    \<and> state_Collect newDatabaseStateCollector False False (\<lambda>d. d) 2000 half_read ! 2 =
      (''im_backend_outbox_oldest_pending_age_seconds'', GaugeKind, age)"
proof -
  have "(\<lambda>s. int (length (unacknowledged half_read s))) ` set (device_conversation_sync_states half_read) = {1, 0}"
    by (simp add: half_read_def unacknowledged_def conversation_messages_def signed_in_def with_session_def hello_db_def hello_message_def)
  then show ?thesis
    using collected_figures_are_the_backlog [of "\<lambda>d. d" half_read 2000, OF half_read_inv refl] by auto
qed

end
