(* ===== verification/LoadMetrics.thy ===== *)
theory LoadMetrics
  imports Complex_Main LoadTest Observability
begin

text \<open>
  What the load test of \<^verbatim>\<open>cmd/im-loadtest/main.go\<close> makes of the server's metrics: the reading of the
  text exposition, the peaks a sampler keeps, the differences between two snapshots and the
  quantiles of a histogram's new observations. The parser of metric families, of numbers and the
  floating point rank of a quantile are arguments; sums are those of an ordered field and the bounds of
  buckets any linear order.
\<close>

section \<open>Snapshots\<close>

text \<open>A Go map whose keys are listed once.\<close>

definition put :: "'k \<Rightarrow> 'v \<Rightarrow> ('k \<times> 'v) list \<Rightarrow> ('k \<times> 'v) list" where
  "put k v m = (k, v) # filter (\<lambda>e. fst e \<noteq> k) m"

definition lookup :: "'v \<Rightarrow> ('k \<times> 'v) list \<Rightarrow> 'k \<Rightarrow> 'v" where
  "lookup zero m k = (case map_of m k of None \<Rightarrow> zero | Some v \<Rightarrow> v)"

record ('f, 'b) histogramSnapshot =
  hs_Count :: nat
  hs_Sum :: 'f
  hs_Buckets :: "('b \<times> nat) list"

record ('f, 'b) metricsSnapshot =
  ms_Values :: "(string \<times> 'f) list"
  ms_OutboxStageDurations :: "(string \<times> ('f, 'b) histogramSnapshot) list"
  ms_DatabaseAcquireDurations :: "(string \<times> (string \<times> ('f, 'b) histogramSnapshot) list) list"

definition no_histogram :: "('f::zero, 'b) histogramSnapshot" where
  "no_histogram = \<lparr>hs_Count = 0, hs_Sum = 0, hs_Buckets = []\<rparr>"

section \<open>Reading the exposition\<close>

text \<open>The name and the number of a line, if it has both.\<close>

definition metric_line :: "(string \<Rightarrow> 'f option) \<Rightarrow> string \<Rightarrow> (string \<times> 'f) option" where
  "metric_line ParseFloat raw =
     (let line = TrimSpace raw
      in if line = [] \<or> HasPrefix line ''#'' then None
         else case Fields line of
           name # number # _ \<Rightarrow>
             (case ParseFloat number of None \<Rightarrow> None | Some x \<Rightarrow> Some (takeWhile (\<lambda>c. c \<noteq> CHR ''{'') name, x))
         | _ \<Rightarrow> None)"

definition add_line :: "(string \<Rightarrow> 'f::{zero,plus} option) \<Rightarrow> string \<Rightarrow> (string \<times> 'f) list \<Rightarrow> (string \<times> 'f) list" where
  "add_line ParseFloat raw values =
     (case metric_line ParseFloat raw of None \<Rightarrow> values | Some (name, x) \<Rightarrow> put name (lookup 0 values name + x) values)"

text \<open>A family of the library's parser: labels, and the histogram if it has one.\<close>

record ('f, 'b) metric =
  mt_labels :: "(string \<times> string) list"
  mt_histogram :: "(nat \<times> 'f \<times> ('b \<times> nat) list) option"

definition snapshot_of :: "nat \<times> 'f \<times> ('b \<times> nat) list \<Rightarrow> ('f, 'b) histogramSnapshot" where
  "snapshot_of h = (case h of (n, s, buckets) \<Rightarrow>
     \<lparr>hs_Count = n, hs_Sum = s, hs_Buckets = fold (\<lambda>(bound, cumulative). put bound cumulative) buckets []\<rparr>)"

text \<open>The first label of the name for a stage, the last for workload and result.\<close>

definition parseOutboxStageDurations ::
  "(string \<Rightarrow> (string \<Rightarrow> ('f, 'b) metric list option) option) \<Rightarrow> string \<Rightarrow> (string \<times> ('f, 'b) histogramSnapshot) list option" where
  "parseOutboxStageDurations families text =
     (case families text of
        None \<Rightarrow> None
      | Some family \<Rightarrow>
        (case family ''im_backend_outbox_stage_duration_seconds'' of
           None \<Rightarrow> Some []
         | Some metrics \<Rightarrow>
             Some (fold (\<lambda>m result.
               let stage = lookup [] (mt_labels m) ''stage''
               in case mt_histogram m of
                    None \<Rightarrow> result
                  | Some h \<Rightarrow> if stage = [] then result else put stage (snapshot_of h) result) metrics [])))"

definition parseDatabaseAcquireDurations ::
  "(string \<Rightarrow> (string \<Rightarrow> ('f, 'b) metric list option) option) \<Rightarrow> string \<Rightarrow> (string \<times> (string \<times> ('f, 'b) histogramSnapshot) list) list option" where
  "parseDatabaseAcquireDurations families text =
     (case families text of
        None \<Rightarrow> None
      | Some family \<Rightarrow>
        (case family ''im_backend_database_pool_acquire_duration_seconds'' of
           None \<Rightarrow> Some []
         | Some metrics \<Rightarrow>
             Some (fold (\<lambda>m result.
               let workload = lookup [] (rev (mt_labels m)) ''workload''; acquireResult = lookup [] (rev (mt_labels m)) ''result''
               in case mt_histogram m of
                    None \<Rightarrow> result
                  | Some h \<Rightarrow>
                      if workload = [] \<or> acquireResult = [] then result
                      else put workload (put acquireResult (snapshot_of h) (lookup [] result workload)) result) metrics [])))"

text \<open>The scanner fails on a line that does not fit its buffer.\<close>

definition fetchMetrics ::
  "(string \<Rightarrow> 'f::{zero,plus} option) \<Rightarrow> (string \<Rightarrow> (string \<Rightarrow> ('f, 'b) metric list option) option) \<Rightarrow> http_reply \<Rightarrow> ('f, 'b) metricsSnapshot option" where
  "fetchMetrics ParseFloat families reply =
     (case reply of
        NoReply err \<Rightarrow> None
      | Reply status whole \<Rightarrow>
        if status \<noteq> 200 then None
        else case whole of
          None \<Rightarrow> None
        | Some body \<Rightarrow>
          (let text = take 16777216 body; lines = split_at (CHR 0x0A) text
           in if list_ex (\<lambda>line. 1048576 \<le> length line) lines then None
              else case (parseOutboxStageDurations families text, parseDatabaseAcquireDurations families text) of
                (Some stages, Some acquires) \<Rightarrow>
                  Some \<lparr>ms_Values = fold (add_line ParseFloat) lines [], ms_OutboxStageDurations = stages, ms_DatabaseAcquireDurations = acquires\<rparr>
              | _ \<Rightarrow> None))"

section \<open>Peaks\<close>

record 'f metricPeakSampler =
  sp_peaks :: "(string \<times> 'f) list"
  sp_samples :: nat
  sp_errors :: nat

definition peakMetricNames :: "string list" where
  "peakMetricNames = [''im_backend_outbox_pending_events'', ''im_backend_outbox_oldest_pending_age_seconds'']"

definition observePeak :: "(string \<times> 'f::{zero,ord}) list \<Rightarrow> string \<Rightarrow> (string \<times> 'f) list \<Rightarrow> (string \<times> 'f) list" where
  "observePeak values name peaks =
     (case map_of values name of None \<Rightarrow> peaks | Some v \<Rightarrow> if v > lookup 0 peaks name then put name v peaks else peaks)"

definition sampler_observe :: "(string \<times> 'f::{zero,ord}) list option \<Rightarrow> 'f metricPeakSampler \<Rightarrow> 'f metricPeakSampler" where
  "sampler_observe values sampler =
     (case values of
        None \<Rightarrow> sampler
      | Some vs \<Rightarrow> sampler\<lparr>sp_samples := sp_samples sampler + 1, sp_peaks := fold (observePeak vs) peakMetricNames (sp_peaks sampler)\<rparr>)"

definition recordError :: "'f metricPeakSampler \<Rightarrow> 'f metricPeakSampler" where
  "recordError sampler = sampler\<lparr>sp_errors := sp_errors sampler + 1\<rparr>"

text \<open>
  The loop of the sampler: what each tick fetches. A fetch that fails because the sampler was stopped
  is the last one and is not counted as an error.
\<close>

definition sampler_tick :: "('f::{zero,ord}, 'b) metricsSnapshot option \<Rightarrow> 'f metricPeakSampler \<Rightarrow> 'f metricPeakSampler" where
  "sampler_tick fetched sampler =
     (case fetched of None \<Rightarrow> recordError sampler | Some s \<Rightarrow> sampler_observe (Some (ms_Values s)) sampler)"

definition startMetricPeakSampler :: "(string \<times> 'f::{zero,ord}) list option \<Rightarrow> 'f metricPeakSampler" where
  "startMetricPeakSampler initial = sampler_observe initial \<lparr>sp_peaks = [], sp_samples = 0, sp_errors = 0\<rparr>"

definition sampler_Stop :: "(string \<times> 'f::{zero,ord}) list option \<Rightarrow> 'f metricPeakSampler \<Rightarrow> 'f metricPeakSampler" where
  "sampler_Stop final sampler = sampler_observe final sampler"

section \<open>Differences\<close>

definition deltaMetricNames :: "string list" where
  "deltaMetricNames =
     [''im_backend_http_requests_total'', ''im_backend_outbox_publish_total'', ''im_backend_outbox_publish_duration_seconds_count'',
      ''im_backend_outbox_publish_duration_seconds_sum'', ''im_backend_outbox_batch_presence_batches_total'',
      ''im_backend_outbox_batch_presence_users_total'', ''im_backend_realtime_routing_total'', ''im_backend_websocket_deliveries_total'',
      ''im_backend_websocket_disconnects_total'', ''im_backend_websocket_io_total'', ''im_backend_websocket_write_duration_seconds_count'',
      ''im_backend_websocket_write_duration_seconds_sum'', ''im_backend_websocket_send_queue_depth_count'',
      ''im_backend_websocket_send_queue_depth_sum'', ''im_backend_sync_events_total'', ''im_backend_database_pool_acquires_total'',
      ''im_backend_database_pool_empty_acquires_total'', ''im_backend_database_pool_canceled_acquires_total'',
      ''im_backend_database_pool_acquire_duration_seconds_total'', ''im_backend_database_pool_empty_acquire_wait_seconds_total'',
      ''im_backend_outbox_database_pool_acquires_total'', ''im_backend_outbox_database_pool_empty_acquires_total'',
      ''im_backend_outbox_database_pool_canceled_acquires_total'', ''im_backend_outbox_database_pool_acquire_duration_seconds_total'',
      ''im_backend_outbox_database_pool_empty_acquire_wait_seconds_total'']"

definition endMetricNames :: "string list" where
  "endMetricNames =
     [''im_backend_websocket_connections'', ''im_backend_outbox_pending_events'', ''im_backend_outbox_oldest_pending_age_seconds'',
      ''im_backend_outbox_dead_events'', ''im_backend_database_metrics_collection_success'', ''im_backend_database_pool_acquired_connections'',
      ''im_backend_database_pool_idle_connections'', ''im_backend_database_pool_constructing_connections'',
      ''im_backend_database_pool_total_connections'', ''im_backend_database_pool_max_connections'',
      ''im_backend_outbox_database_pool_acquired_connections'', ''im_backend_outbox_database_pool_idle_connections'',
      ''im_backend_outbox_database_pool_constructing_connections'', ''im_backend_outbox_database_pool_total_connections'',
      ''im_backend_outbox_database_pool_max_connections'', ''im_backend_outbox_worker_concurrency'', ''im_backend_outbox_worker_batch_size'',
      ''im_backend_websocket_send_queue_high_watermark'', ''go_goroutines'', ''process_resident_memory_bytes'']"

definition metricDelta :: "(string \<times> 'f::ab_group_add) list \<Rightarrow> (string \<times> 'f) list \<Rightarrow> (string \<times> 'f) list" where
  "metricDelta before after =
     fold (\<lambda>name result. case map_of after name of None \<Rightarrow> result | Some v \<Rightarrow> put name (v - lookup 0 before name) result) deltaMetricNames []"

definition selectedMetricEnd :: "(string \<times> 'f) list \<Rightarrow> (string \<times> 'f) list" where
  "selectedMetricEnd values =
     fold (\<lambda>name result. case map_of values name of None \<Rightarrow> result | Some v \<Rightarrow> put name v result) endMetricNames []"

text \<open>
  The milliseconds of a bucket's upper bound, which may be infinite; 0 without an observation and -1
  where no bucket has enough. \<open>rank\<close> is the rounded product of a count and the quantile.
\<close>

datatype 'b bucket_bound = NoObservation | BeyondBuckets | UpTo 'b

definition histogramQuantileBucketMS ::
  "(nat \<Rightarrow> nat) \<Rightarrow> ('f::linordered_field, 'b::linorder) histogramSnapshot \<Rightarrow> ('f, 'b) histogramSnapshot \<Rightarrow> nat \<Rightarrow> 'b bucket_bound" where
  "histogramQuantileBucketMS rank before after n =
     (if n = 0 then NoObservation
      else case find (\<lambda>bound. let current = lookup 0 (hs_Buckets after) bound; previous = lookup 0 (hs_Buckets before) bound
                              in previous \<le> current \<and> rank n \<le> current - previous) (sort (map fst (hs_Buckets after))) of
        None \<Rightarrow> BeyondBuckets
      | Some bound \<Rightarrow> UpTo bound)"

record ('f, 'b) histogramDeltaReport =
  hd_Count :: nat
  hd_AverageMS :: 'f
  hd_P50BucketMS :: "'b bucket_bound"
  hd_P95BucketMS :: "'b bucket_bound"
  hd_P99BucketMS :: "'b bucket_bound"

text \<open>The report of one histogram, or none when it was reset or saw nothing new.\<close>

definition histogramDelta ::
  "(nat \<Rightarrow> nat) \<times> (nat \<Rightarrow> nat) \<times> (nat \<Rightarrow> nat) \<Rightarrow> ('f::linordered_field, 'b::linorder) histogramSnapshot \<Rightarrow> ('f, 'b) histogramSnapshot \<Rightarrow> ('f, 'b) histogramDeltaReport option" where
  "histogramDelta ranks previous current =
     (if hs_Count current < hs_Count previous then None
      else let n = hs_Count current - hs_Count previous; s = hs_Sum current - hs_Sum previous
           in if n = 0 then None
              else if s < 0 then None
              else Some \<lparr>hd_Count = n, hd_AverageMS = s * 1000 / of_nat n,
                         hd_P50BucketMS = histogramQuantileBucketMS (fst ranks) previous current n,
                         hd_P95BucketMS = histogramQuantileBucketMS (fst (snd ranks)) previous current n,
                         hd_P99BucketMS = histogramQuantileBucketMS (snd (snd ranks)) previous current n\<rparr>)"

definition outboxStageDurationDelta ::
  "(nat \<Rightarrow> nat) \<times> (nat \<Rightarrow> nat) \<times> (nat \<Rightarrow> nat) \<Rightarrow> (string \<times> ('f::linordered_field, 'b::linorder) histogramSnapshot) list \<Rightarrow> (string \<times> ('f, 'b) histogramSnapshot) list \<Rightarrow>
   (string \<times> ('f, 'b) histogramDeltaReport) list" where
  "outboxStageDurationDelta ranks before after =
     fold (\<lambda>(stage, current) result. case histogramDelta ranks (lookup no_histogram before stage) current of
       None \<Rightarrow> result | Some r \<Rightarrow> put stage r result) after []"

definition databaseAcquireDurationDelta ::
  "(nat \<Rightarrow> nat) \<times> (nat \<Rightarrow> nat) \<times> (nat \<Rightarrow> nat) \<Rightarrow> (string \<times> (string \<times> ('f::linordered_field, 'b::linorder) histogramSnapshot) list) list \<Rightarrow>
   (string \<times> (string \<times> ('f, 'b) histogramSnapshot) list) list \<Rightarrow> (string \<times> (string \<times> ('f, 'b) histogramDeltaReport) list) list" where
  "databaseAcquireDurationDelta ranks before after =
     fold (\<lambda>(workload, currentByResult).
       fold (\<lambda>(acquireResult, current) result.
         case histogramDelta ranks (lookup no_histogram (lookup [] before workload) acquireResult) current of
           None \<Rightarrow> result
         | Some r \<Rightarrow> put workload (put acquireResult r (lookup [] result workload)) result) currentByResult) after []"

section \<open>Quantiles\<close>

lemma find_sorted:
  assumes "find P (sort xs) = Some x"
  shows "x \<in> set xs" "P x" and "y \<in> set xs \<Longrightarrow> y < x \<Longrightarrow> \<not> P y"
proof -
  from assms obtain i where i: "i < length (sort xs)" "P (sort xs ! i)" "x = sort xs ! i" "\<And>j. j < i \<Longrightarrow> \<not> P (sort xs ! j)"
    by (auto simp: find_Some_iff)
  show "P x" using i by simp
  have "x \<in> set (sort xs)" using i(1,3) nth_mem by blast
  then show "x \<in> set xs" by simp
  show "\<not> P y" if y: "y \<in> set xs" "y < x"
  proof -
    have "y \<in> set (sort xs)" using y by simp
    then obtain j where j: "j < length (sort xs)" "y = sort xs ! j" unfolding in_set_conv_nth by blast
    have "\<not> i \<le> j" using sorted_nth_mono [of "sort xs" i j] j i(3) y(2) by auto
    then show ?thesis using i(4) [of j] j(2) by simp
  qed
qed

text \<open>
  The quantile that the load test reports for a histogram is about the observations of the load
  alone. Where the two snapshots hold the cumulative counts of the observations before the load and of
  all of them, the reported bound is the smallest bound of a bucket below or at which at least the
  asked number of the new observations lie; -1 is reported exactly where no bucket has as many.
\<close>

theorem quantile_bucket_is_exact:
  fixes bounds :: "'b::linorder list"
  assumes "set (map fst (hs_Buckets after)) = set bounds"
    and "\<And>b. b \<in> set bounds \<Longrightarrow> lookup 0 (hs_Buckets before) b = length (filter (\<lambda>x. x \<le> b) old)"
    and "\<And>b. b \<in> set bounds \<Longrightarrow> lookup 0 (hs_Buckets after) b = length (filter (\<lambda>x. x \<le> b) (old @ new))"
    and "new \<noteq> []"
  shows "case histogramQuantileBucketMS rank before after (length new) of
      NoObservation \<Rightarrow> False
    | BeyondBuckets \<Rightarrow> \<forall>b \<in> set bounds. length (filter (\<lambda>x. x \<le> b) new) < rank (length new)
    | UpTo bound \<Rightarrow> bound \<in> set bounds \<and> rank (length new) \<le> length (filter (\<lambda>x. x \<le> bound) new)
        \<and> (\<forall>b \<in> set bounds. b < bound \<longrightarrow> length (filter (\<lambda>x. x \<le> b) new) < rank (length new))"
proof -
  let ?P = "\<lambda>bound. let current = lookup 0 (hs_Buckets after) bound; previous = lookup 0 (hs_Buckets before) bound
      in previous \<le> current \<and> rank (length new) \<le> current - previous"
  have P: "?P b \<longleftrightarrow> rank (length new) \<le> length (filter (\<lambda>x. x \<le> b) new)" if "b \<in> set bounds" for b
    using assms(2,3) [OF that] by simp
  show ?thesis
  proof (cases "find ?P (sort (map fst (hs_Buckets after)))")
    case None
    then have "\<not> ?P b" if "b \<in> set bounds" for b using that assms(1) unfolding find_None_iff set_sort by blast
    then show ?thesis using None assms(4) P by (auto simp: histogramQuantileBucketMS_def not_le)
  next
    case (Some bound)
    note found = find_sorted [OF Some]
    have "bound \<in> set bounds" using found(1) assms(1) by blast
    moreover have "length (filter (\<lambda>x. x \<le> b) new) < rank (length new)" if "b \<in> set bounds" "b < bound" for b
      using found(3) [of b] that assms(1) P [of b] by (simp add: not_le)
    ultimately show ?thesis using Some assms(4) P found(2) by (simp add: histogramQuantileBucketMS_def)
  qed
qed

theorem quantile_bucket_witness:
  "histogramQuantileBucketMS (\<lambda>n. n) \<lparr>hs_Count = 1, hs_Sum = 3 :: rat, hs_Buckets = [(5, 1), (10, 1 :: nat)]\<rparr>
     \<lparr>hs_Count = 3, hs_Sum = 14, hs_Buckets = [(5, 2), (10 :: nat, 3)]\<rparr> 2 = UpTo 10"
proof -
  have "sort [5, 10 :: nat] = [5, 10]" by simp
  then show ?thesis
    using quantile_bucket_is_exact [of "\<lparr>hs_Count = 3, hs_Sum = 14 :: rat, hs_Buckets = [(5, 2), (10 :: nat, 3)]\<rparr>" "[5, 10]"
        "\<lparr>hs_Count = 1, hs_Sum = 3, hs_Buckets = [(5, 1), (10, 1)]\<rparr>" "[3]" "[4, 7]" "\<lambda>n. n"]
    by (auto simp: lookup_def histogramQuantileBucketMS_def)
qed

section \<open>Peaks\<close>

definition sampler_run ::
  "(string \<times> 'f::{zero,ord}) list option \<Rightarrow> ('f, 'b) metricsSnapshot option list \<Rightarrow> (string \<times> 'f) list option \<Rightarrow> 'f metricPeakSampler" where
  "sampler_run initial ticks final = sampler_Stop final (fold sampler_tick ticks (startMetricPeakSampler initial))"

definition sampled ::
  "(string \<times> 'f) list option \<Rightarrow> ('f, 'b) metricsSnapshot option list \<Rightarrow> (string \<times> 'f) list option \<Rightarrow> (string \<times> 'f) list list" where
  "sampled initial ticks final =
     (case initial of None \<Rightarrow> [] | Some vs \<Rightarrow> [vs]) @ map ms_Values (map the (filter (\<lambda>t. t \<noteq> None) ticks))
     @ (case final of None \<Rightarrow> [] | Some vs \<Rightarrow> [vs])"

text \<open>The peak after a list of samples.\<close>

definition raised :: "string \<Rightarrow> (string \<times> 'f::linorder) list \<Rightarrow> 'f \<Rightarrow> 'f" where
  "raised name vs peak = (case map_of vs name of None \<Rightarrow> peak | Some v \<Rightarrow> max peak v)"

definition peak_of :: "string \<Rightarrow> (string \<times> 'f::{zero,linorder}) list list \<Rightarrow> 'f" where
  "peak_of name samples = fold (raised name) samples 0"

lemma lookup_put [simp]: "lookup zero (put k v m) k' = (if k' = k then v else lookup zero m k')"
proof -
  have "map_of (filter (\<lambda>e. fst e \<noteq> k) m) k' = map_of m k'" if "k' \<noteq> k"
    using that by (induction m) auto
  then show ?thesis by (auto simp: put_def lookup_def)
qed

lemma lookup_observePeak:
  fixes peaks :: "(string \<times> 'f::{zero,linorder}) list"
  shows "lookup 0 (observePeak vs name peaks) other = (if other = name then raised name vs (lookup 0 peaks name) else lookup 0 peaks other)"
  by (auto simp: observePeak_def raised_def max_def split: option.split)

lemma lookup_observePeaks:
  fixes peaks :: "(string \<times> 'f::{zero,linorder}) list"
  assumes "distinct names"
  shows "lookup 0 (fold (observePeak vs) names peaks) name = (if name \<in> set names then raised name vs (lookup 0 peaks name) else lookup 0 peaks name)"
  using assms by (induction names arbitrary: peaks) (auto simp: lookup_observePeak)

lemma lookup_observed:
  fixes sampler :: "'f::{zero,linorder} metricPeakSampler"
  assumes "name \<in> set peakMetricNames"
  shows "lookup 0 (sp_peaks (sampler_observe (Some vs) sampler)) name = raised name vs (lookup 0 (sp_peaks sampler) name)"
proof -
  have "distinct peakMetricNames" by code_simp
  then show ?thesis using assms by (simp add: sampler_observe_def lookup_observePeaks)
qed

lemma sampler_folds:
  fixes sampler :: "'f::{zero,linorder} metricPeakSampler" and ticks :: "('f, 'b) metricsSnapshot option list"
  assumes "name \<in> set peakMetricNames"
  shows "lookup 0 (sp_peaks (fold sampler_tick ticks sampler)) name =
      fold (raised name) (map ms_Values (map the (filter (\<lambda>t. t \<noteq> None) ticks))) (lookup 0 (sp_peaks sampler) name)"
    and "sp_samples (fold sampler_tick ticks sampler) = sp_samples sampler + length (filter (\<lambda>t. t \<noteq> None) ticks)"
    and "sp_errors (fold sampler_tick ticks sampler) = sp_errors sampler + length (filter (\<lambda>t. t = None) ticks)"
proof (induction ticks arbitrary: sampler)
  case (Cons t ticks)
  have one: "lookup 0 (sp_peaks (sampler_tick t s)) name = (case t of None \<Rightarrow> lookup 0 (sp_peaks s) name | Some x \<Rightarrow> raised name (ms_Values x) (lookup 0 (sp_peaks s) name))"
      "sp_samples (sampler_tick t s) = sp_samples s + (if t = None then 0 else 1)" "sp_errors (sampler_tick t s) = sp_errors s + (if t = None then 1 else 0)"
    for s :: "'f metricPeakSampler"
    by (cases t; simp add: sampler_tick_def recordError_def lookup_observed [OF assms]; simp add: sampler_observe_def)+
  {
    case 1
    show ?case using Cons.IH(1) [of "sampler_tick t sampler"] one(1) [of sampler] by (cases t) simp_all
  next
    case 2
    show ?case using Cons.IH(2) [of "sampler_tick t sampler"] by (simp add: one)
  next
    case 3
    show ?case using Cons.IH(3) [of "sampler_tick t sampler"] by (simp add: one)
  }
qed simp_all

text \<open>The sampler reports the largest value it saw of each backlog metric and counts its samples and failures.\<close>

theorem sampler_reports_the_peaks:
  fixes initial :: "(string \<times> 'f::{zero,linorder}) list option" and ticks :: "('f, 'b) metricsSnapshot option list"
  assumes "name \<in> set peakMetricNames"
  shows "lookup 0 (sp_peaks (sampler_run initial ticks final)) name = peak_of name (sampled initial ticks final)
    \<and> sp_samples (sampler_run initial ticks final) = length (sampled initial ticks final)
    \<and> sp_errors (sampler_run initial ticks final) = length (filter (\<lambda>t. t = None) ticks)"
proof -
  have peaks: "lookup 0 (sp_peaks (sampler_observe sample s)) name = fold (raised name) (case sample of None \<Rightarrow> [] | Some vs \<Rightarrow> [vs]) (lookup 0 (sp_peaks s) name)"
    for s :: "'f metricPeakSampler" and sample
  proof (cases sample)
    case None
    then show ?thesis by (simp add: sampler_observe_def)
  qed (simp add: lookup_observed [OF assms])
  have counts: "sp_samples (sampler_observe sample s) = sp_samples s + length (case sample of None \<Rightarrow> [] | Some vs \<Rightarrow> [vs])"
      "sp_errors (sampler_observe sample s) = sp_errors s" for s :: "'f metricPeakSampler" and sample
    by (simp_all add: sampler_observe_def split: option.split)
  show ?thesis
    using sampler_folds [OF assms, of ticks "startMetricPeakSampler initial"]
    by (simp add: sampler_run_def sampler_Stop_def startMetricPeakSampler_def sampled_def peak_of_def peaks counts) (simp add: lookup_def)
qed

section \<open>Lines with a route\<close>

text \<open>
  The pattern of a route has a space, and the exposition writes it into the line of its counter, so
  that the second field of the line is not the number: the requests that reached a handler are in no
  snapshot of the load test.
\<close>

lemma fields_of_first: "\<forall>c \<in> set w. narrow c \<Longrightarrow> acc @ w \<noteq> [] \<Longrightarrow> fields_from (w @ CHR '' '' # rest) acc = (acc @ w) # fields_from rest []"
proof (induction w arbitrary: acc)
  case Nil
  have "space_width (CHR '' '' # rest) = 1" by (simp add: space_width_def ascii_space_def)
  then show ?case using Nil by simp
qed auto

lemma Fields_of_two:
  assumes "\<forall>c \<in> set a. narrow c" "a \<noteq> []" "\<forall>c \<in> set b. narrow c" "b \<noteq> []"
  shows "Fields (a @ CHR '' '' # b @ CHR '' '' # rest) = a # b # fields_from rest []"
  using fields_of_first [OF assms(1), of "[]" "b @ CHR '' '' # rest"] fields_of_first [OF assms(3), of "[]" rest] assms(2,4)
  by (simp add: Fields_def)

definition request_line :: "string \<Rightarrow> string \<Rightarrow> string \<Rightarrow> string \<Rightarrow> string" where
  "request_line requested route status number =
     ''im_backend_http_requests_total{method='' @ [CHR 0x22] @ requested @ [CHR 0x22] @ '',route='' @ [CHR 0x22] @ route @ [CHR 0x22]
     @ '',status='' @ [CHR 0x22] @ status @ [CHR 0x22] @ ''} '' @ number"

theorem routed_requests_are_not_read:
  assumes "(pattern, protected, ep) \<in> set routes" and "\<And>s. CHR 0x22 \<in> set s \<Longrightarrow> ParseFloat s = None"
    and "list_all narrow requested" "list_all narrow status" "list_all narrow number" "number \<noteq> []"
  shows "metric_line ParseFloat (request_line requested pattern status number) = None"
proof -
  let ?rest = "dropWhile (\<lambda>c. c \<noteq> CHR '' '') pattern"
  have "list_all (\<lambda>(pattern, protected, ep). list_all narrow (takeWhile (\<lambda>c. c \<noteq> CHR '' '') pattern)
      \<and> dropWhile (\<lambda>c. c \<noteq> CHR '' '') pattern \<noteq> [] \<and> list_all narrow (tl (dropWhile (\<lambda>c. c \<noteq> CHR '' '') pattern))) routes"
    by code_simp
  then have parts: "list_all narrow (takeWhile (\<lambda>c. c \<noteq> CHR '' '') pattern)" "?rest \<noteq> []" "list_all narrow (tl ?rest)"
    using assms(1) by (auto simp: list_all_iff)
  have "?rest = CHR '' '' # tl ?rest" using parts(2) hd_dropWhile [of "\<lambda>c. c \<noteq> CHR '' ''" pattern] by (cases ?rest) auto
  then obtain verb path where pattern: "pattern = verb @ CHR '' '' # path" "list_all narrow verb" "list_all narrow path"
    using parts(1,3) takeWhile_dropWhile_id [of "\<lambda>c. c \<noteq> CHR '' ''" pattern] by metis
  let ?first = "''im_backend_http_requests_total{method='' @ [CHR 0x22] @ requested @ [CHR 0x22] @ '',route='' @ [CHR 0x22] @ verb"
  let ?second = "path @ [CHR 0x22] @ '',status='' @ [CHR 0x22] @ status @ [CHR 0x22] @ ''}''"
  have line: "request_line requested pattern status number = ?first @ CHR '' '' # ?second @ CHR '' '' # number"
    by (simp add: request_line_def pattern)
  have fixed: "list_all narrow ''im_backend_http_requests_total{method=''" "list_all narrow [CHR 0x22]" "list_all narrow '',route=''"
      "list_all narrow '',status=''" "list_all narrow ''}''" by code_simp+
  have "\<forall>c \<in> set ?first. narrow c" "\<forall>c \<in> set ?second. narrow c" using fixed pattern(2,3) assms(3,4) by (auto simp: list_all_iff)
  then have "Fields (request_line requested pattern status number) = ?first # ?second # fields_from number []"
    unfolding line by (intro Fields_of_two) simp_all
  moreover have "TrimSpace (request_line requested pattern status number) = request_line requested pattern status number"
    using fixed assms(5,6) unfolding line by (intro TrimSpace_narrow) (auto simp: list_all_iff)
  moreover have "ParseFloat ?second = None" by (rule assms(2)) simp
  moreover have "\<not> HasPrefix (request_line requested pattern status number) ''#''" by (simp add: request_line_def HasPrefix_def)
  ultimately show ?thesis by (simp add: metric_line_def Let_def)
qed

end
