(* ===== verification/LoadSetup.thy ===== *)
theory LoadSetup
  imports LoadTest Server
begin

text \<open>
  The preparation of a run in \<^verbatim>\<open>cmd/im-loadtest/main.go\<close>: the users it writes into the database, the
  logins of their devices and the connections it opens, in the order of the loops, with the clean-up
  after a failure. The answers of the server are arguments.
\<close>

section \<open>Names and addresses\<close>

text \<open>The constants of the load test, which have to be those of the server.\<close>

definition load_hashPassword :: "argon2id \<Rightarrow> byte_string option \<Rightarrow> string \<Rightarrow> string option" where
  "load_hashPassword argon randomness password =
     (case randomness of
        None \<Rightarrow> None
      | Some salt \<Rightarrow>
          Some (''$argon2id$v='' @ FormatInt argonVersion @ ''$m='' @ FormatInt (19 * 1024) @ '',t='' @ FormatInt 2
                @ '',p='' @ FormatInt 1 @ ''$'' @ EncodeToString std_alphabet salt @ ''$''
                @ EncodeToString std_alphabet (argon password salt 2 (19 * 1024) 1 32)))"

text \<open>\<open>stamp\<close> is the time formatted as its twelve digits; the hexadecimal digits are those of three random bytes.\<close>

definition newRunID :: "string \<Rightarrow> string option \<Rightarrow> string option" where
  "newRunID stamp random = (case random of None \<Rightarrow> None | Some digits \<Rightarrow> Some (map ascii_lower (stamp @ digits)))"

text \<open>A parsed URL: scheme, path, query and the rest.\<close>

record 'a parsed_url =
  url_Scheme :: string
  url_Path :: string
  url_RawQuery :: string
  url_rest :: 'a

definition trim_slashes :: "string \<Rightarrow> string" where
  "trim_slashes s = rev (dropWhile (\<lambda>c. c = CHR ''/'') (rev s))"

definition toWebSocketURL :: "(string \<Rightarrow> 'a parsed_url option) \<Rightarrow> string \<Rightarrow> string + 'a parsed_url" where
  "toWebSocketURL parse base =
     (case parse base of
        None \<Rightarrow> Inl ''parse''
      | Some u \<Rightarrow>
        if url_Scheme u = ''http'' then Inr (u\<lparr>url_Scheme := ''ws'', url_Path := trim_slashes (url_Path u) @ ''/ws'', url_RawQuery := []\<rparr>)
        else if url_Scheme u = ''https'' then Inr (u\<lparr>url_Scheme := ''wss'', url_Path := trim_slashes (url_Path u) @ ''/ws'', url_RawQuery := []\<rparr>)
        else Inl ''unsupported API scheme'')"

text \<open>The number of connections a client keeps and opens at most.\<close>

definition newLoadHTTPClient :: "int \<Rightarrow> int" where
  "newLoadHTTPClient maxConnections = (if maxConnections < 1 then 1 else maxConnections)"

definition requireHealthy :: "http_reply \<Rightarrow> string option" where
  "requireHealthy reply = (case reply of
     NoReply err \<Rightarrow> Some err
   | Reply status body \<Rightarrow> if status \<noteq> 200 then Some ''GET /health returned another status'' else None)"

section \<open>Users\<close>

record testUser =
  tu_ID :: int
  tu_Username :: string
  tu_Password :: string
  tu_Sessions :: "authResponse list"

definition test_username :: "string \<Rightarrow> nat \<Rightarrow> string" where
  "test_username runID index = ''lt_'' @ runID @ ''_'' @ pad 2 (int index + 1)"

definition test_password :: "string \<Rightarrow> nat \<Rightarrow> string" where
  "test_password runID index = ''Load_'' @ runID @ ''_'' @ pad 2 (int index + 1) @ ''!''"

text \<open>The loop at an index, with the users left to add.\<close>

fun seedFrom ::
  "argon2id \<Rightarrow> (nat \<Rightarrow> byte_string option) \<Rightarrow> (nat \<Rightarrow> auth_env) \<Rightarrow> string \<Rightarrow> nat \<Rightarrow> nat \<Rightarrow> testUser list \<Rightarrow> db \<Rightarrow> (string + testUser list) \<times> db" where
  "seedFrom argon salts envs runID index 0 seeded d = (Inr seeded, d)"
| "seedFrom argon salts envs runID index (Suc left) seeded d =
     (case load_hashPassword argon (salts index) (test_password runID index) of
        None \<Rightarrow> (Inl ''hash password'', d)
      | Some hash \<Rightarrow>
        (case insertUser (envs index) (test_username runID index) (''Load Test '' @ FormatInt (int index + 1)) hash d of
           (Inl err, d') \<Rightarrow> (Inl (''insert '' @ test_username runID index), d')
         | (Inr u, d') \<Rightarrow>
             seedFrom argon salts envs runID (Suc index) left
               (seeded @ [\<lparr>tu_ID = u_ID u, tu_Username = test_username runID index, tu_Password = test_password runID index, tu_Sessions = []\<rparr>]) d'))"

definition seedUsers ::
  "argon2id \<Rightarrow> (nat \<Rightarrow> byte_string option) \<Rightarrow> (nat \<Rightarrow> auth_env) \<Rightarrow> string \<Rightarrow> nat \<Rightarrow> db \<Rightarrow> (string + testUser list) \<times> db" where
  "seedUsers argon salts envs runID n d = seedFrom argon salts envs runID 0 n [] d"

section \<open>Logins\<close>

text \<open>The answer to the login of a device: status, value of Retry-After, error and response.\<close>

type_synonym login_answer = "int \<times> string \<times> string option \<times> authResponse"

definition deviceID :: "string \<Rightarrow> nat \<Rightarrow> nat \<Rightarrow> string" where
  "deviceID runID user device = ''load-'' @ runID @ ''-'' @ device_label (int user) (int device)"

fun loginFrom :: "(nat \<Rightarrow> login_answer) \<Rightarrow> nat \<Rightarrow> nat \<Rightarrow> testUser \<Rightarrow> string + testUser" where
  "loginFrom answer device 0 u = Inr u"
| "loginFrom answer device (Suc left) u =
     (case answer device of (status, retryAfter, err, authenticated) \<Rightarrow>
        if status = 429 then Inl (''429; Retry-After='' @ retryAfter)
        else if err \<noteq> None then Inl (the err)
        else if status \<noteq> 200 then Inl (''HTTP '' @ FormatInt status)
        else loginFrom answer (Suc device) left (u\<lparr>tu_Sessions := tu_Sessions u @ [authenticated]\<rparr>))"

fun loginUsers :: "(nat \<Rightarrow> nat \<Rightarrow> login_answer) \<Rightarrow> nat \<Rightarrow> nat \<Rightarrow> testUser list \<Rightarrow> string + testUser list" where
  "loginUsers answer devices user [] = Inr []"
| "loginUsers answer devices user (u # us) =
     (case loginFrom (answer user) 0 devices u of
        Inl err \<Rightarrow> Inl err
      | Inr u' \<Rightarrow> (case loginUsers answer devices (Suc user) us of Inl err \<Rightarrow> Inl err | Inr us' \<Rightarrow> Inr (u' # us')))"

definition loginDevices :: "(nat \<Rightarrow> nat \<Rightarrow> login_answer) \<Rightarrow> nat \<Rightarrow> testUser list \<Rightarrow> string + testUser list" where
  "loginDevices answer devices us = loginUsers answer devices 0 us"

section \<open>Connections\<close>

text \<open>
  \<open>dial\<close> opens the connection of a device with its bearer token, or fails. The second result are the
  connections that were closed again.
\<close>

fun connectFrom :: "(string \<Rightarrow> string \<Rightarrow> bool) \<Rightarrow> (string \<times> string) list \<Rightarrow> string list \<Rightarrow> (string + string list) \<times> string list" where
  "connectFrom dial [] connections = (Inr connections, [])"
| "connectFrom dial ((label, token) # rest) connections =
     (if dial label (''Bearer '' @ token) then connectFrom dial rest (connections @ [label])
      else (Inl (''connect '' @ label), connections))"

definition device_tokens :: "testUser list \<Rightarrow> (string \<times> string) list" where
  "device_tokens us =
     concat (map (\<lambda>(user, u). map (\<lambda>(device, s). (device_label (int user) (int device), ar_AccessToken s)) (enumerate 0 (tu_Sessions u)))
       (enumerate 0 us))"

definition connectAll ::
  "(string \<Rightarrow> 'a parsed_url option) \<Rightarrow> ('a parsed_url \<Rightarrow> string \<Rightarrow> string \<Rightarrow> bool) \<Rightarrow> string \<Rightarrow> testUser list \<Rightarrow> (string + string list) \<times> string list" where
  "connectAll parse dial baseURL us =
     (case toWebSocketURL parse baseURL of
        Inl err \<Rightarrow> (Inl err, [])
      | Inr url \<Rightarrow> connectFrom (dial url) (device_tokens us) [])"

section \<open>What is prepared\<close>

lemma load_hash_is_the_servers: "load_hashPassword = hashPassword"
  by (simp add: load_hashPassword_def hashPassword_def argonMemory_def argonIterations_def argonParallelism_def argonKeyLength_def fun_eq_iff split: option.split)

text \<open>A user of the run: the name and password of an index, with a row the server accepts the password for.\<close>

definition can_log_in :: "argon2id \<Rightarrow> db \<Rightarrow> testUser \<Rightarrow> bool" where
  "can_log_in argon d u \<longleftrightarrow> (\<exists>r \<in> set (users d). u_ID (ur_user r) = tu_ID u \<and> u_Username (ur_user r) = tu_Username u
     \<and> verifyPassword argon (tu_Password u) (ur_password_hash r) = Inr True)"

lemma can_log_in_later: "can_log_in argon d u \<Longrightarrow> set (users d) \<subseteq> set (users e) \<Longrightarrow> can_log_in argon e u"
  by (auto simp: can_log_in_def)

lemma insertUser_InrD:
  assumes "insertUser env name disp hash d = (Inr u, e)"
  shows "u_Username u = name" "users e = users d @ [\<lparr>ur_user = u, ur_password_hash = hash\<rparr>]" "u_ID u = users_seq d" "users_seq e = users_seq d + 1"
    "chat_same d e" "auth_same d e"
  using assms account_statements_same(1) [of d env name disp hash] insertUser_same [OF assms]
  by (auto simp: insertUser_def Let_def split: if_splits)

lemma seedFrom_seeds:
  assumes "argon_length argon" and "seedFrom argon salts envs runID index left seeded d = (Inr us, e)"
  shows "\<exists>new. us = seeded @ new \<and> length new = left \<and> set (users d) \<subseteq> set (users e) \<and> chat_same d e
    \<and> map tu_Username new = map (test_username runID) [index..<index + left]
    \<and> map tu_ID new = map (\<lambda>i. users_seq d + int i) [0..<left]
    \<and> list_all (can_log_in argon e) new \<and> list_all (\<lambda>u. tu_Sessions u = []) new"
  using assms(2)
proof (induction left arbitrary: index seeded d)
  case (Suc left)
  obtain hash where hash: "hashPassword argon (salts index) (test_password runID index) = Some hash"
    using Suc.prems by (auto simp: load_hash_is_the_servers split: option.splits)
  then obtain salt where "hashPassword argon (Some salt) (test_password runID index) = Some hash" by (cases "salts index") (auto simp: hashPassword_def)
  then have verifies: "verifyPassword argon (test_password runID index) hash = Inr True" using verify_hashed [OF assms(1)] by simp
  obtain u d1 where ins: "insertUser (envs index) (test_username runID index) (''Load Test '' @ FormatInt (int index + 1)) hash d = (Inr u, d1)"
      and rest: "seedFrom argon salts envs runID (Suc index) left
        (seeded @ [\<lparr>tu_ID = u_ID u, tu_Username = test_username runID index, tu_Password = test_password runID index, tu_Sessions = []\<rparr>]) d1 = (Inr us, e)"
    using Suc.prems hash by (auto simp: load_hash_is_the_servers split: prod.splits sum.splits)
  let ?u = "\<lparr>tu_ID = u_ID u, tu_Username = test_username runID index, tu_Password = test_password runID index, tu_Sessions = []\<rparr>"
  note row = insertUser_InrD [OF ins]
  from Suc.IH [OF rest] obtain new where new: "us = (seeded @ [?u]) @ new" "length new = left" "set (users d1) \<subseteq> set (users e)" "chat_same d1 e"
      "map tu_Username new = map (test_username runID) [Suc index..<Suc index + left]" "map tu_ID new = map (\<lambda>i. users_seq d1 + int i) [0..<left]"
      "list_all (can_log_in argon e) new" "list_all (\<lambda>u. tu_Sessions u = []) new" by blast
  have "can_log_in argon d1 ?u" using row(1,2) verifies by (simp add: can_log_in_def)
  then have mine: "can_log_in argon e ?u" using can_log_in_later new(3) by blast
  have ids: "users_seq d # map (\<lambda>i. users_seq d1 + int i) [0..<left] = map (\<lambda>i. users_seq d + int i) [0..<Suc left]"
    using row(4) by (simp add: map_upt_Suc del: upt_Suc)
  have "map tu_ID (?u # new) = map (\<lambda>i. users_seq d + int i) [0..<Suc left]" using new(6) row(3) ids by simp
  moreover have "map tu_Username (?u # new) = map (test_username runID) [index..<index + Suc left]"
    using new(5) by (simp add: upt_rec [of index] del: upt_Suc)
  moreover have "set (users d) \<subseteq> set (users e)" using row(2) new(3) by auto
  moreover have "chat_same d e" using chat_same_trans row(5) new(4) by blast
  ultimately show ?case using new(1,2,7,8) mine by (intro exI [of _ "?u # new"]) simp
qed simp

lemma loginFrom_logs_in:
  "loginFrom answer device left u = Inr v \<Longrightarrow>
     tu_ID v = tu_ID u \<and> tu_Username v = tu_Username u \<and> tu_Password v = tu_Password u \<and> length (tu_Sessions v) = length (tu_Sessions u) + left"
  by (induction left arbitrary: device u) (auto split: prod.splits if_splits)

lemma loginUsers_log_in:
  "loginUsers answer devices user us = Inr vs \<Longrightarrow>
     list_all2 (\<lambda>u v. tu_ID v = tu_ID u \<and> tu_Username v = tu_Username u \<and> tu_Password v = tu_Password u
       \<and> length (tu_Sessions v) = length (tu_Sessions u) + devices) us vs"
  by (induction us arbitrary: user vs) (auto split: sum.splits dest: loginFrom_logs_in)

lemma connectFrom_ends:
  assumes "connectFrom dial tokens connections = (r, closed)"
  shows "case r of
      Inr opened \<Rightarrow> opened = connections @ map fst tokens \<and> closed = []
    | Inl err \<Rightarrow> \<exists>k < length tokens. closed = connections @ map fst (take k tokens)"
  using assms
proof (induction dial tokens connections rule: connectFrom.induct)
  case (2 dial label token rest connections)
  show ?case
  proof (cases "dial label (''Bearer '' @ token)")
    case True
    then have "connectFrom dial rest (connections @ [label]) = (r, closed)" using "2.prems" by simp
    from "2.IH" [OF True this] show ?thesis by (cases r) (force intro: exI [of _ "Suc _"])+
  next
    case False
    then show ?thesis using "2.prems" by (auto intro!: exI [of _ 0])
  qed
qed auto

lemma enumerate_firsts: "map fst (enumerate n xs) = [n..<n + length xs]"
  by (induction xs arbitrary: n) (simp_all add: upt_rec)

lemma device_token_labels:
  assumes "list_all (\<lambda>u. length (tu_Sessions u) = devices) us"
  shows "map fst (device_tokens us) = concat (map (\<lambda>user. map (\<lambda>device. device_label (int user) (int device)) [0..<devices]) [0..<length us])"
proof -
  have "map fst (map (\<lambda>(device, s). (device_label (int user) (int device), ar_AccessToken s)) (enumerate 0 (tu_Sessions u)))
      = map (\<lambda>device. device_label (int user) (int device)) [0..<devices]" if "u \<in> set us" for user u
  proof -
    have "map (\<lambda>device. device_label (int user) (int device)) [0..<devices]
        = map (\<lambda>device. device_label (int user) (int device)) (map fst (enumerate 0 (tu_Sessions u)))"
      using assms that unfolding enumerate_firsts by (simp add: list_all_iff)
    also have "\<dots> = map (\<lambda>x. device_label (int user) (int (fst x))) (enumerate 0 (tu_Sessions u))" unfolding map_map comp_def by (rule refl)
    finally show ?thesis by (simp add: comp_def case_prod_unfold)
  qed
  then have "map fst (device_tokens us) = concat (map (\<lambda>p. map (\<lambda>device. device_label (int (fst p)) (int device)) [0..<devices]) (enumerate 0 us))"
    by (auto simp: device_tokens_def map_concat case_prod_unfold comp_def in_set_enumerate_eq intro!: arg_cong [of _ _ concat] map_cong)
  also have "\<dots> = concat (map (\<lambda>user. map (\<lambda>device. device_label (int user) (int device)) [0..<devices]) (map fst (enumerate 0 us)))"
    unfolding map_map comp_def by (rule refl)
  finally show ?thesis unfolding enumerate_firsts by simp
qed

text \<open>
  A run that was prepared has one connection for every device of every user, in the order of the
  labels under which deliveries are expected; the users are new, with names that differ, the
  password of each is accepted by the server, and the tables of the chat are as they were.
\<close>

theorem prepared_run_covers_every_device:
  assumes "argon_length argon" and "seedUsers argon salts envs runID n d = (Inr us, e)"
    and "loginDevices answer devices us = Inr vs" and "connectAll parse dial baseURL vs = (Inr connections, closed)"
  shows "connections = concat (map (\<lambda>user. map (\<lambda>device. device_label (int user) (int device)) [0..<devices]) [0..<n])
    \<and> closed = [] \<and> map tu_Username vs = map (test_username runID) [0..<n] \<and> distinct (map tu_ID vs)
    \<and> list_all (can_log_in argon e) vs \<and> chat_same d e"
proof -
  from seedFrom_seeds [OF assms(1) assms(2) [unfolded seedUsers_def]]
  have us: "length us = n" "chat_same d e" "map tu_Username us = map (test_username runID) [0..<n]" "map tu_ID us = map (\<lambda>i. users_seq d + int i) [0..<n]"
      "list_all (can_log_in argon e) us" "list_all (\<lambda>u. tu_Sessions u = []) us" by auto
  note pairs = loginUsers_log_in [OF assms(3) [unfolded loginDevices_def]]
  have len: "length vs = n" using pairs us(1) by (simp add: list_all2_lengthD)
  have names: "map tu_Username vs = map tu_Username us" "map tu_ID vs = map tu_ID us"
    using pairs by (induction rule: list_all2_induct) simp_all
  have log: "list_all (can_log_in argon e) vs" using pairs us(5) by (induction rule: list_all2_induct) (auto simp: can_log_in_def)
  have "list_all (\<lambda>u. length (tu_Sessions u) = devices) vs" using pairs us(6) by (induction rule: list_all2_induct) auto
  note labels = device_token_labels [OF this]
  obtain url where "connectFrom (dial url) (device_tokens vs) [] = (Inr connections, closed)"
    using assms(4) by (auto simp: connectAll_def split: sum.splits)
  from connectFrom_ends [OF this] have "connections = map fst (device_tokens vs)" "closed = []" by simp_all
  moreover have "distinct (map (\<lambda>i. users_seq d + int i) [0..<n])" by (simp add: distinct_map inj_on_def)
  ultimately show ?thesis using us names log labels len by simp
qed

end
