(* ===== verification/Startup.thy ===== *)
theory Startup
  imports MigrateRuns Router AuthCrypto Observability
begin

text \<open>
  The two programs of the deployment as their operators see them: \<^verbatim>\<open>cmd/im-migrate\<close> with its command
  line, its exit codes and its output, and the start of the server in \<^verbatim>\<open>main.go\<close>, which reads its
  environment, refuses what it cannot run with and waits for a current schema, and its end, which
  stops the parts in their order. What the operating system, the drivers and the other machines
  answer is an argument.
\<close>

section \<open>Parsing\<close>

definition ParseBool :: "string \<Rightarrow> bool option" where
  "ParseBool s =
     (if s \<in> {''1'', ''t'', ''T'', ''true'', ''TRUE'', ''True''} then Some True
      else if s \<in> {''0'', ''f'', ''F'', ''false'', ''FALSE'', ''False''} then Some False
      else None)"

text \<open>\<open>ParseInt (s, 0, 64)\<close>, as the flags use it: the prefix names the base, and underscores may stand between digits.\<close>

fun underscores_follow :: "bool \<Rightarrow> string \<Rightarrow> bool" where
  "underscores_follow digit [] = True"
| "underscores_follow digit (c # s) =
     (if c = CHR ''_'' then digit \<and> s \<noteq> [] \<and> hd s \<noteq> CHR ''_'' \<and> underscores_follow False s else underscores_follow True s)"

definition based :: "string \<Rightarrow> nat \<times> bool \<times> string" where
  "based s =
     (case s of
        CHR ''0'' # c # d # t \<Rightarrow>
          if c = CHR ''b'' \<or> c = CHR ''B'' then (2, True, d # t)
          else if c = CHR ''o'' \<or> c = CHR ''O'' then (8, True, d # t)
          else if c = CHR ''x'' \<or> c = CHR ''X'' then (16, True, d # t)
          else (8, True, c # d # t)
      | CHR ''0'' # t \<Rightarrow> (8, True, t)
      | _ \<Rightarrow> (10, False, s))"

fun based_value :: "nat \<Rightarrow> nat \<Rightarrow> string \<Rightarrow> nat option" where
  "based_value base n [] = Some n"
| "based_value base n (c # s) =
     (if c = CHR ''_'' then based_value base n s
      else case unhex c of
        None \<Rightarrow> None
      | Some digit \<Rightarrow> if base \<le> digit then None else based_value base (n * base + digit) s)"

definition ParseInt0 :: "string \<Rightarrow> int option" where
  "ParseInt0 s =
     (let (neg, t) = (case s of [] \<Rightarrow> (False, [])
                      | c # cs \<Rightarrow> if c = CHR ''+'' then (False, cs) else if c = CHR ''-'' then (True, cs) else (False, s));
          (base, prefixed, digits) = based t
      in if t = [] \<or> \<not> underscores_follow prefixed digits then None
         else case based_value base 0 digits of
           None \<Rightarrow> None
         | Some n \<Rightarrow> (let v = (if neg then - int n else int n) in if fits_int64 v then Some v else None))"

section \<open>Flags\<close>

datatype flag_kind = StringFlag | BoolFlag | IntFlag

datatype flag_value = StringValue string | BoolValue bool | IntValue int

definition set_flag :: "flag_kind \<Rightarrow> string \<Rightarrow> flag_value option" where
  "set_flag kind s = (case kind of
     StringFlag \<Rightarrow> Some (StringValue s)
   | BoolFlag \<Rightarrow> map_option BoolValue (ParseBool s)
   | IntFlag \<Rightarrow> map_option IntValue (ParseInt0 s))"

text \<open>A name and, after the first equals sign that is not its first character, a value.\<close>

definition flag_parts :: "string \<Rightarrow> string \<times> string option" where
  "flag_parts s =
     (if s = [] then ([], None)
      else let name = hd s # takeWhile (\<lambda>c. c \<noteq> CHR ''='') (tl s);
               rest = dropWhile (\<lambda>c. c \<noteq> CHR ''='') (tl s)
           in (name, if rest = [] then None else Some (tl rest)))"

text \<open>\<open>FlagSet.Parse\<close>: the flags in the order they were set and the arguments after them, or the error.\<close>

function parse_flags :: "(string \<times> flag_kind) list \<Rightarrow> string list \<Rightarrow> ((string \<times> flag_value) list \<times> string list) option" where
  "parse_flags kinds [] = Some ([], [])"
| "parse_flags kinds (s # args) =
     (if length s < 2 \<or> hd s \<noteq> CHR ''-'' then Some ([], s # args)
      else if s = ''--'' then Some ([], args)
      else let body = (if s ! 1 = CHR ''-'' then drop 2 s else drop 1 s); (name, given) = flag_parts body
           in if hd body = CHR ''-'' \<or> hd body = CHR ''='' then None
              else case map_of kinds name of
                None \<Rightarrow> None
              | Some kind \<Rightarrow>
                (case (given, kind, args) of
                   (Some v, _, _) \<Rightarrow>
                     (case set_flag kind v of None \<Rightarrow> None
                      | Some x \<Rightarrow> map_option (\<lambda>(set, rest). ((name, x) # set, rest)) (parse_flags kinds args))
                 | (None, BoolFlag, _) \<Rightarrow> map_option (\<lambda>(set, rest). ((name, BoolValue True) # set, rest)) (parse_flags kinds args)
                 | (None, _, []) \<Rightarrow> None
                 | (None, _, v # args') \<Rightarrow>
                     (case set_flag kind v of None \<Rightarrow> None
                      | Some x \<Rightarrow> map_option (\<lambda>(set, rest). ((name, x) # set, rest)) (parse_flags kinds args'))))"
  by pat_completeness auto
termination by (relation "measure (\<lambda>(kinds, args). length args)") auto

text \<open>The last setting of a flag is the one that counts.\<close>

definition string_flag :: "(string \<times> flag_value) list \<Rightarrow> string \<Rightarrow> string \<Rightarrow> string" where
  "string_flag settings name fallback = (case map_of (rev settings) name of Some (StringValue s) \<Rightarrow> s | _ \<Rightarrow> fallback)"

definition bool_flag :: "(string \<times> flag_value) list \<Rightarrow> string \<Rightarrow> bool \<Rightarrow> bool" where
  "bool_flag settings name fallback = (case map_of (rev settings) name of Some (BoolValue b) \<Rightarrow> b | _ \<Rightarrow> fallback)"

definition int_flag :: "(string \<times> flag_value) list \<Rightarrow> string \<Rightarrow> int \<Rightarrow> int" where
  "int_flag settings name fallback = (case map_of (rev settings) name of Some (IntValue n) \<Rightarrow> n | _ \<Rightarrow> fallback)"

section \<open>The migration command\<close>

definition migrationDatabaseURL :: "(string \<Rightarrow> string) \<Rightarrow> string" where
  "migrationDatabaseURL getenv =
     (if getenv ''DATABASE_URL'' \<noteq> [] then getenv ''DATABASE_URL'' else ''postgres://im:im@localhost:5433/im?sslmode=disable'')"

definition pad3 :: "int \<Rightarrow> string" where
  "pad3 v = (let s = FormatInt v in replicate (3 - length s) (CHR ''0'') @ s)"

definition printUsage :: "string list" where
  "printUsage = [''usage:'', ''  im-migrate up [-database-url URL] [-allow-maintenance]'',
     ''  im-migrate baseline -to VERSION [-database-url URL] (reviewed: 15, 16)'']"

text \<open>What the flag set and the errors print after their prefix is not modelled.\<close>

definition command_flags :: "string \<Rightarrow> (string \<times> flag_kind) list" where
  "command_flags command =
     (''database-url'', StringFlag) # (if command = ''up'' then [(''allow-maintenance'', BoolFlag)] else [(''to'', IntFlag)])"

definition up_problem :: "migration_error \<Rightarrow> string" where
  "up_problem err = (case err of
     ErrBaselineRequired \<Rightarrow> ''migration refused: existing database has no migration history; run a verified baseline before up''
   | ErrMaintenanceRequired \<Rightarrow> ''migration refused: stop message writers and rerun with -allow-maintenance''
   | _ \<Rightarrow> ''migration failed: '')"

definition baseline_problem :: "migration_error \<Rightarrow> string" where
  "baseline_problem err = (case err of
     ErrBaselineMismatch \<Rightarrow> ''baseline refused: ''
   | ErrMigrationHistoryExists \<Rightarrow> ''baseline refused: database already has migration history; use up''
   | _ \<Rightarrow> ''baseline failed: '')"

definition progress_line :: "Migration \<Rightarrow> string" where
  "progress_line m = ''applied '' @ pad3 (mg_Version m) @ ''_'' @ mg_Name m"

record command_result =
  cr_exit :: int
  cr_stdout :: "string list"
  cr_stderr :: "string list"

definition run_migrate ::
  "(byte_string \<Rightarrow> byte_string) \<Rightarrow> (string \<Rightarrow> string) \<Rightarrow> 'd sql_engine \<Rightarrow> 'd mig_env \<Rightarrow> (string \<Rightarrow> bool) \<Rightarrow> (string \<Rightarrow> string) \<Rightarrow>
   dir_entry list option \<Rightarrow> string list \<Rightarrow> 'd mig_db \<Rightarrow> command_result \<times> 'd mig_db" where
  "run_migrate sha256 table engine env connects getenv files arguments db =
     (if arguments = [] \<or> hd arguments \<noteq> ''up'' \<and> hd arguments \<noteq> ''baseline''
      then (\<lparr>cr_exit = 2, cr_stdout = [], cr_stderr = printUsage\<rparr>, db)
      else let command = hd arguments in
      case parse_flags (command_flags command) (tl arguments) of
        None \<Rightarrow> (\<lparr>cr_exit = 2, cr_stdout = [], cr_stderr = []\<rparr>, db)
      | Some (settings, rest) \<Rightarrow>
        if rest \<noteq> [] then (\<lparr>cr_exit = 2, cr_stdout = [], cr_stderr = [''unexpected positional arguments'']\<rparr>, db)
        else if \<not> connects (string_flag settings ''database-url'' (migrationDatabaseURL getenv))
        then (\<lparr>cr_exit = 1, cr_stdout = [], cr_stderr = [''connect to migration database: '']\<rparr>, db)
        else if command = ''baseline'' then
          let target = int_flag settings ''to'' 0 in
          if target = 0 then (\<lparr>cr_exit = 2, cr_stdout = [], cr_stderr = [''baseline requires an explicit -to version'']\<rparr>, db)
          else (case Baseline sha256 table engine env True target files db of
                  (Some err, db') \<Rightarrow> (\<lparr>cr_exit = 1, cr_stdout = [], cr_stderr = [baseline_problem err]\<rparr>, db')
                | (None, db') \<Rightarrow> (\<lparr>cr_exit = 0, cr_stdout = [''recorded verified baseline through '' @ pad3 target], cr_stderr = []\<rparr>, db'))
        else
          (case Up sha256 table engine env True (bool_flag settings ''allow-maintenance'' False) files db of
             (Some err, reported, db') \<Rightarrow> (\<lparr>cr_exit = 1, cr_stdout = map progress_line reported, cr_stderr = [up_problem err]\<rparr>, db')
           | (None, reported, db') \<Rightarrow>
               (\<lparr>cr_exit = 0, cr_stdout = map progress_line reported @ [''database schema is current''], cr_stderr = []\<rparr>, db')))"

section \<open>The environment of the server\<close>

definition environmentString :: "(string \<Rightarrow> string) \<Rightarrow> string \<Rightarrow> string \<Rightarrow> string" where
  "environmentString getenv name fallback = (if getenv name \<noteq> [] then getenv name else fallback)"

text \<open>A process that cannot go on logs a line and exits: the line is the left result.\<close>

definition environmentInt :: "(string \<Rightarrow> string) \<Rightarrow> string \<Rightarrow> int \<Rightarrow> string + int" where
  "environmentInt getenv name fallback =
     (if getenv name = [] then Inr fallback
      else case Atoi (getenv name) of None \<Rightarrow> Inl (name @ '' must be an integer'') | Some parsed \<Rightarrow> Inr parsed)"

definition environmentBool :: "(string \<Rightarrow> string) \<Rightarrow> string \<Rightarrow> bool \<Rightarrow> string + bool" where
  "environmentBool getenv name fallback =
     (if getenv name = [] then Inr fallback
      else case ParseBool (getenv name) of None \<Rightarrow> Inl (name @ '' must be true or false'') | Some parsed \<Rightarrow> Inr parsed)"

text \<open>The part of a pool configuration the program sets; \<open>ParseConfig\<close> of the driver makes the rest from the URL.\<close>

record pool_config =
  pf_MaxConns :: int
  pf_Tracer :: "unit tracers option"

definition databasePoolConfig :: "(string \<Rightarrow> pool_config option) \<Rightarrow> string \<Rightarrow> string \<Rightarrow> string + pool_config" where
  "databasePoolConfig ParseConfig databaseURL maximumConnections =
     (case ParseConfig databaseURL of
        None \<Rightarrow> Inl ''cannot parse database URL''
      | Some config \<Rightarrow>
        if maximumConnections = [] then Inr config
        else case ParseInt 32 maximumConnections of
          None \<Rightarrow> Inl ''DATABASE_MAX_CONNECTIONS must be a positive integer''
        | Some parsed \<Rightarrow>
            if parsed \<le> 0 then Inl ''DATABASE_MAX_CONNECTIONS must be a positive integer''
            else Inr (config\<lparr>pf_MaxConns := parsed\<rparr>))"

definition traced :: "pool_config \<Rightarrow> pool_config" where
  "traced config = config\<lparr>pf_Tracer := attachDatabaseAcquireTracer (pf_Tracer config)\<rparr>"

section \<open>Start\<close>

text \<open>\<open>time.Duration (n) * time.Second\<close> in 64 bits.\<close>

definition wrap64 :: "int \<Rightarrow> int" where
  "wrap64 n = (n + 2 ^ 63) mod 2 ^ 64 - 2 ^ 63"

definition seconds :: "int \<Rightarrow> duration" where
  "seconds n = wrap64 (n * Second)"

text \<open>What the world answers: the drivers, the other machines, the schema check and the random token.\<close>

record 'net world =
  wo_ParseConfig :: "string \<Rightarrow> pool_config option"
  wo_newPool :: "pool_config \<Rightarrow> bool"
  wo_ping :: "pool_config \<Rightarrow> bool"
  wo_ready :: bool
  wo_redisURL :: "string \<Rightarrow> bool"
  wo_parseCIDR :: "string \<Rightarrow> 'net option"
  wo_hostname :: "string option"
  wo_token :: "string option"

record 'net application =
  app_pool :: pool_config
  app_outboxPool :: "pool_config option"
  app_responseCipher :: responseCipher
  app_rateLimitFailOpen :: bool
  app_trustedProxyNetworks :: "'net list"
  app_presence :: redisWebSocketPresence
  app_router :: redisRealtimeRouter
  app_worker :: outboxWorkerConfig
  app_addr :: string
  app_metricsAddr :: string

text \<open>The next step, unless the process exited.\<close>

definition or_exit :: "string + 'a \<Rightarrow> ('a \<Rightarrow> string + 'b) \<Rightarrow> string + 'b" where
  "or_exit x f = (case x of Inl err \<Rightarrow> Inl err | Inr v \<Rightarrow> f v)"

text \<open>The pool of the outbox worker: the API's when the number of its connections is zero.\<close>

definition outboxPool :: "'net world \<Rightarrow> (string \<Rightarrow> string) \<Rightarrow> string \<Rightarrow> string + pool_config option" where
  "outboxPool w getenv databaseURL =
     or_exit (environmentInt getenv ''OUTBOX_DATABASE_MAX_CONNECTIONS'' 0) (\<lambda>n.
     if n < 0 then Inl ''OUTBOX_DATABASE_MAX_CONNECTIONS must be zero or a positive integer''
     else if n = 0 then Inr None
     else or_exit (databasePoolConfig (wo_ParseConfig w) databaseURL (FormatInt n)) (\<lambda>config.
       if \<not> wo_newPool w (traced config) then Inl ''create Outbox database pool''
       else if \<not> wo_ping w (traced config) then Inl ''connect Outbox database pool''
       else Inr (Some (traced config))))"

definition realtime :: "'net world \<Rightarrow> (string \<Rightarrow> string) \<Rightarrow> string + redisWebSocketPresence \<times> redisRealtimeRouter" where
  "realtime w getenv =
     (case newRealtimeInstanceID (getenv ''REALTIME_INSTANCE_NAME'') (wo_hostname w) (wo_token w) of
        None \<Rightarrow> Inl ''create realtime instance identity''
      | Some instanceID \<Rightarrow>
        or_exit (environmentInt getenv ''WEBSOCKET_PRESENCE_TTL_SECONDS'' 30) (\<lambda>ttl.
        or_exit (environmentInt getenv ''WEBSOCKET_PRESENCE_RENEW_SECONDS'' 10) (\<lambda>renew.
        or_exit (newRedisWebSocketPresence True
                   (environmentString getenv ''REALTIME_REDIS_NAMESPACE'' defaultWebSocketPresenceNamespace) (seconds ttl) (seconds renew)) (\<lambda>presence.
        or_exit (newRedisRealtimeRouter True (Some presence) True instanceID) (\<lambda>router.
        Inr (presence, router))))))"

definition outboxConfig :: "(string \<Rightarrow> string) \<Rightarrow> string + outboxWorkerConfig" where
  "outboxConfig getenv =
     or_exit (environmentInt getenv ''OUTBOX_BATCH_SIZE'' (wc_BatchSize defaultOutboxWorkerConfig)) (\<lambda>batch.
     or_exit (environmentInt getenv ''OUTBOX_CONCURRENCY'' (wc_Concurrency defaultOutboxWorkerConfig)) (\<lambda>concurrency.
     newOutboxWorker True True (defaultOutboxWorkerConfig\<lparr>wc_BatchSize := batch, wc_Concurrency := concurrency\<rparr>)))"

definition connected_pool :: "'net world \<Rightarrow> pool_config \<Rightarrow> string + unit" where
  "connected_pool w config =
     (if \<not> wo_newPool w config then Inl ''create database pool''
      else if \<not> wo_ping w config then Inl ''connect to database''
      else if \<not> wo_ready w then Inl ''database schema readiness check failed'' else Inr ())"

definition main_start :: "'net world \<Rightarrow> (string \<Rightarrow> string) \<Rightarrow> string + 'net application" where
  "main_start w getenv =
     (let databaseURL = environmentString getenv ''DATABASE_URL'' ''postgres://im:im@localhost:5433/im?sslmode=disable'' in
      or_exit (databasePoolConfig (wo_ParseConfig w) databaseURL (getenv ''DATABASE_MAX_CONNECTIONS'')) (\<lambda>config.
      or_exit (connected_pool w (traced config)) (\<lambda>_.
      or_exit (outboxPool w getenv databaseURL) (\<lambda>outbox.
      or_exit (environmentInt getenv ''IDEMPOTENCY_KEY_VERSION'' 1) (\<lambda>keyVersion.
      or_exit (newResponseCipherKeyring (getenv ''IDEMPOTENCY_KEY'') keyVersion (getenv ''IDEMPOTENCY_PREVIOUS_KEYS'')) (\<lambda>cipher.
      if \<not> wo_redisURL w (environmentString getenv ''REDIS_URL'' ''redis://localhost:6379/0'') then Inl ''configure Redis''
      else case parseTrustedProxyNetworks (wo_parseCIDR w) (getenv ''TRUSTED_PROXY_CIDRS'') of
        None \<Rightarrow> Inl ''configure trusted proxies''
      | Some networks \<Rightarrow>
      or_exit (environmentBool getenv ''AUTH_RATE_LIMIT_FAIL_OPEN'' False) (\<lambda>failOpen.
      or_exit (realtime w getenv) (\<lambda>(presence, router).
      or_exit (outboxConfig getenv) (\<lambda>worker.
      Inr \<lparr>app_pool = traced config, app_outboxPool = outbox, app_responseCipher = cipher, app_rateLimitFailOpen = failOpen,
           app_trustedProxyNetworks = networks, app_presence = presence, app_router = router, app_worker = worker,
           app_addr = environmentString getenv ''HTTP_ADDR'' '':8080'',
           app_metricsAddr = environmentString getenv ''METRICS_ADDR'' ''127.0.0.1:9090''\<rparr>)))))))))"

section \<open>End\<close>

text \<open>The events of the end, in their order; a wait ends when the part is done or the time of the shutdown is up.\<close>

datatype part = HTTPServer | MetricsServer | OutboxWorkerPart | RouterPart | HubPart

datatype shutdown_event = ShutDown part | Cancel part | Stopped part | TimedOut part

definition wait_for :: "(part \<Rightarrow> bool) \<Rightarrow> part \<Rightarrow> shutdown_event" where
  "wait_for in_time p = (if in_time p then Stopped p else TimedOut p)"

definition main_end :: "(part \<Rightarrow> bool) \<Rightarrow> shutdown_event list" where
  "main_end in_time =
     [ShutDown HTTPServer, ShutDown MetricsServer, Cancel OutboxWorkerPart, wait_for in_time OutboxWorkerPart,
      Cancel RouterPart, wait_for in_time RouterPart, Cancel HubPart, wait_for in_time HubPart]"

section \<open>What the exit code of the migrator means\<close>

lemma run_migrate_up_zero:
  assumes "run_migrate sha256 table engine env connects getenv files (''up'' # args) db = (res, db')" and "cr_exit res = 0"
  shows "\<exists>allow reported. Up sha256 table engine env True allow files db = (None, reported, db')
    \<and> cr_stdout res = map progress_line reported @ [''database schema is current''] \<and> cr_stderr res = []"
  using assms
  by (auto simp: run_migrate_def Let_def split: option.splits if_splits prod.splits) blast

lemma run_migrate_exit:
  assumes "run_migrate sha256 table engine env connects getenv files arguments db = (res, db')"
  shows "cr_exit res \<in> {0, 1, 2}" and "cr_exit res = 2 \<Longrightarrow> db' = db" and "cr_exit res = 0 \<longleftrightarrow> cr_stderr res = [] \<and> cr_stdout res \<noteq> []"
  using assms
  by (auto simp: run_migrate_def printUsage_def Let_def split: option.splits if_splits prod.splits)


lemma two_files_command:
  "run_migrate log_sha id log_engine calm (\<lambda>url. url = ''db'') (\<lambda>name. []) (Some two_files) [''up'', ''-database-url=db''] after_lost_commit =
     (\<lparr>cr_exit = 0, cr_stdout = [''applied 002_b'', ''database schema is current''], cr_stderr = []\<rparr>,
      \<lparr>md_history = Some [applied_row (logged 1 ''a'' ''A''), applied_row (logged 2 ''b'' ''B'')],
        md_schema = [[newline, CHR ''A'', newline], [newline, CHR ''B'', newline]]\<rparr>)"
proof -
  have "parse_flags (command_flags ''up'') [''-database-url=db''] = Some ([(''database-url'', StringValue ''db'')], [])" by code_simp
  moreover have "string_flag [(''database-url'', StringValue ''db'')] ''database-url'' (migrationDatabaseURL (\<lambda>name. [])) = ''db''"
      "bool_flag [(''database-url'', StringValue ''db'')] ''allow-maintenance'' False = False"
    by code_simp+
  moreover have "progress_line (logged 2 ''b'' ''B'') = ''applied 002_b''" by code_simp
  ultimately show ?thesis using two_files_resumed by (simp add: run_migrate_def)
qed


section \<open>What a started server can rely on\<close>

lemma or_exit_Inr [simp]: "or_exit x f = Inr y \<longleftrightarrow> (\<exists>v. x = Inr v \<and> f v = Inr y)"
  by (cases x) (auto simp: or_exit_def)

lemma outboxPool_positive: "outboxPool w getenv url = Inr (Some config) \<Longrightarrow> 0 < pf_MaxConns config"
  by (auto simp: outboxPool_def databasePoolConfig_def traced_def FormatInt_nonempty split: if_splits option.splits)

lemma outboxConfig_valid:
  assumes "outboxConfig getenv = Inr config"
  shows "0 < claimLimit config" "0 < wc_AttemptTimeout config" "wc_AttemptTimeout config < wc_LeaseDuration config" "wc_EventTypes config \<noteq> []"
  using assms by (auto simp: outboxConfig_def newOutboxWorker_def claimLimit_def defaultOutboxWorkerConfig_def Second_def Millisecond_def split: if_splits)

lemma realtime_valid:
  assumes "realtime w getenv = Inr (presence, router)"
  shows "0 < ps_renewInterval presence" "ps_renewInterval presence < ps_ttl presence" "rr_presence router = presence" "rr_instanceID router \<noteq> []"
  using assms by (auto simp: realtime_def newRedisWebSocketPresence_def newRedisRealtimeRouter_def split: if_splits option.splits)

lemma CheckReady_history:
  assumes "CheckReady sha256 table env connected files db" and "Load sha256 table files = Inr ms"
  shows "\<exists>history. md_history db = Some history \<and> (distinct (map ap_Version history) \<longrightarrow> mset history = mset (map applied_row ms))"
proof -
  obtain history where "md_history db = Some history" using assms by (auto simp: CheckReady_def split: if_splits)
  then show ?thesis using CheckReady_iff [OF assms(2)] assms(1) by blast
qed

text \<open>
  C29: a server that started has what its parts rely on, whatever is in its environment: the database's
  history is exactly the chain of migrations it was built with; the worker claims at least one event
  and its attempts end before their lease; presence is renewed before it expires; the key that seals
  responses has 32 bytes; an isolated pool has a connection; and requests that the rate limiter cannot
  judge pass only where the operator said so.
\<close>

theorem started_server_is_configured:
  assumes "main_start w getenv = Inr app" and "wo_ready w = CheckReady sha256 table env connected files db"
    and "Load sha256 table files = Inr ms"
  shows "(\<exists>history. md_history db = Some history \<and> (distinct (map ap_Version history) \<longrightarrow> mset history = mset (map applied_row ms)))
    \<and> 0 < claimLimit (app_worker app) \<and> 0 < wc_AttemptTimeout (app_worker app) \<and> wc_AttemptTimeout (app_worker app) < wc_LeaseDuration (app_worker app)
    \<and> 0 < ps_renewInterval (app_presence app) \<and> ps_renewInterval (app_presence app) < ps_ttl (app_presence app)
    \<and> rr_presence (app_router app) = app_presence app
    \<and> (\<exists>key. ci_keys (app_responseCipher app) (ci_keyVersion (app_responseCipher app)) = Some key \<and> length key = 32)
    \<and> (app_rateLimitFailOpen app \<longrightarrow> ParseBool (getenv ''AUTH_RATE_LIMIT_FAIL_OPEN'') = Some True)
    \<and> (\<forall>config. app_outboxPool app = Some config \<longrightarrow> 0 < pf_MaxConns config)"
proof -
  from assms(1) obtain config url outbox keyVersion cipher failOpen presence router worker networks where parts:
      "connected_pool w (traced config) = Inr ()" "outboxPool w getenv url = Inr outbox"
      "newResponseCipherKeyring (getenv ''IDEMPOTENCY_KEY'') keyVersion (getenv ''IDEMPOTENCY_PREVIOUS_KEYS'') = Inr cipher"
      "environmentBool getenv ''AUTH_RATE_LIMIT_FAIL_OPEN'' False = Inr failOpen" "realtime w getenv = Inr (presence, router)"
      "outboxConfig getenv = Inr worker"
    and app: "app_outboxPool app = outbox" "app_responseCipher app = cipher" "app_rateLimitFailOpen app = failOpen" "app_presence app = presence"
      "app_router app = router" "app_worker app = worker"
    by (auto simp: main_start_def Let_def split: if_splits option.splits)
  have "CheckReady sha256 table env connected files db"
    using parts(1) assms(2) by (simp add: connected_pool_def split: if_splits)
  moreover have "failOpen \<longrightarrow> ParseBool (getenv ''AUTH_RATE_LIMIT_FAIL_OPEN'') = Some True"
    using parts(4) by (auto simp: environmentBool_def split: if_splits option.splits)
  moreover have "\<exists>key. ci_keys cipher (ci_keyVersion cipher) = Some key \<and> length key = 32"
    using keyring_active [OF parts(3)] by auto
  ultimately show ?thesis
    using CheckReady_history [OF _ assms(3)] outboxPool_positive parts(2) outboxConfig_valid [OF parts(6)] realtime_valid [OF parts(5)] app by auto
qed

definition small_world :: "nat world" where
  "small_world = \<lparr>wo_ParseConfig = (\<lambda>url. Some \<lparr>pf_MaxConns = 4, pf_Tracer = None\<rparr>), wo_newPool = (\<lambda>_. True), wo_ping = (\<lambda>_. True),
     wo_ready = True, wo_redisURL = (\<lambda>_. True), wo_parseCIDR = (\<lambda>_. None), wo_hostname = Some ''host'', wo_token = Some ''0123456789abcdef''\<rparr>"

definition small_environment :: "string \<Rightarrow> string" where
  "small_environment name =
     (if name = ''IDEMPOTENCY_KEY'' then replicate 43 (CHR ''A'') else if name = ''OUTBOX_DATABASE_MAX_CONNECTIONS'' then ''2'' else [])"

lemma small_server_starts: "\<exists>app. main_start small_world small_environment = Inr app"
proof -
  have environment: "environmentInt small_environment ''OUTBOX_DATABASE_MAX_CONNECTIONS'' 0 = Inr 2"
      "environmentInt small_environment ''IDEMPOTENCY_KEY_VERSION'' 1 = Inr 1"
      "environmentBool small_environment ''AUTH_RATE_LIMIT_FAIL_OPEN'' False = Inr False"
      "environmentInt small_environment ''WEBSOCKET_PRESENCE_TTL_SECONDS'' 30 = Inr 30"
      "environmentInt small_environment ''WEBSOCKET_PRESENCE_RENEW_SECONDS'' 10 = Inr 10"
      "environmentInt small_environment ''OUTBOX_BATCH_SIZE'' 64 = Inr 64" "environmentInt small_environment ''OUTBOX_CONCURRENCY'' 16 = Inr 16"
      "ParseInt 32 (FormatInt 2) = Some 2"
    by code_simp+
  have names: "small_environment ''DATABASE_MAX_CONNECTIONS'' = []" "small_environment ''IDEMPOTENCY_PREVIOUS_KEYS'' = []"
      "small_environment ''IDEMPOTENCY_KEY'' = replicate 43 (CHR ''A'')" "small_environment ''TRUSTED_PROXY_CIDRS'' = []"
      "small_environment ''REALTIME_INSTANCE_NAME'' = []" "small_environment ''REALTIME_REDIS_NAMESPACE'' = []"
    by (simp_all add: small_environment_def)
  have empty: "TrimSpace [] = []" by code_simp
  have "outboxPool small_world small_environment url = Inr (Some \<lparr>pf_MaxConns = 2, pf_Tracer = Some AcquireTracer\<rparr>)" for url
    by (simp add: outboxPool_def environment or_exit_def databasePoolConfig_def small_world_def traced_def attachDatabaseAcquireTracer_def)
  moreover have "\<exists>presence router. realtime small_world small_environment = Inr (presence, router)"
    by (simp add: realtime_def environment names newRealtimeInstanceID_def small_world_def newRedisWebSocketPresence_def newRedisRealtimeRouter_def
        seconds_def wrap64_def Second_def)
  moreover have "\<exists>config. outboxConfig small_environment = Inr config"
    by (simp add: outboxConfig_def environment newOutboxWorker_def defaultOutboxWorkerConfig_def Second_def Millisecond_def)
  ultimately show ?thesis
    using old_ring_made
    by (auto simp: main_start_def names environment empty databasePoolConfig_def connected_pool_def parseTrustedProxyNetworks_def small_world_def
        split: if_splits)
qed

theorem started_server_witness:
  "\<exists>app. main_start small_world small_environment = Inr app \<and> 0 < claimLimit (app_worker app)
     \<and> wc_AttemptTimeout (app_worker app) < wc_LeaseDuration (app_worker app)"
proof -
  let ?db = "\<lparr>md_history = Some [applied_row (logged 1 ''a'' ''A''), applied_row (logged 2 ''b'' ''B'')],
        md_schema = [[newline, CHR ''A'', newline], [newline, CHR ''B'', newline]]\<rparr>"
  obtain app where app: "main_start small_world small_environment = Inr app" using small_server_starts by blast
  have "recorded [logged 1 ''a'' ''A'', logged 2 ''b'' ''B''] 2 ?db" by (simp add: recorded_def)
  then have "CheckReady log_sha id calm True (Some two_files) ?db"
    using ready_after_all [OF two_files_loaded, of ?db calm] by (simp add: numeral_2_eq_2)
  then have "wo_ready small_world = CheckReady log_sha id calm True (Some two_files) ?db" by (simp add: small_world_def)
  from started_server_is_configured [OF app this two_files_loaded] app show ?thesis by blast
qed

section \<open>Wrapped durations\<close>

text \<open>A time to live of more than 584 years passes the checks as one of 30.29 seconds.\<close>

lemma long_ttl_wraps: "seconds 18446744104 = 30290448384" "seconds 30 = 30000000000"
  by (simp_all add: seconds_def wrap64_def Second_def)

lemma seconds_exact: "\<bar>n\<bar> \<le> 9223372036 \<Longrightarrow> seconds n = n * Second"
  by (simp add: seconds_def wrap64_def Second_def)

section \<open>The order of the end\<close>

text \<open>Without a timeout the worker has stopped before the router is cancelled, and the router before the hub.\<close>

lemma parts_stop_in_order:
  assumes "\<And>p. in_time p"
  shows "filter (\<lambda>e. case e of Stopped p \<Rightarrow> True | Cancel p \<Rightarrow> True | _ \<Rightarrow> False) (main_end in_time) =
    [Cancel OutboxWorkerPart, Stopped OutboxWorkerPart, Cancel RouterPart, Stopped RouterPart, Cancel HubPart, Stopped HubPart]"
  by (simp add: main_end_def wait_for_def assms)

end
