(* ===== verification/Spec2Isabelle.thy ===== *)
theory Spec2Isabelle
  imports MessageHistory RateLimit ClientSync WebSocketSession MigrateRuns Packets Fence LabCache LoadTest LoadMetrics LoadSetup Server Startup
begin

text \<open>
  A verification library for the backend of a chat service (\<^verbatim>\<open>src/\<close>, Go).

  \<^bold>\<open>The program.\<close> Users exchange direct messages. A message is stored in PostgreSQL with a sequence
  number of its conversation and, in the same transaction, with an outbox event
  (\<^verbatim>\<open>message_service.go\<close>, \<^verbatim>\<open>message_store.go\<close>). A worker claims due events under a lease and hands them
  to a publisher (\<^verbatim>\<open>outbox.go\<close>), which finds the connections of both parties in Redis
  (\<^verbatim>\<open>redis_presence.go\<close>), serves those of its own process through the hub (\<^verbatim>\<open>websocket.go\<close>) and sends the
  rest to the other instances (\<^verbatim>\<open>realtime_router.go\<close>). This path may lose or repeat; what a client can
  rely on is reading the stream page by page and acknowledging it (\<^verbatim>\<open>conversation_sync.go\<close>,
  \<^verbatim>\<open>sync_ack.go\<close>, \<^verbatim>\<open>message_history.go\<close>), as the headless client does (\<^verbatim>\<open>internal/headlessclient\<close>).
  Accounts have sessions with rotating refresh tokens (\<^verbatim>\<open>auth.go\<close>, \<^verbatim>\<open>auth_crypto.go\<close>,
  \<^verbatim>\<open>rate_limit.go\<close>). \<^verbatim>\<open>main.go\<close> puts the parts together behind HTTP. Around it are the migrator
  (\<^verbatim>\<open>internal/migrate\<close>, \<^verbatim>\<open>cmd/im-migrate\<close>), a load test (\<^verbatim>\<open>cmd/im-loadtest\<close>), metrics (\<^verbatim>\<open>metrics.go\<close>,
  \<^verbatim>\<open>database_observability.go\<close>) and a laboratory of reliability patterns
  (\<^verbatim>\<open>internal/reliabilitylab\<close>).

  \<^bold>\<open>The state.\<close> The database is the record \<open>db\<close> of theory \<open>Database\<close>: a list of row records per table
  of \<^verbatim>\<open>schema.sql\<close> and the identity sequences. A SQL statement is a function on it made of the
  operations of \<open>Prelude\<close> (selection, conditional update, ordering with a limit), and the constraints
  the program relies on are branches of the statements that violate them. Redis, the state file of
  the client, the hub and the connections are records of their own theories. Identifiers are \<open>int\<close>
  with the 64-bit range written out where a value can leave it, times are \<open>int\<close> (microseconds in the
  database, nanoseconds for Go's durations), strings are lists of bytes with the functions of Go's
  library in \<open>GoStrings\<close>.

  \<^bold>\<open>Failures and interference.\<close> A handler takes an environment: which statement fails, how a COMMIT
  ends (done, lost but applied, lost and not applied), the clocks, the random bytes, and what other
  transactions commit at each point where READ COMMITTED lets them. The other side is described by
  what it may do to the tables, not by what it is: the relation \<open>db_le\<close> for the chat tables, the
  steps \<open>auth_step\<close> for the accounts, together \<open>advances\<close>. Theory \<open>Server\<close> shows that every request of
  this server does to the others no more than that (locale \<open>rely_guarantee\<close> and its interpretation
  on \<open>system_step\<close>), which closes the circle: assumption and guarantee are the same relation.

  \<^bold>\<open>Theories.\<close>
  \<^item> \<open>Prelude\<close>, \<open>GoStrings\<close>, \<open>Database\<close>: responses and errors, row operations, strings and base64, tables
    and the invariant \<open>chat_inv\<close> (one conversation per pair, gapless sequence numbers, one message per
    client id).
  \<^item> \<open>MessageService\<close>: \<^verbatim>\<open>message_handler.go\<close>, \<^verbatim>\<open>message_service.go\<close>, \<^verbatim>\<open>message_store.go\<close>, the error contract of
    \<^verbatim>\<open>api_errors.go\<close>. Sending keeps the invariant under every failure and race, creates exactly one
    message and event, is idempotent and, undisturbed, answers.
  \<^item> \<open>ConversationSync\<close>: conversation lists, pages and acknowledgements. Pages are exact, acknowledgements
    monotone; the locale \<open>snapshot_stream\<close> has the contract of a paged stream and that following the
    pages returns all of it.
  \<^item> \<open>MessageHistory\<close>: the cursor and the three directions of \<^verbatim>\<open>message_history.go\<close>.
  \<^item> \<open>Outbox\<close>: claim, publish, mark, retry and clean up, workers as a step relation. No event is lost, a
    former holder of a lease changes nothing, the detailed cycle refines the relation, delays are the
    capped exponential.
  \<^item> \<open>RateLimit\<close>: the Redis script, trusted proxies and the enforcement; locale \<open>admission\<close>.
  \<^item> \<open>Hub\<close>, \<open>Presence\<close>, \<open>Router\<close>, \<open>WebSocketSession\<close>: the goroutine of the hub and the publisher, the Redis
    scripts (locale \<open>ownership\<close>), routing between instances, the handshake and the life of a connection
    with the revocations that end it.
  \<^item> \<open>AuthCrypto\<close>, \<open>Auth\<close>, \<open>AuthSessions\<close>: sealed responses and key rotation, password hashes, tokens; the
    handlers of \<^verbatim>\<open>auth.go\<close>; the invariant of accounts, sessions and tokens in every run, replay,
    revocation, idempotent rotation, password change.
  \<^item> \<open>HeadlessClient\<close>, \<open>ClientSync\<close>: the encrypted state file (locale \<open>atomic_store\<close>), synchronisation and
    refresh of the client, and both against the server: the file reproduces the stream, and an
    interrupted refresh recovers.
  \<^item> \<open>SqlScript\<close>, \<open>Migrate\<close>, \<open>MigrateRuns\<close>: the splitter of scripts equals a left-to-right reference; loading,
    applying, baseline and readiness; what runs leave behind that were interrupted anywhere.
  \<^item> \<open>Packets\<close>, \<open>Fence\<close>, \<open>LabCache\<close>: the laboratory. Packets are never overspent, superseded owners cannot
    write, caches converge.
  \<^item> \<open>LoadTracker\<close>, \<open>LoadTest\<close>, \<open>LoadSetup\<close>, \<open>LoadMetrics\<close>: the sharded tracker refines plain sets; a run that
    exits with 0 delivered everything; the preparation covers every device; quantiles and peaks are
    those of the observations of the run.
  \<^item> \<open>Server\<close>: routing by the rules of Go's \<open>ServeMux\<close>, decoding, authentication, handlers and answers as
    one function \<open>serve\<close>; the system of requests and worker statements \<open>system_step\<close>; who may see what.
  \<^item> \<open>Observability\<close>: descriptors, observers, the captured status, the middlewares around the routes,
    request ids, the tracer of the pool, the compare-and-swap of the high watermark, the collectors.
  \<^item> \<open>Startup\<close>: the command line and exit codes of the migrator, and the start and end of the server.
  \<^item> This theory: the properties of the whole server.

  \<^bold>\<open>Loops and bounds.\<close> Loops are structural recursion or have a termination proof. Where a loop depends
  on answers of another process it takes fuel, and theorems say how much is enough: following the
  pages of a conversation needs more fuel than messages left, since every page but the last brings
  one; the load test stops by itself after 10000 pages of 200, so its theorems are for streams of at
  most 2000000 messages. The loop of the SQL splitter is a partial function into \<open>option\<close>, and it is
  proved to return on every text. The retries of the high watermark end in every schedule.

  \<^bold>\<open>Parameters.\<close> Code that is not in the repository is an argument: Argon2id, SHA-256 and AES-GCM, the
  JSON codecs and body decoders, the execution of migration scripts and the schema signatures by
  PostgreSQL, Unicode case folding, URL and CIDR parsers, the Prometheus parser. What is assumed of
  them is a named hypothesis (a hash of the stated length, a codec that reads what it wrote), each
  with an instance in a witness.

  \<^bold>\<open>Not modelled.\<close> The endpoint \<^verbatim>\<open>/metrics\<close> and the Prometheus library, whose calls are recorded instead;
  timers, signals, contexts that are cancelled while a statement runs (a failed statement stands for
  them) and the goroutines themselves, whose interleavings are the step relations; the WebSocket and
  HTTP protocols; the SQL of the schema signatures (\<^verbatim>\<open>schema.go\<close>), which only the database can run;
  the flags, the printing and the JSON of the load test's report; log lines; floating point rounding.
\<close>

section \<open>The whole server\<close>

text \<open>
  C6: from the empty database, and from every state that satisfies it, whatever requests the server
  serves and whatever statements its outbox worker runs, in any order and with whatever others
  commit between their statements, every state reached satisfies the invariants of the chat, account
  and acknowledgement tables, keeps the stored messages, memberships and conversations of every
  earlier state, and keeps its users, revocations and issued tokens.
\<close>

theorem reachable_states_are_consistent:
  assumes "d = empty_db \<or> system_inv d" and "(system_step cr dc)\<^sup>*\<^sup>* d e"
  shows "system_inv e \<and> db_le d e \<and> keeps d e"
proof -
  have "system_inv d" using assms(1) system_inv_empty by blast
  then show ?thesis using system_steps_inv [OF assms(2)] advances_inv by blast
qed

theorem reachable_states_witness:
  "system_inv (with_session two_users) \<and> system_inv signed_in \<and> db_le (with_session two_users) signed_in"
proof -
  have "system_step sample_crypto hello_decoders (with_session two_users) signed_in"
    using system_step.request [OF hello_server_fair, of sample_crypto "with_session two_users" hello_request]
    by (simp only: hello_request_answer prod.sel)
  then show ?thesis using reachable_states_are_consistent two_users_inv by blast
qed

text \<open>
  C7: an answer with the data of a user is only given to a request whose token authenticates a user,
  and it shows that user only the messages he sent or received, the conversations and
  acknowledgements of those he is a member of, and his own sessions, whatever the others commit
  while the request runs.
\<close>

theorem requests_reveal_only_own_data:
  assumes "system_inv d" and "fair_env cr dc env r d"
    and "serve cr dc env r d = (Answered (JSON status body), dropped, d')" and "\<not> public_payload body"
  shows "\<exists>who. requireAuthentication cr (ev_check env) (hr_Authorization r) d = Inr who \<and> visible_to d' (au_UserID who) body"
proof -
  have between: "chat_inv (ev_between env d)" "sync_ok (ev_between env d)"
    using fair_envD(4) [OF assms(2), of d] assms(1) by (simp_all add: advances_def chat_step_def system_inv_def)
  obtain who ep arguments where "requireAuthentication cr (ev_check env) (hr_Authorization r) d = Inr who"
      "serve_private cr dc env r ep arguments who (ev_between env d) = (Answered (JSON status body), dropped, d')"
    using serve_private_origin [OF assms(3,4)] by blast
  then show ?thesis using serve_private_visible [OF fair_envD(3) [OF assms(2)] between] by blast
qed

theorem requests_reveal_only_own_data_witness:
  "\<exists>who. requireAuthentication sample_crypto (sample_env 2000) (hr_Authorization page_request) signed_in = Inr who
     \<and> visible_to signed_in (au_UserID who) (PageBody \<lparr>pg_ConversationID = 1, pg_Messages = [hello_message], pg_NextCursor = 1,
         pg_SnapshotCursor = 1, pg_HasMore = False\<rparr>)"
  using requests_reveal_only_own_data [OF signed_in_inv calm_server_fair page_request_answer] by (simp add: calm_server_def)

text \<open>
  C8: a message the server answered with reaches both of its parties: whatever the server does
  afterwards, a client of the sender or of the receiver that reads the conversation from its start,
  page by page, ends after finitely many pages with the message among those it read.
\<close>

theorem answered_message_reaches_both:
  assumes "system_inv d" and "fair_env cr dc env r d"
    and "serve cr dc env r d = (Answered (JSON status (MessageBody m)), dropped, d')" and "uid \<in> {m_SenderID m, m_ReceiverID m}"
    and "(system_step cr dc)\<^sup>*\<^sup>* d' (states 0)" and "\<And>i. (system_step cr dc)\<^sup>*\<^sup>* (states 0) (states i)"
    and "fits_int64 (m_ConversationID m)" and "\<And>i. stream_end (m_ConversationID m) (states i) \<le> int64_max"
    and "1 \<le> limit" and "limit \<le> 200" and "stream_end (m_ConversationID m) (states 0) < int fuel"
  shows "\<exists>ms. drain (server_fetch uid (m_ConversationID m)) limit states fuel 0 0 None = Some ms \<and> m \<in> set ms"
proof -
  have "advances d d'" using serve_advances [OF assms(2)] assms(1,3) by (simp add: system_inv_def)
  then have "system_inv d'" using advances_inv(1) assms(1) by blast
  moreover have "takes_part uid m" using assms(4) by (auto simp: takes_part_def)
  ultimately show ?thesis using answered_message_drained [OF serve_message_stored [OF assms(3)]] assms(5-) by blast
qed

theorem answered_message_reaches_both_witness:
  "\<exists>ms. drain (server_fetch 2 1) 100 (\<lambda>_. signed_in) 2 0 0 None = Some ms \<and> hello_message \<in> set ms"
  using answered_message_reaches_both [OF two_users_inv hello_server_fair hello_request_answer,
      of 2 "\<lambda>_. signed_in" 100 2]
  by (simp add: hello_message_def stream_end_def fits_int64_def int64_min_def int64_max_def signed_in_def hello_db_def with_session_def)



end
